(* ===== verification/Go_Base.thy ===== *)
theory Go_Base
  imports Main "HOL-Library.Word" "HOL-Library.Sublist"
begin

text \<open>
  Prelude of the development: what the components share of the Go language and
  its standard library.

  \<^item> Go's 64-bit integers are \<open>64 word\<close>s read as two's complement; the
    comparison operators of the source are comparisons of \<open>sint\<close>.
  \<^item> Go strings and byte slices are \<open>string\<close>s, that is lists of bytes.
    The functions of package \<open>strings\<close> the sources call keep their names.
  \<^item> A fallible call \<open>(T, error)\<close> returns \<open>'e + 'a\<close>, with the error on the left.
  \<^item> A component that is a state machine states its steps as a relation, and the
    locale \<open>invariant_system\<close> lifts an invariant from steps to reachable states.
\<close>

named_theorems go_string "facts about the modelled functions of package strings"
named_theorems go_int64 "facts that move 64-bit arithmetic to the integers"

section \<open>64-bit integers\<close>

type_synonym int64 = "64 word"

text \<open>\<open>const maxInt64 = int64(^uint64(0) >> 1)\<close>, in internal/tokens/tokens.go.\<close>

definition maxInt64 :: int64 where
  "maxInt64 = drop_bit 1 (- 1)"

lemma maxInt64_eq: "maxInt64 = 9223372036854775807"
  by (simp add: maxInt64_def mask_eq_exp_minus_1)

lemma sint_maxInt64 [simp, go_int64]: "sint maxInt64 = 9223372036854775807"
  by (simp add: maxInt64_eq)

lemma sint64_bounds: "- 9223372036854775808 \<le> sint (a :: int64)" "sint (a :: int64) \<le> 9223372036854775807"
  using sint_greater_eq [of a] sint_less [of a] by simp_all

lemma sint64_add [go_int64]:
  fixes a b :: int64
  assumes "- 9223372036854775808 \<le> sint a + sint b" and "sint a + sint b \<le> 9223372036854775807"
  shows "sint (a + b) = sint a + sint b"
  using assms by (simp add: sint_word_ariths signed_take_bit_int_eq_self)

lemma sint64_diff [go_int64]:
  fixes a b :: int64
  assumes "- 9223372036854775808 \<le> sint a - sint b" and "sint a - sint b \<le> 9223372036854775807"
  shows "sint (a - b) = sint a - sint b"
  using assms by (simp add: sint_word_ariths signed_take_bit_int_eq_self)

text \<open>
  The test \<open>total > maxInt64 - part\<close> of the accumulators is exactly overflow of
  \<open>total + part\<close> when both are non-negative.
\<close>

lemma sint64_diff_max [go_int64]:
  fixes a :: int64
  assumes "0 \<le> sint a"
  shows "sint (maxInt64 - a) = 9223372036854775807 - sint a"
  using assms sint64_bounds [of a] by (subst sint64_diff) simp_all

section \<open>Reachable states and invariants\<close>

text \<open>
  The contract between a state machine and the safety properties stated of it:
  the invariant holds at the start and every step keeps it.
\<close>

inductive reachable_from :: "('s \<Rightarrow> bool) \<Rightarrow> ('s \<Rightarrow> 's \<Rightarrow> bool) \<Rightarrow> 's \<Rightarrow> bool"
  for start step where
  init: "start s \<Longrightarrow> reachable_from start step s"
| step: "reachable_from start step s \<Longrightarrow> step s t \<Longrightarrow> reachable_from start step t"

locale invariant_system =
  fixes start :: "'s \<Rightarrow> bool"
    and step :: "'s \<Rightarrow> 's \<Rightarrow> bool"
    and inv :: "'s \<Rightarrow> bool"
  assumes inv_start: "start s \<Longrightarrow> inv s"
    and inv_step: "inv s \<Longrightarrow> step s t \<Longrightarrow> inv t"
begin

lemma inv_reachable: "reachable_from start step s \<Longrightarrow> inv s"
  by (induction rule: reachable_from.induct) (auto intro: inv_start inv_step)

lemma inv_steps: "step\<^sup>*\<^sup>* s t \<Longrightarrow> inv s \<Longrightarrow> inv t"
  by (induction rule: rtranclp_induct) (auto intro: inv_step)

end

end
