(* ===== verification/Tokens.thy ===== *)
theory Tokens
  imports Go_Base
begin

text \<open>
  Token accounting: \<open>harness.Usage\<close> (usage.go), package \<open>internal/tokens\<close>
  (tokens.go), the per-engine readers of completion/usage.go and the session's
  accumulation \<open>Usage.add\<close> (session/turn.go). Figures are 64-bit integers, so
  the overflow guards of the source are modelled at their width.
\<close>

section \<open>The shared usage record\<close>

record usage =
  Known :: bool
  Input :: int64
  Output :: int64
  CacheRead :: int64
  CacheWrite :: int64
  Reasoning :: int64
  CacheKnown :: bool
  ReasoningKnown :: bool

text \<open>\<open>harness.Usage{}\<close>, the zero value: unknown accounting.\<close>

definition no_usage :: usage where
  "no_usage = \<lparr>Known = False, Input = 0, Output = 0, CacheRead = 0, CacheWrite = 0,
     Reasoning = 0, CacheKnown = False, ReasoningKnown = False\<rparr>"

definition Fresh :: "usage \<Rightarrow> int64 \<times> bool" where
  "Fresh u = (if \<not> Known u \<or> \<not> CacheKnown u then (0, False)
     else (Input u - CacheRead u - CacheWrite u, True))"

definition Total :: "usage \<Rightarrow> int64" where
  "Total u = Input u + Output u"

section \<open>Package tokens\<close>

text \<open>A provider's figures; \<open>None\<close> is Go's nil pointer.\<close>

record report =
  r_Input :: "int64 option"
  r_Output :: "int64 option"
  r_CacheRead :: "int64 option"
  r_CacheWrite :: "int64 option"
  r_Reasoning :: "int64 option"

definition token_value :: "int64 option \<Rightarrow> int64" where
  "token_value p = (case p of None \<Rightarrow> 0 | Some v \<Rightarrow> v)"

text \<open>\<open>sum(parts...)\<close>: the loop over the parts, with the running total.\<close>

fun sum_from :: "int64 \<Rightarrow> int64 list \<Rightarrow> int64 \<times> bool" where
  "sum_from acc [] = (acc, True)"
| "sum_from acc (part # parts) =
     (if sint part < 0 \<or> sint acc > sint (maxInt64 - part) then (0, False)
      else sum_from (acc + part) parts)"

definition token_sum :: "int64 list \<Rightarrow> int64 \<times> bool" where
  "token_sum parts = sum_from 0 parts"

definition finish :: "report \<Rightarrow> int64 \<Rightarrow> usage" where
  "finish r input =
     (let output = token_value (r_Output r); reasoning = token_value (r_Reasoning r) in
      if sint reasoning < 0 \<or> sint reasoning > sint output then no_usage
      else if \<not> snd (token_sum [input, output]) then no_usage
      else \<lparr>Known = True, Input = input, Output = output,
             CacheRead = token_value (r_CacheRead r), CacheWrite = token_value (r_CacheWrite r),
             Reasoning = reasoning,
             CacheKnown = (r_CacheRead r \<noteq> None \<and> r_CacheWrite r \<noteq> None),
             ReasoningKnown = (r_Reasoning r \<noteq> None)\<rparr>)"

definition CacheInclusive :: "report \<Rightarrow> usage" where
  "CacheInclusive r =
     (case r_Input r of None \<Rightarrow> no_usage | Some input \<Rightarrow>
      (case r_Output r of None \<Rightarrow> no_usage | Some _ \<Rightarrow>
       (let read = token_value (r_CacheRead r); write = token_value (r_CacheWrite r) in
        if sint read < 0 \<or> sint write < 0 \<or> sint read > sint input \<or> sint write > sint (input - read)
        then no_usage
        else finish r input)))"

definition CacheExclusive :: "report \<Rightarrow> usage" where
  "CacheExclusive r =
     (case r_Input r of None \<Rightarrow> no_usage | Some input \<Rightarrow>
      (case r_Output r of None \<Rightarrow> no_usage | Some _ \<Rightarrow>
       (case token_sum [input, token_value (r_CacheRead r), token_value (r_CacheWrite r)] of
          (sm, ok) \<Rightarrow> if \<not> ok then no_usage else finish r sm)))"

text \<open>
  \<open>Add\<close>: the loop runs over the five figures in the source's order and returns
  the zero usage at the first sum that would not stay representable.
\<close>

definition Add :: "usage \<Rightarrow> usage \<Rightarrow> usage" where
  "Add acc next =
     (if \<not> Known next then no_usage
      else if \<not> Known acc then next
      else case token_sum [Input acc, Input next] of (input, ok1) \<Rightarrow> if \<not> ok1 then no_usage
      else case token_sum [Output acc, Output next] of (output, ok2) \<Rightarrow> if \<not> ok2 then no_usage
      else case token_sum [CacheRead acc, CacheRead next] of (read, ok3) \<Rightarrow> if \<not> ok3 then no_usage
      else case token_sum [CacheWrite acc, CacheWrite next] of (write, ok4) \<Rightarrow> if \<not> ok4 then no_usage
      else case token_sum [Reasoning acc, Reasoning next] of (reasoning, ok5) \<Rightarrow> if \<not> ok5 then no_usage
      else \<lparr>Known = True, Input = input, Output = output, CacheRead = read, CacheWrite = write,
             Reasoning = reasoning,
             CacheKnown = (CacheKnown acc \<and> CacheKnown next),
             ReasoningKnown = (ReasoningKnown acc \<and> ReasoningKnown next)\<rparr>)"

definition NoCacheWrite :: "int64 option \<Rightarrow> int64 option" where
  "NoCacheWrite read = (case read of None \<Rightarrow> None | Some _ \<Rightarrow> Some 0)"

text \<open>\<open>Sum\<close>: nil as soon as one part is nil, else the checked total.\<close>

fun token_values :: "int64 option list \<Rightarrow> int64 list option" where
  "token_values [] = Some []"
| "token_values (None # parts) = None"
| "token_values (Some v # parts) = map_option ((#) v) (token_values parts)"

definition Sum :: "int64 option list \<Rightarrow> int64 option" where
  "Sum parts = (case token_values parts of None \<Rightarrow> None | Some values \<Rightarrow>
     (case token_sum values of (sm, ok) \<Rightarrow> if \<not> ok then None else Some sm))"

section \<open>The readers of completion/usage.go\<close>

text \<open>\<open>OutputDetails.Reasoning\<close> of internal/claudeproto; the receiver may be nil.\<close>

definition OutputDetails_Reasoning :: "int64 option option \<Rightarrow> int64 \<Rightarrow> int64 \<times> bool" where
  "OutputDetails_Reasoning d output =
     (case d of None \<Rightarrow> (0, False) | Some None \<Rightarrow> (0, False)
      | Some (Some thinking) \<Rightarrow>
          if sint thinking < 0 \<or> sint thinking > sint output then (0, False) else (thinking, True))"

record tokenReport =
  t_Input :: "int64 option"
  t_Output :: "int64 option"
  t_CacheRead :: "int64 option"
  t_CacheWrite :: "int64 option"
  t_CachedInput :: "int64 option"
  t_ReasoningOutput :: "int64 option"
  t_OutputDetails :: "int64 option option"

definition claudeUsage :: "tokenReport option \<Rightarrow> usage" where
  "claudeUsage rep = (case rep of None \<Rightarrow> no_usage | Some t \<Rightarrow>
     CacheExclusive \<lparr>r_Input = t_Input t, r_Output = t_Output t,
       r_CacheRead = t_CacheRead t, r_CacheWrite = t_CacheWrite t,
       r_Reasoning = (case t_Output t of None \<Rightarrow> None | Some output \<Rightarrow>
          (case OutputDetails_Reasoning (t_OutputDetails t) output of
             (reasoning, ok) \<Rightarrow> if ok then Some reasoning else None))\<rparr>)"

definition codexUsage :: "tokenReport option \<Rightarrow> usage" where
  "codexUsage rep = (case rep of None \<Rightarrow> no_usage | Some t \<Rightarrow>
     CacheInclusive \<lparr>r_Input = t_Input t, r_Output = t_Output t,
       r_CacheRead = t_CachedInput t, r_CacheWrite = NoCacheWrite (t_CachedInput t),
       r_Reasoning = t_ReasoningOutput t\<rparr>)"

section \<open>The session's accumulation\<close>

record session_usage =
  s_Usage :: usage
  s_Final :: bool

definition no_session_usage :: session_usage where
  "no_session_usage = \<lparr>s_Usage = no_usage, s_Final = False\<rparr>"

definition Usage_add :: "session_usage \<Rightarrow> session_usage \<Rightarrow> session_usage" where
  "Usage_add u next = (if \<not> Known (s_Usage next) then u
     else \<lparr>s_Usage = Add (s_Usage u) (s_Usage next), s_Final = False\<rparr>)"

section \<open>The checked sum\<close>

text \<open>Abstract specification: integers, no width.\<close>

definition representable :: "int list \<Rightarrow> bool" where
  "representable ns \<longleftrightarrow> (\<forall>n \<in> set ns. 0 \<le> n) \<and> sum_list ns \<le> 9223372036854775807"

lemma sum_from_spec:
  assumes "0 \<le> sint acc"
  shows "(snd (sum_from acc parts) \<longleftrightarrow> representable (sint acc # map sint parts)) \<and>
         (snd (sum_from acc parts) \<longrightarrow>
           sint (fst (sum_from acc parts)) = sint acc + sum_list (map sint parts))"
  using assms
proof (induction parts arbitrary: acc)
  case Nil
  then show ?case using sint64_bounds [of acc] by (simp add: representable_def)
next
  case (Cons part parts)
  show ?case
  proof (cases "sint part < 0 \<or> sint acc > sint (maxInt64 - part)")
    case True
    have "\<not> representable (sint acc # map sint (part # parts))"
    proof
      assume r: "representable (sint acc # map sint (part # parts))"
      then have "0 \<le> sint part" and "0 \<le> sum_list (map sint parts)"
        and "sint acc + (sint part + sum_list (map sint parts)) \<le> 9223372036854775807"
        by (auto simp: representable_def intro!: sum_list_nonneg)
      with True show False by (simp add: sint64_diff_max)
    qed
    with True show ?thesis by simp
  next
    case False
    then have p: "0 \<le> sint part" and b: "sint acc + sint part \<le> 9223372036854775807"
      using sint64_diff_max [of part] by auto
    then have s: "sint (acc + part) = sint acc + sint part"
      using Cons.prems by (intro sint64_add) simp_all
    have "0 \<le> sint (acc + part)" using s p Cons.prems by simp
    from Cons.IH [OF this] show ?thesis
      using False s p Cons.prems by (auto simp: representable_def)
  qed
qed

lemma token_sum_ok: "snd (token_sum parts) \<longleftrightarrow> representable (map sint parts)"
  using sum_from_spec [of 0 parts] by (simp add: token_sum_def representable_def)

lemma token_sum_value:
  "snd (token_sum parts) \<Longrightarrow> sint (fst (token_sum parts)) = sum_list (map sint parts)"
  using sum_from_spec [of 0 parts] by (simp add: token_sum_def)

lemma token_sum_pair:
  "token_sum [a, b] = (if 0 \<le> sint a \<and> 0 \<le> sint b \<and> sint a + sint b \<le> 9223372036854775807
     then (a + b, True) else (0, False))"
  using sint64_bounds [of a] sint64_bounds [of b]
  by (auto simp: token_sum_def sint64_diff_max)

section \<open>Well-formed usage\<close>

text \<open>
  What the comments of usage.go promise: the cache figures are parts of
  \<open>Input\<close>, \<open>Reasoning\<close> is a part of \<open>Output\<close>, nothing is negative, and an
  unknown usage carries no figure at all.
\<close>

definition wf_usage :: "usage \<Rightarrow> bool" where
  "wf_usage u \<longleftrightarrow> (if Known u then
       0 \<le> sint (CacheRead u) \<and> 0 \<le> sint (CacheWrite u)
       \<and> sint (CacheRead u) + sint (CacheWrite u) \<le> sint (Input u)
       \<and> 0 \<le> sint (Reasoning u) \<and> sint (Reasoning u) \<le> sint (Output u)
     else u = no_usage)"

lemma wf_no_usage [simp]: "wf_usage no_usage"
  by (simp add: wf_usage_def no_usage_def)

lemma wf_usage_nonneg: "wf_usage u \<Longrightarrow> Known u \<Longrightarrow> 0 \<le> sint (Input u) \<and> 0 \<le> sint (Output u)"
  by (auto simp: wf_usage_def)

lemma Known_no_usage [simp]: "\<not> Known no_usage"
  by (simp add: no_usage_def)

lemma finish_wf:
  assumes "0 \<le> sint (token_value (r_CacheRead r))" "0 \<le> sint (token_value (r_CacheWrite r))"
    "sint (token_value (r_CacheRead r)) + sint (token_value (r_CacheWrite r)) \<le> sint input"
  shows "wf_usage (finish r input)"
  using assms by (simp add: finish_def wf_usage_def Let_def)

lemma finish_total:
  "Known (finish r input) \<Longrightarrow>
     sint (Input (finish r input)) + sint (Output (finish r input)) \<le> 9223372036854775807"
  by (simp add: finish_def Let_def token_sum_pair split: if_splits)

lemma finish_Known:
  "Known (finish r input) \<longleftrightarrow>
     0 \<le> sint input \<and> 0 \<le> sint (token_value (r_Reasoning r))
     \<and> sint (token_value (r_Reasoning r)) \<le> sint (token_value (r_Output r))
     \<and> sint input + sint (token_value (r_Output r)) \<le> 9223372036854775807"
  by (auto simp: finish_def Let_def token_sum_pair)

lemma finish_figures:
  "Known (finish r input) \<Longrightarrow> finish r input = \<lparr>Known = True, Input = input,
     Output = token_value (r_Output r), CacheRead = token_value (r_CacheRead r),
     CacheWrite = token_value (r_CacheWrite r), Reasoning = token_value (r_Reasoning r),
     CacheKnown = (r_CacheRead r \<noteq> None \<and> r_CacheWrite r \<noteq> None),
     ReasoningKnown = (r_Reasoning r \<noteq> None)\<rparr>"
  by (simp add: finish_def Let_def split: if_splits)

lemma token_sum_triple:
  "snd (token_sum [a, b, c]) \<longleftrightarrow> 0 \<le> sint a \<and> 0 \<le> sint b \<and> 0 \<le> sint c
     \<and> sint a + sint b + sint c \<le> 9223372036854775807"
  by (simp add: token_sum_ok representable_def ac_simps)

lemma CacheInclusive_wf: "wf_usage (CacheInclusive r)"
proof (cases "\<exists>input output. r_Input r = Some input \<and> r_Output r = Some output")
  case True
  then obtain input out where io: "r_Input r = Some input" "r_Output r = Some out" by blast
  let ?rd = "token_value (r_CacheRead r)" and ?wr = "token_value (r_CacheWrite r)"
  show ?thesis
  proof (cases "sint ?rd < 0 \<or> sint ?wr < 0 \<or> sint ?rd > sint input \<or> sint ?wr > sint (input - ?rd)")
    case False
    then have "sint (input - ?rd) = sint input - sint ?rd"
      using sint64_bounds [of input] sint64_bounds [of ?rd] by (intro sint64_diff) linarith+
    with False have "wf_usage (finish r input)" by (intro finish_wf) simp_all
    with False io show ?thesis by (simp add: CacheInclusive_def Let_def)
  qed (simp add: CacheInclusive_def io Let_def)
qed (auto simp: CacheInclusive_def split: option.split)

lemma CacheExclusive_wf: "wf_usage (CacheExclusive r)"
proof (cases "\<exists>input output. r_Input r = Some input \<and> r_Output r = Some output")
  case True
  then obtain input out where io: "r_Input r = Some input" "r_Output r = Some out" by blast
  let ?parts = "[input, token_value (r_CacheRead r), token_value (r_CacheWrite r)]"
  show ?thesis
  proof (cases "snd (token_sum ?parts)")
    case ok: True
    then have "sint (fst (token_sum ?parts)) = sum_list (map sint ?parts)" by (rule token_sum_value)
    with ok have "wf_usage (finish r (fst (token_sum ?parts)))"
      by (intro finish_wf) (simp_all add: token_sum_triple)
    with ok io show ?thesis by (auto simp: CacheExclusive_def split: prod.splits)
  qed (auto simp: CacheExclusive_def io split: prod.splits)
qed (auto simp: CacheExclusive_def split: option.split)

lemma CacheInclusive_total:
  "Known (CacheInclusive r) \<Longrightarrow>
     sint (Input (CacheInclusive r)) + sint (Output (CacheInclusive r)) \<le> 9223372036854775807"
  by (auto simp: CacheInclusive_def Let_def finish_total split: option.splits if_splits)

lemma CacheExclusive_total:
  "Known (CacheExclusive r) \<Longrightarrow>
     sint (Input (CacheExclusive r)) + sint (Output (CacheExclusive r)) \<le> 9223372036854775807"
  by (auto simp: CacheExclusive_def finish_total split: option.splits if_splits prod.splits)

section \<open>Accumulation\<close>

lemma Add_known_iff:
  assumes "wf_usage a" "wf_usage b" "Known a" "Known b"
  shows "Known (Add a b) \<longleftrightarrow> sint (Input a) + sint (Input b) \<le> 9223372036854775807
           \<and> sint (Output a) + sint (Output b) \<le> 9223372036854775807"
  using assms by (auto simp: Add_def wf_usage_def token_sum_pair)

lemma Add_figures:
  assumes "wf_usage a" "wf_usage b" "Known a" "Known b" "Known (Add a b)"
  shows "sint (Input (Add a b)) = sint (Input a) + sint (Input b)"
    and "sint (Output (Add a b)) = sint (Output a) + sint (Output b)"
    and "sint (CacheRead (Add a b)) = sint (CacheRead a) + sint (CacheRead b)"
    and "sint (CacheWrite (Add a b)) = sint (CacheWrite a) + sint (CacheWrite b)"
    and "sint (Reasoning (Add a b)) = sint (Reasoning a) + sint (Reasoning b)"
  using assms by (auto simp: Add_def wf_usage_def token_sum_pair sint64_add split: if_splits)

lemma Add_wf: "wf_usage a \<Longrightarrow> wf_usage b \<Longrightarrow> wf_usage (Add a b)"
proof (cases "Known a \<and> Known b \<and> Known (Add a b)")
  case True
  assume wf: "wf_usage a" "wf_usage b"
  with True show ?thesis
    using Add_figures [OF wf] by (auto simp: wf_usage_def)
next
  case False
  assume wf: "wf_usage a" "wf_usage b"
  from False have "Add a b = no_usage \<or> Add a b = b"
    by (auto simp: Add_def token_sum_pair split: if_splits)
  with wf show ?thesis by auto
qed

text \<open>
  The contract the accumulators share, for any one figure of a usage: known
  addends are summed exactly, and an unknown accumulator is replaced.
\<close>

locale checked_accumulator =
  fixes valid :: "'a \<Rightarrow> bool" and known :: "'a \<Rightarrow> bool"
    and add :: "'a \<Rightarrow> 'a \<Rightarrow> 'a" and amount :: "'a \<Rightarrow> int"
  assumes valid_add: "valid a \<Longrightarrow> valid b \<Longrightarrow> valid (add a b)"
    and amount_nonneg: "valid a \<Longrightarrow> known a \<Longrightarrow> 0 \<le> amount a"
    and add_replaces: "\<not> known a \<Longrightarrow> known b \<Longrightarrow> add a b = b"
    and add_amount: "valid a \<Longrightarrow> valid b \<Longrightarrow> known a \<Longrightarrow> known b \<Longrightarrow> known (add a b) \<Longrightarrow>
          amount (add a b) = amount a + amount b"
begin

definition counted :: "'a \<Rightarrow> int" where
  "counted a = (if known a then amount a else 0)"

lemma counted_add:
  assumes "valid a" "valid b" "known b"
  shows "counted (add a b) \<le> counted a + amount b"
  using assms amount_nonneg [of a] amount_nonneg [of b] add_replaces [of a b] add_amount [of a b]
  by (auto simp: counted_def)

text \<open>However often the accumulator was reset, it never holds more than was reported.\<close>

lemma fold_never_overstates:
  "valid a \<Longrightarrow> list_all (\<lambda>x. valid x \<and> known x) xs \<Longrightarrow>
     valid (foldl add a xs) \<and> counted (foldl add a xs) \<le> counted a + sum_list (map amount xs)"
proof (induction xs arbitrary: a)
  case (Cons x xs)
  then have "valid (add a x)" and "list_all (\<lambda>x. valid x \<and> known x) xs"
    by (auto intro: valid_add)
  from Cons.IH [OF this] counted_add [of a x] Cons.prems show ?case by auto
qed simp

end

interpretation input_acc: checked_accumulator wf_usage Known Add "\<lambda>u. sint (Input u)"
  by unfold_locales (auto simp: Add_wf Add_figures, auto simp: Add_def wf_usage_def)

interpretation output_acc: checked_accumulator wf_usage Known Add "\<lambda>u. sint (Output u)"
  by unfold_locales (auto simp: Add_wf Add_figures, auto simp: Add_def wf_usage_def)

interpretation cache_read_acc: checked_accumulator wf_usage Known Add "\<lambda>u. sint (CacheRead u)"
  by unfold_locales (auto simp: Add_wf Add_figures, auto simp: Add_def wf_usage_def)

text \<open>Exactness: as long as the running totals are representable, nothing is lost.\<close>

lemma Add_fold_exact:
  assumes "wf_usage a" "Known a" "list_all (\<lambda>u. wf_usage u \<and> Known u) us"
    and "sint (Input a) + sum_list (map (\<lambda>u. sint (Input u)) us) \<le> 9223372036854775807"
    and "sint (Output a) + sum_list (map (\<lambda>u. sint (Output u)) us) \<le> 9223372036854775807"
  shows "Known (foldl Add a us)
     \<and> sint (Input (foldl Add a us)) = sint (Input a) + sum_list (map (\<lambda>u. sint (Input u)) us)
     \<and> sint (Output (foldl Add a us)) = sint (Output a) + sum_list (map (\<lambda>u. sint (Output u)) us)"
  using assms
proof (induction us arbitrary: a)
  case (Cons u us)
  have nn: "0 \<le> sum_list (map (\<lambda>u. sint (Input u)) us)" "0 \<le> sum_list (map (\<lambda>u. sint (Output u)) us)"
    using Cons.prems(3) by (auto simp: list_all_iff wf_usage_nonneg intro!: sum_list_nonneg)
  then have k: "Known (Add a u)" using Cons.prems by (subst Add_known_iff) auto
  with Cons.prems have fig: "sint (Input (Add a u)) = sint (Input a) + sint (Input u)"
      "sint (Output (Add a u)) = sint (Output a) + sint (Output u)" "wf_usage (Add a u)"
    by (auto simp: Add_figures Add_wf)
  with Cons.IH [OF fig(3) k] Cons.prems show ?case by simp
qed simp

section \<open>Properties\<close>

text \<open>A provider's report on which the properties are exercised.\<close>

definition sample_report :: report where
  "sample_report = \<lparr>r_Input = Some 10, r_Output = Some 5, r_CacheRead = Some 3,
     r_CacheWrite = Some 2, r_Reasoning = Some 1\<rparr>"

definition sample_usage :: usage where
  "sample_usage = \<lparr>Known = True, Input = 15, Output = 5, CacheRead = 3, CacheWrite = 2,
     Reasoning = 1, CacheKnown = True, ReasoningKnown = True\<rparr>"

lemma sample_usage_read: "CacheExclusive sample_report = sample_usage"
  by (simp add: CacheExclusive_def sample_report_def sample_usage_def finish_def
      token_sum_def token_value_def maxInt64_eq)

lemma sample_usage_wf: "wf_usage sample_usage"
  by (simp add: wf_usage_def sample_usage_def)

text \<open>The checked sum of package tokens accepts exactly the lists of non-negative
  figures whose total fits in an int64, and then returns that total.\<close>

theorem usage_sum_correct:
  "Sum parts = (if None \<notin> set parts \<and> representable (map (sint \<circ> the) parts)
                then Some (word_of_int (sum_list (map (sint \<circ> the) parts))) else None)"
proof -
  have vals: "token_values parts = (if None \<in> set parts then None else Some (map the parts))"
    by (induction parts rule: token_values.induct) auto
  have "fst (token_sum xs) = word_of_int (sum_list (map sint xs))" if "snd (token_sum xs)" for xs
    using arg_cong [OF token_sum_value [OF that], of "of_int :: int \<Rightarrow> int64"] by simp
  from this [of "map the parts"] show ?thesis
    using token_sum_ok [of "map the parts"]
    by (auto simp: Sum_def vals comp_def split: prod.splits)
qed

text \<open>Whatever a provider reports, both readers of package tokens produce a usage in
  which nothing is negative, the cache figures are parts of the input, the reasoning is a
  part of the output and the grand total does not overflow, or else the unknown usage.\<close>

theorem usage_readers_wf:
  assumes "u = CacheInclusive r \<or> u = CacheExclusive r"
  shows "wf_usage u \<and> (Known u \<longrightarrow> sint (Total u) = sint (Input u) + sint (Output u))"
proof -
  have wf: "wf_usage u" using assms CacheInclusive_wf CacheExclusive_wf by auto
  have "sint (Total u) = sint (Input u) + sint (Output u)" if k: "Known u"
  proof -
    have "sint (Input u) + sint (Output u) \<le> 9223372036854775807"
      using assms k CacheInclusive_total CacheExclusive_total by auto
    with wf_usage_nonneg [OF wf k] show ?thesis by (simp add: Total_def sint64_add)
  qed
  with wf show ?thesis by blast
qed

theorem usage_readers_wf_witness:
  "Known (CacheExclusive sample_report) \<and> sint (Total (CacheExclusive sample_report)) = 20"
  using usage_readers_wf [of "CacheExclusive sample_report" sample_report]
  by (simp add: sample_usage_read) (simp add: sample_usage_def)

text \<open>The fresh input of a well-formed usage is reported exactly when the provider split
  the cache out, and is then the non-negative difference, computed without wrapping.\<close>

theorem usage_fresh_exact:
  assumes "wf_usage u"
  shows "Fresh u = (f, ok) \<Longrightarrow>
     ok = (Known u \<and> CacheKnown u)
     \<and> (ok \<longrightarrow> 0 \<le> sint f \<and> sint f + sint (CacheRead u) + sint (CacheWrite u) = sint (Input u))"
proof -
  assume f: "Fresh u = (f, ok)"
  show ?thesis
  proof (cases "Known u \<and> CacheKnown u")
    case True
    with assms have n: "0 \<le> sint (CacheRead u)" "0 \<le> sint (CacheWrite u)"
        "sint (CacheRead u) + sint (CacheWrite u) \<le> sint (Input u)"
      by (auto simp: wf_usage_def)
    have d: "sint (Input u - CacheRead u) = sint (Input u) - sint (CacheRead u)"
      using n sint64_bounds [of "Input u"] by (intro sint64_diff) linarith+
    have "sint (Input u - CacheRead u - CacheWrite u) = sint (Input u - CacheRead u) - sint (CacheWrite u)"
      using n d sint64_bounds [of "Input u"] by (intro sint64_diff) linarith+
    with True f n d show ?thesis by (auto simp: Fresh_def)
  qed (use f in \<open>auto simp: Fresh_def\<close>)
qed

theorem usage_fresh_exact_witness: "Fresh sample_usage = (10, True) \<and> sint (10 :: int64) + 3 + 2 = 15"
proof -
  have f: "Fresh sample_usage = (10, True)" by (simp add: Fresh_def sample_usage_def)
  show ?thesis using usage_fresh_exact [OF sample_usage_wf f] f by (simp add: sample_usage_def)
qed

lemma Usage_add_fold:
  "s_Usage (foldl Usage_add u us) = foldl Add (s_Usage u) (filter Known (map s_Usage us))"
  by (induction us arbitrary: u) (auto simp: Usage_add_def)

text \<open>A session's observed usage, accumulated over any sequence of responses, never states
  more input tokens than the responses reported together, even after the accumulation
  overflowed and was reset.\<close>

theorem observed_never_overstates:
  assumes "list_all (\<lambda>r. wf_usage (s_Usage r)) responses"
    and "obs = s_Usage (foldl Usage_add no_session_usage responses)"
  shows "wf_usage obs \<and> (Known obs \<longrightarrow> sint (Input obs) \<le>
           (\<Sum>r \<leftarrow> filter (\<lambda>r. Known (s_Usage r)) responses. sint (Input (s_Usage r))))"
proof -
  let ?us = "filter Known (map s_Usage responses)"
  have us: "list_all (\<lambda>x. wf_usage x \<and> Known x) ?us"
    using assms(1) by (auto simp: list_all_iff)
  have eq: "map (\<lambda>u. sint (Input u)) ?us
      = map (\<lambda>r. sint (Input (s_Usage r))) (filter (\<lambda>r. Known (s_Usage r)) responses)"
    by (simp add: filter_map comp_def)
  show ?thesis
    using input_acc.fold_never_overstates [OF wf_no_usage us] assms(2)
    by (auto simp: Usage_add_fold no_session_usage_def input_acc.counted_def eq)
qed

theorem observed_never_overstates_witness:
  "sint (Input (s_Usage (foldl Usage_add no_session_usage
     [\<lparr>s_Usage = sample_usage, s_Final = False\<rparr>, \<lparr>s_Usage = sample_usage, s_Final = True\<rparr>]))) \<le> 30"
proof -
  let ?rs = "[\<lparr>s_Usage = sample_usage, s_Final = False\<rparr>, \<lparr>s_Usage = sample_usage, s_Final = True\<rparr>]"
  have "Known (s_Usage (foldl Usage_add no_session_usage ?rs))"
    by (simp add: Usage_add_def Add_def no_session_usage_def token_sum_pair sample_usage_def)
  then show ?thesis
    using observed_never_overstates [of ?rs "s_Usage (foldl Usage_add no_session_usage ?rs)"] sample_usage_wf
    by (simp add: sample_usage_def)
qed

text \<open>While the session's totals stay representable the accumulation is exact: the
  observed usage is known and its input and output are the sums over the responses.\<close>

theorem observed_exact:
  assumes "list_all (\<lambda>r. wf_usage (s_Usage r)) responses"
    and "us = filter Known (map s_Usage responses)" and "us \<noteq> []"
    and "(\<Sum>u \<leftarrow> us. sint (Input u)) \<le> 9223372036854775807"
    and "(\<Sum>u \<leftarrow> us. sint (Output u)) \<le> 9223372036854775807"
    and "obs = s_Usage (foldl Usage_add no_session_usage responses)"
  shows "Known obs \<and> sint (Input obs) = (\<Sum>u \<leftarrow> us. sint (Input u))
     \<and> sint (Output obs) = (\<Sum>u \<leftarrow> us. sint (Output u))"
proof -
  from assms(3) obtain v vs where us: "us = v # vs" by (cases us) auto
  have mem: "list_all (\<lambda>u. wf_usage u \<and> Known u) us"
    using assms(1,2) by (auto simp: list_all_iff)
  have "obs = foldl Add no_usage us"
    unfolding assms(2,6) by (simp add: Usage_add_fold no_session_usage_def)
  with us mem have "obs = foldl Add v vs" by (simp add: Add_def)
  then show ?thesis using Add_fold_exact [of v vs] mem us assms(4,5) by simp
qed

theorem observed_exact_witness:
  "sint (Input (s_Usage (foldl Usage_add no_session_usage
     [\<lparr>s_Usage = sample_usage, s_Final = False\<rparr>, \<lparr>s_Usage = sample_usage, s_Final = True\<rparr>]))) = 30"
proof -
  let ?rs = "[\<lparr>s_Usage = sample_usage, s_Final = False\<rparr>, \<lparr>s_Usage = sample_usage, s_Final = True\<rparr>]"
  have us: "filter Known (map s_Usage ?rs) = [sample_usage, sample_usage]"
    by (simp add: sample_usage_def)
  show ?thesis
    using observed_exact [of ?rs "[sample_usage, sample_usage]" "s_Usage (foldl Usage_add no_session_usage ?rs)"]
      sample_usage_wf us by (simp add: sample_usage_def)
qed

definition huge_usage :: usage where
  "huge_usage = \<lparr>Known = True, Input = maxInt64, Output = 0, CacheRead = 0, CacheWrite = 0,
     Reasoning = 0, CacheKnown = True, ReasoningKnown = True\<rparr>"

definition huge_output :: usage where
  "huge_output = huge_usage\<lparr>Input := 0, Output := maxInt64\<rparr>"

text \<open>Two limits of the accounting. The sum of two well-formed usages can be known while
  its \<open>Total\<close> wraps around to a negative number, since \<open>Add\<close> checks the figures one by one;
  and a session accumulation that overflowed, which the comment of \<open>Usage.add\<close> says becomes
  unknown, is known again after the next response, holding only that response.\<close>

theorem accounting_limits:
  "\<exists>u v w. wf_usage u \<and> wf_usage v \<and> wf_usage w
     \<and> Known (Add u v) \<and> sint (Total (Add u v)) < 0
     \<and> (let acc = \<lambda>rs. s_Usage (foldl Usage_add no_session_usage (map (\<lambda>x. \<lparr>s_Usage = x, s_Final = False\<rparr>) rs))
        in \<not> Known (acc [u, u]) \<and> acc [u, u, w] = w \<and> Known w)"
proof (intro exI conjI)
  show "wf_usage huge_usage" "wf_usage huge_output" "wf_usage (huge_usage\<lparr>Input := 7\<rparr>)"
    by (simp_all add: wf_usage_def huge_usage_def huge_output_def)
  show "Known (Add huge_usage huge_output)" "sint (Total (Add huge_usage huge_output)) < 0"
    by (simp_all add: Add_def huge_usage_def huge_output_def token_sum_pair Total_def maxInt64_eq)
  show "let acc = \<lambda>rs. s_Usage (foldl Usage_add no_session_usage (map (\<lambda>x. \<lparr>s_Usage = x, s_Final = False\<rparr>) rs))
        in \<not> Known (acc [huge_usage, huge_usage]) \<and> acc [huge_usage, huge_usage, huge_usage\<lparr>Input := 7\<rparr>] = huge_usage\<lparr>Input := 7\<rparr>
           \<and> Known (huge_usage\<lparr>Input := 7\<rparr>)"
    by (simp add: Let_def Usage_add_def Add_def no_session_usage_def huge_usage_def token_sum_pair)
qed

end
