(* ===== verification/Go_Strings.thy ===== *)
theory Go_Strings
  imports Go_Base
begin

text \<open>
  The functions of Go's packages \<open>strings\<close>, \<open>unicode/utf8\<close> and \<open>strconv\<close>
  that the modelled sources call, on byte lists, with the facts the components
  use of them. A \<open>range\<close> loop over a string decodes UTF-8: \<open>go_runes\<close> gives the
  code points in order, each with the bytes it was read from, and an invalid byte
  as U+FFFD.
\<close>

abbreviation byte :: "char \<Rightarrow> nat" where
  "byte c \<equiv> of_char c"

section \<open>Substrings\<close>

definition strings_HasPrefix :: "string \<Rightarrow> string \<Rightarrow> bool" where
  "strings_HasPrefix s p \<longleftrightarrow> take (length p) s = p"

definition strings_HasSuffix :: "string \<Rightarrow> string \<Rightarrow> bool" where
  "strings_HasSuffix s p \<longleftrightarrow> length p \<le> length s \<and> drop (length s - length p) s = p"

lemma HasPrefix_iff [go_string]: "strings_HasPrefix s p \<longleftrightarrow> prefix p s"
  by (metis append_eq_conv_conj prefix_def strings_HasPrefix_def append_take_drop_id)

lemma HasSuffix_iff [go_string]: "strings_HasSuffix s p \<longleftrightarrow> suffix p s"
  by (auto simp: strings_HasSuffix_def suffix_def) (metis append_take_drop_id)

definition strings_TrimPrefix :: "string \<Rightarrow> string \<Rightarrow> string" where
  "strings_TrimPrefix s p = (if strings_HasPrefix s p then drop (length p) s else s)"

definition strings_TrimSuffix :: "string \<Rightarrow> string \<Rightarrow> string" where
  "strings_TrimSuffix s p = (if strings_HasSuffix s p then take (length s - length p) s else s)"

text \<open>\<open>strings.Index\<close>: the first position at which \<open>sub\<close> occurs; \<open>None\<close> for -1.\<close>

fun strings_Index :: "string \<Rightarrow> string \<Rightarrow> nat option" where
  "strings_Index [] sub = (if sub = [] then Some 0 else None)"
| "strings_Index (c # cs) sub =
     (if strings_HasPrefix (c # cs) sub then Some 0 else map_option Suc (strings_Index cs sub))"

definition strings_Contains :: "string \<Rightarrow> string \<Rightarrow> bool" where
  "strings_Contains s sub \<longleftrightarrow> strings_Index s sub \<noteq> None"

lemma Contains_iff [go_string]: "strings_Contains s sub \<longleftrightarrow> sublist sub s"
proof (induction s)
  case (Cons c cs)
  then show ?case
    by (auto simp: strings_Contains_def HasPrefix_iff sublist_Cons_right)
qed (auto simp: strings_Contains_def)

text \<open>\<open>strings.Cut(s, sep)\<close> for a one-byte separator: (before, after, found).\<close>

fun strings_Cut :: "string \<Rightarrow> char \<Rightarrow> string \<times> string \<times> bool" where
  "strings_Cut [] sep = ([], [], False)"
| "strings_Cut (c # cs) sep = (if c = sep then ([], cs, True)
     else case strings_Cut cs sep of (b, a, found) \<Rightarrow> (c # b, a, found))"

lemma Cut_found: "strings_Cut s sep = (b, a, True) \<Longrightarrow> s = b @ sep # a \<and> sep \<notin> set b"
  by (induction s arbitrary: b) (auto split: if_splits prod.splits)

lemma Cut_not_found: "strings_Cut s sep = (b, a, False) \<Longrightarrow> s = b \<and> a = [] \<and> sep \<notin> set s"
  by (induction s arbitrary: b) (auto split: if_splits prod.splits)

text \<open>\<open>strings.Split(s, sep)\<close> for a one-byte separator, and \<open>strings.Join\<close>.\<close>

fun strings_Split :: "string \<Rightarrow> char \<Rightarrow> string list" where
  "strings_Split [] sep = [[]]"
| "strings_Split (c # cs) sep = (if c = sep then [] # strings_Split cs sep
     else case strings_Split cs sep of [] \<Rightarrow> [[c]] | p # ps \<Rightarrow> (c # p) # ps)"

fun strings_Join :: "string list \<Rightarrow> string \<Rightarrow> string" where
  "strings_Join [] sep = []"
| "strings_Join [p] sep = p"
| "strings_Join (p # q # ps) sep = p @ sep @ strings_Join (q # ps) sep"

lemma Split_nonempty [simp]: "strings_Split s sep \<noteq> []"
  by (cases s) (auto split: list.splits)

lemma Split_pieces: "p \<in> set (strings_Split s sep) \<Longrightarrow> sep \<notin> set p"
  by (induction s arbitrary: p) (auto split: if_splits list.splits)

lemma Join_Split [go_string]: "strings_Join (strings_Split s sep) [sep] = s"
proof (induction s)
  case (Cons c cs)
  then show ?case by (cases "strings_Split cs sep"; cases "tl (strings_Split cs sep)") auto
qed simp

lemma Split_append: "sep \<notin> set b \<Longrightarrow> strings_Split (b @ sep # a) sep = b # strings_Split a sep"
  by (induction b) auto

lemma Split_single: "sep \<notin> set s \<Longrightarrow> strings_Split s sep = [s]"
  by (induction s) auto

text \<open>\<open>strings.ReplaceAll\<close>: leftmost, non-overlapping; \<open>old\<close> is never empty here.\<close>

function strings_ReplaceAll :: "string \<Rightarrow> string \<Rightarrow> string \<Rightarrow> string" where
  "strings_ReplaceAll s old new =
     (if old = [] then s
      else case s of [] \<Rightarrow> []
      | c # cs \<Rightarrow> if strings_HasPrefix s old then new @ strings_ReplaceAll (drop (length old) s) old new
                  else c # strings_ReplaceAll cs old new)"
  by pat_completeness auto
termination
  by (relation "measure (\<lambda>(s, old, new). length s)") auto

declare strings_ReplaceAll.simps [simp del]

lemma ReplaceAll_Nil [simp]: "strings_ReplaceAll [] old new = []"
  by (subst strings_ReplaceAll.simps) simp

lemma ReplaceAll_hit:
  "old \<noteq> [] \<Longrightarrow> strings_ReplaceAll (old @ s) old new = new @ strings_ReplaceAll s old new"
  by (cases "old @ s"; subst strings_ReplaceAll.simps) (auto simp: HasPrefix_iff, metis append_eq_conv_conj, metis prefixI)

lemma ReplaceAll_miss:
  "old \<noteq> [] \<Longrightarrow> \<not> prefix old (c # cs) \<Longrightarrow>
     strings_ReplaceAll (c # cs) old new = c # strings_ReplaceAll cs old new"
  by (subst strings_ReplaceAll.simps) (auto simp: HasPrefix_iff)

text \<open>\<open>strings.Replace(s, old, new, 1)\<close>\<close>

definition strings_Replace1 :: "string \<Rightarrow> string \<Rightarrow> string \<Rightarrow> string" where
  "strings_Replace1 s old new = (case strings_Index s old of None \<Rightarrow> s
     | Some i \<Rightarrow> take i s @ new @ drop (i + length old) s)"

section \<open>UTF-8\<close>

text \<open>\<open>utf8.RuneStart\<close>: not a continuation byte 10xxxxxx.\<close>

definition RuneStart :: "char \<Rightarrow> bool" where
  "RuneStart b \<longleftrightarrow> \<not> (128 \<le> byte b \<and> byte b < 192)"

text \<open>
  \<open>rune_size s\<close> is the number of bytes of the well-formed character \<open>s\<close> starts
  with, and 0 when there is none (the table of package unicode/utf8).
\<close>

definition byte_in :: "nat \<Rightarrow> nat \<Rightarrow> char \<Rightarrow> bool" where
  "byte_in lo hi b \<longleftrightarrow> lo \<le> byte b \<and> byte b \<le> hi"

definition second_range :: "nat \<Rightarrow> nat \<times> nat" where
  "second_range b = (if b = 0xE0 then (0xA0, 0xBF) else if b = 0xED then (0x80, 0x9F)
     else if b = 0xF0 then (0x90, 0xBF) else if b = 0xF4 then (0x80, 0x8F) else (0x80, 0xBF))"

fun rune_size :: "string \<Rightarrow> nat" where
  "rune_size [] = 0"
| "rune_size (a # s) =
     (if byte a < 0x80 then 1
      else if byte_in 0xC2 0xDF a then
        (case s of b # _ \<Rightarrow> if byte_in 0x80 0xBF b then 2 else 0 | _ \<Rightarrow> 0)
      else if byte_in 0xE0 0xEF a then
        (case s of b # c # _ \<Rightarrow>
           if byte_in (fst (second_range (byte a))) (snd (second_range (byte a))) b \<and> byte_in 0x80 0xBF c
           then 3 else 0 | _ \<Rightarrow> 0)
      else if byte_in 0xF0 0xF4 a then
        (case s of b # c # d # _ \<Rightarrow>
           if byte_in (fst (second_range (byte a))) (snd (second_range (byte a))) b
              \<and> byte_in 0x80 0xBF c \<and> byte_in 0x80 0xBF d
           then 4 else 0 | _ \<Rightarrow> 0)
      else 0)"

text \<open>The code point of the character of size \<open>n\<close> at the start of \<open>s\<close>.\<close>

definition rune_value :: "nat \<Rightarrow> string \<Rightarrow> nat" where
  "rune_value n s =
     (if n = 1 then byte (s ! 0)
      else if n = 2 then (byte (s ! 0) - 0xC0) * 64 + (byte (s ! 1) - 0x80)
      else if n = 3 then (byte (s ! 0) - 0xE0) * 4096 + (byte (s ! 1) - 0x80) * 64 + (byte (s ! 2) - 0x80)
      else (byte (s ! 0) - 0xF0) * 262144 + (byte (s ! 1) - 0x80) * 4096
           + (byte (s ! 2) - 0x80) * 64 + (byte (s ! 3) - 0x80))"

declare rune_size.simps(2) [simp del]

text \<open>The \<open>range\<close> loop: code points with the bytes they were read from.\<close>

function go_runes :: "string \<Rightarrow> (nat \<times> string) list" where
  "go_runes [] = []"
| "go_runes (a # s) = (let n = rune_size (a # s) in
     if n = 0 then (0xFFFD, [a]) # go_runes s
     else (rune_value n (a # s), take n (a # s)) # go_runes (drop n (a # s)))"
  by pat_completeness auto
termination
  by (relation "measure length") auto

lemma go_runes_concat: "concat (map snd (go_runes s)) = s"
proof (induction s rule: go_runes.induct)
  case (2 a s)
  then show ?case by (auto simp: Let_def)
qed simp

text \<open>\<open>utf8.Valid\<close>\<close>

function utf8_valid :: "string \<Rightarrow> bool" where
  "utf8_valid [] = True"
| "utf8_valid (a # s) = (let n = rune_size (a # s) in
     if n = 0 then False else utf8_valid (drop n (a # s)))"
  by pat_completeness auto
termination
  by (relation "measure length") auto

lemma rune_size_1: "byte a < 0x80 \<Longrightarrow> rune_size (a # s) = 1"
  by (simp add: rune_size.simps)

text \<open>The bytes of a character after the first are continuation bytes.\<close>

lemma rune_size_cases:
  assumes "rune_size s \<noteq> 0"
  obtains (one) a t where "s = a # t" "rune_size s = 1" "byte a < 0x80"
  | (two) a b t where "s = a # b # t" "rune_size s = 2" "byte_in 0x80 0xBF b"
  | (three) a b c t where "s = a # b # c # t" "rune_size s = 3" "byte_in 0x80 0xBF b" "byte_in 0x80 0xBF c"
  | (four) a b c d t where "s = a # b # c # d # t" "rune_size s = 4"
      "byte_in 0x80 0xBF b" "byte_in 0x80 0xBF c" "byte_in 0x80 0xBF d"
proof (cases s)
  case Nil
  with assms show ?thesis by simp
next
  case (Cons a t)
  have sub: "byte_in 0x80 0xBF b" if "byte_in (fst (second_range x)) (snd (second_range x)) b" for x b
    using that by (auto simp: second_range_def byte_in_def split: if_splits)
  consider (A) "byte a < 0x80"
    | (B) "\<not> byte a < 0x80" "byte_in 0xC2 0xDF a"
    | (C) "\<not> byte a < 0x80" "\<not> byte_in 0xC2 0xDF a" "byte_in 0xE0 0xEF a"
    | (D) "\<not> byte a < 0x80" "\<not> byte_in 0xC2 0xDF a" "\<not> byte_in 0xE0 0xEF a" "byte_in 0xF0 0xF4 a"
    | (E) "\<not> byte a < 0x80" "\<not> byte_in 0xC2 0xDF a" "\<not> byte_in 0xE0 0xEF a" "\<not> byte_in 0xF0 0xF4 a"
    by blast
  then show ?thesis
  proof cases
    case A
    with Cons show ?thesis by (intro one [of a t]) (simp_all add: rune_size.simps)
  next
    case B
    with Cons assms obtain b u where "t = b # u" "byte_in 0x80 0xBF b"
      by (auto simp: rune_size.simps split: list.splits if_splits)
    with Cons B show ?thesis by (intro two [of a b u]) (simp_all add: rune_size.simps)
  next
    case C
    with Cons assms obtain b c u where "t = b # c # u" "byte_in 0x80 0xBF c"
        "byte_in (fst (second_range (byte a))) (snd (second_range (byte a))) b"
      by (auto simp: rune_size.simps split: list.splits if_splits)
    with Cons C show ?thesis by (intro three [of a b c u]) (simp_all add: rune_size.simps sub)
  next
    case D
    with Cons assms obtain b c d u where "t = b # c # d # u" "byte_in 0x80 0xBF c" "byte_in 0x80 0xBF d"
        "byte_in (fst (second_range (byte a))) (snd (second_range (byte a))) b"
      by (auto simp: rune_size.simps split: list.splits if_splits)
    with Cons D show ?thesis by (intro four [of a b c d u]) (simp_all add: rune_size.simps sub)
  next
    case E
    with Cons assms show ?thesis by (simp add: rune_size.simps)
  qed
qed

lemma rune_size_bound: "rune_size s \<le> 4"
  by (cases "rune_size s = 0", simp, erule rune_size_cases) simp_all

lemma rune_size_le: "rune_size s \<le> length s"
  by (cases "rune_size s = 0", simp, erule rune_size_cases) simp_all

lemma continuation_byte: "byte_in 0x80 0xBF b \<Longrightarrow> \<not> RuneStart b"
  by (simp add: RuneStart_def byte_in_def)

lemma rune_continuation:
  assumes "0 < i" "i < rune_size s"
  shows "\<not> RuneStart (s ! i)"
proof -
  have "rune_size s \<noteq> 0" using assms by simp
  then show ?thesis
  proof (cases rule: rune_size_cases)
    case (two a b t)
    with assms have "i = 1" by simp
    with two show ?thesis by (simp add: continuation_byte)
  next
    case (three a b c t)
    with assms have "i = 1 \<or> i = 2" by auto
    with three show ?thesis by (auto simp: continuation_byte)
  next
    case (four a b c d t)
    with assms have "i = 1 \<or> i = 2 \<or> i = 3" by auto
    with four show ?thesis by (auto simp: continuation_byte)
  qed (use assms in simp)
qed

lemma rune_size_take: "rune_size s \<le> n \<Longrightarrow> rune_size s \<noteq> 0 \<Longrightarrow> rune_size (take n s) = rune_size s"
proof (cases s)
  case (Cons a t)
  assume n: "rune_size s \<le> n" and nz: "rune_size s \<noteq> 0"
  from n nz Cons obtain m where m: "n = Suc m" by (cases n) auto
  from nz show ?thesis using n
    by (cases rule: rune_size_cases)
      (auto simp: m rune_size.simps take_Cons' split: if_splits list.splits)
qed simp

text \<open>A valid text cut where a character starts is valid.\<close>

lemma utf8_valid_take:
  "utf8_valid s \<Longrightarrow> n \<le> length s \<Longrightarrow> n < length s \<longrightarrow> RuneStart (s ! n) \<Longrightarrow> utf8_valid (take n s)"
proof (induction s arbitrary: n rule: utf8_valid.induct)
  case (2 a s)
  let ?k = "rune_size (a # s)"
  from "2.prems"(1) have k: "?k \<noteq> 0" and v: "utf8_valid (drop ?k (a # s))"
    by (auto simp: Let_def split: if_splits)
  have le: "?k \<le> length (a # s)" by (rule rune_size_le)
  show ?case
  proof (cases "n = 0")
    case False
    have "?k \<le> n"
      using rune_continuation [of n "a # s"] "2.prems"(2,3) False le by (metis leI less_le_trans neq0_conv)
    have "utf8_valid (take (n - ?k) (drop ?k (a # s)))"
    proof (rule "2.IH" [OF refl k v])
      show "n - ?k \<le> length (drop ?k (a # s))" using "2.prems"(2) by simp
      show "n - ?k < length (drop ?k (a # s)) \<longrightarrow> RuneStart (drop ?k (a # s) ! (n - ?k))"
        using "2.prems"(3) \<open>?k \<le> n\<close> le by auto
    qed
    then have "utf8_valid (drop ?k (take n (a # s)))" by (simp add: drop_take)
    moreover have "rune_size (take n (a # s)) = ?k" using \<open>?k \<le> n\<close> k by (rule rune_size_take)
    moreover obtain x xs where "take n (a # s) = x # xs" using False by (cases n) auto
    ultimately show ?thesis using k by (simp add: Let_def)
  qed simp
qed simp

lemma utf8_valid_append: "utf8_valid s \<Longrightarrow> utf8_valid t \<Longrightarrow> utf8_valid (s @ t)"
proof (induction s rule: utf8_valid.induct)
  case (2 a s)
  let ?k = "rune_size (a # s)"
  from "2.prems"(1) have k: "?k \<noteq> 0" and v: "utf8_valid (drop ?k (a # s))"
    by (auto simp: Let_def split: if_splits)
  have le: "?k \<le> length (a # s)" by (rule rune_size_le)
  have "rune_size ((a # s) @ t) = ?k"
    using k by (cases rule: rune_size_cases) (auto simp: rune_size.simps split: if_splits list.splits)
  moreover have "utf8_valid (drop ?k (a # s) @ t)" by (rule "2.IH" [OF refl k v "2.prems"(2)])
  moreover have "drop ?k ((a # s) @ t) = drop ?k (a # s) @ t" using le by (simp only: drop_append) simp
  ultimately show ?case using k by (simp add: Let_def)
qed simp

lemma utf8_valid_ascii: "list_all (\<lambda>c. byte c < 0x80) s \<Longrightarrow> utf8_valid s"
  by (induction s) (auto simp: rune_size_1)

section \<open>Characters of package unicode\<close>

text \<open>\<open>unicode.IsSpace\<close>: Unicode's White\_Space property.\<close>

definition unicode_IsSpace :: "nat \<Rightarrow> bool" where
  "unicode_IsSpace r \<longleftrightarrow> (9 \<le> r \<and> r \<le> 13) \<or> r = 32 \<or> r = 0x85 \<or> r = 0xA0 \<or> r = 0x1680
     \<or> (0x2000 \<le> r \<and> r \<le> 0x200A) \<or> r = 0x2028 \<or> r = 0x2029 \<or> r = 0x202F \<or> r = 0x205F \<or> r = 0x3000"

definition ascii_upper :: "nat \<Rightarrow> bool" where
  "ascii_upper r \<longleftrightarrow> 65 \<le> r \<and> r \<le> 90"

definition ascii_lower :: "nat \<Rightarrow> bool" where
  "ascii_lower r \<longleftrightarrow> 97 \<le> r \<and> r \<le> 122"

definition ascii_digit :: "nat \<Rightarrow> bool" where
  "ascii_digit r \<longleftrightarrow> 48 \<le> r \<and> r \<le> 57"

definition lower_byte :: "char \<Rightarrow> char" where
  "lower_byte c = (if ascii_upper (byte c) then char_of (byte c + 32) else c)"

text \<open>
  \<open>strings.EqualFold(s, t)\<close> for an ASCII \<open>t\<close>. Only k and s have folds outside ASCII, of more than one byte, so this is exact
  when \<open>t\<close> has neither and when both arguments have the same length.
\<close>

definition strings_EqualFold :: "string \<Rightarrow> string \<Rightarrow> bool" where
  "strings_EqualFold s t \<longleftrightarrow> map lower_byte s = map lower_byte t"

text \<open>\<open>strings.FieldsFunc\<close>: the maximal runs of characters outside the class.\<close>

fun fields_of :: "(nat \<Rightarrow> bool) \<Rightarrow> string \<Rightarrow> (nat \<times> string) list \<Rightarrow> string list" where
  "fields_of sep cur [] = (if cur = [] then [] else [cur])"
| "fields_of sep cur ((r, bs) # rs) =
     (if sep r then (if cur = [] then [] else [cur]) @ fields_of sep [] rs
      else fields_of sep (cur @ bs) rs)"

definition strings_FieldsFunc :: "string \<Rightarrow> (nat \<Rightarrow> bool) \<Rightarrow> string list" where
  "strings_FieldsFunc s sep = fields_of sep [] (go_runes s)"

definition strings_Fields :: "string \<Rightarrow> string list" where
  "strings_Fields s = strings_FieldsFunc s unicode_IsSpace"

text \<open>\<open>strings.Trim\<close> with an ASCII cutset, and \<open>strings.TrimSpace\<close>.\<close>

definition strings_Trim :: "string \<Rightarrow> string \<Rightarrow> string" where
  "strings_Trim s cutset = rev (dropWhile (\<lambda>c. c \<in> set cutset) (rev (dropWhile (\<lambda>c. c \<in> set cutset) s)))"

definition strings_TrimSpace :: "string \<Rightarrow> string" where
  "strings_TrimSpace s = concat (map snd
     (rev (dropWhile (\<lambda>(r, _). unicode_IsSpace r) (rev (dropWhile (\<lambda>(r, _). unicode_IsSpace r) (go_runes s))))))"

section \<open>Decimal numbers\<close>

definition digit_char :: "nat \<Rightarrow> char" where
  "digit_char d = char_of (48 + d)"

fun strconv_Itoa :: "nat \<Rightarrow> string" where
  "strconv_Itoa n = (if n < 10 then [digit_char n] else strconv_Itoa (n div 10) @ [digit_char (n mod 10)])"

declare strconv_Itoa.simps [simp del]

lemma Itoa_mono: "m \<le> n \<Longrightarrow> length (strconv_Itoa m) \<le> length (strconv_Itoa n)"
proof (induction n arbitrary: m rule: strconv_Itoa.induct)
  case (1 n)
  show ?case
  proof (cases "m < 10")
    case True
    then show ?thesis by (simp add: strconv_Itoa.simps [of m] strconv_Itoa.simps [of n])
  next
    case False
    with "1.prems" have n: "\<not> n < 10" by simp
    have "m div 10 \<le> n div 10" using "1.prems" by (rule div_le_mono)
    from "1.IH" [OF n this] False n show ?thesis
      by (simp add: strconv_Itoa.simps [of m] strconv_Itoa.simps [of n])
  qed
qed

lemma digit_char_byte: "d < 10 \<Longrightarrow> byte (digit_char d) = 48 + d"
  by (simp add: digit_char_def)

lemma Itoa_digits: "list_all (\<lambda>c. ascii_digit (byte c)) (strconv_Itoa n)"
proof (induction n rule: strconv_Itoa.induct)
  case (1 n)
  then show ?case
    by (subst strconv_Itoa.simps) (auto simp: digit_char_byte ascii_digit_def)
qed

lemma Itoa_ascii: "list_all (\<lambda>c. byte c < 0x80) (strconv_Itoa n)"
  using Itoa_digits [of n] by (auto simp: list_all_iff ascii_digit_def)

lemma Itoa_nonempty [simp]: "strconv_Itoa n \<noteq> []"
  by (subst strconv_Itoa.simps) simp

lemma Itoa_value: "foldl (\<lambda>a c. 10 * a + (byte c - 48)) 0 (strconv_Itoa n) = n"
proof (induction n rule: strconv_Itoa.induct)
  case (1 n)
  show ?case using 1 by (subst strconv_Itoa.simps) (simp add: digit_char_byte)
qed

lemma Itoa_inj: "strconv_Itoa m = strconv_Itoa n \<longleftrightarrow> m = n"
  by (metis Itoa_value)

lemma go_runes_ascii: "list_all (\<lambda>c. byte c < 0x80) s \<Longrightarrow> go_runes s = map (\<lambda>c. (byte c, [c])) s"
  by (induction s) (auto simp: rune_size_1 rune_value_def Let_def)

lemma dropWhile_none: "list_all (\<lambda>x. \<not> P x) xs \<Longrightarrow> dropWhile P xs = xs"
  by (cases xs) simp_all

lemma TrimSpace_digits:
  assumes "list_all (\<lambda>c. ascii_digit (byte c)) s"
  shows "strings_TrimSpace s = s"
proof -
  have r: "go_runes s = map (\<lambda>c. (byte c, [c])) s"
    using assms by (intro go_runes_ascii) (auto simp: list_all_iff ascii_digit_def)
  have "list_all (\<lambda>x. \<not> (case x of (r, _) \<Rightarrow> unicode_IsSpace r)) (go_runes s)"
    using assms by (auto simp: r list_all_iff ascii_digit_def unicode_IsSpace_def)
  then show ?thesis using go_runes_concat [of s] by (simp add: strings_TrimSpace_def dropWhile_none)
qed

end
