(* ===== verification/Text_Bound.thy ===== *)
theory Text_Bound
  imports Go_Strings
begin

text \<open>
  Bounding text: package \<open>internal/textbound\<close> (\<open>Cut\<close> and the \<open>Prefix\<close> writer) and
  \<open>bound\<close> of session/redact.go, which every answer to a model and every
  diagnostic passes through.
\<close>

section \<open>Package textbound\<close>

text \<open>The loop of \<open>Cut\<close>: step back from \<open>limit\<close> to the start of a character.\<close>

fun cut_end :: "string \<Rightarrow> nat \<Rightarrow> nat" where
  "cut_end s 0 = 0"
| "cut_end s (Suc n) = (if RuneStart (s ! Suc n) then Suc n else cut_end s n)"

definition Cut :: "string \<Rightarrow> int \<Rightarrow> string" where
  "Cut s limit =
     (if limit \<le> 0 then []
      else if int (length s) \<le> limit then s
      else take (cut_end s (nat limit)) s)"

text \<open>The bounded writer that captures a process's output.\<close>

record prefix_writer =
  pw_Limit :: int
  pw_buf :: string
  pw_total :: nat

definition Prefix_Write :: "prefix_writer \<Rightarrow> string \<Rightarrow> prefix_writer \<times> nat" where
  "Prefix_Write p b =
     (let p1 = p\<lparr>pw_total := pw_total p + length b\<rparr>;
          remaining = pw_Limit p - int (length (pw_buf p))
      in (if remaining > 0 then p1\<lparr>pw_buf := pw_buf p @ take (min (length b) (nat remaining)) b\<rparr> else p1,
          length b))"

definition Prefix_Bytes :: "prefix_writer \<Rightarrow> string" where
  "Prefix_Bytes p = pw_buf p"

definition Prefix_Exceeded :: "prefix_writer \<Rightarrow> bool" where
  "Prefix_Exceeded p \<longleftrightarrow> int (pw_total p) > pw_Limit p"

section \<open>bound\<close>

definition bound_short :: string where
  "bound_short = ''[truncated]''"

definition bound_marker :: "nat \<Rightarrow> string" where
  "bound_marker omitted = CHR 0x0A # ''[truncated: '' @ strconv_Itoa omitted @ '' further bytes omitted]''"

text \<open>
  The loop that settles the cut and the marker's length. \<open>None\<close> would be a loop
  that never ends; \<open>Some None\<close> is leaving it without an answer. The marker in
  hand is always the one for the current end, so the end is the whole state.
\<close>

partial_function (option) bound_loop :: "string \<Rightarrow> int \<Rightarrow> nat \<Rightarrow> string option option" where
  "bound_loop text limit end =
     (let note = bound_marker (length text - end) in
      if limit - int (length note) \<ge> 1 then
        (let next = length (Cut text (limit - int (length note))) in
         if next = end then Some (Some (take end text @ note))
         else bound_loop text limit next)
      else Some None)"

text \<open>
  \<open>bound\<close>, with \<open>None\<close> for not returning. The loop starts at \<open>end = limit\<close>; for a
  negative limit its condition fails at once whatever the marker.
\<close>

definition bound_run :: "string \<Rightarrow> int \<Rightarrow> string option" where
  "bound_run text limit =
     (if int (length text) \<le> limit then Some text
      else case bound_loop text limit (nat limit) of
        None \<Rightarrow> None
      | Some (Some r) \<Rightarrow> Some r
      | Some None \<Rightarrow>
          Some (if limit \<ge> int (length bound_short)
                then Cut text (limit - int (length bound_short)) @ bound_short
                else Cut text limit))"

definition bound :: "string \<Rightarrow> int \<Rightarrow> string" where
  "bound text limit = the (bound_run text limit)"

section \<open>Facts about Cut\<close>

lemma cut_end_le: "cut_end s n \<le> n"
  by (induction n) auto

lemma cut_end_mono: "m \<le> n \<Longrightarrow> cut_end s m \<le> cut_end s n"
proof (induction n)
  case (Suc n)
  show ?case
  proof (cases "m = Suc n")
    case False
    with Suc have "cut_end s m \<le> cut_end s n" by simp
    moreover have "cut_end s n \<le> cut_end s (Suc n)" using cut_end_le [of s n] by simp
    ultimately show ?thesis by (rule le_trans)
  qed simp
qed simp

lemma cut_end_start: "cut_end s n = 0 \<or> RuneStart (s ! cut_end s n)"
  by (induction n) auto

lemma Cut_prefix: "Cut s limit = take (length (Cut s limit)) s"
proof (cases "limit \<le> 0 \<or> int (length s) \<le> limit")
  case False
  then have "cut_end s (nat limit) \<le> length s" using cut_end_le [of s "nat limit"] by linarith
  with False show ?thesis by (simp add: Cut_def)
qed (auto simp: Cut_def)

lemma Cut_length: "int (length (Cut s limit)) \<le> max 0 limit"
  using cut_end_le [of s "nat limit"] by (auto simp: Cut_def)

lemma Cut_length_le: "length (Cut s limit) \<le> length s"
  using cut_end_le [of s "nat limit"] by (auto simp: Cut_def)

lemma Cut_length_mono:
  assumes "a \<le> b"
  shows "length (Cut s a) \<le> length (Cut s b)"
proof -
  have "cut_end s (nat a) \<le> nat a" by (rule cut_end_le)
  moreover have "cut_end s (nat a) \<le> cut_end s (nat b)" using assms by (intro cut_end_mono) simp
  ultimately show ?thesis using assms by (auto simp: Cut_def)
qed

lemma Cut_valid: "utf8_valid s \<Longrightarrow> utf8_valid (Cut s limit)"
proof (cases "limit \<le> 0 \<or> int (length s) \<le> limit")
  case False
  assume v: "utf8_valid s"
  let ?n = "cut_end s (nat limit)"
  have "?n \<le> length s" using False cut_end_le [of s "nat limit"] by linarith
  show ?thesis
  proof (cases "?n = 0")
    case nz: False
    then have "RuneStart (s ! ?n)" using cut_end_start [of s "nat limit"] by simp
    with v \<open>?n \<le> length s\<close> have "utf8_valid (take ?n s)" by (intro utf8_valid_take) simp_all
    with False show ?thesis by (simp add: Cut_def)
  qed (use False in \<open>simp add: Cut_def\<close>)
qed (auto simp: Cut_def)

section \<open>The interface of a text cutter\<close>

text \<open>
  What \<open>bound\<close> relies on: a cutter returns a prefix, within the limit, no
  shorter for a larger limit, and keeps text well-formed.
\<close>

locale text_cutter =
  fixes cut :: "string \<Rightarrow> int \<Rightarrow> string"
  assumes cut_prefix: "cut s limit = take (length (cut s limit)) s"
    and cut_length: "int (length (cut s limit)) \<le> max 0 limit"
    and cut_mono: "a \<le> b \<Longrightarrow> length (cut s a) \<le> length (cut s b)"
    and cut_valid: "utf8_valid s \<Longrightarrow> utf8_valid (cut s limit)"
begin

text \<open>Where the marker for \<open>end\<close> would leave the cut.\<close>

definition next_end :: "string \<Rightarrow> int \<Rightarrow> nat \<Rightarrow> nat" where
  "next_end s limit n = length (cut s (limit - int (length (bound_marker (length s - n)))))"

lemma marker_mono: "m \<le> n \<Longrightarrow> length (bound_marker m) \<le> length (bound_marker n)"
  by (simp add: bound_marker_def Itoa_mono)

lemma next_end_mono: "m \<le> n \<Longrightarrow> next_end s limit m \<le> next_end s limit n"
  unfolding next_end_def by (intro cut_mono) (simp add: marker_mono diff_le_mono2)

lemma next_end_start: "0 \<le> limit \<Longrightarrow> next_end s limit (nat limit) \<le> nat limit"
  using cut_length [of s "limit - int (length (bound_marker (length s - nat limit)))"]
  by (simp add: next_end_def)

lemma marker_valid: "utf8_valid (bound_marker n)"
  using Itoa_ascii [of n] by (intro utf8_valid_ascii) (simp add: bound_marker_def)

end

interpretation textbound: text_cutter Cut
  by unfold_locales (fact Cut_prefix Cut_length Cut_length_mono Cut_valid)+

section \<open>The loop returns\<close>

lemma bound_loop_unfold:
  "bound_loop s limit n =
     (if limit - int (length (bound_marker (length s - n))) \<ge> 1 then
        (if textbound.next_end s limit n = n then Some (Some (take n s @ bound_marker (length s - n)))
         else bound_loop s limit (textbound.next_end s limit n))
      else Some None)"
  by (subst bound_loop.simps) (simp add: Let_def textbound.next_end_def)

text \<open>
  From an end that the next cut does not exceed, the loop ends: it stops with the
  text up to a settled end and the marker for exactly that end, or runs out of room.
\<close>

lemma bound_loop_returns:
  "textbound.next_end s limit n \<le> n \<Longrightarrow>
     bound_loop s limit n = Some None
     \<or> (\<exists>e. bound_loop s limit n = Some (Some (take e s @ bound_marker (length s - e)))
            \<and> limit - int (length (bound_marker (length s - e))) \<ge> 1
            \<and> e = length (Cut s (limit - int (length (bound_marker (length s - e))))))"
proof (induction n rule: less_induct)
  case (less n)
  let ?m = "textbound.next_end s limit n"
  show ?case
  proof (cases "limit - int (length (bound_marker (length s - n))) \<ge> 1")
    case True
    show ?thesis
    proof (cases "?m = n")
      case eq: True
      then have "n = length (Cut s (limit - int (length (bound_marker (length s - n)))))"
        by (simp add: textbound.next_end_def)
      moreover have "bound_loop s limit n = Some (Some (take n s @ bound_marker (length s - n)))"
        using True eq by (subst bound_loop_unfold) simp
      ultimately show ?thesis using True by blast
    next
      case neq: False
      with less.prems have "?m < n" by simp
      moreover have "textbound.next_end s limit ?m \<le> ?m"
        using less.prems by (rule textbound.next_end_mono)
      ultimately have "bound_loop s limit ?m = Some None \<or>
         (\<exists>e. bound_loop s limit ?m = Some (Some (take e s @ bound_marker (length s - e)))
            \<and> limit - int (length (bound_marker (length s - e))) \<ge> 1
            \<and> e = length (Cut s (limit - int (length (bound_marker (length s - e))))))"
        by (rule less.IH)
      moreover have "bound_loop s limit n = bound_loop s limit ?m"
        using True neq by (subst bound_loop_unfold) simp
      ultimately show ?thesis by simp
    qed
  next
    case False
    then show ?thesis by (subst (1) bound_loop_unfold) simp
  qed
qed

lemma bound_loop_start:
  assumes "\<not> int (length s) \<le> limit"
  shows "textbound.next_end s limit (nat limit) \<le> nat limit"
  using textbound.next_end_start [of limit s] Cut_length [of s]
  by (cases "0 \<le> limit") (simp, simp add: textbound.next_end_def Cut_def)

lemma bound_run_cases:
  assumes "\<not> int (length s) \<le> limit"
  shows "(\<exists>e. bound_run s limit = Some (take e s @ bound_marker (length s - e))
            \<and> limit - int (length (bound_marker (length s - e))) \<ge> 1
            \<and> e = length (Cut s (limit - int (length (bound_marker (length s - e))))))
       \<or> (limit \<ge> 11 \<and> bound_run s limit = Some (Cut s (limit - 11) @ bound_short))
       \<or> (limit < 11 \<and> bound_run s limit = Some (Cut s limit))"
proof -
  have len: "length bound_short = 11" by (simp add: bound_short_def)
  from bound_loop_returns [OF bound_loop_start [OF assms]] show ?thesis
  proof (elim disjE exE conjE)
    assume "bound_loop s limit (nat limit) = Some None"
    then show ?thesis using assms by (auto simp: bound_run_def len)
  next
    fix e
    assume "bound_loop s limit (nat limit) = Some (Some (take e s @ bound_marker (length s - e)))"
      "limit - int (length (bound_marker (length s - e))) \<ge> 1"
      "e = length (Cut s (limit - int (length (bound_marker (length s - e)))))"
    moreover from this(1) have "bound_run s limit = Some (take e s @ bound_marker (length s - e))"
      using assms by (simp add: bound_run_def)
    ultimately show ?thesis by blast
  qed
qed

lemma bound_returns: "bound_run s limit = Some (bound s limit)"
proof (cases "int (length s) \<le> limit")
  case True
  then show ?thesis by (simp add: bound_def bound_run_def)
next
  case False
  from bound_run_cases [OF this] show ?thesis by (auto simp: bound_def)
qed

lemma bound_id [simp]: "int (length s) \<le> limit \<Longrightarrow> bound s limit = s"
  by (simp add: bound_def bound_run_def)

lemma bound_cases:
  assumes "\<not> int (length s) \<le> limit"
  obtains (marked) e where "bound s limit = take e s @ bound_marker (length s - e)"
      "limit - int (length (bound_marker (length s - e))) \<ge> 1"
      "e = length (Cut s (limit - int (length (bound_marker (length s - e)))))"
  | (short) "limit \<ge> 11" "bound s limit = Cut s (limit - 11) @ bound_short"
  | (bare) "limit < 11" "bound s limit = Cut s limit"
  using bound_run_cases [OF assms] by (auto simp: bound_returns)

lemma bound_length: "int (length (bound s limit)) \<le> max 0 limit"
proof (cases "int (length s) \<le> limit")
  case False
  then show ?thesis
  proof (cases rule: bound_cases)
    case (marked e)
    have "int e \<le> limit - int (length (bound_marker (length s - e)))"
      using Cut_length [of s "limit - int (length (bound_marker (length s - e)))"] marked(2,3) by simp
    moreover have "e \<le> length s" using marked(3) Cut_length_le by metis
    ultimately show ?thesis using marked(1) by simp
  next
    case short
    then show ?thesis using Cut_length [of s "limit - 11"] by (simp add: bound_short_def)
  next
    case bare
    then show ?thesis using Cut_length by simp
  qed
qed simp

lemma bound_short_valid: "utf8_valid bound_short"
  by (rule utf8_valid_ascii) (simp add: bound_short_def)

lemma bound_valid: "utf8_valid s \<Longrightarrow> utf8_valid (bound s limit)"
proof (cases "int (length s) \<le> limit")
  case False
  assume v: "utf8_valid s"
  from False show ?thesis
  proof (cases rule: bound_cases)
    case (marked e)
    have "take e s = Cut s (limit - int (length (bound_marker (length s - e))))"
      using Cut_prefix [of s "limit - int (length (bound_marker (length s - e)))"] marked(3) by simp
    then show ?thesis using marked(1) v by (simp add: utf8_valid_append Cut_valid textbound.marker_valid)
  next
    case short
    then show ?thesis using v by (simp add: utf8_valid_append Cut_valid bound_short_valid)
  next
    case bare
    then show ?thesis using v by (simp add: Cut_valid)
  qed
qed simp

section \<open>The cut is tight\<close>

lemma cut_end_greatest: "i \<le> n \<Longrightarrow> RuneStart (s ! i) \<Longrightarrow> i \<le> cut_end s n"
  by (induction n) (auto simp: le_Suc_eq)

lemma rune_first_start: "rune_size (a # s) \<noteq> 0 \<Longrightarrow> RuneStart a"
  by (auto simp: rune_size.simps RuneStart_def byte_in_def split: if_splits)

lemma start_within_three:
  "utf8_valid s \<Longrightarrow> n < length s \<Longrightarrow> \<exists>i \<le> n. n \<le> i + 3 \<and> RuneStart (s ! i)"
proof (induction s arbitrary: n rule: utf8_valid.induct)
  case (2 a s)
  let ?k = "rune_size (a # s)"
  from "2.prems"(1) have k: "?k \<noteq> 0" and v: "utf8_valid (drop ?k (a # s))"
    by (auto simp: Let_def split: if_splits)
  show ?case
  proof (cases "n < ?k")
    case True
    with rune_size_bound [of "a # s"] rune_first_start [OF k] show ?thesis by (intro exI [of _ 0]) simp
  next
    case False
    then have "n - ?k < length (drop ?k (a # s))" using "2.prems"(2) by simp
    from "2.IH" [OF refl k v this] obtain i where "i \<le> n - ?k" "n - ?k \<le> i + 3"
      "RuneStart (drop ?k (a # s) ! i)" by blast
    with False rune_size_le [of "a # s"] show ?thesis
      by (intro exI [of _ "i + ?k"]) (auto simp: add.commute)
  qed
qed simp

lemma Cut_tight:
  assumes "utf8_valid s" "0 < limit" "limit < int (length s)"
  shows "limit \<le> int (length (Cut s limit)) + 3"
proof -
  have "nat limit < length s" using assms by linarith
  with assms(1) obtain i where i: "i \<le> nat limit" "nat limit \<le> i + 3" "RuneStart (s ! i)"
    using start_within_three by blast
  from cut_end_greatest [OF i(1,3)] have "i \<le> cut_end s (nat limit)" .
  with i(2) cut_end_le [of s "nat limit"] assms(2,3) show ?thesis by (auto simp: Cut_def)
qed

section \<open>Properties\<close>

text \<open>Cutting text to a limit returns a prefix of it that fits the limit, never splits a
  UTF-8 character, and gives up at most three bytes to do so.\<close>

theorem cut_sound:
  "prefix (Cut s limit) s \<and> int (length (Cut s limit)) \<le> max 0 limit
   \<and> (int (length s) \<le> limit \<longrightarrow> Cut s limit = s)
   \<and> (utf8_valid s \<longrightarrow> utf8_valid (Cut s limit)
        \<and> (0 < limit \<and> limit < int (length s) \<longrightarrow> limit \<le> int (length (Cut s limit)) + 3))"
proof -
  have "prefix (Cut s limit) s" by (subst Cut_prefix) (rule take_is_prefix)
  moreover have "int (length s) \<le> limit \<longrightarrow> Cut s limit = s" by (cases s) (auto simp: Cut_def)
  ultimately show ?thesis using Cut_length Cut_valid Cut_tight by blast
qed

theorem cut_sound_witness:
  "Cut (map char_of [97 :: nat, 0xE2, 0x82, 0xAC, 98]) 3 = ''a''
   \<and> utf8_valid (Cut (map char_of [97 :: nat, 0xE2, 0x82, 0xAC, 98]) 3)"
proof -
  have "utf8_valid (map char_of [97 :: nat, 0xE2, 0x82, 0xAC, 98])" by code_simp
  moreover have "Cut (map char_of [97 :: nat, 0xE2, 0x82, 0xAC, 98]) 3 = ''a''" by code_simp
  ultimately show ?thesis using cut_sound [of "map char_of [97 :: nat, 0xE2, 0x82, 0xAC, 98]" 3] by blast
qed

text \<open>Bounding an answer always returns, within the limit, without splitting a character;
  text that fits is unchanged, and a cut that has room for it ends in a marker that states
  exactly how many bytes of the text were left out.\<close>

theorem bound_sound:
  "bound_run s limit = Some (bound s limit)
   \<and> int (length (bound s limit)) \<le> max 0 limit
   \<and> (int (length s) \<le> limit \<longrightarrow> bound s limit = s)
   \<and> (utf8_valid s \<longrightarrow> utf8_valid (bound s limit))
   \<and> (limit < int (length s) \<and> 11 \<le> limit \<longrightarrow>
        (\<exists>e \<le> length s. bound s limit = take e s @ bound_marker (length s - e)
                    \<or> bound s limit = take e s @ bound_short))"
proof -
  have "\<exists>e \<le> length s. bound s limit = take e s @ bound_marker (length s - e)
                    \<or> bound s limit = take e s @ bound_short"
    if "limit < int (length s)" "11 \<le> limit"
  proof -
    from that(1) have "\<not> int (length s) \<le> limit" by simp
    then show ?thesis
    proof (cases rule: bound_cases)
      case (marked e)
      then show ?thesis using Cut_length_le by metis
    next
      case short
      then show ?thesis using Cut_length_le Cut_prefix by metis
    qed (use that in simp)
  qed
  then show ?thesis using bound_returns bound_length bound_valid by auto
qed

theorem bound_sound_witness:
  "utf8_valid (replicate 60 (CHR ''x'')) \<and> length (bound (replicate 60 (CHR ''x'')) 50) \<le> 50"
  using bound_sound [of "replicate 60 (CHR ''x'')" 50]
    utf8_valid_ascii [of "replicate 60 (CHR ''x'')"] by (simp add: list_all_iff)

lemma Prefix_Write_spec:
  assumes "0 \<le> pw_Limit p" "pw_buf p = take (nat (pw_Limit p)) s" "pw_total p = length s"
  shows "pw_buf (fst (Prefix_Write p b)) = take (nat (pw_Limit p)) (s @ b)
    \<and> pw_total (fst (Prefix_Write p b)) = length (s @ b)
    \<and> pw_Limit (fst (Prefix_Write p b)) = pw_Limit p"
  using assms by (auto simp: Prefix_Write_def Let_def min_def nat_diff_distrib)

fun Prefix_Writes :: "prefix_writer \<Rightarrow> string list \<Rightarrow> prefix_writer" where
  "Prefix_Writes p [] = p"
| "Prefix_Writes p (b # bs) = Prefix_Writes (fst (Prefix_Write p b)) bs"

lemma Prefix_Writes_spec:
  "0 \<le> pw_Limit p \<Longrightarrow> pw_buf p = take (nat (pw_Limit p)) s \<Longrightarrow> pw_total p = length s \<Longrightarrow>
     pw_buf (Prefix_Writes p bs) = take (nat (pw_Limit p)) (s @ concat bs)
     \<and> pw_total (Prefix_Writes p bs) = length (s @ concat bs)
     \<and> pw_Limit (Prefix_Writes p bs) = pw_Limit p"
proof (induction bs arbitrary: p s)
  case (Cons b bs)
  from Prefix_Write_spec [OF Cons.prems] Cons.prems(1)
    Cons.IH [of "fst (Prefix_Write p b)" "s @ b"] show ?case by simp
qed simp

text \<open>The bounded writer keeps exactly the first \<open>Limit\<close> bytes written to it over any
  sequence of writes, accepts every byte, and reports an excess exactly when something was
  left out.\<close>

theorem prefix_writer_exact:
  assumes "0 \<le> limit" and "p = Prefix_Writes \<lparr>pw_Limit = limit, pw_buf = [], pw_total = 0\<rparr> chunks"
  shows "Prefix_Bytes p = take (nat limit) (concat chunks)
    \<and> (Prefix_Exceeded p \<longleftrightarrow> Prefix_Bytes p \<noteq> concat chunks)
    \<and> snd (Prefix_Write p b) = length b"
proof -
  from Prefix_Writes_spec [of "\<lparr>pw_Limit = limit, pw_buf = [], pw_total = 0\<rparr>" "[]" chunks] assms
  have b: "pw_buf p = take (nat limit) (concat chunks)" and t: "pw_total p = length (concat chunks)"
    and l: "pw_Limit p = limit" by auto
  have "int (length (concat chunks)) > limit \<longleftrightarrow> take (nat limit) (concat chunks) \<noteq> concat chunks"
    using assms(1) by (auto simp: not_less dest: arg_cong [where f = length])
  with b t l show ?thesis
    by (auto simp: Prefix_Bytes_def Prefix_Exceeded_def Prefix_Write_def Let_def)
qed

theorem prefix_writer_exact_witness:
  "Prefix_Exceeded (Prefix_Writes \<lparr>pw_Limit = 4, pw_buf = [], pw_total = 0\<rparr> [''ab'', ''cdef'', ''gh''])
   \<and> Prefix_Bytes (Prefix_Writes \<lparr>pw_Limit = 4, pw_buf = [], pw_total = 0\<rparr> [''ab'', ''cdef'', ''gh'']) = ''abcd''"
  using prefix_writer_exact [OF _ refl, of 4 "[''ab'', ''cdef'', ''gh'']" "[]"] by simp

end
