(* ===== verification/Redact.thy ===== *)
theory Redact
  imports Text_Bound
begin

text \<open>
  Output hygiene (session/redact.go): scrubbing the secrets of an edge session,
  and preparing captured output for a diagnostic record. The tables of package
  unicode for code points from 128 on are a parameter.
\<close>

section \<open>Definitions\<close>

record unicode_tables =
  ut_letter :: "nat \<Rightarrow> bool"
  ut_digit :: "nat \<Rightarrow> bool"
  ut_lower :: "nat \<Rightarrow> nat"

definition unicode_IsLetter :: "unicode_tables \<Rightarrow> nat \<Rightarrow> bool" where
  "unicode_IsLetter U r \<longleftrightarrow> (if r < 128 then ascii_upper r \<or> ascii_lower r else ut_letter U r)"

definition unicode_IsDigit :: "unicode_tables \<Rightarrow> nat \<Rightarrow> bool" where
  "unicode_IsDigit U r \<longleftrightarrow> (if r < 128 then ascii_digit r else ut_digit U r)"

definition unicode_ToLower :: "unicode_tables \<Rightarrow> nat \<Rightarrow> nat" where
  "unicode_ToLower U r = (if r < 128 then (if ascii_upper r then r + 32 else r) else ut_lower U r)"

text \<open>\<open>strings.ToLower(s) != s\<close>; an invalid byte is rewritten as U+FFFD.\<close>

definition ToLower_differs :: "unicode_tables \<Rightarrow> string \<Rightarrow> bool" where
  "ToLower_differs U s \<longleftrightarrow>
     list_ex (\<lambda>(r, bs). unicode_ToLower U r \<noteq> r \<or> (r = 0xFFFD \<and> length bs = 1)) (go_runes s)"

abbreviation redacted :: string where
  "redacted \<equiv> ''[redacted]''"

text \<open>The body of \<open>json.Marshal(secret)\<close> between its quotes, as Go escapes strings.\<close>

definition hex_char :: "nat \<Rightarrow> char" where
  "hex_char d = (if d < 10 then char_of (48 + d) else char_of (87 + d))"

definition json_escape_rune :: "nat \<times> string \<Rightarrow> string" where
  "json_escape_rune p = (case p of (r, bs) \<Rightarrow>
     if r = 34 then [CHR 92, CHR 34] else if r = 92 then [CHR 92, CHR 92]
     else if r = 8 then [CHR 92, CHR ''b''] else if r = 12 then [CHR 92, CHR ''f'']
     else if r = 10 then [CHR 92, CHR ''n''] else if r = 13 then [CHR 92, CHR ''r'']
     else if r = 9 then [CHR 92, CHR ''t'']
     else if r < 32 \<or> r = 60 \<or> r = 62 \<or> r = 38 then
       [CHR 92, CHR ''u'', CHR ''0'', CHR ''0'', hex_char (r div 16), hex_char (r mod 16)]
     else if r = 0xFFFD \<and> length bs = 1 then CHR 92 # ''ufffd''
     else if r = 0x2028 then CHR 92 # ''u2028'' else if r = 0x2029 then CHR 92 # ''u2029''
     else bs)"

definition json_inner :: "string \<Rightarrow> string" where
  "json_inner s = concat (map json_escape_rune (go_runes s))"

definition scrub_one :: "string \<Rightarrow> string \<Rightarrow> string" where
  "scrub_one text secret =
     (if secret = [] then text
      else let encoded = json_inner secret;
               text1 = (if length encoded + 2 > 2 then strings_ReplaceAll text encoded redacted else text)
           in strings_ReplaceAll text1 secret redacted)"

definition scrubEdge :: "string \<Rightarrow> string list \<Rightarrow> string" where
  "scrubEdge raw secrets = foldl scrub_one raw secrets"

text \<open>\<open>opaque\<close> and \<open>credentialLike\<close>: what a credential looks like.\<close>

definition opaque :: "unicode_tables \<Rightarrow> string \<Rightarrow> bool" where
  "opaque U field =
     (let rs = map fst (go_runes field);
          letters = length (filter (unicode_IsLetter U) rs);
          digits = length (filter (\<lambda>r. \<not> unicode_IsLetter U r \<and> unicode_IsDigit U r) rs);
          other = length (filter (\<lambda>r. \<not> unicode_IsLetter U r \<and> \<not> unicode_IsDigit U r) rs)
      in if other > 2 \<or> letters = 0 then False
         else digits > 0 \<or> (letters > 24 \<and> ToLower_differs U field))"

definition proper_prefix :: "string \<Rightarrow> string \<Rightarrow> bool" where
  "proper_prefix field p \<longleftrightarrow> strings_HasPrefix field p \<and> length field > length p"

definition credentialLike :: "string \<Rightarrow> bool" where
  "credentialLike field \<longleftrightarrow>
     list_ex (proper_prefix field) [''sk-'', ''sk_'', ''Bearer'']
     \<or> list_ex (\<lambda>part. list_ex (proper_prefix part) [''token='', ''key='', ''secret=''])
         (strings_FieldsFunc field (\<lambda>r. r = 63 \<or> r = 38 \<or> r = 59))"

definition redact_cutset :: string where
  "redact_cutset = [CHR 34, CHR 39] @ ''.,;:()[]{}''"

text \<open>The loop of \<open>redactSecrets\<close>; an authorization scheme marks the field after it.\<close>

function redact_fields :: "unicode_tables \<Rightarrow> string list \<Rightarrow> string list" where
  "redact_fields U [] = []"
| "redact_fields U (field # rest) =
     (let trimmed = strings_Trim field redact_cutset in
      if strings_EqualFold trimmed ''Bearer'' \<and> rest \<noteq> [] then
        field # redact_fields U (redacted # tl rest)
      else if length trimmed \<ge> 20 \<and> opaque U trimmed then
        strings_Replace1 field trimmed redacted # redact_fields U rest
      else if credentialLike trimmed then redacted # redact_fields U rest
      else field # redact_fields U rest)"
  by pat_completeness auto
termination
  by (relation "measure (\<lambda>(U, fs). length fs)") auto

definition redactSecrets :: "unicode_tables \<Rightarrow> string \<Rightarrow> string" where
  "redactSecrets U text = strings_Join (redact_fields U (strings_Fields text)) '' ''"

text \<open>The rune loop of \<open>sanitize\<close>, with its escape state.\<close>

fun sanitize_runes :: "unicode_tables \<Rightarrow> bool \<Rightarrow> (nat \<times> string) list \<Rightarrow> string" where
  "sanitize_runes U skip [] = []"
| "sanitize_runes U skip ((r, bs) # rs) =
     (if skip then sanitize_runes U (\<not> unicode_IsLetter U r) rs
      else if r = 0x1B then sanitize_runes U True rs
      else if r = 10 \<or> r = 9 then CHR '' '' # sanitize_runes U False rs
      else if r < 0x20 \<or> r = 0x7F then sanitize_runes U False rs
      else (if r = 0xFFFD then map char_of [0xEF :: nat, 0xBF, 0xBD] else bs) @ sanitize_runes U False rs)"

definition sanitize_text :: "unicode_tables \<Rightarrow> string \<Rightarrow> string" where
  "sanitize_text U raw =
     redactSecrets U (strings_Join (strings_Fields (sanitize_runes U False (go_runes raw))) '' '')"

definition sanitize :: "unicode_tables \<Rightarrow> string \<Rightarrow> int \<Rightarrow> string" where
  "sanitize U raw limit = bound (sanitize_text U raw) limit"

section \<open>Scrubbing\<close>

definition bracket_free :: "string \<Rightarrow> bool" where
  "bracket_free w \<longleftrightarrow> CHR 0x5B \<notin> set w \<and> CHR 0x5D \<notin> set w"

lemma sublist_split_char:
  assumes "c \<notin> set w" "sublist w (ys @ c # zs)"
  shows "sublist w ys \<or> sublist w zs"
proof -
  from assms(2) consider "sublist w ys" | "sublist w (c # zs)"
    | xs1 xs2 where "w = xs1 @ xs2" "suffix xs1 ys" "prefix xs2 (c # zs)"
    by (auto simp: sublist_append)
  then show ?thesis
  proof cases
    case 2
    with assms(1) show ?thesis by (auto simp: sublist_Cons_right prefix_Cons)
  next
    case 3
    with assms(1) have "xs2 = []" by (auto simp: prefix_Cons)
    with 3 show ?thesis by (auto intro: suffix_imp_sublist)
  qed blast
qed

lemma ReplaceAll_prefix:
  "old \<noteq> [] \<Longrightarrow> bracket_free w \<Longrightarrow> prefix w (strings_ReplaceAll s old redacted) \<Longrightarrow> prefix w s"
proof (induction "length s" arbitrary: s w rule: less_induct)
  case less
  show ?case
  proof (cases s)
    case Nil
    with less.prems show ?thesis by simp
  next
    case (Cons c cs)
    show ?thesis
    proof (cases "prefix old s")
      case True
      then obtain r where "s = old @ r" by (auto simp: prefix_def)
      with less.prems show ?thesis by (auto simp: ReplaceAll_hit prefix_Cons bracket_free_def)
    next
      case False
      with Cons less.prems have "prefix w (c # strings_ReplaceAll cs old redacted)"
        by (simp add: ReplaceAll_miss)
      then consider "w = []" | w' where "w = c # w'" "prefix w' (strings_ReplaceAll cs old redacted)"
        by (auto simp: prefix_Cons)
      then show ?thesis
        using less.hyps [of cs] less.prems Cons by cases (auto simp: bracket_free_def)
    qed
  qed
qed

lemma ReplaceAll_sublist:
  assumes "old \<noteq> []" "w \<noteq> []" "bracket_free w" "\<not> sublist w ''redacted''"
  shows "sublist w (strings_ReplaceAll s old redacted) \<Longrightarrow> sublist w s \<and> w \<noteq> old"
proof (induction "length s" arbitrary: s rule: less_induct)
  case less
  show ?case
  proof (cases s)
    case Nil
    with less.prems assms show ?thesis by simp
  next
    case (Cons c cs)
    show ?thesis
    proof (cases "prefix old s")
      case True
      then obtain r where r: "s = old @ r" by (auto simp: prefix_def)
      with less.prems assms(1)
      have "sublist w ([] @ CHR 0x5B # ''redacted'' @ CHR 0x5D # strings_ReplaceAll r old redacted)"
        by (simp add: ReplaceAll_hit)
      with assms(2-4) have "sublist w (strings_ReplaceAll r old redacted)"
        unfolding bracket_free_def
        by (metis sublist_split_char sublist_Nil_right)
      with less.hyps [of r] r assms(1) show ?thesis by (auto simp: sublist_append)
    next
      case False
      with Cons less.prems assms(1) have "sublist w (c # strings_ReplaceAll cs old redacted)"
        by (simp add: ReplaceAll_miss)
      then consider "prefix w (strings_ReplaceAll s old redacted)" | "sublist w (strings_ReplaceAll cs old redacted)"
        using Cons False assms(1) by (auto simp: sublist_Cons_right ReplaceAll_miss)
      then show ?thesis
      proof cases
        case 1
        then have "prefix w s" using ReplaceAll_prefix assms by blast
        with False show ?thesis by (auto intro: prefix_imp_sublist)
      next
        case 2
        with less.hyps [of cs] Cons show ?thesis by (auto simp: sublist_Cons_right)
      qed
    qed
  qed
qed

lemma ReplaceAll_removes:
  assumes "w \<noteq> []" "bracket_free w" "\<not> sublist w ''redacted''"
  shows "\<not> sublist w (strings_ReplaceAll s w redacted)"
  using ReplaceAll_sublist [OF assms(1) assms] by blast

lemma scrub_one_keeps:
  assumes "w \<noteq> []" "bracket_free w" "\<not> sublist w ''redacted''" "sublist w (scrub_one t secret)"
  shows "sublist w t"
proof (cases "secret = []")
  case False
  let ?t1 = "if length (json_inner secret) + 2 > 2
    then strings_ReplaceAll t (json_inner secret) redacted else t"
  have "sublist w (strings_ReplaceAll ?t1 secret redacted)"
    using assms(4) False by (simp add: scrub_one_def Let_def)
  then have "sublist w ?t1" using ReplaceAll_sublist [OF False assms(1-3)] by blast
  then show ?thesis
    using ReplaceAll_sublist [OF _ assms(1-3), of "json_inner secret" t] by (auto split: if_splits)
qed (use assms in \<open>simp add: scrub_one_def\<close>)

lemma scrub_one_removes:
  assumes "secret \<noteq> []" "w = secret \<or> w = json_inner secret" "w \<noteq> []"
    "bracket_free w" "\<not> sublist w ''redacted''"
  shows "\<not> sublist w (scrub_one t secret)"
proof (cases "w = secret")
  case True
  with assms show ?thesis by (simp add: scrub_one_def Let_def ReplaceAll_removes)
next
  case False
  with assms have w: "w = json_inner secret" by simp
  show ?thesis
  proof
    assume "sublist w (scrub_one t secret)"
    then have "sublist w (strings_ReplaceAll t w redacted)"
      using assms w ReplaceAll_sublist [OF assms(1,3-5)] by (auto simp: scrub_one_def Let_def)
    then show False using ReplaceAll_removes assms(3-5) by blast
  qed
qed

lemma scrub_rest_keeps:
  assumes "w \<noteq> []" "bracket_free w" "\<not> sublist w ''redacted''"
  shows "sublist w (foldl scrub_one t secrets) \<Longrightarrow> sublist w t"
  by (induction secrets arbitrary: t) (auto dest: scrub_one_keeps [OF assms])

lemma foldl_scrub_removes:
  assumes "secret \<noteq> []" "w = secret \<or> w = json_inner secret" "w \<noteq> []"
    "bracket_free w" "\<not> sublist w ''redacted''"
  shows "secret \<in> set secrets \<Longrightarrow> \<not> sublist w (foldl scrub_one t secrets)"
proof (induction secrets arbitrary: t)
  case (Cons x xs)
  show ?case
  proof (cases "x = secret")
    case True
    then show ?thesis
      using scrub_rest_keeps [OF assms(3-5), of "scrub_one t secret" xs] scrub_one_removes [OF assms]
      by auto
  qed (use Cons in auto)
qed simp

section \<open>Credentials in diagnostic text\<close>

text \<open>A field that carries no credential by the rules of \<open>redactSecrets\<close>.\<close>

definition clean_field :: "unicode_tables \<Rightarrow> string \<Rightarrow> bool" where
  "clean_field U f \<longleftrightarrow> (let t = strings_Trim f redact_cutset in
     \<not> (length t \<ge> 20 \<and> opaque U t) \<and> \<not> credentialLike t)"

lemma redacted_trim: "strings_Trim redacted redact_cutset = ''redacted''"
  by code_simp

lemma not_credential_redacted: "\<not> credentialLike ''redacted''"
  by code_simp

lemma redacted_clean: "clean_field U redacted"
  by (simp add: clean_field_def redacted_trim not_credential_redacted Let_def)

lemma Trim_split:
  obtains pre post where "s = pre @ strings_Trim s cutset @ post"
    "set pre \<subseteq> set cutset" "set post \<subseteq> set cutset"
proof -
  let ?P = "\<lambda>c. c \<in> set cutset"
  let ?m = "dropWhile ?P s"
  have "s = takeWhile ?P s @ ?m" by simp
  also have "?m = rev (dropWhile ?P (rev ?m)) @ rev (takeWhile ?P (rev ?m))"
    by (metis rev_append rev_rev_ident takeWhile_dropWhile_id)
  finally show thesis
    by (intro that [of "takeWhile ?P s" "rev (takeWhile ?P (rev ?m))"])
      (auto simp: strings_Trim_def dest: set_takeWhileD)
qed

lemma Trim_ends:
  assumes "strings_Trim s cutset \<noteq> []"
  shows "hd (strings_Trim s cutset) \<notin> set cutset" "last (strings_Trim s cutset) \<notin> set cutset"
proof -
  let ?P = "\<lambda>c. c \<in> set cutset"
  let ?m = "dropWhile ?P s"
  have ne: "dropWhile ?P (rev ?m) \<noteq> []" using assms by (simp add: strings_Trim_def)
  then show "last (strings_Trim s cutset) \<notin> set cutset"
    using hd_dropWhile [OF ne] by (simp add: strings_Trim_def last_rev)
  have "?m \<noteq> []" using ne by (metis dropWhile.simps(1) rev.simps(1))
  then have hm: "hd ?m \<notin> set cutset" using hd_dropWhile by metis
  obtain pre where pre: "rev ?m = pre @ dropWhile ?P (rev ?m)" by (metis takeWhile_dropWhile_id)
  then have "?m = strings_Trim s cutset @ rev pre"
    by (metis rev_append rev_rev_ident strings_Trim_def)
  with assms hm show "hd (strings_Trim s cutset) \<notin> set cutset" by (metis hd_append2)
qed

lemma Trim_wrap:
  assumes "set pre \<subseteq> set cutset" "set post \<subseteq> set cutset" "m \<noteq> []"
    "hd m \<notin> set cutset" "last m \<notin> set cutset"
  shows "strings_Trim (pre @ m @ post) cutset = m"
proof -
  let ?P = "\<lambda>c. c \<in> set cutset"
  have drop: "dropWhile ?P (xs @ c # ys) = c # ys" if "set xs \<subseteq> set cutset" "c \<notin> set cutset" for xs c ys
    using that by (subst dropWhile_append2) auto
  have "m @ post = hd m # (tl m @ post)" using assms(3) by simp
  with drop [OF assms(1,4), of "tl m @ post"] have "dropWhile ?P (pre @ m @ post) = m @ post" by metis
  moreover have "rev (m @ post) = rev post @ last m # rev (butlast m)"
    using assms(3) by (metis append_butlast_last_id append_Cons append_Nil rev.simps(2) rev_append rev_rev_ident)
  then have "dropWhile ?P (rev (m @ post)) = rev m"
    using drop [of "rev post" "last m" "rev (butlast m)"] assms(2,3,5)
    by (metis append_butlast_last_id rev_eq_Cons_iff rev_rev_ident set_rev)
  ultimately show ?thesis by (simp add: strings_Trim_def)
qed

text \<open>Trimming finds the middle at its only possible place, so replacing it is exact.\<close>

lemma Index_after_cutset:
  assumes "set pre \<subseteq> set cutset" "m \<noteq> []" "hd m \<notin> set cutset"
  shows "strings_Index (pre @ m @ post) m = Some (length pre)"
  using assms(1)
proof (induction pre)
  case Nil
  have "prefix m (m @ post)" by simp
  with assms(2) show ?case by (cases "m @ post") (auto simp: HasPrefix_iff)
next
  case (Cons c pre)
  have "\<not> prefix m (c # pre @ m @ post)"
    using assms(2,3) Cons.prems by (cases m) auto
  with Cons show ?case by (simp add: HasPrefix_iff)
qed

lemma Replace1_clean:
  assumes "strings_Trim f redact_cutset \<noteq> []"
  shows "clean_field U (strings_Replace1 f (strings_Trim f redact_cutset) redacted)"
proof -
  let ?t = "strings_Trim f redact_cutset"
  obtain pre post where f: "f = pre @ ?t @ post"
      and cs: "set pre \<subseteq> set redact_cutset" "set post \<subseteq> set redact_cutset"
    by (rule Trim_split)
  have "strings_Index f ?t = Some (length pre)"
    using Index_after_cutset [OF cs(1) assms Trim_ends(1) [OF assms], of post] f by simp
  then have "strings_Replace1 f ?t redacted = take (length pre) f @ redacted @ drop (length pre + length ?t) f"
    by (simp add: strings_Replace1_def)
  also have "take (length pre) f = pre" by (subst f) simp
  also have "drop (length pre + length ?t) f = post" by (subst f) simp
  also have "pre @ redacted @ post = (pre @ [CHR 0x5B]) @ ''redacted'' @ (CHR 0x5D # post)" by simp
  finally have r: "strings_Replace1 f ?t redacted = (pre @ [CHR 0x5B]) @ ''redacted'' @ (CHR 0x5D # post)" .
  have "strings_Trim ((pre @ [CHR 0x5B]) @ ''redacted'' @ (CHR 0x5D # post)) redact_cutset = ''redacted''"
    using cs by (intro Trim_wrap) (auto simp: redact_cutset_def)
  then show ?thesis unfolding r by (simp add: clean_field_def not_credential_redacted Let_def)
qed

lemma fields_of_set:
  "p \<in> set (fields_of sep cur rs) \<Longrightarrow> set p \<subseteq> set cur \<union> set (concat (map snd rs))"
proof (induction sep cur rs rule: fields_of.induct)
  case (2 sep cur r bs rs)
  then show ?case by (cases "sep r"; cases "cur = []") fastforce+
qed (auto split: if_splits)

lemma FieldsFunc_set: "p \<in> set (strings_FieldsFunc s sep) \<Longrightarrow> set p \<subseteq> set s"
  using fields_of_set [of p sep "[]" "go_runes s"] by (simp add: strings_FieldsFunc_def go_runes_concat)

lemma scheme_clean:
  assumes "strings_EqualFold (strings_Trim f redact_cutset) ''Bearer''"
  shows "clean_field U f"
proof -
  let ?t = "strings_Trim f redact_cutset"
  have "map lower_byte ''Bearer'' = ''bearer''" by code_simp
  with assms have low: "map lower_byte ?t = ''bearer''" by (simp only: strings_EqualFold_def)
  have "length (map lower_byte ?t) = 6" by (subst low) simp
  then have len: "length ?t = 6" by simp
  have no: "c \<notin> set ?t" if "lower_byte c \<notin> set ''bearer''" for c
    using that low by (metis image_eqI list.set_map)
  have noeq: "CHR ''='' \<notin> set ?t" by (rule no) code_simp
  moreover have "CHR ''s'' \<notin> set ?t" by (rule no) code_simp
  moreover have eq: "CHR ''='' \<in> set part" if "list_ex (proper_prefix part) [''token='', ''key='', ''secret='']" for part
    using that by (auto simp: proper_prefix_def HasPrefix_iff prefix_def)
  moreover have "CHR ''s'' \<in> set ?t" if "proper_prefix ?t ''sk-'' \<or> proper_prefix ?t ''sk_''"
    using that by (auto simp: proper_prefix_def HasPrefix_iff prefix_def)
  moreover have "\<not> proper_prefix ?t ''Bearer''" using len by (simp add: proper_prefix_def)
  ultimately have "\<not> list_ex (proper_prefix ?t) [''sk-'', ''sk_'', ''Bearer'']" by auto
  moreover have "\<not> list_ex (proper_prefix part) [''token='', ''key='', ''secret='']"
    if "part \<in> set (strings_FieldsFunc ?t (\<lambda>r. r = 63 \<or> r = 38 \<or> r = 59))" for part
    using eq [of part] FieldsFunc_set [OF that] noeq by blast
  ultimately have "\<not> credentialLike ?t" unfolding credentialLike_def list_ex_iff by blast
  with len show ?thesis by (simp add: clean_field_def Let_def)
qed

declare redact_fields.simps(2) [simp del]

lemma redact_fields_clean: "f \<in> set (redact_fields U fs) \<Longrightarrow> clean_field U f"
proof (induction U fs rule: redact_fields.induct)
  case (2 U field rest)
  let ?t = "strings_Trim field redact_cutset"
  consider (scheme) "strings_EqualFold ?t ''Bearer''" "rest \<noteq> []"
    | (opaque) "\<not> (strings_EqualFold ?t ''Bearer'' \<and> rest \<noteq> [])" "length ?t \<ge> 20 \<and> opaque U ?t"
    | (named) "\<not> (strings_EqualFold ?t ''Bearer'' \<and> rest \<noteq> [])" "\<not> (length ?t \<ge> 20 \<and> opaque U ?t)"
        "credentialLike ?t"
    | (plain) "\<not> (strings_EqualFold ?t ''Bearer'' \<and> rest \<noteq> [])" "\<not> (length ?t \<ge> 20 \<and> opaque U ?t)"
        "\<not> credentialLike ?t"
    by blast
  then show ?case
  proof cases
    case scheme
    then have "redact_fields U (field # rest) = field # redact_fields U (redacted # tl rest)"
      by (simp add: redact_fields.simps(2) [of U field] Let_def)
    with "2.prems" "2.IH"(1) [OF refl] scheme scheme_clean [of field U] show ?thesis by auto
  next
    case opaque
    then have "redact_fields U (field # rest) = strings_Replace1 field ?t redacted # redact_fields U rest"
      unfolding redact_fields.simps(2) [of U field] Let_def by (simp only: if_False if_True simp_thms)
    moreover have "?t \<noteq> []" using opaque(2) by auto
    ultimately show ?thesis
      using "2.prems" "2.IH"(2) [OF refl opaque] Replace1_clean [of field U] by auto
  next
    case named
    then have "redact_fields U (field # rest) = redacted # redact_fields U rest"
      unfolding redact_fields.simps(2) [of U field] Let_def by (simp only: if_False if_True simp_thms)
    with "2.prems" "2.IH"(3) [OF refl named] redacted_clean [of U] show ?thesis by auto
  next
    case plain
    then have "redact_fields U (field # rest) = field # redact_fields U rest"
      unfolding redact_fields.simps(2) [of U field] Let_def by (simp only: if_False if_True simp_thms)
    moreover have "clean_field U field" using plain by (simp add: clean_field_def Let_def)
    ultimately show ?thesis using "2.prems" "2.IH"(4) [OF refl plain] by auto
  qed
qed simp

section \<open>Control characters\<close>

definition printable :: "char \<Rightarrow> bool" where
  "printable c \<longleftrightarrow> 0x20 \<le> byte c \<and> byte c \<noteq> 0x7F"

lemma rune_high:
  assumes "rune_size (a # s) \<noteq> 0" "\<not> byte a < 0x80"
  shows "0x80 \<le> rune_value (rune_size (a # s)) (a # s) \<and> list_all (\<lambda>c. 0x80 \<le> byte c) (take (rune_size (a # s)) (a # s))"
proof -
  consider "byte_in 0xC2 0xDF a" | "\<not> byte_in 0xC2 0xDF a" "byte_in 0xE0 0xEF a"
    | "\<not> byte_in 0xC2 0xDF a" "\<not> byte_in 0xE0 0xEF a" "byte_in 0xF0 0xF4 a"
    using assms by (auto simp: rune_size.simps split: if_splits)
  then show ?thesis
  proof cases
    case 1
    with assms show ?thesis
      by (auto simp: rune_size.simps rune_value_def byte_in_def numeral_2_eq_2 split: list.splits if_splits)
  next
    case 2
    with assms obtain b c u where s: "s = b # c # u" and "byte_in 0x80 0xBF c"
        "byte_in (fst (second_range (byte a))) (snd (second_range (byte a))) b" "rune_size (a # s) = 3"
      by (auto simp: rune_size.simps split: list.splits if_splits)
    moreover have "byte a = 0xE0 \<or> 0xE1 \<le> byte a" using 2 by (auto simp: byte_in_def)
    ultimately show ?thesis using 2
      by (auto simp: rune_value_def byte_in_def second_range_def numeral_3_eq_3 split: if_splits)
  next
    case 3
    with assms obtain b c d u where s: "s = b # c # d # u" and "byte_in 0x80 0xBF c" "byte_in 0x80 0xBF d"
        "byte_in (fst (second_range (byte a))) (snd (second_range (byte a))) b" "rune_size (a # s) = 4"
      by (auto simp: rune_size.simps split: list.splits if_splits)
    moreover have "byte a = 0xF0 \<or> 0xF1 \<le> byte a" using 3 by (auto simp: byte_in_def)
    ultimately show ?thesis using 3
      by (auto simp: rune_value_def byte_in_def second_range_def split: if_splits)
  qed
qed

lemma go_runes_bytes:
  "(r, bs) \<in> set (go_runes s) \<Longrightarrow>
     (\<exists>c. r = byte c \<and> byte c < 0x80 \<and> bs = [c]) \<or> (0x80 \<le> r \<and> list_all (\<lambda>c. 0x80 \<le> byte c) bs)"
proof (induction s rule: go_runes.induct)
  case (2 a s)
  let ?n = "rune_size (a # s)"
  show ?case
  proof (cases "?n = 0")
    case True
    then have "\<not> byte a < 0x80" using rune_size_1 [of a s] by auto
    with 2 True show ?thesis by (auto simp: Let_def)
  next
    case False
    with "2.prems" consider "(r, bs) = (rune_value ?n (a # s), take ?n (a # s))"
      | "(r, bs) \<in> set (go_runes (drop ?n (a # s)))" by (auto simp: Let_def)
    then show ?thesis
    proof cases
      case 1
      then show ?thesis
        using rune_high [OF False] rune_size_1 [of a s] by (cases "byte a < 0x80") (auto simp: rune_value_def)
    next
      case 2
      with "2.IH"(2) [OF refl False] show ?thesis by blast
    qed
  qed
qed simp

lemma sanitize_runes_printable:
  "\<forall>(r, bs) \<in> set rs. (\<exists>c. r = byte c \<and> bs = [c]) \<or> (0x80 \<le> r \<and> list_all (\<lambda>c. 0x80 \<le> byte c) bs) \<Longrightarrow>
     list_all printable (sanitize_runes U skip rs)"
  by (induction U skip rs rule: sanitize_runes.induct) (auto simp: printable_def list_all_iff)

lemma Join_all: "list_all (list_all P) ps \<Longrightarrow> list_all P sep \<Longrightarrow> list_all P (strings_Join ps sep)"
  by (induction ps sep rule: strings_Join.induct) auto

lemma Fields_all: "list_all P s \<Longrightarrow> list_all (list_all P) (strings_Fields s)"
  using FieldsFunc_set [of _ s unicode_IsSpace] by (auto simp: list_all_iff strings_Fields_def)

lemma Replace1_all: "list_all P s \<Longrightarrow> list_all P new \<Longrightarrow> list_all P (strings_Replace1 s old new)"
  by (auto simp: strings_Replace1_def list_all_iff split: option.split dest: in_set_takeD in_set_dropD)

lemma redacted_printable: "list_all printable redacted"
  by (simp add: printable_def)

lemma redact_fields_printable:
  "list_all (list_all printable) fs \<Longrightarrow> list_all (list_all printable) (redact_fields U fs)"
proof (induction U fs rule: redact_fields.induct)
  case (2 U field rest)
  have tl: "list_all (list_all printable) (redacted # tl rest)"
    using "2.prems" redacted_printable by (cases rest) auto
  show ?case
    unfolding redact_fields.simps(2) [of U field] Let_def
    using "2.IH"(1) [OF refl _ tl] "2.IH"(2-4) [OF refl] "2.prems" redacted_printable Replace1_all [OF _ redacted_printable]
    by (auto simp only: list.pred_inject if_splits split: if_split)
qed simp

section \<open>Properties\<close>

text \<open>Scrubbing removes every configured secret, raw and as JSON would carry it, from
  the text, whatever other secrets are scrubbed before or after it. A secret that contains
  a bracket, or that is a part of the word \<open>redacted\<close>, could reappear in the replacement
  and is excepted.\<close>

theorem scrub_removes_secrets:
  assumes "secret \<in> set secrets" "secret \<noteq> []"
    and "w = secret \<or> w = json_inner secret" "w \<noteq> []" "bracket_free w" "\<not> strings_Contains ''redacted'' w"
  shows "\<not> strings_Contains (scrubEdge raw secrets) w"
  using foldl_scrub_removes [OF assms(2-5) _ assms(1), of raw] assms(6)
  by (simp add: scrubEdge_def Contains_iff)

theorem scrub_removes_secrets_witness:
  "\<not> strings_Contains (scrubEdge ''token=abc123; retry abc123'' [''zz'', ''abc123'']) ''abc123''"
proof -
  have "bracket_free ''abc123''" by (simp add: bracket_free_def)
  moreover have "\<not> strings_Contains ''redacted'' ''abc123''" by code_simp
  ultimately show ?thesis
    using scrub_removes_secrets [of "''abc123''" "[''zz'', ''abc123'']" "''abc123''" "''token=abc123; retry abc123''"]
    by simp
qed

text \<open>Every field a diagnostic keeps is clean: after punctuation is trimmed it is neither
  a long opaque run nor does it name a credential, and captured control characters are
  gone; the diagnostic's text is bounded by its limit.\<close>

theorem sanitize_clean:
  "(\<forall>f \<in> set (redact_fields U (strings_Fields t)). clean_field U f)
   \<and> list_all printable (sanitize_text U raw)
   \<and> int (length (sanitize U raw limit)) \<le> max 0 limit"
proof -
  have "\<forall>(r, bs) \<in> set (go_runes raw). (\<exists>c. r = byte c \<and> bs = [c]) \<or> (0x80 \<le> r \<and> list_all (\<lambda>c. 0x80 \<le> byte c) bs)"
    using go_runes_bytes [of _ _ raw] by blast
  then have "list_all printable (sanitize_runes U False (go_runes raw))" by (rule sanitize_runes_printable)
  then have "list_all printable (strings_Join (strings_Fields (sanitize_runes U False (go_runes raw))) '' '')"
    by (intro Join_all Fields_all) (simp_all add: printable_def)
  from redact_fields_printable [OF Fields_all [OF this]] have "list_all printable (sanitize_text U raw)"
    unfolding sanitize_text_def redactSecrets_def by (rule Join_all) (simp add: printable_def)
  then show ?thesis using redact_fields_clean bound_length by (auto simp: sanitize_def)
qed

theorem sanitize_clean_witness:
  "redact_fields \<lparr>ut_letter = \<lambda>_. False, ut_digit = \<lambda>_. False, ut_lower = \<lambda>r. r\<rparr>
     [''Authorization:'', ''Bearer'', ''xyz'', ''(sk-1)'', ''ok''] =
     [''Authorization:'', ''Bearer'', ''[redacted]'', ''[redacted]'', ''ok'']
   \<and> clean_field \<lparr>ut_letter = \<lambda>_. False, ut_digit = \<lambda>_. False, ut_lower = \<lambda>r. r\<rparr> ''ok''"
proof -
  let ?U = "\<lparr>ut_letter = \<lambda>_ :: nat. False, ut_digit = \<lambda>_ :: nat. False, ut_lower = \<lambda>r :: nat. r\<rparr>"
  have "strings_Fields ''Authorization: Bearer xyz (sk-1) ok'' = [''Authorization:'', ''Bearer'', ''xyz'', ''(sk-1)'', ''ok'']"
    by (simp add: strings_Fields_def strings_FieldsFunc_def rune_size_1 rune_value_def unicode_IsSpace_def)
  moreover have "redact_fields ?U [''Authorization:'', ''Bearer'', ''xyz'', ''(sk-1)'', ''ok''] =
     [''Authorization:'', ''Bearer'', ''[redacted]'', ''[redacted]'', ''ok'']"
    by code_simp
  ultimately show ?thesis
    using sanitize_clean [of ?U "''Authorization: Bearer xyz (sk-1) ok''" "[]" 0] by simp
qed

end
