(* ===== verification/Json_Schema.thy ===== *)
theory Json_Schema
  imports Go_Strings
begin

text \<open>
  JSON values, and package \<open>internal/jsonschema\<close>, which prepares a caller's tool
  argument schema for the wire. Package \<open>internal/rawjson\<close> is here too. Encoding
  and decoding bytes is Go's encoding/json; the model starts at values.
\<close>

datatype json = JNull | JBool bool | JNum string | JStr string
  | JArr "json list" | JObj "(string \<times> json) list"

section \<open>rawjson\<close>

text \<open>\<open>Absent\<close>: nothing but space, or the literal null.\<close>

definition Absent :: "string \<Rightarrow> bool" where
  "Absent raw = (let trimmed = strings_TrimSpace raw in length trimmed = 0 \<or> trimmed = ''null'')"

section \<open>jsonschema\<close>

text \<open>
  What a Go caller builds a schema from. A nil map or list of the types
  \<open>lists\<close> knows behaves as an empty one, so those need no constructor of their own;
  any other Go value is known by what \<open>json.Marshal\<close> makes of it, \<open>None\<close> when it has
  no JSON form.
\<close>

datatype goval = GMap "(string \<times> goval) list" | GList "goval list" | GStrings "string list"
  | GOther "json option"

datatype schema_error = ErrUnencodable | ErrNotObject

text \<open>\<open>json.Marshal(lists(value))\<close>, the lists of the caller's value made non-nil.\<close>

fun marshal_lists :: "goval \<Rightarrow> json option" where
  "marshal_lists (GMap kvs) = map_option JObj (those (map (\<lambda>(k, v). map_option (Pair k) (marshal_lists v)) kvs))"
| "marshal_lists (GList vs) = map_option JArr (those (map marshal_lists vs))"
| "marshal_lists (GStrings ss) = Some (JArr (map JStr ss))"
| "marshal_lists (GOther j) = j"

fun withoutNulls :: "json \<Rightarrow> json" where
  "withoutNulls (JObj kvs) = JObj (map (\<lambda>(k, v). (k, withoutNulls v)) (filter (\<lambda>(k, v). v \<noteq> JNull) kvs))"
| "withoutNulls (JArr vs) = JArr (map withoutNulls vs)"
| "withoutNulls j = j"

definition schema_Object :: "(string \<times> goval) list \<Rightarrow> schema_error + (string \<times> json) list" where
  "schema_Object schema =
     (case marshal_lists (GMap schema) of
        None \<Rightarrow> Inl ErrUnencodable
      | Some root \<Rightarrow>
          (case withoutNulls root of
             JObj kvs \<Rightarrow>
               (case map_of kvs ''type'' of
                  Some kind \<Rightarrow> if kind \<noteq> JStr ''object'' then Inl ErrNotObject else Inr kvs
                | None \<Rightarrow> Inr kvs)
           | _ \<Rightarrow> Inl ErrUnencodable))"

section \<open>Facts\<close>

text \<open>No keyword of the value is null, at any depth.\<close>

fun null_free :: "json \<Rightarrow> bool" where
  "null_free (JObj kvs) = (\<forall>(k, v) \<in> set kvs. v \<noteq> JNull \<and> null_free v)"
| "null_free (JArr vs) = (\<forall>v \<in> set vs. null_free v)"
| "null_free j = True"

lemma withoutNulls_null: "withoutNulls j = JNull \<longleftrightarrow> j = JNull"
  by (cases j) auto

lemma withoutNulls_null_free: "null_free (withoutNulls j)"
  by (induction j rule: withoutNulls.induct) (auto simp: withoutNulls_null)

lemma withoutNulls_id: "null_free j \<Longrightarrow> withoutNulls j = j"
proof (induction j rule: withoutNulls.induct)
  case (1 kvs)
  then have "filter (\<lambda>(k, v). v \<noteq> JNull) kvs = kvs" by (auto simp: filter_id_conv)
  moreover have "map (\<lambda>(k, v). (k, withoutNulls v)) kvs = kvs"
    using 1 \<open>filter (\<lambda>(k, v). v \<noteq> JNull) kvs = kvs\<close>
    by (intro map_idI) (auto split: prod.splits)
  ultimately show ?case by simp
qed (auto intro: map_idI)

text \<open>An encoded value read back as a Go value is itself.\<close>

definition goval_of :: "json \<Rightarrow> goval" where
  "goval_of j = GOther (Some j)"

lemma those_Some_map: "those (map (\<lambda>x. Some (f x)) xs) = Some (map f xs)"
  by (induction xs) auto

lemma marshal_object: "marshal_lists (GMap (map (\<lambda>(k, v). (k, goval_of v)) kvs)) = Some (JObj kvs)"
  using those_Some_map [of "\<lambda>kv. kv" kvs]
  by (simp add: goval_of_def comp_def case_prod_beta)

section \<open>Properties\<close>

text \<open>An accepted tool schema describes an object, carries no null keyword at any depth,
  and preparing what was prepared changes nothing.\<close>

theorem schema_object_sound:
  assumes "schema_Object schema = Inr kvs"
  shows "null_free (JObj kvs)
    \<and> (map_of kvs ''type'' = None \<or> map_of kvs ''type'' = Some (JStr ''object''))
    \<and> schema_Object (map (\<lambda>(k, v). (k, goval_of v)) kvs) = Inr kvs"
proof -
  from assms obtain root where r: "withoutNulls root = JObj kvs"
    and t: "map_of kvs ''type'' = None \<or> map_of kvs ''type'' = Some (JStr ''object'')"
    unfolding schema_Object_def
    by (simp del: marshal_lists.simps withoutNulls.simps split: option.splits json.splits if_splits)
  have nf: "null_free (JObj kvs)" using withoutNulls_null_free [of root] r by simp
  have "schema_Object (map (\<lambda>(k, v). (k, goval_of v)) kvs) = Inr kvs"
    unfolding schema_Object_def marshal_object option.case withoutNulls_id [OF nf] json.case
    using t by (auto split: option.split)
  with nf t show ?thesis by blast
qed

theorem schema_object_sound_witness:
  "schema_Object [(''type'', GOther (Some (JStr ''object''))), (''required'', GStrings []),
       (''description'', GOther (Some JNull))]
     = Inr [(''type'', JStr ''object''), (''required'', JArr [])]
   \<and> null_free (JObj [(''type'', JStr ''object''), (''required'', JArr [])])"
proof -
  have "schema_Object [(''type'', GOther (Some (JStr ''object''))), (''required'', GStrings []),
       (''description'', GOther (Some JNull))]
     = Inr [(''type'', JStr ''object''), (''required'', JArr [])]"
    by (simp add: schema_Object_def)
  from schema_object_sound [OF this] this show ?thesis by blast
qed

end
