(* ===== verification/Tool_Host.thy ===== *)
theory Tool_Host
  imports Text_Bound Json_Schema "HOL-Library.AList"
begin

text \<open>
  The hosted tool channel of a session: its configuration (session/tools.go), the
  admission and execution of calls (session/toolhost_admission.go), its lifetime
  (session/toolhost.go) and the protocol it speaks (session/toolhost_mcp.go).

  Every section the code runs under \<open>h.mu\<close> is one definition on the host's state.
  The goroutines that run calls interleave between those sections, so the host as a
  whole is the step relation \<open>host_step\<close>: a call moves from admission to the gate,
  through the second barrier into its handler, and out again, while the session
  pauses, reopens, cancels and stops the channel in between.
\<close>

section \<open>Configuration\<close>

record tool_definition =
  td_Name :: string
  td_Description :: string
  td_Schema :: "(string \<times> goval) list option"
  td_Closing :: bool

text \<open>The caller's \<open>ToolHost\<close>; the handler is known by being set, the bridge and directory by path.\<close>

record tool_host_config =
  cfg_Server :: string
  cfg_Tools :: "tool_definition list"
  cfg_Handler :: bool
  cfg_Dir :: string
  cfg_BridgePath :: string
  cfg_MaxResultBytes :: int

definition Qualified :: "tool_host_config \<Rightarrow> string list" where
  "Qualified h = map (\<lambda>t. ''mcp__'' @ cfg_Server h @ ''__'' @ td_Name t) (cfg_Tools h)"

definition tool_name_byte :: "char \<Rightarrow> bool" where
  "tool_name_byte c \<longleftrightarrow> c = CHR ''_'' \<or> c = CHR ''-'' \<or> ascii_lower (byte c) \<or> ascii_upper (byte c) \<or> ascii_digit (byte c)"

text \<open>A character outside ASCII fails the test byte by byte as it does as a code point.\<close>

definition validToolName :: "string \<Rightarrow> bool" where
  "validToolName name \<longleftrightarrow> \<not> (name = [] \<or> length name > 64) \<and> list_all tool_name_byte name"

datatype tool_config_error = ServerName | HandlerMissing | ToolCount | ToolNames | SchemaMissing
  | SchemaError schema_error | BridgeRelative | DirRelative | DirMissing | DirNotOwnerOnly

text \<open>The loop over the tools, with the names seen so far.\<close>

fun validate_each :: "string set \<Rightarrow> tool_definition list \<Rightarrow> tool_config_error option" where
  "validate_each seen [] = None"
| "validate_each seen (t # ts) =
     (if \<not> validToolName (td_Name t) \<or> td_Name t \<in> seen then Some ToolNames
      else case td_Schema t of None \<Rightarrow> Some SchemaMissing
      | Some schema \<Rightarrow> (case schema_Object schema of Inl e \<Rightarrow> Some (SchemaError e)
         | Inr _ \<Rightarrow> validate_each (insert (td_Name t) seen) ts))"

definition validateTools :: "tool_host_config \<Rightarrow> tool_config_error option" where
  "validateTools h =
     (if \<not> validToolName (cfg_Server h) then Some ServerName
      else if \<not> cfg_Handler h then Some HandlerMissing
      else if length (cfg_Tools h) = 0 \<or> length (cfg_Tools h) > 64 then Some ToolCount
      else validate_each {} (cfg_Tools h))"

text \<open>
  \<open>validate\<close>: what the file system says of the directory is an argument, (exists as a
  directory, is owner only); \<open>is_abs\<close> is the platform's \<open>filepath.IsAbs\<close>.
\<close>

definition validate_host :: "(string \<Rightarrow> bool) \<Rightarrow> (string \<Rightarrow> bool \<times> bool) \<Rightarrow> tool_host_config \<Rightarrow> tool_config_error option" where
  "validate_host is_abs stat h =
     (case validateTools h of Some e \<Rightarrow> Some e
      | None \<Rightarrow>
         if cfg_BridgePath h = [] \<or> \<not> is_abs (cfg_BridgePath h) then Some BridgeRelative
         else if cfg_Dir h = [] \<or> \<not> is_abs (cfg_Dir h) then Some DirRelative
         else if \<not> fst (stat (cfg_Dir h)) then Some DirMissing
         else if \<not> snd (stat (cfg_Dir h)) then Some DirNotOwnerOnly
         else None)"

definition defaultMaxResultBytes :: int where
  "defaultMaxResultBytes = 64 * 1024"

definition resultLimit :: "tool_host_config \<Rightarrow> int" where
  "resultLimit h = (if cfg_MaxResultBytes h > 0 then cfg_MaxResultBytes h else defaultMaxResultBytes)"

section \<open>Outcomes\<close>

record tool_outcome =
  o_code :: string
  o_unknown :: bool
  o_text :: string
  o_isError :: bool
  o_ran :: bool
  o_reason :: string

definition bounded :: "tool_host_config \<Rightarrow> string \<Rightarrow> string" where
  "bounded cfg text = bound text (resultLimit cfg)"

definition refuse :: "tool_host_config \<Rightarrow> string \<Rightarrow> string \<Rightarrow> tool_outcome" where
  "refuse cfg reason text = \<lparr>o_code = [], o_unknown = False, o_text = bounded cfg text,
     o_isError = True, o_ran = False, o_reason = reason\<rparr>"

record tool_result =
  res_Content :: string
  res_IsError :: bool
  res_Closes :: bool

text \<open>A handler's error, by what \<open>errors.Is\<close> and \<open>workspaceStuck\<close> answer about it.\<close>

record handler_error =
  e_commandUnknown :: bool
  e_writeUnknown :: bool
  e_stuck :: bool
  e_cancelled :: bool
  e_text :: string

definition workbenchRunCommand :: string where
  "workbenchRunCommand = ''run_command''"

definition cancelledToolText :: string where
  "cancelledToolText = ''tool execution was cancelled; its effect is unknown and must be established from evidence''"

definition wbWriteUnknown :: string where
  "wbWriteUnknown = ''write_outcome_unknown''"

definition unknownOutcomeText :: string where
  "unknownOutcomeText = ''The outcome of this call is unknown: the session stopped while it was running, so its effects may or may not have happened. It was not run again; establish what it did from evidence before relying on it.''"

text \<open>The part of \<open>execute\<close> that turns the handler's answer into an outcome, before the deferred bound.\<close>

definition handler_outcome :: "string \<Rightarrow> tool_result \<Rightarrow> handler_error option \<Rightarrow> tool_outcome" where
  "handler_outcome name result err =
     (let ran = \<lparr>o_code = [], o_unknown = False, o_text = res_Content result, o_isError = True, o_ran = True, o_reason = []\<rparr>;
          own = name = workbenchRunCommand \<and> res_IsError result \<and> res_Content result \<noteq> []
      in case err of
           None \<Rightarrow> ran\<lparr>o_isError := res_IsError result\<rparr>
         | Some e \<Rightarrow>
             if e_commandUnknown e then ran\<lparr>o_unknown := True, o_code := ''command_outcome_unknown''\<rparr>
             else if e_writeUnknown e then ran\<lparr>o_unknown := True, o_code := wbWriteUnknown\<rparr>
             else if e_stuck e then ran\<lparr>o_text := unknownOutcomeText, o_unknown := True\<rparr>
             else if e_cancelled e then
               ran\<lparr>o_text := (if own then res_Content result else cancelledToolText),
                   o_unknown := (name = workbenchRunCommand)\<rparr>
             else ran\<lparr>o_text := (if own then res_Content result else bound (e_text e) 2048)\<rparr>)"

definition bound_outcome :: "tool_host_config \<Rightarrow> tool_outcome \<Rightarrow> tool_outcome" where
  "bound_outcome cfg out = out\<lparr>o_text := bounded cfg (o_text out)\<rparr>"

text \<open>A successful closing call ends the work.\<close>

definition closes_channel :: "tool_definition \<Rightarrow> tool_result \<Rightarrow> handler_error option \<Rightarrow> bool" where
  "closes_channel def result err \<longleftrightarrow>
     err = None \<and> \<not> res_IsError result \<and> (td_Closing def \<or> res_Closes result)"

definition quoteName :: "string \<Rightarrow> string" where
  "quoteName name = CHR 34 # concat (map (\<lambda>(r, bs).
       if r < 0x20 \<or> r = 34 \<or> r = 92 \<or> r = 0x7F then ''?''
       else if r = 0xFFFD then map char_of [0xEF :: nat, 0xBF, 0xBD] else bs) (go_runes (bound name 64))) @ [CHR 34]"

section \<open>The host's state\<close>

text \<open>
  Where the goroutine running a call is. \<open>Queued\<close>: admitted. \<open>Selecting\<close>: past the
  first cancellation check, waiting for the gate. \<open>AtGate\<close>: holds the gate, second
  barrier ahead. \<open>Running\<close>: its handler runs. \<open>Returned\<close>: the handler returned.
  \<open>Leaving\<close>: about to give the gate back. \<open>Retiring\<close>: about to be retired. \<open>Gone\<close>: retired.
\<close>

datatype phase = Queued | Selecting | AtGate | Running | Returned | Leaving | Retiring | Gone

record hosted_call =
  hc_key :: string
  hc_definition :: tool_definition
  hc_cancelled :: bool
  hc_generation :: nat
  hc_phase :: phase
  hc_outcome :: "tool_outcome option"

text \<open>
  \<open>h_settled\<close> says the settled channel is closed, \<open>h_done\<close> that the done channel is,
  \<open>h_gate\<close> that the gate's one slot is taken. \<open>h_calls\<close> is the heap of calls by
  identity, \<open>h_pending\<close> the map from request keys to calls, and \<open>h_cancelling\<close> the
  calls whose cancellation was decided under the lock and is yet to be delivered.
  \<open>h_started\<close> records the calls handed to the handler, latest first: what the
  caller's handler observes; \<open>h_secret\<close> is the credential of the channel, none for a direct host. The uint64 counters are natural numbers.
\<close>

record host =
  h_tools :: "(string \<times> tool_definition) list"
  h_closed :: bool
  h_probing :: bool
  h_stopped :: bool
  h_paused :: bool
  h_running :: int
  h_pending :: "(string \<times> nat) list"
  h_generation :: nat
  h_connections :: nat
  h_settled :: bool
  h_listed :: bool
  h_gate :: bool
  h_done :: bool
  h_calls :: "nat \<Rightarrow> hosted_call option"
  h_next :: nat
  h_cancelling :: "nat list"
  h_started :: "nat list"
  h_secret :: string

text \<open>The tools as \<open>h.tools\<close> holds them: a later definition replaces an earlier one of its name.\<close>

definition tool_table :: "tool_definition list \<Rightarrow> (string \<times> tool_definition) list" where
  "tool_table ts = fold (\<lambda>t m. AList.update (td_Name t) t m) ts []"

definition newDirectToolHost :: "tool_host_config \<Rightarrow> tool_definition list \<Rightarrow> host" where
  "newDirectToolHost cfg extra = \<lparr>h_tools = tool_table (cfg_Tools cfg @ extra),
     h_closed = False, h_probing = False, h_stopped = False, h_paused = False,
     h_running = 0, h_pending = [], h_generation = 0, h_connections = 0, h_settled = True,
     h_listed = False, h_gate = False, h_done = False, h_calls = (\<lambda>_. None), h_next = 0,
     h_cancelling = [], h_started = [], h_secret = []\<rparr>"

text \<open>A host with a listener has the caller's tools alone and a credential, 32 random bytes in hexadecimal.\<close>

definition newToolHost :: "tool_host_config \<Rightarrow> string \<Rightarrow> host" where
  "newToolHost cfg secret = (newDirectToolHost cfg [])\<lparr>h_secret := secret\<rparr>"

section \<open>The sections run under the host's lock\<close>

definition settledLocked :: "host \<Rightarrow> bool" where
  "settledLocked h \<longleftrightarrow> h_running h = 0 \<and> length (h_pending h) = 0"

definition trackSettlementLocked :: "host \<Rightarrow> host" where
  "trackSettlementLocked h =
     (let idle = settledLocked h in
      if h_settled h then (if \<not> idle then h\<lparr>h_settled := False\<rparr> else h)
      else (if idle then h\<lparr>h_settled := True\<rparr> else h))"

definition barrierLocked :: "tool_host_config \<Rightarrow> host \<Rightarrow> tool_outcome option" where
  "barrierLocked cfg h =
     (if h_stopped h then Some (refuse cfg ''stopped'' ''this session has stopped; nothing was executed'')
      else if h_probing h then Some (refuse cfg ''probing'' ''tool calls are refused during a capability check; nothing was executed'')
      else if h_closed h then Some (refuse cfg ''channel_closed'' ''work has already been reported or handed over; nothing was executed'')
      else if h_paused h then Some (refuse cfg ''paused'' ''this worker's tools are paused; nothing was executed'')
      else None)"

definition call_of :: "host \<Rightarrow> nat \<Rightarrow> hosted_call" where
  "call_of h c = the (h_calls h c)"

definition set_call :: "nat \<Rightarrow> hosted_call \<Rightarrow> host \<Rightarrow> host" where
  "set_call c v h = h\<lparr>h_calls := (h_calls h)(c \<mapsto> v)\<rparr>"

definition set_phase :: "nat \<Rightarrow> phase \<Rightarrow> host \<Rightarrow> host" where
  "set_phase c p h = set_call c ((call_of h c)\<lparr>hc_phase := p\<rparr>) h"

text \<open>\<open>execute\<close> settles on an outcome, bounded by its deferred function, and goes on to \<open>p\<close>.\<close>

definition answer :: "tool_host_config \<Rightarrow> nat \<Rightarrow> phase \<Rightarrow> tool_outcome \<Rightarrow> host \<Rightarrow> host" where
  "answer cfg c p out h =
     set_call c ((call_of h c)\<lparr>hc_phase := p, hc_outcome := Some (bound_outcome cfg out)\<rparr>) h"

definition cancel :: "nat \<Rightarrow> host \<Rightarrow> host" where
  "cancel c h = set_call c ((call_of h c)\<lparr>hc_cancelled := True\<rparr>) h"

definition admit :: "tool_host_config \<Rightarrow> host \<Rightarrow> string \<Rightarrow> tool_definition \<Rightarrow> host \<times> (tool_outcome + nat)" where
  "admit cfg h request def =
     (case barrierLocked cfg h of
        Some refusal \<Rightarrow> (h, Inl refusal)
      | None \<Rightarrow>
         (let c = h_next h;
              call = \<lparr>hc_key = request, hc_definition = def, hc_cancelled = False,
                hc_generation = h_generation h, hc_phase = Queued, hc_outcome = None\<rparr>
          in (trackSettlementLocked (set_call c call
                (h\<lparr>h_next := Suc c, h_pending := AList.update request c (h_pending h)\<rparr>)), Inr c)))"

text \<open>
  \<open>prepareCall\<close>. \<open>is_object\<close> is what \<open>json.Unmarshal\<close> into a map answers about the
  argument bytes: whether they decode to an object that is not null.
\<close>

definition prepareCall ::
  "(string \<Rightarrow> bool) \<Rightarrow> tool_host_config \<Rightarrow> host \<Rightarrow> string \<Rightarrow> string \<Rightarrow> string \<Rightarrow>
   host \<times> (tool_outcome + nat \<times> string)" where
  "prepareCall is_object cfg h request name arguments =
     (case map_of (h_tools h) name of
        None \<Rightarrow> (h, Inl (refuse cfg ''unknown'' (''tool '' @ quoteName name @ '' is not available in this session; nothing was executed'')))
      | Some def \<Rightarrow>
         (let args = (if Absent arguments then ''{}'' else arguments) in
          if \<not> is_object args then (h, Inl (refuse cfg ''malformed'' ''tool arguments must be a JSON object; nothing was executed''))
          else (case admit cfg h request def of
                  (h', Inl refusal) \<Rightarrow> (h', Inl refusal)
                | (h', Inr c) \<Rightarrow> (h', Inr (c, args)))))"

definition retire :: "host \<Rightarrow> nat \<Rightarrow> host" where
  "retire h c =
     (let key = hc_key (call_of h c);
          h1 = (if map_of (h_pending h) key = Some c then h\<lparr>h_pending := AList.delete key (h_pending h)\<rparr> else h)
      in cancel c (set_phase c Gone (trackSettlementLocked h1)))"

definition cancelled_outcome :: "tool_host_config \<Rightarrow> tool_outcome" where
  "cancelled_outcome cfg = refuse cfg ''cancelled'' ''this call was withdrawn before it ran; nothing was executed''"

text \<open>The locked part of \<open>acquire\<close>: the barrier again, then withdrawal, then the generation.\<close>

definition acquire_refusal :: "tool_host_config \<Rightarrow> host \<Rightarrow> nat \<Rightarrow> tool_outcome option" where
  "acquire_refusal cfg h c =
     (case barrierLocked cfg h of
        Some refusal \<Rightarrow> Some refusal
      | None \<Rightarrow>
          if hc_cancelled (call_of h c) then Some (cancelled_outcome cfg)
          else if hc_generation (call_of h c) \<noteq> h_generation h then
            Some (refuse cfg ''superseded'' ''this call belongs to work that has already been stopped; nothing was executed'')
          else None)"

definition acquireLocked :: "tool_host_config \<Rightarrow> host \<Rightarrow> nat \<Rightarrow> host" where
  "acquireLocked cfg h c =
     (case acquire_refusal cfg h c of
        Some refusal \<Rightarrow> answer cfg c Leaving refusal h
      | None \<Rightarrow> trackSettlementLocked (set_phase c Running
          (h\<lparr>h_running := h_running h + 1, h_started := c # h_started h\<rparr>)))"

definition release :: "host \<Rightarrow> nat \<Rightarrow> host" where
  "release h c = trackSettlementLocked (set_phase c Leaving (h\<lparr>h_running := h_running h - 1\<rparr>))"

definition pause :: "host \<Rightarrow> host" where
  "pause h = h\<lparr>h_paused := True, h_cancelling := map snd (h_pending h) @ h_cancelling h\<rparr>"

definition closeAdmission :: "host \<Rightarrow> host" where
  "closeAdmission h = h\<lparr>h_paused := True\<rparr>"

definition readyForWork :: "host \<Rightarrow> bool" where
  "readyForWork h = settledLocked h"

definition reopen :: "host \<Rightarrow> host" where
  "reopen h = (if h_closed h \<or> h_stopped h then h
     else h\<lparr>h_paused := False, h_generation := Suc (h_generation h)\<rparr>)"

definition setProbing :: "host \<Rightarrow> bool \<Rightarrow> host" where
  "setProbing h on = h\<lparr>h_probing := on\<rparr>"

text \<open>\<open>close\<close>: the first caller stops the host; the done channel is closed after the lock.\<close>

definition close_host :: "host \<Rightarrow> host" where
  "close_host h = (if h_stopped h then h else h\<lparr>h_stopped := True\<rparr>)"

definition callKey :: "nat \<Rightarrow> string \<Rightarrow> string" where
  "callKey connection request = strconv_Itoa connection @ '':'' @ request"

definition cancelRequested :: "host \<Rightarrow> nat \<Rightarrow> string \<Rightarrow> host" where
  "cancelRequested h connection requestID =
     (case map_of (h_pending h) (callKey connection requestID) of
        None \<Rightarrow> h
      | Some c \<Rightarrow> h\<lparr>h_cancelling := c # h_cancelling h\<rparr>)"

text \<open>The handler returned: \<open>execute\<close> latches the channel after a successful closing call and settles on the outcome.\<close>

definition handled :: "tool_host_config \<Rightarrow> host \<Rightarrow> nat \<Rightarrow> tool_result \<Rightarrow> handler_error option \<Rightarrow> host" where
  "handled cfg h c result err =
     (let def = hc_definition (call_of h c);
          h1 = (if closes_channel def result err then h\<lparr>h_closed := True\<rparr> else h)
      in answer cfg c Returned (handler_outcome (td_Name def) result err) h1)"

definition phase_of :: "host \<Rightarrow> nat \<Rightarrow> phase option" where
  "phase_of h c = map_option hc_phase (h_calls h c)"

section \<open>The interleaving\<close>

text \<open>
  The steps of one call's goroutine (\<open>execute\<close> with \<open>acquire\<close>, the handler, \<open>release\<close>
  and \<open>retire\<close>), in the order the code runs them.
\<close>

inductive call_step :: "tool_host_config \<Rightarrow> host \<Rightarrow> nat \<Rightarrow> host \<Rightarrow> bool" for cfg where
  checked: "phase_of h c = Some Queued \<Longrightarrow> \<not> hc_cancelled (call_of h c) \<Longrightarrow>
    call_step cfg h c (set_phase c Selecting h)"
| check_cancelled: "phase_of h c = Some Queued \<Longrightarrow> hc_cancelled (call_of h c) \<Longrightarrow>
    call_step cfg h c (answer cfg c Retiring (cancelled_outcome cfg) h)"
| gate: "phase_of h c = Some Selecting \<Longrightarrow> \<not> h_gate h \<Longrightarrow>
    call_step cfg h c (set_phase c AtGate (h\<lparr>h_gate := True\<rparr>))"
| wait_cancelled: "phase_of h c = Some Selecting \<Longrightarrow> hc_cancelled (call_of h c) \<Longrightarrow>
    call_step cfg h c (answer cfg c Retiring (cancelled_outcome cfg) h)"
| wait_stopped: "phase_of h c = Some Selecting \<Longrightarrow> h_done h \<Longrightarrow>
    call_step cfg h c (answer cfg c Retiring
      (refuse cfg ''stopped'' ''this session has stopped; nothing was executed'') h)"
| acquired: "phase_of h c = Some AtGate \<Longrightarrow> call_step cfg h c (acquireLocked cfg h c)"
| returned: "phase_of h c = Some Running \<Longrightarrow> call_step cfg h c (handled cfg h c result err)"
| released: "phase_of h c = Some Returned \<Longrightarrow> call_step cfg h c (release h c)"
| gate_back: "phase_of h c = Some Leaving \<Longrightarrow>
    call_step cfg h c (set_phase c Retiring (h\<lparr>h_gate := False\<rparr>))"
| retired: "phase_of h c = Some Retiring \<Longrightarrow> call_step cfg h c (retire h c)"

text \<open>What the session, the connections and cancellation do to the host meanwhile.\<close>

inductive env_step :: "host \<Rightarrow> host \<Rightarrow> bool" where
  paused: "env_step h (pause h)"
| admission_closed: "env_step h (closeAdmission h)"
| reopened: "env_step h (reopen h)"
| probing: "env_step h (setProbing h on)"
| stopped: "env_step h (close_host h)"
| done_closed: "h_stopped h \<Longrightarrow> env_step h (h\<lparr>h_done := True\<rparr>)"
| cancel_requested: "env_step h (cancelRequested h connection requestID)"
| cancel_delivered: "c \<in> set (h_cancelling h) \<Longrightarrow>
    env_step h (cancel c (h\<lparr>h_cancelling := remove1 c (h_cancelling h)\<rparr>))"
| done_watcher: "h_done h \<Longrightarrow> h_calls h c \<noteq> None \<Longrightarrow> env_step h (cancel c h)"
| connected: "env_step h (h\<lparr>h_connections := Suc (h_connections h)\<rparr>)"
| tools_listed: "env_step h (h\<lparr>h_listed := True\<rparr>)"

inductive host_step :: "tool_host_config \<Rightarrow> host \<Rightarrow> host \<Rightarrow> bool" for cfg where
  admitted: "host_step cfg h (fst (admit cfg h request def))"
| call: "call_step cfg h c h' \<Longrightarrow> host_step cfg h h'"
| env: "env_step h h' \<Longrightarrow> host_step cfg h h'"

text \<open>The steps in which no live request key is used a second time, as JSON-RPC asks.\<close>

inductive fresh_step :: "tool_host_config \<Rightarrow> host \<Rightarrow> host \<Rightarrow> bool" for cfg where
  admitted: "map_of (h_pending h) request = None \<Longrightarrow> fresh_step cfg h (fst (admit cfg h request def))"
| call: "call_step cfg h c h' \<Longrightarrow> fresh_step cfg h h'"
| env: "env_step h h' \<Longrightarrow> fresh_step cfg h h'"

section \<open>The invariant\<close>

definition gate_phases :: "phase option set" where
  "gate_phases = {Some AtGate, Some Running, Some Returned, Some Leaving}"

definition handler_phases :: "phase option set" where
  "handler_phases = {Some Running, Some Returned}"

text \<open>At most one call is between taking and giving back the gate, and the counter says whether its handler is out.\<close>

definition gate_inv :: "host \<Rightarrow> bool" where
  "gate_inv h \<longleftrightarrow>
     (if h_gate h then \<exists>g. (\<forall>c. phase_of h c \<in> gate_phases \<longleftrightarrow> c = g)
        \<and> h_running h = (if phase_of h g \<in> handler_phases then 1 else 0)
      else (\<forall>c. phase_of h c \<notin> gate_phases) \<and> h_running h = 0)"

definition settled_inv :: "host \<Rightarrow> bool" where
  "settled_inv h \<longleftrightarrow> h_settled h = settledLocked h"

definition heap_inv :: "host \<Rightarrow> bool" where
  "heap_inv h \<longleftrightarrow> (\<forall>c. h_calls h c = None \<longleftrightarrow> h_next h \<le> c) \<and> (\<forall>c \<in> set (h_cancelling h). c < h_next h)
     \<and> (\<forall>c \<in> set (h_started h). c < h_next h)"

definition pending_inv :: "host \<Rightarrow> bool" where
  "pending_inv h \<longleftrightarrow> distinct (map fst (h_pending h)) \<and>
     (\<forall>k c. map_of (h_pending h) k = Some c \<longrightarrow> c < h_next h \<and> hc_key (call_of h c) = k \<and> phase_of h c \<noteq> Some Gone)"

text \<open>What is true of one call: its outcome is there once decided, bounded, and says whether the handler ran.\<close>

definition call_ok :: "tool_host_config \<Rightarrow> host \<Rightarrow> nat \<Rightarrow> hosted_call \<Rightarrow> bool" where
  "call_ok cfg h c call \<longleftrightarrow>
     (hc_outcome call = None \<longleftrightarrow> hc_phase call \<in> {Queued, Selecting, AtGate, Running}) \<and>
     (\<forall>out. hc_outcome call = Some out \<longrightarrow> int (length (o_text out)) \<le> resultLimit cfg \<and>
        (o_ran out \<longleftrightarrow> c \<in> set (h_started h))) \<and>
     (hc_phase call \<in> {Queued, Selecting, AtGate} \<longrightarrow> c \<notin> set (h_started h)) \<and>
     (hc_phase call \<in> {Running, Returned} \<longrightarrow> c \<in> set (h_started h)) \<and>
     hc_generation call \<le> h_generation h \<and>
     (h_closed h \<longrightarrow> hc_phase call \<noteq> Running)"

definition calls_inv :: "tool_host_config \<Rightarrow> host \<Rightarrow> bool" where
  "calls_inv cfg h \<longleftrightarrow> (\<forall>c call. h_calls h c = Some call \<longrightarrow> call_ok cfg h c call) \<and> distinct (h_started h)"

definition host_inv :: "tool_host_config \<Rightarrow> host \<Rightarrow> bool" where
  "host_inv cfg h \<longleftrightarrow> heap_inv h \<and> settled_inv h \<and> gate_inv h \<and> pending_inv h \<and> calls_inv cfg h"

text \<open>With fresh request keys every call still in flight is accounted for by its key.\<close>

definition tracked_inv :: "host \<Rightarrow> bool" where
  "tracked_inv h \<longleftrightarrow> (\<forall>c call. h_calls h c = Some call \<longrightarrow> hc_phase call \<noteq> Gone \<longrightarrow> map_of (h_pending h) (hc_key call) = Some c)"

section \<open>What the sections change\<close>

lemma track_fields [simp]:
  "h_tools (trackSettlementLocked h) = h_tools h" "h_closed (trackSettlementLocked h) = h_closed h"
  "h_probing (trackSettlementLocked h) = h_probing h" "h_stopped (trackSettlementLocked h) = h_stopped h"
  "h_paused (trackSettlementLocked h) = h_paused h" "h_running (trackSettlementLocked h) = h_running h"
  "h_pending (trackSettlementLocked h) = h_pending h" "h_generation (trackSettlementLocked h) = h_generation h"
  "h_gate (trackSettlementLocked h) = h_gate h" "h_done (trackSettlementLocked h) = h_done h"
  "h_calls (trackSettlementLocked h) = h_calls h" "h_next (trackSettlementLocked h) = h_next h"
  "h_cancelling (trackSettlementLocked h) = h_cancelling h" "h_started (trackSettlementLocked h) = h_started h"
  by (simp_all add: trackSettlementLocked_def Let_def)

lemma settled_track [simp]: "settled_inv (trackSettlementLocked h)"
  by (simp add: settled_inv_def trackSettlementLocked_def settledLocked_def Let_def)

lemma set_call_fields [simp]:
  "h_tools (set_call c v h) = h_tools h" "h_closed (set_call c v h) = h_closed h"
  "h_probing (set_call c v h) = h_probing h" "h_stopped (set_call c v h) = h_stopped h"
  "h_paused (set_call c v h) = h_paused h" "h_running (set_call c v h) = h_running h"
  "h_pending (set_call c v h) = h_pending h" "h_generation (set_call c v h) = h_generation h"
  "h_settled (set_call c v h) = h_settled h"
  "h_gate (set_call c v h) = h_gate h" "h_done (set_call c v h) = h_done h"
  "h_calls (set_call c v h) = (h_calls h)(c \<mapsto> v)" "h_next (set_call c v h) = h_next h"
  "h_cancelling (set_call c v h) = h_cancelling h" "h_started (set_call c v h) = h_started h"
  by (simp_all add: set_call_def)

lemmas call_moves = set_phase_def answer_def cancel_def
lemmas host_ops = admit_def retire_def acquireLocked_def release_def pause_def closeAdmission_def
  reopen_def setProbing_def close_host_def cancelRequested_def handled_def
lemmas host_parts = heap_inv_def settled_inv_def gate_inv_def pending_inv_def calls_inv_def

lemma settledLocked_cong:
  "h_running h = h_running k \<Longrightarrow> h_pending h = h_pending k \<Longrightarrow> settledLocked h = settledLocked k"
  by (simp add: settledLocked_def)

lemma phase_of_some: "phase_of h c = Some p \<Longrightarrow> h_calls h c = Some (call_of h c) \<and> hc_phase (call_of h c) = p"
  by (auto simp: phase_of_def call_of_def)

lemma refuse_fields [simp]: "\<not> o_ran (refuse cfg reason t)" "\<not> o_ran (cancelled_outcome cfg)"
  by (simp_all add: refuse_def cancelled_outcome_def)

lemma handler_outcome_ran [simp]: "o_ran (handler_outcome name result err)"
  by (simp add: handler_outcome_def Let_def split: option.split)

lemma resultLimit_pos: "0 < resultLimit cfg"
  by (simp add: resultLimit_def defaultMaxResultBytes_def)

lemma bound_outcome_simps [simp]: "o_ran (bound_outcome cfg out) = o_ran out"
  "int (length (o_text (bound_outcome cfg out))) \<le> resultLimit cfg"
  using bound_length [of "o_text out" "resultLimit cfg"] resultLimit_pos [of cfg]
  by (simp_all add: bound_outcome_def bounded_def)

lemma barrier_refuses: "barrierLocked cfg h = Some out \<Longrightarrow> \<not> o_ran out"
  by (auto simp: barrierLocked_def split: if_splits)

lemma acquire_refuses: "acquire_refusal cfg h c = Some out \<Longrightarrow> \<not> o_ran out"
  by (auto simp: acquire_refusal_def split: option.splits if_splits dest: barrier_refuses)

lemma barrier_open: "barrierLocked cfg h = None \<longleftrightarrow> \<not> h_stopped h \<and> \<not> h_probing h \<and> \<not> h_closed h \<and> \<not> h_paused h"
  by (simp add: barrierLocked_def)

lemma acquire_open: "acquire_refusal cfg h c = None \<longleftrightarrow>
    \<not> h_stopped h \<and> \<not> h_probing h \<and> \<not> h_closed h \<and> \<not> h_paused h \<and>
    \<not> hc_cancelled (call_of h c) \<and> hc_generation (call_of h c) = h_generation h"
  by (auto simp: acquire_refusal_def barrier_open [of cfg, symmetric] split: option.split)

section \<open>Every step keeps the invariant\<close>

lemma phase_set_call [simp]: "phase_of (set_call c v h) d = (if d = c then Some (hc_phase v) else phase_of h d)"
  "call_of (set_call c v h) d = (if d = c then v else call_of h d)"
  by (simp_all add: phase_of_def call_of_def)

lemma phase_track [simp]: "phase_of (trackSettlementLocked h) c = phase_of h c"
  "call_of (trackSettlementLocked h) c = call_of h c"
  by (simp_all add: phase_of_def call_of_def)

lemma phase_update [simp]:
  "phase_of (h\<lparr>h_closed := a\<rparr>) c = phase_of h c" "phase_of (h\<lparr>h_running := b\<rparr>) c = phase_of h c"
  "phase_of (h\<lparr>h_pending := p\<rparr>) c = phase_of h c" "phase_of (h\<lparr>h_gate := a\<rparr>) c = phase_of h c"
  "phase_of (h\<lparr>h_next := n\<rparr>) c = phase_of h c" "phase_of (h\<lparr>h_started := l\<rparr>) c = phase_of h c"
  "phase_of (h\<lparr>h_cancelling := l\<rparr>) c = phase_of h c" "phase_of (h\<lparr>h_paused := a\<rparr>) c = phase_of h c"
  "phase_of (h\<lparr>h_generation := n\<rparr>) c = phase_of h c" "phase_of (h\<lparr>h_probing := a\<rparr>) c = phase_of h c"
  "phase_of (h\<lparr>h_stopped := a\<rparr>) c = phase_of h c" "phase_of (h\<lparr>h_done := a\<rparr>) c = phase_of h c"
  "phase_of (h\<lparr>h_connections := n\<rparr>) c = phase_of h c" "phase_of (h\<lparr>h_listed := a\<rparr>) c = phase_of h c"
  by (simp_all add: phase_of_def)

lemma call_update [simp]:
  "call_of (h\<lparr>h_closed := a\<rparr>) c = call_of h c" "call_of (h\<lparr>h_running := b\<rparr>) c = call_of h c"
  "call_of (h\<lparr>h_pending := p\<rparr>) c = call_of h c" "call_of (h\<lparr>h_gate := a\<rparr>) c = call_of h c"
  "call_of (h\<lparr>h_next := n\<rparr>) c = call_of h c" "call_of (h\<lparr>h_started := l\<rparr>) c = call_of h c"
  "call_of (h\<lparr>h_cancelling := l\<rparr>) c = call_of h c" "call_of (h\<lparr>h_paused := a\<rparr>) c = call_of h c"
  "call_of (h\<lparr>h_generation := n\<rparr>) c = call_of h c" "call_of (h\<lparr>h_probing := a\<rparr>) c = call_of h c"
  "call_of (h\<lparr>h_stopped := a\<rparr>) c = call_of h c" "call_of (h\<lparr>h_done := a\<rparr>) c = call_of h c"
  "call_of (h\<lparr>h_connections := n\<rparr>) c = call_of h c" "call_of (h\<lparr>h_listed := a\<rparr>) c = call_of h c"
  by (simp_all add: call_of_def)

lemma phase_of_next: "heap_inv h \<Longrightarrow> phase_of h (h_next h) = None"
  by (simp add: heap_inv_def phase_of_def)

lemma phase_some_next: "heap_inv h \<Longrightarrow> phase_of h c = Some p \<Longrightarrow> c < h_next h"
  by (metis heap_inv_def not_le option.discI phase_of_some)

lemma pending_phase: "pending_inv h \<Longrightarrow> (k, c) \<in> set (h_pending h) \<Longrightarrow> c < h_next h \<and> phase_of h c \<noteq> Some Gone"
  by (auto simp: pending_inv_def)

lemma call_step_next: "heap_inv h \<Longrightarrow> call_step cfg h c h' \<Longrightarrow> c < h_next h"
  by (auto elim!: call_step.cases dest: phase_some_next)

text \<open>The heap of calls.\<close>

lemma heap_some: "heap_inv h \<Longrightarrow> c < h_next h \<Longrightarrow> h_calls h c = Some (call_of h c)"
  by (metis call_of_def heap_inv_def not_le option.exhaust_sel)

lemma env_phase:
  assumes h: "heap_inv h" and s: "env_step h h'"
  shows "phase_of h' d = phase_of h d"
proof -
  have k: "phase_of (cancel c k) d = phase_of k d" if "h_calls k c = Some (call_of k c)" for c k
    using that by (auto simp: cancel_def phase_of_def)
  have n: "h_calls h c = Some (call_of h c)" if "c \<in> set (h_cancelling h) \<or> h_calls h c \<noteq> None" for c
    using h that heap_some [OF h, of c] by (auto simp: heap_inv_def)
  show ?thesis using s by cases (auto simp: k n host_ops split: option.split)
qed

lemma heap_call:
  assumes i: "heap_inv h" and s: "call_step cfg h c h'"
  shows "heap_inv h'"
  using s i call_step_next [OF i s]
  by cases (auto simp: call_moves host_ops heap_inv_def Let_def split: option.split)

lemma heap_env:
  assumes i: "heap_inv h" "pending_inv h" and s: "env_step h h'"
  shows "heap_inv h'"
  using s i
  by cases (auto simp: call_moves host_ops heap_inv_def Let_def not_le
      dest: map_of_SomeD pending_phase notin_set_remove1 split: option.split)

lemma heap_admit: "heap_inv h \<Longrightarrow> heap_inv (fst (admit cfg h request def))"
  by (auto simp: admit_def heap_inv_def Let_def split: option.split)

text \<open>Settlement.\<close>

lemma settled_call:
  assumes i: "settled_inv h" and s: "call_step cfg h c h'"
  shows "settled_inv h'"
  using s i
  by cases (auto simp: call_moves host_ops Let_def settled_inv_def settledLocked_def
      settled_track [unfolded settled_inv_def settledLocked_def, simplified] split: option.split)

lemma settled_env:
  assumes i: "settled_inv h" and s: "env_step h h'"
  shows "settled_inv h'"
  using s i
  by cases (auto simp: call_moves host_ops settled_inv_def settledLocked_def Let_def split: option.split)

lemma settled_admit: "settled_inv h \<Longrightarrow> settled_inv (fst (admit cfg h request def))"
  by (auto simp: admit_def Let_def split: option.split)

text \<open>The gate.\<close>

lemma gate_cong:
  assumes "gate_inv h" "h_gate h' = h_gate h" "h_running h' = h_running h"
    and "\<And>c. phase_of h' c \<in> gate_phases \<longleftrightarrow> phase_of h c \<in> gate_phases"
    and "\<And>c. phase_of h' c \<in> handler_phases \<longleftrightarrow> phase_of h c \<in> handler_phases"
  shows "gate_inv h'"
  using assms by (simp only: gate_inv_def)

text \<open>The call that holds the gate moves on, keeping it.\<close>

lemma gate_move:
  assumes i: "gate_inv h" and c: "phase_of h c \<in> gate_phases"
    and h': "h_gate h' = h_gate h" "\<And>d. phase_of h' d = (if d = c then p else phase_of h d)" "p \<in> gate_phases"
    and r: "h_running h' = (if p \<in> handler_phases then 1 else 0)"
  shows "gate_inv h'"
  using i c h' r by (auto simp: gate_inv_def split: if_splits)

lemma gate_aside:
  assumes i: "gate_inv h" and c: "phase_of h c \<notin> gate_phases" "phase_of h c \<notin> handler_phases"
    and h': "\<And>d. phase_of h' d = (if d = c then p else phase_of h d)" "p \<notin> gate_phases" "p \<notin> handler_phases"
    and k: "h_gate h' = h_gate h" "h_running h' = h_running h"
  shows "gate_inv h'"
  by (rule gate_cong [OF i]) (use c h' k in simp_all)

lemma gate_running:
  assumes i: "gate_inv h" and c: "phase_of h c \<in> gate_phases"
  shows "h_gate h" "h_running h = (if phase_of h c \<in> handler_phases then 1 else 0)"
  using i c by (auto simp: gate_inv_def split: if_splits)

lemma gate_unique: "gate_inv h \<Longrightarrow> phase_of h c \<in> gate_phases \<Longrightarrow> phase_of h d \<in> gate_phases \<Longrightarrow> c = d"
  by (auto simp: gate_inv_def split: if_splits)

lemma gate_take:
  assumes i: "gate_inv h" and g: "\<not> h_gate h"
    and h': "h_gate h'" "\<And>d. phase_of h' d = (if d = c then Some AtGate else phase_of h d)" "h_running h' = h_running h"
  shows "gate_inv h'"
  using i g h' by (auto simp: gate_inv_def gate_phases_def handler_phases_def)

lemma gate_give:
  assumes i: "gate_inv h" and c: "phase_of h c = Some Leaving"
    and h': "\<not> h_gate h'" "\<And>d. phase_of h' d = (if d = c then Some Retiring else phase_of h d)" "h_running h' = h_running h"
  shows "gate_inv h'"
proof -
  have g: "phase_of h c \<in> gate_phases" and r: "phase_of h c \<notin> handler_phases"
    using c by (simp_all add: gate_phases_def handler_phases_def)
  have "phase_of h d \<notin> gate_phases" if "d \<noteq> c" for d using gate_unique [OF i g] that by blast
  then show ?thesis using gate_running [OF i g] r h' by (simp add: gate_inv_def gate_phases_def)
qed

lemmas gate_sets = gate_phases_def handler_phases_def

lemma gate_call:
  assumes i: "gate_inv h" and s: "call_step cfg h c h'"
  shows "gate_inv h'"
  using s
proof cases
  case gate
  then show ?thesis by (intro gate_take [OF i]) (auto simp: call_moves)
next
  case acquired
  note g = gate_running [OF i, of c, unfolded acquired gate_sets, simplified]
  show ?thesis
  proof (cases "acquire_refusal cfg h c")
    case None
    then show ?thesis using acquired g
      by (intro gate_move [OF i, where p = "Some Running"]) (auto simp: call_moves acquireLocked_def gate_sets)
  next
    case (Some out)
    then show ?thesis using acquired g
      by (intro gate_move [OF i, where p = "Some Leaving"]) (auto simp: call_moves acquireLocked_def gate_sets)
  qed
next
  case (returned result err)
  note g = gate_running [OF i, of c, unfolded returned gate_sets, simplified]
  show ?thesis using returned g
    by (intro gate_move [OF i, where p = "Some Returned"]) (auto simp: call_moves handled_def Let_def gate_sets)
next
  case released
  note g = gate_running [OF i, of c, unfolded released gate_sets, simplified]
  show ?thesis using released g
    by (intro gate_move [OF i, where p = "Some Leaving"]) (auto simp: call_moves release_def gate_sets)
next
  case gate_back
  then show ?thesis by (intro gate_give [OF i]) (auto simp: call_moves)
qed (auto intro!: gate_aside [OF i] simp: call_moves retire_def Let_def gate_sets)

lemma gate_env:
  assumes i: "gate_inv h" and h: "heap_inv h" and s: "env_step h h'"
  shows "gate_inv h'"
proof (rule gate_cong [OF i])
  have "phase_of h' d = phase_of h d" for d using env_phase [OF h s] by simp
  then show "phase_of h' d \<in> gate_phases \<longleftrightarrow> phase_of h d \<in> gate_phases"
    and "phase_of h' d \<in> handler_phases \<longleftrightarrow> phase_of h d \<in> handler_phases" for d by simp_all
qed (use s in \<open>cases; simp add: call_moves host_ops split: option.split\<close>)+

lemma gate_admit:
  assumes h: "heap_inv h" and i: "gate_inv h"
  shows "gate_inv (fst (admit cfg h request def))"
proof (cases "barrierLocked cfg h")
  case None
  then show ?thesis using phase_of_next [OF h]
    by (intro gate_aside [OF i, of "h_next h" _ "Some Queued"]) (simp_all add: admit_def Let_def gate_sets)
qed (simp add: admit_def i)

text \<open>The pending table.\<close>

lemma pending_key: "pending_inv h \<Longrightarrow> map_of (h_pending h) k = Some c \<Longrightarrow> k = hc_key (call_of h c)"
  unfolding pending_inv_def by blast

lemma pending_call:
  assumes i: "pending_inv h" and s: "call_step cfg h c h'"
  shows "pending_inv h'"
  using s
proof cases
  case retired
  let ?key = "hc_key (call_of h c)"
  have p: "h_pending h' = (if map_of (h_pending h) ?key = Some c then AList.delete ?key (h_pending h) else h_pending h)"
    and n: "h_next h' = h_next h" and ph: "phase_of h' d = (if d = c then Some Gone else phase_of h d)"
    and k: "hc_key (call_of h' d) = hc_key (call_of h d)" for d
    using retired by (simp_all add: retire_def call_moves Let_def)
  have "d \<noteq> c \<and> map_of (h_pending h) key = Some d" if d: "map_of (h_pending h') key = Some d" for key d
  proof (cases "map_of (h_pending h) ?key = Some c")
    case True
    then have "map_of (h_pending h') = (map_of (h_pending h))(?key := None)" by (simp add: p AList.delete_conv')
    then have "key \<noteq> ?key" "map_of (h_pending h) key = Some d" using d by (auto split: if_splits)
    then show ?thesis using pending_key [OF i] by blast
  next
    case False
    then have "map_of (h_pending h) key = Some d" using d by (simp add: p)
    then show ?thesis using pending_key [OF i] False by blast
  qed
  moreover have "distinct (map fst (h_pending h))" using i unfolding pending_inv_def by blast
  then have "distinct (map fst (h_pending h'))" by (simp add: p distinct_delete)
  ultimately show ?thesis using i unfolding pending_inv_def n ph k by metis
next
  case acquired
  then show ?thesis using i
    by (cases "acquire_refusal cfg h c") (auto simp: acquireLocked_def call_moves pending_inv_def)
qed (use i in \<open>auto simp: call_moves host_ops Let_def pending_inv_def\<close>)

lemma env_key: "env_step h h' \<Longrightarrow> hc_key (call_of h' d) = hc_key (call_of h d)"
  by (auto elim!: env_step.cases simp: call_moves host_ops split: option.split)

lemma pending_env:
  assumes h: "heap_inv h" and i: "pending_inv h" and s: "env_step h h'"
  shows "pending_inv h'"
proof -
  have "h_pending h' = h_pending h" "h_next h' = h_next h"
    using s by (cases; simp add: call_moves host_ops split: option.split)+
  with i env_key [OF s] env_phase [OF h s] show ?thesis by (simp add: pending_inv_def)
qed

lemma pending_admit:
  assumes h: "heap_inv h" and i: "pending_inv h"
  shows "pending_inv (fst (admit cfg h request def))"
  using i by (auto simp: admit_def Let_def pending_inv_def distinct_update update_conv' less_SucI
      simp del: map_of_eq_Some_iff split: option.split)

text \<open>The calls.\<close>

lemma calls_move:
  assumes i: "calls_inv cfg h" and h': "h_calls h' = (h_calls h)(c \<mapsto> v)"
    and k: "h_started h' = h_started h" "h_generation h' = h_generation h" "h_closed h' = h_closed h"
    and v: "call_ok cfg h c v"
  shows "calls_inv cfg h'"
  using assms by (auto simp: calls_inv_def call_ok_def)

lemma calls_ok: "calls_inv cfg h \<Longrightarrow> phase_of h c = Some p \<Longrightarrow> call_ok cfg h c (call_of h c) \<and> hc_phase (call_of h c) = p"
  by (auto simp: calls_inv_def dest: phase_of_some)

lemma calls_phase:
  assumes i: "calls_inv cfg h" and p: "phase_of h c = Some p"
    and q: "(p, q) \<in> {(Queued, Selecting), (Selecting, AtGate), (Returned, Leaving), (Leaving, Retiring), (Retiring, Gone)}"
  shows "call_ok cfg h c ((call_of h c)\<lparr>hc_phase := q, hc_cancelled := b\<rparr>)"
  using calls_ok [OF i p] q by (auto simp: call_ok_def)

lemma calls_answer:
  assumes i: "calls_inv cfg h" and p: "phase_of h c = Some p" "p \<in> {Queued, Selecting, AtGate}"
    and q: "q \<in> {Leaving, Retiring}" and out: "\<not> o_ran out"
  shows "call_ok cfg h c ((call_of h c)\<lparr>hc_phase := q, hc_outcome := Some (bound_outcome cfg out)\<rparr>)"
  using calls_ok [OF i p(1)] p(2) q out by (auto simp: call_ok_def)

lemma hc_cancelled_same: "(call_of h c)\<lparr>hc_phase := q\<rparr> = (call_of h c)\<lparr>hc_phase := q, hc_cancelled := hc_cancelled (call_of h c)\<rparr>"
  by simp

lemma calls_moved:
  assumes i: "calls_inv cfg h" and p: "phase_of h c = Some p"
    and q: "(p, q) \<in> {(Queued, Selecting), (Selecting, AtGate), (Returned, Leaving), (Leaving, Retiring), (Retiring, Gone)}"
    and h': "h_calls h' = (h_calls h)(c \<mapsto> (call_of h c)\<lparr>hc_phase := q\<rparr>)"
    and k: "h_started h' = h_started h" "h_generation h' = h_generation h" "h_closed h' = h_closed h"
  shows "calls_inv cfg h'"
  by (rule calls_move [OF i h' k]) (subst hc_cancelled_same, rule calls_phase [OF i p q])

lemma calls_answered:
  assumes i: "calls_inv cfg h" and p: "phase_of h c = Some p" "p \<in> {Queued, Selecting, AtGate}"
    and q: "q \<in> {Leaving, Retiring}" and out: "\<not> o_ran out"
  shows "calls_inv cfg (answer cfg c q out h)"
  by (rule calls_move [OF i]) (auto simp: answer_def intro: calls_answer [OF i p q out])

lemma calls_started:
  assumes i: "calls_inv cfg h" and p: "phase_of h c = Some AtGate" and o: "acquire_refusal cfg h c = None"
  shows "calls_inv cfg (acquireLocked cfg h c)"
proof -
  have "c \<notin> set (h_started h)" "hc_outcome (call_of h c) = None" "hc_generation (call_of h c) \<le> h_generation h"
    using calls_ok [OF i p] by (auto simp: call_ok_def)
  moreover have "\<not> h_closed h" using o by (simp add: acquire_open)
  ultimately show ?thesis using i o
    by (auto simp: acquireLocked_def call_moves calls_inv_def call_ok_def)
qed

lemma calls_handled:
  assumes i: "calls_inv cfg h" and g: "gate_inv h" and p: "phase_of h c = Some Running"
  shows "calls_inv cfg (handled cfg h c result err)"
proof -
  have ok: "c \<in> set (h_started h)" "hc_generation (call_of h c) \<le> h_generation h"
    using calls_ok [OF i p] by (auto simp: call_ok_def)
  have other: "hc_phase v \<noteq> Running" if "h_calls h d = Some v" "d \<noteq> c" for d v
  proof
    assume "hc_phase v = Running"
    then have "phase_of h d \<in> gate_phases" using that by (simp add: phase_of_def gate_phases_def)
    with gate_unique [OF g _ this, of c] p that(2) show False by (simp add: gate_phases_def)
  qed
  show ?thesis using i ok other
    by (auto simp: handled_def answer_def calls_inv_def call_ok_def Let_def)
qed

lemma calls_call:
  assumes i: "calls_inv cfg h" and g: "gate_inv h" and s: "call_step cfg h c h'"
  shows "calls_inv cfg h'"
  using s
proof cases
  case checked
  then show ?thesis by (intro calls_moved [OF i checked(2), of Selecting]) (simp_all add: call_moves)
next
  case gate
  then show ?thesis by (intro calls_moved [OF i gate(2), of AtGate]) (simp_all add: call_moves)
next
  case acquired
  show ?thesis
  proof (cases "acquire_refusal cfg h c")
    case None
    then show ?thesis using acquired calls_started [OF i] by simp
  next
    case (Some out)
    then show ?thesis using acquired calls_answered [OF i acquired(2), of Leaving out] acquire_refuses [OF Some]
      by (simp add: acquireLocked_def)
  qed
next
  case released
  then show ?thesis by (intro calls_moved [OF i released(2), of Leaving]) (simp_all add: call_moves release_def)
next
  case gate_back
  then show ?thesis by (intro calls_moved [OF i gate_back(2), of Retiring]) (simp_all add: call_moves)
next
  case retired
  have "calls_inv cfg h'" if "h_calls h' = (h_calls h)(c \<mapsto> (call_of h c)\<lparr>hc_phase := Gone, hc_cancelled := True\<rparr>)"
    "h_started h' = h_started h" "h_generation h' = h_generation h" "h_closed h' = h_closed h"
    by (rule calls_move [OF i that]) (rule calls_phase [OF i retired(2)], simp)
  then show ?thesis using retired by (simp add: retire_def call_moves Let_def)
qed (auto intro!: calls_answered [OF i] calls_handled [OF i g])

lemma calls_env:
  assumes i: "calls_inv cfg h" and h: "heap_inv h" and s: "env_step h h'"
  shows "calls_inv cfg h'"
proof -
  have "call_ok cfg h c ((call_of h c)\<lparr>hc_cancelled := True\<rparr>)" if "c < h_next h" for c
    using i heap_some [OF h that] by (auto simp: calls_inv_def call_ok_def)
  note cancel_ok = calls_move [OF i _ _ _ _ this]
  have known: "c < h_next h" if "c \<in> set (h_cancelling h) \<or> h_calls h c \<noteq> None" for c
    using h that by (auto simp: heap_inv_def not_le [symmetric])
  show ?thesis using s
  proof cases
    case (cancel_delivered c)
    then show ?thesis by (intro cancel_ok [of _ c]) (simp_all add: cancel_def known)
  next
    case (done_watcher c)
    then show ?thesis by (intro cancel_ok [of _ c]) (simp_all add: cancel_def known)
  qed (use i in \<open>auto simp: host_ops calls_inv_def call_ok_def le_SucI split: option.split\<close>)
qed

lemma calls_admit:
  assumes i: "calls_inv cfg h" and h: "heap_inv h"
  shows "calls_inv cfg (fst (admit cfg h request def))"
proof -
  have "h_next h \<notin> set (h_started h)" using h by (auto simp: heap_inv_def)
  then show ?thesis using i by (auto simp: admit_def Let_def calls_inv_def call_ok_def split: option.split)
qed

lemma host_inv_start: "host_inv cfg (newDirectToolHost cfg extra)"
  by (simp add: host_inv_def newDirectToolHost_def heap_inv_def settled_inv_def settledLocked_def
      gate_inv_def pending_inv_def calls_inv_def phase_of_def gate_phases_def)

lemma host_inv_new: "host_inv cfg (newToolHost cfg secret)"
  by (simp add: newToolHost_def newDirectToolHost_def host_inv_def heap_inv_def settled_inv_def settledLocked_def
      gate_inv_def pending_inv_def calls_inv_def phase_of_def gate_phases_def)

lemma host_inv_call: "host_inv cfg h \<Longrightarrow> call_step cfg h c h' \<Longrightarrow> host_inv cfg h'"
  unfolding host_inv_def by (intro conjI; elim conjE; rule heap_call settled_call gate_call pending_call calls_call)

lemma host_inv_env: "host_inv cfg h \<Longrightarrow> env_step h h' \<Longrightarrow> host_inv cfg h'"
  unfolding host_inv_def
  by (intro conjI; elim conjE; rule heap_env settled_env gate_env pending_env calls_env)

lemma host_inv_admit: "host_inv cfg h \<Longrightarrow> host_inv cfg (fst (admit cfg h request def))"
  unfolding host_inv_def by (simp add: heap_admit settled_admit gate_admit pending_admit calls_admit)

lemma host_heap: "host_inv cfg h \<Longrightarrow> heap_inv h"
  by (simp add: host_inv_def)

definition new_host :: "tool_host_config \<Rightarrow> host \<Rightarrow> bool" where
  "new_host cfg h \<longleftrightarrow> (\<exists>extra. h = newDirectToolHost cfg extra) \<or> (\<exists>secret. h = newToolHost cfg secret)"

interpretation tool_host: invariant_system "new_host cfg" "host_step cfg" "host_inv cfg"
  by unfold_locales
    (auto simp: new_host_def host_inv_start host_inv_new elim!: host_step.cases intro: host_inv_call host_inv_env host_inv_admit)

lemma track_calls: "h_calls (fst (admit cfg h request def)) = (case barrierLocked cfg h of Some r \<Rightarrow> h_calls h
    | None \<Rightarrow> (h_calls h)(h_next h \<mapsto> \<lparr>hc_key = request, hc_definition = def, hc_cancelled = False,
        hc_generation = h_generation h, hc_phase = Queued, hc_outcome = None\<rparr>))"
  by (simp add: admit_def Let_def split: option.split)

lemma call_step_other:
  assumes "call_step cfg h c h'" "d \<noteq> c"
  shows "h_calls h' d = h_calls h d"
  using assms by cases (auto simp: call_moves host_ops Let_def split: option.split)

lemma call_step_live:
  assumes "call_step cfg h c h'" "phase_of h c \<noteq> Some Retiring"
  shows "h_pending h' = h_pending h" "\<exists>v. h_calls h' c = Some v \<and> hc_key v = hc_key (call_of h c)"
  using assms by (cases; auto simp: call_moves host_ops Let_def split: option.split)+

lemma tracked_call:
  assumes t: "tracked_inv h" and s: "call_step cfg h c h'"
  shows "tracked_inv h'"
proof (cases "phase_of h c = Some Retiring")
  case True
  with s have h': "h' = retire h c" by cases auto
  have own: "map_of (h_pending h) (hc_key (call_of h c)) = Some c"
    using t phase_of_some [OF True] by (auto simp: tracked_inv_def)
  show ?thesis unfolding tracked_inv_def
  proof (intro allI impI)
    fix d v assume v: "h_calls h' d = Some v" "hc_phase v \<noteq> Gone"
    then have d: "d \<noteq> c" by (auto simp: h' retire_def call_moves Let_def)
    then have "h_calls h d = Some v" using v call_step_other [OF s] by simp
    with t v have "map_of (h_pending h) (hc_key v) = Some d" by (simp add: tracked_inv_def)
    with own d show "map_of (h_pending h') (hc_key v) = Some d"
      by (auto simp: h' retire_def call_moves Let_def AList.delete_conv' simp del: map_of_eq_Some_iff)
  qed
next
  case False
  from s obtain p where "phase_of h c = Some p" "p \<noteq> Gone" by cases auto
  then have "map_of (h_pending h) (hc_key (call_of h c)) = Some c"
    using t phase_of_some by (auto simp: tracked_inv_def)
  then show ?thesis using t call_step_live [OF s False] call_step_other [OF s]
    unfolding tracked_inv_def by (metis option.inject)
qed

lemma tracked_env:
  assumes h: "heap_inv h" and t: "tracked_inv h" and s: "env_step h h'"
  shows "tracked_inv h'"
proof -
  have p: "h_pending h' = h_pending h" using s by (cases; simp add: call_moves host_ops split: option.split)
  show ?thesis unfolding tracked_inv_def p
  proof (intro allI impI)
    fix c v assume v: "h_calls h' c = Some v" "hc_phase v \<noteq> Gone"
    then have "phase_of h c = Some (hc_phase v)" using env_phase [OF h s, of c] by (simp add: phase_of_def)
    moreover have "hc_key v = hc_key (call_of h c)" using env_key [OF s, of c] v by (simp add: call_of_def)
    ultimately show "map_of (h_pending h) (hc_key v) = Some c"
      using t v(2) phase_of_some by (auto simp: tracked_inv_def)
  qed
qed

lemma tracked_admit:
  assumes t: "tracked_inv h" and f: "map_of (h_pending h) request = None"
  shows "tracked_inv (fst (admit cfg h request def))"
proof (cases "barrierLocked cfg h")
  case None
  then have "h_pending (fst (admit cfg h request def)) = AList.update request (h_next h) (h_pending h)"
    by (simp add: admit_def Let_def)
  with None t f show ?thesis
    by (fastforce simp: tracked_inv_def track_calls update_conv' split: if_splits simp del: map_of_eq_Some_iff map_of_eq_None_iff)
qed (use t in \<open>simp add: admit_def\<close>)

interpretation fresh_host: invariant_system "new_host cfg" "fresh_step cfg" "\<lambda>h. host_inv cfg h \<and> tracked_inv h"
proof unfold_locales
  fix s assume "new_host cfg s"
  then show "host_inv cfg s \<and> tracked_inv s"
    using host_inv_start host_inv_new by (auto simp: new_host_def tracked_inv_def newToolHost_def) (simp_all add: newDirectToolHost_def)
next
  fix s t assume i: "host_inv cfg s \<and> tracked_inv s" and "fresh_step cfg s t"
  then show "host_inv cfg t \<and> tracked_inv t"
    by (auto elim!: fresh_step.cases intro: host_inv_call host_inv_env host_inv_admit
        tracked_call tracked_env tracked_admit host_heap)
qed

section \<open>Properties\<close>

lemma started_step:
  assumes i: "host_inv cfg h" and s: "host_step cfg h h'"
  shows "h_started h' = h_started h \<or> (\<exists>c. h_started h' = c # h_started h \<and> c < h_next h \<and> c \<notin> set (h_started h)
    \<and> acquire_refusal cfg h c = None)"
  using s
proof cases
  case (admitted request def)
  then show ?thesis by (simp add: admit_def Let_def split: option.split)
next
  case (call c)
  note n = call_step_next [OF _ call, OF i [unfolded host_inv_def, THEN conjunct1]]
  show ?thesis using call
  proof cases
    case acquired
    then have "c \<notin> set (h_started h)"
      using i calls_ok [of cfg h c AtGate] by (auto simp: host_inv_def call_ok_def)
    with acquired n show ?thesis
      by (cases "acquire_refusal cfg h c") (auto simp: acquireLocked_def call_moves)
  qed (auto simp: call_moves host_ops Let_def)
next
  case env
  then show ?thesis by cases (auto simp: call_moves host_ops split: option.split)
qed

lemma latch_step: "host_step cfg h h' \<Longrightarrow> h_closed h \<or> h_stopped h \<Longrightarrow> h_closed h' \<or> h_stopped h'"
  by (auto elim!: host_step.cases call_step.cases env_step.cases simp: call_moves host_ops Let_def
      split: option.split if_splits)

lemma generation_step: "host_step cfg h h' \<Longrightarrow> h_generation h \<le> h_generation h' \<and> h_next h \<le> h_next h'"
  by (auto elim!: host_step.cases call_step.cases env_step.cases simp: call_moves host_ops Let_def
      split: option.split if_splits)

lemma call_generation_step:
  assumes "host_step cfg h h'" "heap_inv h" "c < h_next h"
  shows "hc_generation (call_of h' c) = hc_generation (call_of h c)"
  using assms by (auto elim!: host_step.cases call_step.cases env_step.cases simp: call_moves host_ops Let_def
      split: option.split if_splits)

lemma call_key_step:
  assumes "host_step cfg h h'" "heap_inv h" "c < h_next h"
  shows "hc_key (call_of h' c) = hc_key (call_of h c)"
  using assms by (auto elim!: host_step.cases call_step.cases env_step.cases simp: call_moves host_ops Let_def
      split: option.split if_splits)

lemma track_secret [simp]: "h_secret (trackSettlementLocked h) = h_secret h" "h_secret (set_call c v h) = h_secret h"
  "h_connections (trackSettlementLocked h) = h_connections h" "h_connections (set_call c v h) = h_connections h"
  by (simp_all add: trackSettlementLocked_def Let_def set_call_def)

lemma secret_step: "host_step cfg h h' \<Longrightarrow> h_secret h' = h_secret h \<and> h_connections h \<le> h_connections h'"
  by (auto elim!: host_step.cases call_step.cases env_step.cases simp: call_moves host_ops Let_def
      split: option.split if_splits)

text \<open>A short run for the examples: one call is admitted, takes the gate and enters its handler.\<close>

definition demo_tool :: tool_definition where
  "demo_tool = \<lparr>td_Name = ''finish'', td_Description = [], td_Schema = Some [], td_Closing = True\<rparr>"

definition demo_config :: tool_host_config where
  "demo_config = \<lparr>cfg_Server = ''host'', cfg_Tools = [demo_tool], cfg_Handler = True, cfg_Dir = ''/d'',
     cfg_BridgePath = ''/b'', cfg_MaxResultBytes = 0\<rparr>"

definition demo_queued :: "nat \<Rightarrow> host" where
  "demo_queued n = ((\<lambda>h. fst (admit demo_config h ''1:7'' demo_tool)) ^^ n) (newDirectToolHost demo_config [])"

definition demo_gate :: "nat \<Rightarrow> host \<Rightarrow> host" where
  "demo_gate c h = (let h1 = set_phase c Selecting h in set_phase c AtGate (h1\<lparr>h_gate := True\<rparr>))"

definition demo_running :: host where
  "demo_running = acquireLocked demo_config (demo_gate 0 (demo_queued 1)) 0"

definition demo_closed :: host where
  "demo_closed = handled demo_config demo_running 0 \<lparr>res_Content = ''ok'', res_IsError = False, res_Closes = False\<rparr> None"

abbreviation demo_reachable :: "host \<Rightarrow> bool" where
  "demo_reachable \<equiv> reachable_from (new_host demo_config) (host_step demo_config)"

lemma reach_call: "reachable_from (new_host cfg) (host_step cfg) h \<Longrightarrow> call_step cfg h c h' \<Longrightarrow>
    reachable_from (new_host cfg) (host_step cfg) h'"
  by (blast intro: reachable_from.step host_step.call)

lemma demo_queued_reachable: "demo_reachable (demo_queued n)"
proof (induction n)
  case 0
  show ?case by (rule reachable_from.init) (auto simp: demo_queued_def new_host_def)
next
  case (Suc n)
  have "host_step demo_config (demo_queued n) (demo_queued (Suc n))"
    using host_step.admitted [of demo_config "demo_queued n" "''1:7''" demo_tool] by (simp add: demo_queued_def)
  then show ?case by (rule reachable_from.step [OF Suc])
qed

lemma demo_gate_reachable:
  assumes "demo_reachable h" "phase_of h c = Some Queued" "\<not> hc_cancelled (call_of h c)" "\<not> h_gate h"
  shows "demo_reachable (demo_gate c h)"
proof -
  have 1: "demo_reachable (set_phase c Selecting h)"
    using reach_call [OF assms(1) call_step.checked] assms(2,3) by simp
  show ?thesis unfolding demo_gate_def Let_def
    by (rule reach_call [OF 1 call_step.gate]) (use assms(4) in \<open>simp_all add: call_moves\<close>)
qed

lemmas demo_simps = demo_gate_def demo_queued_def newDirectToolHost_def
  admit_def barrierLocked_def Let_def call_moves acquireLocked_def acquire_refusal_def

lemma demo_running_reachable: "demo_reachable demo_running" "phase_of demo_running 0 = Some Running"
  "h_started demo_running = [0]" "h_next demo_running = 1" "\<not> h_stopped demo_running"
proof -
  have "demo_reachable (demo_gate 0 (demo_queued 1))"
    by (rule demo_gate_reachable [OF demo_queued_reachable]) (simp_all add: demo_simps phase_of_def call_of_def)
  then show "demo_reachable demo_running" unfolding demo_running_def
    by (rule reach_call) (rule call_step.acquired, simp add: demo_gate_def call_moves)
qed (simp_all add: demo_running_def demo_simps phase_of_def call_of_def)

lemma demo_closed_reachable: "demo_reachable demo_closed" "h_closed demo_closed" "h_started demo_closed = [0]"
proof -
  show "demo_reachable demo_closed" unfolding demo_closed_def
    by (rule reach_call [OF demo_running_reachable(1) call_step.returned]) (rule demo_running_reachable(2))
  have "hc_definition (call_of demo_running 0) = demo_tool"
    by (simp add: demo_running_def demo_simps call_of_def)
  then show "h_closed demo_closed"
    by (simp add: demo_closed_def handled_def answer_def closes_channel_def demo_tool_def)
  show "h_started demo_closed = [0]"
    using demo_running_reachable(3) by (simp add: demo_closed_def handled_def answer_def Let_def)
qed

text \<open>
  Handlers are serialized. In every reachable state of the host at most one call
  is inside its handler, and the \<open>running\<close> counter is 1 exactly when one is.
\<close>

theorem handlers_serialized:
  assumes "reachable_from (new_host cfg) (host_step cfg) h"
  shows "(\<forall>c d. phase_of h c \<in> handler_phases \<longrightarrow> phase_of h d \<in> handler_phases \<longrightarrow> c = d) \<and>
    h_running h = (if \<exists>c. phase_of h c \<in> handler_phases then 1 else 0)"
proof -
  have g: "gate_inv h" using tool_host.inv_reachable [OF assms] by (simp add: host_inv_def)
  have sub: "x \<in> handler_phases \<Longrightarrow> x \<in> gate_phases" for x by (auto simp: gate_sets)
  from g have "h_running h = 0 \<or> h_running h = 1" by (auto simp: gate_inv_def split: if_splits)
  with g show ?thesis using gate_unique [OF g] gate_running [OF g] sub
    unfolding gate_inv_def by (metis (no_types, lifting))
qed

theorem handlers_serialized_witness:
  "{d. phase_of demo_running d \<in> handler_phases} = {0} \<and> h_running demo_running = 1"
proof -
  have r: "phase_of demo_running 0 \<in> handler_phases" using demo_running_reachable(2) by (simp add: handler_phases_def)
  then show ?thesis using handlers_serialized [OF demo_running_reachable(1)] by auto
qed

text \<open>
  C1. Every handler start passed the barrier. A step of the host hands at most one more call to
  the handler; the call was known and had not been started before, and at that moment
  the host was not stopped, probing, closed or paused, the call had not been withdrawn,
  and it belonged to the current generation.
\<close>

theorem handler_start_guarded:
  assumes "reachable_from (new_host cfg) (host_step cfg) h" "host_step cfg h h'" "h_started h' \<noteq> h_started h"
  shows "\<exists>c. h_started h' = c # h_started h \<and> c < h_next h \<and> c \<notin> set (h_started h) \<and>
    \<not> h_stopped h \<and> \<not> h_probing h \<and> \<not> h_closed h \<and> \<not> h_paused h \<and>
    \<not> hc_cancelled (call_of h c) \<and> hc_generation (call_of h c) = h_generation h"
  using started_step [OF tool_host.inv_reachable [OF assms(1)] assms(2)] assms(3)
  by (auto simp: acquire_open)

theorem handler_start_guarded_witness:
  "\<exists>c. h_started demo_running = c # h_started (demo_gate 0 (demo_queued 1)) \<and> \<not> h_paused (demo_gate 0 (demo_queued 1))"
proof -
  have r: "demo_reachable (demo_gate 0 (demo_queued 1))"
    by (rule demo_gate_reachable [OF demo_queued_reachable]) (simp_all add: demo_simps phase_of_def call_of_def)
  have "host_step demo_config (demo_gate 0 (demo_queued 1)) demo_running" unfolding demo_running_def
    by (rule host_step.call, rule call_step.acquired) (simp add: demo_gate_def call_moves)
  moreover have "h_started demo_running \<noteq> h_started (demo_gate 0 (demo_queued 1))"
    using demo_running_reachable(3) by (simp add: demo_simps)
  ultimately show ?thesis using handler_start_guarded [OF r] by blast
qed



text \<open>
  C3. Reopening supersedes. When the channel is reopened, a call admitted before it that had not
  started never starts: the work that follows is not run into by an earlier turn's queue.
\<close>

theorem reopen_supersedes:
  assumes "reachable_from (new_host cfg) (host_step cfg) h" "\<not> h_closed h" "\<not> h_stopped h"
    and "c < h_next h" "c \<notin> set (h_started h)" "(host_step cfg)\<^sup>*\<^sup>* (reopen h) h'"
  shows "c \<notin> set (h_started h')"
proof -
  have i: "host_inv cfg h" by (rule tool_host.inv_reachable [OF assms(1)])
  have r: "host_inv cfg (reopen h)" using host_inv_env [OF i env_step.reopened] .
  have "call_ok cfg h c (call_of h c)" using i heap_some [OF _ assms(4)] by (simp add: host_inv_def calls_inv_def)
  then have g: "hc_generation (call_of (reopen h) c) < h_generation (reopen h)"
    using assms(2,3) by (simp add: reopen_def call_ok_def)
  have "c < h_next h' \<and> hc_generation (call_of h' c) < h_generation h' \<and> c \<notin> set (h_started h')"
    using assms(6)
  proof (induction rule: rtranclp_induct)
    case base
    then show ?case using g assms(2-5) by (simp add: reopen_def)
  next
    case (step k k')
    have inv: "host_inv cfg k" using tool_host.inv_steps [OF step(1) r] .
    then have "hc_generation (call_of k' c) = hc_generation (call_of k c)"
      using call_generation_step [OF step(2)] step(3) by (simp add: host_inv_def)
    then show ?case using started_step [OF inv step(2)] step(3) generation_step [OF step(2)]
      by (auto simp: acquire_open)
  qed
  then show ?thesis by simp
qed

theorem reopen_supersedes_witness:
  "0 \<notin> set (h_started (acquireLocked demo_config (demo_gate 0 (reopen (demo_queued 1))) 0))"
proof -
  let ?q = "demo_queued 1" and ?r = "reopen (demo_queued 1)"
  have q: "phase_of ?r 0 = Some Queued" "\<not> hc_cancelled (call_of ?r 0)" "\<not> h_gate ?r"
    by (simp_all add: reopen_def demo_simps phase_of_def call_of_def)
  have "call_step demo_config ?r 0 (set_phase 0 Selecting ?r)" using q by (intro call_step.checked)
  moreover have "call_step demo_config (set_phase 0 Selecting ?r) 0 (demo_gate 0 ?r)"
    unfolding demo_gate_def Let_def using q by (intro call_step.gate) (simp_all add: call_moves)
  moreover have "call_step demo_config (demo_gate 0 ?r) 0 (acquireLocked demo_config (demo_gate 0 ?r) 0)"
    by (intro call_step.acquired) (simp add: demo_gate_def call_moves)
  ultimately have "(host_step demo_config)\<^sup>*\<^sup>* ?r (acquireLocked demo_config (demo_gate 0 ?r) 0)"
    by (meson host_step.call converse_rtranclp_into_rtranclp rtranclp.rtrancl_refl)
  then show ?thesis
    by (rule reopen_supersedes [OF demo_queued_reachable [of 1], of 0, rotated 4]) (simp_all add: demo_simps)
qed

text \<open>What a settled host has outstanding, in any reachable state: nothing it still finds by key, no handler.\<close>

lemma all_gone_settled:
  assumes i: "host_inv cfg h" and g: "\<forall>c call. h_calls h c = Some call \<longrightarrow> hc_phase call = Gone"
  shows "settledLocked h"
proof -
  have p: "phase_of h c \<in> {None, Some Gone}" for c using g by (auto simp: phase_of_def)
  have "phase_of h c \<notin> gate_phases" for c using p [of c] by (auto simp only: gate_sets)
  with i have "h_running h = 0" by (auto simp: host_inv_def gate_inv_def split: if_splits)
  moreover have "map_of (h_pending h) k = None" for k
  proof (rule ccontr)
    assume "map_of (h_pending h) k \<noteq> None"
    then obtain c where "map_of (h_pending h) k = Some c" by blast
    with i have "c < h_next h" "phase_of h c \<noteq> Some Gone" unfolding host_inv_def pending_inv_def by blast+
    then show False using p [of c] heap_some [OF host_heap [OF i]] by (auto simp: phase_of_def)
  qed
  then have "set (map fst (h_pending h)) = {}" unfolding map_of_eq_None_iff by (simp add: set_eq_iff)
  then have "h_pending h = []" by (simp only: set_empty map_is_Nil_conv)
  ultimately show ?thesis by (simp add: settledLocked_def)
qed

text \<open>
  C4. Settlement. As long as a harness does not reuse the identifier of a request that is
  still outstanding, the settled channel is closed, and a new turn authorized, exactly when every
  call ever admitted has been retired; then no handler is out.
\<close>

theorem settlement_exact:
  assumes "reachable_from (new_host cfg) (fresh_step cfg) h"
  shows "h_settled h = readyForWork h \<and>
    (readyForWork h \<longleftrightarrow> (\<forall>c call. h_calls h c = Some call \<longrightarrow> hc_phase call = Gone))"
proof -
  have i: "host_inv cfg h" and t: "tracked_inv h" using fresh_host.inv_reachable [OF assms] by simp_all
  have "hc_phase call = Gone" if "settledLocked h" "h_calls h c = Some call" for c call
    using t that by (auto simp: tracked_inv_def settledLocked_def)
  moreover have "h_settled h = settledLocked h" using i by (simp add: host_inv_def settled_inv_def)
  ultimately show ?thesis using all_gone_settled [OF i] unfolding readyForWork_def by blast
qed

theorem settlement_exact_witness:
  "\<not> readyForWork (demo_queued 1) \<and> \<not> h_settled (demo_queued 1)"
proof -
  have "fresh_step demo_config (demo_queued 0) (demo_queued 1)"
    using fresh_step.admitted [of "demo_queued 0" "''1:7''" demo_config demo_tool]
    by (simp add: demo_queued_def newDirectToolHost_def)
  moreover have "new_host demo_config (demo_queued 0)" by (auto simp: demo_queued_def new_host_def)
  ultimately have r: "reachable_from (new_host demo_config) (fresh_step demo_config) (demo_queued 1)"
    by (blast intro: reachable_from.intros)
  have "h_calls (demo_queued 1) 0 = Some (call_of (demo_queued 1) 0)" "hc_phase (call_of (demo_queued 1) 0) = Queued"
    by (simp_all add: demo_simps call_of_def)
  with settlement_exact [OF r] show ?thesis by fastforce
qed

text \<open>A call at the gate is refused by its handler, gives the gate back and retires.\<close>

definition demo_finish :: "nat \<Rightarrow> host \<Rightarrow> host" where
  "demo_finish c a =
     (let e = release (handled demo_config (acquireLocked demo_config a c) c
                \<lparr>res_Content = [], res_IsError = True, res_Closes = False\<rparr> None) c
      in retire (set_phase c Retiring (e\<lparr>h_gate := False\<rparr>)) c)"

lemma demo_finish_reachable:
  assumes ra: "demo_reachable a" and pa: "phase_of a c = Some AtGate" and o: "acquire_refusal demo_config a c = None"
  shows "demo_reachable (demo_finish c a)"
proof -
  define b where "b = acquireLocked demo_config a c"
  define d where "d = handled demo_config b c \<lparr>res_Content = [], res_IsError = True, res_Closes = False\<rparr> None"
  define e where "e = release d c"
  define f where "f = set_phase c Retiring (e\<lparr>h_gate := False\<rparr>)"
  have rb: "demo_reachable b" unfolding b_def by (rule reach_call [OF ra call_step.acquired [OF pa]])
  have pb: "phase_of b c = Some Running" using o by (simp add: b_def acquireLocked_def call_moves)
  have rd: "demo_reachable d" unfolding d_def by (rule reach_call [OF rb call_step.returned [OF pb]])
  have pd: "phase_of d c = Some Returned" by (simp add: d_def handled_def answer_def Let_def)
  have re: "demo_reachable e" unfolding e_def by (rule reach_call [OF rd call_step.released [OF pd]])
  have pe: "phase_of e c = Some Leaving" by (simp add: e_def release_def call_moves)
  have rf: "demo_reachable f" unfolding f_def by (rule reach_call [OF re call_step.gate_back [OF pe]])
  have pf: "phase_of f c = Some Retiring" by (simp add: f_def call_moves)
  show ?thesis using reach_call [OF rf call_step.retired [OF pf]]
    by (simp add: demo_finish_def f_def e_def d_def b_def Let_def)
qed

definition duplicate_settled :: host where
  "duplicate_settled = demo_finish 1 (demo_gate 1 (demo_queued 2))"

lemma demo_two:
  "h_pending (demo_queued 2) = [(''1:7'', 1)]" "h_running (demo_queued 2) = 0" "\<not> h_gate (demo_queued 2)"
  "h_generation (demo_queued 2) = 0" "barrierLocked cfg (demo_queued 2) = None"
  "phase_of (demo_queued 2) 0 = Some Queued" "phase_of (demo_queued 2) 1 = Some Queued"
  "hc_key (call_of (demo_queued 2) 1) = ''1:7''" "c < 2 \<Longrightarrow> \<not> hc_cancelled (call_of (demo_queued 2) c)"
  "c < 2 \<Longrightarrow> hc_generation (call_of (demo_queued 2) c) = 0"
  by (auto simp: demo_simps phase_of_def call_of_def numeral_2_eq_2)

lemma demo_gate_fields:
  "acquire_refusal cfg (demo_gate c h) c = None \<longleftrightarrow> acquire_refusal cfg h c = None"
  "h_pending (demo_gate c h) = h_pending h" "h_running (demo_gate c h) = h_running h"
  "phase_of (demo_gate c h) d = (if d = c then Some AtGate else phase_of h d)"
  "hc_key (call_of (demo_gate c h) d) = hc_key (call_of h d)"
  by (auto simp: acquire_open demo_gate_def Let_def call_moves)

lemma demo_finish_fields:
  assumes o: "acquire_refusal demo_config a c = None"
  shows "h_pending (demo_finish c a) =
      (if map_of (h_pending a) (hc_key (call_of a c)) = Some c then AList.delete (hc_key (call_of a c)) (h_pending a) else h_pending a)"
    "h_running (demo_finish c a) = h_running a"
    "phase_of (demo_finish c a) d = (if d = c then Some Gone else phase_of a d)"
    "d \<noteq> c \<Longrightarrow> call_of (demo_finish c a) d = call_of a d"
    "h_stopped (demo_finish c a) = h_stopped a" "h_probing (demo_finish c a) = h_probing a"
    "h_closed (demo_finish c a) = h_closed a" "h_paused (demo_finish c a) = h_paused a"
    "h_generation (demo_finish c a) = h_generation a"
  by (simp_all add: o demo_finish_def Let_def call_moves retire_def release_def handled_def acquireLocked_def
      closes_channel_def)

lemma acquire_cong:
  "h_stopped h = h_stopped k \<Longrightarrow> h_probing h = h_probing k \<Longrightarrow> h_closed h = h_closed k \<Longrightarrow> h_paused h = h_paused k \<Longrightarrow>
   h_generation h = h_generation k \<Longrightarrow> call_of h c = call_of k c \<Longrightarrow> acquire_refusal cfg h c = acquire_refusal cfg k c"
  by (simp add: acquire_refusal_def barrierLocked_def)

lemma demo_two_open: "c < 2 \<Longrightarrow> acquire_refusal demo_config (demo_queued 2) c = None"
  using demo_two(5) [of demo_config] demo_two(9,10) [of c] demo_two(4) by (simp add: acquire_refusal_def)

lemma duplicate_settled_fields:
  "h_pending duplicate_settled = []" "h_running duplicate_settled = 0"
  "phase_of duplicate_settled 0 = Some Queued" "acquire_refusal demo_config (demo_gate 0 duplicate_settled) 0 = None"
proof -
  have o: "acquire_refusal demo_config (demo_gate 1 (demo_queued 2)) 1 = None"
    using demo_two_open [of 1] by (simp only: demo_gate_fields)
  have z: "acquire_refusal demo_config (demo_gate 1 (demo_queued 2)) 0 = acquire_refusal demo_config (demo_queued 2) 0"
    by (rule acquire_cong) (simp_all add: demo_gate_def Let_def call_moves)
  have y: "acquire_refusal demo_config duplicate_settled 0 = acquire_refusal demo_config (demo_gate 1 (demo_queued 2)) 0"
    unfolding duplicate_settled_def by (rule acquire_cong) (simp_all add: demo_finish_fields [OF o] del: One_nat_def)
  note f = demo_finish_fields [OF o, folded duplicate_settled_def, unfolded demo_gate_fields demo_two]
  show "h_pending duplicate_settled = []" "h_running duplicate_settled = 0"
    "phase_of duplicate_settled 0 = Some Queued"
    using f(1,2) f(3) [of 0] by (simp_all add: demo_two)
  show "acquire_refusal demo_config (demo_gate 0 duplicate_settled) 0 = None"
    using y z demo_two_open [of 0] by (simp add: demo_gate_fields)
qed

text \<open>
  The limit of settlement. When a connection reuses the identifier of a request
  that is still queued, the second call takes the first one's place in the pending table; once the
  second has retired the host reports itself settled and ready for a new turn
  although the first call is still queued and goes on to run.
\<close>

theorem duplicate_request_settles_early:
  "reachable_from (new_host demo_config) (host_step demo_config) duplicate_settled \<and>
   h_settled duplicate_settled \<and> readyForWork duplicate_settled \<and> phase_of duplicate_settled 0 = Some Queued \<and>
   phase_of (acquireLocked demo_config (demo_gate 0 duplicate_settled) 0) 0 = Some Running"
proof (intro conjI)
  have o: "acquire_refusal demo_config (demo_gate 1 (demo_queued 2)) 1 = None"
    using demo_two_open [of 1] by (simp only: demo_gate_fields)
  have "demo_reachable (demo_gate 1 (demo_queued 2))"
    by (rule demo_gate_reachable [OF demo_queued_reachable]) (simp_all add: demo_two [simplified])
  then show r: "demo_reachable duplicate_settled" unfolding duplicate_settled_def
    by (rule demo_finish_reachable) (use o in \<open>simp_all only: demo_gate_fields simp_thms if_True\<close>)
  show ready: "readyForWork duplicate_settled"
    using duplicate_settled_fields by (simp add: readyForWork_def settledLocked_def)
  then show "h_settled duplicate_settled"
    using tool_host.inv_reachable [OF r] by (simp add: host_inv_def settled_inv_def readyForWork_def)
  show "phase_of (acquireLocked demo_config (demo_gate 0 duplicate_settled) 0) 0 = Some Running"
    using duplicate_settled_fields by (simp add: acquireLocked_def call_moves)
qed (use duplicate_settled_fields in simp_all)

section \<open>Progress\<close>

text \<open>How many more steps a call in each phase takes at most.\<close>

fun phase_rank :: "phase \<Rightarrow> nat" where
  "phase_rank Queued = 7" | "phase_rank Selecting = 6" | "phase_rank AtGate = 5" | "phase_rank Running = 4"
| "phase_rank Returned = 3" | "phase_rank Leaving = 2" | "phase_rank Retiring = 1" | "phase_rank Gone = 0"

definition outstanding :: "host \<Rightarrow> nat" where
  "outstanding h = (\<Sum>c < h_next h. phase_rank (hc_phase (call_of h c)))"

lemma call_step_rank:
  assumes "call_step cfg h c h'"
  shows "phase_rank (hc_phase (call_of h' c)) < phase_rank (hc_phase (call_of h c))" "h_next h' = h_next h"
  using assms by (cases; auto dest!: phase_of_some simp: call_moves host_ops Let_def split: option.split)+

lemma call_step_outstanding:
  assumes i: "heap_inv h" and s: "call_step cfg h c h'"
  shows "outstanding h' < outstanding h"
  unfolding outstanding_def call_step_rank(2) [OF s]
proof (rule sum_strict_mono_ex1)
  have o: "call_of h' d = call_of h d" if "d \<noteq> c" for d
    using call_step_other [OF s that] by (simp add: call_of_def)
  show "\<forall>d \<in> {..<h_next h}. phase_rank (hc_phase (call_of h' d)) \<le> phase_rank (hc_phase (call_of h d))"
    using o call_step_rank(1) [OF s] by (metis le_refl less_imp_le)
  show "\<exists>d \<in> {..<h_next h}. phase_rank (hc_phase (call_of h' d)) < phase_rank (hc_phase (call_of h d))"
    using call_step_next [OF i s] call_step_rank(1) [OF s] by blast
qed simp

lemma some_call_moves:
  assumes i: "host_inv cfg h" and v: "h_calls h c = Some v" "hc_phase v \<noteq> Gone"
  shows "\<exists>d h'. call_step cfg h d h'"
proof (cases "h_gate h")
  case True
  with i obtain g where "phase_of h g \<in> gate_phases" by (auto simp: host_inv_def gate_inv_def)
  then show ?thesis by (auto simp: gate_sets intro: call_step.intros)
next
  case False
  have "phase_of h c = Some (hc_phase v)" using v by (simp add: phase_of_def)
  then show ?thesis using v(2) False
    by (cases "hc_phase v"; cases "hc_cancelled (call_of h c)") (auto intro: call_step.intros)
qed

text \<open>
  C5. Progress. In every reachable state, while any admitted call has not been retired, the calls can
  move on by themselves (handlers returning being one such move), and every such move strictly lowers
  the work outstanding. So no call is stuck behind the gate, and from every state the calls
  alone bring the host, in at most \<open>outstanding\<close> moves, to one that is settled.
\<close>

theorem calls_drain:
  assumes "reachable_from (new_host cfg) (host_step cfg) h"
  shows "(\<forall>c h'. call_step cfg h c h' \<longrightarrow> outstanding h' < outstanding h) \<and>
    (\<exists>h' n. n \<le> outstanding h \<and> ((\<lambda>a b. \<exists>c. call_step cfg a c b) ^^ n) h h' \<and> readyForWork h' \<and>
       (\<forall>c call. h_calls h' c = Some call \<longrightarrow> hc_phase call = Gone))"
proof -
  have drain: "host_inv cfg h \<Longrightarrow> \<exists>h' n. n \<le> outstanding h \<and> ((\<lambda>a b. \<exists>c. call_step cfg a c b) ^^ n) h h' \<and>
      readyForWork h' \<and> (\<forall>c call. h_calls h' c = Some call \<longrightarrow> hc_phase call = Gone)" for h
  proof (induction "outstanding h" arbitrary: h rule: less_induct)
    case less
    show ?case
    proof (cases "\<forall>c call. h_calls h c = Some call \<longrightarrow> hc_phase call = Gone")
      case True
      then have "readyForWork h" using all_gone_settled [OF less(2)] by (simp add: readyForWork_def)
      with True show ?thesis by (intro exI [of _ h] exI [of _ 0]) simp
    next
      case False
      then obtain d k where s: "call_step cfg h d k" using some_call_moves [OF less(2)] by blast
      note lt = call_step_outstanding [OF host_heap [OF less(2)] s]
      obtain h' n where n: "n \<le> outstanding k" "((\<lambda>a b. \<exists>c. call_step cfg a c b) ^^ n) k h'"
        "readyForWork h'" "\<forall>c call. h_calls h' c = Some call \<longrightarrow> hc_phase call = Gone"
        using less(1) [OF lt host_inv_call [OF less(2) s]] by blast
      then have "((\<lambda>a b. \<exists>c. call_step cfg a c b) ^^ Suc n) h h'" using s relpowp_Suc_I2 by metis
      moreover have "Suc n \<le> outstanding h" using n(1) lt by simp
      ultimately show ?thesis using n(3,4) by blast
    qed
  qed
  have i: "host_inv cfg h" by (rule tool_host.inv_reachable [OF assms])
  show ?thesis using drain [OF i] call_step_outstanding [OF host_heap [OF i]] by blast
qed

theorem calls_drain_witness:
  "\<exists>h' n. n \<le> outstanding (demo_queued 2) \<and> ((\<lambda>a b. \<exists>c. call_step demo_config a c b) ^^ n) (demo_queued 2) h' \<and> readyForWork h'"
  using calls_drain [OF demo_queued_reachable [of 2]] by blast

text \<open>
  C6. Outcomes. In every reachable state the handler has been given each call at most once; a call that is past its
  handler or was refused has exactly one outcome, whose text fits the host's
  result limit, and which says that it ran exactly when the handler was given it.
\<close>

theorem outcomes_truthful:
  assumes "reachable_from (new_host cfg) (host_step cfg) h" "h_calls h c = Some call"
  shows "distinct (h_started h) \<and>
    (hc_outcome call = None \<longleftrightarrow> hc_phase call \<in> {Queued, Selecting, AtGate, Running}) \<and>
    (\<forall>out. hc_outcome call = Some out \<longrightarrow>
       int (length (o_text out)) \<le> resultLimit cfg \<and> (o_ran out \<longleftrightarrow> c \<in> set (h_started h)))"
  using tool_host.inv_reachable [OF assms(1)] assms(2) by (simp add: host_inv_def calls_inv_def call_ok_def)

theorem outcomes_truthful_witness:
  "\<exists>out. hc_outcome (call_of demo_closed 0) = Some out \<and> o_ran out \<and> int (length (o_text out)) \<le> 65536"
proof -
  have c: "h_calls demo_closed 0 = Some (call_of demo_closed 0)" "hc_phase (call_of demo_closed 0) = Returned"
    by (simp_all add: demo_closed_def handled_def answer_def call_of_def Let_def)
  have "resultLimit demo_config = 65536" by (simp add: resultLimit_def demo_config_def defaultMaxResultBytes_def)
  then show ?thesis using outcomes_truthful [OF demo_closed_reachable(1) c(1)] c(2) demo_closed_reachable(3)
    by (auto simp: not_None_eq [symmetric] simp del: not_None_eq)
qed

section \<open>Admission by name, request keys and configuration\<close>

lemma Itoa_no_colon: "CHR '':'' \<notin> set (strconv_Itoa n)"
  using Itoa_digits [of n] by (auto simp: list_all_iff ascii_digit_def)

lemma callKey_inj: "callKey a r = callKey b q \<longleftrightarrow> a = b \<and> r = q"
proof
  assume eq: "callKey a r = callKey b q"
  have "takeWhile (\<lambda>c. c \<noteq> CHR '':'') (callKey n x) = strconv_Itoa n"
    "drop (Suc (length (strconv_Itoa n))) (callKey n x) = x" for n x
    using Itoa_no_colon [of n] by (simp_all add: callKey_def takeWhile_append takeWhile_eq_all_conv)
  then show "a = b \<and> r = q" using eq by (metis Itoa_inj)
qed simp

text \<open>
  Cancellation stays on its connection. A cancellation notice from one connection only
  ever withdraws the pending call that this connection's own request admitted: its
  key is that of the same connection number and the same request bytes, and
  request bytes of another connection never match it.
\<close>

theorem cancel_own_connection:
  assumes "reachable_from (new_host cfg) (host_step cfg) h"
    and "c \<in> set (h_cancelling (cancelRequested h connection requestID))" "c \<notin> set (h_cancelling h)"
  shows "hc_key (call_of h c) = callKey connection requestID \<and> phase_of h c \<noteq> Some Gone \<and>
    (\<forall>n request. hc_key (call_of h c) = callKey n request \<longleftrightarrow> n = connection \<and> request = requestID)"
proof -
  have "map_of (h_pending h) (callKey connection requestID) = Some c"
    using assms(2,3) by (auto simp: cancelRequested_def split: option.splits)
  moreover have "pending_inv h" using tool_host.inv_reachable [OF assms(1)] by (simp add: host_inv_def)
  ultimately have "hc_key (call_of h c) = callKey connection requestID" "phase_of h c \<noteq> Some Gone"
    unfolding pending_inv_def by blast+
  then show ?thesis by (auto simp: callKey_inj)
qed

theorem cancel_own_connection_witness:
  "hc_key (call_of (demo_queued 1) 0) = callKey 1 ''7''"
proof -
  have k: "callKey 1 ''7'' = ''1:7''" by code_simp
  have p: "h_pending (demo_queued 1) = [(''1:7'', 0)]" "h_cancelling (demo_queued 1) = []" by (simp_all add: demo_simps)
  have "0 \<in> set (h_cancelling (cancelRequested (demo_queued 1) 1 ''7''))" unfolding cancelRequested_def k by (simp add: p del: One_nat_def)
  then show ?thesis using cancel_own_connection [OF demo_queued_reachable [of 1], of 0 1 "''7''"] p(2) by simp
qed

text \<open>
  What a call needs to be admitted. A request for a tool the host does not have, with arguments that are not
  a JSON object, or while the barrier is up changes nothing and is answered with an error
  that says nothing ran; any other request is queued under its key, in the
  current generation, and makes the host unsettled.
\<close>

theorem prepare_call_spec:
  assumes "settled_inv h"
  shows "let args = (if Absent arguments then ''{}'' else arguments);
     allowed = (map_of (h_tools h) name \<noteq> None \<and> is_object args \<and> barrierLocked cfg h = None)
   in case prepareCall is_object cfg h request name arguments of
        (h', Inl out) \<Rightarrow> \<not> allowed \<and> h' = h \<and> o_isError out \<and> \<not> o_ran out \<and> int (length (o_text out)) \<le> resultLimit cfg
      | (h', Inr (c, a)) \<Rightarrow> allowed \<and> a = args \<and> c = h_next h \<and> h_next h' = Suc c \<and>
          map_of (h_pending h') request = Some c \<and> phase_of h' c = Some Queued \<and>
          hc_generation (call_of h' c) = h_generation h' \<and> \<not> h_settled h'"
proof -
  have r: "o_isError (refuse cfg reason t)" "int (length (o_text (refuse cfg reason t))) \<le> resultLimit cfg" for reason t
    using bound_length [of t "resultLimit cfg"] resultLimit_pos [of cfg] by (simp_all add: refuse_def bounded_def)
  then have b: "o_isError out \<and> int (length (o_text out)) \<le> resultLimit cfg" if "barrierLocked cfg h = Some out" for out
    using that by (auto simp: barrierLocked_def split: if_splits)
  have s: "\<not> h_settled (trackSettlementLocked k)" if "h_pending k = AList.update request c (h_pending h)" for k c
    using settled_track [of k] that by (cases "h_pending h") (auto simp: settled_inv_def settledLocked_def)
  show ?thesis using r b barrier_refuses [of cfg h] s
    by (auto simp: prepareCall_def admit_def Let_def update_conv' split: option.split)
qed

theorem prepare_call_spec_witness:
  "\<exists>h'. prepareCall (\<lambda>a. a = ''{}'') demo_config (demo_queued 0) ''1:9'' ''finish'' [] = (h', Inr (0, ''{}'')) \<and> \<not> h_settled h'"
proof -
  have i: "settled_inv (demo_queued 0)" by (simp add: demo_simps settled_inv_def settledLocked_def)
  have a: "Absent []" by (simp add: Absent_def strings_TrimSpace_def)
  have t: "map_of (h_tools (demo_queued 0)) ''finish'' = Some demo_tool"
    by (simp add: demo_queued_def newDirectToolHost_def tool_table_def demo_config_def demo_tool_def)
  have b: "barrierLocked demo_config (demo_queued 0) = None" "h_next (demo_queued 0) = 0" by (simp_all add: demo_simps)
  show ?thesis using prepare_call_spec [OF i, of "[]" "''finish''" "\<lambda>a. a = ''{}''" demo_config "''1:9''"]
    by (auto simp: a t b Let_def split: prod.splits sum.splits)
qed

lemma validate_each_iff: "validate_each seen ts = None \<longleftrightarrow>
    distinct (map td_Name ts) \<and> (\<forall>t \<in> set ts. validToolName (td_Name t) \<and> td_Name t \<notin> seen \<and>
      (\<exists>schema kvs. td_Schema t = Some schema \<and> schema_Object schema = Inr kvs))"
proof (induction ts arbitrary: seen)
  case (Cons t ts)
  show ?case using Cons [of "insert (td_Name t) seen"] by (auto simp: image_iff split: option.splits sum.splits)
qed simp

text \<open>
  Tool configuration. \<open>validateTools\<close> accepts a configuration exactly when the server name is a short
  identifier, there is a handler, there are 1 to 64 tools, their names are distinct short identifiers and every
  tool has a schema that \<open>jsonschema.Object\<close> accepts; and then the names the harness
  sees are distinct too.
\<close>

theorem validate_tools_iff:
  "(validateTools cfg = None \<longleftrightarrow>
     validToolName (cfg_Server cfg) \<and> cfg_Handler cfg \<and> 1 \<le> length (cfg_Tools cfg) \<and> length (cfg_Tools cfg) \<le> 64 \<and>
     distinct (map td_Name (cfg_Tools cfg)) \<and>
     (\<forall>t \<in> set (cfg_Tools cfg). validToolName (td_Name t) \<and>
        (\<exists>schema kvs. td_Schema t = Some schema \<and> schema_Object schema = Inr kvs))) \<and>
   (validateTools cfg = None \<longrightarrow> distinct (Qualified cfg))"
proof -
  have "validateTools cfg = None \<longleftrightarrow> validToolName (cfg_Server cfg) \<and> cfg_Handler cfg \<and> 1 \<le> length (cfg_Tools cfg) \<and>
      length (cfg_Tools cfg) \<le> 64 \<and> validate_each {} (cfg_Tools cfg) = None"
    by (auto simp: validateTools_def Suc_le_eq)
  moreover have "distinct (Qualified cfg) \<longleftrightarrow> distinct (map td_Name (cfg_Tools cfg))"
    by (auto simp: Qualified_def distinct_map inj_on_def)
  ultimately show ?thesis by (simp add: validate_each_iff)
qed

theorem validate_tools_iff_witness:
  "validateTools demo_config = None \<and> distinct (Qualified demo_config)"
proof -
  have "schema_Object [] = Inr []" by (simp add: schema_Object_def)
  then have "validateTools demo_config = None"
    by (simp add: validateTools_def demo_config_def demo_tool_def validToolName_def tool_name_byte_def ascii_lower_def)
  with validate_tools_iff [of demo_config] show ?thesis by blast
qed

end
