(* ===== verification/Tool_Mcp.thy ===== *)
theory Tool_Mcp
  imports Tool_Host
begin

text \<open>
  The MCP protocol of the tool channel (session/toolhost_mcp.go): one connection's
  authentication and the loop that answers its frames. \<open>encoding/json\<close> has decoded
  the bytes; a frame is what it filled the code's anonymous structs with, \<open>None\<close> where
  it reported an error. Identifiers stay raw bytes, as in the code.
\<close>

section \<open>Frames and replies\<close>

record mcp_frame =
  fr_ID :: string
  fr_Method :: string
  fr_protocolVersion :: "string option"
  fr_requestId :: "string option"
  fr_call :: "(string \<times> string) option"

datatype mcp_payload =
    Initialized string string
  | Pong
  | ToolList "tool_definition list"
  | ToolPayload string bool

datatype mcp_reply = RpcResult string mcp_payload | RpcError string int string

text \<open>What the loop does with a frame: go on in silence, answer, dispatch the call on its own goroutine, or answer and hang up.\<close>

datatype mcp_action = Quiet | Reply mcp_reply | Dispatch string nat string | Hangup mcp_reply

text \<open>\<open>subtle.ConstantTimeCompare\<close> answers 1 for equal contents; the hello line and the deadline calls may fail.\<close>

definition authenticate :: "bool \<Rightarrow> string option \<Rightarrow> string \<Rightarrow> bool \<Rightarrow> bool" where
  "authenticate deadline_set hello secret deadline_cleared \<longleftrightarrow>
     (if \<not> deadline_set then False
      else case hello of None \<Rightarrow> False
      | Some s \<Rightarrow> if s \<noteq> secret then False else deadline_cleared)"

definition protocol_versions :: "string list" where
  "protocol_versions = [''2024-11-05'', ''2025-03-26'', ''2025-06-18'']"

definition initialize :: "tool_host_config \<Rightarrow> string option \<Rightarrow> mcp_payload" where
  "initialize cfg asked =
     Initialized (case asked of Some v \<Rightarrow> if v \<in> set protocol_versions then v else ''2025-06-18''
                  | None \<Rightarrow> ''2025-06-18'') (cfg_Server cfg)"

definition list_tools :: "tool_host_config \<Rightarrow> mcp_payload" where
  "list_tools cfg = ToolList (cfg_Tools cfg)"

definition payload :: "tool_outcome \<Rightarrow> mcp_payload" where
  "payload out = ToolPayload (o_text out) (o_isError out)"

definition prepare ::
  "(string \<Rightarrow> bool) \<Rightarrow> tool_host_config \<Rightarrow> host \<Rightarrow> string \<Rightarrow> (string \<times> string) option \<Rightarrow>
   host \<times> (tool_outcome + nat \<times> string)" where
  "prepare is_object cfg h request params =
     (case params of
        None \<Rightarrow> (h, Inl (refuse cfg ''malformed'' ''tool call could not be parsed; nothing was executed''))
      | Some (name, arguments) \<Rightarrow> prepareCall is_object cfg h request name arguments)"

text \<open>One turn of the loop in \<open>serve\<close>.\<close>

definition serve_frame ::
  "(string \<Rightarrow> bool) \<Rightarrow> tool_host_config \<Rightarrow> nat \<Rightarrow> host \<Rightarrow> mcp_frame option \<Rightarrow> host \<times> mcp_action" where
  "serve_frame is_object cfg connection h line =
     (case line of
        None \<Rightarrow> (h, Hangup (RpcError [] (-32700) ''parse error''))
      | Some frame \<Rightarrow>
         (if Absent (fr_ID frame) then
            (if fr_Method frame = ''notifications/cancelled'' then
               (case fr_requestId frame of None \<Rightarrow> h | Some r \<Rightarrow> cancelRequested h connection r)
             else h, Quiet)
          else if fr_Method frame = ''initialize'' then
            (h, Reply (RpcResult (fr_ID frame) (initialize cfg (fr_protocolVersion frame))))
          else if fr_Method frame = ''ping'' then (h, Reply (RpcResult (fr_ID frame) Pong))
          else if fr_Method frame = ''tools/list'' then
            (h\<lparr>h_listed := True\<rparr>, Reply (RpcResult (fr_ID frame) (list_tools cfg)))
          else if fr_Method frame = ''tools/call'' then
            (case prepare is_object cfg h (callKey connection (fr_ID frame)) (fr_call frame) of
               (h', Inl refusal) \<Rightarrow> (h', Reply (RpcResult (fr_ID frame) (payload refusal)))
             | (h', Inr (c, args)) \<Rightarrow> (h', Dispatch (fr_ID frame) c args))
          else (h, Reply (RpcError (fr_ID frame) (-32601) ''method not supported''))))"

section \<open>The connections of a channel\<close>

text \<open>
  Connections are served at once, each on its goroutine, beside everything else that happens to the host. A connection has its number, what
  its first line presented, and how far it got; a channel has the host, the connections in the order they came, and every action taken for
  one of them. The result of a dispatched call is sent when the call is over and is what \<open>outcomes_truthful\<close> speaks of.
\<close>

datatype connection_state = Greeting | Serving | Dropped

record connection =
  cn_number :: nat
  cn_presented :: "string option"
  cn_state :: connection_state

record channel =
  mc_host :: host
  mc_connections :: "connection list"
  mc_actions :: "(nat \<times> mcp_action) list"

text \<open>\<open>serve\<close> in its parts: the connection is numbered under the lock, authenticated against the host's credential, and then each line is answered.\<close>

definition serve_accept :: "channel \<Rightarrow> channel" where
  "serve_accept ch =
     (let n = Suc (h_connections (mc_host ch))
      in ch\<lparr>mc_host := (mc_host ch)\<lparr>h_connections := n\<rparr>,
            mc_connections := mc_connections ch @ [\<lparr>cn_number = n, cn_presented = None, cn_state = Greeting\<rparr>]\<rparr>)"

definition serve_hello :: "bool \<Rightarrow> string option \<Rightarrow> bool \<Rightarrow> nat \<Rightarrow> channel \<Rightarrow> channel" where
  "serve_hello deadline_set hello deadline_cleared i ch =
     ch\<lparr>mc_connections := (mc_connections ch)[i := (mc_connections ch ! i)\<lparr>cn_presented := hello,
       cn_state := (if authenticate deadline_set hello (h_secret (mc_host ch)) deadline_cleared then Serving else Dropped)\<rparr>]\<rparr>"

definition hang_up :: "nat \<Rightarrow> channel \<Rightarrow> channel" where
  "hang_up i ch = ch\<lparr>mc_connections := (mc_connections ch)[i := (mc_connections ch ! i)\<lparr>cn_state := Dropped\<rparr>]\<rparr>"

definition serve_line :: "(string \<Rightarrow> bool) \<Rightarrow> tool_host_config \<Rightarrow> nat \<Rightarrow> mcp_frame option \<Rightarrow> channel \<Rightarrow> channel" where
  "serve_line is_object cfg i line ch =
     (let n = cn_number (mc_connections ch ! i); (h, a) = serve_frame is_object cfg n (mc_host ch) line;
          ch1 = ch\<lparr>mc_host := h, mc_actions := mc_actions ch @ [(n, a)]\<rparr>
      in (case a of Hangup r \<Rightarrow> hang_up i ch1 | _ \<Rightarrow> ch1))"

inductive channel_step :: "(string \<Rightarrow> bool) \<Rightarrow> tool_host_config \<Rightarrow> channel \<Rightarrow> channel \<Rightarrow> bool" for is_object cfg where
  accepted: "channel_step is_object cfg ch (serve_accept ch)"
| greeted: "i < length (mc_connections ch) \<Longrightarrow> cn_state (mc_connections ch ! i) = Greeting \<Longrightarrow>
    channel_step is_object cfg ch (serve_hello deadline_set hello deadline_cleared i ch)"
| served: "i < length (mc_connections ch) \<Longrightarrow> cn_state (mc_connections ch ! i) = Serving \<Longrightarrow>
    channel_step is_object cfg ch (serve_line is_object cfg i line ch)"
| hung_up: "i < length (mc_connections ch) \<Longrightarrow> channel_step is_object cfg ch (hang_up i ch)"
| elsewhere: "host_step cfg (mc_host ch) h \<Longrightarrow> channel_step is_object cfg ch (ch\<lparr>mc_host := h\<rparr>)"

definition new_channel :: "tool_host_config \<Rightarrow> string \<Rightarrow> channel \<Rightarrow> bool" where
  "new_channel cfg secret ch \<longleftrightarrow> ch = \<lparr>mc_host = newToolHost cfg secret, mc_connections = [], mc_actions = []\<rparr>"

section \<open>Every frame is a step of the host\<close>

lemma prepare_steps:
  "fst (prepare is_object cfg h request params) = h \<or>
   (\<exists>def. fst (prepare is_object cfg h request params) = fst (admit cfg h request def))"
  by (auto simp: prepare_def prepareCall_def Let_def split: option.split sum.split prod.split) (metis fst_conv)+

lemma admit_steps: "X = h \<or> (\<exists>def. X = fst (admit cfg h request def)) \<Longrightarrow> (host_step cfg)\<^sup>=\<^sup>= h X"
  by (auto intro: host_step.admitted)

lemma serve_frame_steps: "(host_step cfg)\<^sup>=\<^sup>= h (fst (serve_frame is_object cfg connection h line))"
proof (cases line)
  case (Some frame)
  show ?thesis
  proof (cases "\<not> Absent (fr_ID frame) \<and> fr_Method frame = ''tools/call''")
    case True
    then have "fst (serve_frame is_object cfg connection h line) =
        fst (prepare is_object cfg h (callKey connection (fr_ID frame)) (fr_call frame))"
      by (simp add: serve_frame_def Some split: prod.split sum.split)
    with prepare_steps [of is_object cfg h "callKey connection (fr_ID frame)" "fr_call frame"] show ?thesis
      by (intro admit_steps [where request = "callKey connection (fr_ID frame)"]) simp
  next
    case False
    have l: "host_step cfg h (h\<lparr>h_listed := True\<rparr>)" by (intro host_step.env env_step.tools_listed)
    have r: "host_step cfg h (cancelRequested h connection r)" for r by (intro host_step.env env_step.cancel_requested)
    show ?thesis
    proof (cases "Absent (fr_ID frame)")
      case True
      then show ?thesis by (cases "fr_requestId frame") (simp_all add: serve_frame_def Some r)
    next
      case False
      with \<open>\<not> (\<not> Absent (fr_ID frame) \<and> fr_Method frame = ''tools/call'')\<close> show ?thesis
        by (cases "fr_Method frame = ''tools/list''") (simp_all add: serve_frame_def Some l)
    qed
  qed
qed (simp add: serve_frame_def)

lemma serve_frame_reachable:
  assumes "reachable_from (new_host cfg) (host_step cfg) h"
  shows "reachable_from (new_host cfg) (host_step cfg) (fst (serve_frame is_object cfg n h line))"
  using serve_frame_steps [of cfg h is_object n line] assms by (auto intro: reachable_from.step)

text \<open>A connection's frame asks to cancel only calls that carry its own number, and a call it dispatches carries it.\<close>

lemma serve_frame_cancels:
  assumes "host_inv cfg h" "k \<in> set (h_cancelling (fst (serve_frame is_object cfg n h line)))"
  shows "k \<in> set (h_cancelling h) \<or> (\<exists>r. hc_key (call_of h k) = callKey n r)"
proof -
  have p: "hc_key (call_of h c) = key" if "map_of (h_pending h) key = Some c" for key c
    using assms(1) that unfolding host_inv_def pending_inv_def by blast
  have a: "h_cancelling (fst (prepare is_object cfg h key params)) = h_cancelling h" for key params
    using prepare_steps [of is_object cfg h key params] by (auto simp: admit_def Let_def split: option.split)
  show ?thesis
  proof (cases line)
    case None
    then show ?thesis using assms(2) by (simp add: serve_frame_def)
  next
    case (Some frame)
    show ?thesis
    proof (cases "Absent (fr_ID frame)")
      case True
      then show ?thesis using assms(2) p
        by (auto simp: serve_frame_def Some cancelRequested_def split: if_splits option.splits)
    next
      case False
      have "h_cancelling (fst (serve_frame is_object cfg n h line)) = h_cancelling h"
      proof (cases "fr_Method frame = ''tools/call''")
        case True
        then have "fst (serve_frame is_object cfg n h line) = fst (prepare is_object cfg h (callKey n (fr_ID frame)) (fr_call frame))"
          using False by (simp add: serve_frame_def Some split: prod.split sum.split)
        then show ?thesis by (simp add: a)
      next
        case False
        with \<open>\<not> Absent (fr_ID frame)\<close> show ?thesis
          by (cases "fr_Method frame = ''tools/list''") (simp_all add: serve_frame_def Some)
      qed
      then show ?thesis using assms(2) by simp
    qed
  qed
qed

lemma prepare_key:
  assumes "prepare is_object cfg h key params = (h', Inr (c, args))"
  shows "c = h_next h \<and> c < h_next h' \<and> hc_key (call_of h' c) = key"
  using assms by (auto simp: prepare_def prepareCall_def admit_def Let_def call_of_def split: option.splits if_splits)

lemma serve_frame_key:
  assumes "serve_frame is_object cfg n h line = (h', Dispatch i k args)"
  shows "k < h_next h' \<and> hc_key (call_of h' k) = callKey n i"
proof (cases line)
  case (Some frame)
  have call: "\<not> Absent (fr_ID frame) \<and> fr_Method frame = ''tools/call''"
    using assms by (auto simp: serve_frame_def Some split: if_splits prod.splits sum.splits)
  then obtain c as where p: "prepare is_object cfg h (callKey n (fr_ID frame)) (fr_call frame) = (h', Inr (c, as))" "i = fr_ID frame" "k = c"
    using assms by (auto simp: serve_frame_def Some split: if_splits prod.splits sum.splits)
  then show ?thesis using prepare_key [OF p(1)] by blast
qed (use assms in \<open>simp add: serve_frame_def\<close>)

definition channel_inv :: "tool_host_config \<Rightarrow> string \<Rightarrow> channel \<Rightarrow> bool" where
  "channel_inv cfg secret ch \<longleftrightarrow> reachable_from (new_host cfg) (host_step cfg) (mc_host ch) \<and> h_secret (mc_host ch) = secret
     \<and> distinct (map cn_number (mc_connections ch)) \<and> (\<forall>cn \<in> set (mc_connections ch). cn_number cn \<le> h_connections (mc_host ch))
     \<and> (\<forall>cn \<in> set (mc_connections ch). cn_state cn = Serving \<longrightarrow> cn_presented cn = Some secret)
     \<and> (\<forall>n a. (n, a) \<in> set (mc_actions ch) \<longrightarrow> (\<exists>cn \<in> set (mc_connections ch). cn_number cn = n \<and> cn_presented cn = Some secret \<and> cn_state cn \<noteq> Greeting))
     \<and> (\<forall>n i k args. (n, Dispatch i k args) \<in> set (mc_actions ch) \<longrightarrow> k < h_next (mc_host ch) \<and> hc_key (call_of (mc_host ch) k) = callKey n i)"

lemma host_moved:
  assumes "channel_inv cfg secret ch" "host_step cfg (mc_host ch) h"
  shows "channel_inv cfg secret (ch\<lparr>mc_host := h\<rparr>)"
proof -
  have r: "reachable_from (new_host cfg) (host_step cfg) (mc_host ch)" using assms(1) by (simp add: channel_inv_def)
  have "heap_inv (mc_host ch)" using tool_host.inv_reachable [OF r] by (rule host_heap)
  then have k: "hc_key (call_of h c) = hc_key (call_of (mc_host ch) c) \<and> c < h_next h" if "c < h_next (mc_host ch)" for c
    using call_key_step [OF assms(2) _ that] generation_step [OF assms(2)] that by auto
  have "reachable_from (new_host cfg) (host_step cfg) h" using r assms(2) by (rule reachable_from.step)
  moreover have "h_secret h = h_secret (mc_host ch)" "h_connections (mc_host ch) \<le> h_connections h" using secret_step [OF assms(2)] by auto
  ultimately show ?thesis using assms(1) k unfolding channel_inv_def by (auto intro: le_trans)
qed

lemma connection_moved:
  assumes "channel_inv cfg secret ch" "i < length (mc_connections ch)" "cn_number cn = cn_number (mc_connections ch ! i)"
    "cn_state cn = Serving \<longrightarrow> cn_presented cn = Some secret" "cn_state cn \<noteq> Greeting"
    "cn_state (mc_connections ch ! i) = Greeting \<or> cn_presented cn = cn_presented (mc_connections ch ! i)"
  shows "channel_inv cfg secret (ch\<lparr>mc_connections := (mc_connections ch)[i := cn]\<rparr>)"
proof -
  let ?cs = "mc_connections ch"
  have numbers: "map cn_number (?cs[i := cn]) = map cn_number ?cs" using assms(2,3) by (simp add: map_update nth_equalityI list_update_same_conv)
  have old: "\<exists>c \<in> set (?cs[i := cn]). cn_number c = n \<and> cn_presented c = Some secret \<and> cn_state c \<noteq> Greeting"
    if at: "c \<in> set ?cs" "cn_number c = n" "cn_presented c = Some secret" "cn_state c \<noteq> Greeting" for c n
  proof -
    obtain j where j: "j < length ?cs" "c = ?cs ! j" using at(1) by (metis in_set_conv_nth)
    show ?thesis
    proof (cases "j = i")
      case True
      then show ?thesis using j at(2-4) assms(2,3,5,6) set_update_memI [OF assms(2)] by metis
    next
      case False
      then have "?cs[i := cn] ! j = c" "j < length (?cs[i := cn])" using j by simp_all
      then show ?thesis using at(2-4) nth_mem by metis
    qed
  qed
  have new: "c \<in> set ?cs \<or> c = cn" if "c \<in> set (?cs[i := cn])" for c using that set_update_subset_insert by fastforce
  have bound: "cn_number cn \<le> h_connections (mc_host ch)" using assms(1-3) by (simp add: channel_inv_def)
  show ?thesis unfolding channel_inv_def using assms(1,4) numbers new bound old unfolding channel_inv_def
    by (auto simp del: set_update_subset_insert) blast+
qed

lemma line_served:
  assumes inv: "channel_inv cfg secret ch" and i: "i < length (mc_connections ch)" "cn_state (mc_connections ch ! i) = Serving"
  shows "channel_inv cfg secret (serve_line is_object cfg i line ch)"
proof -
  let ?n = "cn_number (mc_connections ch ! i)"
  obtain h a where f: "serve_frame is_object cfg ?n (mc_host ch) line = (h, a)" by fastforce
  have "(host_step cfg)\<^sup>=\<^sup>= (mc_host ch) h" using serve_frame_steps [of cfg "mc_host ch" is_object ?n line] f by simp
  then have m: "channel_inv cfg secret (ch\<lparr>mc_host := h\<rparr>)" using host_moved [OF inv] inv by auto
  have "mc_connections ch ! i \<in> set (mc_connections ch)" using i(1) by simp
  moreover have "cn_presented (mc_connections ch ! i) = Some secret" using inv i unfolding channel_inv_def by auto
  moreover have "k < h_next h \<and> hc_key (call_of h k) = callKey ?n r" if "a = Dispatch r k args" for r k args
    using serve_frame_key [of is_object cfg ?n "mc_host ch" line h r k args] f that by simp
  ultimately have s: "channel_inv cfg secret (ch\<lparr>mc_host := h, mc_actions := mc_actions ch @ [(?n, a)]\<rparr>)"
    using m i unfolding channel_inv_def by auto blast+
  show ?thesis
  proof (cases a)
    case (Hangup r)
    have "channel_inv cfg secret (hang_up i (ch\<lparr>mc_host := h, mc_actions := mc_actions ch @ [(?n, a)]\<rparr>))"
      unfolding hang_up_def by (rule connection_moved [OF s]) (use i in simp_all)
    then show ?thesis using f Hangup by (simp add: serve_line_def Let_def)
  qed (use s f in \<open>simp_all add: serve_line_def Let_def\<close>)
qed

interpretation channels: invariant_system "new_channel cfg secret" "channel_step is_object cfg" "channel_inv cfg secret"
proof
  fix ch assume "new_channel cfg secret ch"
  moreover have "reachable_from (new_host cfg) (host_step cfg) (newToolHost cfg secret)"
    by (rule reachable_from.init) (auto simp: new_host_def)
  moreover have "h_secret (newToolHost cfg secret) = secret" by (simp add: newToolHost_def)
  ultimately show "channel_inv cfg secret ch" by (simp add: new_channel_def channel_inv_def)
next
  fix ch ch' assume inv: "channel_inv cfg secret ch" and "channel_step is_object cfg ch ch'"
  from this(2) show "channel_inv cfg secret ch'"
  proof cases
    case accepted
    have "channel_inv cfg secret (ch\<lparr>mc_host := (mc_host ch)\<lparr>h_connections := Suc (h_connections (mc_host ch))\<rparr>\<rparr>)"
      by (rule host_moved [OF inv]) (intro host_step.env env_step.connected)
    moreover have "Suc (h_connections (mc_host ch)) \<notin> cn_number ` set (mc_connections ch)"
      using inv unfolding channel_inv_def by fastforce
    ultimately show ?thesis unfolding accepted serve_accept_def Let_def channel_inv_def by auto
  next
    case (greeted i deadline_set hello deadline_cleared)
    have "h_secret (mc_host ch) = secret" using inv by (simp add: channel_inv_def)
    then show ?thesis unfolding greeted(1) serve_hello_def
      by (intro connection_moved [OF inv greeted(2)]) (use greeted(3) in \<open>auto simp: authenticate_def split: option.splits if_splits\<close>)
  next
    case (served i line)
    then show ?thesis using line_served [OF inv] by simp
  next
    case (hung_up i)
    then show ?thesis unfolding hung_up(1) hang_up_def by (intro connection_moved [OF inv]) simp_all
  next
    case (elsewhere h)
    then show ?thesis using host_moved [OF inv] by simp
  qed
qed

text \<open>
  C7. A harness cannot take the host outside its model, and only the bridge gets in. However connections, their first lines, their frames and
  everything else that happens to the host interleave, the host moves only by its own steps; every action was taken for a connection that presented
  exactly the credential the host was made with, and connections have different numbers. A call a connection dispatched carries that
  connection's number in its key, and a frame of a connection never asks to cancel a call of another one.
\<close>

theorem serve_safe:
  assumes "reachable_from (new_channel cfg secret) (channel_step is_object cfg) ch"
  shows "reachable_from (new_host cfg) (host_step cfg) (mc_host ch) \<and> distinct (map cn_number (mc_connections ch))
    \<and> (\<forall>(n, a) \<in> set (mc_actions ch). \<exists>cn \<in> set (mc_connections ch). cn_number cn = n \<and> cn_presented cn = Some secret)
    \<and> (\<forall>n i k args. (n, Dispatch i k args) \<in> set (mc_actions ch) \<longrightarrow> hc_key (call_of (mc_host ch) k) = callKey n i)
    \<and> (\<forall>n line k m r. k \<in> set (h_cancelling (fst (serve_frame is_object cfg n (mc_host ch) line)))
        \<and> k \<notin> set (h_cancelling (mc_host ch)) \<and> hc_key (call_of (mc_host ch) k) = callKey m r \<longrightarrow> m = n)"
proof -
  have inv: "channel_inv cfg secret ch" by (rule channels.inv_reachable [OF assms])
  then have r: "reachable_from (new_host cfg) (host_step cfg) (mc_host ch)" by (simp add: channel_inv_def)
  have "m = n" if "k \<in> set (h_cancelling (fst (serve_frame is_object cfg n (mc_host ch) line)))"
      "k \<notin> set (h_cancelling (mc_host ch))" "hc_key (call_of (mc_host ch) k) = callKey m r" for n line k m r
    using serve_frame_cancels [OF tool_host.inv_reachable [OF r] that(1)] that(2,3) by (auto simp: callKey_inj)
  then show ?thesis using inv unfolding channel_inv_def by fastforce
qed

definition demo_call :: mcp_frame where
  "demo_call = \<lparr>fr_ID = ''7'', fr_Method = ''tools/call'', fr_protocolVersion = None, fr_requestId = None, fr_call = Some (''finish'', ''{}'')\<rparr>"

definition demo_channel :: channel where
  "demo_channel = serve_line (\<lambda>_. True) demo_config 0 (Some demo_call) (serve_hello True (Some ''k'') True 0
     (serve_accept \<lparr>mc_host = newToolHost demo_config ''k'', mc_connections = [], mc_actions = []\<rparr>))"

lemmas demo_channel_defs = demo_channel_def serve_line_def serve_hello_def serve_accept_def authenticate_def newToolHost_def newDirectToolHost_def
  demo_call_def serve_frame_def prepare_def prepareCall_def admit_def barrierLocked_def demo_config_def demo_tool_def tool_table_def

lemma demo_channel_reachable:
  "reachable_from (new_channel demo_config ''k'') (channel_step (\<lambda>_. True) demo_config) demo_channel"
proof -
  let ?R = "reachable_from (new_channel demo_config ''k'') (channel_step (\<lambda>_. True) demo_config)"
  let ?c0 = "\<lparr>mc_host = newToolHost demo_config ''k'', mc_connections = [], mc_actions = []\<rparr>"
  have "?R ?c0" by (rule reachable_from.init) (simp add: new_channel_def)
  then have c1: "?R (serve_accept ?c0)" by (rule reachable_from.step) (rule channel_step.accepted)
  then have c2: "?R (serve_hello True (Some ''k'') True 0 (serve_accept ?c0))"
    by (rule reachable_from.step) (rule channel_step.greeted, simp_all add: serve_accept_def Let_def)
  then show ?thesis unfolding demo_channel_def
    by (rule reachable_from.step)
      (rule channel_step.served, simp_all add: serve_accept_def serve_hello_def authenticate_def newToolHost_def Let_def)
qed

theorem serve_safe_witness:
  "mc_actions demo_channel = [(1, Dispatch ''7'' 0 ''{}'')] \<and> hc_key (call_of (mc_host demo_channel) 0) = callKey 1 ''7''
   \<and> map cn_presented (mc_connections demo_channel) = [Some ''k'']"
proof -
  have there: "\<not> Absent ''7''" "\<not> Absent ''{}''" by code_simp+
  have a: "mc_actions demo_channel = [(1, Dispatch ''7'' 0 ''{}'')]" "map cn_presented (mc_connections demo_channel) = [Some ''k'']"
    using there by (simp_all add: demo_channel_defs Let_def)
  then show ?thesis using serve_safe [OF demo_channel_reachable] by auto
qed

text \<open>
  Replies. Each frame up to the first that does not parse gets exactly one action: a notification is
  never answered, every request is answered or dispatched under its own identifier, a
  handshake offers a version the host knows (the asked one when it is known), and a method other than
  the four served is refused with -32601 and leaves the host unchanged.
\<close>

theorem serve_frame_replies:
  "(case snd (serve_frame is_object cfg connection h (Some frame)) of
      Quiet \<Rightarrow> Absent (fr_ID frame)
    | Hangup r \<Rightarrow> False
    | Dispatch i c args \<Rightarrow> \<not> Absent (fr_ID frame) \<and> i = fr_ID frame \<and> fr_Method frame = ''tools/call'' \<and> c = h_next h
    | Reply (RpcError i code m) \<Rightarrow> \<not> Absent (fr_ID frame) \<and> i = fr_ID frame \<and> code = -32601 \<and>
        fr_Method frame \<notin> {''initialize'', ''ping'', ''tools/list'', ''tools/call''} \<and>
        fst (serve_frame is_object cfg connection h (Some frame)) = h
    | Reply (RpcResult i (Initialized v s)) \<Rightarrow> \<not> Absent (fr_ID frame) \<and> i = fr_ID frame \<and> s = cfg_Server cfg \<and>
        v \<in> set protocol_versions \<and>
        (if fr_protocolVersion frame \<in> Some ` set protocol_versions then fr_protocolVersion frame = Some v else v = ''2025-06-18'')
    | Reply (RpcResult i p) \<Rightarrow> \<not> Absent (fr_ID frame) \<and> i = fr_ID frame)"
proof (cases "\<not> Absent (fr_ID frame) \<and> fr_Method frame = ''tools/call''")
  case True
  let ?p = "prepare is_object cfg h (callKey connection (fr_ID frame)) (fr_call frame)"
  obtain h' r where p: "?p = (h', r)" by fastforce
  have "c = h_next h" if "r = Inr (c, args)" for c args
    using p that by (auto simp: prepare_def prepareCall_def admit_def Let_def split: option.splits if_splits)
  then show ?thesis using True p by (auto simp: serve_frame_def payload_def split: sum.split)
next
  case False
  obtain w t where i: "initialize cfg (fr_protocolVersion frame) = Initialized w t" by (simp add: initialize_def)
  then have v: "t = cfg_Server cfg" "w \<in> set protocol_versions"
      "if fr_protocolVersion frame \<in> Some ` set protocol_versions then fr_protocolVersion frame = Some w else w = ''2025-06-18''"
    by (auto simp: initialize_def protocol_versions_def split: option.splits if_splits)
  consider "Absent (fr_ID frame)" | "\<not> Absent (fr_ID frame)" "fr_Method frame = ''initialize''"
    | "\<not> Absent (fr_ID frame)" "fr_Method frame = ''ping''" | "\<not> Absent (fr_ID frame)" "fr_Method frame = ''tools/list''"
    | "\<not> Absent (fr_ID frame)" "fr_Method frame \<notin> {''initialize'', ''ping'', ''tools/list'', ''tools/call''}"
    using False by blast
  then show ?thesis
  proof cases
    case 2
    then show ?thesis using v by (simp add: serve_frame_def i)
  qed (simp_all add: serve_frame_def list_tools_def)
qed

end
