(* ===== verification/Capability_Text.thy ===== *)
theory Capability_Text
  imports Main
begin

text \<open>
  The library-authored reasons that accompany capabilities, one constant per text of
  capability_table.go, capability.go, capability_loopback.go and capability_inspection.go.
  Keeping them apart keeps the capability table itself small.
\<close>

section \<open>Reasons of the table\<close>

definition why_native_tools_are_proven_absent_before :: string where
  "why_native_tools_are_proven_absent_before = ''native tools are proven absent before each request''"

definition why_checked_against_the_installed_cli :: string where
  "why_checked_against_the_installed_cli = ''checked against the installed CLI's model catalog''"

definition why_native_tools_and_instructions_are :: string where
  "why_native_tools_and_instructions_are = ''native tools and instructions are proven against a local refusing provider before the first launch of each binary and flag set, and checked again in each run's stream and transcript; unavailable on Windows''"

definition why_requires_api_effortparameter :: string where
  "why_requires_api_effortparameter = ''requires API.EffortParameter''"

definition why_loop_maxoutputtokens_sent_as_max :: string where
  "why_loop_maxoutputtokens_sent_as_max = ''Loop.MaxOutputTokens, sent as max_completion_tokens''"

definition why_claude_code_max_output_tokens_proven :: string where
  "why_claude_code_max_output_tokens_proven = ''CLAUDE_CODE_MAX_OUTPUT_TOKENS, proven by the capability probe''"

definition why_sent_as_max_completion_tokens :: string where
  "why_sent_as_max_completion_tokens = ''sent as max_completion_tokens''"

definition why_codex_exec_sends_no_output_limit :: string where
  "why_codex_exec_sends_no_output_limit = ''codex exec sends no output limit''"

definition why_the_catalog_model_s_own_limit_can :: string where
  "why_the_catalog_model_s_own_limit_can = ''the catalog model's own limit can override it, and no probe can prove it''"

definition why_loaded_through_a_private_plugin :: string where
  "why_loaded_through_a_private_plugin = ''loaded through a private --plugin-dir''"

definition why_an_index_with_each_skill_md_s_path :: string where
  "why_an_index_with_each_skill_md_s_path = ''an index with each SKILL.md's path is added to the developer instructions''"

definition why_an_index_with_each_skill_md_s_path_2 :: string where
  "why_an_index_with_each_skill_md_s_path_2 = ''an index with each SKILL.md's path is added through --rules''"

definition why_agy_takes_no_skill_plugin_flag_and :: string where
  "why_agy_takes_no_skill_plugin_flag_and = ''agy takes no skill plugin flag and has no instruction flag to carry a skill index''"

definition why_agy_loads_its_installed_skills_from :: string where
  "why_agy_loads_its_installed_skills_from = ''agy loads its installed skills from ~/.gemini''"

definition why_a_private_plugin_dir_composed_when :: string where
  "why_a_private_plugin_dir_composed_when = ''a private --plugin-dir; composed when sandboxed or restricted''"

definition why_instructions_or_hosted_tools_native :: string where
  "why_instructions_or_hosted_tools_native = ''instructions or hosted tools; native in sandboxed sessions through the runtime home''"

definition why_grok_agent_plugin_dir :: string where
  "why_grok_agent_plugin_dir = ''grok agent --plugin-dir''"

definition why_ordinary_sessions_only :: string where
  "why_ordinary_sessions_only = ''ordinary sessions only''"

definition why_no_tool_free_antigravity_completion :: string where
  "why_no_tool_free_antigravity_completion = ''no tool-free Antigravity completion mode has been proven; use Run or Session''"

definition why_sent_with_each_turn_a_restricted :: string where
  "why_sent_with_each_turn_a_restricted = ''sent with each turn; a restricted session checks it against the installed CLI's model catalog''"

definition why_item_arguments_aggregated_output :: string where
  "why_item_arguments_aggregated_output = ''item arguments, aggregated output, exit code and MCP results from the app-server's own items''"

definition why_claude_exposes_no_verified_manual :: string where
  "why_claude_exposes_no_verified_manual = ''Claude exposes no verified manual compaction control protocol''"

definition why_tool_use_input_and_tool_result_content :: string where
  "why_tool_use_input_and_tool_result_content = ''tool_use input and tool_result content from the stream''"

definition why_grok_steering_cancels_the_running :: string where
  "why_grok_steering_cancels_the_running = ''Grok steering cancels the running prompt and sends another''"

definition why_grok_exposes_no_verified_manual :: string where
  "why_grok_exposes_no_verified_manual = ''Grok exposes no verified manual compaction control; its /compact command and compaction extension are not used''"

definition why_grok_sessions_have_no_proven_removal :: string where
  "why_grok_sessions_have_no_proven_removal = ''Grok sessions have no proven removal of native tools; use Complete for tool-free Grok''"

definition why_grok_sessions_have_no_proven_os :: string where
  "why_grok_sessions_have_no_proven_os = ''Grok sessions have no proven OS sandbox''"

definition why_grok_sessions_do_not_host_caller :: string where
  "why_grok_sessions_do_not_host_caller = ''Grok sessions do not host caller tools''"

definition why_checked_against_the_session_s_model :: string where
  "why_checked_against_the_session_s_model = ''checked against the session's model state before the first turn''"

definition why_estimated_from_each_response_s_input :: string where
  "why_estimated_from_each_response_s_input = ''estimated from each response's input against the window Grok's model state states''"

definition why_the_agent_protocol_s_rawinput_and :: string where
  "why_the_agent_protocol_s_rawinput_and = ''the agent protocol's rawInput, and rawOutput or content on a tool call's final update''"

definition why_agy_s_stream_json_input_reads_the :: string where
  "why_agy_s_stream_json_input_reads_the = ''agy's stream-json input reads the next line only after a turn finishes''"

definition why_antigravity_exposes_no_verified :: string where
  "why_antigravity_exposes_no_verified = ''Antigravity exposes no verified manual compaction control''"

definition why_agy_takes_no_system_prompt_or_instruction :: string where
  "why_agy_takes_no_system_prompt_or_instruction = ''agy takes no system prompt or instruction flag''"

definition why_antigravity_sessions_have_no_proven :: string where
  "why_antigravity_sessions_have_no_proven = ''Antigravity sessions have no proven removal of native tools''"

definition why_antigravity_sessions_have_no_proven_2 :: string where
  "why_antigravity_sessions_have_no_proven_2 = ''Antigravity sessions have no proven OS sandbox''"

definition why_antigravity_sessions_do_not_host :: string where
  "why_antigravity_sessions_do_not_host = ''Antigravity sessions do not host caller tools''"

definition why_set_at_session_launch_with_effort :: string where
  "why_set_at_session_launch_with_effort = ''set at session launch with --effort''"

definition why_agy_stream_json_events_do_not_state :: string where
  "why_agy_stream_json_events_do_not_state = ''agy stream-json events do not state the model's context window''"

definition why_step_update_tool_parameters_and :: string where
  "why_step_update_tool_parameters_and = ''step_update tool parameters and output from the stream''"

definition why_no_tool_free_fx_mode_has_been_proven :: string where
  "why_no_tool_free_fx_mode_has_been_proven = ''no tool-free fx mode has been proven; use Session''"

definition why_fx_ask_states_no_output_schema :: string where
  "why_fx_ask_states_no_output_schema = ''fx ask states no output schema''"

definition why_fx_ask_returns_one_final_response :: string where
  "why_fx_ask_returns_one_final_response = ''fx ask returns one final response, not a message stream''"

definition why_fx_states_no_dollar_valuation_of :: string where
  "why_fx_states_no_dollar_valuation_of = ''fx states no dollar valuation of a run''"

definition why_fx_states_no_split_between_cached :: string where
  "why_fx_states_no_split_between_cached = ''fx states no split between cached and fresh input''"

definition why_an_index_with_each_skill_md_s_path_3 :: string where
  "why_an_index_with_each_skill_md_s_path_3 = ''an index with each SKILL.md's path is added to the request''"

definition why_fx_loads_its_installed_skills_itself :: string where
  "why_fx_loads_its_installed_skills_itself = ''fx loads its installed skills itself''"

definition why_fx_ships_no_cli_browser_flag :: string where
  "why_fx_ships_no_cli_browser_flag = ''fx ships no CLI browser flag''"

definition why_fx_states_no_context_window_per :: string where
  "why_fx_states_no_context_window_per = ''fx states no context window per model''"

definition why_read_from_fx_s_own_status_and_credits :: string where
  "why_read_from_fx_s_own_status_and_credits = ''read from fx's own status and credits commands, without a session''"

definition why_fx_status_states_the_active_sign :: string where
  "why_fx_status_states_the_active_sign = ''fx status states the active sign-in and its team''"

definition why_fx_reports_spend_for_a_period_not :: string where
  "why_fx_reports_spend_for_a_period_not = ''fx reports spend for a period, not subscription allowance windows''"

definition why_the_ai_gateway_balance_fx_credits :: string where
  "why_the_ai_gateway_balance_fx_credits = ''the AI Gateway balance fx credits states, in dollars''"

definition why_session_resume_answers_with_the :: string where
  "why_session_resume_answers_with_the = ''session/resume answers with the configuration alone; fx refuses an id it does not hold''"

definition why_fx_steering_cancels_the_running :: string where
  "why_fx_steering_cancels_the_running = ''fx steering cancels the running prompt and sends another''"

definition why_set_through_session_set_config_option :: string where
  "why_set_through_session_set_config_option = ''set through session/set_config_option and checked against the configuration the session reports before the first turn''"

definition why_session_prompt_usage_states_cachereadtokens :: string where
  "why_session_prompt_usage_states_cachereadtokens = ''session/prompt usage states cacheReadTokens and cacheWriteTokens within inputTokens, checked against fx 0.0.14''"

definition why_fx_s_own_used_and_size_figures_from :: string where
  "why_fx_s_own_used_and_size_figures_from = ''fx's own used and size figures from the usage_update each turn ends with''"

definition why_image_content_blocks_in_an_acp_tool :: string where
  "why_image_content_blocks_in_an_acp_tool = ''image content blocks in an ACP tool call update, as the protocol declares them; not seen from a real tool''"

definition why_the_index_of_each_provided_skill :: string where
  "why_the_index_of_each_provided_skill = ''the index of each provided skill's path travels with the session's instructions''"

definition why_sent_as_session_new_s_systemprompt :: string where
  "why_sent_as_session_new_s_systemprompt = ''sent as session/new's systemPrompt content blocks, which fx appends to its own system prompt''"

definition why_fx_only_appends_session_instructions :: string where
  "why_fx_only_appends_session_instructions = ''fx only appends session instructions to its own system prompt''"

definition why_fx_exposes_no_verified_manual_compaction :: string where
  "why_fx_exposes_no_verified_manual_compaction = ''fx exposes no verified manual compaction control over the agent protocol''"

definition why_fx_sessions_have_no_proven_removal :: string where
  "why_fx_sessions_have_no_proven_removal = ''fx sessions have no proven removal of native tools''"

definition why_fx_sessions_have_no_proven_os_sandbox :: string where
  "why_fx_sessions_have_no_proven_os_sandbox = ''fx sessions have no proven OS sandbox''"

definition why_fx_sessions_do_not_host_caller_tools :: string where
  "why_fx_sessions_do_not_host_caller_tools = ''fx sessions do not host caller tools''"

definition why_the_library_switches_on_no_fx_browser :: string where
  "why_the_library_switches_on_no_fx_browser = ''the library switches on no fx browser integration''"

definition why_the_window_the_installed_cli_s_bundled :: string where
  "why_the_window_the_installed_cli_s_bundled = ''the window the installed CLI's bundled model catalog states; the account's service may differ''"

definition why_agy_models_does_not_list_per_model :: string where
  "why_agy_models_does_not_list_per_model = ''agy models does not list per-model efforts''"

definition why_agy_models_does_not_list_context :: string where
  "why_agy_models_does_not_list_context = ''agy models does not list context windows''"

definition why_endpoints_do_not_list_efforts :: string where
  "why_endpoints_do_not_list_efforts = ''endpoints do not list efforts''"

definition why_reported_only_by_some_gateways :: string where
  "why_reported_only_by_some_gateways = ''reported only by some gateways''"

definition why_an_api_endpoint_has_no_native_agent :: string where
  "why_an_api_endpoint_has_no_native_agent = ''an API endpoint has no native agent; use Complete''"

definition why_the_library_s_read_file_list_files :: string where
  "why_the_library_s_read_file_list_files = ''the library's read_file, list_files and search_files: regular, singly linked files reached inside WorkDir on WorkDir's own mount''"

definition why_the_library_s_write_file_and_edit :: string where
  "why_the_library_s_write_file_and_edit = ''the library's write_file and edit_file, inside WorkDir on WorkDir's own mount; .git is never written; symlinks are refused, not written through; each write is an atomic, synced replacement''"

definition why_the_library_runs_the_agent_loop :: string where
  "why_the_library_runs_the_agent_loop = ''the library runs the agent loop over the endpoint, keeping the conversation in RuntimeHome''"

definition why_the_library_reloads_its_own_transcript :: string where
  "why_the_library_reloads_its_own_transcript = ''the library reloads its own transcript; a call interrupted mid-run is answered as an unknown outcome, never re-run''"

definition why_the_library_cancels_the_in_flight :: string where
  "why_the_library_cancels_the_in_flight = ''the library cancels the in-flight request and the running handler''"

definition why_the_library_interrupts_the_turn :: string where
  "why_the_library_interrupts_the_turn = ''the library interrupts the turn and starts another''"

definition why_only_the_caller_s_hosted_tools_and :: string where
  "why_only_the_caller_s_hosted_tools_and = ''only the caller's hosted tools and the library's workbench tools exist: the library writes every request itself''"

definition why_the_library_calls_the_caller_s_handler :: string where
  "why_the_library_calls_the_caller_s_handler = ''the library calls the caller's handler directly, one call at a time''"

definition why_sent_as_the_leading_system_message :: string where
  "why_sent_as_the_leading_system_message = ''sent as the leading system message''"

definition why_sent_as_the_leading_system_message_2 :: string where
  "why_sent_as_the_leading_system_message_2 = ''sent as the leading system message; an endpoint has no base prompt to replace''"

definition why_the_library_indexes_provided_skills :: string where
  "why_the_library_indexes_provided_skills = ''the library indexes provided skills and answers its read-only skill tool; a permitted skill's scripts run as SkillRun says''"

definition why_an_api_endpoint_has_no_installed :: string where
  "why_an_api_endpoint_has_no_installed = ''an API endpoint has no installed skills; only Default or Exclude is accepted''"

definition why_workbench_commands_proves_its_pinned :: string where
  "why_workbench_commands_proves_its_pinned = ''Workbench.Commands proves its pinned Seatbelt profile before launch or refuses the session''"

definition why_workbench_commands_loopback_on_macos :: string where
  "why_workbench_commands_loopback_on_macos = ''Workbench.Commands.Loopback on macOS allows binds and inbound connections on every local interface; a server bound to 0.0.0.0 or a LAN address may be reachable from other machines; outbound off-machine traffic stays refused, proved before launch''"

definition why_workbench_commands_runs_each_contained :: string where
  "why_workbench_commands_runs_each_contained = ''Workbench.Commands runs each contained process group at nice 10''"

definition why_the_library_does_not_compact_a_composed :: string where
  "why_the_library_does_not_compact_a_composed = ''the library does not compact a composed session's history''"

definition why_estimated_from_each_response_s_input_2 :: string where
  "why_estimated_from_each_response_s_input_2 = ''estimated from each response's input; Chat Completions states no window''"

definition why_the_library_reports_the_model_s :: string where
  "why_the_library_reports_the_model_s = ''the library reports the model's call arguments and the handler's result as it ran them''"

definition why_api_endpoints_expose_no_account :: string where
  "why_api_endpoints_expose_no_account = ''API endpoints expose no account inspection''"

definition why_claude_code_s_sandbox_allowlocalbinding :: string where
  "why_claude_code_s_sandbox_allowlocalbinding = ''Claude Code's sandbox allowLocalBinding, which on macOS allows binds and inbound connections on every local interface; a server bound to 0.0.0.0 or a LAN address may be reachable from other machines; outbound off-machine traffic stays refused; proved before each launch by a canary that must reach and bind loopback and be refused an off-machine address''"

definition why_codex_cli_0_160_0_native_loopback :: string where
  "why_codex_cli_0_160_0_native_loopback = ''codex-cli 0.160.0 native loopback is unproved: owner-observed macOS tests found closed network refused loopback, while enabled network with localhost domain rules, including a proxy variant and a native session, allowed off-machine TCP 443 and TCP/UDP port 53; other platforms have no native enforcement proof; use a closed-network sandbox or a separately proved command sandbox''"

definition why_a_native_run_has_no_library_proven :: string where
  "why_a_native_run_has_no_library_proven = ''a native run has no library-proven sandbox to scope networking in''"

definition why_image_blocks_in_claude_code_s_tool :: string where
  "why_image_blocks_in_claude_code_s_tool = ''image blocks in Claude Code's tool results, checked with a claude-in-chrome screenshot''"

definition why_generated_images_in_codex_cli_0 :: string where
  "why_generated_images_in_codex_cli_0 = ''generated images in codex-cli 0.159.2's imageGeneration results, checked through a native session; MCP image content as the app-server protocol declares it''"

definition why_agy_step_update_tool_output_is_text :: string where
  "why_agy_step_update_tool_output_is_text = ''agy step_update tool output is text''"

definition why_grok_1_0_41_ships_no_browser_integration :: string where
  "why_grok_1_0_41_ships_no_browser_integration = ''Grok 1.0.41 ships no browser integration''"

definition why_antigravity_ships_no_cli_browser :: string where
  "why_antigravity_ships_no_cli_browser = ''Antigravity ships no CLI browser flag''"

definition why_a_sandboxed_claude_session_admits :: string where
  "why_a_sandboxed_claude_session_admits = ''a sandboxed Claude session admits the browser's tools beside its own, except those that would read local files or start another agent; the browser itself runs outside the sandbox''"

definition why_the_chatgpt_app_node_repl_bridge :: string where
  "why_the_chatgpt_app_node_repl_bridge = ''the ChatGPT app node_repl bridge runs JavaScript confined by the session sandbox, proven before launch; drives the owner's real Chrome with its logins; Chrome backend only, no computer use''"

definition why_claude_code_s_agent_tool_with_its :: string where
  "why_claude_code_s_agent_tool_with_its = ''Claude Code's Agent tool with its built-in agent types only; a subagent runs in the session's process under its tools, permission rules and OS sandbox, as Claude Code documents, not proved by the library; isolation: worktree has the CLI create a git worktree and branch outside the sandbox, even without Write''"

definition why_codex_cli_s_multi_agent_tools_agents :: string where
  "why_codex_cli_s_multi_agent_tools_agents = ''codex-cli's multi_agent tools; agents run as threads of the session's app-server under its permission profile and approval policy, as Codex documents, not proved by the library''"

definition why_no_tool_free_command_code_mode_has :: string where
  "why_no_tool_free_command_code_mode_has = ''no tool-free Command Code mode has been proven; use Session''"

definition why_command_code_is_offered_only_as :: string where
  "why_command_code_is_offered_only_as = ''Command Code is offered only as a session''"

definition why_command_code_lists_its_models_only :: string where
  "why_command_code_lists_its_models_only = ''Command Code lists its models only inside a session's configuration''"

definition why_command_code_s_agent_protocol_exposes :: string where
  "why_command_code_s_agent_protocol_exposes = ''Command Code's agent protocol exposes no account inspection''"

definition why_session_resume_once_session_list :: string where
  "why_session_resume_once_session_list = ''session/resume, once session/list shows Command Code holds the conversation for WorkDir: it resumes an unknown id as an empty conversation''"

definition why_command_code_steering_cancels_the :: string where
  "why_command_code_steering_cancels_the = ''Command Code steering cancels the running prompt and sends another''"

definition why_command_code_s_own_used_and_size :: string where
  "why_command_code_s_own_used_and_size = ''Command Code's own used and size figures from the usage_update each prompt ends with''"

definition why_command_code_loads_its_installed :: string where
  "why_command_code_loads_its_installed = ''Command Code loads its installed skills itself''"

definition why_cmd_acp_takes_no_skill_paths_and :: string where
  "why_cmd_acp_takes_no_skill_paths_and = ''cmd acp takes no skill paths and Command Code sessions have no instructions to carry a skill index''"

definition why_cmd_acp_s_session_new_takes_no_instructions :: string where
  "why_cmd_acp_s_session_new_takes_no_instructions = ''cmd acp's session/new takes no instructions''"

definition why_command_code_exposes_no_verified :: string where
  "why_command_code_exposes_no_verified = ''Command Code exposes no verified manual compaction control; its /compact command is not used''"

definition why_command_code_sessions_have_no_proven :: string where
  "why_command_code_sessions_have_no_proven = ''Command Code sessions have no proven removal of native tools''"

definition why_command_code_sessions_have_no_proven_2 :: string where
  "why_command_code_sessions_have_no_proven_2 = ''Command Code sessions have no proven OS sandbox''"

definition why_command_code_sessions_do_not_host :: string where
  "why_command_code_sessions_do_not_host = ''Command Code sessions do not host caller tools''"

definition why_the_library_switches_on_no_command :: string where
  "why_the_library_switches_on_no_command = ''the library switches on no Command Code browser integration''"

definition why_read_over_grok_s_agent_protocol :: string where
  "why_read_over_grok_s_agent_protocol = ''read over Grok's agent protocol without a session''"

definition why_grok_exposes_no_quota_windows :: string where
  "why_grok_exposes_no_quota_windows = ''Grok exposes no quota windows''"

definition why_grok_exposes_no_credit_balance :: string where
  "why_grok_exposes_no_credit_balance = ''Grok exposes no credit balance''"

definition why_not_verified_against_the_installed :: string where
  "why_not_verified_against_the_installed = ''not verified against the installed harness''"

definition why_claude_in_chrome_chrome_drives_the :: string where
  "why_claude_in_chrome_chrome_drives_the = ''Claude in Chrome (--chrome) drives the operator's real Chrome through its extension, outside any sandbox, reaching whatever the extension's site permissions allow with that profile's logins''"

definition why_codex_cli_browser_use_and_browser :: string where
  "why_codex_cli_browser_use_and_browser = ''codex-cli browser_use and browser_use_external features select the configured native browser bridge; requires that bridge in the selected CLI home and the ChatGPT Chrome extension; uses the browser profile's logins and site permissions outside the shell sandbox; sandboxed sessions require an isolated bridge and a pre-launch JavaScript confinement proof; not available with Restriction''"

definition why_reported_only_by_endpoints_that :: string where
  "why_reported_only_by_endpoints_that = ''reported only by endpoints that split cached input''"

definition why_the_process_group_is_niced_to_10 :: string where
  "why_the_process_group_is_niced_to_10 = ''the process group is niced to 10, which descendants inherit''"

definition why_the_library_indexes_provided_skills_2 :: string where
  "why_the_library_indexes_provided_skills_2 = ''the library indexes provided skills and answers a read-only skill tool; a permitted skill's scripts run only when the caller answers those calls''"

definition why_constrained_completion_never_loads :: string where
  "why_constrained_completion_never_loads = ''constrained completion never loads installed skills; only Default or Exclude is accepted''"

section \<open>Named reasons\<close>

definition SandboxEdgeLinuxReason :: string where
  "SandboxEdgeLinuxReason = ''edge_unavailable: Linux bubblewrap CLI edge and provider transport are not yet delivered (Part 2); native per-command loopback does not reach host development servers''"

definition SandboxEdgeFxReason :: string where
  "SandboxEdgeFxReason = ''fx 0.0.14 ignores HTTP(S)_PROXY and ALL_PROXY and dials its provider directly, so under the edge, whose only egress is the provider proxy, it cannot reach any provider; it needs proxy support before it can run inside''"

definition LoopbackLocalOnlySeatbeltReason :: string where
  "LoopbackLocalOnlySeatbeltReason = ''loopback_local_only_unenforceable: Seatbelt network filters accept only * or localhost hosts, and localhost admits binds and inbound connections on every local interface (owner-run evidence); local-only loopback cannot be enforced on macOS''"

definition claudeLoopbackExposureReason :: string where
  "claudeLoopbackExposureReason = ''macOS Claude Loopback is proved at launch by localhost reach and bind plus outbound off-machine refusal; LAH-39 real-Seatbelt evidence shows allowLocalBinding (local ip *:*) admits binds and inbound connections on every local interface, so 0.0.0.0 and LAN listeners may be reachable from other machines; no local-only claim; interface-address TCP bind, UDP bind and UDP send diagnostics record observations or unavailable measurements without gating the base proof''"

definition ClaudeLinuxHostLoopbackReason :: string where
  "ClaudeLinuxHostLoopbackReason = ''claude_linux_host_loopback_unavailable: Claude Linux sessions offer per-command loopback; the host's and other commands' servers are outside this contract''"

definition claudeLinuxLoopbackReason :: string where
  "claudeLinuxLoopbackReason = ''Claude Linux offers per-command loopback: a command can reach servers it starts itself; the host's and other commands' servers are outside this contract; owner-observed Ubuntu 24.04.5 / bubblewrap 0.9.0 / Claude Code 2.1.289 proved in-command reach and bind with host localhost unreachable and outbound off-machine traffic refused; proved before launch, host-shared scope refused; host-interface bind confinement remains unproved, no local-only claim; socat is required''"

definition loopbackPortsAlternative :: string where
  "loopbackPortsAlternative = ''use Loopback via a separate sandbox.Open command sandbox on macOS or Linux for servers started inside the command; command sandboxing is unavailable on Windows and other platforms''"

definition LoopbackPortsSeatbeltReason :: string where
  "LoopbackPortsSeatbeltReason = ''loopback_ports_unenforceable: Seatbelt per-port rules can name only localhost, which admits TCP/UDP binds on every local interface (owner-run Darwin 27 evidence, LAH-39); selected ports cannot be confined to loopback on macOS; '' @ loopbackPortsAlternative"

definition loopbackPortsPrivateNamespaceReason :: string where
  "loopbackPortsPrivateNamespaceReason = ''private per-command loopback has no per-port filter; '' @ loopbackPortsAlternative"

definition ProcessInspectionSeatbeltReason :: string where
  "ProcessInspectionSeatbeltReason = ''process_inspection_unenforceable: a same-sandbox process-info and sysctl boundary has not been proved on macOS; inspection is refused''"

definition ProcessInspectionPlatformReason :: string where
  "ProcessInspectionPlatformReason = ''process inspection is unavailable on this platform''"

definition ProcessInspectionWindowsReason :: string where
  "ProcessInspectionWindowsReason = ''process inspection is unavailable on Windows; restricted command hosting is not offered''"

definition ProcessInspectionNativeReason :: string where
  "ProcessInspectionNativeReason = ''process inspection is offered only by the shared command sandbox, not native engines or runs''"

definition ProcessInspectionNamespaceReason :: string where
  "ProcessInspectionNamespaceReason = ''proved per Open in each command's private PID namespace; separate Run and Start trees are invisible''"

end
