(* ===== verification/Vocabulary.thy ===== *)
theory Vocabulary
  imports Go_Base
begin

text \<open>
  The vocabulary every execution mode shares (harness.go, capability.go): engines and
  how they are reached, operations, features and capabilities. Go's string-typed
  enumerations are datatypes with a constructor for a string outside the vocabulary.
\<close>

section \<open>Engines, operations and features\<close>

datatype engine = Codex | Claude | Grok | CommandCode | Antigravity | Fx | OpenAICompatible | OtherEngine string

definition Engines :: "engine list" where
  "Engines = [Codex, Claude, Grok, CommandCode, Antigravity, Fx, OpenAICompatible]"

datatype transport = CLITransport | APITransport

text \<open>\<open>None\<close> is the code's \<open>""\<close>, an engine the library does not know.\<close>

fun Transport :: "engine \<Rightarrow> transport option" where
  "Transport OpenAICompatible = Some APITransport"
| "Transport (OtherEngine _) = None"
| "Transport _ = Some CLITransport"

text \<open>\<open>NoAvailability\<close> is the zero value.\<close>

datatype availability = Native | Composed | Unsupported | Unknown | NoAvailability

record capability =
  cap_Availability :: availability
  cap_Reason :: string

abbreviation cap :: "availability \<Rightarrow> string \<Rightarrow> capability" where
  "cap a r \<equiv> \<lparr>cap_Availability = a, cap_Reason = r\<rparr>"

definition Usable :: "capability \<Rightarrow> bool" where
  "Usable c \<longleftrightarrow> cap_Availability c \<noteq> Unsupported \<and> cap_Availability c \<noteq> NoAvailability"

datatype operation = Complete | Run | Session | Models | Account | OtherOperation string

definition Operations :: "operation list" where
  "Operations = [Complete, Run, Session, Models, Account]"

datatype feature = Available | WorkspaceRead | WorkspaceWrite | Effort | Tools | StructuredOutput
  | ProgressMessages | Resume | Interrupt | Steer | Compact | AppendInstructions | ReplaceInstructions
  | RestrictTools | Sandbox | SandboxEdge | CostReport | CacheSplit | ContextWindow | MaxOutputTokens
  | Login | Quota | Credits | ProvidedSkills | IncludeGlobalSkills | ToolActivity | Loopback
  | LoopbackLocalOnly | LoopbackPorts | Browser | SandboxedBrowser | SandboxedSubagents | Background
  | ToolImages | ProcessInspection | OtherFeature string

end
