(* ===== verification/Capability.thy ===== *)
theory Capability
  imports Capability_Text Vocabulary
begin

text \<open>
  What each engine offers (package harness): the engines and their transport
  (harness.go), the capability vocabulary and \<open>Support\<close> (capability.go), the static table
  (capability_table.go), the loopback and process-inspection rules
  (capability_loopback.go, capability_inspection.go) and the engine descriptors (describe.go).
  Go's string-typed enumerations are datatypes with a constructor for a string
  outside the vocabulary; \<open>goos\<close> is the platform's name.
\<close>

section \<open>The table\<close>

definition native_cap :: capability where
  "native_cap = cap Native []"

definition unverified_cap :: capability where
  "unverified_cap = cap Unknown why_not_verified_against_the_installed"

definition claudeBrowser_cap :: capability where
  "claudeBrowser_cap = cap Native why_claude_in_chrome_chrome_drives_the"

definition codexBrowser_cap :: capability where
  "codexBrowser_cap = cap Native why_codex_cli_browser_use_and_browser"

definition cacheVaries_cap :: capability where
  "cacheVaries_cap = cap Unknown why_reported_only_by_endpoints_that"

definition background_cap :: capability where
  "background_cap = cap Native why_the_process_group_is_niced_to_10"

definition composedSkills_cap :: capability where
  "composedSkills_cap = cap Composed why_the_library_indexes_provided_skills_2"

definition noGlobalSkills_cap :: capability where
  "noGlobalSkills_cap = cap Unsupported why_constrained_completion_never_loads"

definition support_complete_run :: "((engine \<times> operation \<times> feature) \<times> capability) list" where
  "support_complete_run =
   [((Codex, Complete, Available), cap Native why_native_tools_are_proven_absent_before),
    ((Codex, Complete, Effort), cap Native why_checked_against_the_installed_cli),
    ((Codex, Complete, Tools), native_cap),
    ((Codex, Complete, CacheSplit), native_cap),
    ((Claude, Complete, Available), cap Native why_native_tools_are_proven_absent_before),
    ((Claude, Complete, Effort), native_cap),
    ((Claude, Complete, Tools), native_cap),
    ((Claude, Complete, CacheSplit), native_cap),
    ((Claude, Complete, CostReport), native_cap),
    ((Claude, Complete, ContextWindow), native_cap),
    ((Grok, Complete, Available), cap Native why_native_tools_and_instructions_are),
    ((Grok, Complete, Effort), native_cap),
    ((Grok, Complete, Tools), native_cap),
    ((Grok, Complete, CacheSplit), native_cap),
    ((Grok, Complete, CostReport), native_cap),
    ((OpenAICompatible, Complete, Available), native_cap),
    ((OpenAICompatible, Complete, Effort), cap Native why_requires_api_effortparameter),
    ((OpenAICompatible, Complete, Tools), native_cap),
    ((OpenAICompatible, Complete, CacheSplit), cacheVaries_cap),
    ((OpenAICompatible, Session, MaxOutputTokens), cap Native why_loop_maxoutputtokens_sent_as_max),
    ((Claude, Complete, MaxOutputTokens), cap Native why_claude_code_max_output_tokens_proven),
    ((OpenAICompatible, Complete, MaxOutputTokens), cap Native why_sent_as_max_completion_tokens),
    ((Codex, Complete, MaxOutputTokens), cap Unsupported why_codex_exec_sends_no_output_limit),
    ((Grok, Complete, MaxOutputTokens), cap Unsupported why_the_catalog_model_s_own_limit_can),
    ((Claude, Run, ProvidedSkills), cap Native why_loaded_through_a_private_plugin),
    ((Codex, Run, ProvidedSkills), cap Composed why_an_index_with_each_skill_md_s_path),
    ((Grok, Run, ProvidedSkills), cap Composed why_an_index_with_each_skill_md_s_path_2),
    ((Antigravity, Run, ProvidedSkills), cap Unsupported why_agy_takes_no_skill_plugin_flag_and),
    ((Claude, Run, IncludeGlobalSkills), native_cap),
    ((Codex, Run, IncludeGlobalSkills), native_cap),
    ((Grok, Run, IncludeGlobalSkills), native_cap),
    ((Antigravity, Run, IncludeGlobalSkills), cap Native why_agy_loads_its_installed_skills_from),
    ((Claude, Session, ProvidedSkills), cap Native why_a_private_plugin_dir_composed_when),
    ((Codex, Session, ProvidedSkills), cap Composed why_instructions_or_hosted_tools_native),
    ((Grok, Session, ProvidedSkills), cap Native why_grok_agent_plugin_dir),
    ((Antigravity, Session, ProvidedSkills), cap Unsupported why_agy_takes_no_skill_plugin_flag_and),
    ((Claude, Session, IncludeGlobalSkills), cap Native why_ordinary_sessions_only),
    ((Codex, Session, IncludeGlobalSkills), cap Native why_ordinary_sessions_only),
    ((Grok, Session, IncludeGlobalSkills), cap Native why_ordinary_sessions_only),
    ((Antigravity, Session, IncludeGlobalSkills), cap Native why_ordinary_sessions_only),
    ((Codex, Complete, ProvidedSkills), composedSkills_cap),
    ((Claude, Complete, ProvidedSkills), composedSkills_cap),
    ((Grok, Complete, ProvidedSkills), composedSkills_cap),
    ((OpenAICompatible, Complete, ProvidedSkills), composedSkills_cap),
    ((Codex, Complete, IncludeGlobalSkills), noGlobalSkills_cap),
    ((Claude, Complete, IncludeGlobalSkills), noGlobalSkills_cap),
    ((Grok, Complete, IncludeGlobalSkills), noGlobalSkills_cap),
    ((OpenAICompatible, Complete, IncludeGlobalSkills), noGlobalSkills_cap),
    ((Codex, Run, Available), native_cap),
    ((Codex, Run, Effort), native_cap),
    ((Codex, Run, StructuredOutput), native_cap),
    ((Codex, Run, Resume), native_cap),
    ((Codex, Run, CacheSplit), native_cap),
    ((Claude, Run, Available), native_cap),
    ((Claude, Run, Effort), native_cap),
    ((Claude, Run, StructuredOutput), native_cap),
    ((Claude, Run, ProgressMessages), native_cap),
    ((Claude, Run, Resume), native_cap),
    ((Claude, Run, CostReport), native_cap),
    ((Claude, Run, CacheSplit), native_cap),
    ((Grok, Run, Available), native_cap),
    ((Grok, Run, Effort), native_cap),
    ((Grok, Run, StructuredOutput), native_cap),
    ((Grok, Run, ProgressMessages), native_cap),
    ((Grok, Run, Resume), native_cap),
    ((Grok, Run, CostReport), native_cap),
    ((Grok, Run, CacheSplit), native_cap),
    ((Antigravity, Complete, Available), cap Unsupported why_no_tool_free_antigravity_completion),
    ((Antigravity, Run, Available), native_cap),
    ((Antigravity, Run, Effort), native_cap),
    ((Antigravity, Run, StructuredOutput), native_cap),
    ((Antigravity, Run, ProgressMessages), native_cap),
    ((Antigravity, Run, Resume), native_cap),
    ((Antigravity, Run, CacheSplit), native_cap)]"

definition support_cli_sessions :: "((engine \<times> operation \<times> feature) \<times> capability) list" where
  "support_cli_sessions =
   [((Codex, Session, Available), unverified_cap),
    ((Codex, Session, Resume), unverified_cap),
    ((Codex, Session, Interrupt), unverified_cap),
    ((Codex, Session, Steer), unverified_cap),
    ((Codex, Session, Compact), unverified_cap),
    ((Codex, Session, AppendInstructions), unverified_cap),
    ((Codex, Session, ReplaceInstructions), unverified_cap),
    ((Codex, Session, RestrictTools), unverified_cap),
    ((Codex, Session, Sandbox), unverified_cap),
    ((Codex, Session, Tools), unverified_cap),
    ((Codex, Session, Effort), cap Native why_sent_with_each_turn_a_restricted),
    ((Codex, Session, CacheSplit), native_cap),
    ((Codex, Session, ContextWindow), unverified_cap),
    ((Codex, Session, ToolActivity), cap Native why_item_arguments_aggregated_output),
    ((Claude, Session, Available), unverified_cap),
    ((Claude, Session, Resume), unverified_cap),
    ((Claude, Session, Interrupt), unverified_cap),
    ((Claude, Session, Steer), unverified_cap),
    ((Claude, Session, Compact), cap Unsupported why_claude_exposes_no_verified_manual),
    ((Claude, Session, AppendInstructions), unverified_cap),
    ((Claude, Session, ReplaceInstructions), unverified_cap),
    ((Claude, Session, RestrictTools), unverified_cap),
    ((Claude, Session, Sandbox), unverified_cap),
    ((Claude, Session, Tools), unverified_cap),
    ((Claude, Session, Effort), native_cap),
    ((Claude, Session, CacheSplit), native_cap),
    ((Claude, Session, ContextWindow), unverified_cap),
    ((Claude, Session, ToolActivity), cap Native why_tool_use_input_and_tool_result_content),
    ((Grok, Session, Available), unverified_cap),
    ((Grok, Session, Resume), unverified_cap),
    ((Grok, Session, Interrupt), unverified_cap),
    ((Grok, Session, Steer), cap Composed why_grok_steering_cancels_the_running),
    ((Grok, Session, Compact), cap Unsupported why_grok_exposes_no_verified_manual),
    ((Grok, Session, AppendInstructions), unverified_cap),
    ((Grok, Session, ReplaceInstructions), unverified_cap),
    ((Grok, Session, RestrictTools), cap Unsupported why_grok_sessions_have_no_proven_removal),
    ((Grok, Session, Sandbox), cap Unsupported why_grok_sessions_have_no_proven_os),
    ((Grok, Session, Tools), cap Unsupported why_grok_sessions_do_not_host_caller),
    ((Grok, Session, Effort), cap Native why_checked_against_the_session_s_model),
    ((Grok, Session, CacheSplit), native_cap),
    ((Grok, Session, ContextWindow), cap Unknown why_estimated_from_each_response_s_input),
    ((Grok, Session, ToolActivity), cap Native why_the_agent_protocol_s_rawinput_and),
    ((Antigravity, Session, Available), unverified_cap),
    ((Antigravity, Session, Resume), unverified_cap),
    ((Antigravity, Session, Interrupt), cap Unsupported why_agy_s_stream_json_input_reads_the),
    ((Antigravity, Session, Steer), cap Unsupported why_agy_s_stream_json_input_reads_the),
    ((Antigravity, Session, Compact), cap Unsupported why_antigravity_exposes_no_verified),
    ((Antigravity, Session, AppendInstructions), cap Unsupported why_agy_takes_no_system_prompt_or_instruction),
    ((Antigravity, Session, ReplaceInstructions), cap Unsupported why_agy_takes_no_system_prompt_or_instruction),
    ((Antigravity, Session, RestrictTools), cap Unsupported why_antigravity_sessions_have_no_proven),
    ((Antigravity, Session, Sandbox), cap Unsupported why_antigravity_sessions_have_no_proven_2),
    ((Antigravity, Session, Tools), cap Unsupported why_antigravity_sessions_do_not_host),
    ((Antigravity, Session, Effort), cap Native why_set_at_session_launch_with_effort),
    ((Antigravity, Session, CacheSplit), native_cap),
    ((Antigravity, Session, ContextWindow), cap Unsupported why_agy_stream_json_events_do_not_state),
    ((Antigravity, Session, ToolActivity), cap Native why_step_update_tool_parameters_and)]"

definition support_fx_models :: "((engine \<times> operation \<times> feature) \<times> capability) list" where
  "support_fx_models =
   [((Fx, Complete, Available), cap Unsupported why_no_tool_free_fx_mode_has_been_proven),
    ((Fx, Run, Available), native_cap),
    ((Fx, Run, Effort), native_cap),
    ((Fx, Run, StructuredOutput), cap Unsupported why_fx_ask_states_no_output_schema),
    ((Fx, Run, ProgressMessages), cap Unsupported why_fx_ask_returns_one_final_response),
    ((Fx, Run, Resume), native_cap),
    ((Fx, Run, CostReport), cap Unsupported why_fx_states_no_dollar_valuation_of),
    ((Fx, Run, CacheSplit), cap Unsupported why_fx_states_no_split_between_cached),
    ((Fx, Run, ProvidedSkills), cap Composed why_an_index_with_each_skill_md_s_path_3),
    ((Fx, Run, IncludeGlobalSkills), cap Native why_fx_loads_its_installed_skills_itself),
    ((Fx, Run, Browser), cap Unsupported why_fx_ships_no_cli_browser_flag),
    ((Fx, Models, Available), native_cap),
    ((Fx, Models, Effort), native_cap),
    ((Fx, Models, ContextWindow), cap Unknown why_fx_states_no_context_window_per),
    ((Fx, Account, Available), cap Native why_read_from_fx_s_own_status_and_credits),
    ((Fx, Account, Login), cap Native why_fx_status_states_the_active_sign),
    ((Fx, Account, Quota), cap Unsupported why_fx_reports_spend_for_a_period_not),
    ((Fx, Account, Credits), cap Native why_the_ai_gateway_balance_fx_credits),
    ((Fx, Session, Available), unverified_cap),
    ((Fx, Session, Resume), cap Unknown why_session_resume_answers_with_the),
    ((Fx, Session, Interrupt), unverified_cap),
    ((Fx, Session, Steer), cap Composed why_fx_steering_cancels_the_running),
    ((Fx, Session, Effort), cap Native why_set_through_session_set_config_option),
    ((Fx, Session, CacheSplit), cap Native why_session_prompt_usage_states_cachereadtokens),
    ((Fx, Session, ContextWindow), cap Unknown why_fx_s_own_used_and_size_figures_from),
    ((Fx, Session, ToolActivity), cap Native why_the_agent_protocol_s_rawinput_and),
    ((Fx, Session, ToolImages), cap Unknown why_image_content_blocks_in_an_acp_tool),
    ((Fx, Session, Background), background_cap),
    ((Fx, Session, IncludeGlobalSkills), cap Native why_fx_loads_its_installed_skills_itself),
    ((Fx, Session, ProvidedSkills), cap Composed why_the_index_of_each_provided_skill),
    ((Fx, Session, AppendInstructions), cap Native why_sent_as_session_new_s_systemprompt),
    ((Fx, Session, ReplaceInstructions), cap Unsupported why_fx_only_appends_session_instructions),
    ((Fx, Session, Compact), cap Unsupported why_fx_exposes_no_verified_manual_compaction),
    ((Fx, Session, RestrictTools), cap Unsupported why_fx_sessions_have_no_proven_removal),
    ((Fx, Session, Sandbox), cap Unsupported why_fx_sessions_have_no_proven_os_sandbox),
    ((Fx, Session, Tools), cap Unsupported why_fx_sessions_do_not_host_caller_tools),
    ((Fx, Session, Browser), cap Unsupported why_the_library_switches_on_no_fx_browser),
    ((Codex, Models, Available), native_cap),
    ((Codex, Models, Effort), native_cap),
    ((Codex, Models, ContextWindow), cap Unknown why_the_window_the_installed_cli_s_bundled),
    ((Claude, Models, Available), native_cap),
    ((Claude, Models, Effort), native_cap),
    ((Grok, Models, Available), native_cap),
    ((Grok, Models, Effort), native_cap),
    ((Grok, Models, ContextWindow), native_cap),
    ((Antigravity, Models, Available), native_cap),
    ((Antigravity, Models, Effort), cap Unsupported why_agy_models_does_not_list_per_model),
    ((Antigravity, Models, ContextWindow), cap Unsupported why_agy_models_does_not_list_context),
    ((OpenAICompatible, Models, Available), native_cap),
    ((OpenAICompatible, Models, Effort), cap Unsupported why_endpoints_do_not_list_efforts),
    ((OpenAICompatible, Models, ContextWindow), cap Unknown why_reported_only_by_some_gateways)]"

definition support_api_more :: "((engine \<times> operation \<times> feature) \<times> capability) list" where
  "support_api_more =
   [((OpenAICompatible, Run, Available), cap Unsupported why_an_api_endpoint_has_no_native_agent),
    ((OpenAICompatible, Session, WorkspaceRead), cap Composed why_the_library_s_read_file_list_files),
    ((OpenAICompatible, Session, WorkspaceWrite), cap Composed why_the_library_s_write_file_and_edit),
    ((OpenAICompatible, Session, Available), cap Composed why_the_library_runs_the_agent_loop),
    ((OpenAICompatible, Session, Resume), cap Composed why_the_library_reloads_its_own_transcript),
    ((OpenAICompatible, Session, Interrupt), cap Composed why_the_library_cancels_the_in_flight),
    ((OpenAICompatible, Session, Steer), cap Composed why_the_library_interrupts_the_turn),
    ((OpenAICompatible, Session, RestrictTools), cap Composed why_only_the_caller_s_hosted_tools_and),
    ((OpenAICompatible, Session, Tools), cap Composed why_the_library_calls_the_caller_s_handler),
    ((OpenAICompatible, Session, AppendInstructions), cap Composed why_sent_as_the_leading_system_message),
    ((OpenAICompatible, Session, ReplaceInstructions), cap Composed why_sent_as_the_leading_system_message_2),
    ((OpenAICompatible, Session, Effort), cap Native why_requires_api_effortparameter),
    ((OpenAICompatible, Session, ProvidedSkills), cap Composed why_the_library_indexes_provided_skills),
    ((OpenAICompatible, Session, IncludeGlobalSkills), cap Unsupported why_an_api_endpoint_has_no_installed),
    ((OpenAICompatible, Session, Sandbox), cap Unknown why_workbench_commands_proves_its_pinned),
    ((OpenAICompatible, Session, Loopback), cap Unknown why_workbench_commands_loopback_on_macos),
    ((OpenAICompatible, Session, Background), cap Composed why_workbench_commands_runs_each_contained),
    ((OpenAICompatible, Session, Compact), cap Unsupported why_the_library_does_not_compact_a_composed),
    ((OpenAICompatible, Session, CacheSplit), cacheVaries_cap),
    ((OpenAICompatible, Session, ContextWindow), cap Unknown why_estimated_from_each_response_s_input_2),
    ((OpenAICompatible, Session, ToolActivity), cap Composed why_the_library_reports_the_model_s),
    ((OpenAICompatible, Account, Available), cap Unsupported why_api_endpoints_expose_no_account),
    ((Claude, Session, Loopback), cap Unknown why_claude_code_s_sandbox_allowlocalbinding),
    ((Codex, Session, Loopback), cap Unsupported why_codex_cli_0_160_0_native_loopback),
    ((Grok, Session, Loopback), cap Unsupported why_grok_sessions_have_no_proven_os),
    ((Antigravity, Session, Loopback), cap Unsupported why_antigravity_sessions_have_no_proven_2),
    ((Fx, Session, Loopback), cap Unsupported why_fx_sessions_have_no_proven_os_sandbox),
    ((Codex, Run, Loopback), cap Unsupported why_a_native_run_has_no_library_proven),
    ((Claude, Run, Loopback), cap Unsupported why_a_native_run_has_no_library_proven),
    ((Grok, Run, Loopback), cap Unsupported why_a_native_run_has_no_library_proven),
    ((Antigravity, Run, Loopback), cap Unsupported why_a_native_run_has_no_library_proven),
    ((Fx, Run, Loopback), cap Unsupported why_a_native_run_has_no_library_proven),
    ((Claude, Session, Background), background_cap),
    ((Codex, Session, Background), background_cap),
    ((Grok, Session, Background), background_cap),
    ((Antigravity, Session, Background), background_cap),
    ((Fx, Session, Background), background_cap),
    ((Claude, Run, Background), background_cap),
    ((Codex, Run, Background), background_cap),
    ((Grok, Run, Background), background_cap),
    ((Antigravity, Run, Background), background_cap),
    ((Fx, Run, Background), background_cap),
    ((Claude, Session, ToolImages), cap Native why_image_blocks_in_claude_code_s_tool),
    ((Codex, Session, ToolImages), cap Native why_generated_images_in_codex_cli_0),
    ((Grok, Session, ToolImages), cap Unknown why_image_content_blocks_in_an_acp_tool),
    ((Antigravity, Session, ToolImages), cap Unsupported why_agy_step_update_tool_output_is_text),
    ((Claude, Session, Browser), claudeBrowser_cap),
    ((Claude, Run, Browser), claudeBrowser_cap),
    ((Codex, Session, Browser), codexBrowser_cap),
    ((Codex, Run, Browser), codexBrowser_cap),
    ((Grok, Session, Browser), cap Unsupported why_grok_1_0_41_ships_no_browser_integration),
    ((Antigravity, Session, Browser), cap Unsupported why_antigravity_ships_no_cli_browser),
    ((Claude, Session, SandboxedBrowser), cap Native why_a_sandboxed_claude_session_admits),
    ((Codex, Session, SandboxedBrowser), cap Native why_the_chatgpt_app_node_repl_bridge),
    ((Grok, Run, Browser), cap Unsupported why_grok_1_0_41_ships_no_browser_integration),
    ((Antigravity, Run, Browser), cap Unsupported why_antigravity_ships_no_cli_browser),
    ((Claude, Session, SandboxedSubagents), cap Native why_claude_code_s_agent_tool_with_its),
    ((Codex, Session, SandboxedSubagents), cap Native why_codex_cli_s_multi_agent_tools_agents),
    ((CommandCode, Complete, Available), cap Unsupported why_no_tool_free_command_code_mode_has),
    ((CommandCode, Run, Available), cap Unsupported why_command_code_is_offered_only_as),
    ((CommandCode, Models, Available), cap Unsupported why_command_code_lists_its_models_only),
    ((CommandCode, Account, Available), cap Unsupported why_command_code_s_agent_protocol_exposes),
    ((CommandCode, Session, Available), unverified_cap),
    ((CommandCode, Session, Resume), cap Unknown why_session_resume_once_session_list),
    ((CommandCode, Session, Interrupt), unverified_cap),
    ((CommandCode, Session, Steer), cap Composed why_command_code_steering_cancels_the),
    ((CommandCode, Session, Effort), cap Native why_set_through_session_set_config_option),
    ((CommandCode, Session, CacheSplit), native_cap),
    ((CommandCode, Session, ContextWindow), cap Unknown why_command_code_s_own_used_and_size),
    ((CommandCode, Session, ToolActivity), cap Native why_the_agent_protocol_s_rawinput_and),
    ((CommandCode, Session, ToolImages), cap Unknown why_image_content_blocks_in_an_acp_tool),
    ((CommandCode, Session, Background), background_cap),
    ((CommandCode, Session, IncludeGlobalSkills), cap Native why_command_code_loads_its_installed),
    ((CommandCode, Session, ProvidedSkills), cap Unsupported why_cmd_acp_takes_no_skill_paths_and),
    ((CommandCode, Session, AppendInstructions), cap Unsupported why_cmd_acp_s_session_new_takes_no_instructions),
    ((CommandCode, Session, ReplaceInstructions), cap Unsupported why_cmd_acp_s_session_new_takes_no_instructions),
    ((CommandCode, Session, Compact), cap Unsupported why_command_code_exposes_no_verified),
    ((CommandCode, Session, RestrictTools), cap Unsupported why_command_code_sessions_have_no_proven),
    ((CommandCode, Session, Sandbox), cap Unsupported why_command_code_sessions_have_no_proven_2),
    ((CommandCode, Session, Loopback), cap Unsupported why_command_code_sessions_have_no_proven_2),
    ((CommandCode, Session, Tools), cap Unsupported why_command_code_sessions_do_not_host),
    ((CommandCode, Session, Browser), cap Unsupported why_the_library_switches_on_no_command),
    ((Codex, Account, Available), unverified_cap),
    ((Codex, Account, Login), unverified_cap),
    ((Codex, Account, Quota), unverified_cap),
    ((Claude, Account, Available), unverified_cap),
    ((Claude, Account, Login), unverified_cap),
    ((Claude, Account, Quota), unverified_cap),
    ((Codex, Account, Credits), unverified_cap),
    ((Claude, Account, Credits), unverified_cap),
    ((Grok, Account, Available), cap Native why_read_over_grok_s_agent_protocol),
    ((Grok, Account, Login), native_cap),
    ((Grok, Account, Quota), cap Unsupported why_grok_exposes_no_quota_windows),
    ((Grok, Account, Credits), cap Unsupported why_grok_exposes_no_credit_balance),
    ((Antigravity, Account, Available), unverified_cap),
    ((Antigravity, Account, Login), unverified_cap),
    ((Antigravity, Account, Quota), unverified_cap),
    ((Antigravity, Account, Credits), unverified_cap)]"

definition supportTable :: "((engine \<times> operation \<times> feature) \<times> capability) list" where
  "supportTable = support_complete_run @ support_cli_sessions @ support_fx_models @ support_api_more"

section \<open>Platform rules\<close>

definition sandboxEdgeSupport :: "engine \<Rightarrow> operation \<Rightarrow> string \<Rightarrow> capability" where
  "sandboxEdgeSupport e op goos =
     (if op = Session \<and> e = Fx then cap Unsupported SandboxEdgeFxReason
      else if op \<noteq> Session \<or> (e \<noteq> Codex \<and> e \<noteq> Claude \<and> e \<noteq> Antigravity) then
        cap Unsupported ''sandbox edge is offered only for Codex, Claude and Antigravity sessions''
      else if goos = ''darwin'' then
        (if e = Antigravity then cap Unknown ''installed-binary inference through the proxy is proved before launch using fake-provider CA trust; production trusts the macOS /etc/ssl/cert.pem bundle through SSL_CERT_FILE, not the keychain, and is unproved; Gemini API-key login only, as agy keeps its Google-account login in the keychain; needs Loopback for its language server, so its egress is not provider-only: descendants reach every on-machine TCP service, including any local proxy that relays further, and loopback binds and inbound cover all local interfaces''
         else cap Unknown ''installed-binary inference through the proxy is proved before launch using fake-provider CA trust; native TLS trust loading/evaluation is unproved and production TLS may fail; loopback binds and inbound cover all local interfaces'')
      else if goos = ''linux'' then cap Unsupported SandboxEdgeLinuxReason
      else cap Unsupported ''edge_unavailable: restricted CLI hosting is unavailable on this platform'')"

definition processInspectionSupport :: "engine \<Rightarrow> operation \<Rightarrow> string \<Rightarrow> capability" where
  "processInspectionSupport e op goos =
     (if Transport e = None then cap Unsupported ''unrecognized engine''
      else if e \<noteq> OpenAICompatible \<or> op \<noteq> Session then cap Unsupported ProcessInspectionNativeReason
      else if goos = ''linux'' then cap Unknown ProcessInspectionNamespaceReason
      else if goos = ''darwin'' then cap Unsupported ProcessInspectionSeatbeltReason
      else if goos = ''windows'' then cap Unsupported ProcessInspectionWindowsReason
      else cap Unsupported ProcessInspectionPlatformReason)"

definition loopbackLocalOnlySupport :: "string \<Rightarrow> engine \<Rightarrow> operation \<Rightarrow> capability" where
  "loopbackLocalOnlySupport goos e op =
     (if e = Claude \<and> op = Session then
        (if goos = ''darwin'' then
           cap Unsupported (LoopbackLocalOnlySeatbeltReason @ ''; Claude allowLocalBinding uses *:* and local-only binds are unproved'')
         else if goos = ''linux'' then
           cap Unsupported ''Claude Linux session local-only binds and inbound confinement have not been proved; standalone command namespace evidence does not establish this native-session capability''
         else cap Unsupported ''Claude allowLocalBinding permits binds on any interface; local-only binds are unproved on this platform'')
      else if goos = ''darwin'' \<and> op = Session \<and> e = OpenAICompatible then cap Unsupported LoopbackLocalOnlySeatbeltReason
      else if goos = ''linux'' \<and> e = OpenAICompatible \<and> op = Session then
        cap Unsupported ''workbench sessions have no shared private loopback; standalone sandbox.Open offers LoopbackLocalOnly after proving private-namespace loopback''
      else cap Unsupported ''local-only loopback is not proved for this engine, operation and platform'')"

definition loopback_ports_reason :: "engine \<Rightarrow> operation \<Rightarrow> string \<Rightarrow> string" where
  "loopback_ports_reason e op goos =
     (if op = Run then ''native runs have no proved per-port sandbox''
      else if op = Session then
        (case e of
           OpenAICompatible \<Rightarrow> ''selected loopback ports require proved OS enforcement''
         | Claude \<Rightarrow> if goos = ''linux'' then ClaudeLinuxHostLoopbackReason
                     else ''Claude Code offers only yes/no allowLocalBinding''
         | Codex \<Rightarrow> ''Codex native loopback is unsupported; no per-port enforcement proof''
         | Grok \<Rightarrow> ''Grok sessions have no proven OS sandbox''
         | CommandCode \<Rightarrow> ''Command Code sessions have no proven OS sandbox''
         | Antigravity \<Rightarrow> ''Antigravity sessions have no proven OS sandbox''
         | _ \<Rightarrow> ''selected loopback ports are not proved for this engine, operation and platform'')
      else ''selected loopback ports are not proved for this engine, operation and platform'')"

definition loopbackPortsSupport :: "engine \<Rightarrow> operation \<Rightarrow> string \<Rightarrow> capability" where
  "loopbackPortsSupport e op goos =
     (if op = Session \<and> e = OpenAICompatible \<and> goos = ''darwin'' then cap Unsupported LoopbackPortsSeatbeltReason
      else if op = Session \<and> e = OpenAICompatible \<and> goos = ''linux'' then cap Unsupported loopbackPortsPrivateNamespaceReason
      else if goos = ''darwin'' \<and> op = Session then
        cap Unsupported (loopback_ports_reason e op goos @ ''; '' @ LoopbackPortsSeatbeltReason)
      else cap Unsupported (loopback_ports_reason e op goos @ ''; '' @ loopbackPortsAlternative))"

definition apiCommandsUnavailable :: capability where
  "apiCommandsUnavailable = cap Unsupported ''API commands require a proved macOS Seatbelt sandbox; this platform has no command sandbox''"

definition workbenchFilesOff :: capability where
  "workbenchFilesOff = cap Unsupported ''workbench file tools are off until their workspace check is verified''"

definition linuxPlatform :: "engine \<Rightarrow> operation \<Rightarrow> feature \<Rightarrow> capability \<Rightarrow> bool \<Rightarrow> capability" where
  "linuxPlatform e op f c apiSession =
     (if e = Claude \<and> op = Session \<and> f = Loopback then cap Unknown claudeLinuxLoopbackReason
      else if \<not> apiSession then c
      else case f of
          Sandbox \<Rightarrow> cap Unknown ''Workbench.Commands proves bubblewrap 0.8.0+ without capabilities or nested user namespaces before launch or refuses the session''
        | Loopback \<Rightarrow> cap Unsupported ''each command runs in its own bubblewrap network namespace, so a server one command starts is gone before the next; a single command may still start and request its own server''
        | Background \<Rightarrow> cap Composed ''Workbench.Commands runs each contained process group at nice 10''
        | WorkspaceRead \<Rightarrow> workbenchFilesOff
        | WorkspaceWrite \<Rightarrow> workbenchFilesOff
        | _ \<Rightarrow> c)"

definition darwinPlatform :: "engine \<Rightarrow> operation \<Rightarrow> feature \<Rightarrow> capability \<Rightarrow> bool \<Rightarrow> capability" where
  "darwinPlatform e op f c apiSession =
     (if e = Claude \<and> op = Session \<and> f = Loopback then cap Unknown claudeLoopbackExposureReason
      else if apiSession \<and> (f = WorkspaceRead \<or> f = WorkspaceWrite) then workbenchFilesOff
      else c)"

definition windowsPlatform :: "engine \<Rightarrow> operation \<Rightarrow> feature \<Rightarrow> capability \<Rightarrow> bool \<Rightarrow> capability" where
  "windowsPlatform e op f c apiSession =
     (if apiSession then
        (if f \<in> {Sandbox, Loopback, Background} then apiCommandsUnavailable
         else if f = WorkspaceWrite then
           c\<lparr>cap_Reason := cap_Reason c @ ''; not directory-synced; new files inherit the directory ACL''\<rparr>
         else c)
      else if op = Session \<and> Transport e = Some CLITransport \<and> f \<in> {RestrictTools, Sandbox, Tools, Loopback, SandboxedSubagents} then
        (if e = Codex \<and> f = Loopback then
           cap Unsupported (''restricted and sandboxed hosting are unavailable on Windows; '' @ cap_Reason c)
         else cap Unsupported ''restricted and sandboxed hosting are unavailable on Windows'')
      else if f = Background then cap Unsupported ''background priority is not implemented on Windows''
      else if e = CommandCode \<and> op = Session then
        cap Unsupported ''Command Code sessions are not verified on Windows, where cmd names the system command interpreter''
      else if e = Grok \<and> op = Complete then cap Unsupported ''Grok's restricted runtime home is unavailable on Windows''
      else c)"

definition platform :: "string \<Rightarrow> engine \<Rightarrow> operation \<Rightarrow> feature \<Rightarrow> capability \<Rightarrow> capability" where
  "platform goos e op f c =
     (let apiSession = e = OpenAICompatible \<and> op = Session in
      if goos = ''linux'' then linuxPlatform e op f c apiSession
      else if goos = ''darwin'' then darwinPlatform e op f c apiSession
      else if goos = ''windows'' then windowsPlatform e op f c apiSession
      else if apiSession \<and> (f = Sandbox \<or> f = Loopback \<or> f = Background) then apiCommandsUnavailable
      else if f = WorkspaceRead \<or> f = WorkspaceWrite then
        cap Unsupported ''workspace mount checks are unavailable on this platform''
      else c)"

section \<open>Support\<close>

text \<open>The lookup after the special features, for the feature itself.\<close>

definition table_support :: "string \<Rightarrow> engine \<Rightarrow> operation \<Rightarrow> feature \<Rightarrow> capability" where
  "table_support goos e op f =
     (case map_of supportTable (e, op, f) of
        Some c \<Rightarrow> platform goos e op f c
      | None \<Rightarrow> cap Unsupported ''not offered by this engine'')"

text \<open>
  \<open>supportFor\<close>. Its recursive call is always for \<open>Available\<close>, which is none of the
  special features, and then reads the table.
\<close>

definition supportFor :: "string \<Rightarrow> engine \<Rightarrow> operation \<Rightarrow> feature \<Rightarrow> capability" where
  "supportFor goos e op f =
     (if f = SandboxEdge then sandboxEdgeSupport e op goos
      else if f = ProcessInspection then processInspectionSupport e op goos
      else if f = LoopbackPorts then loopbackPortsSupport e op goos
      else if Transport e = None then cap Unsupported ''unrecognized engine''
      else if f = LoopbackLocalOnly then loopbackLocalOnlySupport goos e op
      else if f \<noteq> Available \<and> \<not> Usable (table_support goos e op Available) then table_support goos e op Available
      else table_support goos e op f)"

section \<open>Descriptors\<close>

record descriptor =
  d_Engine :: engine
  d_Label :: string
  d_Transport :: transport
  d_Binary :: string
  d_HomeVariable :: string
  d_HomeDir :: string

definition descriptors :: "(engine \<times> descriptor) list" where
  "descriptors =
    [(Codex, \<lparr>d_Engine = Codex, d_Label = ''Codex'', d_Transport = CLITransport, d_Binary = ''codex'', d_HomeVariable = ''CODEX_HOME'', d_HomeDir = ''.codex''\<rparr>),
     (Claude, \<lparr>d_Engine = Claude, d_Label = ''Claude'', d_Transport = CLITransport, d_Binary = ''claude'', d_HomeVariable = ''CLAUDE_CONFIG_DIR'', d_HomeDir = ''.claude''\<rparr>),
     (Grok, \<lparr>d_Engine = Grok, d_Label = ''Grok'', d_Transport = CLITransport, d_Binary = ''grok'', d_HomeVariable = ''GROK_HOME'', d_HomeDir = ''.grok''\<rparr>),
     (CommandCode, \<lparr>d_Engine = CommandCode, d_Label = ''Command Code'', d_Transport = CLITransport, d_Binary = ''cmd'', d_HomeVariable = [], d_HomeDir = ''.commandcode''\<rparr>),
     (Antigravity, \<lparr>d_Engine = Antigravity, d_Label = ''Antigravity'', d_Transport = CLITransport, d_Binary = ''agy'', d_HomeVariable = [], d_HomeDir = ''.gemini''\<rparr>),
     (Fx, \<lparr>d_Engine = Fx, d_Label = ''fx'', d_Transport = CLITransport, d_Binary = ''fx'', d_HomeVariable = [], d_HomeDir = ''.fx''\<rparr>),
     (OpenAICompatible, \<lparr>d_Engine = OpenAICompatible, d_Label = ''OpenAI-compatible API'', d_Transport = APITransport, d_Binary = [], d_HomeVariable = [], d_HomeDir = []\<rparr>)]"

definition Describe :: "engine \<Rightarrow> descriptor option" where
  "Describe e = map_of descriptors e"

section \<open>Reading the table\<close>

lemmas table_defs = supportTable_def support_complete_run_def support_cli_sessions_def support_fx_models_def
  support_api_more_def
lemmas named_caps = native_cap_def unverified_cap_def claudeBrowser_cap_def codexBrowser_cap_def
  cacheVaries_cap_def background_cap_def composedSkills_cap_def noGlobalSkills_cap_def

lemma table_claude_loopback: "\<exists>c. map_of supportTable (Claude, Session, Loopback) = Some c \<and> Usable c"
  by (simp add: table_defs Usable_def)

lemma table_api_sandbox: "\<exists>c. map_of supportTable (OpenAICompatible, Session, Sandbox) = Some c \<and> Usable c"
  by (simp add: table_defs Usable_def)

lemma table_api_background: "\<exists>c. map_of supportTable (OpenAICompatible, Session, Background) = Some c \<and> Usable c"
  by (simp add: table_defs Usable_def)

text \<open>
  The table lists \<open>(Fx, Session, Background)\<close> twice, with the same value; every other key occurs once, so
  the order of the entries does not matter.
\<close>

lemma table_keys_distinct:
  "distinct (map fst (support_complete_run @ support_cli_sessions @ support_fx_models @
     filter (\<lambda>x. fst x \<noteq> (Fx, Session, Background)) support_api_more)) \<and>
   map_of support_fx_models (Fx, Session, Background) = map_of support_api_more (Fx, Session, Background)"
  by (simp add: table_defs)

lemma table_workspace:
  "list_all (\<lambda>(k, c). snd (snd k) \<in> {WorkspaceRead, WorkspaceWrite} \<longrightarrow>
     fst k = OpenAICompatible \<and> fst (snd k) = Session \<and> Usable c) supportTable"
  by (simp add: table_defs named_caps Usable_def)

lemma workspace_entry:
  assumes "map_of supportTable (e, op, f) = Some c" "f = WorkspaceRead \<or> f = WorkspaceWrite"
  shows "e = OpenAICompatible \<and> op = Session \<and> Usable c"
proof -
  have "case ((e, op, f), c) of (k, c) \<Rightarrow> snd (snd k) \<in> {WorkspaceRead, WorkspaceWrite} \<longrightarrow>
     fst k = OpenAICompatible \<and> fst (snd k) = Session \<and> Usable c"
    using table_workspace map_of_SomeD [OF assms(1)] unfolding list_all_iff by blast
  then show ?thesis using assms(2) by auto
qed

lemma table_has_workspace:
  "map_of supportTable (OpenAICompatible, Session, WorkspaceRead) \<noteq> None"
  "map_of supportTable (OpenAICompatible, Session, WorkspaceWrite) \<noteq> None"
  by (simp_all add: table_defs)

lemma table_sessions:
  "e \<in> {Codex, Claude, Antigravity, OpenAICompatible} \<Longrightarrow> \<exists>c. map_of supportTable (e, Session, Available) = Some c \<and> Usable c"
  by (auto simp: table_defs named_caps Usable_def)

section \<open>What the platform leaves\<close>

lemma Usable_cap [simp]: "Usable (cap a r) \<longleftrightarrow> a \<noteq> Unsupported \<and> a \<noteq> NoAvailability"
  by (simp add: Usable_def)

lemma Usable_reason [simp]: "Usable (c\<lparr>cap_Reason := r\<rparr>) = Usable c"
  by (simp add: Usable_def)

lemma platform_demotes:
  assumes "map_of supportTable (e, op, f) = Some c" "Usable (platform goos e op f c)"
  shows "Usable c"
proof (cases "(e, op, f) \<in> {(Claude, Session, Loopback), (OpenAICompatible, Session, Sandbox), (OpenAICompatible, Session, Background)}")
  case True
  then show ?thesis using assms(1) table_claude_loopback table_api_sandbox table_api_background by auto
next
  case False
  then show ?thesis using assms(2)
    by (auto simp: platform_def Let_def linuxPlatform_def darwinPlatform_def windowsPlatform_def
        apiCommandsUnavailable_def workbenchFilesOff_def split: if_splits feature.splits)
qed

lemma table_support_usable:
  "Usable (table_support goos e op f) \<Longrightarrow> \<exists>c. map_of supportTable (e, op, f) = Some c \<and> Usable c"
  by (auto simp: table_support_def dest: platform_demotes split: option.splits)

lemma platform_available:
  assumes "Usable c" "e \<in> {Codex, Claude, Antigravity, OpenAICompatible}"
  shows "Usable (platform goos e Session Available c)"
  using assms by (auto simp: platform_def Let_def linuxPlatform_def darwinPlatform_def windowsPlatform_def)

lemma session_available:
  "e \<in> {Codex, Claude, Antigravity, OpenAICompatible} \<Longrightarrow> Usable (table_support goos e Session Available)"
  using table_sessions [of e] platform_available by (auto simp: table_support_def)

lemma edge_usable: "Usable (sandboxEdgeSupport e op goos) \<longleftrightarrow>
    op = Session \<and> e \<in> {Codex, Claude, Antigravity} \<and> goos = ''darwin''"
  by (auto simp: sandboxEdgeSupport_def)

lemma inspection_usable: "Usable (processInspectionSupport e op goos) \<longleftrightarrow>
    op = Session \<and> e = OpenAICompatible \<and> goos = ''linux''"
  by (auto simp: processInspectionSupport_def)

lemma loopback_never: "\<not> Usable (loopbackPortsSupport e op goos)" "\<not> Usable (loopbackLocalOnlySupport goos e op)"
  by (simp_all add: loopbackPortsSupport_def loopbackLocalOnlySupport_def)

lemma supportFor_Available: "supportFor goos e op Available =
    (if Transport e = None then cap Unsupported ''unrecognized engine'' else table_support goos e op Available)"
  by (simp add: supportFor_def)

section \<open>Properties\<close>

text \<open>
  Support never promises more than the table. On every platform, whatever feature is usable, the operation
  itself is usable for a known engine; and except for the two features decided by rule
  (the sandbox edge and process inspection) the static table has a usable entry for it. The
  platform rules only take away.
\<close>

theorem support_within_table:
  assumes "Usable (supportFor goos e op f)"
  shows "Transport e \<noteq> None \<and> Usable (supportFor goos e op Available) \<and>
    (f \<in> {SandboxEdge, ProcessInspection} \<or> (\<exists>c. map_of supportTable (e, op, f) = Some c \<and> Usable c))"
proof (cases "f \<in> {SandboxEdge, ProcessInspection, LoopbackPorts, LoopbackLocalOnly}")
  case True
  with assms have s: "op = Session" "e \<in> {Codex, Claude, Antigravity, OpenAICompatible}" "f \<in> {SandboxEdge, ProcessInspection}"
    by (auto simp: supportFor_def edge_usable inspection_usable loopback_never split: if_splits)
  then show ?thesis using session_available [of e goos] by (auto simp: supportFor_Available)
next
  case False
  with assms have "Transport e \<noteq> None" "Usable (table_support goos e op f)" "f = Available \<or> Usable (table_support goos e op Available)"
    by (auto simp: supportFor_def split: if_splits)
  then show ?thesis using table_support_usable [of goos e op f] by (auto simp: supportFor_Available)
qed

theorem support_within_table_witness:
  "Usable (supportFor ''darwin'' Claude Session Loopback) \<and> Usable (supportFor ''darwin'' Claude Session Available)"
proof -
  have "Usable (supportFor ''darwin'' Claude Session Loopback)"
    using session_available [of Claude "''darwin''"] table_claude_loopback
    by (auto simp: supportFor_def table_support_def platform_def darwinPlatform_def)
  then show ?thesis using support_within_table [of "''darwin''" Claude Session Loopback] by blast
qed

text \<open>
  The exact reach of the confinement features. Selected-port and local-only loopback are usable nowhere; the sandbox edge exactly for
  Codex, Claude and Antigravity sessions on macOS; process inspection exactly for API sessions on
  Linux; the library's workspace tools exactly for API sessions on Windows; and on
  Windows no CLI session has restricted tools, a sandbox, hosted tools, loopback,
  sandboxed subagents or background priority.
\<close>

theorem support_confinement:
  "\<not> Usable (supportFor goos e op LoopbackPorts) \<and> \<not> Usable (supportFor goos e op LoopbackLocalOnly) \<and>
   (Usable (supportFor goos e op SandboxEdge) \<longleftrightarrow> goos = ''darwin'' \<and> op = Session \<and> e \<in> {Codex, Claude, Antigravity}) \<and>
   (Usable (supportFor goos e op ProcessInspection) \<longleftrightarrow> goos = ''linux'' \<and> op = Session \<and> e = OpenAICompatible) \<and>
   (Usable (supportFor goos e op WorkspaceRead) \<longleftrightarrow> goos = ''windows'' \<and> op = Session \<and> e = OpenAICompatible) \<and>
   (Usable (supportFor goos e op WorkspaceWrite) \<longleftrightarrow> goos = ''windows'' \<and> op = Session \<and> e = OpenAICompatible) \<and>
   (Usable (supportFor ''windows'' e Session f) \<and> f \<in> {RestrictTools, Sandbox, Tools, Loopback, SandboxedSubagents, Background}
      \<longrightarrow> Transport e \<noteq> Some CLITransport)"
proof (intro conjI)
  have w: "Usable (table_support goos e op f) \<longleftrightarrow> goos = ''windows'' \<and> op = Session \<and> e = OpenAICompatible"
    if f: "f = WorkspaceRead \<or> f = WorkspaceWrite" for f
  proof (cases "e = OpenAICompatible \<and> op = Session")
    case True
    obtain c where c: "map_of supportTable (e, op, f) = Some c" using f True table_has_workspace by auto
    then have "Usable c" using workspace_entry f by simp
    then show ?thesis using True c f
      by (auto simp: table_support_def platform_def linuxPlatform_def darwinPlatform_def windowsPlatform_def workbenchFilesOff_def)
  next
    case False
    then have "map_of supportTable (e, op, f) = None" using f workspace_entry by (cases "map_of supportTable (e, op, f)") auto
    then show ?thesis using False by (auto simp: table_support_def)
  qed
  show "Usable (supportFor goos e op WorkspaceRead) \<longleftrightarrow> goos = ''windows'' \<and> op = Session \<and> e = OpenAICompatible"
    "Usable (supportFor goos e op WorkspaceWrite) \<longleftrightarrow> goos = ''windows'' \<and> op = Session \<and> e = OpenAICompatible"
    using w session_available [of OpenAICompatible "''windows''"] by (auto simp: supportFor_def)
  show "Usable (supportFor ''windows'' e Session f) \<and> f \<in> {RestrictTools, Sandbox, Tools, Loopback, SandboxedSubagents, Background}
      \<longrightarrow> Transport e \<noteq> Some CLITransport"
    by (cases e) (auto simp: supportFor_def table_support_def platform_def windowsPlatform_def split: option.splits if_splits)
qed (auto simp: supportFor_def loopback_never edge_usable inspection_usable)

theorem support_confinement_witness:
  "\<not> Usable (supportFor ''windows'' Claude Session Sandbox) \<and> Usable (supportFor ''windows'' OpenAICompatible Session WorkspaceWrite)"
  using support_confinement [of "''windows''" Claude Session Sandbox] support_confinement [of "''windows''" OpenAICompatible Session Sandbox]
  by simp

text \<open>
  Descriptors. Exactly the engines the library lists have a descriptor; it names that engine and its transport;
  a CLI engine has a binary and a home, an API engine has neither, and no two engines share a binary.
\<close>

theorem describe_consistent:
  "(Describe e \<noteq> None \<longleftrightarrow> e \<in> set Engines) \<and> (e \<in> set Engines \<longleftrightarrow> Transport e \<noteq> None) \<and>
   (\<forall>d. Describe e = Some d \<longrightarrow> d_Engine d = e \<and> Some (d_Transport d) = Transport e \<and>
      (d_Transport d = CLITransport \<longleftrightarrow> d_Binary d \<noteq> []) \<and> (d_Transport d = CLITransport \<longleftrightarrow> d_HomeDir d \<noteq> [])) \<and>
   distinct (map (d_Binary \<circ> snd) descriptors)"
  by (cases e) (simp_all add: Describe_def descriptors_def Engines_def)

theorem describe_consistent_witness:
  "\<exists>d. Describe Fx = Some d \<and> d_Engine d = Fx \<and> d_Binary d \<noteq> []"
proof -
  obtain d where "Describe Fx = Some d" by (simp add: Describe_def descriptors_def)
  then show ?thesis using describe_consistent [of Fx] by auto
qed

end
