(* ===== verification/Failures.thy ===== *)
theory Failures
  imports Vocabulary Json_Schema
begin

text \<open>
  How failures are classified: the shared vocabulary (facts.go), HTTP failures
  (internal/apihttp/apihttp.go), completion's request errors (completion/errors.go), what Claude
  says about a refused request (internal/claudeproto/claudeproto.go) and the
  session's typed errors (session/errors.go, session/facts.go). JSON is modelled from decoded
  values, times in nanoseconds; a duration is Go's 64-bit one.
\<close>

section \<open>The shared vocabulary\<close>

datatype family = FailureCapability | FailurePreflight | FailureProcess | FailureRequest | FailureTurn

datatype cause = CauseOverloaded | CauseRateLimited | CauseUnavailable | CauseAuthentication | CauseContextLimit
  | CauseModelUnavailable | CauseStructuredOutputLimit | CausePermissionDenied | CauseTimeout | CauseQuotaExhausted
  | CauseOutputTruncated | CauseContentFiltered | CauseUnknown | NoCause

record facts =
  f_Engine :: "engine option"
  f_Operation :: operation
  f_Family :: family
  f_Cause :: cause
  f_Phase :: string
  f_ProofStep :: string
  f_Code :: string
  f_ExitCode :: "int option"
  f_RetryAfter :: int64
  f_ResetsAt :: "int option"
  f_Retryable :: bool

section \<open>HTTP failures\<close>

record api_failure =
  af_Cause :: cause
  af_Phase :: string
  af_Code :: string
  af_RetryAfter :: int64

definition Retryable :: "api_failure \<Rightarrow> bool" where
  "Retryable f \<longleftrightarrow> af_Cause f = CauseOverloaded \<or> af_Cause f = CauseRateLimited \<or> af_Cause f = CauseUnavailable"

definition ResponseFailure :: "string \<Rightarrow> api_failure" where
  "ResponseFailure code =
     \<lparr>af_Cause = (if code = ''output_truncated'' then CauseOutputTruncated
                  else if code = ''content_filtered'' \<or> code = ''model_refusal'' then CauseContentFiltered
                  else CauseUnknown),
      af_Phase = ''response'', af_Code = code, af_RetryAfter = 0\<rparr>"

text \<open>What a context and the errors it carries look like to \<open>errors.Is\<close>.\<close>

datatype go_error = Canceled | DeadlineExceeded | OtherError

text \<open>\<open>Interrupted\<close>: \<open>None\<close> is \<open>context.Canceled\<close> itself. The context's own error comes first.\<close>

definition Interrupted :: "go_error option \<Rightarrow> string \<Rightarrow> go_error \<Rightarrow> api_failure option" where
  "Interrupted ctx_err phase err =
     (let err = (case ctx_err of Some e \<Rightarrow> e | None \<Rightarrow> err) in
      case err of
        Canceled \<Rightarrow> None
      | DeadlineExceeded \<Rightarrow> Some \<lparr>af_Cause = CauseTimeout, af_Phase = phase, af_Code = ''deadline_exceeded'', af_RetryAfter = 0\<rparr>
      | OtherError \<Rightarrow> Some \<lparr>af_Cause = CauseUnknown, af_Phase = phase, af_Code = ''transport_failed'', af_RetryAfter = 0\<rparr>)"

text \<open>
  \<open>Credential\<close>: the source's answer is a token or an error, and the context may have ended
  meanwhile. \<open>Inl None\<close> is \<open>context.Canceled\<close>.
\<close>

definition token_byte :: "char \<Rightarrow> bool" where
  "token_byte c \<longleftrightarrow> 0x20 < byte c \<and> byte c \<le> 0x7E"

definition Credential :: "bool \<Rightarrow> go_error option \<Rightarrow> string option \<Rightarrow> api_failure option + string" where
  "Credential unauthenticated ctx_err source =
     (if unauthenticated then Inr []
      else case ctx_err of
        Some e \<Rightarrow> Inl (Interrupted ctx_err ''preflight'' e)
      | None \<Rightarrow>
         (case source of
            None \<Rightarrow> Inl (Some \<lparr>af_Cause = CauseAuthentication, af_Phase = ''preflight'', af_Code = ''credential_unavailable'', af_RetryAfter = 0\<rparr>)
          | Some token \<Rightarrow>
              if token = [] \<or> \<not> list_all token_byte token then
                Inl (Some \<lparr>af_Cause = CauseAuthentication, af_Phase = ''preflight'', af_Code = ''invalid_credential'', af_RetryAfter = 0\<rparr>)
              else Inr token))"

definition StatusCause :: "nat \<Rightarrow> cause" where
  "StatusCause status =
     (if status = 401 then CauseAuthentication
      else if status = 403 then CausePermissionDenied
      else if status = 413 then CauseContextLimit
      else if status = 429 then CauseRateLimited
      else if status = 503 then CauseUnavailable
      else if status = 529 then CauseOverloaded
      else CauseUnknown)"

definition statusFailure :: "nat \<Rightarrow> string \<Rightarrow> api_failure" where
  "statusFailure status code =
     (let failure = (ResponseFailure (''http_'' @ strconv_Itoa status))\<lparr>af_Cause := StatusCause status\<rparr> in
      if status = 402 then failure\<lparr>af_Cause := CauseQuotaExhausted, af_Code := ''insufficient_credits''\<rparr>
      else if status = 404 \<and> code = ''model_not_found'' then failure\<lparr>af_Cause := CauseModelUnavailable, af_Code := code\<rparr>
      else if status = 400 \<and> code = ''context_length_exceeded'' then failure\<lparr>af_Cause := CauseContextLimit, af_Code := code\<rparr>
      else if status = 429 \<and> code = ''insufficient_quota'' then failure\<lparr>af_Cause := CauseQuotaExhausted, af_Code := code\<rparr>
      else failure)"

text \<open>
  A struct field as \<open>json.Unmarshal\<close> fills it: the last member whose name matches without
  regard to case. \<open>None\<close>: the value is no object. A null object leaves the fields empty.
\<close>

definition json_field :: "string \<Rightarrow> json \<Rightarrow> json option option" where
  "json_field name j =
     (case j of
        JObj kvs \<Rightarrow> Some (map_of (rev (map (\<lambda>(k, v). (map lower_byte k, v)) kvs)) name)
      | JNull \<Rightarrow> Some None
      | _ \<Rightarrow> None)"

definition allowlisted :: "string \<Rightarrow> bool" where
  "allowlisted v \<longleftrightarrow> v = ''model_not_found'' \<or> v = ''context_length_exceeded'' \<or> v = ''insufficient_quota''"

text \<open>A field of type string: a JSON string, or null, which leaves it empty; an absent raw value does not decode.\<close>

definition code_of :: "json option \<Rightarrow> string option" where
  "code_of raw = (case raw of Some (JStr v) \<Rightarrow> if allowlisted v then Some v else None | _ \<Rightarrow> None)"

definition allowlistedCode :: "json option \<Rightarrow> string" where
  "allowlistedCode errorObject =
     (case errorObject of
        None \<Rightarrow> []
      | Some j \<Rightarrow>
         (case (json_field ''code'' j, json_field ''type'' j) of
            (Some c, Some t) \<Rightarrow>
              (case code_of c of Some v \<Rightarrow> v
               | None \<Rightarrow> (case code_of t of Some v \<Rightarrow> v | None \<Rightarrow> []))
          | _ \<Rightarrow> []))"

definition digit_value :: "string \<Rightarrow> int" where
  "digit_value s = foldl (\<lambda>a c. 10 * a + (int (byte c) - 48)) 0 s"

definition all_digits :: "string \<Rightarrow> bool" where
  "all_digits s \<longleftrightarrow> list_all (\<lambda>c. ascii_digit (byte c)) s"

definition embeddedStatus :: "json option \<Rightarrow> nat option" where
  "embeddedStatus errorObject =
     (case errorObject of
        None \<Rightarrow> None
      | Some j \<Rightarrow>
         (case json_field ''code'' j of
            Some (Some (JNum digits)) \<Rightarrow>
              if length digits \<noteq> 3 \<or> \<not> all_digits digits then None
              else (let status = digit_value digits in if status < 400 \<or> status > 599 then None else Some (nat status))
          | _ \<Rightarrow> None))"

definition EmbeddedFailure :: "json option \<Rightarrow> bool \<Rightarrow> api_failure" where
  "EmbeddedFailure errorObject numericStatus =
     (let failure = ResponseFailure ''provider_error''; code = allowlistedCode errorObject;
          classified =
            (if code = ''model_not_found'' then failure\<lparr>af_Cause := CauseModelUnavailable, af_Code := code\<rparr>
             else if code = ''context_length_exceeded'' then failure\<lparr>af_Cause := CauseContextLimit, af_Code := code\<rparr>
             else if code = ''insufficient_quota'' then failure\<lparr>af_Cause := CauseQuotaExhausted, af_Code := code\<rparr>
             else failure)
      in if code = [] \<and> numericStatus then
           (case embeddedStatus errorObject of Some status \<Rightarrow> statusFailure status [] | None \<Rightarrow> classified)
         else classified)"

text \<open>\<open>errorCode\<close>: the body's error member; \<open>None\<close> where the body could not be read or decoded.\<close>

definition errorCode :: "json option \<Rightarrow> string" where
  "errorCode body =
     (case body of None \<Rightarrow> []
      | Some j \<Rightarrow> (case json_field ''error'' j of Some e \<Rightarrow> allowlistedCode e | None \<Rightarrow> []))"

text \<open>\<open>strconv.Atoi\<close>: an optional sign and decimal digits, within the 64-bit range.\<close>

definition strconv_Atoi :: "string \<Rightarrow> int option" where
  "strconv_Atoi s =
     (let neg = (s \<noteq> [] \<and> hd s = CHR ''-'');
          digits = (if s \<noteq> [] \<and> (hd s = CHR ''-'' \<or> hd s = CHR ''+'') then tl s else s)
      in if digits = [] \<or> \<not> all_digits digits then None
         else let v = (if neg then - digit_value digits else digit_value digits) in
           if v < - (2 ^ 63) \<or> v \<ge> 2 ^ 63 then None else Some v)"

definition retryAfterLimit :: int64 where
  "retryAfterLimit = 3600 * 1000000000"

text \<open>\<open>time.Duration(seconds) * time.Second\<close> multiplies 64-bit integers.\<close>

definition retryAfter :: "string \<Rightarrow> int64" where
  "retryAfter value =
     (case strconv_Atoi (strings_TrimSpace value) of
        None \<Rightarrow> 0
      | Some seconds \<Rightarrow>
          if seconds \<le> 0 then 0
          else (let delay = word_of_int seconds * 1000000000 in
            if sint delay > sint retryAfterLimit then 0 else delay))"

definition StatusFailure :: "nat \<Rightarrow> json option \<Rightarrow> string \<Rightarrow> api_failure" where
  "StatusFailure status body retry_header =
     (if status \<ge> 300 \<and> status < 400 then ResponseFailure ''redirect_refused''
      else (let failure = statusFailure status (errorCode body) in
        if Retryable failure then failure\<lparr>af_RetryAfter := retryAfter retry_header\<rparr> else failure))"

definition Echoes :: "string \<Rightarrow> string \<Rightarrow> bool" where
  "Echoes t token \<longleftrightarrow> token \<noteq> [] \<and> strings_Contains t token"

section \<open>What Claude says about a refused request\<close>

definition ErrorCode :: "string \<Rightarrow> string" where
  "ErrorCode code =
     (if code \<in> set [''authentication_failed'', ''oauth_org_not_allowed'', ''account_on_hold'', ''verification_required'',
        ''billing_error'', ''rate_limit'', ''overloaded'', ''invalid_request'', ''model_not_found'',
        ''server_error'', ''unknown'', ''max_output_tokens'', ''cloud_credential_error''] then code else [])"

definition ResultSubtype :: "string \<Rightarrow> string" where
  "ResultSubtype subtype =
     (if subtype \<in> set [''error_during_execution'', ''error_max_turns'', ''error_max_budget_usd'',
        ''error_max_structured_output_retries''] then subtype else [])"

definition causeOf :: "string \<Rightarrow> cause \<times> bool" where
  "causeOf code =
     (if code = ''rate_limit'' then (CauseRateLimited, True)
      else if code = ''overloaded'' then (CauseOverloaded, True)
      else if code = ''server_error'' then (CauseUnavailable, True)
      else if code = ''authentication_failed'' \<or> code = ''cloud_credential_error'' then (CauseAuthentication, False)
      else if code = ''oauth_org_not_allowed'' \<or> code = ''account_on_hold'' \<or> code = ''verification_required'' then (CausePermissionDenied, False)
      else if code = ''model_not_found'' then (CauseModelUnavailable, False)
      else if code = ''billing_error'' then (CauseQuotaExhausted, False)
      else if code = ''max_output_tokens'' then (CauseOutputTruncated, False)
      else (CauseUnknown, False))"

record rate_limit =
  rl_Rejected :: bool
  rl_ResetsAt :: "int option"

definition no_limit :: rate_limit where
  "no_limit = \<lparr>rl_Rejected = False, rl_ResetsAt = None\<rparr>"

text \<open>Seconds since the epoch; \<open>now\<close> is too, which is all the comparison needs.\<close>

definition resetHorizon :: int where
  "resetHorizon = 35 * 24 * 3600"

definition Reset :: "int \<Rightarrow> int \<Rightarrow> int option" where
  "Reset unix now = (if unix < now - 60 \<or> unix > now + resetHorizon then None else Some unix)"

text \<open>The decoded \<open>rate_limit_info\<close>: its status and stated reset.\<close>

definition rejection :: "(string \<times> int option) option \<Rightarrow> int \<Rightarrow> rate_limit option" where
  "rejection info now =
     (case info of
        None \<Rightarrow> None
      | Some (status, resets) \<Rightarrow>
          if status = ''allowed'' \<or> status = ''allowed_warning'' then Some no_limit
          else if status \<noteq> ''rejected'' then None
          else Some \<lparr>rl_Rejected = True, rl_ResetsAt = (case resets of None \<Rightarrow> None | Some u \<Rightarrow> Reset u now)\<rparr>)"

record refusal =
  ref_code :: string
  ref_limit :: rate_limit

definition no_refusal :: refusal where
  "no_refusal = \<lparr>ref_code = [], ref_limit = no_limit\<rparr>"

definition Assistant :: "refusal \<Rightarrow> string \<Rightarrow> refusal" where
  "Assistant r errorField = r\<lparr>ref_code := ErrorCode errorField\<rparr>"

definition RateLimit :: "refusal \<Rightarrow> (string \<times> int option) option \<Rightarrow> int \<Rightarrow> refusal \<times> bool" where
  "RateLimit r info now =
     (case rejection info now of Some limit \<Rightarrow> (r\<lparr>ref_limit := limit\<rparr>, True) | None \<Rightarrow> (r, False))"

definition Refusal_Cause :: "refusal \<Rightarrow> cause \<times> int option \<times> bool" where
  "Refusal_Cause r =
     (if ref_code r = [] then (NoCause, None, False)
      else if rl_Rejected (ref_limit r) \<and> ref_code r = ''rate_limit'' then (CauseQuotaExhausted, rl_ResetsAt (ref_limit r), False)
      else (case causeOf (ref_code r) of (cause, transient) \<Rightarrow> (cause, None, transient)))"

text \<open>The frames of a stream as the refusal sees them.\<close>

datatype refusal_frame = AssistantFrame string | RateLimitFrame "(string \<times> int option) option" int

fun follow :: "refusal \<Rightarrow> refusal_frame list \<Rightarrow> refusal" where
  "follow r [] = r"
| "follow r (AssistantFrame e # fs) = follow (Assistant r e) fs"
| "follow r (RateLimitFrame info now # fs) = follow (fst (RateLimit r info now)) fs"

section \<open>Request errors\<close>

record request_error =
  re_Cause :: cause
  re_RetryAfter :: int64
  re_Engine :: "engine option"
  re_Phase :: string
  re_Code :: string
  re_ExitCode :: "int option"
  re_ResetsAt :: "int option"

definition RequestError_Retryable :: "request_error \<Rightarrow> bool" where
  "RequestError_Retryable e \<longleftrightarrow> re_Cause e = CauseOverloaded \<or> re_Cause e = CauseRateLimited \<or> re_Cause e = CauseUnavailable"

definition capabilityCode :: "string \<Rightarrow> bool" where
  "capabilityCode code \<longleftrightarrow> code \<in> set
     [''unsupported_engine'', ''unexpected_native_tool'', ''unexpected_native_tool_catalog'', ''unexpected_native_tool_call'', ''unexpected_native_instructions'', ''missing_native_tool_catalog'', ''missing_native_transcript'', ''grok_platform_unsupported'', ''probe_missing_tool_catalog'', ''probe_transcript_unverified'', ''probe_mismatch'', ''probe_invalid_request'', ''probe_unexpected_tools'', ''probe_invalid_schema'', ''probe_changed_schema'', ''probe_changed_effort'', ''probe_instruction_type'', ''probe_unexpected_instructions'', ''probe_missing_instructions'', ''probe_changed_model'', ''missing_effort_catalog'', ''unsupported_effort'', ''default_effort_unlisted'', ''api_dialect_unsupported'', ''api_effort_parameter_unsupported'', ''global_skills_unsupported'', ''skills_unsupported'', ''max_output_tokens_unsupported'', ''probe_changed_max_output_tokens'']"

definition RequestError_family :: "request_error \<Rightarrow> family" where
  "RequestError_family e =
     (if capabilityCode (re_Code e) \<and> re_Phase e = ''preflight'' then FailureCapability
      else if re_Phase e = ''preflight'' then FailurePreflight
      else if re_Phase e = ''process'' then FailureProcess
      else FailureRequest)"

definition RequestError_facts :: "request_error \<Rightarrow> facts" where
  "RequestError_facts e =
     \<lparr>f_Engine = re_Engine e, f_Operation = Complete, f_Family = RequestError_family e, f_Cause = re_Cause e,
      f_Phase = re_Phase e, f_ProofStep = [], f_Code = re_Code e, f_ExitCode = re_ExitCode e,
      f_RetryAfter = re_RetryAfter e, f_ResetsAt = re_ResetsAt e, f_Retryable = RequestError_Retryable e\<rparr>"

text \<open>
  \<open>processRequestFailure\<close>: what the process run reported, and the terminal failure the engine's own
  reader found in its output (\<open>claudeFailure\<close> or \<open>codexRequestFailure\<close>, given here as its result).
\<close>

datatype process_outcome = ProcCanceled | ProcDeadline | ProcOutputLimit | ProcStartFailed request_error
  | ProcExit int | ProcOther

definition processRequestFailure :: "engine \<Rightarrow> request_error option \<Rightarrow> process_outcome \<Rightarrow> request_error option" where
  "processRequestFailure e terminal outcome =
     (let failure = \<lparr>re_Cause = CauseUnknown, re_RetryAfter = 0, re_Engine = Some e, re_Phase = ''process'', re_Code = [],
            re_ExitCode = None, re_ResetsAt = None\<rparr>
      in case outcome of
           ProcCanceled \<Rightarrow> None
         | ProcDeadline \<Rightarrow> Some (failure\<lparr>re_Cause := CauseTimeout, re_Code := ''deadline_exceeded''\<rparr>)
         | ProcOutputLimit \<Rightarrow> Some (failure\<lparr>re_Code := ''output_limit''\<rparr>)
         | ProcStartFailed start \<Rightarrow> Some start
         | ProcExit code \<Rightarrow>
             Some ((if code > 0 then (case terminal of Some t \<Rightarrow> t | None \<Rightarrow> failure) else failure)\<lparr>re_ExitCode := Some code\<rparr>)
         | ProcOther \<Rightarrow> Some failure)"

section \<open>Session errors\<close>

definition engine_name :: "engine \<Rightarrow> string" where
  "engine_name e = (case e of Codex \<Rightarrow> ''codex'' | Claude \<Rightarrow> ''claude'' | Grok \<Rightarrow> ''grok''
     | CommandCode \<Rightarrow> ''command-code'' | Antigravity \<Rightarrow> ''antigravity'' | Fx \<Rightarrow> ''fx''
     | OpenAICompatible \<Rightarrow> ''openai-compatible'' | OtherEngine n \<Rightarrow> n)"

definition refusalFamily :: "string \<Rightarrow> family" where
  "refusalFamily code =
     (if code \<in> set [''edge_unavailable'', ''edge_conflict'', ''unsupported_engine'', ''policy_for_other_engine'', ''env_managed'', ''conflicting_options'', ''model_required'', ''model_without_tool_calling'', ''sandbox_tool_unsupported'', ''not_native'', ''method_unavailable'', ''not_offered'', ''loopback_local_only_unenforceable'', ''loopback_ports_unenforceable'', ''process_inspection_unenforceable'']
      then FailureCapability else FailurePreflight)"

record capability_error =
  ce_ProofStep :: string
  ce_Engine :: engine
  ce_Code :: string
  ce_Phase :: string
  ce_Tools :: "string list"
  ce_Reason :: string

definition capabilityMessages :: "(string \<times> string) list" where
  "capabilityMessages =
    [(''edge_provider_path'', ''the installed CLI did not complete inference through the restricted provider proxy''),
     (''edge_egress_not_refused'', ''the edge did not prove refusal of direct off-machine traffic''),
     (''edge_dns_not_refused'', ''the edge did not prove refusal of native DNS access''),
     (''edge_confinement_failed'', ''the edge did not prove its file and execution policy''),
     (''edge_proxy_failed'', ''the session provider proxy failed; direct egress remains denied''),
     (''edge_login_refresh_blocked'', ''Codex token refresh was blocked to protect the owner login; refresh the selected native login outside the edge and resume''),
     (''edge_control_unavailable'', ''the unsandboxed network or DNS proof control is unavailable; restore connectivity and retry verification''),
     (''sandbox_tool_missing'', ''the required OS sandbox tool is missing; install a supported runtime''),
     (''restricted_session_unsupported_platform'', ''restricted worker sessions are not available on this platform''),
     (''native_tools_present'', ''the installed harness kept tools this session did not configure''),
     (''hosted_tools_missing'', ''the installed harness did not offer the tools this session configured''),
     (''inherited_instructions_merged'', ''the installed harness merged inherited instructions into its request''),
     (''changed_model'', ''the installed harness requested a different model''),
     (''changed_effort'', ''the installed harness requested a different reasoning effort''),
     (''changed_permission_mode'', ''the installed harness did not accept the permission mode this session requires''),
     (''probe_made_no_request'', ''the installed harness made no request during the capability check''),
     (''probe_request_unreadable'', ''the capability check could not read the harness's request''),
     (''probe_timed_out'', ''the capability check did not finish in time''),
     (''probe_could_not_run'', ''the capability check could not be run''),
     (''model_catalog_unavailable'', ''the installed harness did not supply a model catalog to restrict''),
     (''model_catalog_restriction_failed'', ''the selected model could not be restricted in the installed harness catalog''),
     (''tool_server_not_loaded'', ''the installed harness did not load this session's tool server''),
     (''tool_server_name_reserved'', ''the installed harness reserves this tool server name; choose another''),
     (''harness_login_unavailable'', ''the selected harness home has no file-backed login to share with a restricted session; log in to that home first''),
     (''browser_bridge_unavailable'', ''the browser bridge home (BrowserBridgeHome, or the CLI home) has no usable ChatGPT node_repl bridge; configure the ChatGPT app browser bridge and Chrome extension, then restart the CLI''),
     (''browser_sandbox_unproven'', ''the node_repl JavaScript confinement proof could not complete; update Codex and the ChatGPT app, or leave Browser unset''),
     (''browser_sandbox_not_enforced'', ''node_repl JavaScript escaped the session sandbox; update Codex and the ChatGPT app, or leave Browser unset''),
     (''sandbox_unavailable'', ''the installed harness could not be run under the requested sandbox''),
     (''process_inspection_unavailable'', ''the command's own process metadata could not be proved; process inspection is unavailable''),
     (''loopback_interface_claim_changed'', ''Seatbelt interface bind observations no longer match the all-interface Loopback claim; re-audit the installed runtime''),
     (''sandbox_not_enforced'', ''the installed harness's sandbox allowed writes or network access the session must not have'')]"

definition bwrapMessages :: "(string \<times> string) list" where
  "bwrapMessages =
    [(''sandbox_tool_missing'', ''bubblewrap is required; install it with apt install bubblewrap, dnf install bubblewrap or pacman -S bubblewrap''),
     (''sandbox_tool_outdated'', ''bubblewrap 0.8.0 or later is required for --disable-userns; install the distribution's package or a newer build''),
     (''sandbox_namespaces_unavailable'', ''bubblewrap cannot create unprivileged user namespaces; check kernel.unprivileged_userns_clone, user.max_user_namespaces and Ubuntu 24.04+'s kernel.apparmor_restrict_unprivileged_userns and AppArmor profile for bwrap'')]"

definition bridgePhrases :: "(string \<times> string) list" where
  "bridgePhrases =
    [(''bridge_home_unavailable'', ''home unavailable''),
     (''bridge_not_declared'', ''bridge not declared''),
     (''bridge_declaration_unsupported'', ''unsupported declaration''),
     (''bridge_installation_missing'', ''installation missing''),
     (''bridge_in_workspace'', ''installation overlaps workspace'')]"

definition capabilityProofStep :: "string \<Rightarrow> string" where
  "capabilityProofStep step =
     (if step \<in> set [''process_inspection'', ''fixture_preparation'', ''outside_control'', ''sandbox_launch'', ''execution_judgment'']
      then step else [])"

definition capabilityMessage :: "capability_error \<Rightarrow> string" where
  "capabilityMessage e =
     (if ce_Code e = ''sandbox_not_enforced'' \<and> ce_Reason e = ''claude_linux_loopback_scope_wider_than_claimed'' then
        ''claude_linux_loopback_scope_wider_than_claimed: Claude Linux must not reach the host's localhost under the per-command contract''
      else if ce_Code e = ''sandbox_unavailable'' \<and> ce_Reason e = ''claude_linux_sandbox_requires_socat'' then
        ''claude_linux_sandbox_requires_socat: Claude Code's Linux sandbox requires socat; install it with apt install socat, dnf install socat or pacman -S socat''
      else if ce_Code e = ''sandbox_unavailable'' \<and> ce_Reason e = ''claude_linux_in_command_loopback_failed'' then
        ''claude_linux_in_command_loopback_failed''
      else if ce_Code e = ''browser_tools_missing'' then
        ''the installed harness did not advertise the browser tools'' @
        (case ce_Engine e of
           Codex \<Rightarrow> ''; configure the native Node REPL browser bridge in the selected CLI home, install the ChatGPT Chrome extension (https://chromewebstore.google.com/detail/chatgpt/hehggadaopoacecdllhhajmbjkdcmajg), and restart the CLI''
         | Claude \<Rightarrow> ''; enable Claude in Chrome, install its Chrome extension (https://chromewebstore.google.com/detail/claude/fcoeoabgfenejglbffodgkkbkcdhcgfn), and restart the CLI''
         | _ \<Rightarrow> [])
      else if ce_Code e = ''sandbox_not_enforced'' \<and> ce_ProofStep e = ''process_inspection'' then
        ''process inspection could see processes outside the command's own tree''
      else if ce_Code e = ''sandbox_not_enforced'' \<and> capabilityProofStep (ce_ProofStep e) \<noteq> [] then
        ''the installed harness's sandbox allowed reads, execution, writes or network access the session must not have''
      else case (if ce_Tools e = [''bwrap''] then map_of bwrapMessages (ce_Code e) else None) of
        Some message \<Rightarrow> message
      | None \<Rightarrow>
         (case map_of capabilityMessages (ce_Code e) of
            None \<Rightarrow> ''the restricted session configuration could not be established''
          | Some message \<Rightarrow>
             (case map_of bridgePhrases (ce_Reason e) of
                Some phrase \<Rightarrow>
                  if ce_Code e = ''browser_bridge_unavailable'' then message @ '' ('' @ phrase @ '')'' else message
              | None \<Rightarrow> message)))"

definition CapabilityError_Error :: "capability_error \<Rightarrow> string" where
  "CapabilityError_Error e =
     (let step = capabilityProofStep (ce_ProofStep e);
          out = engine_name (ce_Engine e) @ '': '' @ capabilityMessage e
            @ (if length (ce_Tools e) > 0 then '' ('' @ strings_Join (ce_Tools e) '', '' @ '')'' else [])
            @ (if step \<noteq> [] then ''; proof step: '' @ step else [])
      in if ce_Phase e = ''before_first_prompt'' then out @ ''; the session was closed before any prompt was sent''
         else out @ ''; no session was started'')"

definition no_facts :: facts where
  "no_facts = \<lparr>f_Engine = None, f_Operation = Session, f_Family = FailureCapability, f_Cause = NoCause, f_Phase = [],
     f_ProofStep = [], f_Code = [], f_ExitCode = None, f_RetryAfter = 0, f_ResetsAt = None, f_Retryable = False\<rparr>"

definition CapabilityError_facts :: "capability_error \<Rightarrow> facts" where
  "CapabilityError_facts e = no_facts\<lparr>f_Engine := Some (ce_Engine e), f_Family := FailureCapability, f_Phase := ce_Phase e,
     f_Code := ce_Code e, f_ProofStep := capabilityProofStep (ce_ProofStep e)\<rparr>"

record process_error =
  pe_Engine :: engine
  pe_Code :: string
  pe_ExitCode :: "int option"

definition ProcessError_facts :: "process_error \<Rightarrow> facts" where
  "ProcessError_facts e = no_facts\<lparr>f_Engine := Some (pe_Engine e), f_Family := FailureProcess, f_Code := pe_Code e,
     f_ExitCode := pe_ExitCode e\<rparr>"

record turn_error =
  te_Engine :: engine
  te_Code :: string
  te_Cause :: cause
  te_Phase :: string
  te_RetryAfter :: int64
  te_ResetsAt :: "int option"

definition TurnError_facts :: "turn_error \<Rightarrow> facts" where
  "TurnError_facts e = no_facts\<lparr>f_Engine := Some (te_Engine e), f_Family := FailureTurn, f_Cause := te_Cause e,
     f_Phase := te_Phase e, f_Code := te_Code e, f_RetryAfter := te_RetryAfter e, f_ResetsAt := te_ResetsAt e\<rparr>"

record unsupported_error =
  ue_Engine :: engine
  ue_Operation :: string
  ue_Code :: string
  ue_Capability :: capability

definition UnsupportedError_facts :: "unsupported_error \<Rightarrow> facts" where
  "UnsupportedError_facts e = no_facts\<lparr>f_Engine := Some (ue_Engine e), f_Family := refusalFamily (ue_Code e), f_Code := ue_Code e\<rparr>"

definition TurnError_Error :: "turn_error \<Rightarrow> string" where
  "TurnError_Error e = engine_name (te_Engine e) @ '' harness turn failed: '' @ te_Code e"

definition ProcessError_Error :: "process_error \<Rightarrow> string" where
  "ProcessError_Error e =
     engine_name (pe_Engine e) @ '' harness '' @
     (if pe_Code e = ''process_signalled'' then ''was terminated by a signal''
      else if pe_Code e = ''process_start_failed'' then ''could not be started''
      else ''exited'') @
     (case pe_ExitCode e of Some c \<Rightarrow> if c \<ge> 0 then '' with status '' @ strconv_Itoa (nat c) else [] | None \<Rightarrow> [])"

section \<open>Errors as the session's callers see them\<close>

text \<open>The codes of \<open>StateError\<close> (session/api_errors.go).\<close>

datatype state_code = StateUnwritable | StateMissing | StateUnusable | StateCorrupt | StateLocked

text \<open>
  The sentinels of session/errors.go, and the typed errors that wrap them. \<open>ErrContext\<close> is the caller's
  context having ended; \<open>OtherError\<close> is an error of code outside the model.
\<close>

datatype session_error = ErrUnsupported | ErrClosed | ErrBusy | ErrStaleTurn | ErrToolsUnsettled | ErrIncompatibleResume
  | ErrBackpressure | ErrProtocol | ErrRejected | ErrOutputLimit | ErrTransport | ErrTurnFailed | ErrLeaseHeld
  | ErrContext | StateError state_code | TurnFailure turn_error | UnsupportedError unsupported_error | WorkspaceStuck
  | OtherError string

definition definitiveRejection :: "session_error \<Rightarrow> bool" where
  "definitiveRejection err = (case err of ErrRejected \<Rightarrow> True | ErrUnsupported \<Rightarrow> True | UnsupportedError _ \<Rightarrow> True | _ \<Rightarrow> False)"

section \<open>Properties\<close>

lemma Retryable_update [simp]: "Retryable (f\<lparr>af_Code := c\<rparr>) = Retryable f" "Retryable (f\<lparr>af_RetryAfter := d\<rparr>) = Retryable f"
  by (simp_all add: Retryable_def)

lemma response_not_retryable: "\<not> Retryable (ResponseFailure c)"
  by (simp add: Retryable_def ResponseFailure_def)

lemma response_no_delay: "af_RetryAfter (ResponseFailure c) = 0"
  by (simp add: ResponseFailure_def)

lemma statusFailure_retryable: "Retryable (statusFailure status code) \<longleftrightarrow>
    status = 429 \<and> code \<noteq> ''insufficient_quota'' \<or> status = 503 \<or> status = 529"
  by (simp add: statusFailure_def Let_def Retryable_def StatusCause_def)

lemma statusFailure_fields: "af_Phase (statusFailure status code) = ''response''" "af_RetryAfter (statusFailure status code) = 0"
  "af_Code (statusFailure status code) \<in>
     {''http_'' @ strconv_Itoa status, ''insufficient_credits'', ''model_not_found'', ''context_length_exceeded'', ''insufficient_quota''}"
  by (auto simp: statusFailure_def Let_def ResponseFailure_def)

text \<open>
  What may be retried. A failed response is retryable exactly for status 503, 529 and a 429 that does not name an
  exhausted quota; an error object inside a successful response only where the caller said its
  numbers are statuses, it carries no known string code and its number is one of those three. A delay is
  only ever attached to a retryable failure, and the code is always one of the library's own.
\<close>

theorem retryable_exact:
  "(Retryable (StatusFailure status body header) \<longleftrightarrow>
      status = 429 \<and> errorCode body \<noteq> ''insufficient_quota'' \<or> status = 503 \<or> status = 529) \<and>
   (Retryable (EmbeddedFailure obj numeric) \<longleftrightarrow>
      numeric \<and> allowlistedCode obj = [] \<and> embeddedStatus obj \<in> {Some 429, Some 503, Some 529}) \<and>
   (Retryable (StatusFailure status body header) \<or> af_RetryAfter (StatusFailure status body header) = 0) \<and>
   af_RetryAfter (EmbeddedFailure obj numeric) = 0 \<and>
   af_Code (StatusFailure status body header) \<in> {''redirect_refused'', ''http_'' @ strconv_Itoa status, ''insufficient_credits'',
     ''model_not_found'', ''context_length_exceeded'', ''insufficient_quota''}"
proof (intro conjI)
  show "Retryable (EmbeddedFailure obj numeric) \<longleftrightarrow>
      numeric \<and> allowlistedCode obj = [] \<and> embeddedStatus obj \<in> {Some 429, Some 503, Some 529}"
    using response_not_retryable [of "''provider_error''"]
    by (auto simp: EmbeddedFailure_def Let_def statusFailure_retryable split: option.splits)
      (auto simp: Retryable_def)
  show "af_RetryAfter (EmbeddedFailure obj numeric) = 0"
    by (simp add: EmbeddedFailure_def Let_def statusFailure_fields ResponseFailure_def split: option.split)
  show "af_Code (StatusFailure status body header) \<in> {''redirect_refused'', ''http_'' @ strconv_Itoa status, ''insufficient_credits'',
     ''model_not_found'', ''context_length_exceeded'', ''insufficient_quota''}"
    using statusFailure_fields(3) [of status "errorCode body"]
    by (auto simp: StatusFailure_def Let_def ResponseFailure_def)
qed (auto simp: StatusFailure_def Let_def statusFailure_retryable statusFailure_fields response_not_retryable response_no_delay)

lemma duration_small:
  assumes "0 \<le> n" "n \<le> 9223372036"
  shows "sint (word_of_int n * 1000000000 :: int64) = n * 1000000000"
proof -
  have "(word_of_int n * 1000000000 :: int64) = word_of_int (n * 1000000000)" by simp
  also have "sint \<dots> = n * 1000000000"
    using assms by (simp only: sint_sbintrunc') (simp add: signed_take_bit_int_eq_self)
  finally show ?thesis .
qed

lemma retryAfterLimit_value: "sint retryAfterLimit = 3600000000000"
  by (simp add: retryAfterLimit_def)

text \<open>
  The retry delay, and where it overflows. A stated delay of a number of seconds whose nanoseconds fit 64
  bits is honoured exactly when it is at most an hour, and is otherwise no delay. Larger numbers wrap
  before the hour is checked: one gives a negative delay, another an invented five seconds.
\<close>

theorem retry_after_limits:
  "(\<forall>n. strconv_Atoi (strings_TrimSpace header) = Some n \<and> n \<le> 9223372036 \<longrightarrow>
      sint (retryAfter header) = (if 1 \<le> n \<and> n \<le> 3600 then n * 1000000000 else 0)) \<and>
   sint (retryAfter ''9300000000'') < 0 \<and> sint (retryAfter ''36028797018963973'') = 5 * 1000000000"
proof (intro conjI allI impI)
  fix n assume n: "strconv_Atoi (strings_TrimSpace header) = Some n \<and> n \<le> 9223372036"
  then show "sint (retryAfter header) = (if 1 \<le> n \<and> n \<le> 3600 then n * 1000000000 else 0)"
    using duration_small [of n] by (auto simp: retryAfter_def retryAfterLimit_value Let_def)
next
  have "strconv_Atoi (strings_TrimSpace ''9300000000'') = Some 9300000000"
    by (subst TrimSpace_digits) (simp_all add: ascii_digit_def strconv_Atoi_def all_digits_def digit_value_def)
  then show "sint (retryAfter ''9300000000'') < 0" by (simp add: retryAfter_def retryAfterLimit_value Let_def)
next
  have "strconv_Atoi (strings_TrimSpace ''36028797018963973'') = Some 36028797018963973"
    by (subst TrimSpace_digits) (simp_all add: ascii_digit_def strconv_Atoi_def all_digits_def digit_value_def)
  then show "sint (retryAfter ''36028797018963973'') = 5 * 1000000000"
    by (simp add: retryAfter_def retryAfterLimit_value Let_def)
qed

theorem retry_after_limits_witness:
  "sint (retryAfter ''3600'') = 3600000000000 \<and> sint (retryAfter ''3601'') = 0"
proof -
  have "strconv_Atoi (strings_TrimSpace ''3600'') = Some 3600" "strconv_Atoi (strings_TrimSpace ''3601'') = Some 3601"
    by (subst TrimSpace_digits; simp add: ascii_digit_def strconv_Atoi_def all_digits_def digit_value_def)+
  then show ?thesis using retry_after_limits [of "''3600''"] retry_after_limits [of "''3601''"] by simp
qed

text \<open>What a stream said last: the error of its last assistant frame, and its last understood limit.\<close>

fun last_error :: "refusal_frame list \<Rightarrow> string option" where
  "last_error [] = None"
| "last_error (f # fs) = (case last_error fs of Some e \<Rightarrow> Some e
     | None \<Rightarrow> (case f of AssistantFrame e \<Rightarrow> Some e | _ \<Rightarrow> None))"

fun last_limit :: "refusal_frame list \<Rightarrow> rate_limit option" where
  "last_limit [] = None"
| "last_limit (f # fs) = (case last_limit fs of Some l \<Rightarrow> Some l
     | None \<Rightarrow> (case f of RateLimitFrame i now \<Rightarrow> rejection i now | _ \<Rightarrow> None))"

lemma follow_code: "ref_code (follow r fs) = (case last_error fs of None \<Rightarrow> ref_code r | Some e \<Rightarrow> ErrorCode e)"
  by (induction r fs rule: follow.induct) (auto simp: Assistant_def RateLimit_def split: option.split)

lemma follow_limit: "ref_limit (follow r fs) = (case last_limit fs of None \<Rightarrow> ref_limit r | Some l \<Rightarrow> l)"
  by (induction r fs rule: follow.induct) (auto simp: Assistant_def RateLimit_def split: option.split)

lemma rejection_reset: "rejection info now = Some l \<Longrightarrow> rl_ResetsAt l = Some t \<Longrightarrow>
    rl_Rejected l \<and> now - 60 \<le> t \<and> t \<le> now + resetHorizon"
  by (auto simp: rejection_def Reset_def no_limit_def split: option.splits if_splits)

lemma last_limit_from: "last_limit fs = Some l \<Longrightarrow> \<exists>i now. RateLimitFrame i now \<in> set fs \<and> rejection i now = Some l"
  by (induction fs) (auto split: option.splits refusal_frame.splits)

text \<open>
  The refusal of a Claude stream. After any sequence of frames the recorded code is that of the last assistant
  frame, and only if Claude's schema defines it, so provider text never becomes a code; a response without an error
  clears it. A cause is reported exactly when a code is, it is called
  transient only for a rate limit no subscription window refused, an overload or a server error, and a reset
  time is reported only for an exhausted window, within the horizon of the event that stated it.
\<close>

theorem refusal_follows_stream:
  "let r = follow no_refusal fs in
   case Refusal_Cause r of (cause, resets, transient) \<Rightarrow>
     ref_code r = (case last_error fs of None \<Rightarrow> [] | Some e \<Rightarrow> ErrorCode e) \<and>
     (cause = NoCause \<longleftrightarrow> ref_code r = []) \<and>
     (transient \<longleftrightarrow> ref_code r \<in> {''overloaded'', ''server_error''} \<or>
        ref_code r = ''rate_limit'' \<and> \<not> (\<exists>l. last_limit fs = Some l \<and> rl_Rejected l)) \<and>
     (\<forall>t. resets = Some t \<longrightarrow> cause = CauseQuotaExhausted \<and>
        (\<exists>i now. RateLimitFrame i now \<in> set fs \<and> now - 60 \<le> t \<and> t \<le> now + resetHorizon))"
proof -
  let ?r = "follow no_refusal fs"
  have code: "ref_code ?r = (case last_error fs of None \<Rightarrow> [] | Some e \<Rightarrow> ErrorCode e)"
    by (simp add: follow_code no_refusal_def split: option.split)
  have lim: "ref_limit ?r = (case last_limit fs of None \<Rightarrow> no_limit | Some l \<Rightarrow> l)"
    by (simp add: follow_limit no_refusal_def split: option.split)
  have rej: "rl_Rejected (ref_limit ?r) \<longleftrightarrow> (\<exists>l. last_limit fs = Some l \<and> rl_Rejected l)"
    by (simp add: lim no_limit_def split: option.split)
  have reset: "\<exists>i now. RateLimitFrame i now \<in> set fs \<and> now - 60 \<le> t \<and> t \<le> now + resetHorizon"
    if "rl_ResetsAt (ref_limit ?r) = Some t" for t
    using that last_limit_from rejection_reset by (fastforce simp: lim no_limit_def split: option.splits)
  show ?thesis unfolding Let_def Refusal_Cause_def
    using code rej reset by (auto simp: causeOf_def)
qed

theorem refusal_follows_stream_witness:
  "Refusal_Cause (follow no_refusal [RateLimitFrame (Some (''rejected'', Some 100)) 90, AssistantFrame ''rate_limit''])
     = (CauseQuotaExhausted, Some 100, False) \<and>
   (\<exists>i now. RateLimitFrame i now \<in> set [RateLimitFrame (Some (''rejected'', Some 100)) 90, AssistantFrame ''rate_limit''] \<and>
      now - 60 \<le> 100 \<and> 100 \<le> now + resetHorizon)"
proof -
  let ?fs = "[RateLimitFrame (Some (''rejected'', Some 100)) 90, AssistantFrame ''rate_limit'']"
  have c: "Refusal_Cause (follow no_refusal ?fs) = (CauseQuotaExhausted, Some 100, False)"
    by (simp add: Refusal_Cause_def RateLimit_def Assistant_def rejection_def Reset_def ErrorCode_def no_refusal_def resetHorizon_def)
  show ?thesis using refusal_follows_stream [of ?fs] unfolding Let_def c by blast
qed

text \<open>
  What a capability failure says happened. Its text always ends by saying either that the session was closed
  before any prompt, exactly in the phase before the first prompt, or that no session was
  started; a failure during a session, whose turn may already have done work, thus reports that no
  session was started, and its facts put it in the family that promises no work was done.
\<close>

theorem capability_error_phase:
  "strings_HasSuffix (CapabilityError_Error e)
     (if ce_Phase e = ''before_first_prompt'' then ''; the session was closed before any prompt was sent''
      else ''; no session was started'') \<and>
   f_Family (CapabilityError_facts e) = FailureCapability \<and>
   strings_HasSuffix (CapabilityError_Error \<lparr>ce_ProofStep = [], ce_Engine = CommandCode, ce_Code = ''changed_permission_mode'',
      ce_Phase = ''during_session'', ce_Tools = [], ce_Reason = []\<rparr>) ''; no session was started''"
proof -
  have suffix: "strings_HasSuffix (xs @ ys) ys" for xs ys by (simp add: strings_HasSuffix_def)
  have text_of: "strings_HasSuffix (CapabilityError_Error e)
     (if ce_Phase e = ''before_first_prompt'' then ''; the session was closed before any prompt was sent''
      else ''; no session was started'')" for e
    by (cases "ce_Phase e = ''before_first_prompt''") (simp_all only: CapabilityError_Error_def Let_def if_True if_False simp_thms suffix)
  have "f_Family (CapabilityError_facts e) = FailureCapability" by (simp add: CapabilityError_facts_def)
  then show ?thesis
    using text_of [of e] text_of [of "\<lparr>ce_ProofStep = [], ce_Engine = CommandCode, ce_Code = ''changed_permission_mode'',
      ce_Phase = ''during_session'', ce_Tools = [], ce_Reason = []\<rparr>"] by simp
qed

end
