(* ===== verification/Net_Addr.thy ===== *)
theory Net_Addr
  imports "HOL-Library.Word"
begin

text \<open>
  IP addresses as net/netip holds them: four bytes, sixteen bytes with a zone, or the invalid zero
  value, with the predicates the library's network policies ask of them.
\<close>

section \<open>Addresses\<close>

datatype addr = V4 "32 word" | V6 "128 word" string | NoAddr

text \<open>\<open>Addr.Unmap\<close>: an IPv4-mapped address is the IPv4 address.\<close>

fun Unmap :: "addr \<Rightarrow> addr" where
  "Unmap (V6 a z) = (if drop_bit 32 a = 0xFFFF then V4 (ucast a) else V6 a z)"
| "Unmap a = a"

fun Zone :: "addr \<Rightarrow> string" where
  "Zone (V6 _ z) = z"
| "Zone _ = []"

fun IsLoopback :: "addr \<Rightarrow> bool" where
  "IsLoopback (V4 a) = (drop_bit 24 a = 127)"
| "IsLoopback (V6 a _) = (a = 1)"
| "IsLoopback NoAddr = False"

fun IsMulticast :: "addr \<Rightarrow> bool" where
  "IsMulticast (V4 a) = (drop_bit 28 a = 0xE)"
| "IsMulticast (V6 a _) = (drop_bit 120 a = 0xFF)"
| "IsMulticast NoAddr = False"

fun IsLinkLocalUnicast :: "addr \<Rightarrow> bool" where
  "IsLinkLocalUnicast (V4 a) = (drop_bit 16 a = 0xA9FE)"
| "IsLinkLocalUnicast (V6 a _) = (drop_bit 118 a = 0x3FA)"
| "IsLinkLocalUnicast NoAddr = False"

fun IsUnspecified :: "addr \<Rightarrow> bool" where
  "IsUnspecified (V4 a) = (a = 0)"
| "IsUnspecified (V6 a _) = (a = 0)"
| "IsUnspecified NoAddr = False"

fun IsPrivate :: "addr \<Rightarrow> bool" where
  "IsPrivate (V4 a) = (drop_bit 24 a = 10 \<or> drop_bit 20 a = 0xAC1 \<or> drop_bit 16 a = 0xC0A8)"
| "IsPrivate (V6 a _) = (drop_bit 121 a = 0x7E)"
| "IsPrivate NoAddr = False"

text \<open>\<open>Addr.IsGlobalUnicast\<close> counts private addresses as global, as in net/netip. The zone of an unspecified address counts.\<close>

fun IsGlobalUnicast :: "addr \<Rightarrow> bool" where
  "IsGlobalUnicast NoAddr = False"
| "IsGlobalUnicast (V4 a) = (a \<noteq> 0 \<and> a \<noteq> 0xFFFFFFFF \<and> \<not> IsLoopback (V4 a) \<and> \<not> IsMulticast (V4 a) \<and> \<not> IsLinkLocalUnicast (V4 a))"
| "IsGlobalUnicast (V6 a z) = (\<not> (a = 0 \<and> z = []) \<and> \<not> IsLoopback (V6 a z) \<and> \<not> IsMulticast (V6 a z) \<and> \<not> IsLinkLocalUnicast (V6 a z))"

end
