(* ===== verification/Edge_Proxy.thy ===== *)
theory Edge_Proxy
  imports Net_Addr Go_Strings "HOL-Library.AList"
begin

text \<open>
  The credentialed CONNECT proxy of the sandbox edge (internal/edgeproxy/proxy.go): host names and
  destinations, the policy of a listener, the decision about one request, and the listener's
  refusal and failure latches. Name resolution, dialling and base64 are arguments.
\<close>

section \<open>Addresses\<close>

text \<open>The ranges of \<open>specialAddress\<close>; a prefix contains no address with a zone.\<close>

fun specialAddress :: "addr \<Rightarrow> bool" where
  "specialAddress (V4 a) = (drop_bit 24 a = 0 \<or> drop_bit 22 a = 0x191 \<or> drop_bit 8 a = 0xC00000
     \<or> drop_bit 17 a = 0x6309 \<or> drop_bit 28 a = 0xF)"
| "specialAddress (V6 a z) = (z = [] \<and> (drop_bit 96 a = 0x20010DB8 \<or> drop_bit 96 a = 0x20010000 \<or> drop_bit 112 a = 0x2002))"
| "specialAddress NoAddr = False"

definition address_refused :: "bool \<Rightarrow> addr \<Rightarrow> bool" where
  "address_refused private ip0 =
     (let ip = Unmap ip0 in
      ip = NoAddr \<or> Zone ip \<noteq> [] \<or> \<not> IsGlobalUnicast ip \<or> IsLoopback ip \<or> IsLinkLocalUnicast ip \<or>
      (\<not> private \<and> (IsPrivate ip \<or> specialAddress ip)))"

section \<open>Host names and ports\<close>

definition octet :: "string \<Rightarrow> bool" where
  "octet s \<longleftrightarrow> s \<noteq> [] \<and> length s \<le> 3 \<and> list_all (\<lambda>c. ascii_digit (byte c)) s \<and>
     (length s = 1 \<or> hd s \<noteq> CHR ''0'') \<and> foldl (\<lambda>a c. 10 * a + (byte c - 48)) 0 s \<le> 255"

text \<open>
  \<open>net.ParseIP\<close> for a dotted quad. Its IPv6 forms all contain a colon, which \<open>hostname\<close> refuses
  in any case, with the same error.
\<close>

definition dotted_quad :: "string \<Rightarrow> bool" where
  "dotted_quad s \<longleftrightarrow> length (strings_Split s CHR ''.'') = 4 \<and> list_all octet (strings_Split s CHR ''.'')"

definition host_byte :: "char \<Rightarrow> bool" where
  "host_byte c \<longleftrightarrow> ascii_lower (byte c) \<or> ascii_digit (byte c) \<or> c = CHR ''-''"

definition label_ok :: "string \<Rightarrow> bool" where
  "label_ok l \<longleftrightarrow> \<not> (length l = 0 \<or> length l > 63 \<or> hd l = CHR ''-'' \<or> last l = CHR ''-'') \<and> list_all host_byte l"

text \<open>\<open>hostname\<close>; \<open>lower\<close> is \<open>strings.ToLower\<close>.\<close>

definition hostname :: "(string \<Rightarrow> string) \<Rightarrow> string \<Rightarrow> string option" where
  "hostname lower s =
     (if length s = 0 \<or> length s > 253 \<or> strings_HasSuffix s ''.'' \<or> dotted_quad s then None
      else (let t = lower s in
        if list_all label_ok (strings_Split t CHR ''.'') then Some t else None))"

text \<open>\<open>net.SplitHostPort\<close>.\<close>

definition last_colon :: "string \<Rightarrow> nat option" where
  "last_colon s = (if CHR '':'' \<in> set s then Some (length s - 1 - length (takeWhile (\<lambda>c. c \<noteq> CHR '':'') (rev s))) else None)"

definition SplitHostPort :: "string \<Rightarrow> (string \<times> string) option" where
  "SplitHostPort s =
     (case last_colon s of
        None \<Rightarrow> None
      | Some i \<Rightarrow>
          if hd s = CHR ''['' then
            (let e = length (takeWhile (\<lambda>c. c \<noteq> CHR '']'') s) in
             if e = length s \<or> Suc e \<noteq> i then None
             else if CHR ''['' \<in> set (tl s) \<or> CHR '']'' \<in> set (drop (Suc e) s) then None
             else Some (drop 1 (take e s), drop (Suc i) s))
          else
            (if CHR '':'' \<in> set (take i s) \<or> CHR ''['' \<in> set s \<or> CHR '']'' \<in> set s then None
             else Some (take i s, drop (Suc i) s)))"

text \<open>
  \<open>strconv.ParseUint(port, 10, 16)\<close> with the canonical spelling the code demands: the result is
  the port, \<open>None\<close> when any of the checks fails.
\<close>

definition parse_port :: "string \<Rightarrow> nat option" where
  "parse_port p =
     (if p = [] \<or> \<not> list_all (\<lambda>c. ascii_digit (byte c)) p then None
      else (let n = foldl (\<lambda>a c. 10 * a + (byte c - 48)) 0 p in
        if n > 65535 \<or> n = 0 \<or> strconv_Itoa n \<noteq> p then None else Some n))"

record destination =
  dest_Host :: string
  dest_Port :: nat
  dest_Private :: bool

definition ParseDestination :: "(string \<Rightarrow> string) \<Rightarrow> string \<Rightarrow> bool \<Rightarrow> destination option" where
  "ParseDestination lower value private =
     (case (if CHR '':'' \<in> set value then SplitHostPort value else Some (value, ''443'')) of
        None \<Rightarrow> None
      | Some (host, port) \<Rightarrow>
         (case (hostname lower host, parse_port port) of
            (Some h, Some n) \<Rightarrow> Some \<lparr>dest_Host = h, dest_Port = n, dest_Private = private\<rparr>
          | _ \<Rightarrow> None))"

section \<open>The policy\<close>

text \<open>\<open>net.JoinHostPort\<close> of a host without colon or percent sign.\<close>

definition JoinHostPort :: "string \<Rightarrow> string \<Rightarrow> string" where
  "JoinHostPort host port = host @ '':'' @ port"

fun policy_of :: "(string \<Rightarrow> string) \<Rightarrow> destination list \<Rightarrow> (string \<times> bool) list \<Rightarrow> (string \<times> bool) list option" where
  "policy_of lower [] policy = (if length policy = 0 then None else Some policy)"
| "policy_of lower (d # ds) policy =
     (case hostname lower (dest_Host d) of
        None \<Rightarrow> None
      | Some host \<Rightarrow>
          if dest_Port d = 0 then None
          else (let key = JoinHostPort host (strconv_Itoa (dest_Port d)) in
            case map_of policy key of
              Some old \<Rightarrow> if old \<noteq> dest_Private d then None else policy_of lower ds (AList.update key (dest_Private d) policy)
            | None \<Rightarrow> policy_of lower ds (AList.update key (dest_Private d) policy)))"

section \<open>Requests\<close>

record proxy_request =
  rq_RequestURI :: string
  rq_Method :: string
  rq_Proto :: string
  rq_Header :: "(string \<times> string list) list"
  rq_ContentLength :: int
  rq_TransferEncoding :: "string list"
  rq_URL_Scheme :: string
  rq_URL_User :: bool
  rq_URL_Path :: string
  rq_URL_RawQuery :: string
  rq_Host :: string

datatype verdict = Refuse nat string | Tunnel addr string

definition headerLimit :: nat where
  "headerLimit = 8192"

definition headerBytes :: "proxy_request \<Rightarrow> nat" where
  "headerBytes r = length (rq_RequestURI r) + length (rq_Method r) + length (rq_Proto r) + 8 +
     (\<Sum>(name, values) \<leftarrow> rq_Header r. \<Sum>v \<leftarrow> values. length name + length v + 4)"

definition authorized :: "(string \<Rightarrow> string) \<Rightarrow> string \<Rightarrow> proxy_request \<Rightarrow> bool" where
  "authorized b64 credential r \<longleftrightarrow>
     map_of (rq_Header r) ''Proxy-Authorization'' = Some [''Basic '' @ b64 (''edge:'' @ credential)]"

definition connect_shaped :: "proxy_request \<Rightarrow> bool" where
  "connect_shaped r \<longleftrightarrow> \<not> (rq_Method r \<noteq> ''CONNECT'' \<or> rq_ContentLength r > 0 \<or> length (rq_TransferEncoding r) \<noteq> 0 \<or>
     rq_URL_Scheme r \<noteq> [] \<or> rq_URL_User r \<or> rq_URL_Path r \<noteq> [] \<or> rq_URL_RawQuery r \<noteq> [] \<or> rq_Host r \<noteq> rq_RequestURI r)"

text \<open>The dial loop: each address in turn, until one answers or the deadline has passed.\<close>

fun dial_first :: "(addr \<Rightarrow> bool) \<Rightarrow> (addr \<Rightarrow> bool) \<Rightarrow> addr list \<Rightarrow> addr option" where
  "dial_first dial late [] = None"
| "dial_first dial late (ip # ips) =
     (if dial (Unmap ip) then Some (Unmap ip) else if late ip then None else dial_first dial late ips)"

record edge_proxy =
  px_policy :: "(string \<times> bool) list"
  px_credential :: string
  px_closing :: bool
  px_failed :: bool
  px_refusals :: "(string \<times> bool) list"

definition Refused :: "edge_proxy \<Rightarrow> string \<Rightarrow> edge_proxy" where
  "Refused p host = (if map_of (px_refusals p) host = None then p\<lparr>px_refusals := AList.update host False (px_refusals p)\<rparr> else p)"

definition recordRefusal :: "edge_proxy \<Rightarrow> string \<Rightarrow> edge_proxy" where
  "recordRefusal p host = (if map_of (px_refusals p) host \<noteq> None then p\<lparr>px_refusals := AList.update host True (px_refusals p)\<rparr> else p)"

definition newProxy :: "(string \<Rightarrow> string) \<Rightarrow> destination list \<Rightarrow> string \<Rightarrow> edge_proxy option" where
  "newProxy lower ds credential =
     map_option (\<lambda>policy. \<lparr>px_policy = policy, px_credential = credential, px_closing = False, px_failed = False, px_refusals = []\<rparr>)
       (policy_of lower ds [])"

definition fail_proxy :: "edge_proxy \<Rightarrow> edge_proxy" where
  "fail_proxy p = p\<lparr>px_failed := True\<rparr>"

definition Close_proxy :: "edge_proxy \<Rightarrow> edge_proxy" where
  "Close_proxy p = p\<lparr>px_closing := True\<rparr>"

text \<open>The addresses a name resolved to: all are checked, then dialled in turn.\<close>

definition edge_reach :: "(addr \<Rightarrow> bool) \<Rightarrow> (addr \<Rightarrow> bool) \<Rightarrow> bool \<Rightarrow> string \<Rightarrow> addr list option \<Rightarrow> verdict" where
  "edge_reach dial late priv port answer =
     (case answer of
        None \<Rightarrow> Refuse 403 ''resolution_refused''
      | Some ips \<Rightarrow>
          if length ips = 0 then Refuse 403 ''resolution_refused''
          else if list_ex (address_refused priv) ips then Refuse 403 ''address_refused''
          else (case dial_first dial late ips of
                  None \<Rightarrow> Refuse 502 ''upstream_unavailable''
                | Some ip \<Rightarrow> Tunnel ip port))"

text \<open>An authorized CONNECT request: its authority, then the policy.\<close>

definition edge_route ::
  "(string \<Rightarrow> string) \<Rightarrow> (string \<Rightarrow> addr list option) \<Rightarrow> (addr \<Rightarrow> bool) \<Rightarrow> (addr \<Rightarrow> bool) \<Rightarrow>
   edge_proxy \<Rightarrow> string \<Rightarrow> edge_proxy \<times> verdict" where
  "edge_route lower resolve dial late p uri =
     (case SplitHostPort uri of
        None \<Rightarrow> (p, Refuse 403 ''destination_refused'')
      | Some (host, port) \<Rightarrow>
         (case (hostname lower host, parse_port port) of
            (Some canonical, Some n) \<Rightarrow>
              (case map_of (px_policy p) (JoinHostPort canonical port) of
                 None \<Rightarrow> (recordRefusal p canonical, Refuse 403 ''destination_refused'')
               | Some priv \<Rightarrow> (p, edge_reach dial late priv port (resolve canonical)))
          | _ \<Rightarrow> (p, Refuse 403 ''destination_refused'')))"

text \<open>
  \<open>serve\<close> up to the tunnel: \<open>resolve\<close> answers with addresses or an error. The state changes only by
  recording a policy refusal.
\<close>

definition edge_serve ::
  "(string \<Rightarrow> string) \<Rightarrow> (string \<Rightarrow> string) \<Rightarrow> (string \<Rightarrow> addr list option) \<Rightarrow> (addr \<Rightarrow> bool) \<Rightarrow> (addr \<Rightarrow> bool) \<Rightarrow>
   edge_proxy \<Rightarrow> proxy_request \<Rightarrow> edge_proxy \<times> verdict" where
  "edge_serve lower b64 resolve dial late p r =
     (if px_closing p then (p, Refuse 503 ''closed'')
      else if headerBytes r > headerLimit then (p, Refuse 431 ''headers_refused'')
      else if \<not> authorized b64 (px_credential p) r then (p, Refuse 407 ''credential_required'')
      else if \<not> connect_shaped r then (p, Refuse 403 ''connect_required'')
      else edge_route lower resolve dial late p (rq_RequestURI r))"

section \<open>Canonical names and keys\<close>

lemma split_chars: "c \<in> set s \<Longrightarrow> c = sep \<or> (\<exists>l \<in> set (strings_Split s sep). c \<in> set l)"
  by (induction s sep rule: strings_Split.induct) (auto split: list.splits)

definition name_byte :: "char \<Rightarrow> bool" where
  "name_byte c \<longleftrightarrow> host_byte c \<or> c = CHR ''.''"

lemma hostname_bytes: "hostname lower s = Some t \<Longrightarrow> list_all name_byte t"
  using split_chars [of _ t "CHR ''.''"]
  by (fastforce simp: hostname_def Let_def list_all_iff label_ok_def name_byte_def split: if_splits)

lemma host_bytes_colon: "list_all name_byte t \<Longrightarrow> CHR '':'' \<notin> set t \<and> CHR ''['' \<notin> set t \<and> CHR '']'' \<notin> set t"
  by (auto simp: list_all_iff name_byte_def host_byte_def ascii_lower_def ascii_digit_def)

lemma Join_inj:
  assumes "CHR '':'' \<notin> set h" "CHR '':'' \<notin> set k" "JoinHostPort h p = JoinHostPort k q"
  shows "h = k \<and> p = q"
proof -
  have "takeWhile (\<lambda>c. c \<noteq> CHR '':'') (JoinHostPort x y) = x" "drop (Suc (length x)) (JoinHostPort x y) = y"
    if "CHR '':'' \<notin> set x" for x y
    using that by (simp_all add: JoinHostPort_def takeWhile_append takeWhile_eq_all_conv)
  then show ?thesis using assms by metis
qed

lemma policy_of_origin:
  assumes "policy_of lower ds policy = Some result" "map_of result key = Some private"
  shows "map_of policy key = Some private \<or> (\<exists>d \<in> set ds. \<exists>h. hostname lower (dest_Host d) = Some h \<and>
    key = JoinHostPort h (strconv_Itoa (dest_Port d)) \<and> dest_Private d = private)"
  using assms
proof (induction ds arbitrary: policy)
  case (Cons d ds)
  obtain host where h: "hostname lower (dest_Host d) = Some host" using Cons(2) by (auto split: option.splits)
  let ?key = "JoinHostPort host (strconv_Itoa (dest_Port d))"
  from Cons(2) h have "policy_of lower ds (AList.update ?key (dest_Private d) policy) = Some result"
    by (auto simp: Let_def split: option.splits if_splits)
  from Cons(1) [OF this Cons(3)] h show ?case by (auto simp: update_conv' split: if_splits)
qed (auto split: if_splits)

lemma policy_of_keeps:
  assumes "policy_of lower ds policy = Some result" "map_of policy key = Some private"
  shows "map_of result key = Some private"
  using assms
proof (induction ds arbitrary: policy)
  case (Cons d ds)
  obtain host where h: "hostname lower (dest_Host d) = Some host" using Cons(2) by (auto split: option.splits)
  let ?key = "JoinHostPort host (strconv_Itoa (dest_Port d))"
  from Cons(2) h have r: "policy_of lower ds (AList.update ?key (dest_Private d) policy) = Some result"
    and old: "map_of policy ?key = Some b \<Longrightarrow> b = dest_Private d" for b
    by (auto simp: Let_def split: option.splits if_splits)
  have "map_of (AList.update ?key (dest_Private d) policy) key = Some private"
    using Cons(3) old by (auto simp: update_conv')
  then show ?case by (rule Cons(1) [OF r])
qed (auto split: if_splits)

lemma policy_of_complete:
  assumes "policy_of lower ds policy = Some result" "d \<in> set ds"
  shows "\<exists>h. hostname lower (dest_Host d) = Some h \<and> dest_Port d \<noteq> 0 \<and>
    map_of result (JoinHostPort h (strconv_Itoa (dest_Port d))) = Some (dest_Private d)"
  using assms
proof (induction ds arbitrary: policy)
  case (Cons e ds)
  obtain host where h: "hostname lower (dest_Host e) = Some host" using Cons(2) by (auto split: option.splits)
  let ?key = "JoinHostPort host (strconv_Itoa (dest_Port e))"
  from Cons(2) h have r: "policy_of lower ds (AList.update ?key (dest_Private e) policy) = Some result" and n: "dest_Port e \<noteq> 0"
    by (auto simp: Let_def split: option.splits if_splits)
  have "map_of result ?key = Some (dest_Private e)" by (rule policy_of_keeps [OF r]) (simp add: update_conv')
  then show ?case using Cons(1) [OF r] Cons(3) h n by auto
qed simp

section \<open>Admission\<close>

lemma address_admitted:
  assumes "\<not> address_refused priv ip"
  shows "\<not> IsLoopback (Unmap ip) \<and> \<not> IsLinkLocalUnicast (Unmap ip) \<and> \<not> IsMulticast (Unmap ip) \<and>
    \<not> IsUnspecified (Unmap ip) \<and> Unmap ip \<noteq> NoAddr \<and> Zone (Unmap ip) = [] \<and>
    (priv \<or> \<not> IsPrivate (Unmap ip) \<and> \<not> specialAddress (Unmap ip))"
  using assms by (cases "Unmap ip") (auto simp: address_refused_def Let_def)

lemma dial_first_from: "dial_first dial late ips = Some ip \<Longrightarrow> ip \<in> Unmap ` set ips \<and> dial ip"
  by (induction ips) (auto split: if_splits)

lemma parse_port_text: "parse_port p = Some n \<Longrightarrow> strconv_Itoa n = p \<and> 0 < n \<and> n \<le> 65535"
  by (auto simp: parse_port_def Let_def split: if_splits)

lemma edge_reach_tunnel:
  assumes "edge_reach dial late priv port answer = Tunnel ip q"
  shows "\<exists>ips. answer = Some ips \<and> list_all (\<lambda>a. \<not> address_refused priv a) ips \<and> dial_first dial late ips = Some ip \<and> q = port"
  using assms by (auto simp: edge_reach_def list_ex_iff list_all_iff split: option.splits if_splits)

lemma edge_route_tunnel:
  assumes "edge_route lower resolve dial late p uri = (p', Tunnel ip port)"
  shows "\<exists>host h n priv ips. SplitHostPort uri = Some (host, port) \<and> hostname lower host = Some h \<and> parse_port port = Some n \<and>
    map_of (px_policy p) (JoinHostPort h port) = Some priv \<and> resolve h = Some ips \<and>
    list_all (\<lambda>a. \<not> address_refused priv a) ips \<and> dial_first dial late ips = Some ip \<and> p' = p"
  using assms by (auto simp: edge_route_def dest!: edge_reach_tunnel split: option.splits prod.splits)

lemma edge_serve_tunnel:
  assumes "edge_serve lower b64 resolve dial late p r = (p', Tunnel ip port)"
  shows "\<exists>host h n priv ips. SplitHostPort (rq_RequestURI r) = Some (host, port) \<and> hostname lower host = Some h \<and>
    parse_port port = Some n \<and> map_of (px_policy p) (JoinHostPort h port) = Some priv \<and> resolve h = Some ips \<and>
    list_all (\<lambda>a. \<not> address_refused priv a) ips \<and> dial_first dial late ips = Some ip \<and> p' = p \<and>
    \<not> px_closing p \<and> authorized b64 (px_credential p) r \<and> connect_shaped r"
proof -
  have g: "\<not> px_closing p" "authorized b64 (px_credential p) r" "connect_shaped r"
    and "edge_route lower resolve dial late p (rq_RequestURI r) = (p', Tunnel ip port)"
    using assms by (simp_all add: edge_serve_def split: if_splits)
  with edge_route_tunnel [of lower resolve dial late p "rq_RequestURI r" p' ip port] show ?thesis by blast
qed

text \<open>
  C40. What a tunnel means. The proxy opens a tunnel only for an authorized CONNECT request, while it is not closing, to a
  host and port that are exactly those of a destination the listener was given. It connects to one of the addresses
  that host resolved to at that moment, and every one of those addresses was checked: none is
  loopback, link-local, multicast or unspecified, and unless that destination was marked private, none is
  private or in a special range.
\<close>

theorem edge_tunnel_sound:
  assumes "policy_of lower ds [] = Some (px_policy p)"
    and "edge_serve lower b64 resolve dial late p r = (p', Tunnel ip port)"
  shows "\<exists>host h d ips. SplitHostPort (rq_RequestURI r) = Some (host, port) \<and> hostname lower host = Some h \<and>
    d \<in> set ds \<and> hostname lower (dest_Host d) = Some h \<and> strconv_Itoa (dest_Port d) = port \<and>
    p' = p \<and> \<not> px_closing p \<and> authorized b64 (px_credential p) r \<and> rq_Method r = ''CONNECT'' \<and>
    resolve h = Some ips \<and> ip \<in> Unmap ` set ips \<and>
    (\<forall>a \<in> Unmap ` set ips. \<not> IsLoopback a \<and> \<not> IsLinkLocalUnicast a \<and> \<not> IsMulticast a \<and> \<not> IsUnspecified a \<and>
       (dest_Private d \<or> \<not> IsPrivate a \<and> \<not> specialAddress a))"
proof -
  from assms(2) obtain host h n priv ips where
    s: "SplitHostPort (rq_RequestURI r) = Some (host, port)" "hostname lower host = Some h" "parse_port port = Some n"
      "map_of (px_policy p) (JoinHostPort h port) = Some priv" "resolve h = Some ips"
      "list_all (\<lambda>a. \<not> address_refused priv a) ips" "dial_first dial late ips = Some ip" "p' = p"
      "\<not> px_closing p" "authorized b64 (px_credential p) r" "connect_shaped r"
    using edge_serve_tunnel [OF assms(2)] by blast
  obtain d k where d: "d \<in> set ds" "hostname lower (dest_Host d) = Some k"
      "JoinHostPort h port = JoinHostPort k (strconv_Itoa (dest_Port d))" "dest_Private d = priv"
    using policy_of_origin [OF assms(1) s(4)] by auto
  have "h = k \<and> port = strconv_Itoa (dest_Port d)"
    using Join_inj [OF _ _ d(3)] host_bytes_colon hostname_bytes s(2) d(2) by blast
  moreover have "rq_Method r = ''CONNECT''" using s(11) by (simp add: connect_shaped_def)
  moreover have "\<forall>a \<in> Unmap ` set ips. \<not> IsLoopback a \<and> \<not> IsLinkLocalUnicast a \<and> \<not> IsMulticast a \<and> \<not> IsUnspecified a \<and>
       (dest_Private d \<or> \<not> IsPrivate a \<and> \<not> specialAddress a)"
    using s(6) address_admitted d(4) by (auto simp: list_all_iff)
  ultimately show ?thesis using s d dial_first_from [OF s(7)] by blast
qed

definition demo_destination :: destination where
  "demo_destination = \<lparr>dest_Host = ''a.io'', dest_Port = 443, dest_Private = False\<rparr>"

definition demo_proxy :: edge_proxy where
  "demo_proxy = \<lparr>px_policy = [(''a.io:443'', False)], px_credential = ''k'', px_closing = False, px_failed = False, px_refusals = []\<rparr>"

definition demo_request :: proxy_request where
  "demo_request = \<lparr>rq_RequestURI = ''a.io:443'', rq_Method = ''CONNECT'', rq_Proto = [],
     rq_Header = [(''Proxy-Authorization'', [''Basic edge:k''])], rq_ContentLength = 0, rq_TransferEncoding = [],
     rq_URL_Scheme = [], rq_URL_User = False, rq_URL_Path = [], rq_URL_RawQuery = [], rq_Host = ''a.io:443''\<rparr>"

lemma demo_itoa: "strconv_Itoa 443 = ''443''"
  by code_simp

lemma demo_names: "hostname (map lower_byte) ''a.io'' = Some ''a.io''" "SplitHostPort ''a.io:443'' = Some (''a.io'', ''443'')"
  "parse_port ''443'' = Some 443" "strconv_Itoa 443 = ''443''"
  by (simp_all add: hostname_def dotted_quad_def label_ok_def host_byte_def ascii_lower_def ascii_digit_def lower_byte_def
      ascii_upper_def strings_HasSuffix_def SplitHostPort_def last_colon_def demo_itoa parse_port_def)

theorem edge_tunnel_sound_witness:
  "edge_serve (map lower_byte) id (\<lambda>h. Some [V4 0x08080808]) (\<lambda>_. True) (\<lambda>_. False) demo_proxy demo_request
     = (demo_proxy, Tunnel (V4 0x08080808) ''443'') \<and> \<not> IsPrivate (V4 0x08080808)"
proof -
  have p: "policy_of (map lower_byte) [demo_destination] [] = Some (px_policy demo_proxy)"
    by (simp add: demo_destination_def demo_names JoinHostPort_def demo_proxy_def)
  have e: "edge_serve (map lower_byte) id (\<lambda>h. Some [V4 0x08080808]) (\<lambda>_. True) (\<lambda>_. False) demo_proxy demo_request
     = (demo_proxy, Tunnel (V4 0x08080808) ''443'')"
    by (simp add: edge_serve_def edge_route_def edge_reach_def demo_proxy_def demo_request_def headerBytes_def headerLimit_def authorized_def connect_shaped_def
        demo_names JoinHostPort_def address_refused_def)
  show ?thesis using e edge_tunnel_sound [OF p e] by (auto simp: demo_destination_def)
qed

text \<open>
  The policy of a listener. A listener opens only when every destination has a valid name and a port and no host and port is both
  private and not; its policy then holds exactly the given destinations, in canonical spelling.
\<close>

theorem edge_policy_exact:
  assumes "newProxy lower ds credential = Some p"
  shows "ds \<noteq> [] \<and> (\<forall>d \<in> set ds. \<exists>h. hostname lower (dest_Host d) = Some h \<and> dest_Port d \<noteq> 0 \<and>
      map_of (px_policy p) (JoinHostPort h (strconv_Itoa (dest_Port d))) = Some (dest_Private d)) \<and>
    (\<forall>h port priv. list_all name_byte h \<and> map_of (px_policy p) (JoinHostPort h port) = Some priv \<longrightarrow>
      (\<exists>d \<in> set ds. hostname lower (dest_Host d) = Some h \<and> strconv_Itoa (dest_Port d) = port \<and> dest_Private d = priv))"
proof -
  have p: "policy_of lower ds [] = Some (px_policy p)" using assms by (auto simp: newProxy_def)
  have "\<exists>d \<in> set ds. hostname lower (dest_Host d) = Some h \<and> strconv_Itoa (dest_Port d) = port \<and> dest_Private d = priv"
    if h: "list_all name_byte h" "map_of (px_policy p) (JoinHostPort h port) = Some priv" for h port priv
  proof -
    obtain d k where d: "d \<in> set ds" "hostname lower (dest_Host d) = Some k"
        "JoinHostPort h port = JoinHostPort k (strconv_Itoa (dest_Port d))" "dest_Private d = priv"
      using policy_of_origin [OF p h(2)] by auto
    then show ?thesis using Join_inj [OF _ _ d(3)] host_bytes_colon h(1) hostname_bytes by blast
  qed
  moreover have "ds \<noteq> []" using p by auto
  ultimately show ?thesis using policy_of_complete [OF p] by blast
qed

theorem edge_policy_exact_witness:
  "newProxy (map lower_byte) [demo_destination] ''k'' = Some demo_proxy \<and>
   (\<exists>d \<in> {demo_destination}. hostname (map lower_byte) (dest_Host d) = Some ''a.io'')"
proof -
  have n: "newProxy (map lower_byte) [demo_destination] ''k'' = Some demo_proxy"
    by (simp add: newProxy_def demo_destination_def demo_names JoinHostPort_def demo_proxy_def)
  then show ?thesis using edge_policy_exact [OF n] by (auto simp: demo_destination_def demo_names)
qed

end
