(* ===== verification/Provider.thy ===== *)
theory Provider
  imports Vocabulary Net_Addr Go_Strings
begin

text \<open>
  Where inference comes from (harness.go): the provider configuration and what is wrong with it.
  \<open>url.Parse\<close> and \<open>net.ParseIP\<close> are arguments: a parsed URL is the parts the code reads, and a credential
  source is known by being set.
\<close>

section \<open>Configuration\<close>

record parsed_url =
  u_IsAbs :: bool
  u_Scheme :: string
  u_Opaque :: string
  u_Host :: string
  u_User :: bool
  u_Hostname :: string

record openrouter_routing =
  or_RequireParameters :: bool
  or_DataCollection :: string

record api_config =
  api_BaseURL :: string
  api_Dialect :: string
  api_Credentials :: bool
  api_Unauthenticated :: bool
  api_EffortParameter :: string
  api_Streaming :: bool
  api_IdleTimeout :: int64
  api_OpenRouter :: "openrouter_routing option"

record cli_config =
  cli_Binary :: string
  cli_Home :: string

record provider =
  pr_Engine :: engine
  pr_CLI :: cli_config
  pr_API :: api_config

definition api_zero :: "api_config \<Rightarrow> bool" where
  "api_zero a \<longleftrightarrow> api_BaseURL a = [] \<and> api_Dialect a = [] \<and> \<not> api_Credentials a \<and> \<not> api_Unauthenticated a \<and>
     api_EffortParameter a = [] \<and> \<not> api_Streaming a \<and> api_IdleTimeout a = 0 \<and> api_OpenRouter a = None"

definition loopbackHost :: "(string \<Rightarrow> addr option) \<Rightarrow> string \<Rightarrow> bool" where
  "loopbackHost parse_ip host \<longleftrightarrow>
     (if host = ''localhost'' then True
      else case parse_ip host of None \<Rightarrow> False | Some ip \<Rightarrow> IsLoopback (Unmap ip))"

definition api_base :: "(string \<Rightarrow> parsed_url option) \<Rightarrow> (string \<Rightarrow> addr option) \<Rightarrow> api_config \<Rightarrow> string + parsed_url" where
  "api_base parse_url parse_ip a =
     (if CHR ''?'' \<in> set (api_BaseURL a) \<or> CHR ''#'' \<in> set (api_BaseURL a) then Inl ''api_base_url_invalid''
      else case parse_url (api_BaseURL a) of
        None \<Rightarrow> Inl ''api_base_url_invalid''
      | Some u \<Rightarrow>
          if \<not> u_IsAbs u \<or> u_Opaque u \<noteq> [] \<or> u_Host u = [] \<or> u_User u then Inl ''api_base_url_invalid''
          else if u_Scheme u = ''https'' then Inr u
          else if u_Scheme u = ''http'' then
            (if loopbackHost parse_ip (u_Hostname u) then Inr u else Inl ''api_base_url_insecure'')
          else Inl ''api_base_url_invalid'')"

text \<open>The checks after the base URL, \<open>[]\<close> being well formed.\<close>

definition api_rest_problem :: "api_config \<Rightarrow> bool \<Rightarrow> string" where
  "api_rest_problem a loopback =
     (if \<not> api_Unauthenticated a \<and> \<not> api_Credentials a then ''api_credentials_required''
      else if api_Unauthenticated a \<and> api_Credentials a then ''api_credentials_conflict''
      else if api_Unauthenticated a \<and> \<not> loopback then ''api_unauthenticated_remote''
      else if sint (api_IdleTimeout a) < 0 then ''api_idle_timeout_invalid''
      else if sint (api_IdleTimeout a) > 0 \<and> \<not> api_Streaming a then ''api_idle_timeout_without_streaming''
      else if (case api_OpenRouter a of None \<Rightarrow> False
               | Some r \<Rightarrow> or_DataCollection r \<notin> {[], ''allow'', ''deny''}) then ''api_openrouter_data_collection_invalid''
      else if api_EffortParameter a \<in> {[], ''reasoning_effort'', ''reasoning.effort''} then []
      else ''api_effort_parameter_unsupported'')"

definition api_problem :: "(string \<Rightarrow> parsed_url option) \<Rightarrow> (string \<Rightarrow> addr option) \<Rightarrow> api_config \<Rightarrow> string" where
  "api_problem parse_url parse_ip a =
     (if api_Dialect a = [] then ''api_dialect_required''
      else if api_Dialect a \<noteq> ''openai-chat-completions'' then ''api_dialect_unsupported''
      else case api_base parse_url parse_ip a of
        Inl code \<Rightarrow> code
      | Inr u \<Rightarrow> api_rest_problem a (loopbackHost parse_ip (u_Hostname u)))"

definition Problem :: "(string \<Rightarrow> parsed_url option) \<Rightarrow> (string \<Rightarrow> addr option) \<Rightarrow> provider \<Rightarrow> string" where
  "Problem parse_url parse_ip p =
     (case Transport (pr_Engine p) of
        Some CLITransport \<Rightarrow> if \<not> api_zero (pr_API p) then ''api_config_for_cli_engine'' else []
      | Some APITransport \<Rightarrow>
          if pr_CLI p \<noteq> \<lparr>cli_Binary = [], cli_Home = []\<rparr> then ''cli_config_for_api_engine''
          else api_problem parse_url parse_ip (pr_API p)
      | None \<Rightarrow> ''unsupported_engine'')"

definition effort_byte :: "char \<Rightarrow> bool" where
  "effort_byte c \<longleftrightarrow> ascii_lower (byte c) \<or> c = CHR ''_'' \<or> c = CHR ''-''"

definition EffortProblem :: "api_config \<Rightarrow> string \<Rightarrow> string" where
  "EffortProblem a effort =
     (if effort = [] then []
      else if api_EffortParameter a = [] then ''api_effort_parameter_required''
      else if length effort > 32 \<or> \<not> list_all effort_byte effort then ''api_effort_invalid''
      else [])"

section \<open>Properties\<close>

definition api_settings_ok :: "api_config \<Rightarrow> bool" where
  "api_settings_ok a \<longleftrightarrow> 0 \<le> sint (api_IdleTimeout a) \<and> (sint (api_IdleTimeout a) = 0 \<or> api_Streaming a) \<and>
     (api_OpenRouter a = None \<or> or_DataCollection (the (api_OpenRouter a)) \<in> {[], ''allow'', ''deny''}) \<and>
     api_EffortParameter a \<in> {[], ''reasoning_effort'', ''reasoning.effort''}"

lemma rest_problem_none: "api_rest_problem a loopback = [] \<longleftrightarrow>
    (if api_Unauthenticated a then \<not> api_Credentials a \<and> loopback else api_Credentials a) \<and> api_settings_ok a"
  by (cases "api_OpenRouter a") (auto simp: api_rest_problem_def api_settings_ok_def)

lemma base_codes: "api_base parse_url parse_ip a = Inl code \<Longrightarrow> code \<noteq> []"
  by (auto simp: api_base_def split: if_splits option.splits)

lemma base_ok: "api_base parse_url parse_ip a = Inr u \<longleftrightarrow>
    CHR ''?'' \<notin> set (api_BaseURL a) \<and> CHR ''#'' \<notin> set (api_BaseURL a) \<and> parse_url (api_BaseURL a) = Some u \<and>
    u_IsAbs u \<and> u_Opaque u = [] \<and> u_Host u \<noteq> [] \<and> \<not> u_User u \<and>
    (u_Scheme u = ''https'' \<or> u_Scheme u = ''http'' \<and> loopbackHost parse_ip (u_Hostname u))"
  by (auto simp: api_base_def split: option.splits)

text \<open>
  A well-formed provider. \<open>Problem\<close> finds nothing wrong exactly when the engine is known and only its own half is set; and an API
  provider then speaks the one supported dialect to an absolute URL without user, query or fragment, over
  https or, to a loopback host only, http; it has exactly one of a credential source and the
  unauthenticated choice, the latter only for a loopback host; and its timeout is not negative and only set for
  streaming, its routing and effort settings are ones the library knows (\<open>api_settings_ok\<close>).
\<close>

theorem provider_problem_exact:
  "Problem parse_url parse_ip p = [] \<longleftrightarrow>
     (Transport (pr_Engine p) = Some CLITransport \<and> api_zero (pr_API p)) \<or>
     (Transport (pr_Engine p) = Some APITransport \<and> pr_CLI p = \<lparr>cli_Binary = [], cli_Home = []\<rparr> \<and>
      api_Dialect (pr_API p) = ''openai-chat-completions'' \<and>
      (\<exists>u. parse_url (api_BaseURL (pr_API p)) = Some u \<and>
        CHR ''?'' \<notin> set (api_BaseURL (pr_API p)) \<and> CHR ''#'' \<notin> set (api_BaseURL (pr_API p)) \<and>
        u_IsAbs u \<and> u_Opaque u = [] \<and> u_Host u \<noteq> [] \<and> \<not> u_User u \<and>
        (u_Scheme u = ''https'' \<or> u_Scheme u = ''http'' \<and> loopbackHost parse_ip (u_Hostname u)) \<and>
        (if api_Unauthenticated (pr_API p) then \<not> api_Credentials (pr_API p) \<and> loopbackHost parse_ip (u_Hostname u)
         else api_Credentials (pr_API p))) \<and>
      api_settings_ok (pr_API p))"
proof -
  let ?a = "pr_API p"
  have api: "api_problem parse_url parse_ip ?a = [] \<longleftrightarrow> api_Dialect ?a = ''openai-chat-completions'' \<and>
      (\<exists>u. api_base parse_url parse_ip ?a = Inr u \<and> api_rest_problem ?a (loopbackHost parse_ip (u_Hostname u)) = [])"
    by (auto simp: api_problem_def dest: base_codes split: sum.splits)
  show ?thesis
  proof (cases "Transport (pr_Engine p)")
    case (Some t)
    then show ?thesis
    proof (cases t)
      case APITransport
      have "Problem parse_url parse_ip p = [] \<longleftrightarrow> pr_CLI p = \<lparr>cli_Binary = [], cli_Home = []\<rparr> \<and> api_problem parse_url parse_ip ?a = []"
        using Some APITransport by (simp add: Problem_def)
      then show ?thesis unfolding api base_ok rest_problem_none Some APITransport by blast
    qed (simp add: Problem_def)
  qed (simp add: Problem_def)
qed

end
