(* ===== verification/Transcript.thy ===== *)
theory Transcript
  imports Text_Bound Tokens Failures
begin

text \<open>
  The durable conversation of a session whose loop the library runs (session/api_transcript.go, with
  \<open>append\<close> and \<open>restoreAPIRecovery\<close> of session/api_session.go and session/api.go): an append-only file of
  JSON lines, what a process that died leaves in it, and how reopening settles that. The
  JSON codec is an argument; the file is its bytes.
\<close>

section \<open>Records\<close>

record tool_call =
  tc_ID :: string
  tc_Type :: string
  tc_Name :: string
  tc_Arguments :: string
  tc_Replay :: string

record transcript_header =
  th_Version :: int
  th_Engine :: engine
  th_ID :: string
  th_ConfigHash :: string

record trecord =
  r_Type :: string
  r_Turn :: string
  r_Header :: "transcript_header option"
  r_Text :: string
  r_Response :: int
  r_Calls :: "tool_call list"
  r_Replay :: string
  r_Call :: string
  r_Tool :: string
  r_IsError :: bool
  r_Outcome :: string
  r_Usage :: "usage option"
  r_Status :: string
  r_Code :: string

abbreviation recordSession :: string where "recordSession \<equiv> ''session''"
abbreviation recordTurnStart :: string where "recordTurnStart \<equiv> ''turn_start''"
abbreviation recordUser :: string where "recordUser \<equiv> ''user''"
abbreviation recordAssistant :: string where "recordAssistant \<equiv> ''assistant''"
abbreviation recordToolCall :: string where "recordToolCall \<equiv> ''tool_call''"
abbreviation recordToolResult :: string where "recordToolResult \<equiv> ''tool_result''"
abbreviation recordUsage :: string where "recordUsage \<equiv> ''usage''"
abbreviation recordTurnEnd :: string where "recordTurnEnd \<equiv> ''turn_end''"

abbreviation (input) outcomeRan :: string where "outcomeRan \<equiv> []"
abbreviation outcomeRefused :: string where "outcomeRefused \<equiv> ''refused''"
abbreviation outcomeNotRun :: string where "outcomeNotRun \<equiv> ''not_run''"
abbreviation outcomeUnknown :: string where "outcomeUnknown \<equiv> ''unknown''"

definition unknownOutcome :: string where
  "unknownOutcome = ''The outcome of this call is unknown: the session stopped while it was running, so its effects may or may not have happened. It was not run again; establish what it did from evidence before relying on it.''"

definition notRunText :: string where
  "notRunText = ''This call was not run: the turn ended before it started. Nothing was executed.''"

text \<open>A record with only a type and a turn, as Go's composite literals leave the rest zero.\<close>

definition blank :: "string \<Rightarrow> string \<Rightarrow> trecord" where
  "blank ty turn = \<lparr>r_Type = ty, r_Turn = turn, r_Header = None, r_Text = [], r_Response = 0, r_Calls = [], r_Replay = [],
     r_Call = [], r_Tool = [], r_IsError = False, r_Outcome = [], r_Usage = None, r_Status = [], r_Code = []\<rparr>"

definition Itoa_int :: "int \<Rightarrow> string" where
  "Itoa_int n = (if n < 0 then CHR ''-'' # strconv_Itoa (nat (- n)) else strconv_Itoa (nat n))"

definition call_key :: "int \<Rightarrow> string \<Rightarrow> string" where
  "call_key response call = Itoa_int response @ '':'' @ call"

definition r_key :: "trecord \<Rightarrow> string" where
  "r_key r = call_key (r_Response r) (r_Call r)"

section \<open>The file\<close>

record reference =
  ref_Engine :: engine
  ref_ID :: string
  ref_ConfigHash :: string

definition header_record :: "reference \<Rightarrow> trecord" where
  "header_record ref = (blank recordSession [])\<lparr>r_Header := Some \<lparr>th_Version = 1, th_Engine = ref_Engine ref,
     th_ID = ref_ID ref, th_ConfigHash = ref_ConfigHash ref\<rparr>\<rparr>"

record transcript =
  t_bytes :: string
  t_closed :: bool

text \<open>How the write and the sync of one line went: in full, in full but not synced, or only the first bytes.\<close>

datatype write_outcome = Written | Unsynced | Torn nat

definition line_of :: "(trecord \<Rightarrow> string) \<Rightarrow> trecord \<Rightarrow> string" where
  "line_of enc r = enc r @ [CHR 0x0A]"

definition append_record ::
  "(trecord \<Rightarrow> string) \<Rightarrow> transcript \<Rightarrow> trecord \<Rightarrow> write_outcome \<Rightarrow> transcript \<times> session_error option" where
  "append_record enc t r w =
     (if t_closed t then (t, Some ErrClosed)
      else case w of
        Written \<Rightarrow> (t\<lparr>t_bytes := t_bytes t @ line_of enc r\<rparr>, None)
      | Unsynced \<Rightarrow> (t\<lparr>t_bytes := t_bytes t @ line_of enc r\<rparr>, Some (StateError StateUnwritable))
      | Torn n \<Rightarrow> (t\<lparr>t_bytes := t_bytes t @ take n (enc r)\<rparr>, Some (StateError StateUnwritable)))"

definition close_transcript :: "transcript \<Rightarrow> transcript" where
  "close_transcript t = (if t_closed t then t else t\<lparr>t_closed := True\<rparr>)"

definition createTranscript :: "(trecord \<Rightarrow> string) \<Rightarrow> reference \<Rightarrow> write_outcome \<Rightarrow> (session_error + transcript \<times> trecord list)" where
  "createTranscript enc ref w =
     (case append_record enc \<lparr>t_bytes = [], t_closed = False\<rparr> (header_record ref) w of
        (t, None) \<Rightarrow> Inr (t, [header_record ref])
      | (t, Some e) \<Rightarrow> Inl e)"

text \<open>The bytes up to and including the last newline.\<close>

definition complete_lines :: "string \<Rightarrow> string" where
  "complete_lines data = rev (dropWhile (\<lambda>c. c \<noteq> CHR 0x0A) (rev data))"

fun decode_lines :: "(string \<Rightarrow> trecord option) \<Rightarrow> string list \<Rightarrow> trecord list option" where
  "decode_lines dec [] = Some []"
| "decode_lines dec (line # lines) =
     (if length line = 0 then decode_lines dec lines
      else case dec line of
        None \<Rightarrow> None
      | Some r \<Rightarrow> if r_Type r = [] then None else map_option ((#) r) (decode_lines dec lines))"

definition header_ok :: "reference \<Rightarrow> trecord list \<Rightarrow> bool" where
  "header_ok ref records \<longleftrightarrow>
     (case records of [] \<Rightarrow> False
      | r # _ \<Rightarrow> r_Type r = recordSession \<and>
          (case r_Header r of None \<Rightarrow> False
           | Some h \<Rightarrow> \<not> (th_Version h \<noteq> 1 \<or> th_Engine h \<noteq> ref_Engine ref \<or> th_ID h \<noteq> ref_ID ref \<or> th_ConfigHash h \<noteq> ref_ConfigHash ref)))"

definition parseRecords :: "(string \<Rightarrow> trecord option) \<Rightarrow> string \<Rightarrow> reference \<Rightarrow> trecord list option" where
  "parseRecords dec data ref =
     (case decode_lines dec (strings_Split data (CHR 0x0A)) of
        None \<Rightarrow> None
      | Some records \<Rightarrow> if header_ok ref records then Some records else None)"

text \<open>
  \<open>openTranscript\<close> once the directory is locked; \<open>None\<close> is a missing file. \<open>truncates\<close> says whether
  cutting off a partial last line succeeds.
\<close>

definition openTranscript ::
  "(string \<Rightarrow> trecord option) \<Rightarrow> string option \<Rightarrow> bool \<Rightarrow> reference \<Rightarrow> session_error + transcript \<times> trecord list" where
  "openTranscript dec file truncates ref =
     (case file of
        None \<Rightarrow> Inl (StateError StateMissing)
      | Some data \<Rightarrow>
         (case parseRecords dec (complete_lines data) ref of
            None \<Rightarrow> Inl (StateError StateCorrupt)
          | Some records \<Rightarrow>
              if length (complete_lines data) < length data \<and> \<not> truncates then Inl (StateError StateUnwritable)
              else Inr (\<lparr>t_bytes = complete_lines data, t_closed = False\<rparr>, records)))"

section \<open>The history a request carries\<close>

record message =
  m_Role :: string
  m_Content :: string
  m_ToolCalls :: "tool_call list"
  m_ToolCallID :: string
  m_Replay :: string

definition plain_message :: "string \<Rightarrow> string \<Rightarrow> message" where
  "plain_message role content = \<lparr>m_Role = role, m_Content = content, m_ToolCalls = [], m_ToolCallID = [], m_Replay = []\<rparr>"

definition call_state :: "(string \<rightharpoonup> trecord) \<times> string set \<Rightarrow> trecord \<Rightarrow> (string \<rightharpoonup> trecord) \<times> string set" where
  "call_state s r =
     (if r_Type r = recordToolCall then (fst s, insert (r_key r) (snd s))
      else if r_Type r = recordToolResult then ((fst s)(r_key r \<mapsto> r), snd s)
      else s)"

definition callStates :: "trecord list \<Rightarrow> (string \<rightharpoonup> trecord) \<times> string set" where
  "callStates records = foldl call_state (Map.empty, {}) records"

definition answer_text :: "(string \<rightharpoonup> trecord) \<times> string set \<Rightarrow> string \<Rightarrow> string" where
  "answer_text s key =
     (case fst s key of Some result \<Rightarrow> r_Text result
      | None \<Rightarrow> if key \<in> snd s then unknownOutcome else notRunText)"

definition record_messages :: "(string \<rightharpoonup> trecord) \<times> string set \<Rightarrow> int \<Rightarrow> trecord \<Rightarrow> message list" where
  "record_messages s limit r =
     (if r_Type r = recordUser then [plain_message ''user'' (r_Text r)]
      else if r_Type r = recordAssistant then
        (plain_message ''assistant'' (r_Text r))\<lparr>m_ToolCalls := r_Calls r, m_Replay := r_Replay r\<rparr> #
        map (\<lambda>call. (plain_message ''tool'' (bound (answer_text s (call_key (r_Response r) (tc_ID call))) limit))
               \<lparr>m_ToolCallID := tc_ID call\<rparr>) (r_Calls r)
      else [])"

definition conversation :: "trecord list \<Rightarrow> string \<Rightarrow> int \<Rightarrow> message list" where
  "conversation records system limit =
     (if system \<noteq> [] then [plain_message ''system'' system] else []) @
     concat (map (record_messages (callStates records) limit) records)"

section \<open>Recovery\<close>

record recovery =
  rec_TurnID :: string
  rec_UnknownOutcomes :: "(string \<times> string) list"

definition unanswered :: "(string \<rightharpoonup> trecord) \<times> string set \<Rightarrow> trecord \<Rightarrow> tool_call list" where
  "unanswered s r = (if r_Type r = recordAssistant
     then filter (\<lambda>call. fst s (call_key (r_Response r) (tc_ID call)) = None) (r_Calls r) else [])"

definition settle_call :: "(string \<rightharpoonup> trecord) \<times> string set \<Rightarrow> trecord \<Rightarrow> tool_call \<Rightarrow> trecord" where
  "settle_call s r call =
     (let result = (blank recordToolResult (r_Turn r))\<lparr>r_Response := r_Response r, r_Call := tc_ID call, r_Tool := tc_Name call,
            r_IsError := True, r_Outcome := outcomeNotRun, r_Text := notRunText\<rparr>
      in if call_key (r_Response r) (tc_ID call) \<in> snd s
         then result\<lparr>r_Outcome := outcomeUnknown, r_Text := unknownOutcome\<rparr> else result)"

definition last_open :: "trecord list \<Rightarrow> string" where
  "last_open records = foldl (\<lambda>open r. if r_Type r = recordTurnStart then r_Turn r else open) [] records"

definition turn_ended :: "trecord list \<Rightarrow> string \<Rightarrow> bool" where
  "turn_ended records turn = list_ex (\<lambda>r. r_Type r = recordTurnEnd \<and> r_Turn r = turn) records"

definition recoverTranscript :: "trecord list \<Rightarrow> trecord list \<times> recovery" where
  "recoverTranscript records =
     (let s = callStates records;
          pending = concat (map (\<lambda>r. map (Pair r) (unanswered s r)) records);
          unknown = filter (\<lambda>(r, call). call_key (r_Response r) (tc_ID call) \<in> snd s) pending;
          open = last_open records;
          dangling = open \<noteq> [] \<and> \<not> turn_ended records open
      in (map (\<lambda>(r, call). settle_call s r call) pending @
            (if dangling then [(blank recordTurnEnd open)\<lparr>r_Status := ''interrupted'', r_Code := ''session_interrupted''\<rparr>] else []),
          \<lparr>rec_TurnID = (if dangling then open else []),
           rec_UnknownOutcomes = map (\<lambda>(r, call). (tc_ID call, tc_Name call)) unknown\<rparr>))"

text \<open>\<open>restoreAPIRecovery\<close> with every append succeeding: the settled records, their texts bounded, follow.\<close>

definition restoreAPIRecovery :: "int \<Rightarrow> trecord list \<Rightarrow> trecord list \<times> recovery" where
  "restoreAPIRecovery limit records =
     (case recoverTranscript records of (additions, recovery) \<Rightarrow>
        (records @ map (\<lambda>a. a\<lparr>r_Text := bound (r_Text a) limit\<rparr>) additions, recovery))"

definition countResponses :: "trecord list \<Rightarrow> int" where
  "countResponses records = foldl (\<lambda>n r. if r_Type r = recordAssistant \<and> r_Response r > n then r_Response r else n) 0 records"

definition conversationBegun :: "trecord list \<Rightarrow> bool" where
  "conversationBegun records = list_ex (\<lambda>r. r_Type r = recordUser) records"

section \<open>What the call states say\<close>

lemma callStates_snoc: "callStates (rs @ [r]) = call_state (callStates rs) r"
  by (simp add: callStates_def)

lemma started_iff: "k \<in> snd (callStates rs) \<longleftrightarrow> (\<exists>r\<in>set rs. r_Type r = recordToolCall \<and> r_key r = k)"
  by (induction rs rule: rev_induct) (auto simp: callStates_snoc call_state_def callStates_def [of "[]"])

lemma result_some: "fst (callStates rs) k = Some q \<Longrightarrow> q \<in> set rs \<and> r_Type q = recordToolResult \<and> r_key q = k"
  by (induction rs rule: rev_induct)
    (auto simp: callStates_snoc call_state_def callStates_def [of "[]"] split: if_splits)

lemma result_none: "fst (callStates rs) k = None \<longleftrightarrow> \<not> (\<exists>r\<in>set rs. r_Type r = recordToolResult \<and> r_key r = k)"
  by (induction rs rule: rev_induct)
    (auto simp: callStates_snoc call_state_def callStates_def [of "[]"] split: if_splits)

text \<open>Results added for keys that had none leave the recorded ones as they were.\<close>

lemma result_kept:
  assumes "fst (callStates rs) k = Some q" "\<And>a. a \<in> set as \<Longrightarrow> r_Type a = recordToolResult \<Longrightarrow> r_key a \<noteq> k"
  shows "fst (callStates (rs @ as)) k = Some q"
  using assms(2)
proof (induction as rule: rev_induct)
  case (snoc a as)
  then show ?case
    using callStates_snoc [of "rs @ as" a] by (auto simp: call_state_def)
qed (simp add: assms(1))

section \<open>The settling records\<close>

definition additions_of :: "int \<Rightarrow> trecord list \<Rightarrow> trecord list" where
  "additions_of limit records = map (\<lambda>a. a\<lparr>r_Text := bound (r_Text a) limit\<rparr>) (fst (recoverTranscript records))"

lemma restore_eq: "restoreAPIRecovery limit records = (records @ additions_of limit records, snd (recoverTranscript records))"
  by (simp add: restoreAPIRecovery_def additions_of_def split: prod.split)

lemma r_key_text [simp]: "r_key (a\<lparr>r_Text := t\<rparr>) = r_key a"
  by (simp add: r_key_def)

lemma settle_call_fields [simp]:
  "r_Type (settle_call s r c) = recordToolResult"
  "r_key (settle_call s r c) = call_key (r_Response r) (tc_ID c)"
  "r_IsError (settle_call s r c)"
  "r_Turn (settle_call s r c) = r_Turn r"
  "r_Outcome (settle_call s r c) = (if call_key (r_Response r) (tc_ID c) \<in> snd s then outcomeUnknown else outcomeNotRun)"
  "r_Text (settle_call s r c) = (if call_key (r_Response r) (tc_ID c) \<in> snd s then unknownOutcome else notRunText)"
  by (simp_all add: settle_call_def blank_def r_key_def Let_def)

lemma unanswered_in:
  "c \<in> set (unanswered s r) \<longleftrightarrow> r_Type r = recordAssistant \<and> c \<in> set (r_Calls r) \<and> fst s (call_key (r_Response r) (tc_ID c)) = None"
  by (auto simp: unanswered_def)

lemma in_recovered:
  "a \<in> set (fst (recoverTranscript records)) \<longleftrightarrow>
     (\<exists>r\<in>set records. \<exists>c\<in>set (unanswered (callStates records) r). a = settle_call (callStates records) r c)
     \<or> (last_open records \<noteq> [] \<and> \<not> turn_ended records (last_open records)
        \<and> a = (blank recordTurnEnd (last_open records))\<lparr>r_Status := ''interrupted'', r_Code := ''session_interrupted''\<rparr>)"
  by (auto simp: recoverTranscript_def Let_def image_iff)

lemma addition_cases:
  assumes "a \<in> set (additions_of limit records)"
  obtains (result) r c where "r \<in> set records" "c \<in> set (unanswered (callStates records) r)"
      "a = (settle_call (callStates records) r c)\<lparr>r_Text := bound (r_Text (settle_call (callStates records) r c)) limit\<rparr>"
    | (turn_end) "r_Type a = recordTurnEnd" "r_Turn a = last_open records" "r_Status a = ''interrupted''" "last_open records \<noteq> []"
  using assms by (auto simp: additions_of_def in_recovered blank_def)

lemma addition_type: "a \<in> set (additions_of limit records) \<Longrightarrow> r_Type a = recordToolResult \<or> r_Type a = recordTurnEnd"
  by (erule addition_cases) auto

lemma addition_key_unanswered:
  "a \<in> set (additions_of limit records) \<Longrightarrow> r_Type a = recordToolResult \<Longrightarrow> fst (callStates records) (r_key a) = None"
  by (erule addition_cases) (auto simp: unanswered_in)

lemma addition_text:
  "a \<in> set (additions_of limit records) \<Longrightarrow> r_Type a = recordToolResult \<Longrightarrow>
     r_Text a = bound (answer_text (callStates records) (r_key a)) limit"
  by (erule addition_cases) (auto simp: unanswered_in answer_text_def)

lemma additions_intro:
  "a \<in> set (fst (recoverTranscript records)) \<Longrightarrow> a\<lparr>r_Text := bound (r_Text a) limit\<rparr> \<in> set (additions_of limit records)"
  by (auto simp: additions_of_def)

lemma addition_answers:
  assumes "r \<in> set records" "c \<in> set (unanswered (callStates records) r)"
  shows "\<exists>a\<in>set (additions_of limit records). r_Type a = recordToolResult \<and> r_key a = call_key (r_Response r) (tc_ID c)"
proof -
  let ?a = "settle_call (callStates records) r c"
  have "?a \<in> set (fst (recoverTranscript records))" using assms by (auto simp: in_recovered)
  note additions_intro [OF this, of limit]
  then show ?thesis by force
qed

lemma settled_started: "snd (callStates (records @ additions_of limit records)) = snd (callStates records)"
  using addition_type by (fastforce simp: set_eq_iff started_iff)

lemma settled_kept:
  "fst (callStates records) k = Some q \<Longrightarrow> fst (callStates (records @ additions_of limit records)) k = Some q"
  using addition_key_unanswered by (intro result_kept) auto

lemma settled_answered:
  assumes "r \<in> set records" "r_Type r = recordAssistant" "c \<in> set (r_Calls r)"
  shows "fst (callStates (records @ additions_of limit records)) (call_key (r_Response r) (tc_ID c)) \<noteq> None"
proof (cases "fst (callStates records) (call_key (r_Response r) (tc_ID c))")
  case None
  then have "c \<in> set (unanswered (callStates records) r)" using assms by (simp add: unanswered_in)
  from addition_answers [OF assms(1) this] show ?thesis unfolding result_none by auto
next
  case (Some q)
  then show ?thesis by (simp add: settled_kept)
qed

lemma last_open_append:
  assumes "\<And>a. a \<in> set as \<Longrightarrow> r_Type a \<noteq> recordTurnStart"
  shows "last_open (rs @ as) = last_open rs"
  using assms by (induction as rule: rev_induct) (auto simp: last_open_def)

lemma settled_open: "last_open (records @ additions_of limit records) = last_open records"
  using addition_type by (intro last_open_append) fastforce

lemma settled_ended:
  assumes "last_open records \<noteq> []"
  shows "turn_ended (records @ additions_of limit records) (last_open records)"
proof (cases "turn_ended records (last_open records)")
  case True
  then show ?thesis by (auto simp: turn_ended_def list_ex_iff)
next
  case False
  let ?a = "(blank recordTurnEnd (last_open records))\<lparr>r_Status := ''interrupted'', r_Code := ''session_interrupted''\<rparr>"
  have "?a \<in> set (fst (recoverTranscript records))" using assms False by (simp add: in_recovered)
  note additions_intro [OF this, of limit]
  then show ?thesis by (force simp: turn_ended_def list_ex_iff blank_def)
qed

lemma recover_nothing:
  assumes "\<And>r c. r \<in> set rs \<Longrightarrow> r_Type r = recordAssistant \<Longrightarrow> c \<in> set (r_Calls r) \<Longrightarrow>
      fst (callStates rs) (call_key (r_Response r) (tc_ID c)) \<noteq> None"
    and "last_open rs \<noteq> [] \<Longrightarrow> turn_ended rs (last_open rs)"
  shows "recoverTranscript rs = ([], \<lparr>rec_TurnID = [], rec_UnknownOutcomes = []\<rparr>)"
proof -
  have "unanswered (callStates rs) r = []" if "r \<in> set rs" for r
    using assms(1) [OF that] by (auto simp: unanswered_def filter_empty_conv)
  then have "concat (map (\<lambda>r. map (Pair r) (unanswered (callStates rs) r)) rs) = []" by simp
  then show ?thesis using assms(2) by (auto simp: recoverTranscript_def Let_def)
qed

lemma recover_certain:
  assumes "\<And>k. k \<in> snd (callStates rs) \<Longrightarrow> fst (callStates rs) k \<noteq> None"
    and "last_open rs \<noteq> [] \<Longrightarrow> turn_ended rs (last_open rs)"
  shows "snd (recoverTranscript rs) = \<lparr>rec_TurnID = [], rec_UnknownOutcomes = []\<rparr>"
proof -
  have "call_key (r_Response r) (tc_ID c) \<notin> snd (callStates rs)" if "c \<in> set (unanswered (callStates rs) r)" for r c
    using that assms(1) unfolding unanswered_in by blast
  then have "filter (\<lambda>(r, call). call_key (r_Response r) (tc_ID call) \<in> snd (callStates rs))
      (concat (map (\<lambda>r. map (Pair r) (unanswered (callStates rs) r)) rs)) = []"
    by (auto simp: filter_empty_conv)
  then show ?thesis using assms(2) by (auto simp: recoverTranscript_def Let_def)
qed

lemma recover_settled:
  "recoverTranscript (records @ additions_of limit records) = ([], \<lparr>rec_TurnID = [], rec_UnknownOutcomes = []\<rparr>)"
proof (rule recover_nothing)
  fix r c assume *: "r \<in> set (records @ additions_of limit records)" "r_Type r = recordAssistant" "c \<in> set (r_Calls r)"
  then have "r \<in> set records" using addition_type by fastforce
  then show "fst (callStates (records @ additions_of limit records)) (call_key (r_Response r) (tc_ID c)) \<noteq> None"
    using settled_answered * by blast
qed (simp add: settled_open settled_ended)

lemma unknown_reported:
  "set (rec_UnknownOutcomes (snd (recoverTranscript records))) =
     {(tc_ID c, tc_Name c) | r c. r \<in> set records \<and> r_Type r = recordAssistant \<and> c \<in> set (r_Calls r)
        \<and> (\<exists>q\<in>set records. r_Type q = recordToolCall \<and> r_key q = call_key (r_Response r) (tc_ID c))
        \<and> \<not> (\<exists>q\<in>set records. r_Type q = recordToolResult \<and> r_key q = call_key (r_Response r) (tc_ID c))}"
  (is "_ = ?R")
proof -
  have "set (rec_UnknownOutcomes (snd (recoverTranscript records))) =
     {(tc_ID c, tc_Name c) | r c. r \<in> set records \<and> c \<in> set (unanswered (callStates records) r)
        \<and> call_key (r_Response r) (tc_ID c) \<in> snd (callStates records)}"
    by (auto simp: recoverTranscript_def Let_def image_iff)
  also have "\<dots> = ?R" unfolding unanswered_in result_none started_iff by blast
  finally show ?thesis .
qed

text \<open>
  C12. Reopening settles what the last process left, once and without running anything: the restored
  transcript extends the old one by error results and a turn end only, so no call is recorded as started
  again; recovering it a second time finds nothing; every call of every response then has a result; and the
  calls reported as of unknown outcome are exactly those recorded as started with no recorded result.
\<close>

theorem recovery_settles:
  assumes "restoreAPIRecovery limit records = (restored, recovery)"
  shows "(\<exists>settled. restored = records @ settled
            \<and> (\<forall>a\<in>set settled. r_Type a = recordToolResult \<and> r_IsError a
                  \<and> r_Outcome a = (if r_key a \<in> snd (callStates records) then outcomeUnknown else outcomeNotRun)
                \<or> r_Type a = recordTurnEnd \<and> r_Status a = ''interrupted'' \<and> r_Turn a = last_open records))
    \<and> restoreAPIRecovery limit restored = (restored, \<lparr>rec_TurnID = [], rec_UnknownOutcomes = []\<rparr>)
    \<and> (\<forall>r\<in>set restored. r_Type r = recordAssistant \<longrightarrow> (\<forall>c\<in>set (r_Calls r).
          \<exists>q\<in>set restored. r_Type q = recordToolResult \<and> r_key q = call_key (r_Response r) (tc_ID c)))
    \<and> set (rec_UnknownOutcomes recovery) =
        {(tc_ID c, tc_Name c) | r c. r \<in> set records \<and> r_Type r = recordAssistant \<and> c \<in> set (r_Calls r)
          \<and> (\<exists>q\<in>set records. r_Type q = recordToolCall \<and> r_key q = call_key (r_Response r) (tc_ID c))
          \<and> \<not> (\<exists>q\<in>set records. r_Type q = recordToolResult \<and> r_key q = call_key (r_Response r) (tc_ID c))}"
proof (intro conjI)
  have r: "restored = records @ additions_of limit records" and c: "recovery = snd (recoverTranscript records)"
    using assms by (auto simp: restore_eq)
  have "\<forall>a\<in>set (additions_of limit records). r_Type a = recordToolResult \<and> r_IsError a
                  \<and> r_Outcome a = (if r_key a \<in> snd (callStates records) then outcomeUnknown else outcomeNotRun)
                \<or> r_Type a = recordTurnEnd \<and> r_Status a = ''interrupted'' \<and> r_Turn a = last_open records"
    by (auto elim!: addition_cases)
  then show "\<exists>settled. restored = records @ settled
            \<and> (\<forall>a\<in>set settled. r_Type a = recordToolResult \<and> r_IsError a
                  \<and> r_Outcome a = (if r_key a \<in> snd (callStates records) then outcomeUnknown else outcomeNotRun)
                \<or> r_Type a = recordTurnEnd \<and> r_Status a = ''interrupted'' \<and> r_Turn a = last_open records)"
    using r by blast
  show "restoreAPIRecovery limit restored = (restored, \<lparr>rec_TurnID = [], rec_UnknownOutcomes = []\<rparr>)"
    unfolding r restore_eq [of limit "records @ _"] by (simp add: recover_settled additions_of_def [of limit "records @ _"])
  show "\<forall>r\<in>set restored. r_Type r = recordAssistant \<longrightarrow> (\<forall>c\<in>set (r_Calls r).
          \<exists>q\<in>set restored. r_Type q = recordToolResult \<and> r_key q = call_key (r_Response r) (tc_ID c))"
    using settled_answered [of _ records _ limit] addition_type [of _ limit records] unfolding r result_none by fastforce
  show "set (rec_UnknownOutcomes recovery) =
        {(tc_ID c, tc_Name c) | r c. r \<in> set records \<and> r_Type r = recordAssistant \<and> c \<in> set (r_Calls r)
          \<and> (\<exists>q\<in>set records. r_Type q = recordToolCall \<and> r_key q = call_key (r_Response r) (tc_ID c))
          \<and> \<not> (\<exists>q\<in>set records. r_Type q = recordToolResult \<and> r_key q = call_key (r_Response r) (tc_ID c))}"
    unfolding c by (rule unknown_reported)
qed

text \<open>A crash after a recorded call, as the witnesses use it: two calls, the first started, neither answered.\<close>

definition demo_call :: "string \<Rightarrow> tool_call" where
  "demo_call i = \<lparr>tc_ID = i, tc_Type = ''function'', tc_Name = ''write_file'', tc_Arguments = ''{}'', tc_Replay = []\<rparr>"

definition demo_crash :: "trecord list" where
  "demo_crash =
     [header_record \<lparr>ref_Engine = OpenAICompatible, ref_ID = ''7'', ref_ConfigHash = ''c''\<rparr>,
      blank recordTurnStart ''t1'', (blank recordUser ''t1'')\<lparr>r_Text := ''go''\<rparr>,
      (blank recordAssistant ''t1'')\<lparr>r_Response := 1, r_Calls := [demo_call ''a'', demo_call ''b'']\<rparr>,
      (blank recordToolCall ''t1'')\<lparr>r_Response := 1, r_Call := ''a'', r_Tool := ''write_file''\<rparr>]"

lemmas demo_crash_defs = demo_crash_def demo_call_def header_record_def blank_def

theorem recovery_settles_witness:
  "rec_UnknownOutcomes (snd (restoreAPIRecovery 1000 demo_crash)) = [(''a'', ''write_file'')]
   \<and> restoreAPIRecovery 1000 (fst (restoreAPIRecovery 1000 demo_crash)) =
       (fst (restoreAPIRecovery 1000 demo_crash), \<lparr>rec_TurnID = [], rec_UnknownOutcomes = []\<rparr>)"
proof
  show "rec_UnknownOutcomes (snd (restoreAPIRecovery 1000 demo_crash)) = [(''a'', ''write_file'')]"
    by (simp add: restore_eq recoverTranscript_def Let_def demo_crash_defs callStates_def call_state_def unanswered_def r_key_def call_key_def)
  show "restoreAPIRecovery 1000 (fst (restoreAPIRecovery 1000 demo_crash)) =
       (fst (restoreAPIRecovery 1000 demo_crash), \<lparr>rec_TurnID = [], rec_UnknownOutcomes = []\<rparr>)"
    using recovery_settles [OF prod.collapse [symmetric], of 1000 demo_crash] by blast
qed

section \<open>The history before and after recovery\<close>

lemma bound_idem: "bound (bound s limit) limit = bound s limit"
proof (cases "limit < 0")
  case True
  then show ?thesis using bound_length [of s limit] bound_length [of "bound s limit" limit] by simp
next
  case False
  then show ?thesis using bound_length [of s limit] by (intro bound_id) simp
qed

lemma settled_answer:
  "bound (answer_text (callStates (records @ additions_of limit records)) k) limit = bound (answer_text (callStates records) k) limit"
proof (cases "fst (callStates records) k")
  case None
  show ?thesis
  proof (cases "fst (callStates (records @ additions_of limit records)) k")
    case (Some q)
    then have "q \<in> set (additions_of limit records)" "r_Type q = recordToolResult" "r_key q = k"
      using result_some [OF Some] None unfolding result_none by auto
    then have "r_Text q = bound (answer_text (callStates records) k) limit" using addition_text by blast
    then show ?thesis using Some by (simp add: answer_text_def bound_idem)
  qed (use None in \<open>simp add: answer_text_def settled_started\<close>)
qed (simp add: answer_text_def settled_kept)

lemma settled_messages:
  "record_messages (callStates (records @ additions_of limit records)) limit = record_messages (callStates records) limit"
  by (rule ext) (simp add: record_messages_def settled_answer)

lemma additions_silent: "concat (map (record_messages s limit) (additions_of limit' records)) = []"
  using addition_type by (fastforce simp: record_messages_def)

text \<open>
  C13. Recovery does not change what the model is told: the history sent after the settling records are written,
  read back from the restored transcript, is the history the unsettled records already gave, message for message,
  whatever the system text and the result bound.
\<close>

theorem recovery_preserves_conversation:
  "conversation (fst (restoreAPIRecovery limit records)) system limit = conversation records system limit"
  by (simp add: conversation_def restore_eq settled_messages additions_silent)

text \<open>
  What Chat Completions requires of a history: each call of a response is answered, in order, directly after it,
  and nothing else is an answer. \<open>pending\<close> are the calls still to be answered.
\<close>

fun chat_ordered :: "string list \<Rightarrow> message list \<Rightarrow> bool" where
  "chat_ordered pending [] \<longleftrightarrow> pending = []"
| "chat_ordered pending (m # ms) \<longleftrightarrow>
     (if m_Role m = ''tool'' then pending \<noteq> [] \<and> m_ToolCallID m = hd pending \<and> chat_ordered (tl pending) ms
      else pending = [] \<and> chat_ordered (map tc_ID (m_ToolCalls m)) ms)"

lemma chat_ordered_answers:
  "chat_ordered (map tc_ID cs) (map (\<lambda>c. (plain_message ''tool'' (f c))\<lparr>m_ToolCallID := tc_ID c\<rparr>) cs @ ms) = chat_ordered [] ms"
  by (induction cs) (simp_all add: plain_message_def)

lemma chat_ordered_records:
  "chat_ordered [] (concat (map (record_messages s limit) rs))"
proof (induction rs)
  case (Cons r rs)
  have *: "m_Role (m\<lparr>m_ToolCalls := c, m_Replay := q\<rparr>) = m_Role m" "m_ToolCalls (m\<lparr>m_ToolCalls := c, m_Replay := q\<rparr>) = c" for m c q
    by simp_all
  show ?case using Cons by (auto simp: record_messages_def chat_ordered_answers plain_message_def [of "''user''"] plain_message_def [of "''assistant''"])
qed simp

lemma record_tool_bounded:
  "m \<in> set (record_messages s limit r) \<Longrightarrow> m_Role m = ''tool'' \<Longrightarrow> int (length (m_Content m)) \<le> max 0 limit"
  using bound_length by (auto simp: record_messages_def plain_message_def split: if_splits)

text \<open>
  C14. Every history a request carries is one the endpoint accepts, whatever state the records are in: the system
  text comes first, each call's one answer directly follows the response that made it, in the order of the
  calls, and no answer is longer than the result bound.
\<close>

theorem conversation_wellformed:
  "chat_ordered [] (conversation records system limit)
   \<and> (\<forall>m\<in>set (conversation records system limit). m_Role m = ''tool'' \<longrightarrow> int (length (m_Content m)) \<le> max 0 limit)"
proof
  show "chat_ordered [] (conversation records system limit)"
    using chat_ordered_records [of "callStates records" limit records] by (simp add: conversation_def plain_message_def)
  show "\<forall>m\<in>set (conversation records system limit). m_Role m = ''tool'' \<longrightarrow> int (length (m_Content m)) \<le> max 0 limit"
  proof (intro ballI impI)
    fix m assume m: "m \<in> set (conversation records system limit)" "m_Role m = ''tool''"
    then obtain r where "m \<in> set (record_messages (callStates records) limit r)"
      by (auto simp: conversation_def plain_message_def split: if_splits)
    then show "int (length (m_Content m)) \<le> max 0 limit" using m(2) by (rule record_tool_bounded)
  qed
qed

theorem conversation_wellformed_witness:
  "chat_ordered [] (conversation demo_crash ''sys'' 20) \<and> length (conversation demo_crash ''sys'' 20) = 5
   \<and> length (m_Content (conversation demo_crash ''sys'' 20 ! 3)) \<le> 20"
proof -
  have l: "length (conversation demo_crash ''sys'' 20) = 5"
    by (simp add: conversation_def record_messages_def demo_crash_defs)
  have r: "m_Role (conversation demo_crash ''sys'' 20 ! 3) = ''tool''"
    by (simp add: conversation_def record_messages_def demo_crash_defs plain_message_def)
  have "conversation demo_crash ''sys'' 20 ! 3 \<in> set (conversation demo_crash ''sys'' 20)" by (rule nth_mem) (simp add: l)
  then show ?thesis using conversation_wellformed [of demo_crash "''sys''" 20] l r by fastforce
qed

section \<open>What a crash leaves of the file\<close>

definition lines_of :: "(trecord \<Rightarrow> string) \<Rightarrow> trecord list \<Rightarrow> string" where
  "lines_of enc rs = concat (map (line_of enc) rs)"

text \<open>
  What the file needs of \<open>json.Marshal\<close> and \<open>json.Unmarshal\<close> on the records a session writes: they are inverse (so
  their strings are valid UTF-8 and their raw JSON compact), and a marshalled value is one non-empty line.
\<close>

definition record_codec :: "(trecord \<Rightarrow> string) \<Rightarrow> (string \<Rightarrow> trecord option) \<Rightarrow> trecord list \<Rightarrow> bool" where
  "record_codec enc dec rs \<longleftrightarrow>
     (\<forall>r\<in>set rs. dec (enc r) = Some r \<and> CHR 0x0A \<notin> set (enc r) \<and> enc r \<noteq> [] \<and> r_Type r \<noteq> [])"

lemma codec_take: "record_codec enc dec rs \<Longrightarrow> record_codec enc dec (take k rs)"
  unfolding record_codec_def by (meson in_set_takeD)

lemma complete_lines_snoc: "CHR 0x0A \<notin> set rest \<Longrightarrow> complete_lines (xs @ CHR 0x0A # rest) = xs @ [CHR 0x0A]"
  by (induction rest rule: rev_induct) (auto simp: complete_lines_def)

lemma complete_lines_of:
  assumes "CHR 0x0A \<notin> set rest"
  shows "complete_lines (lines_of enc rs @ rest) = lines_of enc rs"
proof (cases rs rule: rev_cases)
  case Nil
  have "dropWhile (\<lambda>c. c \<noteq> CHR 0x0A) (rev rest) = []" using assms by (auto simp: dropWhile_eq_Nil_conv)
  then show ?thesis using Nil by (simp add: complete_lines_def lines_of_def)
next
  case (snoc ys y)
  then show ?thesis using complete_lines_snoc [OF assms, of "lines_of enc ys @ enc y"] by (simp add: lines_of_def line_of_def)
qed

lemma decode_lines_of:
  "record_codec enc dec rs \<Longrightarrow> decode_lines dec (strings_Split (lines_of enc rs) (CHR 0x0A)) = Some rs"
  by (induction rs) (simp_all add: lines_of_def line_of_def Split_append record_codec_def)

lemma prefix_length_le_eq: "prefix xs ys \<Longrightarrow> \<not> length xs < length ys \<Longrightarrow> xs = ys"
  by (auto simp: prefix_def)

text \<open>Any byte prefix is some whole lines and a part of the next with no newline in it.\<close>

lemma prefix_lines:
  "record_codec enc dec rs \<Longrightarrow> prefix data (lines_of enc rs) \<Longrightarrow> \<exists>k rest. k \<le> length rs \<and> data = lines_of enc (take k rs) @ rest \<and> CHR 0x0A \<notin> set rest
     \<and> (k < length rs \<longrightarrow> length rest < length (line_of enc (rs ! k)))"
proof (induction rs arbitrary: data)
  case (Cons r rs)
  show ?case
  proof (cases "length data < length (line_of enc r)")
    case True
    then have "prefix data (enc r)"
      using Cons.prems(2) by (auto simp: lines_of_def line_of_def prefix_def append_eq_append_conv2 append_eq_Cons_conv)
    then have "CHR 0x0A \<notin> set data" using Cons.prems(1) set_mono_prefix by (fastforce simp: record_codec_def)
    then show ?thesis using True by (intro exI [of _ 0] exI [of _ data]) (simp add: lines_of_def)
  next
    case False
    then obtain d where d: "data = line_of enc r @ d" "prefix d (lines_of enc rs)"
    proof -
      consider "prefix data (line_of enc r)" | us where "data = line_of enc r @ us" "prefix us (lines_of enc rs)"
        using Cons.prems(2) by (auto simp: lines_of_def prefix_append)
      then show thesis
      proof cases
        case 1
        then have "data = line_of enc r" using False by (rule prefix_length_le_eq)
        then show thesis using that [of "[]"] by simp
      qed (rule that)
    qed
    have "record_codec enc dec rs" using Cons.prems(1) by (simp add: record_codec_def)
    from Cons.IH [OF this d(2)] obtain k rest where "k \<le> length rs" "d = lines_of enc (take k rs) @ rest" "CHR 0x0A \<notin> set rest"
      "k < length rs \<longrightarrow> length rest < length (line_of enc (rs ! k))" by blast
    then show ?thesis using d by (intro exI [of _ "Suc k"] exI [of _ rest]) (simp add: lines_of_def)
  qed
qed (simp add: lines_of_def)

lemma lines_mono: "j \<le> k \<Longrightarrow> length (lines_of enc (take j rs)) \<le> length (lines_of enc (take k rs))"
proof -
  assume "j \<le> k"
  then have "take k rs = take j rs @ take (k - j) (drop j rs)" by (metis le_add_diff_inverse take_add)
  then show ?thesis by (simp add: lines_of_def)
qed

lemma parse_lines:
  "record_codec enc dec (header_record ref # rs) \<Longrightarrow>
     parseRecords dec (lines_of enc (header_record ref # rs)) ref = Some (header_record ref # rs)"
  using decode_lines_of [of enc dec "header_record ref # rs"]
  by (simp add: parseRecords_def header_ok_def) (simp add: header_record_def blank_def)

lemma crash_opens:
  assumes codec: "record_codec enc dec (header_record ref # rs)" and data: "prefix data (lines_of enc (header_record ref # rs))"
    and j: "j \<le> length rs" "length (lines_of enc (header_record ref # take j rs)) \<le> length data"
  shows "\<exists>k\<ge>j. k \<le> length rs \<and> openTranscript dec (Some data) True ref =
      Inr (\<lparr>t_bytes = lines_of enc (header_record ref # take k rs), t_closed = False\<rparr>, header_record ref # take k rs)"
proof -
  let ?all = "header_record ref # rs"
  obtain k rest where k: "k \<le> length ?all" "data = lines_of enc (take k ?all) @ rest" "CHR 0x0A \<notin> set rest"
      "k < length ?all \<longrightarrow> length rest < length (line_of enc (?all ! k))"
    using prefix_lines [OF codec data] by blast
  have "Suc j \<le> k"
  proof (rule ccontr)
    assume "\<not> Suc j \<le> k"
    then have "k < length ?all" "Suc k \<le> Suc j" using j(1) by auto
    then have "length data < length (lines_of enc (take (Suc k) ?all))"
      using k(2,4) by (simp add: take_Suc_conv_app_nth lines_of_def del: take_Suc_Cons)
    also have "\<dots> \<le> length (lines_of enc (take (Suc j) ?all))" using \<open>Suc k \<le> Suc j\<close> by (rule lines_mono)
    finally show False using j(2) by simp
  qed
  then obtain i where i: "k = Suc i" "j \<le> i" by (cases k) auto
  have "record_codec enc dec (header_record ref # take i rs)" using codec_take [OF codec, of k] by (simp add: i)
  from parse_lines [OF this] show ?thesis using i k(1) complete_lines_of [OF k(3), of enc "take k ?all"]
    by (intro exI [of _ i]) (simp add: openTranscript_def k(2) i(1))
qed

text \<open>A session's appends, each written in full.\<close>

definition append_all :: "(trecord \<Rightarrow> string) \<Rightarrow> transcript \<Rightarrow> trecord list \<Rightarrow> transcript" where
  "append_all enc t rs = foldl (\<lambda>t r. fst (append_record enc t r Written)) t rs"

lemma append_all_lines:
  "\<not> t_closed t \<Longrightarrow> append_all enc t rs = t\<lparr>t_bytes := t_bytes t @ lines_of enc rs\<rparr>"
  unfolding append_all_def by (induction rs rule: rev_induct) (simp_all add: lines_of_def append_record_def)

lemma created_lines:
  "createTranscript enc ref Written = Inr (t, rs) \<Longrightarrow>
     t = \<lparr>t_bytes = lines_of enc [header_record ref], t_closed = False\<rparr> \<and> rs = [header_record ref]"
  by (auto simp: createTranscript_def append_record_def lines_of_def)

text \<open>
  C11. The transcript is durable against a crash at any byte. A session is created and writes records \<open>rs\<close>; the crash
  leaves any prefix of the file that still holds the header and the first \<open>j\<close> records (those already synced). Reopening
  it succeeds, and reads back exactly the header and the first \<open>k \<ge> j\<close> records the session wrote, as written and in
  order, with the file cut back to those whole lines, so the next append continues from there.
\<close>

theorem transcript_crash_roundtrip:
  assumes "record_codec enc dec (header_record ref # rs)"
    and "createTranscript enc ref Written = Inr (t, rs0)"
    and "prefix data (t_bytes (append_all enc t rs))"
    and "j \<le> length rs" "length (t_bytes (append_all enc t (take j rs))) \<le> length data"
  shows "\<exists>k\<ge>j. k \<le> length rs \<and> openTranscript dec (Some data) True ref = Inr (append_all enc t (take k rs), rs0 @ take k rs)"
proof -
  have t: "t = \<lparr>t_bytes = lines_of enc [header_record ref], t_closed = False\<rparr>" "rs0 = [header_record ref]"
    using created_lines [OF assms(2)] by auto
  have l: "append_all enc t xs = \<lparr>t_bytes = lines_of enc (header_record ref # xs), t_closed = False\<rparr>" for xs
    by (simp add: append_all_lines t(1)) (simp add: lines_of_def)
  show ?thesis using crash_opens [OF assms(1), of data j] assms(3-5) unfolding l t(2) by simp
qed

text \<open>A codec for two records, and a crash in the middle of the second one's line.\<close>

definition demo_ref :: reference where
  "demo_ref = \<lparr>ref_Engine = OpenAICompatible, ref_ID = ''7'', ref_ConfigHash = ''c''\<rparr>"

definition demo_enc :: "trecord \<Rightarrow> string" where
  "demo_enc r = r_Type r @ CHR '':'' # r_Text r"

definition demo_dec :: "trecord list \<Rightarrow> string \<Rightarrow> trecord option" where
  "demo_dec rs line = map_of (map (\<lambda>r. (demo_enc r, r)) rs) line"

definition demo_written :: "trecord list" where
  "demo_written = [blank recordTurnStart ''t1'', (blank recordUser ''t1'')\<lparr>r_Text := ''go''\<rparr>]"

lemmas demo_file_defs = demo_ref_def demo_enc_def demo_dec_def demo_written_def header_record_def blank_def

theorem transcript_crash_roundtrip_witness:
  "\<exists>t k. createTranscript demo_enc demo_ref Written = Inr (t, [header_record demo_ref]) \<and> k \<ge> 1 \<and> k \<le> 2 \<and>
     openTranscript (demo_dec (header_record demo_ref # demo_written))
       (Some (t_bytes (append_all demo_enc t (take 1 demo_written)) @ ''us'')) True demo_ref
       = Inr (append_all demo_enc t (take k demo_written), header_record demo_ref # take k demo_written)"
proof -
  let ?t = "\<lparr>t_bytes = lines_of demo_enc [header_record demo_ref], t_closed = False\<rparr>"
  have c: "createTranscript demo_enc demo_ref Written = Inr (?t, [header_record demo_ref])"
    by (simp add: createTranscript_def append_record_def lines_of_def)
  have codec: "record_codec demo_enc (demo_dec (header_record demo_ref # demo_written)) (header_record demo_ref # demo_written)"
    by (simp add: record_codec_def demo_file_defs)
  have p: "prefix (t_bytes (append_all demo_enc ?t (take 1 demo_written)) @ ''us'') (t_bytes (append_all demo_enc ?t demo_written))"
    by (simp add: append_all_lines lines_of_def demo_file_defs line_of_def)
  have n: "length demo_written = 2" by (simp add: demo_written_def)
  show ?thesis using transcript_crash_roundtrip [OF codec c p, of 1] c n by auto
qed

section \<open>A torn append that is written over\<close>

text \<open>
  Nothing stops a session from appending after an append that failed half way: \<open>runAPITurn\<close> answers the calls it
  skips after a failed record. The line the torn bytes and the next record share is no record, and the conversation
  can never be opened again, although both the records before and the one after were written whole.
\<close>

theorem torn_append_corrupts:
  assumes "record_codec enc dec (header_record ref # rs)" "CHR 0x0A \<notin> set (enc r1)" "CHR 0x0A \<notin> set (enc r2)" "n > 0"
    and glued: "dec (take n (enc r1) @ enc r2) = None" "enc r2 \<noteq> []"
    and t: "t = \<lparr>t_bytes = lines_of enc (header_record ref # rs), t_closed = False\<rparr>"
    and torn: "append_record enc t r1 (Torn n) = (t1, e1)" and later: "append_record enc t1 r2 Written = (t2, e2)"
  shows "e1 = Some (StateError StateUnwritable) \<and> e2 = None \<and> openTranscript dec (Some (t_bytes t2)) truncates ref = Inl (StateError StateCorrupt)"
proof -
  let ?L = "lines_of enc (header_record ref # rs)" and ?g = "take n (enc r1) @ enc r2"
  have b: "t_bytes t2 = ?L @ ?g @ [CHR 0x0A]" "e1 = Some (StateError StateUnwritable)" "e2 = None"
    using t torn later by (auto simp: append_record_def line_of_def)
  have g: "CHR 0x0A \<notin> set ?g" "?g \<noteq> []" using assms(2,3) glued(2) by (auto dest: in_set_takeD)
  have "decode_lines dec (strings_Split (lines_of enc xs @ ?g @ [CHR 0x0A]) (CHR 0x0A)) = None"
    if "record_codec enc dec xs" for xs
    using that Split_append [OF g(1), of "[]"] glued
    by (induction xs) (simp_all add: lines_of_def line_of_def Split_append record_codec_def)
  then have "parseRecords dec (t_bytes t2) ref = None" using assms(1) by (simp add: parseRecords_def b)
  moreover have "complete_lines (t_bytes t2) = t_bytes t2"
    using complete_lines_snoc [of "[]" "?L @ ?g"] by (simp add: b)
  ultimately show ?thesis using b by (simp add: openTranscript_def)
qed

theorem torn_append_corrupts_witness:
  "\<exists>t1 t2. append_record demo_enc \<lparr>t_bytes = lines_of demo_enc [header_record demo_ref], t_closed = False\<rparr> (demo_written ! 0) (Torn 2)
        = (t1, Some (StateError StateUnwritable))
     \<and> append_record demo_enc t1 (demo_written ! 1) Written = (t2, None)
     \<and> openTranscript (demo_dec (header_record demo_ref # demo_written)) (Some (t_bytes t2)) True demo_ref = Inl (StateError StateCorrupt)"
proof -
  let ?dec = "demo_dec (header_record demo_ref # demo_written)"
  let ?t = "\<lparr>t_bytes = lines_of demo_enc [header_record demo_ref], t_closed = False\<rparr>"
  obtain t1 e1 where t1: "append_record demo_enc ?t (demo_written ! 0) (Torn 2) = (t1, e1)" by fastforce
  obtain t2 e2 where t2: "append_record demo_enc t1 (demo_written ! 1) Written = (t2, e2)" by fastforce
  have codec: "record_codec demo_enc ?dec [header_record demo_ref]" by (simp add: record_codec_def demo_file_defs)
  have lines: "CHR 0x0A \<notin> set (demo_enc (demo_written ! 0))" "CHR 0x0A \<notin> set (demo_enc (demo_written ! 1))" "demo_enc (demo_written ! 1) \<noteq> []"
    by (simp_all add: demo_file_defs)
  have glued: "?dec (take 2 (demo_enc (demo_written ! 0)) @ demo_enc (demo_written ! 1)) = None" by (simp add: demo_file_defs)
  show ?thesis using torn_append_corrupts [OF codec lines(1,2) _ glued lines(3) refl t1 t2] t1 t2 by auto
qed

end
