(* ===== verification/Json_Text.thy ===== *)
theory Json_Text
  imports Redact Json_Schema
begin

text \<open>
  The bytes of JSON as the library uses package encoding/json: \<open>json.Valid\<close>, the encoding of a string by \<open>json.Marshal\<close>, and the
  compaction it applies to a \<open>json.RawMessage\<close>. The scanner is the pushdown automaton of the package, with its limit of nesting.
\<close>

section \<open>The scanner\<close>

datatype parse_state = ParseObjectKey | ParseObjectValue | ParseArrayValue

datatype scan_state = BeginValue | BeginValueOrEmpty | BeginStringOrEmpty | BeginString | EndValue | EndTop
  | InString | InStringEsc | InStringEscU nat | ScanNeg | Scan1 | Scan0 | ScanDot | ScanDot0 | ScanE | ScanESign | ScanE0
  | InLiteral string

type_synonym scanner = "scan_state \<times> parse_state list"

definition maxNestingDepth :: nat where
  "maxNestingDepth = 10000"

definition json_space :: "char \<Rightarrow> bool" where
  "json_space c \<longleftrightarrow> c = CHR '' '' \<or> c = CHR 0x09 \<or> c = CHR 0x0D \<or> c = CHR 0x0A"

definition json_digit :: "char \<Rightarrow> bool" where
  "json_digit c \<longleftrightarrow> 48 \<le> (of_char c :: nat) \<and> (of_char c :: nat) \<le> 57"

definition json_hex :: "char \<Rightarrow> bool" where
  "json_hex c \<longleftrightarrow> json_digit c \<or> (97 \<le> (of_char c :: nat) \<and> (of_char c :: nat) \<le> 102) \<or> (65 \<le> (of_char c :: nat) \<and> (of_char c :: nat) \<le> 70)"

definition push_state :: "scan_state \<Rightarrow> parse_state \<Rightarrow> parse_state list \<Rightarrow> scanner option" where
  "push_state next p ps = (if Suc (length ps) \<le> maxNestingDepth then Some (next, p # ps) else None)"

fun pop_state :: "parse_state list \<Rightarrow> scanner option" where
  "pop_state [] = None"
| "pop_state [p] = Some (EndTop, [])"
| "pop_state (p # ps) = Some (EndValue, ps)"

fun scan_end_value :: "parse_state list \<Rightarrow> char \<Rightarrow> scanner option" where
  "scan_end_value [] c = (if json_space c then Some (EndTop, []) else None)"
| "scan_end_value (p # ps) c =
     (if json_space c then Some (EndValue, p # ps)
      else case p of
        ParseObjectKey \<Rightarrow> if c = CHR '':'' then Some (BeginValue, ParseObjectValue # ps) else None
      | ParseObjectValue \<Rightarrow> if c = CHR '','' then Some (BeginString, ParseObjectKey # ps) else if c = CHR ''}'' then pop_state (p # ps) else None
      | ParseArrayValue \<Rightarrow> if c = CHR '','' then Some (BeginValue, p # ps) else if c = CHR '']'' then pop_state (p # ps) else None)"

definition scan_begin_value :: "parse_state list \<Rightarrow> char \<Rightarrow> scanner option" where
  "scan_begin_value ps c =
     (if json_space c then Some (BeginValue, ps)
      else if c = CHR ''{'' then push_state BeginStringOrEmpty ParseObjectKey ps
      else if c = CHR ''['' then push_state BeginValueOrEmpty ParseArrayValue ps
      else if c = CHR 0x22 then Some (InString, ps)
      else if c = CHR ''-'' then Some (ScanNeg, ps)
      else if c = CHR ''0'' then Some (Scan0, ps)
      else if c = CHR ''t'' then Some (InLiteral ''rue'', ps)
      else if c = CHR ''f'' then Some (InLiteral ''alse'', ps)
      else if c = CHR ''n'' then Some (InLiteral ''ull'', ps)
      else if json_digit c then Some (Scan1, ps)
      else None)"

definition scan_begin_string :: "parse_state list \<Rightarrow> char \<Rightarrow> scanner option" where
  "scan_begin_string ps c = (if json_space c then Some (BeginString, ps) else if c = CHR 0x22 then Some (InString, ps) else None)"

definition scan_0 :: "parse_state list \<Rightarrow> char \<Rightarrow> scanner option" where
  "scan_0 ps c =
     (if c = CHR ''.'' then Some (ScanDot, ps) else if c = CHR ''e'' \<or> c = CHR ''E'' then Some (ScanE, ps) else scan_end_value ps c)"

definition scan_e_sign :: "parse_state list \<Rightarrow> char \<Rightarrow> scanner option" where
  "scan_e_sign ps c = (if json_digit c then Some (ScanE0, ps) else None)"

fun scan_step :: "scanner \<Rightarrow> char \<Rightarrow> scanner option" where
  "scan_step (BeginValue, ps) c = scan_begin_value ps c"
| "scan_step (BeginValueOrEmpty, ps) c =
     (if json_space c then Some (BeginValueOrEmpty, ps) else if c = CHR '']'' then scan_end_value ps c else scan_begin_value ps c)"
| "scan_step (BeginStringOrEmpty, ps) c =
     (if json_space c then Some (BeginStringOrEmpty, ps)
      else if c = CHR ''}'' then scan_end_value (ParseObjectValue # tl ps) c else scan_begin_string ps c)"
| "scan_step (BeginString, ps) c = scan_begin_string ps c"
| "scan_step (EndValue, ps) c = scan_end_value ps c"
| "scan_step (EndTop, ps) c = (if json_space c then Some (EndTop, ps) else None)"
| "scan_step (InString, ps) c =
     (if c = CHR 0x22 then Some (EndValue, ps) else if c = CHR 92 then Some (InStringEsc, ps)
      else if (of_char c :: nat) < 32 then None else Some (InString, ps))"
| "scan_step (InStringEsc, ps) c =
     (if c \<in> set ''bfnrt/'' \<or> c = CHR 92 \<or> c = CHR 0x22 then Some (InString, ps)
      else if c = CHR ''u'' then Some (InStringEscU 3, ps) else None)"
| "scan_step (InStringEscU n, ps) c =
     (if json_hex c then Some (if n = 0 then InString else InStringEscU (n - 1), ps) else None)"
| "scan_step (ScanNeg, ps) c = (if c = CHR ''0'' then Some (Scan0, ps) else if json_digit c then Some (Scan1, ps) else None)"
| "scan_step (Scan1, ps) c = (if json_digit c then Some (Scan1, ps) else scan_0 ps c)"
| "scan_step (Scan0, ps) c = scan_0 ps c"
| "scan_step (ScanDot, ps) c = (if json_digit c then Some (ScanDot0, ps) else None)"
| "scan_step (ScanDot0, ps) c =
     (if json_digit c then Some (ScanDot0, ps) else if c = CHR ''e'' \<or> c = CHR ''E'' then Some (ScanE, ps) else scan_end_value ps c)"
| "scan_step (ScanE, ps) c = (if c = CHR ''+'' \<or> c = CHR ''-'' then Some (ScanESign, ps) else scan_e_sign ps c)"
| "scan_step (ScanESign, ps) c = scan_e_sign ps c"
| "scan_step (ScanE0, ps) c = (if json_digit c then Some (ScanE0, ps) else scan_end_value ps c)"
| "scan_step (InLiteral [], ps) c = scan_end_value ps c"
| "scan_step (InLiteral (k # ks), ps) c = (if c = k then Some (if ks = [] then EndValue else InLiteral ks, ps) else None)"

fun scan :: "scanner \<Rightarrow> string \<Rightarrow> scanner option" where
  "scan s [] = Some s"
| "scan s (c # cs) = (case scan_step s c of None \<Rightarrow> None | Some s' \<Rightarrow> scan s' cs)"

text \<open>\<open>eof\<close>: the value is over, or is over once something follows it.\<close>

definition scan_eof :: "scanner \<Rightarrow> bool" where
  "scan_eof s \<longleftrightarrow> fst s = EndTop \<or> (case scan_step s CHR '' '' of Some s' \<Rightarrow> fst s' = EndTop | None \<Rightarrow> False)"

definition json_Valid :: "string \<Rightarrow> bool" where
  "json_Valid raw \<longleftrightarrow> (case scan (BeginValue, []) raw of None \<Rightarrow> False | Some s \<Rightarrow> scan_eof s)"

section \<open>Encoding\<close>

definition json_string :: "string \<Rightarrow> string" where
  "json_string s = [CHR 0x22] @ json_inner s @ [CHR 0x22]"

text \<open>
  What \<open>json.Marshal\<close> writes for a raw message: its bytes without the space between tokens, and with \<open><\<close>, \<open>>\<close>, \<open>&\<close> and the two line
  separators escaped.
\<close>

datatype compact_at = Between | InQuotes | AfterBackslash

fun compact_from :: "compact_at \<Rightarrow> string \<Rightarrow> string" where
  "compact_from at [] = []"
| "compact_from Between (c # cs) =
     (if json_space c then compact_from Between cs else c # compact_from (if c = CHR 0x22 then InQuotes else Between) cs)"
| "compact_from InQuotes (c # cs) =
     (if c = CHR ''<'' \<or> c = CHR ''>'' \<or> c = CHR ''&'' then json_escape_rune (of_char c, [c]) @ compact_from InQuotes cs
      else if c = char_of (0xE2 :: nat) \<and> take 1 cs = [char_of (0x80 :: nat)] \<and> take 1 (drop 1 cs) = [char_of (0xA8 :: nat)] then CHR 92 # ''u2028'' @ compact_from InQuotes (drop 2 cs)
      else if c = char_of (0xE2 :: nat) \<and> take 1 cs = [char_of (0x80 :: nat)] \<and> take 1 (drop 1 cs) = [char_of (0xA9 :: nat)] then CHR 92 # ''u2029'' @ compact_from InQuotes (drop 2 cs)
      else c # compact_from (if c = CHR 0x22 then Between else if c = CHR 92 then AfterBackslash else InQuotes) cs)"
| "compact_from AfterBackslash (c # cs) = c # compact_from InQuotes cs"

definition json_compact :: "string \<Rightarrow> string" where
  "json_compact raw = compact_from Between raw"

lemma scan_append: "scan s (xs @ ys) = (case scan s xs of None \<Rightarrow> None | Some s' \<Rightarrow> scan s' ys)"
  by (induction xs arbitrary: s) (auto split: option.splits)

section \<open>An encoded string is JSON\<close>

lemma hex_char_hex: "d < 16 \<Longrightarrow> json_hex (hex_char d)"
proof -
  assume "d < 16"
  then consider "d < 10" | "10 \<le> d" "d < 16" by linarith
  then show ?thesis by cases (auto simp: hex_char_def json_hex_def json_digit_def)
qed

lemma scan_plain: "list_all (\<lambda>c. 32 \<le> byte c \<and> byte c \<noteq> 34 \<and> byte c \<noteq> 92) cs \<Longrightarrow> scan (InString, ps) cs = Some (InString, ps)"
  by (induction cs) auto

lemma scan_unicode:
  "json_hex a \<Longrightarrow> json_hex b \<Longrightarrow> json_hex c \<Longrightarrow> json_hex d \<Longrightarrow> scan (InString, ps) [CHR 92, CHR ''u'', a, b, c, d] = Some (InString, ps)"
  by simp

lemma scan_escaped:
  assumes "(\<exists>c. r = byte c \<and> byte c < 0x80 \<and> bs = [c]) \<or> (0x80 \<le> r \<and> list_all (\<lambda>c. 0x80 \<le> byte c) bs)"
  shows "scan (InString, ps) (json_escape_rune (r, bs)) = Some (InString, ps)"
proof -
  have digits: "json_hex CHR ''0''" "json_hex CHR ''2''" "json_hex CHR ''8''" "json_hex CHR ''9''" "json_hex CHR ''f''" "json_hex CHR ''d''"
    by (simp_all add: json_hex_def json_digit_def)
  consider "r = 34" | "r = 92" | "r = 8" | "r = 12" | "r = 10" | "r = 13" | "r = 9"
    | "r \<notin> {34, 92, 8, 12, 10, 13, 9}" "r < 32 \<or> r = 60 \<or> r = 62 \<or> r = 38"
    | "r \<notin> {34, 92, 8, 12, 10, 13, 9}" "\<not> (r < 32 \<or> r = 60 \<or> r = 62 \<or> r = 38)" by blast
  then show ?thesis
  proof cases
    case 8
    then have "r < 256" by auto
    then have "json_hex (hex_char (r div 16))" "json_hex (hex_char (r mod 16))" by (auto intro!: hex_char_hex)
    then show ?thesis using 8 digits scan_unicode by (simp add: json_escape_rune_def)
  next
    case 9
    then have "list_all (\<lambda>c. 32 \<le> byte c \<and> byte c \<noteq> 34 \<and> byte c \<noteq> 92) bs" using assms by (auto simp: list_all_iff)
    then show ?thesis using 9 digits scan_plain by (simp add: json_escape_rune_def)
  qed (simp_all add: json_escape_rune_def)
qed

lemma scan_runes:
  "(\<And>r bs. (r, bs) \<in> set rs \<Longrightarrow> (\<exists>c. r = byte c \<and> byte c < 0x80 \<and> bs = [c]) \<or> (0x80 \<le> r \<and> list_all (\<lambda>c. 0x80 \<le> byte c) bs))
   \<Longrightarrow> scan (InString, ps) (concat (map json_escape_rune rs)) = Some (InString, ps)"
proof (induction rs)
  case (Cons p rs)
  obtain r bs where "p = (r, bs)" by (cases p)
  then show ?case using Cons scan_escaped [of r bs ps] by (simp add: scan_append)
qed simp

lemma scan_inner: "scan (InString, ps) (json_inner s) = Some (InString, ps)"
  unfolding json_inner_def using go_runes_bytes [of _ _ s] by (intro scan_runes) blast

lemma json_string_valid: "json_Valid (json_string s)"
proof -
  have "scan (BeginValue, []) (json_string s) = scan (InString, []) (json_inner s @ [CHR 0x22])"
    by (simp add: json_string_def scan_begin_value_def json_space_def)
  also have "\<dots> = Some (EndValue, [])" by (simp add: scan_append scan_inner)
  finally show ?thesis by (simp add: json_Valid_def scan_eof_def json_space_def)
qed

end
