(* ===== verification/Tool_Payload.thy ===== *)
theory Tool_Payload
  imports Json_Text "HOL-Library.List_Lexorder" "HOL-Library.Char_ord"
begin

text \<open>
  What a tool was asked and what it produced, as events carry it (session/events_tools.go): the credential of the tool channel
  taken out, arguments and results bounded, images decoded and counted. \<open>encoding/json\<close> has decoded a result's content; a
  content is its bytes and what they decode to.
\<close>

section \<open>Arguments and results\<close>

definition MaxToolPayloadBytes :: int where
  "MaxToolPayloadBytes = 65536"

definition scrub :: "string \<Rightarrow> string \<Rightarrow> string" where
  "scrub raw secret = (if length secret = 0 \<or> \<not> strings_Contains raw secret then raw else strings_ReplaceAll raw secret redacted)"

text \<open>The loop of \<open>boundToolInput\<close>; \<open>None\<close> would be a loop that never ends.\<close>

partial_function (option) bound_input_loop :: "int \<Rightarrow> string \<Rightarrow> bool \<Rightarrow> (string \<times> bool) option" where
  "bound_input_loop limit head truncated =
     (let encoded = json_string head in
      if int (length encoded) \<le> limit then Some (encoded, truncated)
      else bound_input_loop limit (Cut head (int (length head) - (int (length encoded) - limit))) True)"

definition bound_input_run :: "string \<Rightarrow> int \<Rightarrow> (string \<times> bool) option" where
  "bound_input_run raw limit =
     (if int (length raw) \<le> limit \<and> json_Valid raw then Some (raw, False)
      else bound_input_loop limit (Cut raw limit) (int (length raw) > limit))"

definition boundToolInput :: "string \<Rightarrow> int \<Rightarrow> string \<times> bool" where
  "boundToolInput raw limit = (case bound_input_run raw limit of Some r \<Rightarrow> r | None \<Rightarrow> ([], False))"

definition boundToolOutput :: "string \<Rightarrow> int \<Rightarrow> string \<times> bool" where
  "boundToolOutput s limit = (if int (length s) \<le> limit then (s, False) else (Cut s limit, True))"

section \<open>Images\<close>

definition MaxToolImages :: nat where
  "MaxToolImages = 4"

definition MaxToolImageBytes :: nat where
  "MaxToolImageBytes = 4194304"

definition toolImageTypes :: "string list" where
  "toolImageTypes = [''image/png'', ''image/jpeg'', ''image/gif'', ''image/webp'']"

record tool_image =
  im_MediaType :: string
  im_Data :: string

record tool_content_block =
  cb_Type :: string
  cb_Text :: string
  cb_Data :: string
  cb_MimeType :: string
  cb_SourceType :: string
  cb_SourceMediaType :: string
  cb_SourceData :: string

record tool_images =
  ti_images :: "tool_image list"
  ti_omitted :: nat

definition no_images :: tool_images where
  "no_images = \<lparr>ti_images = [], ti_omitted = 0\<rparr>"

text \<open>\<open>base64.StdEncoding.DecodeString\<close> of text without line breaks: quanta of four, padded.\<close>

definition base64_value :: "char \<Rightarrow> nat option" where
  "base64_value c =
     (if ascii_upper (byte c) then Some (byte c - 65)
      else if ascii_lower (byte c) then Some (byte c - 71)
      else if ascii_digit (byte c) then Some (byte c + 4)
      else if c = CHR ''+'' then Some 62 else if c = CHR ''/'' then Some 63 else None)"

fun base64_decode :: "string \<Rightarrow> string option" where
  "base64_decode [] = Some []"
| "base64_decode (a # b # c # d # rest) =
     (case (base64_value a, base64_value b) of
        (Some x, Some y) \<Rightarrow>
          (if c = CHR ''='' then (if d = CHR ''='' \<and> rest = [] then Some [char_of (x * 4 + y div 16)] else None)
           else case base64_value c of
             None \<Rightarrow> None
           | Some z \<Rightarrow>
               let two = [char_of (x * 4 + y div 16), char_of (y mod 16 * 16 + z div 4)] in
               (if d = CHR ''='' then (if rest = [] then Some two else None)
                else case base64_value d of
                  None \<Rightarrow> None
                | Some w \<Rightarrow> map_option (\<lambda>more. two @ [char_of (z mod 4 * 64 + w)] @ more) (base64_decode rest)))
      | _ \<Rightarrow> None)"
| "base64_decode _ = None"

definition decodeToolImage :: "string \<Rightarrow> string option" where
  "decodeToolImage data =
     (let flat = filter (\<lambda>c. c \<noteq> CHR 0x0D \<and> c \<noteq> CHR 0x0A) data in
      if length flat div 4 * 3 > MaxToolImageBytes + 2 then None
      else case base64_decode flat of
        None \<Rightarrow> None
      | Some decoded \<Rightarrow> if length decoded \<le> MaxToolImageBytes then Some decoded else None)"

definition addDecoded :: "tool_images \<Rightarrow> string \<Rightarrow> string \<Rightarrow> tool_images" where
  "addDecoded c mediaType decoded =
     (if mediaType \<notin> set toolImageTypes \<or> length (ti_images c) \<ge> MaxToolImages then c\<lparr>ti_omitted := ti_omitted c + 1\<rparr>
      else c\<lparr>ti_images := ti_images c @ [\<lparr>im_MediaType = mediaType, im_Data = decoded\<rparr>]\<rparr>)"

definition add_image :: "tool_images \<Rightarrow> tool_content_block \<Rightarrow> tool_images" where
  "add_image c b =
     (let (mediaType, data) = (if cb_SourceType b = ''base64'' then (cb_SourceMediaType b, cb_SourceData b) else (cb_MimeType b, cb_Data b)) in
      case decodeToolImage data of None \<Rightarrow> c\<lparr>ti_omitted := ti_omitted c + 1\<rparr> | Some decoded \<Rightarrow> addDecoded c mediaType decoded)"

text \<open>
  \<open>http.DetectContentType\<close> as far as the library tells its answers apart: the four kept types by their signatures, which no other
  signature of the package precedes, and one answer for everything else.
\<close>

definition bytes_of_nats :: "nat list \<Rightarrow> string" where
  "bytes_of_nats ns = map char_of ns"

definition DetectContentType :: "string \<Rightarrow> string" where
  "DetectContentType data =
     (if strings_HasPrefix data ''GIF87a'' \<or> strings_HasPrefix data ''GIF89a'' then ''image/gif''
      else if strings_HasPrefix data ''RIFF'' \<and> strings_HasPrefix (drop 8 data) ''WEBPVP'' then ''image/webp''
      else if strings_HasPrefix data (bytes_of_nats [0x89, 0x50, 0x4E, 0x47, 0x0D, 0x0A, 0x1A, 0x0A]) then ''image/png''
      else if strings_HasPrefix data (bytes_of_nats [0xFF, 0xD8, 0xFF]) then ''image/jpeg''
      else ''application/octet-stream'')"

definition addGenerated :: "tool_images \<Rightarrow> string \<Rightarrow> tool_images" where
  "addGenerated c data =
     (case decodeToolImage data of
        None \<Rightarrow> c\<lparr>ti_omitted := ti_omitted c + 1\<rparr>
      | Some decoded \<Rightarrow> addDecoded c (DetectContentType decoded) decoded)"

section \<open>The content of a result\<close>

record tool_content =
  co_raw :: string
  co_text :: "string option"
  co_blocks :: "tool_content_block list option"

fun read_block :: "tool_content_block \<Rightarrow> string list \<times> tool_images \<Rightarrow> string list \<times> tool_images" where
  "read_block b (parts, images) =
     (if cb_Type b = ''text'' then (parts @ [cb_Text b], images)
      else if cb_Type b = ''image'' then (parts, add_image images b)
      else (parts, images))"

definition toolResult :: "tool_content \<Rightarrow> string \<times> tool_images" where
  "toolResult c =
     (if Absent (co_raw c) then ([], no_images)
      else case co_text c of
        Some s \<Rightarrow> (s, no_images)
      | None \<Rightarrow>
         (case co_blocks c of
            None \<Rightarrow> (co_raw c, no_images)
          | Some [] \<Rightarrow> ([], no_images)
          | Some blocks \<Rightarrow>
             (let (parts, images) = fold read_block blocks ([], no_images) in
              if parts \<noteq> [] then (strings_Join parts [CHR 0x0A], images)
              else if ti_images images \<noteq> [] \<or> ti_omitted images > 0 then ([], images)
              else (co_raw c, images))))"

definition toolResultText :: "tool_content \<Rightarrow> string" where
  "toolResultText c = fst (toolResult c)"

text \<open>
  An object the code holds as a map of raw messages: the bytes under each key, none where it is missing. \<open>json.Marshal\<close> writes a
  map in the order of its keys.
\<close>

definition pickFields :: "(string \<Rightarrow> string) \<Rightarrow> string list \<Rightarrow> string" where
  "pickFields item keys =
     (let picked = sort (filter (\<lambda>k. \<not> Absent (item k)) keys) in
      if picked = [] \<or> \<not> list_all (\<lambda>k. json_Valid (item k)) picked then []
      else ''{'' @ strings_Join (map (\<lambda>k. json_string k @ '':'' @ json_compact (item k)) picked) '','' @ ''}'')"

section \<open>Bounds\<close>

lemma bound_input_unfold:
  "bound_input_loop limit head truncated =
     (if int (length (json_string head)) \<le> limit then Some (json_string head, truncated)
      else bound_input_loop limit (Cut head (int (length head) - (int (length (json_string head)) - limit))) True)"
  by (subst bound_input_loop.simps) (simp add: Let_def)

lemma json_string_Nil: "json_string [] = [CHR 0x22, CHR 0x22]"
  by (simp add: json_string_def json_inner_def)

text \<open>The loop returns, with the encoding of a prefix that fits.\<close>

lemma bound_input_returns:
  assumes "2 \<le> limit"
  shows "\<exists>h t. prefix h head \<and> bound_input_loop limit head truncated = Some (json_string h, t) \<and> int (length (json_string h)) \<le> limit
    \<and> t = (truncated \<or> h \<noteq> head)"
proof (induction "length head" arbitrary: head truncated rule: less_induct)
  case less
  show ?case
  proof (cases "int (length (json_string head)) \<le> limit")
    case True
    then show ?thesis by (subst bound_input_unfold) auto
  next
    case False
    let ?cut = "Cut head (int (length head) - (int (length (json_string head)) - limit))"
    have "head \<noteq> []" using False assms by (auto simp: json_string_Nil)
    then have "0 < int (length head)" by simp
    moreover have "int (length ?cut) \<le> max 0 (int (length head) - (int (length (json_string head)) - limit))" by (rule Cut_length)
    ultimately have shorter: "length ?cut < length head" using False by (auto simp: max_def split: if_splits)
    from less [OF this, of True] obtain h where h: "prefix h ?cut" "bound_input_loop limit ?cut True = Some (json_string h, True)"
        "int (length (json_string h)) \<le> limit" by auto
    have "prefix ?cut head" using Cut_prefix [of head] by (metis take_is_prefix)
    then have "prefix h head" "h \<noteq> head" using h(1) shorter by (auto dest: prefix_length_le intro: prefix_order.trans)
    then show ?thesis using h(2,3) False by (subst bound_input_unfold) auto
  qed
qed

lemma Cut_is_prefix: "prefix (Cut s limit) s"
  using Cut_prefix [of s limit] by (metis take_is_prefix)

lemma bound_input_cases:
  assumes "2 \<le> limit"
  obtains (kept) "int (length raw) \<le> limit" "json_Valid raw" "bound_input_run raw limit = Some (raw, False)" "boundToolInput raw limit = (raw, False)"
  | (encoded) h where "\<not> (int (length raw) \<le> limit \<and> json_Valid raw)" "prefix h raw" "int (length (json_string h)) \<le> limit"
      "bound_input_run raw limit = Some (json_string h, h \<noteq> raw)" "boundToolInput raw limit = (json_string h, h \<noteq> raw)"
proof (cases "int (length raw) \<le> limit \<and> json_Valid raw")
  case True
  then show ?thesis using kept by (simp add: boundToolInput_def bound_input_run_def)
next
  case False
  from bound_input_returns [OF assms, of "Cut raw limit" "int (length raw) > limit"] obtain h t where
    h: "prefix h (Cut raw limit)" "bound_input_loop limit (Cut raw limit) (int (length raw) > limit) = Some (json_string h, t)"
      "int (length (json_string h)) \<le> limit" "t = (int (length raw) > limit \<or> h \<noteq> Cut raw limit)" by blast
  have p: "prefix h raw" using h(1) Cut_is_prefix prefix_order.trans by blast
  have "t \<longleftrightarrow> h \<noteq> raw"
  proof (cases "int (length raw) \<le> limit")
    case True
    then have "Cut raw limit = raw" using assms by (auto simp: Cut_def)
    then show ?thesis using h(4) True by simp
  next
    case False
    then have "length (Cut raw limit) < length raw" using Cut_length [of raw limit] assms by auto
    then have "length h < length raw" using prefix_length_le [OF h(1)] by linarith
    then show ?thesis using h(4) False by auto
  qed
  then have "bound_input_run raw limit = Some (json_string h, h \<noteq> raw)" using False h(2) by (auto simp: bound_input_run_def)
  then show ?thesis using encoded False p h(3) by (simp add: boundToolInput_def)
qed

lemma boundToolInput_fits:
  assumes "2 \<le> limit"
  shows "json_Valid (fst (boundToolInput raw limit))" "int (length (fst (boundToolInput raw limit))) \<le> limit"
  by (rule bound_input_cases [OF assms, of raw]; simp add: json_string_valid)+

definition hex_secret :: "string \<Rightarrow> bool" where
  "hex_secret secret \<longleftrightarrow> length secret = 64 \<and> list_all json_hex secret"

lemma hex_secret_plain:
  assumes "hex_secret secret"
  shows "secret \<noteq> []" "bracket_free secret" "\<not> sublist secret ''redacted''"
proof -
  show "secret \<noteq> []" using assms by (auto simp: hex_secret_def)
  have "\<not> json_hex CHR 0x5B" "\<not> json_hex CHR 0x5D" by (simp_all add: json_hex_def json_digit_def)
  then show "bracket_free secret" using assms by (auto simp: hex_secret_def bracket_free_def list_all_iff)
  have "length secret > length ''redacted''" using assms by (simp add: hex_secret_def)
  then show "\<not> sublist secret ''redacted''" using sublist_length_le [of secret "''redacted''"] by linarith
qed

lemma scrub_removes: "hex_secret secret \<Longrightarrow> \<not> sublist secret (scrub raw secret)"
  using hex_secret_plain [of secret] ReplaceAll_removes [of secret raw]
  by (auto simp: scrub_def Contains_iff hex_secret_def)

text \<open>What a list of images may hold.\<close>

definition images_ok :: "tool_images \<Rightarrow> bool" where
  "images_ok c \<longleftrightarrow> length (ti_images c) \<le> MaxToolImages
     \<and> list_all (\<lambda>m. im_MediaType m \<in> set toolImageTypes \<and> length (im_Data m) \<le> MaxToolImageBytes) (ti_images c)"

lemma no_images_ok: "images_ok no_images"
  by (simp add: images_ok_def no_images_def)

lemma decoded_small: "decodeToolImage data = Some d \<Longrightarrow> length d \<le> MaxToolImageBytes"
  by (auto simp: decodeToolImage_def Let_def split: if_splits option.splits)

lemma addDecoded_ok: "images_ok c \<Longrightarrow> length d \<le> MaxToolImageBytes \<Longrightarrow> images_ok (addDecoded c mediaType d)"
  by (auto simp: images_ok_def addDecoded_def)

lemma omitted_ok: "images_ok c \<Longrightarrow> images_ok (c\<lparr>ti_omitted := n\<rparr>)"
  by (simp add: images_ok_def)

lemma add_image_ok: "images_ok c \<Longrightarrow> images_ok (add_image c b)"
  using addDecoded_ok decoded_small omitted_ok by (auto simp: add_image_def Let_def split: option.split prod.split)

lemma addGenerated_ok: "images_ok c \<Longrightarrow> images_ok (addGenerated c data)"
  using addDecoded_ok decoded_small omitted_ok by (auto simp: addGenerated_def split: option.split)

lemma read_blocks_ok: "images_ok (snd p) \<Longrightarrow> images_ok (snd (fold read_block bs p))"
proof (induction bs arbitrary: p)
  case (Cons b bs)
  obtain parts images where "p = (parts, images)" by (cases p)
  then show ?case using Cons add_image_ok [of images b] by simp
qed simp

lemma toolResult_images: "snd (toolResult c) = no_images \<or> (\<exists>bs. snd (toolResult c) = snd (fold read_block bs ([], no_images)))"
proof (cases "co_blocks c")
  case (Some bs)
  obtain parts images where f: "fold read_block bs ([], no_images) = (parts, images)" by fastforce
  then have "snd (toolResult c) = no_images \<or> snd (toolResult c) = images"
    using Some by (cases bs) (simp_all add: toolResult_def split: option.split)
  then show ?thesis using f by (metis snd_conv)
qed (simp add: toolResult_def split: option.split)

lemma toolResult_ok: "images_ok (snd (toolResult c))"
  using toolResult_images [of c] read_blocks_ok [of "([], no_images)"] no_images_ok by auto

end
