(* ===== verification/Telemetry.thy ===== *)
theory Telemetry
  imports Tokens Failures
begin

text \<open>
  How full a conversation is, as the engines report it (session/telemetry.go, telemetry_types.go, the context readers of
  telemetry_codex.go and telemetry_claude.go, and \<open>Observation\<close> of account.go). A report is what \<open>encoding/json\<close> filled the code's structs
  with; \<open>now\<close> is the clock. A percentage is kept as the two counts whose float quotient it is.
\<close>

datatype measurement = NoMeasurement | Measured | Estimated

record observation =
  ob_Quality :: measurement
  ob_ObservedAt :: int
  ob_Source :: string
  ob_Invalidated :: bool
  ob_Reason :: string

record context_snapshot =
  cx_Observation :: observation
  cx_Model :: string
  cx_UsedTokens :: "int64 option"
  cx_CapacityTokens :: "int64 option"
  cx_ModelCapacityTokens :: "int64 option"
  cx_UsedPercent :: "(int64 \<times> int64) option"
  cx_AutoCompactAtTokens :: "int64 option"

definition no_observation :: observation where
  "no_observation = \<lparr>ob_Quality = NoMeasurement, ob_ObservedAt = 0, ob_Source = [], ob_Invalidated = False, ob_Reason = []\<rparr>"

definition no_context :: context_snapshot where
  "no_context = \<lparr>cx_Observation = no_observation, cx_Model = [], cx_UsedTokens = None, cx_CapacityTokens = None, cx_ModelCapacityTokens = None,
     cx_UsedPercent = None, cx_AutoCompactAtTokens = None\<rparr>"

definition observation_now :: "int \<Rightarrow> string \<Rightarrow> measurement \<Rightarrow> observation" where
  "observation_now now source quality = no_observation\<lparr>ob_Source := source, ob_Quality := quality, ob_ObservedAt := now\<rparr>"

definition invalidate :: "string \<Rightarrow> observation \<Rightarrow> observation" where
  "invalidate reason ob = ob\<lparr>ob_Invalidated := True, ob_Reason := reason\<rparr>"

definition recordCapability :: "capability \<Rightarrow> session_error option \<Rightarrow> capability" where
  "recordCapability c err =
     (case err of
        None \<Rightarrow> cap Native ''observed native telemetry''
      | Some e \<Rightarrow>
          if e = ErrUnsupported \<or> (case e of UnsupportedError _ \<Rightarrow> True | _ \<Rightarrow> False)
          then cap Unsupported ''installed CLI does not support this telemetry method''
          else if cap_Availability c \<noteq> Native then cap Unknown ''telemetry method was not successfully observed''
          else c)"

definition setContextPercent :: "context_snapshot \<Rightarrow> context_snapshot" where
  "setContextPercent c = c\<lparr>cx_UsedPercent :=
     (case (cx_UsedTokens c, cx_CapacityTokens c) of
        (Some used, Some capacity) \<Rightarrow> if sint capacity > 0 then Some (used, capacity) else None
      | _ \<Rightarrow> None)\<rparr>"

section \<open>Reports\<close>

text \<open>\<open>tokenUsage\<close> of a Codex notification: the total of its last response, and the model's window.\<close>

definition parseCodexContext :: "int \<Rightarrow> (int64 option option \<times> int64 option) option \<Rightarrow> context_snapshot option" where
  "parseCodexContext now rep =
     (case rep of
        None \<Rightarrow> None
      | Some (last_total, capacity) \<Rightarrow>
         (case last_total of
            Some (Some used) \<Rightarrow>
              if sint used < 0 \<or> (case capacity of Some c \<Rightarrow> sint c \<le> 0 | None \<Rightarrow> False) then None
              else Some (setContextPercent (no_context\<lparr>cx_Observation := observation_now now ''thread/tokenUsage/updated'' Measured,
                     cx_UsedTokens := Some used, cx_CapacityTokens := capacity\<rparr>))
          | _ \<Rightarrow> None))"

record claude_context_report =
  cr_Total :: "int64 option"
  cr_Max :: "int64 option"
  cr_RawMax :: "int64 option"
  cr_Threshold :: "int64 option"
  cr_Model :: string

definition parseClaudeContext :: "int \<Rightarrow> claude_context_report option \<Rightarrow> context_snapshot option" where
  "parseClaudeContext now rep =
     (case rep of
        None \<Rightarrow> None
      | Some r \<Rightarrow>
         (case (cr_Total r, cr_Max r) of
            (Some total_tokens, Some max_tokens) \<Rightarrow>
              if sint total_tokens < 0 \<or> sint max_tokens \<le> 0 \<or> (case cr_RawMax r of Some n \<Rightarrow> sint n \<le> 0 | None \<Rightarrow> False)
                 \<or> (case cr_Threshold r of Some n \<Rightarrow> sint n < 0 | None \<Rightarrow> False) then None
              else Some (setContextPercent (no_context\<lparr>cx_Observation := observation_now now ''get_context_usage.summary'' Estimated,
                     cx_Model := cr_Model r, cx_UsedTokens := Some total_tokens, cx_CapacityTokens := Some max_tokens,
                     cx_ModelCapacityTokens := cr_RawMax r, cx_AutoCompactAtTokens := cr_Threshold r\<rparr>))
          | _ \<Rightarrow> None))"

text \<open>
  \<open>claudeMessageContext\<close> up to \<open>observeContext\<close>: what one response's input says about the conversation, given what was known before.
  The message is its model and its usage, the usage its three input figures.
\<close>

definition message_context ::
  "int \<Rightarrow> context_snapshot \<Rightarrow> (string \<times> (int64 option \<times> int64 option \<times> int64 option) option) option \<Rightarrow> context_snapshot option" where
  "message_context now before message =
     (case message of
        Some (model, Some (Some i, Some cr, Some cw)) \<Rightarrow>
          if model = [] \<or> sint i < 0 \<or> sint cr < 0 \<or> sint cw < 0 then None
          else if sint i > sint (maxInt64 - cr) \<or> sint (i + cr) > sint (maxInt64 - cw) then None
          else (let c = (if cx_Model before \<noteq> model then no_context\<lparr>cx_Model := model\<rparr> else before) in
            Some (setContextPercent (c\<lparr>cx_Observation := (observation_now now ''assistant.message.usage'' Estimated)
                \<lparr>ob_Reason := ''latest model input; pending output and tool results are not counted''\<rparr>,
              cx_UsedTokens := Some (i + cr + cw)\<rparr>)))
      | _ \<Rightarrow> None)"

text \<open>\<open>claudeModelCapacity\<close> up to \<open>observeContext\<close>; \<open>models\<close> is the decoded \<open>modelUsage\<close>.\<close>

definition model_capacity :: "context_snapshot \<Rightarrow> (string \<times> int64 option) list option \<Rightarrow> context_snapshot option" where
  "model_capacity c models =
     (if cx_Model c = [] then None
      else case models of
        None \<Rightarrow> None
      | Some ms \<Rightarrow>
         (case map_of ms (cx_Model c) of
            Some (Some capacity) \<Rightarrow>
              if sint capacity \<le> 0 then None
              else Some (setContextPercent (c\<lparr>cx_CapacityTokens := Some capacity, cx_ModelCapacityTokens := Some capacity\<rparr>))
          | _ \<Rightarrow> None))"

end
