(* ===== verification/Session_Turns.thy ===== *)
theory Session_Turns
  imports Tool_Host Tool_Payload Telemetry
begin

text \<open>
  A session's turns (session/turn.go, session/control.go, session/context.go, the dispatch of
  session/events.go, and \<open>failTurn\<close> of session/session.go): one turn at a time, its bounded event
  stream, how it ends, and how ending the session ends it. Turns are numbered in the order they
  were made, so that the code's comparisons of \<open>*Turn\<close> pointers are comparisons of numbers. A
  section run under the session's or a turn's lock is one operation; what other goroutines do between
  two sections of one control is an argument.
\<close>

section \<open>State\<close>

record event =
  ev_Kind :: string
  ev_TurnID :: string
  ev_ItemID :: string
  ev_Text :: string
  ev_Tool :: string
  ev_Status :: string
  ev_Usage :: "session_usage option"
  ev_Input :: string
  ev_InputTruncated :: bool
  ev_Output :: string
  ev_OutputTruncated :: bool
  ev_ExitCode :: "int option"
  ev_Images :: "tool_image list"
  ev_ImagesOmitted :: nat
  ev_Context :: "context_snapshot option"

definition event_of :: "string \<Rightarrow> event" where
  "event_of kind = \<lparr>ev_Kind = kind, ev_TurnID = [], ev_ItemID = [], ev_Text = [], ev_Tool = [], ev_Status = [], ev_Usage = None,
     ev_Input = [], ev_InputTruncated = False, ev_Output = [], ev_OutputTruncated = False, ev_ExitCode = None, ev_Images = [],
     ev_ImagesOmitted = 0, ev_Context = None\<rparr>"

text \<open>
  \<open>tu_closings\<close> counts the closings of \<open>events\<close> and \<open>done\<close>: closing a Go channel twice panics. A buffered
  notification is its marshalled bytes.
\<close>

record codex_usage =
  xu_Input :: int64
  xu_Output :: int64
  xu_CacheRead :: int64
  xu_CacheWrite :: int64
  xu_Reasoning :: int64

definition no_codex_usage :: codex_usage where
  "no_codex_usage = \<lparr>xu_Input = 0, xu_Output = 0, xu_CacheRead = 0, xu_CacheWrite = 0, xu_Reasoning = 0\<rparr>"

record turn =
  tu_id :: string
  tu_events :: "event list"
  tu_buffer :: nat
  tu_finished :: bool
  tu_closings :: nat
  tu_Status :: string
  tu_TurnID :: string
  tu_Text :: string
  tu_NativeError :: bool
  tu_Usage :: session_usage
  tu_Observed :: session_usage
  tu_err :: "session_error option"
  tu_textItem :: string
  tu_interruptRequested :: bool
  tu_starting :: bool
  tu_compacting :: bool
  tu_awaitingCompactID :: bool
  tu_pending :: "string list"
  tu_pendingBytes :: nat
  tu_closeTools :: bool
  tu_Context :: context_snapshot
  tu_lastCodexTotal :: codex_usage
  tu_claudeRefusal :: refusal
  tu_acpMessage :: nat
  tu_antigravityTools :: "string list"
  tu_antigravityUsageGap :: bool

definition new_turn :: "string \<Rightarrow> nat \<Rightarrow> turn" where
  "new_turn i buffer = \<lparr>tu_id = i, tu_events = [], tu_buffer = buffer, tu_finished = False, tu_closings = 0, tu_Status = [],
     tu_TurnID = [], tu_Text = [], tu_NativeError = False, tu_Usage = no_session_usage, tu_Observed = no_session_usage, tu_err = None,
     tu_textItem = [], tu_interruptRequested = False, tu_starting = False, tu_compacting = False, tu_awaitingCompactID = False,
     tu_pending = [], tu_pendingBytes = 0, tu_closeTools = False, tu_Context = no_context, tu_lastCodexTotal = no_codex_usage,
     tu_claudeRefusal = no_refusal, tu_acpMessage = 0, tu_antigravityTools = [], tu_antigravityUsageGap = False\<rparr>"

text \<open>What a failing session still has to do after it has marked itself closed.\<close>

datatype ending = EndTurn "nat option" session_error | CloseHost

record session =
  se_Engine :: engine
  se_EventBuffer :: nat
  se_MaxTextBytes :: int
  se_turns :: "turn list"
  se_active :: "nat option"
  se_closed :: bool
  se_doneClosings :: nat
  se_failure :: "session_error option"
  se_tools :: "host option"
  se_contextPending :: string
  se_contextGeneration :: "64 word"
  se_endings :: "ending list"
  se_Context :: context_snapshot
  se_capContext :: capability
  se_acpModel :: string
  se_grokCapacity :: int64

definition new_session :: "engine \<Rightarrow> nat \<Rightarrow> int \<Rightarrow> host option \<Rightarrow> session" where
  "new_session engine buffer max_text tools = \<lparr>se_Engine = engine, se_EventBuffer = buffer, se_MaxTextBytes = max_text, se_turns = [], se_active = None,
     se_closed = False, se_doneClosings = 0, se_failure = None, se_tools = tools, se_contextPending = [],
     se_contextGeneration = 0, se_endings = [], se_Context = no_context, se_capContext = cap Unknown [],
     se_acpModel = [], se_grokCapacity = 0\<rparr>"

definition turn_of :: "session \<Rightarrow> nat \<Rightarrow> turn" where
  "turn_of s i = se_turns s ! i"

definition set_turn :: "nat \<Rightarrow> turn \<Rightarrow> session \<Rightarrow> session" where
  "set_turn i t s = s\<lparr>se_turns := (se_turns s)[i := t]\<rparr>"

section \<open>One turn\<close>

definition finish_turn :: "string \<Rightarrow> session_error option \<Rightarrow> turn \<Rightarrow> turn" where
  "finish_turn status err t =
     (if tu_finished t then t
      else t\<lparr>tu_finished := True, tu_Status := status, tu_TurnID := tu_id t, tu_err := err, tu_closings := Suc (tu_closings t)\<rparr>)"

text \<open>\<open>finish\<close> with the \<open>closeTools\<close> it calls: the host's \<open>closeAdmission\<close>, which a nil host ignores.\<close>

definition turn_finish :: "session \<Rightarrow> nat \<Rightarrow> string \<Rightarrow> session_error option \<Rightarrow> session" where
  "turn_finish s i status err =
     (let t = turn_of s i in
      set_turn i (finish_turn status err t)
        (if \<not> tu_finished t \<and> tu_closeTools t then s\<lparr>se_tools := map_option closeAdmission (se_tools s)\<rparr> else s))"

definition emit_turn :: "event \<Rightarrow> turn \<Rightarrow> turn \<times> session_error option" where
  "emit_turn e t =
     (if tu_finished t then (t, None)
      else if length (tu_events t) < tu_buffer t then (t\<lparr>tu_events := tu_events t @ [e\<lparr>ev_TurnID := tu_id t\<rparr>]\<rparr>, None)
      else (t, Some ErrBackpressure))"

text \<open>\<open>text\<close> up to its \<open>emit\<close>: the turn's text, or the bound it overran.\<close>

definition text_turn :: "int \<Rightarrow> string \<Rightarrow> string \<Rightarrow> bool \<Rightarrow> turn \<Rightarrow> turn \<times> session_error option" where
  "text_turn max_text item new replace t =
     (if tu_finished t then (t, None)
      else let t1 = (if replace \<or> tu_textItem t \<noteq> item then t\<lparr>tu_Text := [], tu_textItem := item\<rparr> else t)
           in if int (length (tu_Text t1) + length new) > max_text then (t1, Some ErrOutputLimit)
              else (t1\<lparr>tu_Text := tu_Text t1 @ new\<rparr>, None))"

text \<open>The part of \<open>notificationLocked\<close> that buffers a frame for a turn still starting; \<open>MaxFrameBytes\<close> is a constant.\<close>

definition MaxFrameBytes :: nat where
  "MaxFrameBytes = 16 * 1024 * 1024"

definition buffer_frame :: "nat \<Rightarrow> nat \<Rightarrow> string \<Rightarrow> turn \<Rightarrow> turn \<times> session_error option" where
  "buffer_frame maxFrame eventBuffer m t =
     (if length (tu_pending t) \<ge> eventBuffer then (t, Some ErrBackpressure)
      else if tu_pendingBytes t + length m > maxFrame then (t, Some ErrOutputLimit)
      else (t\<lparr>tu_pending := tu_pending t @ [m], tu_pendingBytes := tu_pendingBytes t + length m\<rparr>, None))"

definition replay_turn :: "string \<Rightarrow> turn \<Rightarrow> turn \<times> string list" where
  "replay_turn i t =
     (let t1 = (if i \<noteq> [] then t\<lparr>tu_id := i, tu_TurnID := i\<rparr> else t)
      in (t1\<lparr>tu_starting := False, tu_pending := [], tu_pendingBytes := 0\<rparr>, tu_pending t))"

text \<open>\<open>compactTurnStarted\<close> on a frame that names the turn.\<close>

definition compact_started :: "string \<Rightarrow> turn \<Rightarrow> turn" where
  "compact_started i t =
     (if \<not> tu_compacting t \<or> \<not> tu_awaitingCompactID t then t
      else t\<lparr>tu_id := i, tu_TurnID := i, tu_awaitingCompactID := False\<rparr>)"

definition observe_usage :: "session_usage \<Rightarrow> turn \<Rightarrow> turn" where
  "observe_usage u t = (if \<not> Known (s_Usage u) then t else t\<lparr>tu_Observed := Usage_add (tu_Observed t) u\<rparr>)"

text \<open>The start of a Claude message: unlike \<open>text\<close>, it does not ask whether the turn is over.\<close>

definition message_start :: "string \<Rightarrow> turn \<Rightarrow> turn" where
  "message_start item t = t\<lparr>tu_textItem := item, tu_Text := []\<rparr>"

section \<open>Ending the session\<close>

text \<open>The section of \<open>failTurn\<close> under the session's lock. Without \<open>expected\<close> it is \<open>fail\<close>.\<close>

definition failTurn_mark :: "session \<Rightarrow> nat option \<Rightarrow> session_error \<Rightarrow> session" where
  "failTurn_mark s expected err =
     (if (case expected of None \<Rightarrow> False | Some i \<Rightarrow> se_active s \<noteq> Some i \<or> tu_finished (turn_of s i)) \<or> se_closed s then s
      else s\<lparr>se_closed := True,
             se_failure := (if se_failure s = None \<and> err \<noteq> ErrClosed then Some err else se_failure s),
             se_doneClosings := Suc (se_doneClosings s),
             se_endings := se_endings s @ [EndTurn (se_active s) err]\<rparr>)"

fun run_ending :: "ending \<Rightarrow> session \<Rightarrow> session" where
  "run_ending (EndTurn (Some i) err) s = turn_finish s i ''failed'' (Some err)"
| "run_ending (EndTurn None err) s = s"
| "run_ending CloseHost s = s\<lparr>se_tools := map_option close_host (se_tools s)\<rparr>"

fun next_ending :: "ending \<Rightarrow> ending list" where
  "next_ending (EndTurn i err) = [CloseHost]"
| "next_ending CloseHost = []"

text \<open>The whole of \<open>failTurn\<close> when nothing comes between its sections.\<close>

definition failTurn :: "session \<Rightarrow> nat option \<Rightarrow> session_error \<Rightarrow> session" where
  "failTurn s expected err =
     (let s1 = failTurn_mark s expected err in
      if se_endings s1 = se_endings s then s1
      else run_ending CloseHost (run_ending (EndTurn (se_active s) err) (s1\<lparr>se_endings := se_endings s\<rparr>)))"

definition session_emit :: "session \<Rightarrow> nat \<Rightarrow> event \<Rightarrow> session" where
  "session_emit s i e =
     (case emit_turn e (turn_of s i) of (t, None) \<Rightarrow> set_turn i t s | (t, Some err) \<Rightarrow> failTurn (set_turn i t s) None err)"

definition session_text :: "session \<Rightarrow> nat \<Rightarrow> string \<Rightarrow> string \<Rightarrow> bool \<Rightarrow> session" where
  "session_text s i item new replace =
     (if tu_finished (turn_of s i) then s
      else case text_turn (se_MaxTextBytes s) item new replace (turn_of s i) of
        (t, Some err) \<Rightarrow> failTurn (set_turn i t s) None err
      | (t, None) \<Rightarrow> session_emit (set_turn i t s) i
          ((event_of (if replace then ''text'' else ''text_delta''))\<lparr>ev_ItemID := item, ev_Text := new\<rparr>))"

section \<open>Tool activity\<close>

definition channelSecret :: "session \<Rightarrow> string" where
  "channelSecret s = (case se_tools s of None \<Rightarrow> [] | Some h \<Rightarrow> h_secret h)"

definition payload_input :: "session \<Rightarrow> string \<Rightarrow> event \<Rightarrow> event" where
  "payload_input s raw e =
     (if Absent raw then e
      else case boundToolInput (scrub raw (channelSecret s)) MaxToolPayloadBytes of (kept, shortened) \<Rightarrow> e\<lparr>ev_Input := kept, ev_InputTruncated := shortened\<rparr>)"

definition payload_output :: "session \<Rightarrow> string \<Rightarrow> event \<Rightarrow> event" where
  "payload_output s result e =
     (if result = [] then e
      else case boundToolOutput (scrub result (channelSecret s)) MaxToolPayloadBytes of (kept, shortened) \<Rightarrow> e\<lparr>ev_Output := kept, ev_OutputTruncated := shortened\<rparr>)"

definition withToolPayload :: "session \<Rightarrow> event \<Rightarrow> string \<Rightarrow> string \<Rightarrow> event" where
  "withToolPayload s e raw result = payload_output s result (payload_input s raw e)"

definition withImages :: "event \<Rightarrow> tool_images \<Rightarrow> event" where
  "withImages e c = e\<lparr>ev_Images := ti_images c, ev_ImagesOmitted := ti_omitted c\<rparr>"

section \<open>Routing\<close>

text \<open>\<open>notificationLocked\<close> for a frame no session notice consumed: where the frame goes.\<close>

datatype frame_route = Dropped | Idle | Buffered | ToTurn nat

definition notificationLocked :: "session \<Rightarrow> string \<Rightarrow> session \<times> frame_route" where
  "notificationLocked s m =
     (if se_closed s then (s, Dropped)
      else case se_active s of
        None \<Rightarrow> (s, Idle)
      | Some i \<Rightarrow>
          if tu_finished (turn_of s i) then (s, Idle)
          else if tu_starting (turn_of s i) then
            (case buffer_frame MaxFrameBytes (se_EventBuffer s) m (turn_of s i) of
               (t, None) \<Rightarrow> (set_turn i t s, Buffered)
             | (t, Some err) \<Rightarrow> (failTurn s None err, Dropped))
          else (s, ToTurn i))"

section \<open>The caller's context\<close>

record contextDelivery =
  cd_reason :: string
  cd_generation :: "64 word"
  cd_text :: string

definition wrap :: "contextDelivery \<Rightarrow> string \<Rightarrow> string" where
  "wrap d input =
     (if cd_text d = [] then input
      else ''<caller-context reason='' @ [CHR 0x22] @ cd_reason d @ [CHR 0x22] @ ''>'' @ [CHR 0x0A] @ cd_text d
           @ [CHR 0x0A] @ ''</caller-context>'' @ [CHR 0x0A, CHR 0x0A] @ input)"

definition claimIdleLocked :: "session \<Rightarrow> session_error option" where
  "claimIdleLocked s =
     (if se_closed s then Some ErrClosed
      else case se_active s of None \<Rightarrow> None
        | Some i \<Rightarrow> if tu_closings (turn_of s i) > 0 then None else Some ErrBusy)"

text \<open>\<open>handler\<close> is the caller's \<open>Options.Context\<close>, absent or what it answers for a reason.\<close>

definition callerContext :: "session \<Rightarrow> (string \<Rightarrow> session_error + string) option \<Rightarrow> session_error + contextDelivery" where
  "callerContext s handler =
     (let d = \<lparr>cd_reason = se_contextPending s, cd_generation = se_contextGeneration s, cd_text = []\<rparr> in
      case handler of
        None \<Rightarrow> Inr d
      | Some h \<Rightarrow>
          if cd_reason d = [] \<or> claimIdleLocked s \<noteq> None then Inr d
          else (case h (cd_reason d) of Inl err \<Rightarrow> Inl err | Inr t \<Rightarrow> Inr (d\<lparr>cd_text := t\<rparr>)))"

definition contextDelivered :: "session \<Rightarrow> contextDelivery \<Rightarrow> session" where
  "contextDelivered s d =
     (if cd_reason d = [] \<or> se_contextGeneration s \<noteq> cd_generation d then s else s\<lparr>se_contextPending := []\<rparr>)"

definition markContext :: "session \<Rightarrow> string \<Rightarrow> session" where
  "markContext s reason = s\<lparr>se_contextGeneration := se_contextGeneration s + 1, se_contextPending := reason\<rparr>"

section \<open>Controls\<close>

definition tools_ready :: "session \<Rightarrow> bool" where
  "tools_ready s = (case se_tools s of None \<Rightarrow> True | Some h \<Rightarrow> readyForWork h)"

text \<open>The occupancy as a new turn finds it: what was observed is no longer current.\<close>

definition changing_context :: "session \<Rightarrow> context_snapshot" where
  "changing_context s = (se_Context s)\<lparr>cx_Observation :=
     invalidate ''conversation is changing; awaiting a fresh observation'' (cx_Observation (se_Context s))\<rparr>"

text \<open>The section of \<open>startTurnScoped\<close> under the session's lock; the new turn's number is the length of the list.\<close>

definition begin_turn :: "session \<Rightarrow> string \<Rightarrow> bool \<Rightarrow> session_error + session" where
  "begin_turn s i bufferStart =
     (case claimIdleLocked s of
        Some err \<Rightarrow> Inl err
      | None \<Rightarrow>
          if \<not> tools_ready s then Inl ErrToolsUnsettled
          else Inr (s\<lparr>se_tools := map_option reopen (se_tools s),
                     se_turns := se_turns s @ [(new_turn i (se_EventBuffer s))\<lparr>tu_starting := bufferStart, tu_closeTools := se_tools s \<noteq> None,
                       tu_Context := changing_context s\<rparr>],
                     se_active := Some (length (se_turns s)), se_Context := changing_context s\<rparr>))"

text \<open>
  \<open>startTurnScoped\<close>. \<open>meanwhile\<close> is what everything else makes of the session while the caller's handler runs, outside the lock;
  \<open>started\<close> is the engine's \<open>startTurn\<close>: what it answers for the wrapped input, and what it and everything running meanwhile
  make of the session.
\<close>

definition startTurnScoped ::
  "session \<Rightarrow> bool \<Rightarrow> bool \<Rightarrow> string \<Rightarrow> (string \<Rightarrow> session_error + string) option \<Rightarrow> (session \<Rightarrow> session) \<Rightarrow> string \<Rightarrow> bool
     \<Rightarrow> (session \<Rightarrow> nat \<Rightarrow> string \<Rightarrow> session \<times> session_error option) \<Rightarrow> session \<times> (session_error + nat)" where
  "startTurnScoped s requestDone lifetimeDone input handler meanwhile i bufferStart started =
     (if requestDone \<or> lifetimeDone then (s, Inl ErrContext)
      else if input = [] then (s, Inl (OtherError ''turn input is empty''))
      else let s0 = meanwhile s in
      case callerContext s handler of
        Inl err \<Rightarrow> (s0, Inl err)
      | Inr delivery \<Rightarrow>
         (case begin_turn s0 i bufferStart of
            Inl err \<Rightarrow> (s0, Inl err)
          | Inr s1 \<Rightarrow>
             (let n = length (se_turns s0) in
              case started s1 n (wrap delivery input) of
                (s2, Some err) \<Rightarrow>
                  (if definitiveRejection err then turn_finish s2 n ''rejected'' (Some err) else failTurn s2 None err, Inl err)
              | (s2, None) \<Rightarrow> (contextDelivered s2 delivery, Inr n))))"

text \<open>\<open>Compact\<close> up to its request, on the one engine that has it.\<close>

definition begin_compact :: "session \<Rightarrow> session_error + session" where
  "begin_compact s =
     (case claimIdleLocked s of
        Some err \<Rightarrow> Inl err
      | None \<Rightarrow> Inr (s\<lparr>se_turns := se_turns s @ [(new_turn [] (se_EventBuffer s))
            \<lparr>tu_starting := True, tu_compacting := True, tu_awaitingCompactID := True\<rparr>],
            se_active := Some (length (se_turns s))\<rparr>))"

definition activeTurn :: "session \<Rightarrow> string \<Rightarrow> session_error + nat" where
  "activeTurn s expected =
     (if se_closed s then Inl ErrClosed
      else case se_active s of
        None \<Rightarrow> Inl ErrStaleTurn
      | Some i \<Rightarrow> if expected = [] \<or> tu_id (turn_of s i) \<noteq> expected \<or> tu_closings (turn_of s i) > 0 then Inl ErrStaleTurn else Inr i)"

definition controlFailed :: "session \<Rightarrow> nat option \<Rightarrow> session_error \<Rightarrow> session" where
  "controlFailed s started err =
     (if \<not> definitiveRejection err then failTurn s None err
      else case started of Some i \<Rightarrow> turn_finish s i ''rejected'' (Some err) | None \<Rightarrow> s)"

definition operationError :: "session \<Rightarrow> string \<Rightarrow> session_error \<Rightarrow> session_error" where
  "operationError s op err =
     (case err of
        ErrUnsupported \<Rightarrow> UnsupportedError \<lparr>ue_Engine = se_Engine s, ue_Operation = op, ue_Code = ''method_unavailable'',
          ue_Capability = cap Unsupported ''method unavailable in installed harness''\<rparr>
      | UnsupportedError _ \<Rightarrow> UnsupportedError \<lparr>ue_Engine = se_Engine s, ue_Operation = op, ue_Code = ''method_unavailable'',
          ue_Capability = cap Unsupported ''method unavailable in installed harness''\<rparr>
      | _ \<Rightarrow> err)"

text \<open>\<open>Wait\<close> once the turn is over: its status and error.\<close>

definition turn_Wait :: "session \<Rightarrow> nat \<Rightarrow> string \<times> session_error option" where
  "turn_Wait s i = (tu_Status (turn_of s i), tu_err (turn_of s i))"

text \<open>
  \<open>interrupt\<close> where the engine offers it. \<open>requested\<close> is the engine's own request and its answer; \<open>waited\<close> what
  happens while \<open>Wait\<close> waits, and whether the caller's context ended first.
\<close>

definition interrupt ::
  "session \<Rightarrow> string \<Rightarrow> (session \<Rightarrow> session \<times> session_error option) \<Rightarrow> (session \<Rightarrow> session \<times> bool) \<Rightarrow> session \<times> session_error option" where
  "interrupt s expected requested waited =
     (case activeTurn s expected of
        Inl err \<Rightarrow> (s, Some err)
      | Inr i \<Rightarrow>
         (case requested (set_turn i (turn_of s i\<lparr>tu_interruptRequested := True\<rparr>) s) of
            (s1, Some err) \<Rightarrow> (controlFailed (set_turn i (turn_of s1 i\<lparr>tu_interruptRequested := False\<rparr>) s1) None err, Some (operationError s1 ''interrupt'' err))
          | (s1, None) \<Rightarrow>
             (case waited s1 of
                (s2, True) \<Rightarrow> (s2, Some ErrContext)
              | (s2, False) \<Rightarrow>
                 (case turn_Wait s2 i of
                    (status, Some err) \<Rightarrow> (s2, Some err)
                  | (status, None) \<Rightarrow>
                      if status \<noteq> ''interrupted'' then
                        (s2, Some (if se_failure s2 = Some WorkspaceStuck then WorkspaceStuck else ErrStaleTurn))
                      else (s2, None)))))"

definition CancelTools :: "session \<Rightarrow> session" where
  "CancelTools s = s\<lparr>se_tools := map_option pause (se_tools s)\<rparr>"

text \<open>
  The composed \<open>Steer\<close>: interrupt, pause the tools, wait until they settle, then start the replacement
  turn. \<open>settles\<close> is what happens while \<open>AwaitToolsSettled\<close> waits and whether the caller's context ended first.
\<close>

definition steer_composed ::
  "session \<Rightarrow> string \<Rightarrow> string \<Rightarrow> bool \<Rightarrow> string \<Rightarrow> (session \<Rightarrow> session \<times> session_error option) \<Rightarrow> (session \<Rightarrow> session \<times> bool)
     \<Rightarrow> (session \<Rightarrow> session \<times> bool) \<Rightarrow> (session \<Rightarrow> session \<times> (session_error + nat)) \<Rightarrow> session \<times> (session_error + nat)" where
  "steer_composed s expected input requireNative composedSteer requested waited settles restart =
     (case activeTurn s expected of
        Inl err \<Rightarrow> (s, Inl err)
      | Inr i \<Rightarrow>
          if input = [] then (s, Inl (OtherError ''steering input is empty''))
          else if requireNative then
            (s, Inl (UnsupportedError \<lparr>ue_Engine = se_Engine s, ue_Operation = ''steer'', ue_Code = ''not_native'',
               ue_Capability = cap Composed composedSteer\<rparr>))
          else (case interrupt s expected requested waited of
              (s1, Some err) \<Rightarrow> (s1, Inl err)
            | (s1, None) \<Rightarrow>
               (case settles (CancelTools s1) of
                  (s2, True) \<Rightarrow> (s2, Inl ErrContext)
                | (s2, False) \<Rightarrow> restart s2)))"

text \<open>What the dialects keep about a turn for themselves.\<close>

definition note_turn :: "context_snapshot \<Rightarrow> codex_usage \<Rightarrow> refusal \<Rightarrow> nat \<Rightarrow> string list \<Rightarrow> bool \<Rightarrow> turn \<Rightarrow> turn" where
  "note_turn c x r n ks gap t = t\<lparr>tu_Context := c, tu_lastCodexTotal := x, tu_claudeRefusal := r, tu_acpMessage := n,
     tu_antigravityTools := ks, tu_antigravityUsageGap := gap\<rparr>"

section \<open>The interleaving\<close>

text \<open>
  Every section the controls, the reader, the engine's handlers, the caller's consumer and the tool host run, in
  any order. A failing session finishes its turn and closes the host after it has marked itself closed, and anything
  may come in between.
\<close>

inductive session_step :: "tool_host_config \<Rightarrow> session \<Rightarrow> session \<Rightarrow> bool" for cfg where
  received: "i < length (se_turns s) \<Longrightarrow> tu_events (turn_of s i) = e # es \<Longrightarrow>
    session_step cfg s (set_turn i (turn_of s i\<lparr>tu_events := es\<rparr>) s)"
| begun: "begin_turn s name bufferStart = Inr s' \<Longrightarrow> session_step cfg s s'"
| compacted: "begin_compact s = Inr s' \<Longrightarrow> session_step cfg s s'"
| emitted: "i < length (se_turns s) \<Longrightarrow> session_step cfg s (set_turn i (fst (emit_turn e (turn_of s i))) s)"
| texted: "i < length (se_turns s) \<Longrightarrow> session_step cfg s (set_turn i (fst (text_turn (se_MaxTextBytes s) item new replace (turn_of s i))) s)"
| buffered: "i < length (se_turns s) \<Longrightarrow> session_step cfg s (set_turn i (fst (buffer_frame MaxFrameBytes (se_EventBuffer s) m (turn_of s i))) s)"
| replayed: "i < length (se_turns s) \<Longrightarrow> session_step cfg s (set_turn i (fst (replay_turn name (turn_of s i))) s)"
| compact_named: "i < length (se_turns s) \<Longrightarrow> session_step cfg s (set_turn i (compact_started name (turn_of s i)) s)"
| observed: "i < length (se_turns s) \<Longrightarrow> session_step cfg s (set_turn i (observe_usage u (turn_of s i)) s)"
| accounted: "i < length (se_turns s) \<Longrightarrow> session_step cfg s (set_turn i (turn_of s i\<lparr>tu_Usage := u, tu_NativeError := n\<rparr>) s)"
| message_started: "i < length (se_turns s) \<Longrightarrow> session_step cfg s (set_turn i (message_start item (turn_of s i)) s)"
| noted: "i < length (se_turns s) \<Longrightarrow> session_step cfg s (set_turn i (note_turn c x r n ks gap (turn_of s i)) s)"
| context_seen: "session_step cfg s (s\<lparr>se_Context := c, se_capContext := k\<rparr>)"
| interrupt_asked: "i < length (se_turns s) \<Longrightarrow> session_step cfg s (set_turn i (turn_of s i\<lparr>tu_interruptRequested := b\<rparr>) s)"
| finished: "i < length (se_turns s) \<Longrightarrow> session_step cfg s (turn_finish s i status err)"
| failing: "session_step cfg s (failTurn_mark s expected err)"
| ending: "se_endings s = before @ e # after \<Longrightarrow> session_step cfg s (run_ending e (s\<lparr>se_endings := before @ next_ending e @ after\<rparr>))"
| hosted: "se_tools s = Some h \<Longrightarrow> host_step cfg h h' \<Longrightarrow> session_step cfg s (s\<lparr>se_tools := Some h'\<rparr>)"
| context_marked: "session_step cfg s (markContext s reason)"
| context_delivered: "session_step cfg s (contextDelivered s d)"

inductive_cases session_stepE: "session_step cfg s s'"

section \<open>The invariant\<close>

definition turn_ok :: "nat \<Rightarrow> int \<Rightarrow> turn \<Rightarrow> bool" where
  "turn_ok buffer max_text t \<longleftrightarrow>
     tu_closings t = (if tu_finished t then 1 else 0) \<and> tu_buffer t = buffer \<and> length (tu_events t) \<le> buffer \<and>
     int (length (tu_Text t)) \<le> max 0 max_text \<and> length (tu_pending t) \<le> buffer \<and>
     tu_pendingBytes t = sum_list (map length (tu_pending t)) \<and> tu_pendingBytes t \<le> MaxFrameBytes"

definition running_turns :: "session \<Rightarrow> nat set" where
  "running_turns s = {i. i < length (se_turns s) \<and> \<not> tu_finished (turn_of s i)}"

definition turns_inv :: "session \<Rightarrow> bool" where
  "turns_inv s \<longleftrightarrow>
     (\<forall>t\<in>set (se_turns s). turn_ok (se_EventBuffer s) (se_MaxTextBytes s) t) \<and>
     running_turns s \<subseteq> {i. se_active s = Some i} \<and>
     (\<forall>i. se_active s = Some i \<longrightarrow> i < length (se_turns s))"

definition closing_inv :: "session \<Rightarrow> bool" where
  "closing_inv s \<longleftrightarrow>
     se_doneClosings s = (if se_closed s then 1 else 0) \<and>
     (se_endings s \<noteq> [] \<longrightarrow> se_closed s) \<and>
     (\<forall>i err. EndTurn (Some i) err \<in> set (se_endings s) \<longrightarrow> i < length (se_turns s)) \<and>
     (se_closed s \<longrightarrow> (\<forall>i\<in>running_turns s. \<exists>err. EndTurn (Some i) err \<in> set (se_endings s))) \<and>
     (se_closed s \<longrightarrow> (\<forall>h. se_tools s = Some h \<longrightarrow> h_stopped h \<or> se_endings s \<noteq> []))"

definition session_inv :: "session \<Rightarrow> bool" where
  "session_inv s \<longleftrightarrow> turns_inv s \<and> closing_inv s"

lemma set_turn_fields [simp]:
  "se_turns (set_turn i t s) = (se_turns s)[i := t]" "se_active (set_turn i t s) = se_active s"
  "se_closed (set_turn i t s) = se_closed s" "se_doneClosings (set_turn i t s) = se_doneClosings s"
  "se_failure (set_turn i t s) = se_failure s" "se_tools (set_turn i t s) = se_tools s"
  "se_endings (set_turn i t s) = se_endings s" "se_EventBuffer (set_turn i t s) = se_EventBuffer s"
  "se_MaxTextBytes (set_turn i t s) = se_MaxTextBytes s"
  by (simp_all add: set_turn_def)

lemma turn_of_set [simp]: "i < length (se_turns s) \<Longrightarrow> turn_of (set_turn i t s) j = (if j = i then t else turn_of s j)"
  by (auto simp: turn_of_def)

lemma running_set:
  "i < length (se_turns s) \<Longrightarrow> running_turns (set_turn i t s) = (if tu_finished t then running_turns s - {i} else insert i (running_turns s))"
  by (auto simp: running_turns_def)

lemma turn_ok_of: "turns_inv s \<Longrightarrow> i < length (se_turns s) \<Longrightarrow> turn_ok (se_EventBuffer s) (se_MaxTextBytes s) (turn_of s i)"
  by (simp add: turns_inv_def turn_of_def)

text \<open>An operation on one turn: it keeps the turn in order and does not unfinish it.\<close>

lemma turns_inv_set:
  assumes "turns_inv s" "i < length (se_turns s)" "turn_ok (se_EventBuffer s) (se_MaxTextBytes s) t"
    and "\<not> tu_finished t \<Longrightarrow> \<not> tu_finished (turn_of s i)"
  shows "turns_inv (set_turn i t s)"
proof -
  have "running_turns (set_turn i t s) \<subseteq> running_turns s"
    using assms(2,4) by (auto simp: running_set) (auto simp: running_turns_def)
  moreover have "\<forall>u\<in>set (se_turns (set_turn i t s)). turn_ok (se_EventBuffer s) (se_MaxTextBytes s) u"
    using assms(1,3) set_update_subset_insert [of "se_turns s" i t] by (auto simp: turns_inv_def)
  ultimately show ?thesis using assms(1) unfolding turns_inv_def by auto
qed

lemma closing_inv_set:
  assumes "closing_inv s" "i < length (se_turns s)" "\<not> tu_finished t \<Longrightarrow> \<not> tu_finished (turn_of s i)"
  shows "closing_inv (set_turn i t s)"
proof -
  have "running_turns (set_turn i t s) \<subseteq> running_turns s"
    using assms(2,3) by (auto simp: running_set) (auto simp: running_turns_def)
  then show ?thesis using assms(1) by (auto simp: closing_inv_def)
qed

lemma session_inv_set:
  assumes "session_inv s" "i < length (se_turns s)"
    and "turn_ok (se_EventBuffer s) (se_MaxTextBytes s) (turn_of s i) \<Longrightarrow> turn_ok (se_EventBuffer s) (se_MaxTextBytes s) t"
    and "\<not> tu_finished t \<Longrightarrow> \<not> tu_finished (turn_of s i)"
  shows "session_inv (set_turn i t s)"
  using assms turns_inv_set [of s i t] closing_inv_set [of s i t] turn_ok_of [of s i] by (auto simp: session_inv_def)

lemma finish_ok: "turn_ok b m t \<Longrightarrow> turn_ok b m (finish_turn status err t)"
  by (auto simp: turn_ok_def finish_turn_def)

lemma emit_ok: "turn_ok b m t \<Longrightarrow> turn_ok b m (fst (emit_turn e t))" "tu_finished (fst (emit_turn e t)) = tu_finished t"
  by (auto simp: turn_ok_def emit_turn_def)

lemma text_ok: "turn_ok b m t \<Longrightarrow> turn_ok b m (fst (text_turn m item new r t))" "tu_finished (fst (text_turn m item new r t)) = tu_finished t"
  by (auto simp: turn_ok_def text_turn_def Let_def)

lemma buffer_ok: "turn_ok b m t \<Longrightarrow> turn_ok b m (fst (buffer_frame MaxFrameBytes b f t))" "tu_finished (fst (buffer_frame k b f t)) = tu_finished t"
  by (auto simp: turn_ok_def buffer_frame_def)

lemma replay_ok: "turn_ok b m t \<Longrightarrow> turn_ok b m (fst (replay_turn n t))" "tu_finished (fst (replay_turn n t)) = tu_finished t"
  by (auto simp: turn_ok_def replay_turn_def Let_def)

lemma compact_ok: "turn_ok b m t \<Longrightarrow> turn_ok b m (compact_started n t)" "tu_finished (compact_started n t) = tu_finished t"
  by (auto simp: turn_ok_def compact_started_def)

lemma observe_ok: "turn_ok b m t \<Longrightarrow> turn_ok b m (observe_usage u t)" "tu_finished (observe_usage u t) = tu_finished t"
  by (auto simp: turn_ok_def observe_usage_def)

lemmas turn_operations = finish_ok emit_ok text_ok buffer_ok replay_ok compact_ok observe_ok

lemma new_turn_ok: "turn_ok b m ((new_turn n b)\<lparr>tu_starting := x, tu_closeTools := y, tu_Context := c\<rparr>)"
  "turn_ok b m ((new_turn n b)\<lparr>tu_starting := x, tu_compacting := y, tu_awaitingCompactID := z\<rparr>)"
  by (simp_all add: turn_ok_def new_turn_def)

lemma tools_fields [simp]:
  "running_turns (s\<lparr>se_tools := h\<rparr>) = running_turns s" "turns_inv (s\<lparr>se_tools := h\<rparr>) = turns_inv s"
  "running_turns (s\<lparr>se_endings := es\<rparr>) = running_turns s" "turns_inv (s\<lparr>se_endings := es\<rparr>) = turns_inv s"
  "turn_of (s\<lparr>se_tools := h\<rparr>) i = turn_of s i" "turn_of (s\<lparr>se_endings := es\<rparr>) i = turn_of s i"
  by (simp_all add: running_turns_def turns_inv_def turn_of_def)

lemma stopped_tools: "h_stopped (closeAdmission h) = h_stopped h" "h_stopped (close_host h)" "h_stopped (reopen h) = h_stopped h"
  by (simp_all add: closeAdmission_def close_host_def reopen_def)

lemma closing_inv_tools:
  assumes "closing_inv s" "\<And>h. h_stopped h \<Longrightarrow> h_stopped (f h)"
  shows "closing_inv (s\<lparr>se_tools := map_option f (se_tools s)\<rparr>)"
  using assms by (cases "se_tools s") (auto simp: closing_inv_def)

lemma closing_inv_host:
  assumes "closing_inv s" "se_tools s = Some h" "h_stopped h \<Longrightarrow> h_stopped h'"
  shows "closing_inv (s\<lparr>se_tools := Some h'\<rparr>)"
  using assms by (auto simp: closing_inv_def)

lemma session_inv_tools:
  "session_inv s \<Longrightarrow> (\<And>h. h_stopped h \<Longrightarrow> h_stopped (f h)) \<Longrightarrow> session_inv (s\<lparr>se_tools := map_option f (se_tools s)\<rparr>)"
  using closing_inv_tools [of s f] by (simp add: session_inv_def)

lemma turn_finish_alt:
  "turn_finish s i status err = set_turn i (finish_turn status err (turn_of s i))
     (s\<lparr>se_tools := map_option (if \<not> tu_finished (turn_of s i) \<and> tu_closeTools (turn_of s i) then closeAdmission else id) (se_tools s)\<rparr>)"
  by (simp add: turn_finish_def Let_def option.map_id)

lemma finish_finished [simp]: "tu_finished (finish_turn status err t)"
  by (simp add: finish_turn_def)

lemma turn_finish_inv:
  assumes "session_inv s" "i < length (se_turns s)"
  shows "session_inv (turn_finish s i status err)"
  unfolding turn_finish_alt using assms finish_ok
  by (intro session_inv_set session_inv_tools) (auto simp: stopped_tools)

lemma idle_all_finished: "session_inv s \<Longrightarrow> claimIdleLocked s = None \<Longrightarrow> running_turns s = {} \<and> \<not> se_closed s"
proof -
  assume inv: "session_inv s" and idle: "claimIdleLocked s = None"
  have "tu_finished (turn_of s i)" if "se_active s = Some i" for i
  proof -
    have "i < length (se_turns s)" using inv that by (simp add: session_inv_def turns_inv_def)
    then have "turn_ok (se_EventBuffer s) (se_MaxTextBytes s) (turn_of s i)" using inv turn_ok_of by (simp add: session_inv_def)
    then show ?thesis using idle that by (auto simp: claimIdleLocked_def turn_ok_def split: if_splits)
  qed
  moreover have "running_turns s \<subseteq> {i. se_active s = Some i}" using inv by (simp add: session_inv_def turns_inv_def)
  ultimately have "running_turns s = {}" by (auto simp: running_turns_def)
  then show ?thesis using idle by (simp add: claimIdleLocked_def split: if_splits)
qed

lemma add_turn_inv:
  assumes "session_inv s" "claimIdleLocked s = None" "turn_ok (se_EventBuffer s) (se_MaxTextBytes s) t"
  shows "session_inv (s\<lparr>se_turns := se_turns s @ [t], se_active := Some (length (se_turns s))\<rparr>)" (is "session_inv ?s")
proof -
  have none: "running_turns s = {}" "\<not> se_closed s" using idle_all_finished [OF assms(1,2)] by auto
  have "running_turns ?s \<subseteq> {length (se_turns s)}"
    using none(1) by (auto simp: running_turns_def turn_of_def nth_append less_Suc_eq)
  then show ?thesis using assms(1,3) none(2) by (auto simp: session_inv_def turns_inv_def closing_inv_def)
qed

lemma begin_turn_inv: "session_inv s \<Longrightarrow> begin_turn s n b = Inr s' \<Longrightarrow> session_inv s'"
proof -
  assume inv: "session_inv s" and s': "begin_turn s n b = Inr s'"
  let ?t = "(new_turn n (se_EventBuffer s))\<lparr>tu_starting := b, tu_closeTools := se_tools s \<noteq> None, tu_Context := changing_context s\<rparr>"
  let ?u = "s\<lparr>se_turns := se_turns s @ [?t], se_active := Some (length (se_turns s))\<rparr>"
  have idle: "claimIdleLocked s = None" and eq: "s' = (?u\<lparr>se_tools := map_option reopen (se_tools ?u)\<rparr>)\<lparr>se_Context := changing_context s\<rparr>"
    using s' by (auto simp: begin_turn_def split: option.splits if_splits)
  have "session_inv (?u\<lparr>se_tools := map_option reopen (se_tools ?u)\<rparr>)"
    by (intro session_inv_tools add_turn_inv [OF inv idle] new_turn_ok) (simp add: stopped_tools)
  then show ?thesis unfolding eq by (simp add: session_inv_def turns_inv_def closing_inv_def running_turns_def turn_of_def)
qed

lemma begin_compact_inv: "session_inv s \<Longrightarrow> begin_compact s = Inr s' \<Longrightarrow> session_inv s'"
  using add_turn_inv new_turn_ok by (auto simp: begin_compact_def split: option.splits)

lemma fail_mark_inv:
  assumes "session_inv s"
  shows "session_inv (failTurn_mark s expected err)"
proof (cases "failTurn_mark s expected err = s")
  case False
  then have "\<not> se_closed s" and eq: "failTurn_mark s expected err = s\<lparr>se_closed := True,
      se_failure := (if se_failure s = None \<and> err \<noteq> ErrClosed then Some err else se_failure s),
      se_doneClosings := Suc (se_doneClosings s), se_endings := se_endings s @ [EndTurn (se_active s) err]\<rparr>"
    by (auto simp: failTurn_mark_def split: if_splits)
  show ?thesis unfolding eq using assms \<open>\<not> se_closed s\<close>
    by (auto simp: session_inv_def turns_inv_def closing_inv_def running_turns_def turn_of_def)
qed (use assms in simp)

lemma ending_inv:
  assumes inv: "session_inv s" and e: "se_endings s = before @ e # after"
  shows "session_inv (run_ending e (s\<lparr>se_endings := before @ next_ending e @ after\<rparr>))"
proof (cases e)
  case CloseHost
  then show ?thesis using inv e by (auto simp: session_inv_def closing_inv_def stopped_tools)
next
  case (EndTurn i err)
  let ?s = "s\<lparr>se_endings := before @ CloseHost # after\<rparr>"
  show ?thesis
  proof (cases i)
    case None
    then show ?thesis using inv e EndTurn by (auto simp: session_inv_def closing_inv_def)
  next
    case (Some k)
    have k: "k < length (se_turns s)" using inv e EndTurn Some by (auto simp: session_inv_def closing_inv_def)
    have t: "turns_inv (turn_finish ?s k ''failed'' (Some err))"
      unfolding turn_finish_alt using inv k turn_ok_of [of s k]
      by (intro turns_inv_set) (simp_all add: session_inv_def finish_ok)
    have "closing_inv (turn_finish ?s k ''failed'' (Some err))"
      unfolding turn_finish_alt using inv e EndTurn Some k
      by (auto simp: closing_inv_def session_inv_def running_set)
    then show ?thesis using t EndTurn Some by (simp add: session_inv_def)
  qed
qed

lemma host_step_stopped: "host_step cfg h h' \<Longrightarrow> h_stopped h \<Longrightarrow> h_stopped h'"
  by (auto elim!: host_step.cases call_step.cases env_step.cases simp: host_ops call_moves Let_def split: option.splits)

lemma session_inv_step:
  assumes inv: "session_inv s" and step: "session_step cfg s s'"
  shows "session_inv s'"
  using step
proof cases
  case (hosted h h')
  then show ?thesis using inv host_step_stopped [of cfg h h'] closing_inv_host [of s h h'] by (simp add: session_inv_def)
next
  case (context_marked reason)
  then show ?thesis using inv
    by (simp add: session_inv_def turns_inv_def closing_inv_def running_turns_def turn_of_def markContext_def)
next
  case (context_delivered d)
  then show ?thesis using inv
    by (simp add: session_inv_def turns_inv_def closing_inv_def running_turns_def turn_of_def contextDelivered_def)
next
  case (received i e es)
  then show ?thesis using inv by (auto intro!: session_inv_set simp: turn_ok_def)
next
  case (accounted i u n)
  then show ?thesis using inv by (auto intro!: session_inv_set simp: turn_ok_def)
next
  case (interrupt_asked i b)
  then show ?thesis using inv by (auto intro!: session_inv_set simp: turn_ok_def)
next
  case (message_started i item)
  then show ?thesis using inv by (auto intro!: session_inv_set simp: turn_ok_def message_start_def)
next
  case (noted i c x r n ks gap)
  then show ?thesis using inv by (auto intro!: session_inv_set simp: turn_ok_def note_turn_def)
next
  case (context_seen c k)
  then show ?thesis using inv
    by (simp add: session_inv_def turns_inv_def closing_inv_def running_turns_def turn_of_def)
qed (use inv in \<open>auto intro!: session_inv_set intro: begin_turn_inv begin_compact_inv fail_mark_inv ending_inv turn_finish_inv simp: turn_operations\<close>)

definition fresh_session :: "session \<Rightarrow> bool" where
  "fresh_session s \<longleftrightarrow> se_turns s = [] \<and> se_active s = None \<and> \<not> se_closed s \<and> se_doneClosings s = 0 \<and> se_endings s = []"

lemma session_inv_start: "fresh_session s \<Longrightarrow> session_inv s"
  by (simp add: fresh_session_def session_inv_def turns_inv_def closing_inv_def running_turns_def)

interpretation sessions: invariant_system fresh_session "session_step cfg" session_inv
  by unfold_locales (auto intro: session_inv_start session_inv_step)

text \<open>
  C29. One turn at a time, each ended once. However the controls, the reader, the engine's events, the consumer, the tool
  host and the session's own failure interleave, at most one turn is unfinished and it is the active one; the
  session's and every turn's channels are closed exactly when they are over, and never twice; no event queue outgrows its
  buffer, no turn's text its bound, and no buffered start-up its frame bound.
\<close>

theorem one_turn_at_a_time:
  assumes "reachable_from fresh_session (session_step cfg) s"
  shows "(\<forall>i\<in>running_turns s. se_active s = Some i)
    \<and> se_doneClosings s = (if se_closed s then 1 else 0)
    \<and> (\<forall>t\<in>set (se_turns s). tu_closings t = (if tu_finished t then 1 else 0)
         \<and> length (tu_events t) \<le> se_EventBuffer s
         \<and> int (length (tu_Text t)) \<le> max 0 (se_MaxTextBytes s)
         \<and> length (tu_pending t) \<le> se_EventBuffer s \<and> sum_list (map length (tu_pending t)) \<le> MaxFrameBytes)"
  using sessions.inv_reachable [OF assms]
  by (auto simp: session_inv_def turns_inv_def closing_inv_def turn_ok_def)

text \<open>
  C30. Closing a session is final and complete: a closed session stays closed and starts no turn, and once the
  work it still owed is done every turn it had is finished and its tool host is stopped.
\<close>

theorem closing_ends_everything:
  assumes "reachable_from fresh_session (session_step cfg) s" "se_closed s"
  shows "begin_turn s n b = Inl ErrClosed \<and> begin_compact s = Inl ErrClosed
    \<and> (se_endings s = [] \<longrightarrow> running_turns s = {} \<and> (\<forall>h. se_tools s = Some h \<longrightarrow> h_stopped h))"
  using sessions.inv_reachable [OF assms(1)] assms(2)
  by (auto simp: session_inv_def closing_inv_def begin_turn_def begin_compact_def claimIdleLocked_def)

section \<open>How a turn ended\<close>

text \<open>What never changes about a finished turn; its event queue only drains.\<close>

definition ended_as :: "turn \<Rightarrow> turn \<Rightarrow> bool" where
  "ended_as t u \<longleftrightarrow> (tu_finished t \<longrightarrow> tu_finished u \<and> tu_Status u = tu_Status t \<and> tu_err u = tu_err t
      \<and> tu_Text u = tu_Text t \<and> suffix (tu_events u) (tu_events t))"

lemma ended_as_refl [simp]: "ended_as t t"
  by (simp add: ended_as_def)

lemma turn_of_other [simp]: "turn_of (set_turn i t s) j = (if j = i \<and> i < length (se_turns s) then t else turn_of s j)"
  by (cases "i < length (se_turns s)") (auto simp: turn_of_def list_update_beyond)

lemma ended_operations [simp]:
  "ended_as t (finish_turn status err t)" "ended_as t (fst (emit_turn e t))" "ended_as t (fst (text_turn m item new r t))"
  "ended_as t (fst (buffer_frame k b f t))" "ended_as t (fst (replay_turn n t))" "ended_as t (compact_started n t)"
  "ended_as t (observe_usage u t)"
  by (auto simp: ended_as_def finish_turn_def emit_turn_def text_turn_def buffer_frame_def replay_turn_def compact_started_def
      observe_usage_def Let_def)

lemma ended_fields [simp]:
  "ended_as t (t\<lparr>tu_Usage := u, tu_NativeError := n\<rparr>)" "ended_as t (t\<lparr>tu_interruptRequested := b\<rparr>)"
  "ended_as t (note_turn c x r k ks gap t)"
  by (simp_all add: ended_as_def note_turn_def)

lemma turns_kept [simp]:
  "se_turns (failTurn_mark s expected err) = se_turns s" "se_turns (markContext s reason) = se_turns s"
  "se_turns (contextDelivered s d) = se_turns s" "turn_of (failTurn_mark s expected err) i = turn_of s i"
  "turn_of (markContext s reason) i = turn_of s i" "turn_of (contextDelivered s d) i = turn_of s i"
  by (simp_all add: failTurn_mark_def markContext_def contextDelivered_def turn_of_def)

lemma ending_ended: "ended_as (turn_of s i) (turn_of (run_ending e (s\<lparr>se_endings := es\<rparr>)) i)"
  by (cases "(e, s)" rule: run_ending.cases) (auto simp: turn_finish_alt)

lemma turn_of_append: "i < length (se_turns s) \<Longrightarrow> se_turns s' = se_turns s @ ts \<Longrightarrow> turn_of s' i = turn_of s i"
  by (simp add: turn_of_def nth_append)

lemma begin_turn_appends: "begin_turn s n b = Inr s' \<Longrightarrow> \<exists>t. se_turns s' = se_turns s @ [t]"
  by (auto simp: begin_turn_def split: option.splits if_splits)

lemma begin_compact_appends: "begin_compact s = Inr s' \<Longrightarrow> \<exists>t. se_turns s' = se_turns s @ [t]"
  by (auto simp: begin_compact_def split: option.splits)

lemma step_ended:
  assumes "session_step cfg s s'" "i < length (se_turns s)"
  shows "i < length (se_turns s') \<and> (ended_as (turn_of s i) (turn_of s' i) \<or> (\<exists>item. s' = set_turn i (message_start item (turn_of s i)) s))"
proof (cases "\<exists>item. s' = set_turn i (message_start item (turn_of s i)) s")
  case True
  then show ?thesis using assms(2) by auto
next
  case False
  have "i < length (se_turns s') \<and> ended_as (turn_of s i) (turn_of s' i)"
    using assms(1)
  proof cases
    case (begun n b)
    then obtain t where t: "se_turns s' = se_turns s @ [t]" using begin_turn_appends by blast
    show ?thesis using turn_of_append [OF assms(2) t] assms(2) t by simp
  next
    case compacted
    then obtain t where t: "se_turns s' = se_turns s @ [t]" using begin_compact_appends by blast
    show ?thesis using turn_of_append [OF assms(2) t] assms(2) t by simp
  next
    case (ending before e after)
    then show ?thesis using ending_ended [of s i e] assms(2)
      by (cases "(e, s)" rule: run_ending.cases) (auto simp: turn_finish_alt)
  next
    case (received j e es)
    then show ?thesis using assms(2) by (auto simp: ended_as_def suffix_ConsI)
  next
    case (message_started j item)
    then show ?thesis using False assms(2) by auto
  next
    case (context_seen c k)
    then show ?thesis using assms(2) by (simp add: turn_of_def)
  qed (use assms(2) in \<open>auto simp: turn_finish_alt\<close>)
  then show ?thesis by blast
qed

text \<open>
  C31. The first ending of a turn is the one its caller sees: no later step, not the session's failure, a late engine event
  or text, changes the status or error of a finished turn, and nothing is added to its events. Its text is either kept or, by a
  message start of Claude that was on its way when the turn ended and by nothing else, emptied.
\<close>

theorem turn_end_final:
  assumes "session_step cfg s s'" "i < length (se_turns s)" "tu_finished (turn_of s i)"
  shows "i < length (se_turns s') \<and> tu_finished (turn_of s' i) \<and> turn_Wait s' i = turn_Wait s i
    \<and> suffix (tu_events (turn_of s' i)) (tu_events (turn_of s i))
    \<and> (tu_Text (turn_of s' i) = tu_Text (turn_of s i)
       \<or> (\<exists>item. s' = set_turn i (message_start item (turn_of s i)) s \<and> tu_Text (turn_of s' i) = []))"
  using step_ended [OF assms(1,2)] assms(2,3) by (auto simp: ended_as_def turn_Wait_def message_start_def)

section \<open>Starting a turn\<close>

lemma begin_turn_running:
  assumes "session_inv s" "begin_turn s n b = Inr s1"
  shows "running_turns s = {} \<and> \<not> se_closed s \<and> tools_ready s \<and> running_turns s1 = {length (se_turns s)}
    \<and> se_active s1 = Some (length (se_turns s)) \<and> se_tools s1 = map_option reopen (se_tools s)"
proof -
  have idle: "claimIdleLocked s = None" "tools_ready s" using assms(2) by (auto simp: begin_turn_def split: option.splits if_splits)
  have none: "running_turns s = {}" "\<not> se_closed s" using idle_all_finished [OF assms(1) idle(1)] by auto
  have "running_turns s1 = {length (se_turns s)}"
    using assms(2) idle none(1)
    by (auto simp: begin_turn_def running_turns_def turn_of_def nth_append less_Suc_eq new_turn_def)
  then show ?thesis using assms(2) idle none by (auto simp: begin_turn_def)
qed

text \<open>
  C32. What a started turn means: when it was claimed, after the caller's handler had run, the session was open, every earlier turn had finished
  and every hosted tool call had settled; the engine was asked with the new turn as the only unfinished one, the caller's context wrapped
  around the input, the tool channel reopened for a new generation of calls, and the occupancy on the session and on the turn no longer
  said to be current. A context mark made while the handler ran or the turn was starting survives it.
\<close>

theorem start_turn_sound:
  assumes "reachable_from fresh_session (session_step cfg) s" "(session_step cfg)\<^sup>*\<^sup>* s (meanwhile s)"
    and "startTurnScoped s requestDone lifetimeDone input handler meanwhile n b started = (s', Inr k)"
  shows "running_turns (meanwhile s) = {} \<and> \<not> se_closed (meanwhile s) \<and> tools_ready (meanwhile s) \<and> k = length (se_turns (meanwhile s))
    \<and> (\<exists>s1 d s2. callerContext s handler = Inr d \<and> started s1 k (wrap d input) = (s2, None) \<and> s' = contextDelivered s2 d
        \<and> running_turns s1 = {k} \<and> se_active s1 = Some k \<and> se_tools s1 = map_option reopen (se_tools (meanwhile s))
        \<and> ob_Invalidated (cx_Observation (se_Context s1)) \<and> tu_Context (turn_of s1 k) = se_Context s1
        \<and> (se_contextGeneration s2 \<noteq> se_contextGeneration s \<longrightarrow> se_contextPending s' = se_contextPending s2))"
proof -
  obtain d s1 s2 where d: "callerContext s handler = Inr d" and s1: "begin_turn (meanwhile s) n b = Inr s1"
    and k: "k = length (se_turns (meanwhile s))" and s2: "started s1 k (wrap d input) = (s2, None)" "s' = contextDelivered s2 d"
    using assms(3) by (auto simp: startTurnScoped_def Let_def split: if_splits sum.splits option.splits prod.splits)
  have "cd_generation d = se_contextGeneration s"
    using d by (auto simp: callerContext_def Let_def split: option.splits if_splits sum.splits)
  then have "se_contextGeneration s2 \<noteq> se_contextGeneration s \<longrightarrow> se_contextPending s' = se_contextPending s2"
    by (simp add: s2(2) contextDelivered_def)
  moreover have "ob_Invalidated (cx_Observation (se_Context s1)) \<and> tu_Context (turn_of s1 k) = se_Context s1"
    using s1 k by (auto simp: begin_turn_def changing_context_def invalidate_def turn_of_def split: option.splits if_splits)
  moreover have "session_inv (meanwhile s)" by (rule sessions.inv_steps [OF assms(2) sessions.inv_reachable [OF assms(1)]])
  ultimately show ?thesis using begin_turn_running [OF _ s1] d k s2 by blast
qed

section \<open>A session at work\<close>

definition demo_session :: session where
  "demo_session = new_session OpenAICompatible 4 100 None"

definition demo_started :: session where
  "demo_started = demo_session\<lparr>se_turns := [(new_turn ''t1'' 4)\<lparr>tu_Context := changing_context demo_session\<rparr>], se_active := Some 0,
     se_Context := changing_context demo_session\<rparr>"

definition demo_failed :: session where
  "demo_failed = failTurn_mark demo_started None ErrTransport"

lemma demo_started_begun: "begin_turn demo_session ''t1'' False = Inr demo_started"
  by (simp add: begin_turn_def demo_session_def demo_started_def new_session_def claimIdleLocked_def tools_ready_def new_turn_def)

lemma demo_session_reachable:
  "reachable_from fresh_session (session_step cfg) demo_session"
  "reachable_from fresh_session (session_step cfg) demo_started"
  "reachable_from fresh_session (session_step cfg) demo_failed"
proof -
  show r0: "reachable_from fresh_session (session_step cfg) demo_session"
    by (rule reachable_from.init) (simp add: fresh_session_def demo_session_def new_session_def)
  have "session_step cfg demo_session demo_started" using demo_started_begun by (rule session_step.begun)
  with r0 show r1: "reachable_from fresh_session (session_step cfg) demo_started" by (rule reachable_from.step)
  have "session_step cfg demo_started demo_failed" unfolding demo_failed_def by (rule session_step.failing)
  with r1 show "reachable_from fresh_session (session_step cfg) demo_failed" by (rule reachable_from.step)
qed

lemmas demo_session_defs = demo_started_def demo_session_def new_session_def new_turn_def

theorem one_turn_at_a_time_witness:
  "running_turns demo_started = {0} \<and> se_active demo_started = Some 0 \<and> se_doneClosings demo_started = 0"
proof -
  have "running_turns demo_started = {0}" by (auto simp: running_turns_def turn_of_def demo_session_defs)
  moreover have "\<not> se_closed demo_started" by (simp add: demo_session_defs)
  ultimately show ?thesis using one_turn_at_a_time [OF demo_session_reachable(2)] by simp
qed

theorem closing_ends_everything_witness:
  "se_closed demo_failed \<and> begin_turn demo_failed ''t2'' False = Inl ErrClosed"
proof -
  have "se_closed demo_failed" by (simp add: demo_failed_def failTurn_mark_def demo_session_defs)
  then show ?thesis using closing_ends_everything [OF demo_session_reachable(3)] by blast
qed

theorem turn_end_final_witness:
  "turn_Wait (turn_finish (turn_finish demo_started 0 ''completed'' None) 0 ''failed'' (Some ErrTransport)) 0 = (''completed'', None)"
proof -
  let ?s = "turn_finish demo_started 0 ''completed'' None"
  have l: "0 < length (se_turns ?s)" by (simp add: turn_finish_alt demo_session_defs)
  have f: "tu_finished (turn_of ?s 0)" by (simp add: turn_finish_alt demo_session_defs)
  have w: "turn_Wait ?s 0 = (''completed'', None)"
    by (simp add: turn_Wait_def turn_finish_alt finish_turn_def turn_of_def demo_session_defs set_turn_def)
  have "session_step demo_config ?s (turn_finish ?s 0 ''failed'' (Some ErrTransport))" using l by (rule session_step.finished)
  from turn_end_final [OF this l f] show ?thesis using w by simp
qed

theorem start_turn_sound_witness:
  "startTurnScoped demo_session False False ''go'' None (\<lambda>s. s) ''t1'' False (\<lambda>s n i. (s, None)) = (demo_started, Inr 0)
   \<and> running_turns demo_session = {} \<and> tools_ready demo_session"
proof -
  have "startTurnScoped demo_session False False ''go'' None (\<lambda>s. s) ''t1'' False (\<lambda>s n i. (s, None)) = (demo_started, Inr 0)"
    using demo_started_begun
    by (simp add: startTurnScoped_def callerContext_def Let_def contextDelivered_def) (simp add: demo_session_defs)
  then show ?thesis using start_turn_sound [where meanwhile = "\<lambda>s. s", OF demo_session_reachable(1) rtranclp.rtrancl_refl] by blast
qed

end
