(* ===== verification/Stream_Events.thy ===== *)
theory Stream_Events
  imports Session_Turns
begin

text \<open>
  What the engines' stream dialects share (session/events_tools.go, telemetry_events.go): tool activity on events, the
  occupancy of the conversation and the usage of a response. Every one of these operations moves the session by the steps of Session_Turns.
\<close>

section \<open>Telemetry of a turn\<close>

definition context_event :: "context_snapshot \<Rightarrow> event" where
  "context_event c = (event_of ''context'')\<lparr>ev_Context := Some c\<rparr>"

definition publish_context :: "session \<Rightarrow> nat option \<Rightarrow> context_snapshot \<Rightarrow> session" where
  "publish_context s turn c =
     (case turn of None \<Rightarrow> s
      | Some i \<Rightarrow> session_emit (set_turn i (turn_of s i\<lparr>tu_Context := c\<rparr>) s) i (context_event c))"

definition observeContext :: "session \<Rightarrow> nat option \<Rightarrow> context_snapshot \<Rightarrow> session" where
  "observeContext s turn c = publish_context (s\<lparr>se_Context := c, se_capContext := recordCapability (se_capContext s) None\<rparr>) turn c"

definition invalidateContext :: "session \<Rightarrow> nat option \<Rightarrow> string \<Rightarrow> session" where
  "invalidateContext s turn reason =
     (let c = (se_Context s)\<lparr>cx_Observation := invalidate reason (cx_Observation (se_Context s))\<rparr>
      in publish_context (s\<lparr>se_Context := c\<rparr>) turn c)"

definition observeRequestUsage :: "session \<Rightarrow> nat \<Rightarrow> session_usage \<Rightarrow> session" where
  "observeRequestUsage s i u =
     (if \<not> Known (s_Usage u) then s
      else let t = observe_usage u (turn_of s i)
           in session_emit (set_turn i t s) i ((event_of ''usage'')\<lparr>ev_Usage := Some ((tu_Observed t)\<lparr>s_Final := False\<rparr>)\<rparr>))"

definition claudeMessageContext ::
  "int \<Rightarrow> session \<Rightarrow> nat \<Rightarrow> (string \<times> (int64 option \<times> int64 option \<times> int64 option) option) option \<Rightarrow> session" where
  "claudeMessageContext now s i message =
     (case message_context now (se_Context s) message of None \<Rightarrow> s | Some c \<Rightarrow> observeContext s (Some i) c)"

definition claudeModelCapacity :: "session \<Rightarrow> nat \<Rightarrow> (string \<times> int64 option) list option \<Rightarrow> session" where
  "claudeModelCapacity s i models =
     (case model_capacity (se_Context s) models of None \<Rightarrow> s | Some c \<Rightarrow> observeContext s (Some i) c)"

text \<open>How a dialect ends a turn it has the accounting of: the usage it knows, the status, the end.\<close>

definition publish_terminal :: "session \<Rightarrow> nat \<Rightarrow> string \<Rightarrow> session_error option \<Rightarrow> session" where
  "publish_terminal s i status err =
     (let usage = tu_Usage (turn_of s i);
          s1 = (if Known (s_Usage usage) then session_emit s i ((event_of ''usage'')\<lparr>ev_Usage := Some (usage\<lparr>s_Final := True\<rparr>)\<rparr>) else s);
          s2 = session_emit s1 i ((event_of ''status'')\<lparr>ev_Status := status\<rparr>)
      in turn_finish s2 i status err)"

section \<open>Every operation is a sequence of steps\<close>

definition moves :: "tool_host_config \<Rightarrow> session \<Rightarrow> session \<Rightarrow> bool" where
  "moves cfg s s' \<longleftrightarrow> (session_step cfg)\<^sup>*\<^sup>* s s' \<and> length (se_turns s') = length (se_turns s)"

lemma moves_refl [simp]: "moves cfg s s"
  by (simp add: moves_def)

lemma moves_trans: "moves cfg s u \<Longrightarrow> moves cfg u v \<Longrightarrow> moves cfg s v"
  by (auto simp: moves_def)

lemma moves_step: "session_step cfg s s' \<Longrightarrow> length (se_turns s') = length (se_turns s) \<Longrightarrow> moves cfg s s'"
  by (auto simp: moves_def)

lemma moves_length: "moves cfg s s' \<Longrightarrow> i < length (se_turns s) \<Longrightarrow> i < length (se_turns s')"
  by (simp add: moves_def)

lemma moves_set:
  assumes "i < length (se_turns s)"
  shows "moves cfg s (set_turn i (fst (emit_turn e (turn_of s i))) s)"
    "moves cfg s (set_turn i (fst (text_turn (se_MaxTextBytes s) item new replace (turn_of s i))) s)"
    "moves cfg s (set_turn i (compact_started name (turn_of s i)) s)"
    "moves cfg s (set_turn i (observe_usage u (turn_of s i)) s)"
    "moves cfg s (set_turn i (message_start item (turn_of s i)) s)"
    "moves cfg s (set_turn i (turn_of s i\<lparr>tu_Usage := w, tu_NativeError := n\<rparr>) s)"
    "moves cfg s (set_turn i (note_turn c x r k ks gap (turn_of s i)) s)"
  using assms by (auto intro!: moves_step session_step.intros)

lemma note_single:
  "t\<lparr>tu_Context := c\<rparr> = note_turn c (tu_lastCodexTotal t) (tu_claudeRefusal t) (tu_acpMessage t) (tu_antigravityTools t) (tu_antigravityUsageGap t) t"
  "t\<lparr>tu_lastCodexTotal := x\<rparr> = note_turn (tu_Context t) x (tu_claudeRefusal t) (tu_acpMessage t) (tu_antigravityTools t) (tu_antigravityUsageGap t) t"
  "t\<lparr>tu_claudeRefusal := r\<rparr> = note_turn (tu_Context t) (tu_lastCodexTotal t) r (tu_acpMessage t) (tu_antigravityTools t) (tu_antigravityUsageGap t) t"
  "t\<lparr>tu_acpMessage := n\<rparr> = note_turn (tu_Context t) (tu_lastCodexTotal t) (tu_claudeRefusal t) n (tu_antigravityTools t) (tu_antigravityUsageGap t) t"
  "t\<lparr>tu_antigravityTools := ks\<rparr> = note_turn (tu_Context t) (tu_lastCodexTotal t) (tu_claudeRefusal t) (tu_acpMessage t) ks (tu_antigravityUsageGap t) t"
  "t\<lparr>tu_antigravityTools := ks, tu_antigravityUsageGap := gap\<rparr>
     = note_turn (tu_Context t) (tu_lastCodexTotal t) (tu_claudeRefusal t) (tu_acpMessage t) ks gap t"
  by (simp_all add: note_turn_def)

lemma moves_note:
  assumes "i < length (se_turns s)"
  shows "moves cfg s (set_turn i (turn_of s i\<lparr>tu_Context := c\<rparr>) s)"
    "moves cfg s (set_turn i (turn_of s i\<lparr>tu_lastCodexTotal := x\<rparr>) s)"
    "moves cfg s (set_turn i (turn_of s i\<lparr>tu_claudeRefusal := r\<rparr>) s)"
    "moves cfg s (set_turn i (turn_of s i\<lparr>tu_acpMessage := n\<rparr>) s)"
    "moves cfg s (set_turn i (turn_of s i\<lparr>tu_antigravityTools := ks\<rparr>) s)"
    "moves cfg s (set_turn i (turn_of s i\<lparr>tu_antigravityTools := ks, tu_antigravityUsageGap := gap\<rparr>) s)"
  using moves_set(7) [OF assms]
  by (simp_all only: note_single(1), simp_all only: note_single(2), simp_all only: note_single(3), simp_all only: note_single(4),
      simp_all only: note_single(6), simp_all only: note_single(5))

lemma turn_finish_length [simp]: "length (se_turns (turn_finish s i status err)) = length (se_turns s)"
  by (simp add: turn_finish_alt)

lemma moves_finish: "i < length (se_turns s) \<Longrightarrow> moves cfg s (turn_finish s i status err)"
  by (rule moves_step) (auto intro: session_step.intros)

lemma moves_telemetry: "moves cfg s (s\<lparr>se_Context := c, se_capContext := k\<rparr>)"
  by (rule moves_step) (auto intro: session_step.intros)

lemma moves_mark: "moves cfg s (markContext s reason)"
  by (rule moves_step) (auto intro: session_step.intros)

lemma run_ending_endings: "run_ending e (s\<lparr>se_endings := es\<rparr>) = (run_ending e s)\<lparr>se_endings := es\<rparr>"
  by (cases "(e, s)" rule: run_ending.cases) (simp_all add: turn_finish_alt set_turn_def turn_of_def)

lemma run_ending_length: "length (se_turns (run_ending e s)) = length (se_turns s)"
  by (cases "(e, s)" rule: run_ending.cases) simp_all

lemma failTurn_mark_cases: "failTurn_mark s expected err = s \<or> se_endings (failTurn_mark s expected err) = se_endings s @ [EndTurn (se_active s) err]"
  by (simp add: failTurn_mark_def)

lemma moves_failTurn: "moves cfg s (failTurn s expected err)"
proof (cases "failTurn_mark s expected err = s")
  case True
  then show ?thesis by (simp add: failTurn_def Let_def)
next
  case False
  let ?m = "failTurn_mark s expected err" and ?e = "EndTurn (se_active s) err"
  have m: "se_endings ?m = se_endings s @ [?e]" using False failTurn_mark_cases [of s expected err] by blast
  let ?a = "run_ending ?e (?m\<lparr>se_endings := se_endings s @ [CloseHost]\<rparr>)"
  have a: "session_step cfg ?m ?a"
    using session_step.ending [of ?m "se_endings s" ?e "[]" cfg] m by simp
  have "se_endings ?a = se_endings s @ [CloseHost]" by (simp add: run_ending_endings)
  then have b: "session_step cfg ?a (run_ending CloseHost (?a\<lparr>se_endings := se_endings s\<rparr>))"
    using session_step.ending [of ?a "se_endings s" CloseHost "[]" cfg] by simp
  have "?a\<lparr>se_endings := se_endings s\<rparr> = run_ending ?e (?m\<lparr>se_endings := se_endings s\<rparr>)" by (simp add: run_ending_endings)
  then have eq: "run_ending CloseHost (?a\<lparr>se_endings := se_endings s\<rparr>) = failTurn s expected err"
    using m by (simp add: failTurn_def Let_def)
  have "session_step cfg s ?m" by (rule session_step.failing)
  moreover have "length (se_turns (failTurn s expected err)) = length (se_turns s)"
    by (simp add: eq [symmetric] run_ending_length del: run_ending.simps)
  ultimately show ?thesis using a b eq by (auto simp: moves_def)
qed

lemma moves_emit: "i < length (se_turns s) \<Longrightarrow> moves cfg s (session_emit s i e)"
  using moves_set(1) [of i s cfg e] moves_failTurn
  by (auto simp: session_emit_def intro: moves_trans split: prod.split option.split)

lemma moves_text: "i < length (se_turns s) \<Longrightarrow> moves cfg s (session_text s i item new replace)"
proof (cases "tu_finished (turn_of s i)")
  case False
  assume i: "i < length (se_turns s)"
  obtain t err where t: "text_turn (se_MaxTextBytes s) item new replace (turn_of s i) = (t, err)" by fastforce
  then have m: "moves cfg s (set_turn i t s)" using moves_set(2) [OF i, of cfg item new replace] by simp
  show ?thesis using False t m moves_failTurn moves_emit [of i "set_turn i t s" cfg] i
    by (cases err) (auto simp: session_text_def intro: moves_trans)
qed (simp add: session_text_def)

lemma moves_publish: "(\<And>i. turn = Some i \<Longrightarrow> i < length (se_turns s)) \<Longrightarrow> moves cfg s (publish_context s turn c)"
proof (cases turn)
  case (Some i)
  assume "\<And>i. turn = Some i \<Longrightarrow> i < length (se_turns s)"
  then have i: "i < length (se_turns s)" using Some by simp
  have "moves cfg s (set_turn i (turn_of s i\<lparr>tu_Context := c\<rparr>) s)" by (rule moves_note [OF i])
  then show ?thesis using Some i moves_emit [of i "set_turn i (turn_of s i\<lparr>tu_Context := c\<rparr>) s" cfg]
    by (auto simp: publish_context_def intro: moves_trans)
qed (simp add: publish_context_def)

lemma moves_observe:
  assumes "\<And>i. turn = Some i \<Longrightarrow> i < length (se_turns s)"
  shows "moves cfg s (observeContext s turn c)" "moves cfg s (invalidateContext s turn reason)"
proof -
  show "moves cfg s (observeContext s turn c)" unfolding observeContext_def
    by (rule moves_trans [OF moves_telemetry moves_publish]) (use assms in simp)
  have "moves cfg s (s\<lparr>se_Context := d\<rparr>)" for d using moves_telemetry [where s = s and c = d and k = "se_capContext s"] by simp
  then show "moves cfg s (invalidateContext s turn reason)" unfolding invalidateContext_def Let_def
    by (rule moves_trans [OF _ moves_publish]) (use assms in simp)
qed

lemma moves_usage: "i < length (se_turns s) \<Longrightarrow> moves cfg s (observeRequestUsage s i u)"
  using moves_set(4) [of i s cfg u] moves_emit [of i "set_turn i (observe_usage u (turn_of s i)) s" cfg]
  by (auto simp: observeRequestUsage_def Let_def intro: moves_trans)

lemma moves_claude_context: "i < length (se_turns s) \<Longrightarrow> moves cfg s (claudeMessageContext now s i m)"
    "i < length (se_turns s) \<Longrightarrow> moves cfg s (claudeModelCapacity s i ms)"
  by (auto simp: claudeMessageContext_def claudeModelCapacity_def intro!: moves_observe split: option.split)

lemma moves_terminal: "i < length (se_turns s) \<Longrightarrow> moves cfg s (publish_terminal s i status err)"
proof -
  assume i: "i < length (se_turns s)"
  let ?u = "(event_of ''usage'')\<lparr>ev_Usage := Some (tu_Usage (turn_of s i)\<lparr>s_Final := True\<rparr>)\<rparr>"
  define s1 where "s1 = (if Known (s_Usage (tu_Usage (turn_of s i))) then session_emit s i ?u else s)"
  have m1: "moves cfg s s1" using moves_emit [OF i] by (simp add: s1_def)
  have i1: "i < length (se_turns s1)" using moves_length [OF m1 i] .
  let ?s2 = "session_emit s1 i ((event_of ''status'')\<lparr>ev_Status := status\<rparr>)"
  have m2: "moves cfg s ?s2" using m1 moves_emit [OF i1] by (rule moves_trans)
  show ?thesis using moves_trans [OF m2 moves_finish [OF moves_length [OF m2 i]]] by (simp add: publish_terminal_def Let_def s1_def)
qed

lemma moves_inv: "moves cfg s s' \<Longrightarrow> session_inv s \<Longrightarrow> session_inv s'"
proof -
  assume "moves cfg s s'" "session_inv s"
  then have "(session_step cfg)\<^sup>*\<^sup>* s s'" "session_inv s" by (simp_all add: moves_def)
  then show "session_inv s'" by (induction rule: rtranclp_induct) (auto intro: session_inv_step)
qed

lemma moves_reachable: "moves cfg s s' \<Longrightarrow> reachable_from fresh_session (session_step cfg) s \<Longrightarrow> reachable_from fresh_session (session_step cfg) s'"
proof -
  assume "moves cfg s s'" "reachable_from fresh_session (session_step cfg) s"
  then have "(session_step cfg)\<^sup>*\<^sup>* s s'" "reachable_from fresh_session (session_step cfg) s" by (simp_all add: moves_def)
  then show ?thesis by (induction rule: rtranclp_induct) (auto intro: reachable_from.step)
qed

lemma moves_ended:
  assumes "moves cfg s s'" "i < length (se_turns s)" "tu_finished (turn_of s i)"
  shows "tu_finished (turn_of s' i) \<and> turn_Wait s' i = turn_Wait s i \<and> suffix (tu_events (turn_of s' i)) (tu_events (turn_of s i))"
proof -
  from assms(1) have "(session_step cfg)\<^sup>*\<^sup>* s s'" by (simp add: moves_def)
  then have "i < length (se_turns s') \<and> tu_finished (turn_of s' i) \<and> turn_Wait s' i = turn_Wait s i \<and> suffix (tu_events (turn_of s' i)) (tu_events (turn_of s i))"
  proof (induction rule: rtranclp_induct)
    case (step t u)
    then show ?case using step_ended [OF step(2), of i]
      by (auto simp: ended_as_def turn_Wait_def message_start_def dest: suffix_order.trans)
  qed (use assms in simp)
  then show ?thesis by blast
qed

section \<open>Ending with room for the last events\<close>

definition stamped :: "turn \<Rightarrow> event \<Rightarrow> event" where
  "stamped t e = e\<lparr>ev_TurnID := tu_id t\<rparr>"

lemma emit_room:
  assumes "\<not> tu_finished (turn_of s i)" "length (tu_events (turn_of s i)) < tu_buffer (turn_of s i)"
  shows "session_emit s i e = set_turn i (turn_of s i\<lparr>tu_events := tu_events (turn_of s i) @ [stamped (turn_of s i) e]\<rparr>) s"
  using assms by (simp add: session_emit_def emit_turn_def stamped_def)

definition terminal_events :: "turn \<Rightarrow> string \<Rightarrow> event list" where
  "terminal_events t status =
     (if Known (s_Usage (tu_Usage t)) then [stamped t ((event_of ''usage'')\<lparr>ev_Usage := Some (tu_Usage t\<lparr>s_Final := True\<rparr>)\<rparr>)] else [])
     @ [stamped t ((event_of ''status'')\<lparr>ev_Status := status\<rparr>)]"

lemma terminal_finished: "i < length (se_turns s) \<Longrightarrow> tu_finished (turn_of (publish_terminal s i status err) i)"
proof -
  assume i: "i < length (se_turns s)"
  define s1 where "s1 = (if Known (s_Usage (tu_Usage (turn_of s i)))
    then session_emit s i ((event_of ''usage'')\<lparr>ev_Usage := Some (tu_Usage (turn_of s i)\<lparr>s_Final := True\<rparr>)\<rparr>) else s)"
  have "i < length (se_turns s1)" using i moves_length [OF moves_emit [OF i]] by (simp add: s1_def)
  then have "i < length (se_turns (session_emit s1 i ((event_of ''status'')\<lparr>ev_Status := status\<rparr>)))" using moves_length [OF moves_emit] by blast
  then show ?thesis by (simp add: publish_terminal_def Let_def s1_def [symmetric] turn_finish_alt)
qed

lemma terminal_exact:
  assumes "i < length (se_turns s)" "\<not> tu_finished (turn_of s i)" "length (tu_events (turn_of s i)) + 2 \<le> tu_buffer (turn_of s i)"
  shows "turn_of (publish_terminal s i status err) i =
    finish_turn status err (turn_of s i\<lparr>tu_events := tu_events (turn_of s i) @ terminal_events (turn_of s i) status\<rparr>)"
  using assms by (auto simp: publish_terminal_def Let_def emit_room turn_finish_alt terminal_events_def stamped_def)

lemma fail_active:
  assumes "i < length (se_turns s)" "se_active s = Some i" "\<not> se_closed s" "\<not> tu_finished (turn_of s i)"
  shows "turn_Wait (failTurn s None err) i = (''failed'', Some err) \<and> tu_finished (turn_of (failTurn s None err) i) \<and> se_closed (failTurn s None err)"
  using assms by (simp add: failTurn_def failTurn_mark_def Let_def turn_finish_alt turn_Wait_def finish_turn_def turn_of_def)

section \<open>What an event carries of a tool\<close>

lemma payload_fields:
  assumes "\<not> Absent raw"
  shows "ev_Input (withToolPayload s e raw result) = fst (boundToolInput (scrub raw (channelSecret s)) MaxToolPayloadBytes)"
    "ev_InputTruncated (withToolPayload s e raw result) = snd (boundToolInput (scrub raw (channelSecret s)) MaxToolPayloadBytes)"
  using assms by (auto simp: withToolPayload_def payload_input_def payload_output_def split: prod.splits)

lemma payload_output_fields:
  assumes "ev_Output e = []" "\<not> ev_OutputTruncated e"
  shows "ev_Output (withToolPayload s e raw result) = Cut (scrub result (channelSecret s)) MaxToolPayloadBytes \<and>
    (ev_OutputTruncated (withToolPayload s e raw result) \<longleftrightarrow> MaxToolPayloadBytes < int (length (scrub result (channelSecret s))))"
proof (cases "result = []")
  case True
  then have "scrub result (channelSecret s) = []" by (auto simp: scrub_def Contains_iff)
  then show ?thesis using assms True
    by (auto simp: withToolPayload_def payload_output_def payload_input_def Cut_def MaxToolPayloadBytes_def split: prod.split)
next
  case False
  then show ?thesis
    by (auto simp: withToolPayload_def payload_output_def boundToolOutput_def Cut_def MaxToolPayloadBytes_def split: prod.split)
qed

lemma clean_prefix: "hex_secret secret \<Longrightarrow> prefix x (scrub y secret) \<Longrightarrow> \<not> sublist secret x"
  using scrub_removes [of secret y] by (meson prefix_imp_sublist sublist_order.order_trans)

lemma payload_input_sound:
  assumes "\<not> Absent raw"
  shows "bound_input_run (scrub raw (channelSecret s)) MaxToolPayloadBytes
        = Some (ev_Input (withToolPayload s e raw result), ev_InputTruncated (withToolPayload s e raw result))"
    "json_Valid (ev_Input (withToolPayload s e raw result))" "length (ev_Input (withToolPayload s e raw result)) \<le> 65536"
    "ev_Input (withToolPayload s e raw result) = scrub raw (channelSecret s)
         \<and> \<not> ev_InputTruncated (withToolPayload s e raw result)
         \<and> (hex_secret (channelSecret s) \<longrightarrow> \<not> sublist (channelSecret s) (ev_Input (withToolPayload s e raw result)))
     \<or> (\<exists>h. prefix h (scrub raw (channelSecret s)) \<and> ev_Input (withToolPayload s e raw result) = json_string h
           \<and> (hex_secret (channelSecret s) \<longrightarrow> \<not> sublist (channelSecret s) h)
           \<and> (ev_InputTruncated (withToolPayload s e raw result) \<longleftrightarrow> h \<noteq> scrub raw (channelSecret s)))"
proof -
  let ?in = "scrub raw (channelSecret s)"
  have two: "2 \<le> MaxToolPayloadBytes" by (simp add: MaxToolPayloadBytes_def)
  note f = payload_fields [OF assms(1), of s e result]
  show "json_Valid (ev_Input (withToolPayload s e raw result))" "length (ev_Input (withToolPayload s e raw result)) \<le> 65536"
    using boundToolInput_fits [OF two, of ?in] f by (auto simp: MaxToolPayloadBytes_def)
  show "bound_input_run ?in MaxToolPayloadBytes
        = Some (ev_Input (withToolPayload s e raw result), ev_InputTruncated (withToolPayload s e raw result))"
    by (rule bound_input_cases [OF two, of ?in]) (simp_all add: f)
  show "ev_Input (withToolPayload s e raw result) = scrub raw (channelSecret s)
         \<and> \<not> ev_InputTruncated (withToolPayload s e raw result)
         \<and> (hex_secret (channelSecret s) \<longrightarrow> \<not> sublist (channelSecret s) (ev_Input (withToolPayload s e raw result)))
     \<or> (\<exists>h. prefix h (scrub raw (channelSecret s)) \<and> ev_Input (withToolPayload s e raw result) = json_string h
           \<and> (hex_secret (channelSecret s) \<longrightarrow> \<not> sublist (channelSecret s) h)
           \<and> (ev_InputTruncated (withToolPayload s e raw result) \<longleftrightarrow> h \<noteq> scrub raw (channelSecret s)))"
    (is "?kept \<or> ?encoded")
  proof (cases rule: bound_input_cases [OF two, of ?in])
    case 1
    then have ?kept using f clean_prefix [of "channelSecret s" ?in raw] by simp
    then show ?thesis ..
  next
    case (2 h)
    then have ?encoded using f clean_prefix [of "channelSecret s" h raw] by (intro exI [of _ h]) simp
    then show ?thesis ..
  qed
qed

lemma payload_output_sound:
  assumes "ev_Output e = []" "\<not> ev_OutputTruncated e"
  shows "prefix (ev_Output (withToolPayload s e raw result)) (scrub result (channelSecret s))"
    "length (ev_Output (withToolPayload s e raw result)) \<le> 65536"
    "hex_secret (channelSecret s) \<longrightarrow> \<not> sublist (channelSecret s) (ev_Output (withToolPayload s e raw result))"
    "ev_OutputTruncated (withToolPayload s e raw result) \<longleftrightarrow> ev_Output (withToolPayload s e raw result) \<noteq> scrub result (channelSecret s)"
proof -
  let ?out = "scrub result (channelSecret s)"
  have p: "prefix (Cut ?out MaxToolPayloadBytes) ?out" by (rule Cut_is_prefix)
  have l: "length (Cut ?out MaxToolPayloadBytes) \<le> 65536" using Cut_length [of ?out MaxToolPayloadBytes] by (simp add: MaxToolPayloadBytes_def)
  note f = payload_output_fields [OF assms(1,2), of s raw result]
  show "prefix (ev_Output (withToolPayload s e raw result)) ?out" "length (ev_Output (withToolPayload s e raw result)) \<le> 65536"
    "hex_secret (channelSecret s) \<longrightarrow> \<not> sublist (channelSecret s) (ev_Output (withToolPayload s e raw result))"
    using f p l clean_prefix [OF _ p] by simp_all
  show "ev_OutputTruncated (withToolPayload s e raw result) \<longleftrightarrow> ev_Output (withToolPayload s e raw result) \<noteq> ?out"
  proof (cases "int (length ?out) \<le> MaxToolPayloadBytes")
    case True
    then show ?thesis using f by (simp add: Cut_def MaxToolPayloadBytes_def)
  next
    case False
    then have "Cut ?out MaxToolPayloadBytes \<noteq> ?out" using l by (auto simp: MaxToolPayloadBytes_def)
    then show ?thesis using f False by simp
  qed
qed


definition hosted_session :: session where
  "hosted_session = new_session Claude 4 100 (Some ((newDirectToolHost demo_config [])\<lparr>h_secret := replicate 64 CHR ''a''\<rparr>))"


end
