(* ===== verification/Api_Loop.thy ===== *)
theory Api_Loop
  imports Stream_Events Transcript
begin

text \<open>
  The turn loop the library runs itself for an OpenAI-compatible session (session/api_loop.go,
  session/api_session.go): ask the model, record its response, record and run each call it made, and again, until it
  answers without calls, the step bound is reached, a request fails or the turn is stopped. Everything is recorded in
  the transcript before it takes effect.

  What the loop does not decide is its environment, an argument consulted at numbered moments: how each write of the
  transcript goes, what the endpoint answers, what the host makes of a call, when the turn is stopped, and what other
  goroutines do to the session meanwhile.
\<close>

section \<open>Environment and state\<close>

datatype completion_error = RequestFailed request_error | OtherFailure

record completion_result =
  cr_Content :: string
  cr_ToolCalls :: "tool_call list"
  cr_Replay :: string
  cr_Usage :: usage
  cr_err :: "completion_error option"

text \<open>
  \<open>ex_refusal\<close> is what \<open>prepareCall\<close> refuses with, if it does; \<open>ex_outcome\<close> what \<open>execute\<close> settles on; \<open>ex_stopped\<close> says
  that the turn was stopped before that, and \<open>ex_picked\<close> which branch \<open>select\<close> takes when both are ready.
\<close>

record call_environment =
  ex_refusal :: "tool_outcome option"
  ex_outcome :: tool_outcome
  ex_stopped :: bool
  ex_picked :: bool

record environment =
  en_write :: "nat \<Rightarrow> write_outcome"
  en_complete :: "nat \<Rightarrow> message list \<Rightarrow> completion_result"
  en_stopped :: "nat \<Rightarrow> bool"
  en_call :: "nat \<Rightarrow> tool_call \<Rightarrow> call_environment"
  en_settles :: "nat \<Rightarrow> bool"
  en_closed :: "nat \<Rightarrow> bool"
  en_stuck :: "nat \<Rightarrow> bool"
  en_world :: "nat \<Rightarrow> session \<Rightarrow> session"

text \<open>The options and constants of one session.\<close>

record loop_config =
  ac_enc :: "trecord \<Rightarrow> string"
  ac_system :: string
  ac_resultLimit :: int
  ac_MaxSteps :: int
  ac_workspace :: bool

text \<open>
  \<open>a_late\<close> is the result of a call still running when its turn stopped, recorded when it returns. \<open>a_tick\<close> numbers
  the moments; \<open>a_requests\<close> counts what was sent to the endpoint and \<open>a_handed\<close> lists the calls given to the host.
\<close>

record api_state =
  a_store :: transcript
  a_records :: "trecord list"
  a_responses :: int
  a_stopping :: bool
  a_cancelled :: bool
  a_late :: "trecord option"
  a_session :: session
  a_tick :: nat
  a_requests :: nat
  a_handed :: "string list"

definition moment :: "environment \<Rightarrow> api_state \<Rightarrow> api_state" where
  "moment env a = a\<lparr>a_session := en_world env (a_tick a) (a_session a),
     a_cancelled := (a_cancelled a \<or> en_stopped env (a_tick a)), a_tick := Suc (a_tick a)\<rparr>"

section \<open>The session's side\<close>

text \<open>\<open>a.failed\<close> is the session's \<open>fail\<close>, which shuts this side down and so cancels the turn.\<close>

definition api_write :: "loop_config \<Rightarrow> environment \<Rightarrow> api_state \<Rightarrow> trecord \<Rightarrow> api_state \<times> bool" where
  "api_write c env a r =
     (case append_record (ac_enc c) (a_store a) r (en_write env (a_tick a)) of
        (store, None) \<Rightarrow> (a\<lparr>a_store := store, a_records := a_records a @ [r]\<rparr>, True)
      | (store, Some err) \<Rightarrow>
          (a\<lparr>a_store := store, a_session := failTurn (a_session a) None err, a_stopping := True, a_cancelled := True\<rparr>, False))"

text \<open>The result of a call left running is written by its own goroutine, whenever it returns.\<close>

definition settle_late :: "loop_config \<Rightarrow> environment \<Rightarrow> api_state \<Rightarrow> api_state" where
  "settle_late c env a = (case a_late a of None \<Rightarrow> a | Some q \<Rightarrow> fst (api_write c env (moment env (a\<lparr>a_late := None\<rparr>)) q))"

definition api_append :: "loop_config \<Rightarrow> environment \<Rightarrow> api_state \<Rightarrow> trecord \<Rightarrow> api_state \<times> bool" where
  "api_append c env a r =
     (let a1 = moment env a;
          a2 = (if en_settles env (a_tick a) then settle_late c env a1 else a1)
      in api_write c env a2 r)"

definition api_messages :: "loop_config \<Rightarrow> api_state \<Rightarrow> message list" where
  "api_messages c a = conversation (a_records a) (ac_system c) (ac_resultLimit c)"

definition api_begin :: "api_state \<Rightarrow> session_error + api_state" where
  "api_begin a = (if a_stopping a then Inl ErrClosed else Inr (a\<lparr>a_cancelled := False\<rparr>))"

definition api_interrupt :: "api_state \<Rightarrow> api_state" where
  "api_interrupt a = a\<lparr>a_cancelled := True\<rparr>"

definition api_shutdown :: "api_state \<Rightarrow> api_state" where
  "api_shutdown a = (if a_stopping a then a else a\<lparr>a_stopping := True, a_cancelled := True\<rparr>)"

definition startAPITurn :: "loop_config \<Rightarrow> environment \<Rightarrow> api_state \<Rightarrow> string \<Rightarrow> string \<Rightarrow> api_state \<times> bool" where
  "startAPITurn c env a turn input =
     (case api_begin a of
        Inl _ \<Rightarrow> (a, False)
      | Inr a1 \<Rightarrow>
         (case api_append c env a1 (blank recordTurnStart turn) of
            (a2, False) \<Rightarrow> (a2\<lparr>a_cancelled := True\<rparr>, False)
          | (a2, True) \<Rightarrow>
             (case api_append c env a2 ((blank recordUser turn)\<lparr>r_Text := input\<rparr>) of
                (a3, False) \<Rightarrow> (a3\<lparr>a_cancelled := True\<rparr>, False)
              | (a3, True) \<Rightarrow> (a3, True))))"

section \<open>Accounting\<close>

record turnAccount =
  acc_total :: session_usage
  acc_known :: bool

definition account_add :: "turnAccount \<Rightarrow> usage \<Rightarrow> turnAccount" where
  "account_add u next =
     (if \<not> Known next then u\<lparr>acc_known := False\<rparr>
      else let total = Usage_add (acc_total u) \<lparr>s_Usage = next, s_Final = False\<rparr>
           in if \<not> Known (s_Usage total) then u\<lparr>acc_total := total, acc_known := False\<rparr> else u\<lparr>acc_total := total\<rparr>)"

definition mayHaveBilled :: "completion_error option \<Rightarrow> bool" where
  "mayHaveBilled err = (case err of Some (RequestFailed e) \<Rightarrow> re_Phase e \<noteq> ''preflight'' | _ \<Rightarrow> True)"

definition apiTurnFailure :: "completion_error \<Rightarrow> turn_error" where
  "apiTurnFailure err =
     (let failure = \<lparr>te_Engine = OpenAICompatible, te_Code = ''request_failed'', te_Cause = CauseUnknown, te_Phase = [],
            te_RetryAfter = 0, te_ResetsAt = None\<rparr>
      in case err of
           OtherFailure \<Rightarrow> failure
         | RequestFailed e \<Rightarrow>
             (if re_Code e \<noteq> [] then failure\<lparr>te_Code := re_Code e\<rparr> else failure)
               \<lparr>te_Cause := re_Cause e, te_Phase := re_Phase e, te_RetryAfter := re_RetryAfter e, te_ResetsAt := re_ResetsAt e\<rparr>)"

definition stepLimit :: turn_error where
  "stepLimit = \<lparr>te_Engine = OpenAICompatible, te_Code = ''max_steps'', te_Cause = NoCause, te_Phase = [], te_RetryAfter = 0, te_ResetsAt = None\<rparr>"

definition on_session :: "(session \<Rightarrow> session) \<Rightarrow> api_state \<Rightarrow> api_state" where
  "on_session f a = a\<lparr>a_session := f (a_session a)\<rparr>"

definition api_ended :: "api_state \<Rightarrow> nat \<Rightarrow> bool" where
  "api_ended a i = tu_finished (turn_of (a_session a) i)"

text \<open>\<open>observeAPIUsage\<close>: the turn's observed usage and its event, then the context estimate's event.\<close>

definition observeAPIUsage :: "nat \<Rightarrow> usage \<Rightarrow> session \<Rightarrow> session" where
  "observeAPIUsage i u s =
     (if \<not> Known u then s
      else let t = observe_usage \<lparr>s_Usage = u, s_Final = False\<rparr> (turn_of s i);
               s1 = session_emit (set_turn i t s) i ((event_of ''usage'')\<lparr>ev_Usage := Some ((tu_Observed t)\<lparr>s_Final := False\<rparr>)\<rparr>)
           in session_emit s1 i (event_of ''context''))"

section \<open>Ending a turn\<close>

definition end_status :: "environment \<Rightarrow> api_state \<Rightarrow> nat \<Rightarrow> string \<Rightarrow> turn_error option \<Rightarrow> string \<times> string" where
  "end_status env a i status err =
     (let code = (case err of None \<Rightarrow> [] | Some e \<Rightarrow> te_Code e) in
      if en_stuck env (a_tick a) \<or> se_failure (a_session a) = Some WorkspaceStuck then (''failed'', ''workspace_io_stuck'')
      else if api_ended a i then (''interrupted'', ''session_closed'')
      else if status = ''interrupted'' \<and> \<not> tu_interruptRequested (turn_of (a_session a) i) then (status, ''session_closed'')
      else (status, code))"

definition publish_usage :: "nat \<Rightarrow> turnAccount \<Rightarrow> session \<Rightarrow> session" where
  "publish_usage i account s =
     (if acc_known account
      then let usage = (acc_total account)\<lparr>s_Usage := (s_Usage (acc_total account))\<lparr>Known := True\<rparr>, s_Final := True\<rparr>
           in session_emit (set_turn i (turn_of s i\<lparr>tu_Usage := usage\<rparr>) s) i ((event_of ''usage'')\<lparr>ev_Usage := Some usage\<rparr>)
      else s)"

definition publish_native :: "nat \<Rightarrow> turn_error option \<Rightarrow> session \<Rightarrow> session" where
  "publish_native i err s =
     (case err of None \<Rightarrow> s
      | Some e \<Rightarrow> if te_Code e \<noteq> ''max_steps'' then set_turn i (turn_of s i\<lparr>tu_NativeError := True\<rparr>) s else s)"

definition publish_end :: "nat \<Rightarrow> string \<Rightarrow> turn_error option \<Rightarrow> turnAccount \<Rightarrow> session \<Rightarrow> session" where
  "publish_end i status err account s =
     turn_finish (session_emit (publish_native i err (publish_usage i account s)) i ((event_of ''status'')\<lparr>ev_Status := status\<rparr>))
       i status (map_option TurnFailure err)"

definition endAPITurn ::
  "loop_config \<Rightarrow> environment \<Rightarrow> nat \<Rightarrow> string \<Rightarrow> string \<Rightarrow> turn_error option \<Rightarrow> turnAccount \<Rightarrow> api_state \<Rightarrow> api_state" where
  "endAPITurn c env i turn status0 err account a =
     (case end_status env a i status0 err of (status, code) \<Rightarrow>
       (case api_append c env a ((blank recordTurnEnd turn)\<lparr>r_Status := status, r_Code := code\<rparr>) of
          (a1, ok) \<Rightarrow> if \<not> ok \<or> api_ended a1 i then a1 else on_session (publish_end i status err account) a1))"

section \<open>Calls\<close>

definition outcome_of :: "tool_outcome \<Rightarrow> string" where
  "outcome_of out = (if o_unknown out then outcomeUnknown else if \<not> o_ran out then outcomeRefused else outcomeRan)"

definition result_record :: "string \<Rightarrow> int \<Rightarrow> tool_call \<Rightarrow> tool_outcome \<Rightarrow> trecord" where
  "result_record turn response call out =
     (blank recordToolResult turn)\<lparr>r_Response := response, r_Call := tc_ID call, r_Tool := tc_Name call, r_Text := o_text out,
        r_IsError := o_isError out, r_Outcome := outcome_of out\<rparr>"

definition started_event :: "nat \<Rightarrow> tool_call \<Rightarrow> session \<Rightarrow> session" where
  "started_event i call s =
     session_emit s i (withToolPayload s ((event_of ''tool_started'')\<lparr>ev_ItemID := tc_ID call, ev_Tool := tc_Name call, ev_Status := ''running''\<rparr>)
       (tc_Arguments call) [])"

definition completed_events :: "nat \<Rightarrow> tool_call \<Rightarrow> tool_outcome \<Rightarrow> session \<Rightarrow> session" where
  "completed_events i call out s =
     (let status = (if \<not> o_ran out then ''refused'' else if o_isError out then ''failed'' else ''completed'');
          s1 = (if \<not> o_ran out then session_emit s i ((event_of ''tool_refused'')\<lparr>ev_Tool := tc_Name call, ev_Status := o_reason out\<rparr>) else s)
      in session_emit s1 i (withToolPayload s1 ((event_of ''tool_completed'')\<lparr>ev_ItemID := tc_ID call, ev_Tool := tc_Name call, ev_Status := status\<rparr>) [] (o_text out)))"

text \<open>The workbench's own tools, whose handlers bound how long they take to stop.\<close>

definition isWorkbenchTool :: "string \<Rightarrow> bool" where
  "isWorkbenchTool name = (name \<in> set [''read_file'', ''list_files'', ''search_files'', ''write_file'', ''edit_file'', ''run_command''])"

text \<open>
  After the call was recorded: the host admits or refuses it, its result is recorded as it settles, and \<open>select\<close>
  waits for that or for the turn to be stopped.
\<close>

definition call_settled ::
  "loop_config \<Rightarrow> environment \<Rightarrow> nat \<Rightarrow> string \<Rightarrow> int \<Rightarrow> tool_call \<Rightarrow> tool_outcome \<Rightarrow> bool \<Rightarrow> bool \<Rightarrow> api_state \<Rightarrow> api_state \<times> bool" where
  "call_settled c env i turn response call out left picked a =
     (let a1 = fst (api_append c env a (result_record turn response call out))
      in if left \<or> a_cancelled a1 \<and> picked then (a1, False)
         else (on_session (completed_events i call out) a1, True))"

definition hand_over :: "loop_config \<Rightarrow> environment \<Rightarrow> nat \<Rightarrow> string \<Rightarrow> int \<Rightarrow> tool_call \<Rightarrow> api_state \<Rightarrow> api_state \<times> bool" where
  "hand_over c env i turn response call a0 =
     (let a = a0\<lparr>a_handed := a_handed a0 @ [call_key response (tc_ID call)]\<rparr>;
          ex = en_call env (a_tick a) call
      in case ex_refusal ex of
           Some refusal \<Rightarrow> call_settled c env i turn response call refusal False (ex_picked ex) a
         | None \<Rightarrow>
             if \<not> ex_stopped ex then call_settled c env i turn response call (ex_outcome ex) False (ex_picked ex) a
             else if ac_workspace c \<and> isWorkbenchTool (tc_Name call) then
               call_settled c env i turn response call (ex_outcome ex) True (ex_picked ex) (a\<lparr>a_cancelled := True\<rparr>)
             else (a\<lparr>a_cancelled := True, a_late := Some (result_record turn response call (ex_outcome ex))\<rparr>, False))"

definition runAPICall :: "loop_config \<Rightarrow> environment \<Rightarrow> nat \<Rightarrow> string \<Rightarrow> int \<Rightarrow> tool_call \<Rightarrow> api_state \<Rightarrow> api_state \<times> bool" where
  "runAPICall c env i turn response call a =
     (case api_append c env a ((blank recordToolCall turn)\<lparr>r_Response := response, r_Call := tc_ID call, r_Tool := tc_Name call\<rparr>) of
        (a1, False) \<Rightarrow> (a1, False)
      | (a1, True) \<Rightarrow>
          hand_over c env i turn response call
            (on_session (started_event i call) a1))"

fun skip_each :: "loop_config \<Rightarrow> environment \<Rightarrow> string \<Rightarrow> int \<Rightarrow> string set \<Rightarrow> tool_call list \<Rightarrow> api_state \<Rightarrow> api_state" where
  "skip_each c env turn response started [] a = a"
| "skip_each c env turn response started (call # calls) a =
     (if call_key response (tc_ID call) \<in> started then skip_each c env turn response started calls a
      else case api_append c env a ((blank recordToolResult turn)\<lparr>r_Response := response, r_Call := tc_ID call, r_Tool := tc_Name call,
               r_Text := bound notRunText (ac_resultLimit c), r_IsError := True, r_Outcome := outcomeNotRun\<rparr>) of
             (a1, True) \<Rightarrow> skip_each c env turn response started calls a1
           | (a1, False) \<Rightarrow> a1)"

definition skipCalls :: "loop_config \<Rightarrow> environment \<Rightarrow> string \<Rightarrow> int \<Rightarrow> tool_call list \<Rightarrow> api_state \<Rightarrow> api_state" where
  "skipCalls c env turn response calls a = skip_each c env turn response (snd (callStates (a_records a))) calls a"

text \<open>The loop over a response's calls: \<open>False\<close> when the turn was stopped, the rest then answered as not run.\<close>

fun run_calls :: "loop_config \<Rightarrow> environment \<Rightarrow> nat \<Rightarrow> string \<Rightarrow> int \<Rightarrow> tool_call list \<Rightarrow> api_state \<Rightarrow> api_state \<times> bool" where
  "run_calls c env i turn response [] a = (a, True)"
| "run_calls c env i turn response (call # calls) a =
     (if a_cancelled a then (skipCalls c env turn response (call # calls) a, False)
      else case runAPICall c env i turn response call a of
             (a1, True) \<Rightarrow> run_calls c env i turn response calls a1
           | (a1, False) \<Rightarrow> (skipCalls c env turn response (call # calls) a1, False))"

section \<open>The loop\<close>

datatype round = Over api_state | Again turnAccount api_state

fun round_state :: "round \<Rightarrow> api_state" where
  "round_state (Over a) = a"
| "round_state (Again account a) = a"

text \<open>What follows a response: its record, its text, its calls.\<close>

definition say :: "nat \<Rightarrow> int \<Rightarrow> string \<Rightarrow> api_state \<Rightarrow> api_state" where
  "say i response content a =
     (if content \<noteq> [] then on_session (\<lambda>s. session_text s i (''response-'' @ Itoa_int response) content True) a else a)"

definition api_calls ::
  "loop_config \<Rightarrow> environment \<Rightarrow> nat \<Rightarrow> string \<Rightarrow> int \<Rightarrow> tool_call list \<Rightarrow> turnAccount \<Rightarrow> api_state \<Rightarrow> round" where
  "api_calls c env i turn response calls account a =
     (if api_ended a i then Over (endAPITurn c env i turn ''interrupted'' None account a)
      else if calls = [] then Over (endAPITurn c env i turn ''completed'' None account a)
      else (case run_calls c env i turn response calls a of
          (a1, False) \<Rightarrow> Over (endAPITurn c env i turn ''interrupted'' None account a1)
        | (a1, True) \<Rightarrow>
            if en_closed env (a_tick a1) then Over (endAPITurn c env i turn ''completed'' None account a1)
            else Again account a1))"

definition response_record :: "string \<Rightarrow> int \<Rightarrow> completion_result \<Rightarrow> trecord" where
  "response_record turn response result = (blank recordAssistant turn)\<lparr>r_Response := response, r_Text := cr_Content result,
     r_Calls := cr_ToolCalls result, r_Replay := cr_Replay result\<rparr>"

definition api_respond ::
  "loop_config \<Rightarrow> environment \<Rightarrow> nat \<Rightarrow> string \<Rightarrow> completion_result \<Rightarrow> turnAccount \<Rightarrow> api_state \<Rightarrow> round" where
  "api_respond c env i turn result account a =
     (let response = a_responses a + 1 in
      case api_append c env (a\<lparr>a_responses := response\<rparr>) (response_record turn response result) of
        (a1, False) \<Rightarrow> Over a1
      | (a1, True) \<Rightarrow> api_calls c env i turn response (cr_ToolCalls result) account (say i response (cr_Content result) a1))"

text \<open>What follows a request: its accounting, then its failure or its response.\<close>

definition api_answered ::
  "loop_config \<Rightarrow> environment \<Rightarrow> nat \<Rightarrow> string \<Rightarrow> completion_result \<Rightarrow> turnAccount \<Rightarrow> api_state \<Rightarrow> round" where
  "api_answered c env i turn result account a =
     (case cr_err result of
        Some err \<Rightarrow>
          Over (if a_cancelled a then endAPITurn c env i turn ''interrupted'' None account a
                else endAPITurn c env i turn ''failed'' (Some (apiTurnFailure err)) account a)
      | None \<Rightarrow> api_respond c env i turn result account a)"

definition api_account ::
  "loop_config \<Rightarrow> environment \<Rightarrow> nat \<Rightarrow> string \<Rightarrow> completion_result \<Rightarrow> turnAccount \<Rightarrow> api_state \<Rightarrow> round" where
  "api_account c env i turn result account a =
     (if mayHaveBilled (cr_err result) then
        (case api_append c env a ((blank recordUsage turn)\<lparr>r_Usage := Some (cr_Usage result)\<rparr>) of
           (a1, False) \<Rightarrow> Over a1
         | (a1, True) \<Rightarrow>
             api_answered c env i turn result (account_add account (cr_Usage result)) (on_session (observeAPIUsage i (cr_Usage result)) a1))
      else api_answered c env i turn result account a)"

definition api_round :: "loop_config \<Rightarrow> environment \<Rightarrow> nat \<Rightarrow> string \<Rightarrow> turnAccount \<Rightarrow> api_state \<Rightarrow> round" where
  "api_round c env i turn account a =
     api_account c env i turn (en_complete env (a_tick a) (api_messages c a)) account
       (moment env (a\<lparr>a_requests := Suc (a_requests a)\<rparr>))"

function api_loop :: "loop_config \<Rightarrow> environment \<Rightarrow> nat \<Rightarrow> string \<Rightarrow> int \<Rightarrow> turnAccount \<Rightarrow> api_state \<Rightarrow> api_state" where
  "api_loop c env i turn step account a =
     (if step > ac_MaxSteps c then endAPITurn c env i turn ''failed'' (Some stepLimit) account a
      else case api_round c env i turn account a of
             Over a1 \<Rightarrow> a1
           | Again account1 a1 \<Rightarrow> api_loop c env i turn (step + 1) account1 a1)"
  by pat_completeness auto
termination by (relation "measure (\<lambda>(c, env, i, turn, step, account, a). nat (ac_MaxSteps c + 1 - step))") auto

declare api_loop.simps [simp del]

definition runAPITurn :: "loop_config \<Rightarrow> environment \<Rightarrow> nat \<Rightarrow> string \<Rightarrow> api_state \<Rightarrow> api_state" where
  "runAPITurn c env i turn a = api_loop c env i turn 1 \<lparr>acc_total = no_session_usage, acc_known = True\<rparr> a"

section \<open>What each operation leaves alone\<close>

lemma moment_fields [simp]:
  "a_requests (moment env a) = a_requests a" "a_handed (moment env a) = a_handed a" "a_records (moment env a) = a_records a"
  "a_late (moment env a) = a_late a" "a_store (moment env a) = a_store a" "a_session (moment env a) = en_world env (a_tick a) (a_session a)"
  "a_responses (moment env a) = a_responses a"
  by (simp_all add: moment_def)

lemma on_session_fields [simp]:
  "a_requests (on_session f a) = a_requests a" "a_handed (on_session f a) = a_handed a" "a_records (on_session f a) = a_records a"
  "a_late (on_session f a) = a_late a" "a_store (on_session f a) = a_store a" "a_session (on_session f a) = f (a_session a)"
  "a_tick (on_session f a) = a_tick a" "a_responses (on_session f a) = a_responses a"
  by (simp_all add: on_session_def)

lemma handed_session: "(on_session f a)\<lparr>a_handed := hs\<rparr> = on_session f (a\<lparr>a_handed := hs\<rparr>)"
  by (cases a) (simp add: on_session_def)

lemma write_fields [simp]:
  "a_requests (fst (api_write c env a r)) = a_requests a" "a_handed (fst (api_write c env a r)) = a_handed a"
  "a_late (fst (api_write c env a r)) = a_late a"
  by (simp_all add: api_write_def split: prod.split option.split)

lemma settle_fields [simp]:
  "a_requests (settle_late c env a) = a_requests a" "a_handed (settle_late c env a) = a_handed a"
  by (simp_all add: settle_late_def split: option.split)

lemma append_fields [simp]:
  "a_requests (fst (api_append c env a r)) = a_requests a" "a_handed (fst (api_append c env a r)) = a_handed a"
  by (simp_all add: api_append_def Let_def)

section \<open>Invariants of the loop\<close>

text \<open>
  A turn of a session in order. By the session's invariant such a turn is over, or it is the active one and the session is open,
  or a failure under way still owes it its end; every step of the session keeps it so.
\<close>

definition turn_live :: "nat \<Rightarrow> session \<Rightarrow> bool" where
  "turn_live i s \<longleftrightarrow> session_inv s \<and> i < length (se_turns s)"

definition turn_ending :: "nat \<Rightarrow> session \<Rightarrow> bool" where
  "turn_ending i s \<longleftrightarrow> tu_finished (turn_of s i) \<or> (\<exists>err. EndTurn (Some i) err \<in> set (se_endings s))"

lemma live_length: "turn_live i s \<Longrightarrow> i < length (se_turns s)"
  by (simp add: turn_live_def)

lemma live_moves: "turn_live i s \<Longrightarrow> moves cfg s s' \<Longrightarrow> turn_live i s'"
  using moves_inv moves_length by (auto simp: turn_live_def)

lemma live_step: "turn_live i s \<Longrightarrow> session_step cfg s s' \<Longrightarrow> turn_live i s'"
  using session_inv_step step_ended by (auto simp: turn_live_def)

lemma live_steps: "(session_step cfg)\<^sup>*\<^sup>* s s' \<Longrightarrow> turn_live i s \<Longrightarrow> turn_live i s'"
  by (induction rule: rtranclp_induct) (auto intro: live_step)

lemma live_failTurn:
  assumes "turn_live i s"
  shows "turn_live i (failTurn s None err) \<and> turn_ending i (failTurn s None err)"
proof -
  have l: "turn_live i (failTurn s None err)" by (rule live_moves [OF assms moves_failTurn])
  have "turn_ending i (failTurn s None err)"
  proof (cases "se_closed s \<or> tu_finished (turn_of s i)")
    case True
    have run: "i \<in> running_turns (failTurn s None err)" if "\<not> tu_finished (turn_of (failTurn s None err) i)"
      using that l by (simp add: running_turns_def turn_live_def)
    have "failTurn s None err = s" if "se_closed s" using that by (simp add: failTurn_def failTurn_mark_def Let_def)
    then have "se_closed (failTurn s None err) \<or> tu_finished (turn_of (failTurn s None err) i)"
      using True moves_ended [OF moves_failTurn live_length [OF assms], of None err] by fastforce
    then show ?thesis using l run by (auto simp: turn_ending_def turn_live_def session_inv_def closing_inv_def)
  next
    case False
    then have "i \<in> running_turns s" using assms by (simp add: running_turns_def turn_live_def)
    then have "se_active s = Some i" using assms by (auto simp: turn_live_def session_inv_def turns_inv_def)
    then show ?thesis using False fail_active live_length [OF assms] by (auto simp: turn_ending_def)
  qed
  then show ?thesis using l by simp
qed

lemma live_emit: "turn_live i s \<Longrightarrow> turn_live i (session_emit s i e)"
  by (rule live_moves [OF _ moves_emit]) (simp_all add: live_length)

lemma live_text: "turn_live i s \<Longrightarrow> turn_live i (session_text s i item new r)"
  by (rule live_moves [OF _ moves_text]) (simp_all add: live_length)

lemma live_accounted: "turn_live i s \<Longrightarrow> turn_live i (set_turn i (turn_of s i\<lparr>tu_Usage := u, tu_NativeError := n\<rparr>) s)"
  by (rule live_moves [OF _ moves_set(6)]) (simp_all add: live_length)

lemma live_usage: "turn_live i s \<Longrightarrow> turn_live i (set_turn i (turn_of s i\<lparr>tu_Usage := u\<rparr>) s)"
  using live_accounted [of i s "tu_NativeError (turn_of s i)" u] by simp

lemma live_native: "turn_live i s \<Longrightarrow> turn_live i (set_turn i (turn_of s i\<lparr>tu_NativeError := n\<rparr>) s)"
  using live_accounted [of i s n "tu_Usage (turn_of s i)"] by simp

lemma live_observe: "turn_live i s \<Longrightarrow> turn_live i (observeAPIUsage i u s)"
  using live_moves [OF _ moves_set(4)] by (auto simp: observeAPIUsage_def Let_def live_length intro!: live_emit)

lemma live_started: "turn_live i s \<Longrightarrow> turn_live i (started_event i call s)"
  by (auto simp: started_event_def intro!: live_emit)

lemma live_completed: "turn_live i s \<Longrightarrow> turn_live i (completed_events i call out s)"
  by (auto simp: completed_events_def Let_def intro!: live_emit)

lemma live_finish: "i < length (se_turns s) \<Longrightarrow> tu_finished (turn_of (turn_finish s i status err) i) \<and> i < length (se_turns (turn_finish s i status err))"
  by (auto simp: turn_finish_alt)

lemma live_over: "turn_live i s \<Longrightarrow> turn_live i (turn_finish s i status err)"
  by (rule live_moves [OF _ moves_finish]) (simp_all add: live_length)

lemma live_published: "turn_live i s \<Longrightarrow> turn_live i (publish_native i err (publish_usage i account s))"
proof -
  assume "turn_live i s"
  then have u: "turn_live i (publish_usage i account s)"
    unfolding publish_usage_def Let_def by (auto intro!: live_emit live_usage)
  then show ?thesis unfolding publish_native_def by (auto split: option.split intro!: live_native)
qed

lemma live_publish:
  assumes "turn_live i s"
  shows "turn_live i (publish_end i status err account s) \<and> tu_finished (turn_of (publish_end i status err account s) i)"
  using live_emit [OF live_published [OF assms]] live_length live_over live_finish unfolding publish_end_def by blast

section \<open>Keeping an invariant through the loop\<close>

text \<open>
  What an invariant of the loop has to survive, and that the whole loop then keeps it. A call's record and its being
  handed over are one obligation: that is the order the loop promises.
\<close>

locale loop_invariant =
  fixes c :: loop_config and env :: environment and i :: nat and P :: "api_state \<Rightarrow> bool"
  assumes keeps_append: "P a \<Longrightarrow> r_Type r \<noteq> recordToolCall \<Longrightarrow> P (fst (api_append c env a r))"
    and keeps_call: "P a \<Longrightarrow> r_Type r = recordToolCall \<Longrightarrow> api_append c env a r = (a1, ok) \<Longrightarrow>
        P (if ok then a1\<lparr>a_handed := a_handed a1 @ [r_key r]\<rparr> else a1)"
    and keeps_session: "P a \<Longrightarrow> (\<And>s. turn_live i s \<Longrightarrow> turn_live i (f s)) \<Longrightarrow> P (on_session f a)"
    and keeps_moment: "P a \<Longrightarrow> P (moment env a)"
    and keeps_cancelled: "P a \<Longrightarrow> P (a\<lparr>a_cancelled := b\<rparr>)"
    and keeps_responses: "P a \<Longrightarrow> P (a\<lparr>a_responses := n\<rparr>)"
    and keeps_late: "P a \<Longrightarrow> r_Type q = recordToolResult \<Longrightarrow> P (a\<lparr>a_late := Some q\<rparr>)"
begin

lemma keeps_appended: "api_append c env a r = (a1, ok) \<Longrightarrow> P a \<Longrightarrow> r_Type r \<noteq> recordToolCall \<Longrightarrow> P a1"
  using keeps_append [of a r] by simp

lemma keeps_end: "P a \<Longrightarrow> P (endAPITurn c env i turn status err account a)"
  unfolding endAPITurn_def
  by (auto simp: blank_def split: prod.split dest!: keeps_appended intro: keeps_session live_publish [THEN conjunct1])

lemma keeps_skip: "P a \<Longrightarrow> P (skip_each c env turn response started calls a)"
proof (induction calls arbitrary: a)
  case (Cons call calls)
  let ?r = "(blank recordToolResult turn)\<lparr>r_Response := response, r_Call := tc_ID call, r_Tool := tc_Name call,
               r_Text := bound notRunText (ac_resultLimit c), r_IsError := True, r_Outcome := outcomeNotRun\<rparr>"
  obtain a1 ok where a1: "api_append c env a ?r = (a1, ok)" by fastforce
  have "r_Type ?r \<noteq> recordToolCall" by (simp add: blank_def)
  then have "P a1" using keeps_appended [OF a1 Cons.prems] by blast
  then show ?case using Cons.IH Cons.prems a1 by (cases ok) auto
qed simp

lemma keeps_settled: "P a \<Longrightarrow> P (fst (call_settled c env i turn response call out left picked a))"
proof -
  assume "P a"
  then have "P (fst (api_append c env a (result_record turn response call out)))"
    by (rule keeps_append) (simp add: result_record_def blank_def)
  then show ?thesis unfolding call_settled_def Let_def using live_completed by (auto intro!: keeps_session)
qed

lemma keeps_hand_over:
  assumes P: "P (a\<lparr>a_handed := a_handed a @ [call_key response (tc_ID call)]\<rparr>)"
  shows "P (fst (hand_over c env i turn response call a))"
proof -
  have q: "r_Type (result_record turn response call out) = recordToolResult" for out by (simp add: result_record_def blank_def)
  show ?thesis unfolding hand_over_def Let_def
    using keeps_settled [OF P] keeps_settled [OF keeps_cancelled [OF P]] keeps_late [OF keeps_cancelled [OF P] q]
    by (simp split: option.split)
qed

lemma keeps_runAPICall: "P a \<Longrightarrow> P (fst (runAPICall c env i turn response call a))"
proof -
  assume P: "P a"
  let ?r = "(blank recordToolCall turn)\<lparr>r_Response := response, r_Call := tc_ID call, r_Tool := tc_Name call\<rparr>"
  let ?f = "started_event i call"
  obtain a1 ok where a1: "api_append c env a ?r = (a1, ok)" by fastforce
  have r: "r_Type ?r = recordToolCall" "r_key ?r = call_key response (tc_ID call)" by (simp_all add: blank_def r_key_def)
  show ?thesis
  proof (cases ok)
    case True
    then have "P (a1\<lparr>a_handed := a_handed a1 @ [call_key response (tc_ID call)]\<rparr>)" using keeps_call [OF P r(1) a1] r(2) by simp
    then have "P (on_session ?f (a1\<lparr>a_handed := a_handed a1 @ [call_key response (tc_ID call)]\<rparr>))"
      by (rule keeps_session) (rule live_started)
    then have "P ((on_session ?f a1)\<lparr>a_handed := a_handed (on_session ?f a1) @ [call_key response (tc_ID call)]\<rparr>)"
      by (simp add: handed_session)
    then show ?thesis using keeps_hand_over a1 True by (simp add: runAPICall_def)
  next
    case False
    then show ?thesis using keeps_call [OF P r(1) a1] a1 by (simp add: runAPICall_def)
  qed
qed

lemma keeps_run_calls: "P a \<Longrightarrow> P (fst (run_calls c env i turn response calls a))"
proof (induction calls arbitrary: a)
  case (Cons call calls)
  obtain a1 b where a1: "runAPICall c env i turn response call a = (a1, b)" by fastforce
  have "P a1" using keeps_runAPICall [OF Cons.prems, of turn response call] a1 by simp
  then show ?case using Cons a1 keeps_skip by (cases b) (auto simp: skipCalls_def simp del: skip_each.simps)
qed simp

lemma keeps_say: "P a \<Longrightarrow> P (say i response content a)"
  unfolding say_def using live_text by (auto intro!: keeps_session)

lemma keeps_calls: "P a \<Longrightarrow> P (round_state (api_calls c env i turn response calls account a))"
proof -
  assume P: "P a"
  obtain a1 b where a1: "run_calls c env i turn response calls a = (a1, b)" by fastforce
  have P1: "P a1" using keeps_run_calls [OF P, of turn response calls] a1 by simp
  show ?thesis unfolding api_calls_def a1 using P1 keeps_end [OF P] keeps_end [OF P1] by (cases b) simp_all
qed

lemma keeps_respond: "P a \<Longrightarrow> P (round_state (api_respond c env i turn result account a))"
proof -
  assume P: "P a"
  let ?n = "a_responses a + 1" and ?r = "response_record turn (a_responses a + 1) result"
  obtain a1 ok where a1: "api_append c env (a\<lparr>a_responses := ?n\<rparr>) ?r = (a1, ok)" by fastforce
  have "r_Type ?r \<noteq> recordToolCall" by (simp add: blank_def response_record_def)
  then have P1: "P a1" using keeps_appended [OF a1 keeps_responses [OF P]] by blast
  show ?thesis unfolding api_respond_def Let_def a1 using P1 keeps_calls [OF keeps_say [OF P1]] by (cases ok) simp_all
qed

lemma keeps_answered: "P a \<Longrightarrow> P (round_state (api_answered c env i turn result account a))"
  using keeps_end keeps_respond by (simp add: api_answered_def split: option.split)

lemma keeps_account: "P a \<Longrightarrow> P (round_state (api_account c env i turn result account a))"
proof -
  assume P: "P a"
  let ?r = "(blank recordUsage turn)\<lparr>r_Usage := Some (cr_Usage result)\<rparr>"
  obtain a1 ok where a1: "api_append c env a ?r = (a1, ok)" by fastforce
  have "r_Type ?r \<noteq> recordToolCall" by (simp add: blank_def)
  then have P1: "P a1" using keeps_appended [OF a1 P] by blast
  have "P (on_session (observeAPIUsage i u) a1)" for u using P1 live_observe by (rule keeps_session)
  then show ?thesis unfolding api_account_def a1 using P P1 keeps_answered by (cases ok) simp_all
qed

end

text \<open>An invariant that does not count requests is kept by the whole loop.\<close>

locale loop_kept = loop_invariant +
  assumes keeps_requests: "P a \<Longrightarrow> P (a\<lparr>a_requests := k\<rparr>)"
begin

lemma keeps_round: "P a \<Longrightarrow> P (round_state (api_round c env i turn account a))"
  unfolding api_round_def by (intro keeps_account keeps_moment keeps_requests)

lemma keeps_loop: "P a \<Longrightarrow> P (api_loop c env i turn step account a)"
proof (induction "nat (ac_MaxSteps c + 1 - step)" arbitrary: step account a rule: less_induct)
  case less
  show ?case
  proof (cases "step > ac_MaxSteps c")
    case True
    then show ?thesis using keeps_end [OF less.prems] by (simp add: api_loop.simps [of c env i turn step])
  next
    case False
    note P = keeps_round [OF less.prems, of turn account]
    show ?thesis
    proof (cases "api_round c env i turn account a")
      case (Over a1)
      then show ?thesis using P False by (simp add: api_loop.simps [of c env i turn step])
    next
      case (Again account1 a1)
      have "nat (ac_MaxSteps c + 1 - (step + 1)) < nat (ac_MaxSteps c + 1 - step)" using False by simp
      then have "P (api_loop c env i turn (step + 1) account1 a1)" using P Again by (intro less.hyps) simp_all
      then show ?thesis using Again False by (simp add: api_loop.simps [of c env i turn step])
    qed
  qed
qed

end

section \<open>Requests are bounded\<close>

lemma append_handed: "api_append c env a r = (a1, ok) \<Longrightarrow> a_requests a1 = a_requests a \<and> a_handed a1 = a_handed a"
  using append_fields [of c env a r] by simp

interpretation requests: loop_invariant c env i "\<lambda>a. a_requests a = k"
  by unfold_locales (auto dest: append_handed)

lemma round_requests: "a_requests (round_state (api_round c env i turn account a)) = Suc (a_requests a)"
  unfolding api_round_def by (rule requests.keeps_account) simp

lemma loop_requests: "a_requests (api_loop c env i turn step account a) \<le> a_requests a + nat (ac_MaxSteps c + 1 - step)"
proof (induction c env i turn step account a rule: api_loop.induct)
  case (1 c env i turn step account a)
  note r = round_requests [of c env i turn account a]
  show ?case
  proof (cases "step > ac_MaxSteps c")
    case True
    then show ?thesis using requests.keeps_end [of a "a_requests a"] by (simp add: api_loop.simps [of c env i turn step])
  next
    case False
    show ?thesis
    proof (cases "api_round c env i turn account a")
      case (Over a1)
      then show ?thesis using False r by (simp add: api_loop.simps [of c env i turn step])
    next
      case (Again account1 a1)
      then show ?thesis using "1.IH" [OF False Again] False r by (simp add: api_loop.simps [of c env i turn step])
    qed
  qed
qed

section \<open>The turn always ends\<close>

text \<open>Everything else that touches the session meanwhile moves it by the steps of the session; it may end the turn, close or fail the session.\<close>

definition world_steps :: "environment \<Rightarrow> bool" where
  "world_steps env \<longleftrightarrow> (\<exists>cfg. \<forall>n s. (session_step cfg)\<^sup>*\<^sup>* s (en_world env n s))"

definition live_state :: "environment \<Rightarrow> nat \<Rightarrow> api_state \<Rightarrow> bool" where
  "live_state env i a \<longleftrightarrow> (world_steps env \<longrightarrow> turn_live i (a_session a))"

lemma live_write: "turn_live i (a_session a) \<Longrightarrow> turn_live i (a_session (fst (api_write c env a r)))"
  by (auto simp: api_write_def live_failTurn split: prod.split option.split)

lemma live_world: "world_steps env \<Longrightarrow> turn_live i s \<Longrightarrow> turn_live i (en_world env n s)"
  using live_steps by (fastforce simp: world_steps_def)

lemma live_moment: "world_steps env \<Longrightarrow> turn_live i (a_session a) \<Longrightarrow> turn_live i (a_session (moment env a))"
  using live_steps by (fastforce simp: world_steps_def)

lemma live_settle: "world_steps env \<Longrightarrow> turn_live i (a_session a) \<Longrightarrow> turn_live i (a_session (settle_late c env a))"
  by (auto simp: settle_late_def split: option.split intro!: live_write live_moment)

lemma live_append: "world_steps env \<Longrightarrow> turn_live i (a_session a) \<Longrightarrow> turn_live i (a_session (fst (api_append c env a r)))"
  by (auto simp: api_append_def Let_def intro!: live_write live_settle live_moment)

lemma failed_append_ends:
  assumes "world_steps env" "turn_live i (a_session a)" "api_append c env a r = (a1, False)"
  shows "turn_ending i (a_session a1)"
proof -
  let ?a1 = "moment env a"
  let ?a2 = "if en_settles env (a_tick a) then settle_late c env ?a1 else ?a1"
  have "turn_live i (a_session ?a2)" using assms(1,2) live_settle live_moment by simp
  then show ?thesis using assms(3) live_failTurn
    by (auto simp: api_append_def Let_def api_write_def split: prod.splits option.splits)
qed

interpretation live: loop_kept c env i "live_state env i"
proof unfold_locales
  fix a r a1 ok
  assume "live_state env i a" "r_Type r = recordToolCall" "api_append c env a r = (a1, ok)"
  then show "live_state env i (if ok then a1\<lparr>a_handed := a_handed a1 @ [r_key r]\<rparr> else a1)"
    using live_append [of env i a c r] by (auto simp: live_state_def)
qed (auto simp: live_state_def live_append live_world)

lemma end_finishes:
  assumes w: "world_steps env" and l: "turn_live i (a_session a)"
  shows "turn_ending i (a_session (endAPITurn c env i turn status err account a))"
proof -
  obtain st code where st: "end_status env a i status err = (st, code)" by fastforce
  let ?r = "(blank recordTurnEnd turn)\<lparr>r_Status := st, r_Code := code\<rparr>"
  obtain a1 ok where a1: "api_append c env a ?r = (a1, ok)" by fastforce
  have "turn_live i (a_session a1)" using live_append [OF w l, of c ?r] a1 by simp
  then show ?thesis using failed_append_ends [OF w l] a1 live_publish
    by (cases ok) (auto simp: endAPITurn_def st api_ended_def turn_ending_def)
qed

lemma calls_finish:
  assumes w: "world_steps env" and l: "turn_live i (a_session a)" and o: "api_calls c env i turn response calls account a = Over a'"
  shows "turn_ending i (a_session a')"
proof -
  obtain a1 b where a1: "run_calls c env i turn response calls a = (a1, b)" by fastforce
  have "live_state env i a1" using live.keeps_run_calls [of env i a c turn response calls] l a1 by (simp add: live_state_def)
  then have l1: "turn_live i (a_session a1)" using w by (simp add: live_state_def)
  show ?thesis using o end_finishes [OF w l] end_finishes [OF w l1] unfolding api_calls_def a1
    by (cases b) (auto split: if_splits)
qed

lemma respond_finishes:
  assumes w: "world_steps env" and l: "turn_live i (a_session a)" and o: "api_respond c env i turn result account a = Over a'"
  shows "turn_ending i (a_session a')"
proof -
  let ?n = "a_responses a + 1" and ?r = "response_record turn (a_responses a + 1) result"
  have l0: "turn_live i (a_session (a\<lparr>a_responses := ?n\<rparr>))" using l by simp
  obtain a1 ok where a1: "api_append c env (a\<lparr>a_responses := ?n\<rparr>) ?r = (a1, ok)" by fastforce
  show ?thesis
  proof (cases ok)
    case True
    have "turn_live i (a_session a1)" using live_append [OF w l0, of c ?r] a1 by simp
    then have "turn_live i (a_session (say i ?n (cr_Content result) a1))" using live_text by (simp add: say_def)
    then show ?thesis using calls_finish [OF w] o a1 True by (simp add: api_respond_def Let_def)
  next
    case False
    then show ?thesis using failed_append_ends [OF w l0] a1 o by (simp add: api_respond_def Let_def)
  qed
qed

lemma answered_finishes:
  "world_steps env \<Longrightarrow> turn_live i (a_session a) \<Longrightarrow> api_answered c env i turn result account a = Over a' \<Longrightarrow>
     turn_ending i (a_session a')"
  using end_finishes respond_finishes by (auto simp: api_answered_def split: option.splits)

lemma account_finishes:
  assumes w: "world_steps env" and l: "turn_live i (a_session a)" and o: "api_account c env i turn result account a = Over a'"
  shows "turn_ending i (a_session a')"
proof -
  let ?r = "(blank recordUsage turn)\<lparr>r_Usage := Some (cr_Usage result)\<rparr>"
  obtain a1 ok where a1: "api_append c env a ?r = (a1, ok)" by fastforce
  have "turn_live i (a_session (on_session (observeAPIUsage i (cr_Usage result)) a1))"
    using live_append [OF w l, of c ?r] a1 live_observe by simp
  note billed = answered_finishes [OF w this] and unbilled = answered_finishes [OF w l]
  show ?thesis
  proof (cases ok)
    case True
    then show ?thesis using o billed unbilled a1 by (auto simp: api_account_def split: if_splits)
  next
    case False
    then show ?thesis using o failed_append_ends [OF w l] unbilled a1 by (auto simp: api_account_def split: if_splits)
  qed
qed

lemma loop_finishes:
  assumes w: "world_steps env"
  shows "turn_live i (a_session a) \<Longrightarrow> turn_ending i (a_session (api_loop c env i turn step account a))"
proof (induction "nat (ac_MaxSteps c + 1 - step)" arbitrary: step account a rule: less_induct)
  case less
  have l: "turn_live i (a_session (moment env (a\<lparr>a_requests := Suc (a_requests a)\<rparr>)))"
    using live_world [OF w less.prems, of "a_tick a"] by simp
  show ?case
  proof (cases "step > ac_MaxSteps c")
    case True
    then show ?thesis using end_finishes [OF w less.prems] by (simp add: api_loop.simps [of c env i turn step])
  next
    case False
    show ?thesis
    proof (cases "api_round c env i turn account a")
      case (Over a1)
      then show ?thesis using account_finishes [OF w l] False by (simp add: api_round_def api_loop.simps [of c env i turn step])
    next
      case (Again account1 a1)
      have "live_state env i a1" using live.keeps_round [of env i a c turn account] less.prems Again by (simp add: live_state_def)
      then have "turn_live i (a_session a1)" using w by (simp add: live_state_def)
      moreover have "nat (ac_MaxSteps c + 1 - (step + 1)) < nat (ac_MaxSteps c + 1 - step)" using False by simp
      ultimately show ?thesis using less.hyps Again False by (simp add: api_loop.simps [of c env i turn step])
    qed
  qed
qed

lemma closed_step: "session_step cfg s s' \<Longrightarrow> se_closed s \<Longrightarrow> session_inv s \<Longrightarrow> se_closed s'"
proof (induction rule: session_step.induct)
  case (ending s before e after)
  then show ?case by (cases "(e, s)" rule: run_ending.cases) (simp_all add: turn_finish_alt)
qed (auto simp: begin_turn_def begin_compact_def claimIdleLocked_def failTurn_mark_def turn_finish_alt markContext_def contextDelivered_def
    split: option.splits if_splits)

text \<open>A turn that is over is finished as soon as the session owes nothing more.\<close>

lemma over_steps:
  assumes "(session_step cfg)\<^sup>*\<^sup>* s s'" "turn_live i s" "turn_ending i s"
  shows "turn_live i s' \<and> (tu_finished (turn_of s' i) \<or> se_closed s')"
  using assms(1)
proof (induction rule: rtranclp_induct)
  case base
  have "se_closed s" if "EndTurn (Some i) err \<in> set (se_endings s)" for err
    using that assms(2) by (auto simp: turn_live_def session_inv_def closing_inv_def)
  then show ?case using assms(2,3) by (auto simp: turn_ending_def)
next
  case (step u v)
  have "turn_live i v" using live_step [OF _ step(2)] step(3) by simp
  moreover have "tu_finished (turn_of v i)" if "tu_finished (turn_of u i)"
  proof -
    have i: "i < length (se_turns u)" using step(3) live_length by blast
    then show ?thesis using step_ended [OF step(2) i] that by (auto simp: ended_as_def message_start_def)
  qed
  moreover have "se_closed v" if "se_closed u" using closed_step [OF step(2) that] step(3) by (simp add: turn_live_def)
  ultimately show ?case using step(3) by blast
qed

lemma over_finished:
  assumes "(session_step cfg)\<^sup>*\<^sup>* s s'" "turn_live i s" "turn_ending i s" "se_endings s' = []"
  shows "tu_finished (turn_of s' i)"
proof (rule ccontr)
  assume n: "\<not> tu_finished (turn_of s' i)"
  then have "i \<in> running_turns s'" "se_closed s'" "session_inv s'"
    using over_steps [OF assms(1-3)] by (auto simp: running_turns_def turn_live_def)
  then show False using assms(4) by (auto simp: session_inv_def closing_inv_def)
qed

text \<open>
  C8. A turn the library runs ends, within its step bound, as long as each request it sends and each call it waits for returns or is
  stopped. Whatever the endpoint answers, however writing the transcript and running the calls go, whenever the turn is stopped, and whatever
  steps the rest of the session takes meanwhile (closing or failing it included), the loop sends at most \<open>MaxSteps\<close> requests (none when that is
  not positive) and returns with the turn finished, or with its end owed by a failure of the session that is under way; once
  the session owes nothing the turn is finished, so a caller waiting on it is released.
\<close>

theorem api_turn_ends:
  assumes "reachable_from fresh_session (session_step cfg) (a_session a)" "i < length (se_turns (a_session a))"
    and "\<And>n s. (session_step cfg)\<^sup>*\<^sup>* s (en_world env n s)"
  shows "a_requests (runAPITurn c env i turn a) \<le> a_requests a + nat (ac_MaxSteps c)
    \<and> (tu_finished (turn_of (a_session (runAPITurn c env i turn a)) i)
        \<or> (\<exists>err. EndTurn (Some i) err \<in> set (se_endings (a_session (runAPITurn c env i turn a)))))
    \<and> (\<forall>s. (session_step cfg)\<^sup>*\<^sup>* (a_session (runAPITurn c env i turn a)) s \<and> se_endings s = [] \<longrightarrow> tu_finished (turn_of s i))"
proof -
  have l: "turn_live i (a_session a)" using sessions.inv_reachable [OF assms(1)] assms(2) by (simp add: turn_live_def)
  have w: "world_steps env" using assms(3) by (auto simp: world_steps_def)
  have "live_state env i (runAPITurn c env i turn a)"
    unfolding runAPITurn_def by (rule live.keeps_loop) (use l in \<open>simp add: live_state_def\<close>)
  then have l': "turn_live i (a_session (runAPITurn c env i turn a))" using w by (simp add: live_state_def)
  have o: "turn_ending i (a_session (runAPITurn c env i turn a))" unfolding runAPITurn_def by (rule loop_finishes [OF w l])
  then show ?thesis using loop_requests [of c env i turn 1 _ a] over_finished [OF _ l' o]
    by (auto simp: turn_ending_def runAPITurn_def)
qed

section \<open>Every call is recorded before it is handed over\<close>

text \<open>Relative to a state \<open>a0\<close>: what was recorded since, and that exactly its call records were handed to the host, in order.\<close>

definition journalled :: "api_state \<Rightarrow> api_state \<Rightarrow> bool" where
  "journalled a0 a \<longleftrightarrow>
     (\<exists>new. a_records a = a_records a0 @ new
        \<and> a_handed a = a_handed a0 @ map r_key (filter (\<lambda>r. r_Type r = recordToolCall) new))
     \<and> (\<forall>q. a_late a = Some q \<longrightarrow> r_Type q = recordToolResult)"

lemma journal_write:
  "journalled a0 a \<Longrightarrow> r_Type r \<noteq> recordToolCall \<Longrightarrow> journalled a0 (fst (api_write c env a r))"
  by (auto simp: journalled_def api_write_def split: prod.split option.split)

lemma journal_moment: "journalled a0 (moment env a) = journalled a0 a"
  by (simp add: journalled_def)

lemma journal_settle: "journalled a0 a \<Longrightarrow> journalled a0 (settle_late c env a)"
proof (cases "a_late a")
  case (Some q)
  assume j: "journalled a0 a"
  then have "journalled a0 (moment env (a\<lparr>a_late := None\<rparr>))" "r_Type q \<noteq> recordToolCall"
    using Some by (auto simp: journal_moment journalled_def)
  then show ?thesis using Some by (simp add: settle_late_def journal_write)
qed (simp add: settle_late_def)

lemma journal_append:
  "journalled a0 a \<Longrightarrow> r_Type r \<noteq> recordToolCall \<Longrightarrow> journalled a0 (fst (api_append c env a r))"
  by (simp add: api_append_def Let_def journal_write journal_settle journal_moment)

lemma journal_call:
  assumes "journalled a0 a" "r_Type r = recordToolCall" "api_append c env a r = (a1, ok)"
  shows "journalled a0 (if ok then a1\<lparr>a_handed := a_handed a1 @ [r_key r]\<rparr> else a1)"
proof -
  let ?a = "if en_settles env (a_tick a) then settle_late c env (moment env a) else moment env a"
  have "journalled a0 ?a" using assms(1) by (simp add: journal_settle journal_moment)
  moreover have "api_write c env ?a r = (a1, ok)" using assms(3) by (simp add: api_append_def Let_def)
  ultimately show ?thesis using assms(2)
    by (auto simp: journalled_def api_write_def split: prod.splits option.splits)
qed

interpretation journal: loop_kept c env i "journalled a0"
proof unfold_locales
  fix a r a1 ok
  assume "journalled a0 a" "r_Type r = recordToolCall" "api_append c env a r = (a1, ok)"
  then show "journalled a0 (if ok then a1\<lparr>a_handed := a_handed a1 @ [r_key r]\<rparr> else a1)" by (rule journal_call)
qed (simp_all add: journal_append journal_moment, simp_all add: journalled_def)

text \<open>
  C9. Nothing is executed that was not first made durable. The calls a turn hands to the tool host are exactly the calls
  it recorded as started, in that order: a call whose record could not be written is never handed over, and a call that
  was skipped has no such record. So after a crash the transcript names every call that may have had an effect.
\<close>

theorem api_calls_recorded_first:
  assumes "a_late a = None"
  shows "\<exists>new. a_records (runAPITurn c env i turn a) = a_records a @ new
    \<and> a_handed (runAPITurn c env i turn a) = a_handed a @ map r_key (filter (\<lambda>r. r_Type r = recordToolCall) new)"
proof -
  have "journalled a a" using assms by (simp add: journalled_def)
  then have "journalled a (runAPITurn c env i turn a)" unfolding runAPITurn_def by (rule journal.keeps_loop)
  then show ?thesis by (simp add: journalled_def)
qed

section \<open>A healthy turn leaves nothing to recover\<close>

text \<open>The records written and the result still to come.\<close>

definition pool :: "api_state \<Rightarrow> trecord set" where
  "pool a = set (a_records a) \<union> set_option (a_late a)"

definition answered :: "api_state \<Rightarrow> string \<Rightarrow> bool" where
  "answered a k \<longleftrightarrow> (\<exists>r\<in>pool a. r_Type r = recordToolResult \<and> r_key r = k)"

definition healthy :: "environment \<Rightarrow> api_state \<Rightarrow> bool" where
  "healthy env a \<longleftrightarrow> (\<forall>n. en_write env n = Written) \<and> \<not> t_closed (a_store a) \<and> (\<forall>q. a_late a = Some q \<longrightarrow> r_Type q = recordToolResult)"

text \<open>From \<open>a\<close> to \<open>b\<close> only whole records of the types \<open>T\<close> were added, to the history and to the file alike.\<close>

definition grown :: "string set \<Rightarrow> loop_config \<Rightarrow> environment \<Rightarrow> api_state \<Rightarrow> api_state \<Rightarrow> bool" where
  "grown T c env a b \<longleftrightarrow> healthy env b \<and> pool a \<subseteq> pool b \<and> (\<forall>r\<in>pool b - pool a. r_Type r \<in> T)
     \<and> (\<exists>new. a_records b = a_records a @ new \<and> t_bytes (a_store b) = t_bytes (a_store a) @ lines_of (ac_enc c) new
          \<and> (\<forall>r\<in>set new. r_Type r \<in> T))"

lemma grown_refl [simp]: "healthy env a \<Longrightarrow> grown T c env a a"
  by (simp add: grown_def lines_of_def)

lemma grown_trans: "grown T c env a b \<Longrightarrow> grown T c env b d \<Longrightarrow> grown T c env a d"
  unfolding grown_def by (auto simp: lines_of_def)

lemma grown_mono: "grown T c env a b \<Longrightarrow> T \<subseteq> U \<Longrightarrow> grown U c env a b"
  unfolding grown_def by blast

lemma grown_healthy: "grown T c env a b \<Longrightarrow> healthy env b"
  by (simp add: grown_def)

lemma grown_answered: "grown T c env a b \<Longrightarrow> answered a k \<Longrightarrow> answered b k"
  by (auto simp: grown_def answered_def)

lemma write_healthy:
  assumes "healthy env a"
  shows "api_write c env a r = (a\<lparr>a_store := (a_store a)\<lparr>t_bytes := t_bytes (a_store a) @ line_of (ac_enc c) r\<rparr>,
      a_records := a_records a @ [r]\<rparr>, True)"
  using assms by (simp add: api_write_def append_record_def healthy_def)

lemma append_healthy:
  assumes h: "healthy env a"
  shows "\<exists>b. api_append c env a r = (b, True) \<and> pool b = insert r (pool a) \<and> r \<in> set (a_records b)
    \<and> (a_late a = None \<longrightarrow> a_late b = None) \<and> grown {r_Type r, recordToolResult} c env a b"
proof (cases "en_settles env (a_tick a) \<and> a_late a \<noteq> None")
  case True
  then obtain q where q: "a_late a = Some q" by blast
  then have t: "r_Type q = recordToolResult" using h by (simp add: healthy_def)
  have h1: "healthy env (moment env ((moment env a)\<lparr>a_late := None\<rparr>))" using h by (simp add: healthy_def moment_def)
  show ?thesis using True q t h write_healthy [OF h1, of c q]
    by (simp add: api_append_def Let_def settle_late_def api_write_def append_record_def healthy_def)
      (auto simp: pool_def grown_def healthy_def lines_of_def moment_def)
next
  case False
  then have "(if en_settles env (a_tick a) then settle_late c env (moment env a) else moment env a) = moment env a"
    by (auto simp: settle_late_def)
  moreover have "healthy env (moment env a)" using h by (simp add: healthy_def)
  ultimately show ?thesis using h False write_healthy [of env "moment env a" c r]
    by (auto simp: api_append_def Let_def pool_def grown_def healthy_def lines_of_def)
qed

lemma pool_fields [simp]:
  "pool (on_session f a) = pool a" "pool (a\<lparr>a_cancelled := x\<rparr>) = pool a" "pool (a\<lparr>a_handed := hs\<rparr>) = pool a"
  "pool (a\<lparr>a_responses := n\<rparr>) = pool a" "pool (a\<lparr>a_requests := k\<rparr>) = pool a" "pool (moment env a) = pool a"
  by (simp_all add: pool_def)

lemma healthy_fields [simp]:
  "healthy env (on_session f a) = healthy env a" "healthy env (a\<lparr>a_cancelled := x\<rparr>) = healthy env a"
  "healthy env (a\<lparr>a_handed := hs\<rparr>) = healthy env a" "healthy env (a\<lparr>a_responses := n\<rparr>) = healthy env a"
  "healthy env (a\<lparr>a_requests := k\<rparr>) = healthy env a" "healthy env (moment env a) = healthy env a"
  by (simp_all add: healthy_def)

lemma grown_left [simp]:
  "grown T c env (on_session f a) b = grown T c env a b" "grown T c env (a\<lparr>a_cancelled := x\<rparr>) b = grown T c env a b"
  "grown T c env (a\<lparr>a_handed := hs\<rparr>) b = grown T c env a b" "grown T c env (a\<lparr>a_responses := n\<rparr>) b = grown T c env a b"
  "grown T c env (a\<lparr>a_requests := k\<rparr>) b = grown T c env a b" "grown T c env (moment env a) b = grown T c env a b"
  by (simp_all add: grown_def)

lemma grown_right [simp]: "grown T c env a (on_session f b) = grown T c env a b"
  by (simp add: grown_def)

definition started_answered :: "api_state \<Rightarrow> bool" where
  "started_answered a \<longleftrightarrow> (\<forall>r\<in>pool a. r_Type r = recordToolCall \<longrightarrow> answered a (r_key r))"

lemma answered_fields [simp]: "answered (on_session f a) = answered a" "started_answered (on_session f a) = started_answered a"
  by (simp_all add: answered_def started_answered_def fun_eq_iff)

lemma grown_pool: "grown T c env a b \<Longrightarrow> r \<in> pool b \<Longrightarrow> r \<in> pool a \<or> r_Type r \<in> T"
  by (auto simp: grown_def)

lemma grown_calls: "grown T c env a b \<Longrightarrow> recordToolCall \<notin> T \<Longrightarrow> started_answered a \<Longrightarrow> started_answered b"
  unfolding started_answered_def by (metis grown_pool grown_answered)

lemma skip_healthy:
  "healthy env a \<Longrightarrow> (\<And>k. k \<in> started \<Longrightarrow> answered a k) \<Longrightarrow> b = skip_each c env turn response started calls a \<Longrightarrow>
     grown {recordToolResult} c env a b \<and> (\<forall>call\<in>set calls. answered b (call_key response (tc_ID call)))"
proof (induction calls arbitrary: a)
  case (Cons call calls)
  show ?case
  proof (cases "call_key response (tc_ID call) \<in> started")
    case True
    then have "grown {recordToolResult} c env a b \<and> (\<forall>call\<in>set calls. answered b (call_key response (tc_ID call)))"
      using Cons by (intro Cons.IH) simp_all
    then show ?thesis using grown_answered [OF _ Cons.prems(2) [OF True]] by auto
  next
    case False
    let ?r = "(blank recordToolResult turn)\<lparr>r_Response := response, r_Call := tc_ID call, r_Tool := tc_Name call,
               r_Text := bound notRunText (ac_resultLimit c), r_IsError := True, r_Outcome := outcomeNotRun\<rparr>"
    have r: "r_Type ?r = recordToolResult" "r_key ?r = call_key response (tc_ID call)" by (simp_all add: blank_def r_key_def)
    obtain a1 where a1: "api_append c env a ?r = (a1, True)" "pool a1 = insert ?r (pool a)" "grown {recordToolResult} c env a a1"
      using append_healthy [OF Cons.prems(1), of c ?r] r(1) by auto
    have k: "answered a1 (call_key response (tc_ID call))" using a1(2) r by (auto simp: answered_def)
    have "b = skip_each c env turn response started calls a1" using Cons.prems(3) False a1(1) by simp
    then have "grown {recordToolResult} c env a1 b \<and> (\<forall>call\<in>set calls. answered b (call_key response (tc_ID call)))"
      using a1(3) Cons.prems(2) grown_answered grown_healthy by (intro Cons.IH) blast+
    then show ?thesis using grown_trans [OF a1(3)] grown_answered [OF _ k] by auto
  qed
qed simp

lemma skipCalls_healthy:
  assumes "healthy env a" "started_answered a"
  shows "grown {recordToolResult} c env a (skipCalls c env turn response calls a)
    \<and> (\<forall>call\<in>set calls. answered (skipCalls c env turn response calls a) (call_key response (tc_ID call)))"
proof -
  have "answered a k" if "k \<in> snd (callStates (a_records a))" for k
    using that assms(2) unfolding started_iff started_answered_def pool_def by blast
  from skip_healthy [OF assms(1) this refl] show ?thesis by (simp add: skipCalls_def)
qed

lemma settled_healthy:
  assumes h: "healthy env a" and l: "a_late a = None" and b: "call_settled c env i turn response call out left picked a = (b, ok)"
  shows "grown {recordToolResult} c env a b \<and> answered b (call_key response (tc_ID call)) \<and> a_late b = None"
proof -
  let ?r = "result_record turn response call out"
  have r: "r_Type ?r = recordToolResult" "r_key ?r = call_key response (tc_ID call)" by (simp_all add: result_record_def blank_def r_key_def)
  obtain a1 where a1: "api_append c env a ?r = (a1, True)" "pool a1 = insert ?r (pool a)" "a_late a1 = None"
      "grown {recordToolResult} c env a a1"
    using append_healthy [OF h, of c ?r] r(1) l by auto
  have k: "answered a1 (call_key response (tc_ID call))" using a1(2) r by (auto simp: answered_def)
  have "b = a1 \<or> b = on_session (completed_events i call out) a1"
    using b a1(1) by (auto simp: call_settled_def split: if_splits)
  then show ?thesis using a1 k by (elim disjE) simp_all
qed

lemma hand_over_healthy:
  assumes h: "healthy env a" and l: "a_late a = None" and b: "hand_over c env i turn response call a = (b, ok)"
  shows "grown {recordToolResult} c env a b \<and> answered b (call_key response (tc_ID call)) \<and> (ok \<longrightarrow> a_late b = None)"
proof -
  let ?a = "a\<lparr>a_handed := a_handed a @ [call_key response (tc_ID call)]\<rparr>"
  let ?ex = "en_call env (a_tick a) call"
  have h1: "healthy env ?a" "a_late ?a = None" and h2: "healthy env (?a\<lparr>a_cancelled := True\<rparr>)" "a_late (?a\<lparr>a_cancelled := True\<rparr>) = None"
    using h l by simp_all
  note settled = settled_healthy [OF h1, of c i turn response call] settled_healthy [OF h2, of c i turn response call]
  show ?thesis
  proof (cases "ex_refusal ?ex = None \<and> ex_stopped ?ex \<and> \<not> (ac_workspace c \<and> isWorkbenchTool (tc_Name call))")
    case True
    let ?r = "result_record turn response call (ex_outcome ?ex)"
    have r: "r_Type ?r = recordToolResult" "r_key ?r = call_key response (tc_ID call)" by (simp_all add: result_record_def blank_def r_key_def)
    have "b = ?a\<lparr>a_cancelled := True, a_late := Some ?r\<rparr>" "\<not> ok" using b True by (auto simp: hand_over_def Let_def)
    then show ?thesis using h l r by (auto simp: grown_def healthy_def pool_def answered_def lines_of_def)
  next
    case False
    then show ?thesis using b settled by (auto simp: hand_over_def Let_def split: option.splits if_splits)
  qed
qed

lemma call_healthy:
  assumes h: "healthy env a" and l: "a_late a = None" and c: "started_answered a" and b: "runAPICall c env i turn response call a = (b, ok)"
  shows "grown {recordToolCall, recordToolResult} c env a b \<and> answered b (call_key response (tc_ID call)) \<and> started_answered b \<and> (ok \<longrightarrow> a_late b = None)"
proof -
  let ?r = "(blank recordToolCall turn)\<lparr>r_Response := response, r_Call := tc_ID call, r_Tool := tc_Name call\<rparr>"
  let ?f = "started_event i call"
  have r: "r_Type ?r = recordToolCall" "r_key ?r = call_key response (tc_ID call)" by (simp_all add: blank_def r_key_def)
  obtain a1 where a1: "api_append c env a ?r = (a1, True)" "pool a1 = insert ?r (pool a)" "a_late a1 = None"
      "grown {recordToolCall, recordToolResult} c env a a1"
    using append_healthy [OF h, of c ?r] r(1) l by auto
  have h1: "healthy env (on_session ?f a1)" "a_late (on_session ?f a1) = None" using grown_healthy [OF a1(4)] a1(3) by simp_all
  have "hand_over c env i turn response call (on_session ?f a1) = (b, ok)" using b a1(1) by (simp add: runAPICall_def)
  from hand_over_healthy [OF h1 this] have g: "grown {recordToolResult} c env a1 b" "answered b (call_key response (tc_ID call))" "ok \<longrightarrow> a_late b = None"
    by simp_all
  have "answered b (r_key q)" if "q \<in> pool b" "r_Type q = recordToolCall" for q
  proof -
    have "q \<in> pool a1" using grown_pool [OF g(1) that(1)] that(2) by auto
    then consider "q = ?r" | "q \<in> pool a" using a1(2) by blast
    then show ?thesis
    proof cases
      case 1
      then show ?thesis using g(2) r(2) by simp
    next
      case 2
      then have "answered a (r_key q)" using c that(2) by (simp add: started_answered_def)
      then show ?thesis using grown_answered [OF a1(4)] grown_answered [OF g(1)] by blast
    qed
  qed
  then have "started_answered b" by (simp add: started_answered_def)
  moreover have "grown {recordToolCall, recordToolResult} c env a b"
    by (rule grown_trans [OF a1(4) grown_mono [OF g(1)]]) simp
  ultimately show ?thesis using g by simp
qed

lemma calls_healthy:
  "healthy env a \<Longrightarrow> a_late a = None \<Longrightarrow> started_answered a \<Longrightarrow> run_calls c env i turn response calls a = (b, ok) \<Longrightarrow>
     grown {recordToolCall, recordToolResult} c env a b \<and> (\<forall>call\<in>set calls. answered b (call_key response (tc_ID call)))
     \<and> started_answered b \<and> (ok \<longrightarrow> a_late b = None)"
proof (induction calls arbitrary: a)
  case (Cons call calls)
  have skipped: "grown {recordToolCall, recordToolResult} c env a b \<and> (\<forall>call\<in>set (call # calls). answered b (call_key response (tc_ID call)))
      \<and> started_answered b"
    if "grown {recordToolCall, recordToolResult} c env a a1" "started_answered a1" "b = skipCalls c env turn response (call # calls) a1" for a1
  proof -
    have "grown {recordToolResult} c env a1 b" "\<forall>call\<in>set (call # calls). answered b (call_key response (tc_ID call))"
      using skipCalls_healthy [OF grown_healthy [OF that(1)] that(2), of c turn response "call # calls"] that(3) by auto
    then show ?thesis using grown_trans [OF that(1) grown_mono] grown_calls that(2) by simp
  qed
  show ?case
  proof (cases "a_cancelled a")
    case True
    then show ?thesis using skipped [of a] Cons.prems by simp
  next
    case False
    obtain a1 more where a1: "runAPICall c env i turn response call a = (a1, more)" by fastforce
    note g = call_healthy [OF Cons.prems(1-3) a1]
    show ?thesis
    proof (cases more)
      case True
      then have "run_calls c env i turn response calls a1 = (b, ok)" using Cons.prems(4) a1 \<open>\<not> a_cancelled a\<close> by simp
      then have i: "grown {recordToolCall, recordToolResult} c env a1 b \<and> (\<forall>call\<in>set calls. answered b (call_key response (tc_ID call)))
          \<and> started_answered b \<and> (ok \<longrightarrow> a_late b = None)"
        using g True grown_healthy by (intro Cons.IH) auto
      then have "answered b (call_key response (tc_ID call))" using g grown_answered by blast
      then show ?thesis using i grown_trans [OF g [THEN conjunct1]] by simp
    next
      case False
      then show ?thesis using skipped [of a1] g Cons.prems(4) a1 \<open>\<not> a_cancelled a\<close> by simp
    qed
  qed
qed simp

text \<open>What a turn may write after its start.\<close>

definition turn_types :: "string set" where
  "turn_types = {recordUsage, recordAssistant, recordToolCall, recordToolResult, recordTurnEnd}"

text \<open>Between two rounds, and when the turn is over.\<close>

definition between_rounds :: "loop_config \<Rightarrow> environment \<Rightarrow> api_state \<Rightarrow> api_state \<Rightarrow> bool" where
  "between_rounds c env a0 a \<longleftrightarrow> grown turn_types c env a0 a \<and> a_late a = None \<and> started_answered a"

definition turn_over :: "loop_config \<Rightarrow> environment \<Rightarrow> string \<Rightarrow> api_state \<Rightarrow> api_state \<Rightarrow> bool" where
  "turn_over c env turn a0 a \<longleftrightarrow> grown turn_types c env a0 a \<and> started_answered a \<and> turn_ended (a_records a) turn"

fun round_ok :: "loop_config \<Rightarrow> environment \<Rightarrow> string \<Rightarrow> api_state \<Rightarrow> round \<Rightarrow> bool" where
  "round_ok c env turn a0 (Over a) = turn_over c env turn a0 a"
| "round_ok c env turn a0 (Again account a) = between_rounds c env a0 a"

lemma append_between:
  assumes g: "grown turn_types c env a0 a" "started_answered a" and r: "r_Type r \<in> turn_types - {recordToolCall}"
  shows "\<exists>b. api_append c env a r = (b, True) \<and> r \<in> set (a_records b) \<and> grown turn_types c env a0 b \<and> started_answered b
    \<and> (a_late a = None \<longrightarrow> a_late b = None)"
proof -
  obtain b where b: "api_append c env a r = (b, True)" "r \<in> set (a_records b)" "a_late a = None \<longrightarrow> a_late b = None"
      "grown {r_Type r, recordToolResult} c env a b"
    using append_healthy [OF grown_healthy [OF g(1)], of c r] by auto
  have t: "{r_Type r, recordToolResult} \<subseteq> turn_types" "recordToolCall \<notin> {r_Type r, recordToolResult}"
    using r by (auto simp: turn_types_def)
  have "grown turn_types c env a0 b" "started_answered b"
    using grown_trans [OF g(1) grown_mono [OF b(4) t(1)]] grown_calls [OF b(4) t(2) g(2)] .
  then show ?thesis using b(1-3) by (intro exI [of _ b] conjI)
qed

lemma end_healthy:
  assumes "grown turn_types c env a0 a" "started_answered a"
  shows "turn_over c env turn a0 (endAPITurn c env i turn status err account a)"
proof -
  obtain st code where st: "end_status env a i status err = (st, code)" by fastforce
  let ?r = "(blank recordTurnEnd turn)\<lparr>r_Status := st, r_Code := code\<rparr>"
  have r: "r_Type ?r \<in> turn_types - {recordToolCall}" "r_Type ?r = recordTurnEnd" "r_Turn ?r = turn" by (simp_all add: blank_def turn_types_def)
  obtain b where b: "api_append c env a ?r = (b, True)" "?r \<in> set (a_records b)" "grown turn_types c env a0 b" "started_answered b"
    using append_between [OF assms r(1)] by blast
  have "turn_ended (a_records b) turn" unfolding turn_ended_def list_ex_iff using b(2) r(2,3) by (intro bexI [of _ ?r]) auto
  then have "turn_over c env turn a0 b" using b(3,4) by (simp add: turn_over_def)
  then show ?thesis using b(1) by (auto simp: endAPITurn_def st turn_over_def)
qed

lemma calls_round:
  assumes g: "between_rounds c env a0 a"
  shows "round_ok c env turn a0 (api_calls c env i turn response calls account a)"
proof -
  obtain b ok where b: "run_calls c env i turn response calls a = (b, ok)" by fastforce
  have h: "healthy env a" using g grown_healthy by (auto simp: between_rounds_def)
  have gb: "grown {recordToolCall, recordToolResult} c env a b" "started_answered b" "ok \<longrightarrow> a_late b = None"
    using calls_healthy [OF h _ _ b] g by (auto simp: between_rounds_def)
  have "grown turn_types c env a b" by (rule grown_mono [OF gb(1)]) (simp add: turn_types_def)
  then have ga: "grown turn_types c env a0 b" using g grown_trans [of turn_types c env a0 a b] by (simp add: between_rounds_def)
  show ?thesis using end_healthy [OF ga gb(2)] end_healthy [of c env a0 a] g ga gb b
    by (cases ok) (auto simp: api_calls_def between_rounds_def)
qed

lemma respond_round:
  assumes g: "between_rounds c env a0 a"
  shows "round_ok c env turn a0 (api_respond c env i turn result account a)"
proof -
  let ?n = "a_responses a + 1" and ?r = "response_record turn (a_responses a + 1) result"
  have "grown turn_types c env a0 (a\<lparr>a_responses := ?n\<rparr>)" "started_answered (a\<lparr>a_responses := ?n\<rparr>)"
    using g by (auto simp: between_rounds_def grown_def started_answered_def answered_def)
  moreover have "r_Type ?r \<in> turn_types - {recordToolCall}" by (simp add: response_record_def blank_def turn_types_def)
  ultimately obtain b where b: "api_append c env (a\<lparr>a_responses := ?n\<rparr>) ?r = (b, True)" "grown turn_types c env a0 b" "started_answered b"
      "a_late b = None"
    using append_between [of c env a0 "a\<lparr>a_responses := ?n\<rparr>" ?r] g by (auto simp: between_rounds_def)
  then have "between_rounds c env a0 (say i ?n (cr_Content result) b)" by (simp add: between_rounds_def say_def)
  then show ?thesis using calls_round b(1) by (simp add: api_respond_def Let_def)
qed

lemma account_round:
  assumes g: "between_rounds c env a0 a"
  shows "round_ok c env turn a0 (api_account c env i turn result account a)"
proof -
  have answered: "round_ok c env turn a0 (api_answered c env i turn result acc b)" if "between_rounds c env a0 b" for acc b
    using that end_healthy [of c env a0 b] respond_round [OF that] by (auto simp: api_answered_def between_rounds_def split: option.split)
  let ?r = "(blank recordUsage turn)\<lparr>r_Usage := Some (cr_Usage result)\<rparr>"
  have "r_Type ?r \<in> turn_types - {recordToolCall}" by (simp add: blank_def turn_types_def)
  then obtain b where b: "api_append c env a ?r = (b, True)" "between_rounds c env a0 b"
    using append_between [of c env a0 a ?r] g by (auto simp: between_rounds_def)
  then have "between_rounds c env a0 (on_session (observeAPIUsage i (cr_Usage result)) b)" by (simp add: between_rounds_def)
  then show ?thesis using answered b g by (auto simp: api_account_def)
qed

lemma loop_over: "between_rounds c env a0 a \<Longrightarrow> turn_over c env turn a0 (api_loop c env i turn step account a)"
proof (induction c env i turn step account a rule: api_loop.induct)
  case (1 c env i turn step account a)
  have m: "between_rounds c env a0 (moment env (a\<lparr>a_requests := Suc (a_requests a)\<rparr>))"
    using "1.prems" by (auto simp: between_rounds_def grown_def started_answered_def answered_def)
  have r: "round_ok c env turn a0 (api_round c env i turn account a)" unfolding api_round_def using m by (rule account_round)
  show ?case
  proof (cases "step > ac_MaxSteps c")
    case True
    then show ?thesis using end_healthy "1.prems" by (simp add: between_rounds_def api_loop.simps [of c env i turn step])
  next
    case False
    show ?thesis
    proof (cases "api_round c env i turn account a")
      case (Over a1)
      then show ?thesis using r False by (simp add: api_loop.simps [of c env i turn step])
    next
      case (Again account1 a1)
      then show ?thesis using "1.IH" [OF False Again] r False by (simp add: api_loop.simps [of c env i turn step])
    qed
  qed
qed

lemma append_plain:
  assumes "healthy env a" "a_late a = None"
  shows "\<exists>b. api_append c env a r = (b, True) \<and> a_records b = a_records a @ [r] \<and> a_late b = None \<and> pool b = insert r (pool a)
    \<and> grown {r_Type r, recordToolResult} c env a b"
proof -
  have "(if en_settles env (a_tick a) then settle_late c env (moment env a) else moment env a) = moment env a"
    using assms(2) by (simp add: settle_late_def)
  then have "a_records (fst (api_append c env a r)) = a_records a @ [r]"
    using assms write_healthy [of env "moment env a" c r] by (simp add: api_append_def Let_def)
  then show ?thesis using append_healthy [OF assms(1), of c r] assms(2) by auto
qed

lemma settle_healthy:
  assumes h: "healthy env a"
  shows "grown {recordToolResult} c env a (settle_late c env a) \<and> a_late (settle_late c env a) = None"
proof (cases "a_late a")
  case (Some q)
  have "healthy env (moment env (a\<lparr>a_late := None\<rparr>))" "r_Type q = recordToolResult" using h Some by (simp_all add: healthy_def)
  then show ?thesis using Some h write_healthy [of env "moment env (a\<lparr>a_late := None\<rparr>)" c q]
    by (auto simp: settle_late_def grown_def healthy_def pool_def lines_of_def)
qed (simp add: settle_late_def h)

lemma started_healthy:
  assumes h: "healthy env a" and l: "a_late a = None" and c: "started_answered a"
    and s: "startAPITurn c env a turn input = (a1, True)"
  shows "between_rounds c env a1 a1 \<and> last_open (a_records a1) = turn
    \<and> (\<exists>new. a_records a1 = a_records a @ new \<and> t_bytes (a_store a1) = t_bytes (a_store a) @ lines_of (ac_enc c) new)"
proof -
  let ?start = "blank recordTurnStart turn" and ?user = "(blank recordUser turn)\<lparr>r_Text := input\<rparr>"
  let ?a = "a\<lparr>a_cancelled := False\<rparr>"
  have t: "healthy env ?a" "a_late ?a = None" "r_Type ?start = recordTurnStart" "r_Turn ?start = turn" "r_Type ?user = recordUser"
    using h l by (simp_all add: blank_def)
  obtain a2 where a2: "api_append c env ?a ?start = (a2, True)" "a_records a2 = a_records a @ [?start]" "a_late a2 = None"
      "grown {recordTurnStart, recordToolResult} c env a a2"
    using append_plain [OF t(1,2), of c ?start] t(3) by auto
  obtain a3 where a3: "api_append c env a2 ?user = (a3, True)" "a_records a3 = a_records a2 @ [?user]" "a_late a3 = None"
      "grown {recordUser, recordToolResult} c env a2 a3"
    using append_plain [OF grown_healthy [OF a2(4)] a2(3), of c ?user] t(5) by auto
  have eq: "a1 = a3" using s a2(1) a3(1) by (auto simp: startAPITurn_def api_begin_def split: if_splits)
  have "started_answered a3" using grown_calls [OF a3(4)] grown_calls [OF a2(4)] c by simp
  then have "between_rounds c env a3 a3" using grown_healthy [OF a3(4)] a3(3) by (simp add: between_rounds_def)
  moreover have "last_open (a_records a3) = turn" using a2(2) a3(2) t(3-5) by (simp add: last_open_def)
  moreover have "grown {recordTurnStart, recordUser, recordToolResult} c env a a3"
    using grown_trans [OF grown_mono [OF a2(4)] grown_mono [OF a3(4)], of "{recordTurnStart, recordUser, recordToolResult}"] by simp
  ultimately show ?thesis unfolding eq by (auto simp: grown_def)
qed

text \<open>
  C10. A turn that could be recorded leaves nothing uncertain. From a history whose started calls all have results, with every
  write succeeding, the turn's records and nothing else are added to the history and, line for line, to the file; and
  once a call still running when the turn stopped has recorded its result, reopening the conversation finds no interrupted
  turn and no call of unknown outcome, however the turn ended.
\<close>

theorem api_turn_settles:
  assumes h: "healthy env a" and l: "a_late a = None" and c: "started_answered a"
    and s: "startAPITurn c env a turn input = (a1, True)" and f: "b = settle_late c env (runAPITurn c env i turn a1)"
  shows "snd (recoverTranscript (a_records b)) = \<lparr>rec_TurnID = [], rec_UnknownOutcomes = []\<rparr>
    \<and> (\<exists>new. a_records b = a_records a @ new \<and> t_bytes (a_store b) = t_bytes (a_store a) @ lines_of (ac_enc c) new)"
proof -
  obtain new1 where a1: "between_rounds c env a1 a1" "last_open (a_records a1) = turn" "a_records a1 = a_records a @ new1"
      "t_bytes (a_store a1) = t_bytes (a_store a) @ lines_of (ac_enc c) new1"
    using started_healthy [OF h l c s] by blast
  let ?r = "runAPITurn c env i turn a1"
  have r: "turn_over c env turn a1 ?r" unfolding runAPITurn_def using a1(1) by (rule loop_over)
  have g: "grown {recordToolResult} c env ?r b" "a_late b = None"
    using settle_healthy r grown_healthy f by (auto simp: turn_over_def)
  have "grown turn_types c env ?r b" by (rule grown_mono [OF g(1)]) (simp add: turn_types_def)
  then have "grown turn_types c env a1 b" using r grown_trans [of turn_types c env a1 ?r b] by (simp add: turn_over_def)
  then obtain new2 where n: "a_records b = a_records a1 @ new2" "\<forall>x\<in>set new2. r_Type x \<in> turn_types"
      "t_bytes (a_store b) = t_bytes (a_store a1) @ lines_of (ac_enc c) new2"
    by (auto simp: grown_def)
  have "r_Type x \<noteq> recordTurnStart" if "x \<in> set new2" for x using n(2) that by (force simp: turn_types_def)
  then have o: "last_open (a_records b) = turn" using last_open_append [of new2 "a_records a1"] n(1) a1(2) by simp
  have "turn_ended (a_records ?r) turn" using r by (simp add: turn_over_def)
  then have e: "turn_ended (a_records b) turn" using g(1) by (auto simp: grown_def turn_ended_def)
  have "started_answered b" using grown_calls [OF g(1)] r by (simp add: turn_over_def)
  then have "fst (callStates (a_records b)) k \<noteq> None" if "k \<in> snd (callStates (a_records b))" for k
    using that g(2) unfolding started_iff result_none started_answered_def answered_def pool_def by auto
  then have "snd (recoverTranscript (a_records b)) = \<lparr>rec_TurnID = [], rec_UnknownOutcomes = []\<rparr>"
    using o e by (intro recover_certain) simp_all
  then show ?thesis using n a1(3,4) by (auto simp: lines_of_def)
qed

section \<open>A turn at work\<close>

text \<open>An endpoint that asks for a call while the history ends with the user's input and then answers; a disk that writes.\<close>

definition demo_complete :: "message list \<Rightarrow> completion_result" where
  "demo_complete ms =
     \<lparr>cr_Content = ''ok'', cr_ToolCalls = (if ms \<noteq> [] \<and> m_Role (last ms) = ''user'' then [demo_call ''a''] else []), cr_Replay = [],
      cr_Usage = no_usage, cr_err = None\<rparr>"

definition demo_out :: tool_outcome where
  "demo_out = \<lparr>o_code = [], o_unknown = False, o_text = ''written'', o_isError = False, o_ran = True, o_reason = []\<rparr>"

definition demo_env :: environment where
  "demo_env = \<lparr>en_write = (\<lambda>_. Written), en_complete = (\<lambda>_. demo_complete), en_stopped = (\<lambda>_. False),
     en_call = (\<lambda>_ _. \<lparr>ex_refusal = None, ex_outcome = demo_out, ex_stopped = False, ex_picked = False\<rparr>),
     en_settles = (\<lambda>_. False), en_closed = (\<lambda>_. False), en_stuck = (\<lambda>_. False), en_world = (\<lambda>_ s. s)\<rparr>"

definition demo_api :: loop_config where
  "demo_api = \<lparr>ac_enc = demo_enc, ac_system = [], ac_resultLimit = 1000, ac_MaxSteps = 3, ac_workspace = False\<rparr>"

definition demo_state :: api_state where
  "demo_state = \<lparr>a_store = \<lparr>t_bytes = [], t_closed = False\<rparr>, a_records = [], a_responses = 0, a_stopping = False, a_cancelled = False,
     a_late = None, a_session = demo_started, a_tick = 0, a_requests = 0, a_handed = []\<rparr>"

lemma demo_healthy: "healthy demo_env demo_state" "a_late demo_state = None" "started_answered demo_state"
  by (simp_all add: healthy_def demo_env_def demo_state_def started_answered_def pool_def)

text \<open>A world in which another goroutine fails the session at the third moment and is slow to end the turn.\<close>

definition demo_failing :: environment where
  "demo_failing = demo_env\<lparr>en_world := (\<lambda>n s. if n = 2 then failTurn_mark s None ErrTransport else s)\<rparr>"

theorem api_turn_ends_witness:
  "a_requests (runAPITurn demo_api demo_failing 0 ''t1'' demo_state) \<le> 3
   \<and> (tu_finished (turn_of (a_session (runAPITurn demo_api demo_failing 0 ''t1'' demo_state)) 0)
       \<or> (\<exists>err. EndTurn (Some 0) err \<in> set (se_endings (a_session (runAPITurn demo_api demo_failing 0 ''t1'' demo_state)))))"
proof -
  have r: "reachable_from fresh_session (session_step demo_config) (a_session demo_state)" "0 < length (se_turns (a_session demo_state))"
    using demo_session_reachable(2) by (simp_all add: demo_state_def demo_session_defs)
  have w: "(session_step demo_config)\<^sup>*\<^sup>* s (en_world demo_failing n s)" for n s
    using session_step.failing [of demo_config s None ErrTransport] by (auto simp: demo_failing_def)
  show ?thesis using api_turn_ends [OF r w, of demo_api "''t1''"] by (simp add: demo_state_def demo_api_def)
qed

theorem api_calls_recorded_first_witness:
  "\<exists>new. a_records (runAPITurn demo_api demo_env 0 ''t1'' demo_state) = new
    \<and> a_handed (runAPITurn demo_api demo_env 0 ''t1'' demo_state) = map r_key (filter (\<lambda>r. r_Type r = recordToolCall) new)"
  using api_calls_recorded_first [OF demo_healthy(2), of demo_api demo_env 0 "''t1''"] by (simp add: demo_state_def)

theorem api_turn_settles_witness:
  "\<exists>a1. startAPITurn demo_api demo_env demo_state ''t1'' ''go'' = (a1, True)
    \<and> snd (recoverTranscript (a_records (settle_late demo_api demo_env (runAPITurn demo_api demo_env 0 ''t1'' a1))))
        = \<lparr>rec_TurnID = [], rec_UnknownOutcomes = []\<rparr>"
proof -
  obtain a1 ok where a1: "startAPITurn demo_api demo_env demo_state ''t1'' ''go'' = (a1, ok)" by fastforce
  then have ok by (auto simp: startAPITurn_def api_begin_def api_append_def api_write_def append_record_def Let_def
      demo_state_def demo_env_def moment_def)
  then show ?thesis using api_turn_settles [OF demo_healthy _ refl, of demo_api "''t1''" "''go''" a1 0] a1 by auto
qed

end
