(* ===== verification/Event_Stream.thy ===== *)
theory Event_Stream
  imports Go_Strings Failures
begin

text \<open>
  Server-sent events as \<open>readEvents\<close> of internal/apihttp/stream.go reads them: lines of a bounded body, the data of an event
  gathered until a blank line, up to the stream's \<open>[DONE]\<close>. The reader's callback is an argument with its own state.
\<close>

section \<open>Reading\<close>

text \<open>How the body ends after its last byte: at its end, or with a transport's error.\<close>

datatype body_end = BodyEOF | BodyError

datatype 'e stream_end = StreamDone | StreamIncomplete | OutputLimit | EventError 'e | ReadFailed

abbreviation newline :: char where "newline \<equiv> CHR 0x0A"

text \<open>\<open>ReadBytes\<close>: the next line with its newline, the rest, and whether the body ended first.\<close>

fun read_line :: "string \<Rightarrow> string \<times> string \<times> bool" where
  "read_line [] = ([], [], True)"
| "read_line (c # cs) = (if c = newline then ([newline], cs, False) else case read_line cs of (l, rest, eof) \<Rightarrow> (c # l, rest, eof))"

lemma read_line_rest: "read_line s = (l, rest, eof) \<Longrightarrow> \<not> eof \<Longrightarrow> length rest < length s"
  by (induction s arbitrary: l rest eof) (fastforce split: if_splits prod.splits)+

definition trim_newline :: "string \<Rightarrow> string" where
  "trim_newline l = rev (dropWhile (\<lambda>c. c = newline \<or> c = CHR 0x0D) (rev l))"

definition data_prefix :: string where
  "data_prefix = ''data:''"

text \<open>The value of a \<open>data:\<close> line, with one leading space removed.\<close>

definition data_value :: "string \<Rightarrow> string" where
  "data_value l = (let v = drop (length data_prefix) l in case v of [] \<Rightarrow> [] | c # cs \<Rightarrow> if c = CHR '' '' then cs else v)"

definition done_marker :: string where
  "done_marker = ''[DONE]''"

text \<open>What one line does: end the stream, or leave the data gathered so far, whether there is any, and the callback's state.\<close>

definition sse_line ::
  "(string \<Rightarrow> 's \<Rightarrow> 'e + 's) \<Rightarrow> string \<Rightarrow> string \<Rightarrow> bool \<Rightarrow> 's \<Rightarrow> 'e stream_end + (string \<times> bool \<times> 's)" where
  "sse_line onEvent l data pending st =
     (if l = [] \<and> pending then
        (if data = done_marker then Inl StreamDone
         else case onEvent data st of Inl e \<Rightarrow> Inl (EventError e) | Inr st' \<Rightarrow> Inr ([], False, st'))
      else if prefix data_prefix l then
        Inr ((if pending then data @ [newline] else data) @ data_value l, True, st)
      else Inr (data, pending, st))"

function read_events ::
  "int \<Rightarrow> body_end \<Rightarrow> (string \<Rightarrow> 's \<Rightarrow> 'e + 's) \<Rightarrow> string \<Rightarrow> int \<Rightarrow> string \<Rightarrow> bool \<Rightarrow> 's \<Rightarrow> 's \<times> 'e stream_end" where
  "read_events limit ending onEvent body read data pending st =
     (case read_line body of (line, rest, eof) \<Rightarrow>
       if read + int (length line) > limit then (st, OutputLimit)
       else case sse_line onEvent (trim_newline line) data pending st of
         Inl e \<Rightarrow> (st, e)
       | Inr (data', pending', st') \<Rightarrow>
           if \<not> eof then read_events limit ending onEvent rest (read + int (length line)) data' pending' st'
           else case ending of
             BodyEOF \<Rightarrow> (st', if pending' \<and> data' = done_marker then StreamDone else StreamIncomplete)
           | BodyError \<Rightarrow> (st', ReadFailed))"
  by pat_completeness auto
termination
  by (relation "measure (\<lambda>(limit, ending, onEvent, body, read, data, pending, st). length body)")
    (auto dest: read_line_rest [OF sym])

declare read_events.simps [simp del]

text \<open>\<open>readEvents\<close> behind the \<open>LimitReader\<close> of \<open>Stream\<close>, which passes one byte more than the limit and then ends.\<close>

definition readEvents :: "int \<Rightarrow> body_end \<Rightarrow> (string \<Rightarrow> 's \<Rightarrow> 'e + 's) \<Rightarrow> string \<Rightarrow> 's \<Rightarrow> 's \<times> 'e stream_end" where
  "readEvents limit ending onEvent body st =
     (if int (length body) \<le> limit then read_events limit ending onEvent body 0 [] False st
      else read_events limit BodyEOF onEvent (take (nat (limit + 1)) body) 0 [] False st)"

section \<open>Sending\<close>

text \<open>An event as a server sends it: each line of its data on a \<open>data:\<close> line, then a blank line.\<close>

definition data_line :: "string \<Rightarrow> string" where
  "data_line l = data_prefix @ CHR '' '' # l @ [newline]"

definition encode_event :: "string \<Rightarrow> string" where
  "encode_event e = concat (map data_line (strings_Split e newline)) @ [newline]"

definition encode_stream :: "string list \<Rightarrow> string" where
  "encode_stream es = concat (map encode_event es) @ encode_event done_marker"

fun deliver :: "('x \<Rightarrow> 's \<Rightarrow> 'e + 's) \<Rightarrow> 'x list \<Rightarrow> 's \<Rightarrow> 'e + 's" where
  "deliver onEvent [] st = Inr st"
| "deliver onEvent (e # es) st = (case onEvent e st of Inl err \<Rightarrow> Inl err | Inr st' \<Rightarrow> deliver onEvent es st')"

section \<open>What is sent is what is read\<close>

lemma read_line_append: "newline \<notin> set l \<Longrightarrow> read_line (l @ newline # rest) = (l @ [newline], rest, False)"
  by (induction l) auto

lemma trim_line: "newline \<notin> set l \<Longrightarrow> CHR 0x0D \<notin> set l \<Longrightarrow> trim_newline (l @ [newline]) = l"
  by (cases l rule: rev_cases) (auto simp: trim_newline_def)

lemma data_value_line: "data_value (data_prefix @ CHR '' '' # l) = l"
  by (simp add: data_value_def Let_def)

lemma data_line_trimmed:
  "newline \<notin> set l \<Longrightarrow> CHR 0x0D \<notin> set l \<Longrightarrow>
     read_line (data_line l @ rest) = (data_line l, rest, False) \<and> trim_newline (data_line l) = data_prefix @ CHR '' '' # l"
  using read_line_append [of "data_prefix @ CHR '' '' # l" rest] trim_line [of "data_prefix @ CHR '' '' # l"]
  by (auto simp: data_line_def data_prefix_def)

lemma read_data_line:
  assumes "newline \<notin> set l" "CHR 0x0D \<notin> set l" "read + int (length (data_line l)) \<le> limit"
  shows "read_events limit ending onEvent (data_line l @ rest) read data pending st =
    read_events limit ending onEvent rest (read + int (length (data_line l))) ((if pending then data @ [newline] else data) @ l) True st"
  using data_line_trimmed [OF assms(1,2), of rest] assms(3)
  by (simp add: read_events.simps [of limit ending onEvent "data_line l @ rest"] sse_line_def data_value_line)

text \<open>The lines of one event, read with data already gathered.\<close>

lemma read_more_lines:
  "\<forall>l\<in>set ls. newline \<notin> set l \<and> CHR 0x0D \<notin> set l \<Longrightarrow> read + int (length (concat (map data_line ls))) \<le> limit \<Longrightarrow>
     read_events limit ending onEvent (concat (map data_line ls) @ rest) read data True st =
     read_events limit ending onEvent rest (read + int (length (concat (map data_line ls))))
       (data @ concat (map (\<lambda>l. newline # l) ls)) True st"
proof (induction ls arbitrary: read data)
  case (Cons l ls)
  then show ?case
    using read_data_line [of l read limit ending onEvent "concat (map data_line ls) @ rest" data True st]
    by (simp add: add.assoc)
qed simp

lemma Join_lines: "ls \<noteq> [] \<Longrightarrow> strings_Join ls [s] = hd ls @ concat (map (\<lambda>l. s # l) (tl ls))"
  by (induction ls "[s]" rule: strings_Join.induct) auto

lemma Split_subset: "p \<in> set (strings_Split s sep) \<Longrightarrow> set p \<subseteq> set s"
proof (induction s arbitrary: p)
  case (Cons c s)
  then obtain q qs where q: "strings_Split s sep = q # qs" using Split_nonempty by (cases "strings_Split s sep") auto
  then have "set q \<subseteq> set s" "\<And>p. p \<in> set qs \<Longrightarrow> set p \<subseteq> set s" using Cons.IH by simp_all
  then show ?case using Cons.prems q by (force split: if_splits)
qed simp

lemma read_event_lines:
  assumes "CHR 0x0D \<notin> set e" "read + int (length (encode_event e)) \<le> limit"
  shows "read_events limit ending onEvent (encode_event e @ rest) read [] False st =
    read_events limit ending onEvent (newline # rest) (read + int (length (encode_event e)) - 1) e True st"
proof -
  define ls where "ls = strings_Split e newline"
  have ls: "ls \<noteq> []" "strings_Join ls [newline] = e" using Join_Split by (simp_all add: ls_def)
  have ok: "\<forall>l\<in>set ls. newline \<notin> set l \<and> CHR 0x0D \<notin> set l"
    using Split_pieces [of _ e newline] Split_subset [of _ e newline] assms(1) by (auto simp: ls_def)
  obtain l more where c: "ls = l # more" using ls(1) by (cases ls) auto
  have e: "e = l @ concat (map (\<lambda>x. newline # x) more)" using Join_lines [OF ls(1)] ls(2) c by simp
  have "encode_event e = data_line l @ concat (map data_line more) @ [newline]" by (simp add: encode_event_def ls_def [symmetric] c)
  then show ?thesis using assms(2) ok c e
    by (simp add: read_data_line read_more_lines add.assoc)
qed

lemma read_blank:
  "read + 1 \<le> limit \<Longrightarrow> read_events limit ending onEvent (newline # rest) read data True st =
     (if data = done_marker then (st, StreamDone)
      else case onEvent data st of Inl e \<Rightarrow> (st, EventError e)
        | Inr st' \<Rightarrow> read_events limit ending onEvent rest (read + 1) [] False st')"
  by (auto simp: read_events.simps [of limit ending onEvent "newline # rest"] sse_line_def trim_newline_def split: sum.split)

lemma encode_nonempty: "length (encode_event e) \<ge> 1"
  by (simp add: encode_event_def)

lemma read_event:
  assumes "CHR 0x0D \<notin> set e" "read + int (length (encode_event e)) \<le> limit"
  shows "read_events limit ending onEvent (encode_event e @ rest) read [] False st =
    (if e = done_marker then (st, StreamDone)
     else case onEvent e st of Inl err \<Rightarrow> (st, EventError err)
       | Inr st' \<Rightarrow> read_events limit ending onEvent rest (read + int (length (encode_event e))) [] False st')"
  using read_event_lines [OF assms, of ending onEvent rest st]
    read_blank [of "read + int (length (encode_event e)) - 1" limit ending onEvent rest e st] assms(2)
  by (auto split: sum.split)

lemma read_stream:
  "\<forall>e\<in>set es. CHR 0x0D \<notin> set e \<and> e \<noteq> done_marker \<Longrightarrow> read + int (length (encode_stream es)) \<le> limit \<Longrightarrow>
     deliver onEvent es st = Inr st' \<Longrightarrow>
     read_events limit ending onEvent (encode_stream es @ rest) read [] False st = (st', StreamDone)"
proof (induction es arbitrary: read st)
  case Nil
  then show ?case using read_event [of done_marker read limit ending onEvent rest st]
    by (auto simp: encode_stream_def done_marker_def)
next
  case (Cons e es)
  obtain s1 where s1: "onEvent e st = Inr s1" "deliver onEvent es s1 = Inr st'"
    using Cons.prems(3) by (auto split: sum.splits)
  have split: "encode_stream (e # es) = encode_event e @ encode_stream es" by (simp add: encode_stream_def)
  have "read + int (length (encode_event e)) \<le> limit" using Cons.prems(2) split by simp
  then show ?case
    using read_event [of e read limit ending onEvent "encode_stream es @ rest" st] Cons.prems s1 split
      Cons.IH [of "read + int (length (encode_event e))" s1] by (simp add: add.assoc)
qed

text \<open>
  A stream that is sent is the stream that is read. Whatever events a server sends, data of several lines included, as
  long as they hold no carriage return and the stream fits the limit, the reader is handed exactly those events' data, in
  order, and then told that the stream finished; what follows \<open>[DONE]\<close> and how the connection ends change nothing.
\<close>

theorem event_stream_roundtrip:
  assumes "\<forall>e\<in>set es. CHR 0x0D \<notin> set e \<and> e \<noteq> done_marker"
    and "int (length (encode_stream es @ rest)) \<le> limit" and "deliver onEvent es st = Inr st'"
  shows "readEvents limit ending onEvent (encode_stream es @ rest) st = (st', StreamDone)"
  using read_stream [of es 0 limit onEvent st st' ending rest] assms by (simp add: readEvents_def)

theorem event_stream_roundtrip_witness:
  "readEvents 100 BodyError (\<lambda>e seen. Inr (seen @ [e]) :: unit + string list) (encode_stream [''a'' @ [newline] @ ''b'', ''c'']) []
     = ([''a'' @ [newline] @ ''b'', ''c''], StreamDone)"
proof -
  have "int (length (encode_stream [''a'' @ [newline] @ ''b'', ''c''] @ [])) \<le> 100"
    by (simp add: encode_stream_def encode_event_def data_line_def data_prefix_def done_marker_def)
  then show ?thesis
    using event_stream_roundtrip [of "[''a'' @ [newline] @ ''b'', ''c'']" "[]" 100
        "\<lambda>e seen. Inr (seen @ [e]) :: unit + string list" "[]" "[''a'' @ [newline] @ ''b'', ''c'']" BodyError]
    by (simp add: done_marker_def)
qed

end
