(* ===== verification/Chat.thy ===== *)
theory Chat
  imports Event_Stream Transcript Json_Text
begin

text \<open>
  The Chat Completions dialect (completion/openai_chat.go, completion/openai_stream.go, completion/replay.go): the history as it is
  sent, a streamed response assembled into the shape of a whole one, the one set of rules that judges both, and the
  provider state that travels back with a message. JSON texts are strings; decoding a document into the records below, and
  encoding and decoding the replay envelope, are arguments, with what encoding/json makes of the envelopes built here as a named law.
\<close>

section \<open>A streamed response\<close>

record call_delta =
  fd_Index :: "int option"
  fd_ID :: string
  fd_Type :: string
  fd_Name :: string
  fd_Arguments :: string
  fd_Extra :: string

record chat_delta =
  ch_Index :: int
  ch_Content :: "string option"
  ch_ReasoningContent :: "string option"
  ch_ReasoningDetails :: "string list"
  ch_Refusal :: "string option"
  ch_ToolCalls :: "call_delta list"
  ch_FinishReason :: "string option"

record chat_chunk =
  ck_Choices :: "chat_delta list"
  ck_Usage :: string
  ck_Error :: string

record streamed_call =
  sc_id :: string
  sc_kind :: string
  sc_name :: string
  sc_arguments :: string
  sc_extra :: string

definition no_call :: streamed_call where
  "no_call = \<lparr>sc_id = [], sc_kind = [], sc_name = [], sc_arguments = [], sc_extra = []\<rparr>"

text \<open>A builder that was never written to is \<open>None\<close>: its \<open>saw\<close> flag.\<close>

record chat_stream =
  cs_content :: "string option"
  cs_reasoning :: "string option"
  cs_refusal :: "string option"
  cs_details :: "string list"
  cs_calls :: "streamed_call list"
  cs_finish :: "string option"
  cs_usage :: string
  cs_failure :: string
  cs_sawChoice :: bool

definition empty_stream :: chat_stream where
  "empty_stream = \<lparr>cs_content = None, cs_reasoning = None, cs_refusal = None, cs_details = [], cs_calls = [], cs_finish = None,
     cs_usage = [], cs_failure = [], cs_sawChoice = False\<rparr>"

definition maxStreamedCalls :: int where
  "maxStreamedCalls = 64"

definition written :: "string option \<Rightarrow> string option \<Rightarrow> string option" where
  "written sofar piece = (case piece of None \<Rightarrow> sofar | Some p \<Rightarrow> Some (case sofar of None \<Rightarrow> p | Some s \<Rightarrow> s @ p))"

definition merge_call :: "streamed_call \<Rightarrow> call_delta \<Rightarrow> streamed_call" where
  "merge_call call f = \<lparr>sc_id = sc_id call @ fd_ID f, sc_kind = sc_kind call @ fd_Type f, sc_name = sc_name call @ fd_Name f,
     sc_arguments = sc_arguments call @ fd_Arguments f, sc_extra = (if Absent (fd_Extra f) then sc_extra call else fd_Extra f)\<rparr>"

text \<open>The loop that opens calls up to the fragment's index.\<close>

definition open_calls :: "nat \<Rightarrow> streamed_call list \<Rightarrow> streamed_call list" where
  "open_calls n calls = calls @ replicate (Suc n - length calls) no_call"

definition addCall :: "chat_stream \<Rightarrow> call_delta \<Rightarrow> string + chat_stream" where
  "addCall s f =
     (case fd_Index f of
        None \<Rightarrow> Inl ''invalid_tool_call''
      | Some i \<Rightarrow>
          if i < 0 \<or> i \<ge> maxStreamedCalls then Inl ''invalid_tool_call''
          else let calls = open_calls (nat i) (cs_calls s)
               in Inr (s\<lparr>cs_calls := calls[nat i := merge_call (calls ! nat i) f]\<rparr>))"

fun addCalls :: "chat_stream \<Rightarrow> call_delta list \<Rightarrow> string + chat_stream" where
  "addCalls s [] = Inr s"
| "addCalls s (f # fs) = (case addCall s f of Inl e \<Rightarrow> Inl e | Inr s' \<Rightarrow> addCalls s' fs)"

definition add_choice :: "chat_stream \<Rightarrow> chat_delta \<Rightarrow> string + chat_stream" where
  "add_choice s choice =
     (if ch_Index choice \<noteq> 0 then Inl ''unexpected_choice_count''
      else case addCalls (s\<lparr>cs_sawChoice := True, cs_content := written (cs_content s) (ch_Content choice),
                  cs_reasoning := written (cs_reasoning s) (ch_ReasoningContent choice),
                  cs_refusal := written (cs_refusal s) (ch_Refusal choice),
                  cs_details := cs_details s @ ch_ReasoningDetails choice\<rparr>) (ch_ToolCalls choice) of
          Inl e \<Rightarrow> Inl e
        | Inr s1 \<Rightarrow>
           (case ch_FinishReason choice of
              None \<Rightarrow> Inr s1
            | Some reason \<Rightarrow> if cs_finish s1 \<noteq> None then Inl ''ambiguous_terminal_state'' else Inr (s1\<lparr>cs_finish := Some reason\<rparr>)))"

fun add_choices :: "chat_stream \<Rightarrow> chat_delta list \<Rightarrow> string + chat_stream" where
  "add_choices s [] = Inr s"
| "add_choices s (c # cs) = (case add_choice s c of Inl e \<Rightarrow> Inl e | Inr s' \<Rightarrow> add_choices s' cs)"

text \<open>\<open>add\<close> on a decoded event; \<open>None\<close> is an event that is no chunk.\<close>

definition chatStream_add :: "chat_chunk option \<Rightarrow> chat_stream \<Rightarrow> string + chat_stream" where
  "chatStream_add chunk s =
     (case chunk of
        None \<Rightarrow> Inl ''malformed_response''
      | Some c \<Rightarrow>
          if \<not> Absent (ck_Error c) then Inr (s\<lparr>cs_failure := ck_Error c\<rparr>)
          else add_choices (if Absent (ck_Usage c) then s else s\<lparr>cs_usage := ck_Usage c\<rparr>) (ck_Choices c))"

section \<open>A whole response\<close>

record reply_call =
  rc_ID :: string
  rc_Type :: string
  rc_Function :: "(string \<times> string) option"
  rc_Extra :: string

text \<open>\<open>rp_Content\<close> is absent, or a JSON value that is a string or is not.\<close>

datatype content = NoContent | TextContent string | OtherContent

record chat_reply =
  rp_Role :: string
  rp_Content :: content
  rp_Refusal :: "string option"
  rp_ToolCalls :: "reply_call list"
  rp_ReasoningContent :: string
  rp_ReasoningDetails :: string

record chat_response =
  rs_Error :: string
  rs_Choices :: "(string option \<times> chat_reply option) list"
  rs_Usage :: string

text \<open>\<open>response\<close> and \<open>reply\<close> of a stream; \<open>quote\<close> and \<open>array\<close> are \<open>rawJSON\<close> of a string and of raw values.\<close>

definition stream_reply :: "(string \<Rightarrow> string) \<Rightarrow> (string list \<Rightarrow> string) \<Rightarrow> chat_stream \<Rightarrow> chat_reply" where
  "stream_reply quote array s =
     \<lparr>rp_Role = ''assistant'',
      rp_Content = (case cs_content s of None \<Rightarrow> NoContent | Some t \<Rightarrow> TextContent t),
      rp_Refusal = cs_refusal s,
      rp_ToolCalls = map (\<lambda>c. \<lparr>rc_ID = sc_id c, rc_Type = sc_kind c, rc_Function = Some (sc_name c, sc_arguments c), rc_Extra = sc_extra c\<rparr>) (cs_calls s),
      rp_ReasoningContent = (case cs_reasoning s of None \<Rightarrow> [] | Some t \<Rightarrow> quote t),
      rp_ReasoningDetails = (if cs_details s = [] then [] else array (cs_details s))\<rparr>"

definition stream_response :: "(string \<Rightarrow> string) \<Rightarrow> (string list \<Rightarrow> string) \<Rightarrow> chat_stream \<Rightarrow> chat_response" where
  "stream_response quote array s =
     \<lparr>rs_Error = cs_failure s,
      rs_Choices = (if cs_sawChoice s then [(cs_finish s, Some (stream_reply quote array s))] else []),
      rs_Usage = cs_usage s\<rparr>"

definition finishFailure :: "string option \<Rightarrow> nat \<Rightarrow> string" where
  "finishFailure reason calls =
     (case reason of
        None \<Rightarrow> ''ambiguous_terminal_state''
      | Some r \<Rightarrow>
          if r = ''stop'' \<or> r = ''tool_calls'' \<and> calls > 0 then []
          else if r = ''length'' then ''output_truncated''
          else if r = ''content_filter'' then ''content_filtered''
          else ''ambiguous_terminal_state'')"

definition apiToolCallIDLimit :: nat where "apiToolCallIDLimit = 256"
definition maxToolProposals :: nat where "maxToolProposals = 16"

section \<open>Replay\<close>

record replay =
  rep_For :: string
  rep_Fields :: "(string \<times> string) list"

definition messageReplayFields :: "string list" where
  "messageReplayFields = [''reasoning_content'', ''reasoning_details'']"

definition callReplayFields :: "string list" where
  "callReplayFields = [''extra_content'']"

text \<open>\<open>captureReplay\<close>: \<open>raw\<close> are the fields by name; nil is the empty string.\<close>

definition captureReplay :: "(replay \<Rightarrow> string) \<Rightarrow> string \<Rightarrow> (string \<times> string) list \<Rightarrow> string list \<Rightarrow> string" where
  "captureReplay marshal binding raw names =
     (let field = (\<lambda>n. case map_of raw n of None \<Rightarrow> [] | Some v \<Rightarrow> v);
          fields = map (\<lambda>n. (n, field n)) (filter (\<lambda>n. \<not> Absent (field n)) names)
      in if length fields = 0 then [] else marshal \<lparr>rep_For = binding, rep_Fields = fields\<rparr>)"

definition openReplay :: "(string \<Rightarrow> replay option) \<Rightarrow> string \<Rightarrow> string \<Rightarrow> string list \<Rightarrow> (string \<times> string) list option" where
  "openReplay unmarshal raw binding names =
     (if length raw = 0 then Some []
      else case unmarshal raw of
        None \<Rightarrow> None
      | Some r \<Rightarrow>
          if rep_For r \<noteq> binding \<or> length (rep_Fields r) = 0 \<or> \<not> list_all (\<lambda>(n, v). n \<in> set names) (rep_Fields r) then None
          else Some (rep_Fields r))"

definition carriesReplay :: "message list \<Rightarrow> bool" where
  "carriesReplay ms = list_ex (\<lambda>m. length (m_Replay m) > 0 \<or> list_ex (\<lambda>c. length (tc_Replay c) > 0) (m_ToolCalls m)) ms"

section \<open>Judging a response\<close>

text \<open>\<open>toolCatalog\<close> of completion/codex.go: a tool is its type and name; a refused catalog allows nothing.\<close>

fun toolCatalog :: "string set \<Rightarrow> (string \<times> string) list \<Rightarrow> string set option" where
  "toolCatalog seen [] = Some seen"
| "toolCatalog seen ((type, name) # tools) =
     (if type \<noteq> ''function'' \<or> name = [] \<or> name \<in> seen then None else toolCatalog (insert name seen) tools)"

definition catalog_allows :: "(string \<times> string) list \<Rightarrow> string \<Rightarrow> bool" where
  "catalog_allows tools name = (case toolCatalog {} tools of None \<Rightarrow> False | Some names \<Rightarrow> name \<in> names)"

text \<open>One call of a reply; \<open>jsonObject\<close> is whether the arguments are a JSON object, \<open>allowed\<close> the catalog's names.\<close>

definition call_refused :: "(string \<Rightarrow> bool) \<Rightarrow> (string \<Rightarrow> bool) \<Rightarrow> string set \<Rightarrow> reply_call \<Rightarrow> bool" where
  "call_refused jsonObject allowed seen call \<longleftrightarrow>
     rc_Type call \<noteq> ''function'' \<or> rc_Function call = None \<or> rc_ID call = [] \<or> length (rc_ID call) > apiToolCallIDLimit
     \<or> rc_ID call \<in> seen \<or> \<not> allowed (fst (the (rc_Function call))) \<or> \<not> jsonObject (snd (the (rc_Function call)))"

fun proposals :: "(string \<Rightarrow> bool) \<Rightarrow> (string \<Rightarrow> bool) \<Rightarrow> (replay \<Rightarrow> string) \<Rightarrow> string \<Rightarrow> string set \<Rightarrow> reply_call list \<Rightarrow> tool_call list option" where
  "proposals jsonObject allowed marshal binding seen [] = Some []"
| "proposals jsonObject allowed marshal binding seen (call # calls) =
     (if call_refused jsonObject allowed seen call then None
      else map_option ((#) \<lparr>tc_ID = rc_ID call, tc_Type = ''function'', tc_Name = fst (the (rc_Function call)),
               tc_Arguments = snd (the (rc_Function call)),
               tc_Replay = captureReplay marshal binding [(''extra_content'', rc_Extra call)] callReplayFields\<rparr>)
        (proposals jsonObject allowed marshal binding (insert (rc_ID call) seen) calls))"

text \<open>
  \<open>parseChatCompletion\<close> on a decoded response, \<open>None\<close> being no single JSON document; \<open>embedded\<close> classifies an error inside it.
  A failure is its code; the usage beside it is \<open>chatUsage\<close>'s.
\<close>

definition judge_reply ::
  "(string \<Rightarrow> bool) \<Rightarrow> (string \<Rightarrow> bool) \<Rightarrow> (replay \<Rightarrow> string) \<Rightarrow> string \<Rightarrow> string option \<Rightarrow> chat_reply \<Rightarrow> string + message" where
  "judge_reply jsonObject allowed marshal binding reason m =
     (if rp_Role m \<noteq> [] \<and> rp_Role m \<noteq> ''assistant'' then Inl ''malformed_response''
      else if rp_Refusal m \<noteq> None \<and> rp_Refusal m \<noteq> Some [] then Inl ''model_refusal''
      else if rp_Content m = OtherContent then Inl ''malformed_response''
      else if finishFailure reason (length (rp_ToolCalls m)) \<noteq> [] then Inl (finishFailure reason (length (rp_ToolCalls m)))
      else if length (rp_ToolCalls m) > maxToolProposals then Inl ''invalid_tool_call''
      else case proposals jsonObject allowed marshal binding {} (rp_ToolCalls m) of
        None \<Rightarrow> Inl ''invalid_tool_call''
      | Some calls \<Rightarrow>
          Inr \<lparr>m_Role = ''assistant'', m_Content = (case rp_Content m of TextContent t \<Rightarrow> t | _ \<Rightarrow> []), m_ToolCalls = calls, m_ToolCallID = [],
            m_Replay = captureReplay marshal binding [(''reasoning_content'', rp_ReasoningContent m), (''reasoning_details'', rp_ReasoningDetails m)] messageReplayFields\<rparr>)"

definition parseChatCompletion ::
  "(string \<Rightarrow> bool) \<Rightarrow> (string \<times> string) list \<Rightarrow> (replay \<Rightarrow> string) \<Rightarrow> string \<Rightarrow> (string \<Rightarrow> string) \<Rightarrow> chat_response option \<Rightarrow> string + message" where
  "parseChatCompletion jsonObject tools marshal binding embedded response =
     (case response of
        None \<Rightarrow> Inl ''malformed_response''
      | Some r \<Rightarrow>
          if \<not> Absent (rs_Error r) then Inl (embedded (rs_Error r))
          else (case rs_Choices r of
             [(reason, message)] \<Rightarrow>
               (case message of None \<Rightarrow> Inl ''malformed_response''
                | Some m \<Rightarrow> judge_reply jsonObject (catalog_allows tools) marshal binding reason m)
           | _ \<Rightarrow> Inl ''unexpected_choice_count''))"

section \<open>The history as it is sent\<close>

record wire_call =
  wc_ID :: string
  wc_Type :: string
  wc_Name :: string
  wc_Arguments :: string
  wc_Extra :: "string option"

record wire_message =
  wm_Role :: string
  wm_Content :: "string option"
  wm_ToolCalls :: "wire_call list"
  wm_ToolCallID :: string
  wm_ReasoningContent :: "string option"
  wm_ReasoningDetails :: "string option"

fun wire_calls :: "(string \<Rightarrow> replay option) \<Rightarrow> string \<Rightarrow> tool_call list \<Rightarrow> string + wire_call list" where
  "wire_calls unmarshal binding [] = Inr []"
| "wire_calls unmarshal binding (call # calls) =
     (if tc_Type call \<noteq> ''function'' \<or> tc_ID call = [] \<or> tc_Name call = [] then Inl ''invalid_messages''
      else case openReplay unmarshal (tc_Replay call) binding callReplayFields of
        None \<Rightarrow> Inl ''replay_mismatch''
      | Some extra \<Rightarrow>
         (case wire_calls unmarshal binding calls of
            Inl e \<Rightarrow> Inl e
          | Inr rest \<Rightarrow> Inr (\<lparr>wc_ID = tc_ID call, wc_Type = tc_Type call, wc_Name = tc_Name call, wc_Arguments = tc_Arguments call,
               wc_Extra = map_of extra ''extra_content''\<rparr> # rest)))"

definition message_to_wire :: "(string \<Rightarrow> replay option) \<Rightarrow> string \<Rightarrow> message \<Rightarrow> string + wire_message" where
  "message_to_wire unmarshal binding m =
     (let out = \<lparr>wm_Role = m_Role m, wm_Content = Some (m_Content m), wm_ToolCalls = [], wm_ToolCallID = m_ToolCallID m,
            wm_ReasoningContent = None, wm_ReasoningDetails = None\<rparr>
      in if m_Role m = ''system'' \<or> m_Role m = ''user'' then
           (if length (m_ToolCalls m) > 0 \<or> m_ToolCallID m \<noteq> [] \<or> length (m_Replay m) > 0 then Inl ''invalid_messages'' else Inr out)
         else if m_Role m = ''tool'' then
           (if length (m_ToolCalls m) > 0 \<or> m_ToolCallID m = [] \<or> length (m_Replay m) > 0 then Inl ''invalid_messages'' else Inr out)
         else if m_Role m = ''assistant'' then
           (if m_ToolCallID m \<noteq> [] then Inl ''invalid_messages''
            else case openReplay unmarshal (m_Replay m) binding messageReplayFields of
              None \<Rightarrow> Inl ''replay_mismatch''
            | Some carried \<Rightarrow>
               (case wire_calls unmarshal binding (m_ToolCalls m) of
                  Inl e \<Rightarrow> Inl e
                | Inr calls \<Rightarrow> Inr (out\<lparr>wm_ReasoningContent := map_of carried ''reasoning_content'',
                     wm_ReasoningDetails := map_of carried ''reasoning_details'', wm_ToolCalls := calls,
                     wm_Content := (if length (m_ToolCalls m) > 0 \<and> m_Content m = [] then None else Some (m_Content m))\<rparr>)))
         else Inl ''invalid_messages'')"

fun wire_messages :: "(string \<Rightarrow> replay option) \<Rightarrow> string \<Rightarrow> message list \<Rightarrow> string + wire_message list" where
  "wire_messages unmarshal binding [] = Inr []"
| "wire_messages unmarshal binding (m # ms) =
     (case message_to_wire unmarshal binding m of
        Inl e \<Rightarrow> Inl e
      | Inr w \<Rightarrow> (case wire_messages unmarshal binding ms of Inl e \<Rightarrow> Inl e | Inr ws \<Rightarrow> Inr (w # ws)))"

definition chatMessages :: "(string \<Rightarrow> replay option) \<Rightarrow> string \<Rightarrow> message list \<Rightarrow> string + wire_message list" where
  "chatMessages unmarshal binding ms = (if length ms = 0 then Inl ''invalid_messages'' else wire_messages unmarshal binding ms)"

section \<open>Usage\<close>

record chat_usage_report =
  cu_Prompt :: "int64 option"
  cu_Completion :: "int64 option"
  cu_Total :: "int64 option"
  cu_Cached :: "int64 option"
  cu_Reasoning :: "int64 option"

definition chatUsage :: "chat_usage_report option \<Rightarrow> usage" where
  "chatUsage rep =
     (case rep of
        None \<Rightarrow> no_usage
      | Some u \<Rightarrow>
          if cu_Prompt u = None \<or> cu_Completion u = None then no_usage
          else let usage = CacheInclusive \<lparr>r_Input = cu_Prompt u, r_Output = cu_Completion u, r_CacheRead = cu_Cached u,
                     r_CacheWrite = NoCacheWrite (cu_Cached u), r_Reasoning = cu_Reasoning u\<rparr>
               in (case cu_Total u of
                     Some stated \<Rightarrow> if \<not> Known usage \<or> stated \<noteq> Total usage then no_usage else usage
                   | None \<Rightarrow> usage))"

section \<open>What is accepted\<close>

definition call_fine :: "(string \<Rightarrow> bool) \<Rightarrow> (string \<Rightarrow> bool) \<Rightarrow> reply_call \<Rightarrow> bool" where
  "call_fine jsonObject allowed call \<longleftrightarrow> rc_Type call = ''function'' \<and> rc_ID call \<noteq> [] \<and> length (rc_ID call) \<le> apiToolCallIDLimit
     \<and> (\<exists>name args. rc_Function call = Some (name, args) \<and> allowed name \<and> jsonObject args)"

lemma call_refused_iff: "call_refused jsonObject allowed seen call \<longleftrightarrow> \<not> call_fine jsonObject allowed call \<or> rc_ID call \<in> seen"
  by (cases "rc_Function call") (auto simp: call_refused_def call_fine_def)

lemma proposals_some_iff:
  "(\<exists>calls. proposals jsonObject allowed marshal binding seen cs = Some calls) \<longleftrightarrow>
     list_all (call_fine jsonObject allowed) cs \<and> distinct (map rc_ID cs) \<and> set (map rc_ID cs) \<inter> seen = {}"
  by (induction cs arbitrary: seen) (auto simp: call_refused_iff)

lemma finish_accepted: "finishFailure reason n = [] \<longleftrightarrow> reason = Some ''stop'' \<or> reason = Some ''tool_calls'' \<and> n > 0"
  by (auto simp: finishFailure_def split: option.split)

lemma judge_accepts:
  "(\<exists>msg. judge_reply jsonObject allowed marshal binding reason m = Inr msg) \<longleftrightarrow>
     rp_Role m \<in> {[], ''assistant''} \<and> rp_Refusal m \<in> {None, Some []} \<and> rp_Content m \<noteq> OtherContent
     \<and> (reason = Some ''stop'' \<or> reason = Some ''tool_calls'' \<and> rp_ToolCalls m \<noteq> [])
     \<and> length (rp_ToolCalls m) \<le> maxToolProposals
     \<and> list_all (call_fine jsonObject allowed) (rp_ToolCalls m) \<and> distinct (map rc_ID (rp_ToolCalls m))"
  using proposals_some_iff [of jsonObject allowed marshal binding "{}" "rp_ToolCalls m"]
    finish_accepted [of reason "length (rp_ToolCalls m)"]
  by (auto simp: judge_reply_def split: option.split)

lemma parse_some:
  "parseChatCompletion jsonObject tools marshal binding embedded response = Inr msg \<longleftrightarrow>
     (\<exists>r reason m. response = Some r \<and> Absent (rs_Error r) \<and> rs_Choices r = [(reason, Some m)]
        \<and> judge_reply jsonObject (catalog_allows tools) marshal binding reason m = Inr msg)"
  by (auto simp: parseChatCompletion_def split: option.splits list.splits if_splits)

text \<open>
  C26. Exactly which responses become a proposal: one choice without an embedded error, an assistant message with text or
  none and no refusal, finished by \<open>stop\<close> or, with calls, by \<open>tool_calls\<close>, carrying at most sixteen calls, each a function
  call of a catalogued tool with a JSON object for its arguments and an identifier of its own, non-empty and bounded.
\<close>

theorem parse_accepts_exactly:
  "(\<exists>msg. parseChatCompletion jsonObject tools marshal binding embedded response = Inr msg) \<longleftrightarrow>
     (\<exists>r reason m. response = Some r \<and> Absent (rs_Error r) \<and> rs_Choices r = [(Some reason, Some m)]
        \<and> rp_Role m \<in> {[], ''assistant''} \<and> rp_Refusal m \<in> {None, Some []} \<and> rp_Content m \<noteq> OtherContent
        \<and> (reason = ''stop'' \<or> reason = ''tool_calls'' \<and> rp_ToolCalls m \<noteq> [])
        \<and> length (rp_ToolCalls m) \<le> 16 \<and> distinct (map rc_ID (rp_ToolCalls m))
        \<and> list_all (\<lambda>call. rc_Type call = ''function'' \<and> rc_ID call \<noteq> [] \<and> length (rc_ID call) \<le> 256
             \<and> (\<exists>name args. rc_Function call = Some (name, args) \<and> catalog_allows tools name \<and> jsonObject args)) (rp_ToolCalls m))"
proof -
  have "(\<exists>msg. parseChatCompletion jsonObject tools marshal binding embedded response = Inr msg) \<longleftrightarrow>
     (\<exists>r reason m. response = Some r \<and> Absent (rs_Error r) \<and> rs_Choices r = [(reason, Some m)]
        \<and> (\<exists>msg. judge_reply jsonObject (catalog_allows tools) marshal binding reason m = Inr msg))"
    unfolding parse_some by blast
  then show ?thesis unfolding judge_accepts call_fine_def maxToolProposals_def apiToolCallIDLimit_def by blast
qed

section \<open>Provider state goes back where it came from\<close>

text \<open>
  A value as it is taken from a response, a JSON document it lies deep in: JSON, and not so deeply nested that the two levels of
  the envelope would be too many.
\<close>

definition raw_value :: "string \<Rightarrow> bool" where
  "raw_value v \<longleftrightarrow> json_Valid v \<and> json_Valid (''[['' @ v @ '']]'')"

text \<open>
  What \<open>json.Marshal\<close> and \<open>json.Unmarshal\<close> make of an envelope \<open>captureReplay\<close> builds, a hexadecimal binding with raw values under
  the names carried: each value comes back compacted, with \<open><\<close>, \<open>>\<close> and \<open>&\<close> escaped.
\<close>

definition replay_codec :: "(replay \<Rightarrow> string) \<Rightarrow> (string \<Rightarrow> replay option) \<Rightarrow> bool" where
  "replay_codec marshal unmarshal \<longleftrightarrow> (\<forall>b fs. list_all json_hex b \<and> fs \<noteq> [] \<and> distinct (map fst fs)
       \<and> set (map fst fs) \<subseteq> set messageReplayFields \<union> set callReplayFields \<and> list_all raw_value (map snd fs) \<longrightarrow>
     marshal \<lparr>rep_For = b, rep_Fields = fs\<rparr> \<noteq> []
     \<and> unmarshal (marshal \<lparr>rep_For = b, rep_Fields = fs\<rparr>) = Some \<lparr>rep_For = b, rep_Fields = map (\<lambda>(n, v). (n, json_compact v)) fs\<rparr>)"

text \<open>The fields a response carried, of those that are kept.\<close>

definition kept_fields :: "(string \<times> string) list \<Rightarrow> string list \<Rightarrow> (string \<times> string) list" where
  "kept_fields raw names =
     map (\<lambda>n. (n, case map_of raw n of None \<Rightarrow> [] | Some v \<Rightarrow> v)) (filter (\<lambda>n. \<not> Absent (case map_of raw n of None \<Rightarrow> [] | Some v \<Rightarrow> v)) names)"

lemma capture_kept:
  "captureReplay marshal binding raw names =
     (if kept_fields raw names = [] then [] else marshal \<lparr>rep_For = binding, rep_Fields = kept_fields raw names\<rparr>)"
  by (simp add: captureReplay_def kept_fields_def Let_def)

text \<open>Fields captured under names of the envelope, from values of a response.\<close>

definition captures :: "string \<Rightarrow> (string \<times> string) list \<Rightarrow> string list \<Rightarrow> bool" where
  "captures binding raw names \<longleftrightarrow> list_all json_hex binding \<and> distinct names \<and> set names \<subseteq> set messageReplayFields \<union> set callReplayFields
     \<and> (\<forall>v \<in> snd ` set raw. Absent v \<or> raw_value v)"

lemma captured_codec:
  assumes "replay_codec marshal unmarshal" "captures binding raw names" "kept_fields raw names \<noteq> []"
  shows "marshal \<lparr>rep_For = binding, rep_Fields = kept_fields raw names\<rparr> \<noteq> []"
    "unmarshal (marshal \<lparr>rep_For = binding, rep_Fields = kept_fields raw names\<rparr>)
       = Some \<lparr>rep_For = binding, rep_Fields = map (\<lambda>(n, v). (n, json_compact v)) (kept_fields raw names)\<rparr>"
proof -
  have "map fst (kept_fields raw names) = filter (\<lambda>n. \<not> Absent (case map_of raw n of None \<Rightarrow> [] | Some v \<Rightarrow> v)) names"
    by (simp add: kept_fields_def comp_def)
  moreover have "raw_value v" if "(n, v) \<in> set (kept_fields raw names)" for n v
  proof -
    from that have v: "\<not> Absent v" "v = (case map_of raw n of None \<Rightarrow> [] | Some v \<Rightarrow> v)" by (auto simp: kept_fields_def)
    moreover have "Absent []" using TrimSpace_digits [of "[]"] by (simp add: Absent_def)
    ultimately have "(n, v) \<in> set raw" by (auto split: option.splits dest: map_of_SomeD)
    then show ?thesis using assms(2) v(1) by (force simp: captures_def)
  qed
  ultimately have ok: "list_all json_hex binding \<and> kept_fields raw names \<noteq> [] \<and> distinct (map fst (kept_fields raw names))
      \<and> set (map fst (kept_fields raw names)) \<subseteq> set messageReplayFields \<union> set callReplayFields \<and> list_all raw_value (map snd (kept_fields raw names))"
    using assms(2,3) by (auto simp: captures_def list_all_iff)
  from assms(1) ok show "marshal \<lparr>rep_For = binding, rep_Fields = kept_fields raw names\<rparr> \<noteq> []"
    unfolding replay_codec_def by blast
  from assms(1) ok show "unmarshal (marshal \<lparr>rep_For = binding, rep_Fields = kept_fields raw names\<rparr>)
       = Some \<lparr>rep_For = binding, rep_Fields = map (\<lambda>(n, v). (n, json_compact v)) (kept_fields raw names)\<rparr>"
    unfolding replay_codec_def by blast
qed

lemma open_captured:
  assumes "replay_codec marshal unmarshal" "captures binding raw names"
  shows "openReplay unmarshal (captureReplay marshal binding raw names) binding names = Some (map (\<lambda>(n, v). (n, json_compact v)) (kept_fields raw names))"
proof (cases "kept_fields raw names = []")
  case False
  have "list_all (\<lambda>(n, v). n \<in> set names) (map (\<lambda>(n, v). (n, json_compact v)) (kept_fields raw names))"
    by (auto simp: list_all_iff kept_fields_def)
  then show ?thesis using False captured_codec [OF assms False] by (simp add: capture_kept openReplay_def)
qed (simp add: capture_kept openReplay_def)

lemma open_elsewhere:
  assumes "replay_codec marshal unmarshal" "captures binding raw names" "kept_fields raw names \<noteq> []" "other \<noteq> binding"
  shows "openReplay unmarshal (captureReplay marshal binding raw names) other names' = None"
  using captured_codec [OF assms(1-3)] assms(3,4) by (simp add: capture_kept openReplay_def)

text \<open>What a kept field says: the raw value in compact form, unless it was absent.\<close>

definition present :: "string \<Rightarrow> string option" where
  "present raw = (if Absent raw then None else Some (json_compact raw))"

lemma kept_message:
  "map_of (map (\<lambda>(n, v). (n, json_compact v)) (kept_fields [(''reasoning_content'', c), (''reasoning_details'', d)] messageReplayFields)) ''reasoning_content'' = present c"
  "map_of (map (\<lambda>(n, v). (n, json_compact v)) (kept_fields [(''reasoning_content'', c), (''reasoning_details'', d)] messageReplayFields)) ''reasoning_details'' = present d"
  by (simp_all add: kept_fields_def messageReplayFields_def present_def)

lemma kept_call: "map_of (map (\<lambda>(n, v). (n, json_compact v)) (kept_fields [(''extra_content'', c)] callReplayFields)) ''extra_content'' = present c"
  by (simp add: kept_fields_def callReplayFields_def present_def)

lemma catalog_named: "toolCatalog seen tools = Some names \<Longrightarrow> n \<in> names \<Longrightarrow> n \<in> seen \<or> n \<noteq> []"
  by (induction seen tools rule: toolCatalog.induct) (auto split: if_splits)

lemma catalog_names: "catalog_allows tools n \<Longrightarrow> n \<noteq> []"
  using catalog_named [of "{}" tools] by (auto simp: catalog_allows_def split: option.splits)

text \<open>A reply's call as it is sent back.\<close>

definition sent_call :: "reply_call \<Rightarrow> wire_call" where
  "sent_call call = \<lparr>wc_ID = rc_ID call, wc_Type = ''function'', wc_Name = fst (the (rc_Function call)),
     wc_Arguments = snd (the (rc_Function call)), wc_Extra = present (rc_Extra call)\<rparr>"

text \<open>The values a reply carries are raw values of the response it was decoded from.\<close>

definition decoded_reply :: "chat_reply \<Rightarrow> bool" where
  "decoded_reply m \<longleftrightarrow> (Absent (rp_ReasoningContent m) \<or> raw_value (rp_ReasoningContent m)) \<and> (Absent (rp_ReasoningDetails m) \<or> raw_value (rp_ReasoningDetails m))
     \<and> list_all (\<lambda>call. Absent (rc_Extra call) \<or> raw_value (rc_Extra call)) (rp_ToolCalls m)"

text \<open>Whether a reply carries provider state, on the message or on a call.\<close>

definition carries_state :: "chat_reply \<Rightarrow> bool" where
  "carries_state m \<longleftrightarrow> \<not> Absent (rp_ReasoningContent m) \<or> \<not> Absent (rp_ReasoningDetails m) \<or> list_ex (\<lambda>call. \<not> Absent (rc_Extra call)) (rp_ToolCalls m)"

lemma captures_call: "list_all json_hex binding \<Longrightarrow> Absent v \<or> raw_value v \<Longrightarrow> captures binding [(''extra_content'', v)] callReplayFields"
  by (auto simp: captures_def callReplayFields_def)

lemma captures_message:
  "list_all json_hex binding \<Longrightarrow> decoded_reply m
     \<Longrightarrow> captures binding [(''reasoning_content'', rp_ReasoningContent m), (''reasoning_details'', rp_ReasoningDetails m)] messageReplayFields"
  by (auto simp: captures_def messageReplayFields_def decoded_reply_def)

lemma proposals_Cons:
  assumes "proposals jsonObject allowed marshal binding seen (call # cs) = Some calls" "\<And>n. allowed n \<Longrightarrow> n \<noteq> []"
  obtains rest where "proposals jsonObject allowed marshal binding (insert (rc_ID call) seen) cs = Some rest"
    "calls = \<lparr>tc_ID = rc_ID call, tc_Type = ''function'', tc_Name = fst (the (rc_Function call)), tc_Arguments = snd (the (rc_Function call)),
        tc_Replay = captureReplay marshal binding [(''extra_content'', rc_Extra call)] callReplayFields\<rparr> # rest"
    "rc_ID call \<noteq> []" "fst (the (rc_Function call)) \<noteq> []"
  using assms by (auto simp: call_refused_def split: if_splits)

lemma wire_proposals:
  assumes codec: "replay_codec marshal unmarshal" and named: "\<And>n. allowed n \<Longrightarrow> n \<noteq> []" and hex: "list_all json_hex binding"
  shows "proposals jsonObject allowed marshal binding seen cs = Some calls \<Longrightarrow> list_all (\<lambda>call. Absent (rc_Extra call) \<or> raw_value (rc_Extra call)) cs
    \<Longrightarrow> wire_calls unmarshal binding calls = Inr (map sent_call cs)"
proof (induction cs arbitrary: seen calls)
  case (Cons call cs)
  from Cons.prems(1) named show ?case
  proof (rule proposals_Cons)
    fix rest assume rest: "proposals jsonObject allowed marshal binding (insert (rc_ID call) seen) cs = Some rest"
      "calls = \<lparr>tc_ID = rc_ID call, tc_Type = ''function'', tc_Name = fst (the (rc_Function call)), tc_Arguments = snd (the (rc_Function call)),
        tc_Replay = captureReplay marshal binding [(''extra_content'', rc_Extra call)] callReplayFields\<rparr> # rest"
      "rc_ID call \<noteq> []" "fst (the (rc_Function call)) \<noteq> []"
    have "captures binding [(''extra_content'', rc_Extra call)] callReplayFields" using hex Cons.prems(2) by (intro captures_call) auto
    from open_captured [OF codec this] Cons.IH [OF rest(1)] Cons.prems(2) rest(2-4) kept_call show ?thesis by (simp add: sent_call_def)
  qed
qed simp

lemma wire_elsewhere:
  assumes codec: "replay_codec marshal unmarshal" and named: "\<And>n. allowed n \<Longrightarrow> n \<noteq> []" and hex: "list_all json_hex binding" and "other \<noteq> binding"
  shows "proposals jsonObject allowed marshal binding seen cs = Some calls \<Longrightarrow> list_all (\<lambda>call. Absent (rc_Extra call) \<or> raw_value (rc_Extra call)) cs
    \<Longrightarrow> list_ex (\<lambda>call. \<not> Absent (rc_Extra call)) cs \<Longrightarrow> wire_calls unmarshal other calls = Inl ''replay_mismatch''"
proof (induction cs arbitrary: seen calls)
  case (Cons call cs)
  from Cons.prems(1) named show ?case
  proof (rule proposals_Cons)
    fix rest assume rest: "proposals jsonObject allowed marshal binding (insert (rc_ID call) seen) cs = Some rest"
      "calls = \<lparr>tc_ID = rc_ID call, tc_Type = ''function'', tc_Name = fst (the (rc_Function call)), tc_Arguments = snd (the (rc_Function call)),
        tc_Replay = captureReplay marshal binding [(''extra_content'', rc_Extra call)] callReplayFields\<rparr> # rest"
      "rc_ID call \<noteq> []" "fst (the (rc_Function call)) \<noteq> []"
    have cap: "captures binding [(''extra_content'', rc_Extra call)] callReplayFields" using hex Cons.prems(2) by (intro captures_call) auto
    show ?thesis
    proof (cases "Absent (rc_Extra call)")
      case True
      then have "captureReplay marshal binding [(''extra_content'', rc_Extra call)] callReplayFields = []"
        by (simp add: capture_kept kept_fields_def callReplayFields_def)
      then show ?thesis using Cons.IH [OF rest(1)] Cons.prems(2,3) True rest(2-4) by (simp add: openReplay_def)
    next
      case False
      then have "kept_fields [(''extra_content'', rc_Extra call)] callReplayFields \<noteq> []" by (simp add: kept_fields_def callReplayFields_def)
      from open_elsewhere [OF codec cap this assms(4)] rest(2-4) show ?thesis by simp
    qed
  qed
qed simp

lemma judged_message:
  assumes "judge_reply jsonObject allowed marshal binding reason m = Inr msg"
  shows "m_Role msg = ''assistant''" "m_ToolCallID msg = []"
    "m_Replay msg = captureReplay marshal binding [(''reasoning_content'', rp_ReasoningContent m), (''reasoning_details'', rp_ReasoningDetails m)] messageReplayFields"
    "proposals jsonObject allowed marshal binding {} (rp_ToolCalls m) = Some (m_ToolCalls msg)"
  using assms by (auto simp: judge_reply_def split: if_splits option.splits)

lemma replay_roundtrip_wire:
  assumes codec: "replay_codec marshal unmarshal" and hex: "list_all json_hex binding"
    and j: "judge_reply jsonObject (catalog_allows tools) marshal binding reason m = Inr msg" and d: "decoded_reply m"
  shows "message_to_wire unmarshal binding msg = Inr \<lparr>wm_Role = ''assistant'',
     wm_Content = (if length (m_ToolCalls msg) > 0 \<and> m_Content msg = [] then None else Some (m_Content msg)),
     wm_ToolCalls = map sent_call (rp_ToolCalls m), wm_ToolCallID = [],
     wm_ReasoningContent = present (rp_ReasoningContent m), wm_ReasoningDetails = present (rp_ReasoningDetails m)\<rparr>"
proof -
  note j' = judged_message [OF j]
  have "list_all (\<lambda>call. Absent (rc_Extra call) \<or> raw_value (rc_Extra call)) (rp_ToolCalls m)" using d by (simp add: decoded_reply_def)
  then have calls: "wire_calls unmarshal binding (m_ToolCalls msg) = Inr (map sent_call (rp_ToolCalls m))"
    by (intro wire_proposals [OF codec catalog_names [of tools] hex j'(4)])
  have opened: "openReplay unmarshal (m_Replay msg) binding messageReplayFields =
      Some (map (\<lambda>(n, v). (n, json_compact v)) (kept_fields [(''reasoning_content'', rp_ReasoningContent m), (''reasoning_details'', rp_ReasoningDetails m)] messageReplayFields))"
    unfolding j'(3) using codec captures_message [OF hex d] by (rule open_captured)
  show ?thesis using j'(1,2) calls opened kept_message by (simp add: message_to_wire_def)
qed

lemma replay_elsewhere:
  assumes codec: "replay_codec marshal unmarshal" and hex: "list_all json_hex binding"
    and j: "judge_reply jsonObject (catalog_allows tools) marshal binding reason m = Inr msg" and d: "decoded_reply m"
    and "carries_state m" "other \<noteq> binding"
  shows "message_to_wire unmarshal other msg = Inl ''replay_mismatch''"
proof -
  note j' = judged_message [OF j]
  let ?raw = "[(''reasoning_content'', rp_ReasoningContent m), (''reasoning_details'', rp_ReasoningDetails m)]"
  show ?thesis
  proof (cases "kept_fields ?raw messageReplayFields = []")
    case True
    then have "m_Replay msg = []" by (simp add: j'(3) capture_kept)
    moreover have "list_ex (\<lambda>call. \<not> Absent (rc_Extra call)) (rp_ToolCalls m)"
      using assms(5) True by (auto simp: carries_state_def kept_fields_def messageReplayFields_def split: if_splits)
    then have "wire_calls unmarshal other (m_ToolCalls msg) = Inl ''replay_mismatch''"
      using wire_elsewhere [OF codec catalog_names [of tools] hex assms(6) j'(4)] d by (simp add: decoded_reply_def)
    ultimately show ?thesis using j'(1,2) by (simp add: message_to_wire_def openReplay_def)
  next
    case False
    from open_elsewhere [OF codec captures_message [OF hex d] False assms(6)] j'(1-3) show ?thesis by (simp add: message_to_wire_def)
  qed
qed

text \<open>
  C27. A proposal goes back to its own endpoint as it came, and nowhere else. The message a response became, put in the history
  unchanged, is sent with the same calls and arguments, and with exactly the provider state the response carried, on the message
  and on each call, in the compact form package json gives it, to the endpoint and model it came from; a message that carries
  state, be it only on one of its calls, is refused for every other endpoint or model.
\<close>

theorem replay_roundtrip:
  assumes codec: "replay_codec marshal unmarshal" and hex: "list_all json_hex binding"
    and parsed: "parseChatCompletion jsonObject tools marshal binding embedded (Some r) = Inr msg"
    and decoded: "rs_Choices r = [(reason, Some m)]" "decoded_reply m"
  shows "\<exists>w. message_to_wire unmarshal binding msg = Inr w
    \<and> wm_Role w = ''assistant'' \<and> wm_ToolCalls w = map sent_call (rp_ToolCalls m)
    \<and> wm_ReasoningContent w = present (rp_ReasoningContent m) \<and> wm_ReasoningDetails w = present (rp_ReasoningDetails m)
    \<and> (\<forall>other. other \<noteq> binding \<and> carries_state m \<longrightarrow> message_to_wire unmarshal other msg = Inl ''replay_mismatch'')"
proof -
  have j: "judge_reply jsonObject (catalog_allows tools) marshal binding reason m = Inr msg"
    using parsed decoded(1) by (auto simp: parse_some)
  from replay_roundtrip_wire [OF codec hex j decoded(2)] replay_elsewhere [OF codec hex j decoded(2)] show ?thesis by auto
qed

text \<open>A history made of accepted responses: each assistant record holds the message of one.\<close>

definition record_of :: "trecord \<Rightarrow> message \<Rightarrow> bool" where
  "record_of r msg \<longleftrightarrow> r_Text r = m_Content msg \<and> r_Calls r = m_ToolCalls msg \<and> r_Replay r = m_Replay msg"

lemma wire_messages_all:
  "(\<And>m. m \<in> set ms \<Longrightarrow> \<exists>w. message_to_wire unmarshal binding m = Inr w) \<Longrightarrow>
     \<exists>ws. wire_messages unmarshal binding ms = Inr ws \<and> length ws = length ms"
proof (induction ms)
  case (Cons m ms)
  obtain w where "message_to_wire unmarshal binding m = Inr w" using Cons.prems by fastforce
  moreover obtain ws where "wire_messages unmarshal binding ms = Inr ws" "length ws = length ms" using Cons by fastforce
  ultimately show ?case by simp
qed simp

lemma proposal_ids: "proposals jsonObject allowed marshal binding seen cs = Some calls \<Longrightarrow> c \<in> set calls \<Longrightarrow> tc_ID c \<noteq> []"
  by (induction cs arbitrary: seen calls) (auto simp: call_refused_def split: if_splits)

text \<open>
  C28. The loop never builds a history its own request refuses. Whatever a transcript holds besides, as long as every
  response in it was decoded and accepted from this endpoint and model, and there is anything to send, the whole conversation
  passes the checks made before a request: roles, identifiers, calls and provider state.
\<close>

theorem history_sendable:
  assumes codec: "replay_codec marshal unmarshal" and hex: "list_all json_hex binding"
    and accepted: "\<And>r. r \<in> set records \<Longrightarrow> r_Type r = recordAssistant \<Longrightarrow>
        \<exists>response reason m msg. rs_Choices response = [(reason, Some m)] \<and> decoded_reply m
          \<and> parseChatCompletion jsonObject tools marshal binding embedded (Some response) = Inr msg \<and> record_of r msg"
    and some: "conversation records system limit \<noteq> []"
  shows "\<exists>ws. chatMessages unmarshal binding (conversation records system limit) = Inr ws \<and> length ws = length (conversation records system limit)"
proof -
  have assistant: "\<exists>w. message_to_wire unmarshal binding ((plain_message ''assistant'' (r_Text r))\<lparr>m_ToolCalls := r_Calls r, m_Replay := r_Replay r\<rparr>) = Inr w"
    and ids: "\<And>c. c \<in> set (r_Calls r) \<Longrightarrow> tc_ID c \<noteq> []" if r: "r \<in> set records" "r_Type r = recordAssistant" for r
  proof -
    obtain resp reason m msg where "rs_Choices resp = [(reason, Some m)]" "parseChatCompletion jsonObject tools marshal binding embedded (Some resp) = Inr msg"
      and d: "decoded_reply m" and rec: "record_of r msg"
      using accepted [OF r] by blast
    then have j: "judge_reply jsonObject (catalog_allows tools) marshal binding reason m = Inr msg" by (auto simp: parse_some)
    obtain w where w: "message_to_wire unmarshal binding msg = Inr w" using replay_roundtrip_wire [OF codec hex j d] by blast
    have "(plain_message ''assistant'' (r_Text r))\<lparr>m_ToolCalls := r_Calls r, m_Replay := r_Replay r\<rparr> = msg"
      using rec judged_message(1,2) [OF j] by (simp add: record_of_def plain_message_def)
    then show "\<exists>w. message_to_wire unmarshal binding ((plain_message ''assistant'' (r_Text r))\<lparr>m_ToolCalls := r_Calls r, m_Replay := r_Replay r\<rparr>) = Inr w"
      using w by auto
    show "\<And>c. c \<in> set (r_Calls r) \<Longrightarrow> tc_ID c \<noteq> []" using proposal_ids [OF judged_message(4) [OF j]] rec by (simp add: record_of_def)
  qed
  have "\<exists>w. message_to_wire unmarshal binding m = Inr w" if m: "m \<in> set (conversation records system limit)" for m
  proof -
    consider "m = plain_message ''system'' system"
      | r where "r \<in> set records" "m \<in> set (record_messages (callStates records) limit r)"
      using m by (auto simp: conversation_def split: if_splits)
    then show ?thesis
    proof cases
      case 1
      then show ?thesis by (simp add: message_to_wire_def plain_message_def)
    next
      case 2
      then show ?thesis using assistant [of r] ids [of r]
        by (auto simp: record_messages_def split: if_splits) (auto simp: message_to_wire_def plain_message_def)
    qed
  qed
  then show ?thesis using wire_messages_all [of "conversation records system limit"] some by (simp add: chatMessages_def)
qed

section \<open>What a stream adds up to\<close>

text \<open>The reference: every builder is the concatenation of its pieces, and a call is what its own fragments spell.\<close>

definition joined :: "string option list \<Rightarrow> string option" where
  "joined ps = (if list_all (\<lambda>p. p = None) ps then None else Some (concat (map (\<lambda>p. case p of None \<Rightarrow> [] | Some t \<Rightarrow> t) ps)))"

definition fragments_at :: "nat \<Rightarrow> call_delta list \<Rightarrow> call_delta list" where
  "fragments_at i fs = filter (\<lambda>f. fd_Index f = Some (int i)) fs"

definition last_present :: "string list \<Rightarrow> string" where
  "last_present xs = last ([] # filter (\<lambda>x. \<not> Absent x) xs)"

definition spelled_call :: "call_delta list \<Rightarrow> nat \<Rightarrow> streamed_call" where
  "spelled_call fs i =
     (let gs = fragments_at i fs in
      \<lparr>sc_id = concat (map fd_ID gs), sc_kind = concat (map fd_Type gs), sc_name = concat (map fd_Name gs),
       sc_arguments = concat (map fd_Arguments gs), sc_extra = last_present (map fd_Extra gs)\<rparr>)"

fun call_count :: "call_delta list \<Rightarrow> nat" where
  "call_count [] = 0"
| "call_count (f # fs) = max (case fd_Index f of None \<Rightarrow> 0 | Some i \<Rightarrow> Suc (nat i)) (call_count fs)"

definition spelled_calls :: "call_delta list \<Rightarrow> streamed_call list" where
  "spelled_calls fs = map (spelled_call fs) [0..<call_count fs]"

lemma written_joined: "written (joined ps) p = joined (ps @ [p])"
  by (auto simp: written_def joined_def list_all_iff split: option.split)

lemma last_present_snoc: "last_present (xs @ [x]) = (if Absent x then last_present xs else x)"
  by (simp add: last_present_def)

lemma call_count_snoc: "call_count (fs @ [f]) = max (call_count fs) (case fd_Index f of None \<Rightarrow> 0 | Some i \<Rightarrow> Suc (nat i))"
  by (induction fs) (auto simp: max.assoc)

lemma spelled_other: "fd_Index f = Some i \<Longrightarrow> 0 \<le> i \<Longrightarrow> k \<noteq> nat i \<Longrightarrow> spelled_call (fs @ [f]) k = spelled_call fs k"
  by (auto simp: spelled_call_def fragments_at_def Let_def)

lemma spelled_same: "fd_Index f = Some i \<Longrightarrow> 0 \<le> i \<Longrightarrow> spelled_call (fs @ [f]) (nat i) = merge_call (spelled_call fs (nat i)) f"
  by (simp add: spelled_call_def fragments_at_def merge_call_def Let_def last_present_snoc)

lemma unspelled: "call_count fs \<le> k \<Longrightarrow> spelled_call fs k = no_call"
proof -
  assume "call_count fs \<le> k"
  then have "fragments_at k fs = []"
    by (induction fs) (auto simp: fragments_at_def split: option.splits)
  then show ?thesis by (simp add: spelled_call_def no_call_def last_present_def)
qed

lemma opened_spelled: "open_calls n (spelled_calls fs) = map (spelled_call fs) [0..<max (call_count fs) (Suc n)]"
proof (rule nth_equalityI)
  fix k assume "k < length (open_calls n (spelled_calls fs))"
  then show "open_calls n (spelled_calls fs) ! k = map (spelled_call fs) [0..<max (call_count fs) (Suc n)] ! k"
    by (cases "k < call_count fs") (auto simp: open_calls_def spelled_calls_def nth_append unspelled)
qed (auto simp: open_calls_def spelled_calls_def)

lemma addCall_spelled:
  assumes "addCall s f = Inr s'" "cs_calls s = spelled_calls fs"
  shows "s' = s\<lparr>cs_calls := spelled_calls (fs @ [f])\<rparr>"
proof -
  obtain i where i: "fd_Index f = Some i" "0 \<le> i"
    and s': "s' = s\<lparr>cs_calls := (open_calls (nat i) (cs_calls s))[nat i := merge_call (open_calls (nat i) (cs_calls s) ! nat i) f]\<rparr>"
    using assms(1) by (auto simp: addCall_def Let_def split: option.splits if_splits)
  let ?n = "max (call_count fs) (Suc (nat i))"
  have "(map (spelled_call fs) [0..<?n])[nat i := merge_call (spelled_call fs (nat i)) f] = map (spelled_call (fs @ [f])) [0..<?n]"
    using i by (intro nth_equalityI) (auto simp: nth_list_update spelled_same spelled_other)
  moreover have "call_count (fs @ [f]) = ?n" using i by (simp add: call_count_snoc)
  ultimately show ?thesis unfolding s' assms(2) opened_spelled spelled_calls_def [of "fs @ [f]"] by simp
qed

lemma addCalls_spelled:
  "addCalls s gs = Inr s' \<Longrightarrow> cs_calls s = spelled_calls fs \<Longrightarrow> s' = s\<lparr>cs_calls := spelled_calls (fs @ gs)\<rparr>"
proof (induction gs arbitrary: s fs)
  case (Cons f gs)
  then obtain s1 where s1: "addCall s f = Inr s1" "addCalls s1 gs = Inr s'" by (auto split: sum.splits)
  have e: "s1 = s\<lparr>cs_calls := spelled_calls (fs @ [f])\<rparr>" using addCall_spelled [OF s1(1) Cons.prems(2)] .
  have "s' = s1\<lparr>cs_calls := spelled_calls ((fs @ [f]) @ gs)\<rparr>" by (rule Cons.IH [OF s1(2)]) (simp add: e)
  then show ?case by (simp add: e)
qed simp

text \<open>The state a sequence of deltas adds up to, usage and failure apart.\<close>

definition adds_up :: "chat_delta list \<Rightarrow> chat_stream \<Rightarrow> bool" where
  "adds_up cs s \<longleftrightarrow>
     cs_content s = joined (map ch_Content cs) \<and> cs_reasoning s = joined (map ch_ReasoningContent cs) \<and>
     cs_refusal s = joined (map ch_Refusal cs) \<and> cs_details s = concat (map ch_ReasoningDetails cs) \<and>
     cs_calls s = spelled_calls (concat (map ch_ToolCalls cs)) \<and> cs_sawChoice s = (cs \<noteq> []) \<and>
     concat (map (\<lambda>c. case ch_FinishReason c of None \<Rightarrow> [] | Some x \<Rightarrow> [x]) cs) = (case cs_finish s of None \<Rightarrow> [] | Some x \<Rightarrow> [x])"

lemma add_choice_adds:
  assumes a: "add_choice s c = Inr s'" and up: "adds_up cs s"
  shows "adds_up (cs @ [c]) s' \<and> cs_usage s' = cs_usage s \<and> cs_failure s' = cs_failure s"
proof -
  let ?s = "s\<lparr>cs_sawChoice := True, cs_content := written (cs_content s) (ch_Content c),
                  cs_reasoning := written (cs_reasoning s) (ch_ReasoningContent c),
                  cs_refusal := written (cs_refusal s) (ch_Refusal c), cs_details := cs_details s @ ch_ReasoningDetails c\<rparr>"
  obtain s1 where s1: "addCalls ?s (ch_ToolCalls c) = Inr s1"
    and s': "s' = (case ch_FinishReason c of None \<Rightarrow> s1 | Some reason \<Rightarrow> s1\<lparr>cs_finish := Some reason\<rparr>)"
    and once: "ch_FinishReason c \<noteq> None \<Longrightarrow> cs_finish s1 = None"
    using a by (auto simp: add_choice_def split: if_splits sum.splits option.splits)
  have "s1 = ?s\<lparr>cs_calls := spelled_calls (concat (map ch_ToolCalls cs) @ ch_ToolCalls c)\<rparr>"
    by (rule addCalls_spelled [OF s1]) (use up in \<open>simp add: adds_up_def\<close>)
  then show ?thesis using up once unfolding s'
    by (cases "ch_FinishReason c") (auto simp: adds_up_def written_joined)
qed

lemma add_choices_adds:
  "add_choices s ds = Inr s' \<Longrightarrow> adds_up cs s \<Longrightarrow> adds_up (cs @ ds) s' \<and> cs_usage s' = cs_usage s \<and> cs_failure s' = cs_failure s"
proof (induction ds arbitrary: s cs)
  case (Cons d ds)
  then obtain s1 where s1: "add_choice s d = Inr s1" "add_choices s1 ds = Inr s'" by (auto split: sum.splits)
  then show ?case using add_choice_adds [OF s1(1) Cons.prems(2)] Cons.IH [OF s1(2), of "cs @ [d]"] by simp
qed simp

lemma adds_up_usage: "adds_up cs (s\<lparr>cs_usage := u\<rparr>) = adds_up cs s"
  by (simp add: adds_up_def)

lemma add_clean:
  "Absent (ck_Error c) \<Longrightarrow> chatStream_add (Some c) s = add_choices (if Absent (ck_Usage c) then s else s\<lparr>cs_usage := ck_Usage c\<rparr>) (ck_Choices c)"
  by (simp add: chatStream_add_def)

lemma stream_adds:
  "deliver (\<lambda>c. chatStream_add (Some c)) chunks s = Inr s' \<Longrightarrow> list_all (\<lambda>c. Absent (ck_Error c)) chunks \<Longrightarrow>
   adds_up cs s \<Longrightarrow> adds_up (cs @ concat (map ck_Choices chunks)) s' \<and> cs_failure s' = cs_failure s
     \<and> cs_usage s' = last (cs_usage s # filter (\<lambda>u. \<not> Absent u) (map ck_Usage chunks))"
proof (induction chunks arbitrary: s cs)
  case (Cons c chunks)
  let ?s = "if Absent (ck_Usage c) then s else s\<lparr>cs_usage := ck_Usage c\<rparr>"
  obtain s1 where s1: "add_choices ?s (ck_Choices c) = Inr s1" "deliver (\<lambda>c. chatStream_add (Some c)) chunks s1 = Inr s'"
    using Cons.prems(1,2) add_clean [of c s] by (auto split: sum.splits)
  have "adds_up cs ?s" using Cons.prems(3) by (simp add: adds_up_usage)
  note a = add_choices_adds [OF s1(1) this]
  then show ?case using Cons.IH [OF s1(2), of "cs @ ck_Choices c"] Cons.prems(2) by auto
qed simp

text \<open>
  C25. A streamed response is judged as the whole one it spells. However the endpoint cuts its reply into chunks, and in
  whatever order the calls' fragments are interleaved, the assembled response has the concatenated text, reasoning and refusal
  (null when no piece arrived), every call's identifier, name and arguments as its own fragments spell them in order, the
  last usage reported, and the one finish reason; a second finish reason is refused.
\<close>

theorem stream_assembles:
  assumes "deliver (\<lambda>c. chatStream_add (Some c)) chunks empty_stream = Inr s" "list_all (\<lambda>c. Absent (ck_Error c)) chunks"
  shows "let cs = concat (map ck_Choices chunks) in
    cs_content s = joined (map ch_Content cs) \<and> cs_reasoning s = joined (map ch_ReasoningContent cs)
    \<and> cs_refusal s = joined (map ch_Refusal cs) \<and> cs_details s = concat (map ch_ReasoningDetails cs)
    \<and> cs_calls s = spelled_calls (concat (map ch_ToolCalls cs))
    \<and> (case cs_finish s of None \<Rightarrow> [] | Some x \<Rightarrow> [x]) = concat (map (\<lambda>c. case ch_FinishReason c of None \<Rightarrow> [] | Some x \<Rightarrow> [x]) cs)
    \<and> cs_usage s = last ([] # filter (\<lambda>u. \<not> Absent u) (map ck_Usage chunks))
    \<and> cs_failure s = [] \<and> cs_sawChoice s = (cs \<noteq> [])"
proof -
  have "adds_up [] empty_stream" by (simp add: adds_up_def empty_stream_def joined_def spelled_calls_def)
  from stream_adds [OF assms this] show ?thesis by (simp add: adds_up_def empty_stream_def Let_def)
qed

section \<open>A response at work\<close>

text \<open>A reply that calls a tool, streamed as two fragments, and a codec for the envelope of its reasoning.\<close>

definition demo_delta :: "string \<Rightarrow> string \<Rightarrow> string \<Rightarrow> string option \<Rightarrow> chat_delta" where
  "demo_delta name i args reason = \<lparr>ch_Index = 0, ch_Content = None, ch_ReasoningContent = None, ch_ReasoningDetails = [], ch_Refusal = None,
     ch_ToolCalls = [\<lparr>fd_Index = Some 0, fd_ID = i, fd_Type = (if i = [] then [] else ''function''), fd_Name = name, fd_Arguments = args, fd_Extra = []\<rparr>],
     ch_FinishReason = reason\<rparr>"

definition demo_chunks :: "chat_chunk list" where
  "demo_chunks = [\<lparr>ck_Choices = [demo_delta ''ls'' ''a'' ''{'' None], ck_Usage = [], ck_Error = []\<rparr>,
     \<lparr>ck_Choices = [demo_delta [] [] ''}'' (Some ''stop'')], ck_Usage = ''1'', ck_Error = []\<rparr>]"

lemma absent_plain [simp]: "Absent []" "\<not> Absent ''1''"
  using TrimSpace_digits [of "[]"] TrimSpace_digits [of "''1''"] by (simp_all add: Absent_def ascii_digit_def)

definition demo_reply :: chat_reply where
  "demo_reply = \<lparr>rp_Role = ''assistant'', rp_Content = NoContent, rp_Refusal = None,
     rp_ToolCalls = [\<lparr>rc_ID = ''a'', rc_Type = ''function'', rc_Function = Some (''ls'', ''{}''), rc_Extra = []\<rparr>],
     rp_ReasoningContent = ''1'', rp_ReasoningDetails = []\<rparr>"

definition demo_response :: chat_response where
  "demo_response = \<lparr>rs_Error = [], rs_Choices = [(Some ''stop'', Some demo_reply)], rs_Usage = []\<rparr>"

definition demo_tools :: "(string \<times> string) list" where
  "demo_tools = [(''function'', ''ls'')]"

theorem stream_assembles_witness:
  "\<exists>s. deliver (\<lambda>c. chatStream_add (Some c)) demo_chunks empty_stream = Inr s \<and>
     cs_calls s = [\<lparr>sc_id = ''a'', sc_kind = ''function'', sc_name = ''ls'', sc_arguments = ''{}'', sc_extra = []\<rparr>] \<and> cs_usage s = ''1''"
proof -
  obtain s where s: "deliver (\<lambda>c. chatStream_add (Some c)) demo_chunks empty_stream = Inr s"
    by (simp add: demo_chunks_def demo_delta_def chatStream_add_def add_choice_def addCall_def maxStreamedCalls_def empty_stream_def Let_def)
  have "list_all (\<lambda>c. Absent (ck_Error c)) demo_chunks" by (simp add: demo_chunks_def)
  from stream_assembles [OF s this] show ?thesis using s
    by (auto simp: demo_chunks_def demo_delta_def spelled_calls_def spelled_call_def fragments_at_def last_present_def Let_def)
qed

theorem parse_accepts_exactly_witness:
  "\<exists>msg. parseChatCompletion (\<lambda>a. a = ''{}'') demo_tools (\<lambda>_. ''r'') ''b'' (\<lambda>e. e) (Some demo_response) = Inr msg"
  using parse_accepts_exactly [of "\<lambda>a. a = ''{}''" demo_tools "\<lambda>_. ''r''" "''b''" "\<lambda>e. e" "Some demo_response"]
  by (simp add: demo_response_def demo_reply_def demo_tools_def catalog_allows_def)

text \<open>A codec for replay envelopes: every byte behind a marker, every part closed by a full stop.\<close>

fun put_string :: "string \<Rightarrow> string" where
  "put_string [] = ''.''"
| "put_string (c # cs) = CHR ''x'' # c # put_string cs"

fun get_string :: "string \<Rightarrow> (string \<times> string) option" where
  "get_string (m # rest) = (if m = CHR ''.'' then Some ([], rest)
     else case rest of [] \<Rightarrow> None | c # cs \<Rightarrow> map_option (\<lambda>(s, t). (c # s, t)) (get_string cs))"
| "get_string [] = None"

fun put_fields :: "(string \<times> string) list \<Rightarrow> string" where
  "put_fields [] = ''.''"
| "put_fields ((n, v) # fs) = CHR '','' # put_string n @ put_string v @ put_fields fs"

fun get_fields :: "nat \<Rightarrow> string \<Rightarrow> (string \<times> string) list option" where
  "get_fields (Suc k) (m # rest) = (if m = CHR ''.'' then Some []
     else case get_string rest of None \<Rightarrow> None | Some (n, r1) \<Rightarrow>
       (case get_string r1 of None \<Rightarrow> None | Some (v, r2) \<Rightarrow> map_option ((#) (n, v)) (get_fields k r2)))"
| "get_fields _ _ = None"

definition demo_marshal :: "replay \<Rightarrow> string" where
  "demo_marshal r = put_string (rep_For r) @ put_fields (map (\<lambda>(n, v). (n, json_compact v)) (rep_Fields r))"

definition demo_unmarshal :: "string \<Rightarrow> replay option" where
  "demo_unmarshal s = (case get_string s of None \<Rightarrow> None | Some (b, rest) \<Rightarrow>
     map_option (\<lambda>fs. \<lparr>rep_For = b, rep_Fields = fs\<rparr>) (get_fields (length rest) rest))"

lemma get_put_string: "get_string (put_string s @ rest) = Some (s, rest)"
  by (induction s) auto

lemma get_put_fields: "length (put_fields fs) \<le> k \<Longrightarrow> get_fields k (put_fields fs) = Some fs"
proof (induction fs arbitrary: k rule: put_fields.induct)
  case 1
  then show ?case by (cases k) auto
next
  case (2 n v fs)
  then show ?case by (cases k) (auto simp: get_put_string)
qed

lemma demo_codec: "replay_codec demo_marshal demo_unmarshal"
proof -
  have "put_string s \<noteq> []" for s by (cases s) auto
  then show ?thesis by (simp add: replay_codec_def demo_marshal_def demo_unmarshal_def get_put_string get_put_fields)
qed

lemma demo_decoded: "decoded_reply demo_reply"
proof -
  have "json_Valid ''1''" "json_Valid ''[[1]]''" by code_simp+
  then show ?thesis by (simp add: decoded_reply_def demo_reply_def raw_value_def)
qed

lemma demo_parsed:
  "\<exists>msg. parseChatCompletion (\<lambda>a. a = ''{}'') demo_tools demo_marshal ''b'' (\<lambda>e. e) (Some demo_response) = Inr msg"
  unfolding parse_some judge_accepts demo_response_def
  using judge_accepts [of "\<lambda>a. a = ''{}''" "catalog_allows demo_tools" demo_marshal "''b''" "Some ''stop''" demo_reply]
  by (simp add: demo_reply_def demo_tools_def catalog_allows_def call_fine_def apiToolCallIDLimit_def maxToolProposals_def)

theorem replay_roundtrip_witness:
  "\<exists>msg w. parseChatCompletion (\<lambda>a. a = ''{}'') demo_tools demo_marshal ''b'' (\<lambda>e. e) (Some demo_response) = Inr msg
     \<and> message_to_wire demo_unmarshal ''b'' msg = Inr w \<and> wm_ReasoningContent w = Some ''1''
     \<and> message_to_wire demo_unmarshal ''other'' msg = Inl ''replay_mismatch''"
proof -
  obtain msg where msg: "parseChatCompletion (\<lambda>a. a = ''{}'') demo_tools demo_marshal ''b'' (\<lambda>e. e) (Some demo_response) = Inr msg"
    using demo_parsed by blast
  have h: "list_all json_hex ''b''" "rs_Choices demo_response = [(Some ''stop'', Some demo_reply)]" "json_compact ''1'' = ''1''" "carries_state demo_reply"
    by (simp_all add: json_hex_def demo_response_def json_compact_def json_space_def carries_state_def demo_reply_def)
  from replay_roundtrip [OF demo_codec h(1) msg h(2) demo_decoded] show ?thesis using msg h(3,4)
    by (auto simp: demo_reply_def present_def)
qed

theorem history_sendable_witness:
  "\<exists>msg ws. parseChatCompletion (\<lambda>a. a = ''{}'') demo_tools demo_marshal ''b'' (\<lambda>e. e) (Some demo_response) = Inr msg
     \<and> chatMessages demo_unmarshal ''b''
         (conversation [(blank recordAssistant ''t'')\<lparr>r_Text := m_Content msg, r_Calls := m_ToolCalls msg, r_Replay := m_Replay msg\<rparr>] ''sys'' 100) = Inr ws"
proof -
  obtain msg where msg: "parseChatCompletion (\<lambda>a. a = ''{}'') demo_tools demo_marshal ''b'' (\<lambda>e. e) (Some demo_response) = Inr msg"
    using demo_parsed by blast
  let ?r = "(blank recordAssistant ''t'')\<lparr>r_Text := m_Content msg, r_Calls := m_ToolCalls msg, r_Replay := m_Replay msg\<rparr>"
  have acc: "\<exists>response reason m msg'. rs_Choices response = [(reason, Some m)] \<and> decoded_reply m
      \<and> parseChatCompletion (\<lambda>a. a = ''{}'') demo_tools demo_marshal ''b'' (\<lambda>e. e) (Some response) = Inr msg' \<and> record_of r msg'"
    if "r \<in> set [?r]" "r_Type r = recordAssistant" for r
  proof (intro exI conjI)
    show "rs_Choices demo_response = [(Some ''stop'', Some demo_reply)]" by (simp add: demo_response_def)
    show "record_of r msg" using that(1) by (simp add: record_of_def)
  qed (fact demo_decoded msg)+
  have "conversation [?r] ''sys'' 100 \<noteq> []" "list_all json_hex ''b''" by (simp_all add: conversation_def json_hex_def)
  from history_sendable [OF demo_codec this(2) acc this(1)] show ?thesis using msg by blast
qed

end
