(* ===== verification/Ws_Path.thy ===== *)
theory Ws_Path
  imports Text_Bound
begin

text \<open>
  Paths a model supplies (internal/wsfile/wsfile.go, and \<open>resolveName\<close>, \<open>linkTarget\<close> and \<open>hiddenName\<close> of package sandbox):
  cleaning, the names that are refused on every platform, and where a link leads. Packages path and path/filepath are
  modelled as far as they are used, for Unix and for Windows; \<open>goos\<close> is \<open>runtime.GOOS\<close>.
\<close>

section \<open>Package path\<close>

abbreviation slash :: char where "slash \<equiv> CHR ''/''"

text \<open>\<open>path.Clean\<close>, element by element: the stack of elements kept so far, the last one first.\<close>

definition clean_step :: "bool \<Rightarrow> string list \<Rightarrow> string \<Rightarrow> string list" where
  "clean_step rooted stack e =
     (if e = [] \<or> e = ''.'' then stack
      else if e = ''..'' then
        (case stack of [] \<Rightarrow> if rooted then [] else [''..'']
         | e' # rest \<Rightarrow> if e' = ''..'' then ''..'' # stack else rest)
      else e # stack)"

definition path_Clean :: "string \<Rightarrow> string" where
  "path_Clean p =
     (let rooted = strings_HasPrefix p ''/'';
          kept = strings_Join (rev (foldl (clean_step rooted) [] (strings_Split p slash))) ''/''
      in if rooted then slash # kept else if kept = [] then ''.'' else kept)"

definition path_Join :: "string list \<Rightarrow> string" where
  "path_Join elems =
     (let used = dropWhile (\<lambda>e. e = []) elems
      in if used = [] then [] else path_Clean (strings_Join used ''/''))"

text \<open>\<open>path.Split\<close>, \<open>path.Dir\<close> and \<open>path.Base\<close>.\<close>

definition path_Split :: "string \<Rightarrow> string \<times> string" where
  "path_Split p = (let name = rev (takeWhile (\<lambda>c. c \<noteq> slash) (rev p)) in (take (length p - length name) p, name))"

definition path_Dir :: "string \<Rightarrow> string" where
  "path_Dir p = path_Clean (fst (path_Split p))"

definition path_Base :: "string \<Rightarrow> string" where
  "path_Base p =
     (if p = [] then ''.''
      else let name = snd (path_Split (rev (dropWhile (\<lambda>c. c = slash) (rev p))))
           in if name = [] then ''/'' else name)"

section \<open>Package path/filepath\<close>

definition win_sep :: "char \<Rightarrow> bool" where
  "win_sep c \<longleftrightarrow> c = CHR 0x5C \<or> c = slash"

definition win_prefix_fold :: "string \<Rightarrow> string \<Rightarrow> bool" where
  "win_prefix_fold s p \<longleftrightarrow> length p \<le> length s
     \<and> list_all2 (\<lambda>c d. if win_sep d then win_sep c else lower_byte c = lower_byte d) (take (length p) s) p
     \<and> (length s > length p \<longrightarrow> win_sep (s ! length p))"

text \<open>The length of a UNC volume: up to the second separator after its prefix.\<close>

fun unc_rest :: "nat \<Rightarrow> string \<Rightarrow> nat" where
  "unc_rest seps [] = 0"
| "unc_rest seps (c # cs) = (if win_sep c then (if seps = 1 then 0 else Suc (unc_rest (Suc seps) cs)) else Suc (unc_rest seps cs))"

definition volume_len :: "string \<Rightarrow> string \<Rightarrow> nat" where
  "volume_len goos p =
     (if goos \<noteq> ''windows'' then 0
      else if length p \<ge> 2 \<and> p ! 1 = CHR '':'' then 2
      else if p = [] \<or> \<not> win_sep (p ! 0) then 0
      else if win_prefix_fold p [CHR 0x5C, CHR 0x5C, CHR ''.'', CHR 0x5C, CHR ''U'', CHR ''N'', CHR ''C'']
        then min (length p) (8 + unc_rest 0 (drop 8 p))
      else if win_prefix_fold p [CHR 0x5C, CHR 0x5C, CHR ''.''] \<or> win_prefix_fold p [CHR 0x5C, CHR 0x5C, CHR ''?'']
           \<or> win_prefix_fold p [CHR 0x5C, CHR ''?'', CHR ''?''] then
        (if length p = 3 then 3 else 4 + length (takeWhile (\<lambda>c. \<not> win_sep c) (drop 4 p)))
      else if length p \<ge> 2 \<and> win_sep (p ! 1) then 2 + unc_rest 0 (drop 2 p)
      else 0)"

definition filepath_VolumeName :: "string \<Rightarrow> string \<Rightarrow> string" where
  "filepath_VolumeName goos p = take (volume_len goos p) p"

definition filepath_IsAbs :: "string \<Rightarrow> string \<Rightarrow> bool" where
  "filepath_IsAbs goos p =
     (if goos \<noteq> ''windows'' then strings_HasPrefix p ''/''
      else let l = volume_len goos p in
        l \<noteq> 0 \<and> (win_sep (p ! 0) \<and> win_sep (p ! 1) \<or> (drop l p \<noteq> [] \<and> win_sep (drop l p ! 0))))"

definition filepath_FromSlash :: "string \<Rightarrow> string \<Rightarrow> string" where
  "filepath_FromSlash goos p = (if goos = ''windows'' then map (\<lambda>c. if c = slash then CHR 0x5C else c) p else p)"

definition filepath_ToSlash :: "string \<Rightarrow> string \<Rightarrow> string" where
  "filepath_ToSlash goos p = (if goos = ''windows'' then map (\<lambda>c. if c = CHR 0x5C then slash else c) p else p)"

section \<open>Package wsfile\<close>

datatype path_problem = PathOK | PathInvalid | PathOutside

definition Control :: "nat \<Rightarrow> bool" where
  "Control r \<longleftrightarrow> r < 0x20 \<or> r = 0x7F \<or> (r \<ge> 0x80 \<and> r < 0xA0)"

definition ws_unportable :: "string \<Rightarrow> bool" where
  "ws_unportable rel \<longleftrightarrow> list_ex (\<lambda>c. c \<in> {CHR 0x00, CHR 0x5C, CHR '':''}) rel \<or> strings_HasPrefix rel ''/''
     \<or> list_ex (\<lambda>(r, _). Control r) (go_runes rel)"

definition wsfile_Clean :: "string \<Rightarrow> string \<Rightarrow> nat \<Rightarrow> string \<times> path_problem" where
  "wsfile_Clean goos rel maxLength =
     (if rel = [] \<or> length rel > maxLength \<or> ws_unportable rel then ([], PathInvalid)
      else let clean = path_Clean rel in
        if clean = ''.'' then ([], PathInvalid)
        else if clean = ''..'' \<or> strings_HasPrefix clean ''../'' then ([], PathOutside)
        else let native = filepath_FromSlash goos clean in
          if filepath_IsAbs goos native \<or> filepath_VolumeName goos native \<noteq> [] then ([], PathInvalid)
          else (clean, PathOK))"

definition strings_TrimRight :: "string \<Rightarrow> string \<Rightarrow> string" where
  "strings_TrimRight s cutset = rev (dropWhile (\<lambda>c. c \<in> set cutset) (rev s))"

text \<open>
  \<open>strings.ToUpper\<close> compared with names of the letters A, C, L, M, N, O, P, R, T, U, X and digits, none of which is the
  upper case of a character outside ASCII.
\<close>

definition upper_byte :: "char \<Rightarrow> char" where
  "upper_byte c = (if ascii_lower (byte c) then char_of (byte c - 32) else c)"

definition device_digits :: "string list" where
  "device_digits = [''0'', ''1'', ''2'', ''3'', ''4'', ''5'', ''6'', ''7'', ''8'', ''9'',
     [CHR 0xC2, CHR 0xB9], [CHR 0xC2, CHR 0xB2], [CHR 0xC2, CHR 0xB3]]"

definition deviceName :: "string \<Rightarrow> bool" where
  "deviceName element =
     (let stem = map upper_byte (strings_TrimRight (takeWhile (\<lambda>c. c \<noteq> CHR ''.'') element) '' .'') in
      stem \<in> {''CON'', ''PRN'', ''AUX'', ''NUL''}
      \<or> (length stem \<ge> 4 \<and> take 3 stem \<in> {''COM'', ''LPT''} \<and> drop 3 stem \<in> set device_digits))"

definition ReservedDevice :: "string \<Rightarrow> bool" where
  "ReservedDevice clean = list_ex deviceName (strings_Split clean slash)"

definition reservedPrefix :: string where "reservedPrefix = ''.harness-workbench-''"

definition reservedSuffix :: string where "reservedSuffix = ''.tmp''"

definition Reserved :: "string \<Rightarrow> bool" where
  "Reserved name =
     (let name = strings_TrimRight name '' .'' in
      length name > length reservedPrefix + length reservedSuffix
      \<and> strings_EqualFold (take (length reservedPrefix) name) reservedPrefix
      \<and> strings_EqualFold (drop (length name - length reservedSuffix) name) reservedSuffix)"

text \<open>\<open>hiddenName\<close> of sandbox/walk.go.\<close>

definition hiddenName :: "string \<Rightarrow> bool" where
  "hiddenName name \<longleftrightarrow> strings_EqualFold (strings_TrimRight name '' .'') ''.git'' \<or> Reserved name"

definition wsfile_Text :: "string \<Rightarrow> bool" where
  "wsfile_Text d \<longleftrightarrow> utf8_valid d \<and> CHR 0x00 \<notin> set d"

section \<open>The model's path\<close>

text \<open>Result codes of sandbox/workspace.go and sandbox/write.go.\<close>

datatype ws_code = ArgumentsInvalid | FilePathInvalid | FileOutside | FileNotFound | FileNotRegular | FileNotDirectory
  | FileTooLarge | FileNotText | FileReserved | FileUnreadable | FileLinked | FileOtherMount | FileIsSymlink
  | PathThroughSymlink | PathNotListed | WriteFailed | WriteUnknown | FileReadOnly | MatchNotFound | MatchNotUnique
  | NotOffered

fun code_text :: "ws_code \<Rightarrow> string" where
  "code_text ArgumentsInvalid = ''arguments_invalid''"
| "code_text FilePathInvalid = ''file_path_invalid''"
| "code_text FileOutside = ''file_outside_workspace''"
| "code_text FileNotFound = ''file_not_found''"
| "code_text FileNotRegular = ''file_not_regular''"
| "code_text FileNotDirectory = ''file_not_directory''"
| "code_text FileTooLarge = ''file_too_large''"
| "code_text FileNotText = ''file_not_text''"
| "code_text FileReserved = ''file_reserved''"
| "code_text FileUnreadable = ''file_unreadable''"
| "code_text FileLinked = ''file_linked''"
| "code_text FileOtherMount = ''file_other_mount''"
| "code_text FileIsSymlink = ''file_is_symlink''"
| "code_text PathThroughSymlink = ''path_through_symlink''"
| "code_text PathNotListed = ''path_not_listed''"
| "code_text WriteFailed = ''write_failed''"
| "code_text WriteUnknown = ''write_outcome_unknown''"
| "code_text FileReadOnly = ''file_read_only''"
| "code_text MatchNotFound = ''match_not_found''"
| "code_text MatchNotUnique = ''match_not_unique''"
| "code_text NotOffered = ''not_offered''"

abbreviation maxWorkbenchPath :: nat where "maxWorkbenchPath \<equiv> 1024"

text \<open>\<open>Inl\<close> is the code refusing the path.\<close>

definition resolveName :: "string \<Rightarrow> string \<Rightarrow> bool \<Rightarrow> ws_code + string" where
  "resolveName goos rel root =
     (if root \<and> (rel = [] \<or> rel = ''.'') then Inr ''.''
      else case wsfile_Clean goos rel maxWorkbenchPath of
        (clean, PathOutside) \<Rightarrow> Inl FileOutside
      | (clean, PathInvalid) \<Rightarrow> Inl FilePathInvalid
      | (clean, PathOK) \<Rightarrow> if ReservedDevice clean then Inl FilePathInvalid else Inr clean)"

definition linkTarget :: "string \<Rightarrow> string \<Rightarrow> string \<Rightarrow> string list \<Rightarrow> ws_code + string" where
  "linkTarget goos dir target rest =
     (let slashed = filepath_ToSlash goos target in
      if target = [] \<or> filepath_IsAbs goos target \<or> filepath_VolumeName goos target \<noteq> [] \<or> strings_HasPrefix slashed ''/''
        then Inl FileOutside
      else let next = path_Join (dir # slashed # rest) in
        if next = ''..'' \<or> strings_HasPrefix next ''../'' then Inl FileOutside
        else if next = ''.'' then Inr ''.''
        else case wsfile_Clean goos next (maxWorkbenchPath * 4) of (clean, problem) \<Rightarrow>
          if problem \<noteq> PathOK \<or> clean \<noteq> next \<or> ReservedDevice next then Inl FilePathInvalid
          else Inr next)"

section \<open>Lexical resolution\<close>

text \<open>
  What a relative path means read lexically: names are entered, \<open>..\<close> leaves the last one, and leaving the base itself
  fails. The result is the list of names from the base, the last one first.
\<close>

fun resolve :: "string list \<Rightarrow> string list \<Rightarrow> string list option" where
  "resolve acc [] = Some acc"
| "resolve acc (e # es) =
     (if e = [] \<or> e = ''.'' then resolve acc es
      else if e = ''..'' then (case acc of [] \<Rightarrow> None | _ # a \<Rightarrow> resolve a es)
      else resolve (e # acc) es)"

definition plain_name :: "string \<Rightarrow> bool" where
  "plain_name e \<longleftrightarrow> e \<noteq> [] \<and> e \<noteq> ''.'' \<and> e \<noteq> ''..'' \<and> slash \<notin> set e"

text \<open>A path that only descends: not empty, and every element is a name.\<close>

definition descends :: "string \<Rightarrow> bool" where
  "descends p \<longleftrightarrow> list_all plain_name (strings_Split p slash)"

lemma resolve_append: "resolve acc (es @ fs) = (case resolve acc es of None \<Rightarrow> None | Some a \<Rightarrow> resolve a fs)"
  by (induction acc es rule: resolve.induct) (auto split: list.splits)

lemma resolve_plain:
  "resolve acc es = Some a \<Longrightarrow> list_all plain_name acc \<Longrightarrow> list_all (\<lambda>e. slash \<notin> set e) es \<Longrightarrow> list_all plain_name a"
  by (induction acc es rule: resolve.induct) (auto simp: plain_name_def split: if_splits list.splits)

lemma resolve_names: "list_all plain_name es \<Longrightarrow> resolve acc es = Some (rev es @ acc)"
  by (induction es arbitrary: acc) (auto simp: plain_name_def)

lemma clean_step_simps [simp]:
  "clean_step r s [] = s" "clean_step r s ''.'' = s"
  "clean_step False [] ''..'' = [''..'']"
  "e \<noteq> ''..'' \<Longrightarrow> clean_step r (e # s) ''..'' = s"
  "plain_name e \<Longrightarrow> clean_step r s e = e # s"
  by (simp_all add: clean_step_def plain_name_def)

lemma clean_step_resolve:
  "resolve acc es = Some a \<Longrightarrow> list_all plain_name acc \<Longrightarrow> list_all (\<lambda>e. slash \<notin> set e) es \<Longrightarrow>
     foldl (clean_step False) acc es = a"
  by (induction acc es rule: resolve.induct) (auto simp: plain_name_def split: if_splits list.splits)

lemma clean_step_outside:
  "s \<noteq> [] \<Longrightarrow> last s = ''..'' \<Longrightarrow> clean_step False s e \<noteq> [] \<and> last (clean_step False s e) = ''..''"
  by (auto simp: clean_step_def split: list.splits if_splits)

lemma clean_steps_outside:
  "s \<noteq> [] \<Longrightarrow> last s = ''..'' \<Longrightarrow> foldl (clean_step False) s es \<noteq> [] \<and> last (foldl (clean_step False) s es) = ''..''"
  by (induction es arbitrary: s) (use clean_step_outside in auto)

lemma clean_step_escape:
  "resolve acc es = None \<Longrightarrow> list_all plain_name acc \<Longrightarrow> list_all (\<lambda>e. slash \<notin> set e) es \<Longrightarrow>
     foldl (clean_step False) acc es \<noteq> [] \<and> last (foldl (clean_step False) acc es) = ''..''"
proof (induction acc es rule: resolve.induct)
  case (2 acc e es)
  show ?case
  proof (cases "e = ''..'' \<and> acc = []")
    case True
    then show ?thesis using clean_steps_outside [of "[''..'']" es] by simp
  next
    case False
    with 2 show ?thesis by (auto simp: plain_name_def split: list.splits if_splits)
  qed
qed simp

lemma clean_step_slash_free:
  "list_all (\<lambda>e. e \<noteq> [] \<and> slash \<notin> set e) s \<Longrightarrow> slash \<notin> set e \<Longrightarrow>
     list_all (\<lambda>e. e \<noteq> [] \<and> slash \<notin> set e) (clean_step rooted s e)"
  by (auto simp: clean_step_def split: list.splits)

lemma clean_steps_slash_free:
  "list_all (\<lambda>e. e \<noteq> [] \<and> slash \<notin> set e) s \<Longrightarrow> list_all (\<lambda>e. slash \<notin> set e) es \<Longrightarrow>
     list_all (\<lambda>e. e \<noteq> [] \<and> slash \<notin> set e) (foldl (clean_step rooted) s es)"
  by (induction es arbitrary: s) (use clean_step_slash_free in auto)

lemma Split_slash_free: "list_all (\<lambda>e. slash \<notin> set e) (strings_Split p slash)"
  by (auto simp: list_all_iff dest: Split_pieces)

lemma Split_Join: "list_all (\<lambda>e. sep \<notin> set e) es \<Longrightarrow> es \<noteq> [] \<Longrightarrow> strings_Split (strings_Join es [sep]) sep = es"
proof (induction es "[sep]" rule: strings_Join.induct)
  case (3 p q ps)
  then show ?case by (simp add: Split_append)
qed (simp_all add: Split_single)

lemma Join_Cons: "strings_Join (e # es) sep = (if es = [] then e else e @ sep @ strings_Join es sep)"
  by (cases es) auto

lemma Join_empty: "list_all (\<lambda>e. e \<noteq> []) es \<Longrightarrow> strings_Join es sep = [] \<longleftrightarrow> es = []"
  by (cases es; cases "tl es") auto

lemma Join_dotdot:
  assumes "slash \<notin> set e" "e \<noteq> []"
  shows "strings_Join (e # es) ''/'' = ''..'' \<or> strings_HasPrefix (strings_Join (e # es) ''/'') ''../'' \<longleftrightarrow> e = ''..''"
proof -
  have "e = ''..''" if "e @ slash # x = ''../'' @ y" for x y
  proof -
    have "takeWhile (\<lambda>c. c \<noteq> slash) (e @ slash # x) = e" using assms(1) by (subst takeWhile_append2) auto
    moreover have "takeWhile (\<lambda>c. c \<noteq> slash) (''../'' @ y) = ''..''" by simp
    ultimately show ?thesis using that by simp
  qed
  moreover have "slash \<notin> set ''..''" by simp
  ultimately show ?thesis
    using assms unfolding Join_Cons HasPrefix_iff prefix_def
    by (auto simp: append_eq_Cons_conv Cons_eq_append_conv split: if_splits)
qed

lemma resolve_subset: "resolve acc es = Some a \<Longrightarrow> set a \<subseteq> set acc \<union> set es"
  by (induction acc es rule: resolve.induct) (auto split: if_splits list.splits)

lemma Split_chars: "e \<in> set (strings_Split p sep) \<Longrightarrow> set e \<subseteq> set p"
  by (induction p arbitrary: e) (auto split: if_splits list.splits, blast)

lemma Join_chars: "set (strings_Join es sep) \<subseteq> \<Union> (set ` set es) \<union> set sep"
  by (induction es sep rule: strings_Join.induct) auto

text \<open>What \<open>path.Clean\<close> makes of a relative path.\<close>

lemma path_Clean_resolved:
  assumes "\<not> strings_HasPrefix p ''/''" "resolve [] (strings_Split p slash) = Some a"
  shows "path_Clean p = (if a = [] then ''.'' else strings_Join (rev a) ''/'')" and "list_all plain_name a"
proof -
  show plain: "list_all plain_name a"
    using resolve_plain [OF assms(2)] Split_slash_free by auto
  have "foldl (clean_step False) [] (strings_Split p slash) = a"
    using clean_step_resolve [OF assms(2)] Split_slash_free by auto
  moreover have "strings_Join (rev a) ''/'' = [] \<longleftrightarrow> a = []"
    using plain by (subst Join_empty) (auto simp: list_all_iff plain_name_def)
  ultimately show "path_Clean p = (if a = [] then ''.'' else strings_Join (rev a) ''/'')"
    using assms(1) by (auto simp: path_Clean_def Let_def)
qed

lemma path_Clean_escapes:
  assumes "\<not> strings_HasPrefix p ''/''" "resolve [] (strings_Split p slash) = None"
  shows "path_Clean p = ''..'' \<or> strings_HasPrefix (path_Clean p) ''../''" "path_Clean p \<noteq> ''.''"
proof -
  let ?s = "foldl (clean_step False) [] (strings_Split p slash)"
  have s: "?s \<noteq> []" "last ?s = ''..''"
    using clean_step_escape [OF assms(2)] Split_slash_free by auto
  then obtain es where es: "rev ?s = ''..'' # es" by (metis hd_rev list.collapse rev_is_Nil_conv)
  have "path_Clean p = strings_Join (''..'' # es) ''/''"
    using assms(1) es by (simp add: path_Clean_def Let_def Join_Cons)
  then show "path_Clean p = ''..'' \<or> strings_HasPrefix (path_Clean p) ''../''" "path_Clean p \<noteq> ''.''"
    using Join_dotdot [of "''..''" es] by (auto simp: Join_Cons split: if_splits)
qed

lemma Join_plain_not_dots:
  assumes "list_all plain_name es" "es \<noteq> []"
  shows "strings_Join es ''/'' \<noteq> ''.''" "\<not> (strings_Join es ''/'' = ''..'' \<or> strings_HasPrefix (strings_Join es ''/'') ''../'')"
    "\<not> strings_HasPrefix (strings_Join es ''/'') ''/''" "strings_Join es ''/'' \<noteq> []"
proof -
  obtain e fs where es: "es = e # fs" using assms(2) by (cases es) auto
  then have e: "e \<noteq> []" "e \<noteq> ''.''" "e \<noteq> ''..''" "slash \<notin> set e" using assms(1) by (auto simp: plain_name_def)
  show "strings_Join es ''/'' \<noteq> ''.''" using e by (auto simp: es Join_Cons append_eq_Cons_conv)
  show "\<not> (strings_Join es ''/'' = ''..'' \<or> strings_HasPrefix (strings_Join es ''/'') ''../'')"
    unfolding es using Join_dotdot [OF e(4,1)] e(3) by blast
  obtain c cs where "e = c # cs" "c \<noteq> slash" using e(1,4) by (cases e) auto
  then show "\<not> strings_HasPrefix (strings_Join es ''/'') ''/''" "strings_Join es ''/'' \<noteq> []"
    by (auto simp: es Join_Cons strings_HasPrefix_def)
qed

lemma portable_native:
  assumes "CHR '':'' \<notin> set p" "CHR 0x5C \<notin> set p" "p \<noteq> []" "\<not> strings_HasPrefix p ''/''"
  shows "\<not> filepath_IsAbs goos (filepath_FromSlash goos p)" "filepath_VolumeName goos (filepath_FromSlash goos p) = []"
proof -
  obtain c cs where p: "p = c # cs" using assms(3) by (cases p) auto
  then have c: "c \<noteq> slash" using assms(4) by (auto simp: strings_HasPrefix_def)
  have "volume_len goos (filepath_FromSlash goos p) = 0"
    using assms(1,2) p c by (cases cs) (auto simp: volume_len_def filepath_FromSlash_def win_sep_def split: if_splits)
  then show "\<not> filepath_IsAbs goos (filepath_FromSlash goos p)" "filepath_VolumeName goos (filepath_FromSlash goos p) = []"
    using assms(4) by (auto simp: filepath_IsAbs_def filepath_VolumeName_def filepath_FromSlash_def Let_def)
qed

lemma Clean_exact:
  "wsfile_Clean goos rel n =
     (if rel = [] \<or> length rel > n \<or> ws_unportable rel then ([], PathInvalid)
      else case resolve [] (strings_Split rel slash) of
        None \<Rightarrow> ([], PathOutside)
      | Some a \<Rightarrow> if a = [] then ([], PathInvalid) else (strings_Join (rev a) ''/'', PathOK))"
proof (cases "rel = [] \<or> length rel > n \<or> ws_unportable rel")
  case False
  then have rel: "\<not> strings_HasPrefix rel ''/''" "CHR '':'' \<notin> set rel" "CHR 0x5C \<notin> set rel"
    by (auto simp: ws_unportable_def list_ex_iff)
  show ?thesis
  proof (cases "resolve [] (strings_Split rel slash)")
    case None
    with path_Clean_escapes [OF rel(1) None] False show ?thesis by (auto simp: wsfile_Clean_def Let_def)
  next
    case (Some a)
    note c = path_Clean_resolved [OF rel(1) Some]
    show ?thesis
    proof (cases "a = []")
      case a: False
      have "set (strings_Join (rev a) ''/'') \<subseteq> set rel \<union> {slash}"
        using Join_chars [of "rev a" "''/''"] resolve_subset [OF Some] Split_chars by fastforce
      then have "CHR '':'' \<notin> set (strings_Join (rev a) ''/'')" "CHR 0x5C \<notin> set (strings_Join (rev a) ''/'')"
        using rel(2,3) by auto
      note native = portable_native [OF this]
      show ?thesis
        using False Some c a Join_plain_not_dots [of "rev a"] native [of goos]
        by (auto simp: wsfile_Clean_def Let_def list_all_iff)
    qed (use False Some c in \<open>auto simp: wsfile_Clean_def Let_def\<close>)
  qed
qed (auto simp: wsfile_Clean_def)

lemma ReservedDevice_Join:
  "list_all plain_name a \<Longrightarrow> a \<noteq> [] \<Longrightarrow> ReservedDevice (strings_Join (rev a) ''/'') = list_ex deviceName a"
  by (subst ReservedDevice_def, subst Split_Join) (auto simp: list_all_iff list_ex_iff plain_name_def)

lemma descends_Join: "list_all plain_name es \<Longrightarrow> es \<noteq> [] \<Longrightarrow> descends (strings_Join es ''/'')"
  by (subst descends_def, subst Split_Join) (auto simp: list_all_iff plain_name_def)

lemma descends_Split: "descends p \<Longrightarrow> resolve [] (strings_Split p slash) = Some (rev (strings_Split p slash))"
  by (simp add: descends_def resolve_names)

lemma resolveName_exact:
  "resolveName goos rel root =
     (if root \<and> (rel = [] \<or> rel = ''.'') then Inr ''.''
      else if rel = [] \<or> length rel > 1024 \<or> ws_unportable rel then Inl FilePathInvalid
      else case resolve [] (strings_Split rel slash) of
        None \<Rightarrow> Inl FileOutside
      | Some a \<Rightarrow> if a = [] \<or> list_ex deviceName a then Inl FilePathInvalid else Inr (strings_Join (rev a) ''/''))"
proof -
  have "list_ex deviceName a = ReservedDevice (strings_Join (rev a) ''/'')"
    if "resolve [] (strings_Split rel slash) = Some a" "a \<noteq> []" for a
    using ReservedDevice_Join resolve_plain [OF that(1)] Split_slash_free that(2) by auto
  then show ?thesis by (auto simp: resolveName_def Clean_exact split: option.splits)
qed

lemma resolveName_names:
  assumes "resolveName goos rel False = Inr clean"
  shows "clean \<noteq> ''.''"
proof -
  from assms obtain a where a: "resolve [] (strings_Split rel slash) = Some a" "a \<noteq> []" "clean = strings_Join (rev a) ''/''"
    by (auto simp: resolveName_exact split: if_splits option.splits)
  then have "list_all plain_name (rev a)" using resolve_plain [OF a(1)] Split_slash_free by (auto simp: list_all_iff)
  then show ?thesis using Join_plain_not_dots(1) [of "rev a"] a by simp
qed

lemma resolveName_descends:
  assumes "resolveName goos rel root = Inr clean" "clean \<noteq> ''.''"
  shows "descends clean" "\<not> ReservedDevice clean"
proof -
  from assms obtain a where a: "resolve [] (strings_Split rel slash) = Some a" "a \<noteq> []" "\<not> list_ex deviceName a"
    "clean = strings_Join (rev a) ''/''"
    by (auto simp: resolveName_exact split: if_splits option.splits)
  then have "list_all plain_name a" using resolve_plain [OF a(1)] Split_slash_free by auto
  then show "descends clean" "\<not> ReservedDevice clean"
    using a descends_Join [of "rev a"] ReservedDevice_Join [of a] by (simp_all add: list_all_iff)
qed

lemma Split_slash_append: "strings_Split (a @ slash # b) slash = strings_Split a slash @ strings_Split b slash"
  by (induction a) (auto split: list.splits)

lemma Split_Join_concat:
  "es \<noteq> [] \<Longrightarrow> strings_Split (strings_Join es ''/'') slash = concat (map (\<lambda>e. strings_Split e slash) es)"
proof (induction es "''/''" rule: strings_Join.induct)
  case (3 p q ps)
  then show ?case by (simp add: Split_slash_append)
qed simp_all

lemma resolve_slash_free: "list_all (\<lambda>e. slash \<notin> set e) es \<Longrightarrow> concat (map (\<lambda>e. strings_Split e slash) es) = es"
  by (induction es) (auto simp: Split_single)

lemma linkTarget_resolves:
  assumes dir: "dir = [] \<or> descends dir" and rest: "list_all plain_name rest"
    and target: "linkTarget goos dir target rest = Inr nxt" "nxt \<noteq> ''.''"
  shows "descends nxt \<and> \<not> ReservedDevice nxt \<and> length nxt \<le> 4096
    \<and> resolve [] (strings_Split dir slash @ strings_Split (filepath_ToSlash goos target) slash @ rest) = Some (rev (strings_Split nxt slash))"
proof -
  let ?t = "filepath_ToSlash goos target"
  let ?elems = "dir # ?t # rest"
  let ?used = "dropWhile (\<lambda>e. e = []) ?elems"
  from target(1) have t: "target \<noteq> []" "\<not> strings_HasPrefix ?t ''/''"
    by (auto simp: linkTarget_def Let_def split: if_splits)
  then have t': "?t \<noteq> []" by (simp add: filepath_ToSlash_def)
  then have used: "?used = (if dir = [] then ?t # rest else ?elems)" by simp
  have dir_ok: "dir \<noteq> [] \<Longrightarrow> \<not> strings_HasPrefix dir ''/''"
  proof -
    assume "dir \<noteq> []"
    with dir have "descends dir" by blast
    then have "strings_Join (strings_Split dir slash) ''/'' = dir" "list_all plain_name (strings_Split dir slash)"
      by (simp_all add: Join_Split descends_def)
    then show ?thesis using Join_plain_not_dots(3) [of "strings_Split dir slash"] by simp
  qed
  let ?p = "strings_Join ?used ''/''"
  have p: "\<not> strings_HasPrefix ?p ''/''"
  proof (cases "dir = []")
    case True
    then show ?thesis using t by (cases ?t) (auto simp: used Join_Cons strings_HasPrefix_def filepath_ToSlash_def split: if_splits)
  next
    case False
    then show ?thesis using dir_ok by (cases dir) (auto simp: used strings_HasPrefix_def)
  qed
  have rest': "list_all (\<lambda>e. slash \<notin> set e) rest" using rest by (auto simp: list_all_iff plain_name_def)
  have res: "resolve [] (strings_Split ?p slash) = resolve [] (strings_Split dir slash @ strings_Split ?t slash @ rest)"
    using t' by (subst Split_Join_concat) (auto simp: used resolve_slash_free [OF rest'])
  from target have nxt: "nxt = path_Clean ?p" "nxt \<noteq> ''..''" "\<not> strings_HasPrefix nxt ''../''"
    "\<not> ReservedDevice nxt" "fst (wsfile_Clean goos nxt 4096) = nxt" "snd (wsfile_Clean goos nxt 4096) = PathOK"
    using used t t' by (auto simp: linkTarget_def path_Join_def Let_def split: if_splits prod.splits)
  then obtain a where a: "resolve [] (strings_Split ?p slash) = Some a"
    using path_Clean_escapes [OF p] by (cases "resolve [] (strings_Split ?p slash)") auto
  note clean = path_Clean_resolved [OF p a]
  from clean nxt target(2) have a': "a \<noteq> []" "nxt = strings_Join (rev a) ''/''" by (auto split: if_splits)
  with clean(2) have "strings_Split nxt slash = rev a" "descends nxt"
    using Split_Join [of slash "rev a"] descends_Join [of "rev a"] by (auto simp: list_all_iff plain_name_def)
  moreover have "length nxt \<le> 4096" using nxt(6) by (auto simp: wsfile_Clean_def split: if_splits)
  ultimately show ?thesis using nxt(4) a res by simp
qed

lemma last_element: "rev (takeWhile (\<lambda>c. c \<noteq> slash) (rev p)) = last (strings_Split p slash)"
proof (cases "slash \<in> set p")
  case True
  then obtain a b where p: "p = a @ slash # b" "slash \<notin> set b" by (metis split_list_last)
  have "takeWhile (\<lambda>c. c \<noteq> slash) (rev b @ slash # rev a) = rev b" using p(2) by (subst takeWhile_append2) auto
  with p show ?thesis by (simp add: Split_slash_append Split_single)
next
  case False
  then have all: "takeWhile (\<lambda>c. c \<noteq> slash) (rev p) = rev p" by (auto simp: takeWhile_eq_all_conv)
  show ?thesis unfolding all using False by (simp add: Split_single)
qed

lemma base_of_descending:
  assumes "descends p"
  shows "path_Base p = last (strings_Split p slash)" "path_Base p \<in> set (strings_Split p slash)"
proof -
  have e: "plain_name (last (strings_Split p slash))"
    using assms by (simp add: descends_def list_all_iff)
  have "p \<noteq> []" using assms by (auto simp: descends_def plain_name_def)
  moreover have "last p \<noteq> slash"
  proof
    assume "last p = slash"
    with \<open>p \<noteq> []\<close> obtain q where "p = q @ slash # []" by (metis append_butlast_last_id)
    then have "last (strings_Split p slash) = []" by (simp only: Split_slash_append) simp
    with e show False by (simp add: plain_name_def)
  qed
  then have "dropWhile (\<lambda>c. c = slash) (rev p) = rev p" using \<open>p \<noteq> []\<close> by (cases "rev p") (auto simp: last_rev [symmetric])
  ultimately show "path_Base p = last (strings_Split p slash)"
    using e by (simp add: path_Base_def path_Split_def Let_def last_element plain_name_def)
  then show "path_Base p \<in> set (strings_Split p slash)" by simp
qed

section \<open>Properties\<close>

text \<open>C21.
  A model's path is accepted exactly when it is portable, at most 1024 bytes, stays inside the workspace read
  lexically, names something in it, and has no element that Windows reads as a device; it is then the path of exactly the
  names it resolves to. An empty path and . name the root where that is allowed. The answer is the same on every platform.
\<close>

theorem model_path_exact:
  "resolveName goos rel root =
     (if root \<and> (rel = [] \<or> rel = ''.'') then Inr ''.''
      else if rel = [] \<or> length rel > 1024 \<or> ws_unportable rel then Inl FilePathInvalid
      else case resolve [] (strings_Split rel slash) of
        None \<Rightarrow> Inl FileOutside
      | Some a \<Rightarrow> if a = [] \<or> list_ex deviceName a then Inl FilePathInvalid else Inr (strings_Join (rev a) ''/''))"
  by (rule resolveName_exact)

end
