(* ===== verification/Ws_Text.thy ===== *)
theory Ws_Text
  imports Ws_Path
begin

text \<open>
  The texts of the workspace's file tools (package sandbox): errors with the path they quote (\<open>workbenchError\<close>), a file a
  page at a time (\<open>readLines\<close> of workspace_read.go) and edits (\<open>applyEdit\<close> of write.go). Which code points from 128 on are
  printable, a table of strconv, is an argument.
\<close>

section \<open>strconv.Quote\<close>

definition hex_digit :: "nat \<Rightarrow> char" where
  "hex_digit d = char_of (if d < 10 then 48 + d else 87 + d)"

fun hex_digits :: "nat \<Rightarrow> nat \<Rightarrow> string" where
  "hex_digits 0 v = []"
| "hex_digits (Suc k) v = hex_digits k (v div 16) @ [hex_digit (v mod 16)]"

abbreviation backslash :: char where "backslash \<equiv> CHR 0x5C"

definition quote_rune :: "(nat \<Rightarrow> bool) \<Rightarrow> nat \<times> string \<Rightarrow> string" where
  "quote_rune printable = (\<lambda>(r, bs).
     if r = 0xFFFD \<and> length bs = 1 then backslash # CHR ''x'' # hex_digits 2 (byte (hd bs))
     else if r = 34 \<or> r = 92 then backslash # bs
     else if (if r < 0x80 then 0x20 \<le> r \<and> r < 0x7F else printable r) then bs
     else if r = 7 then [backslash, CHR ''a''] else if r = 8 then [backslash, CHR ''b'']
     else if r = 12 then [backslash, CHR ''f''] else if r = 10 then [backslash, CHR ''n'']
     else if r = 13 then [backslash, CHR ''r''] else if r = 9 then [backslash, CHR ''t'']
     else if r = 11 then [backslash, CHR ''v'']
     else if r < 0x20 \<or> r = 0x7F then backslash # CHR ''x'' # hex_digits 2 r
     else if r < 0x10000 then backslash # CHR ''u'' # hex_digits 4 r
     else backslash # CHR ''U'' # hex_digits 8 r)"

definition strconv_Quote :: "(nat \<Rightarrow> bool) \<Rightarrow> string \<Rightarrow> string" where
  "strconv_Quote printable s = CHR 34 # concat (map (quote_rune printable) (go_runes s)) @ [CHR 34]"

section \<open>Results\<close>

record ws_result =
  wr_Content :: string
  wr_IsError :: bool

abbreviation maxWorkbenchResult :: nat where "maxWorkbenchResult \<equiv> 65536"
abbreviation minWorkbenchResult :: nat where "minWorkbenchResult \<equiv> 4096"
abbreviation maxQuotedPath :: int where "maxQuotedPath \<equiv> 256"
abbreviation noteRoom :: nat where "noteRoom \<equiv> 256"

definition workbenchError :: "(nat \<Rightarrow> bool) \<Rightarrow> string \<Rightarrow> ws_code \<Rightarrow> string \<Rightarrow> ws_result" where
  "workbenchError printable tool code rel =
     (let t = tool @ '' error: '' @ code_text code in
      \<lparr>wr_Content = (if rel \<noteq> [] then t @ '': '' @ strconv_Quote printable (Cut rel maxQuotedPath) else t), wr_IsError = True\<rparr>)"

text \<open>The budget of \<open>OpenWorkspace\<close>.\<close>

definition ws_budget :: "int \<Rightarrow> nat" where
  "ws_budget limit = (if limit > 0 \<and> limit < int maxWorkbenchResult then nat limit else maxWorkbenchResult)"

definition room_of :: "nat \<Rightarrow> nat" where
  "room_of budget = max (budget - noteRoom) (budget div 2)"

section \<open>A page of a file\<close>

definition line_count :: "string \<Rightarrow> nat" where
  "line_count d = count_list d (CHR 0x0A) + (if d \<noteq> [] \<and> last d \<noteq> CHR 0x0A then 1 else 0)"

text \<open>The end of the line starting at \<open>i\<close>, its newline included.\<close>

definition lineEnd :: "string \<Rightarrow> nat \<Rightarrow> nat" where
  "lineEnd d i = (let l = length (takeWhile (\<lambda>c. c \<noteq> CHR 0x0A) (drop i d)) in
     if i + l < length d then i + l + 1 else length d)"

fun line_start :: "string \<Rightarrow> nat \<Rightarrow> nat" where
  "line_start d 0 = 0"
| "line_start d (Suc n) = lineEnd d (line_start d n)"

text \<open>What a page shows: nothing but a note, the start of a line too long for it, or whole lines up to \<open>last\<close>.\<close>

datatype page = EmptyFile | PastEnd nat | LongLine string | Lines string nat nat

function page_loop :: "string \<Rightarrow> nat \<Rightarrow> nat \<Rightarrow> nat \<Rightarrow> nat \<Rightarrow> nat \<Rightarrow> nat \<Rightarrow> nat \<Rightarrow> page" where
  "page_loop d offset limit lines room start end' last' =
     (if last' < lines \<and> last' + 1 - offset < limit then
        let nxt = lineEnd d end' in
        if nxt - start > room then
          (if end' = start then LongLine (Cut (take (min nxt (start + room + 4) - start) (drop start d)) (int room))
           else Lines (take (end' - start) (drop start d)) last' lines)
        else page_loop d offset limit lines room start nxt (last' + 1)
      else Lines (take (end' - start) (drop start d)) last' lines)"
  by pat_completeness auto
termination
  by (relation "measure (\<lambda>(d, offset, limit, lines, room, start, end', last'). lines - last')") auto

definition read_page :: "string \<Rightarrow> nat \<Rightarrow> nat \<Rightarrow> nat \<Rightarrow> page" where
  "read_page d offset limit budget =
     (let lines = line_count d in
      if lines = 0 then EmptyFile
      else if offset > lines then PastEnd lines
      else let start = line_start d (offset - 1) in
        page_loop d offset limit lines (room_of budget) start start (offset - 1))"

fun page_text :: "nat \<Rightarrow> page \<Rightarrow> string" where
  "page_text offset EmptyFile = ''[read_file: the file is empty]''"
| "page_text offset (PastEnd lines) = ''[read_file: the file has '' @ strconv_Itoa lines @ '' lines; offset '' @ strconv_Itoa offset
     @ '' is past its end]''"
| "page_text offset (LongLine shown) = shown @ [CHR 0x0A] @ ''[read_file: line '' @ strconv_Itoa offset
     @ '' is longer than one result; only its first '' @ strconv_Itoa (length shown) @ '' bytes are shown. Continue with offset ''
     @ strconv_Itoa (offset + 1) @ '']''"
| "page_text offset (Lines body last' lines) =
     (if last' = lines then body
      else (if strings_HasSuffix body [CHR 0x0A] then body else body @ [CHR 0x0A])
        @ ''[read_file: lines '' @ strconv_Itoa offset @ ''-'' @ strconv_Itoa last' @ '' of '' @ strconv_Itoa lines
        @ '' shown. Continue with offset '' @ strconv_Itoa (last' + 1) @ '']'')"

definition readLines :: "string \<Rightarrow> nat \<Rightarrow> nat \<Rightarrow> nat \<Rightarrow> string" where
  "readLines d offset limit budget = page_text offset (read_page d offset limit budget)"

section \<open>Edits\<close>

text \<open>\<open>strings.Count\<close> for a non-empty \<open>old\<close>.\<close>

function strings_Count :: "string \<Rightarrow> string \<Rightarrow> nat" where
  "strings_Count s sub =
     (if sub = [] \<or> s = [] then 0
      else if strings_HasPrefix s sub then Suc (strings_Count (drop (length sub) s) sub)
      else strings_Count (tl s) sub)"
  by pat_completeness auto
termination
  by (relation "measure (\<lambda>(s, sub). length s)") auto

declare strings_Count.simps [simp del] page_loop.simps [simp del]

definition applyEdit :: "string \<Rightarrow> string \<Rightarrow> string \<Rightarrow> bool \<Rightarrow> ws_code + string" where
  "applyEdit content old new all =
     (let count = strings_Count content old in
      if count = 0 then Inl MatchNotFound
      else if count \<noteq> 1 \<and> \<not> all then Inl MatchNotUnique
      else let matches = (if all then count else 1);
               len = (of_nat (length content) - of_nat matches * of_nat (length old) + of_nat matches * of_nat (length new) :: 64 word)
        in if len > 1048576 then Inl FileTooLarge
           else Inr (if all then strings_ReplaceAll content old new else strings_Replace1 content old new))"

section \<open>Lines\<close>

abbreviation nl :: char where "nl \<equiv> CHR 0x0A"

lemma lineEnd_cases:
  obtains (line) l r where "drop i d = l @ nl # r" "nl \<notin> set l" "lineEnd d i = i + length l + 1"
  | (rest) "nl \<notin> set (drop i d)" "lineEnd d i = length d"
proof (cases "nl \<in> set (drop i d)")
  case True
  then obtain l r where l: "drop i d = l @ nl # r" "nl \<notin> set l" by (metis split_list_first)
  have "takeWhile (\<lambda>c. c \<noteq> nl) (drop i d) = l" unfolding l(1) using l(2) by (subst takeWhile_append2) auto
  moreover have "i + length l < length d"
    using arg_cong [OF l(1), of length] by simp
  ultimately have "lineEnd d i = i + length l + 1" by (simp add: lineEnd_def)
  with l that(1) show thesis by blast
next
  case False
  then have "takeWhile (\<lambda>c. c \<noteq> nl) (drop i d) = drop i d" by (auto simp: takeWhile_eq_all_conv)
  then have "lineEnd d i = length d" by (simp only: lineEnd_def Let_def) (simp; arith)
  with False that(2) show thesis by blast
qed

lemma lineEnd_shift: "i \<le> length d \<Longrightarrow> lineEnd d i = i + lineEnd (drop i d) 0"
  by (auto simp: lineEnd_def Let_def)

lemma lineEnd_grows: "i < length d \<Longrightarrow> i < lineEnd d i"
  by (auto simp: lineEnd_def Let_def)

lemma lineEnd_le: "i \<le> length d \<Longrightarrow> i \<le> lineEnd d i \<and> lineEnd d i \<le> length d"
  by (auto simp: lineEnd_def Let_def)

text \<open>The lines of a text, each with its newline.\<close>

function file_lines :: "string \<Rightarrow> string list" where
  "file_lines d = (if d = [] then [] else take (lineEnd d 0) d # file_lines (drop (lineEnd d 0) d))"
  by pat_completeness auto
termination
  by (relation "measure length") (use lineEnd_grows in fastforce)+

declare file_lines.simps [simp del]

lemma file_lines_Nil [simp]: "file_lines [] = []"
  by (simp add: file_lines.simps)

lemma file_lines_eq: "d \<noteq> [] \<Longrightarrow> file_lines d = take (lineEnd d 0) d # file_lines (drop (lineEnd d 0) d)"
  by (subst file_lines.simps) simp

lemma concat_file_lines: "concat (file_lines d) = d"
  by (induction d rule: file_lines.induct) (subst file_lines.simps, simp)

lemma length_file_lines: "length (file_lines d) = line_count d"
proof (induction d rule: file_lines.induct)
  case (1 d)
  show ?case
  proof (cases "d = []")
    case False
    note IH = 1 [OF False]
    show ?thesis
    proof (cases rule: lineEnd_cases [of 0 d])
      case (line l r)
      then have "drop (lineEnd d 0) d = r" "d = l @ nl # r" by simp_all
      moreover have "count_list l nl = 0" using line(2) by (simp add: count_list_0_iff)
      ultimately have "line_count d = Suc (line_count (drop (lineEnd d 0) d))" by (auto simp: line_count_def)
      with IH False show ?thesis by (simp add: file_lines_eq)
    next
      case rest
      then have "count_list d nl = 0" by (simp add: count_list_0_iff)
      moreover have "last d \<noteq> nl" using rest(1) False by (metis drop0 last_in_set)
      ultimately have "line_count d = 1" using False by (simp add: line_count_def)
      with rest False show ?thesis by (simp add: file_lines_eq)
    qed
  qed (simp add: line_count_def)
qed

lemma line_start_le: "line_start d n \<le> length d"
  by (induction n) (use lineEnd_le in auto)

lemma drop_line_start: "concat (drop n (file_lines d)) = drop (line_start d n) d"
  and line_start_take: "line_start d n = length (concat (take n (file_lines d)))"
proof -
  have "line_start d n = length (concat (take n (file_lines d))) \<and> file_lines (drop (line_start d n) d) = drop n (file_lines d)"
  proof (induction n)
    case (Suc n)
    let ?r = "drop (line_start d n) d"
    show ?case
    proof (cases "?r = []")
      case True
      with Suc have all: "drop n (file_lines d) = []" by simp
      from True have "line_start d n = length d" using line_start_le [of d n] by simp
      with Suc all show ?thesis by (auto simp: lineEnd_def)
    next
      case False
      have ls: "line_start d (Suc n) = line_start d n + lineEnd ?r 0"
        using lineEnd_shift [OF line_start_le] by simp
      have dn: "drop n (file_lines d) = take (lineEnd ?r 0) ?r # file_lines (drop (lineEnd ?r 0) ?r)"
        using trans [OF sym [OF conjunct2 [OF Suc]] file_lines_eq [OF False]] .
      then have n: "n < length (file_lines d)" "file_lines d ! n = take (lineEnd ?r 0) ?r"
        "drop (Suc n) (file_lines d) = file_lines (drop (lineEnd ?r 0) ?r)"
        by (metis drop_all list.distinct(1) not_le_imp_less, metis (no_types) drop_all hd_drop_conv_nth list.distinct(1) list.sel(1) not_le_imp_less,
            metis (no_types) drop_Suc drop_tl list.sel(3))
      have "lineEnd ?r 0 \<le> length ?r" using lineEnd_le [of 0 ?r] by simp
      then have "length (take (lineEnd ?r 0) ?r) = lineEnd ?r 0" by simp
      then have "line_start d (Suc n) = length (concat (take (Suc n) (file_lines d)))"
        using ls n Suc by (simp add: take_Suc_conv_app_nth)
      with ls n(3) show ?thesis by (simp add: add.commute)
    qed
  qed simp
  then show "line_start d n = length (concat (take n (file_lines d)))" by simp
  then show "concat (drop n (file_lines d)) = drop (line_start d n) d"
    by (metis append_eq_conv_conj append_take_drop_id concat_append concat_file_lines)
qed

lemma file_lines_nonempty: "l \<in> set (file_lines d) \<Longrightarrow> l \<noteq> []"
proof (induction d rule: file_lines.induct)
  case (1 d)
  then show ?case
    using lineEnd_grows [of 0 d] by (cases "d = []") (auto simp: file_lines_eq)
qed

lemma line_start_inside: "n < line_count d \<Longrightarrow> line_start d n < length d"
proof -
  assume "n < line_count d"
  then have "drop n (file_lines d) \<noteq> []" by (simp add: length_file_lines)
  then obtain l ls where "drop n (file_lines d) = l # ls" by (cases "drop n (file_lines d)") auto
  then have "l \<in> set (file_lines d)" by (metis in_set_dropD list.set_intros(1))
  then have "concat (drop n (file_lines d)) \<noteq> []"
    using file_lines_nonempty \<open>drop n (file_lines d) = l # ls\<close> by auto
  then show ?thesis by (simp add: drop_line_start)
qed

lemma line_start_mono: "m \<le> n \<Longrightarrow> line_start d m \<le> line_start d n"
proof (induction n rule: dec_induct)
  case (step n)
  then show ?case using lineEnd_le [OF line_start_le [of d n]] by simp
qed simp

lemma line_start_strict: "m < n \<Longrightarrow> n \<le> line_count d \<Longrightarrow> line_start d m < line_start d n"
  using lineEnd_grows [OF line_start_inside [of m d]] line_start_mono [of "Suc m" n d] by simp

lemma line_start_end: "line_start d (line_count d) = length d"
  using drop_line_start [of "line_count d" d] line_start_le [of d "line_count d"] by (simp add: length_file_lines)

text \<open>The bytes of lines \<open>k\<close> to \<open>l\<close>, counted from 0, the last one excluded.\<close>

definition line_range :: "string \<Rightarrow> nat \<Rightarrow> nat \<Rightarrow> string" where
  "line_range d k l = take (line_start d l - line_start d k) (drop (line_start d k) d)"

lemma line_range_lines: "k \<le> l \<Longrightarrow> line_range d k l = concat (take (l - k) (drop k (file_lines d)))"
proof -
  assume "k \<le> l"
  have "concat (take (l - k) (drop k (file_lines d))) @ concat (drop l (file_lines d)) = drop (line_start d k) d"
    using \<open>k \<le> l\<close> append_take_drop_id [of "l - k" "drop k (file_lines d)"]
    by (metis concat_append drop_drop drop_line_start le_add_diff_inverse2)
  then have app: "concat (take (l - k) (drop k (file_lines d))) @ drop (line_start d l) d = drop (line_start d k) d"
    by (simp add: drop_line_start)
  have "length (concat (take (l - k) (drop k (file_lines d)))) + (length d - line_start d l) = length d - line_start d k"
    using arg_cong [OF app, of length] by simp
  then have "length (concat (take (l - k) (drop k (file_lines d)))) = line_start d l - line_start d k"
    using line_start_le [of d l] by linarith
  with app show ?thesis by (metis append_eq_conv_conj line_range_def)
qed

lemma line_range_append: "k \<le> m \<Longrightarrow> m \<le> l \<Longrightarrow> line_range d k m @ line_range d m l = line_range d k l"
proof -
  assume "k \<le> m" "m \<le> l"
  let ?L = "drop k (file_lines d)"
  have "take (m - k) ?L @ take (l - m) (drop (m - k) ?L) = take ((m - k) + (l - m)) ?L" by (rule take_add [symmetric])
  then show ?thesis
    using \<open>k \<le> m\<close> \<open>m \<le> l\<close> by (simp add: line_range_lines flip: concat_append)
qed

lemma line_range_all: "line_range d 0 (line_count d) = d"
  by (simp add: line_range_def line_start_end)

lemma length_line_range: "k \<le> l \<Longrightarrow> length (line_range d k l) = line_start d l - line_start d k"
  using line_start_le [of d l] by (simp add: line_range_def)

lemma page_loop_spec:
  assumes "k \<le> m" "m \<le> line_count d" "line_start d m - line_start d k \<le> room"
  shows "(\<exists>l. page_loop d (Suc k) limit (line_count d) room (line_start d k) (line_start d m) m = Lines (line_range d k l) l (line_count d)
            \<and> m \<le> l \<and> l \<le> line_count d \<and> line_start d l - line_start d k \<le> room
            \<and> (m < line_count d \<longrightarrow> m - k < limit \<longrightarrow> line_start d (Suc m) - line_start d k \<le> room \<longrightarrow> m < l))
       \<or> (m = k \<and> k < line_count d \<and> room < line_start d (Suc k) - line_start d k
            \<and> page_loop d (Suc k) limit (line_count d) room (line_start d k) (line_start d m) m
              = LongLine (Cut (take (min (line_start d (Suc k)) (line_start d k + room + 4) - line_start d k) (drop (line_start d k) d)) (int room)))"
  using assms
proof (induction "line_count d - m" arbitrary: m)
  case (Suc x)
  then have m: "m < line_count d" by simp
  have same: "line_start d m = line_start d k \<longleftrightarrow> m = k"
    using line_start_strict [of k m d] Suc.prems by (cases "m = k") auto
  show ?case
  proof (cases "m - k < limit \<and> line_start d (Suc m) - line_start d k \<le> room")
    case True
    then have step: "page_loop d (Suc k) limit (line_count d) room (line_start d k) (line_start d m) m
      = page_loop d (Suc k) limit (line_count d) room (line_start d k) (line_start d (Suc m)) (Suc m)"
      using m Suc.prems by (subst page_loop.simps) (auto simp: Let_def)
    have "x = line_count d - Suc m" using Suc by simp
    from Suc.hyps(1) [OF this] True m Suc.prems show ?thesis unfolding step by fastforce
  next
    case False
    with m Suc.prems show ?thesis
      by (subst (1 2) page_loop.simps) (auto simp: Let_def line_range_def same not_le)
  qed
qed (subst (1 2) page_loop.simps, auto simp: line_range_def)

lemma read_page_cases [consumes 1, case_names empty past long lines]:
  assumes "1 \<le> offset"
  obtains (empty) "line_count d = 0" "read_page d offset limit budget = EmptyFile"
  | (past) "line_count d < offset" "read_page d offset limit budget = PastEnd (line_count d)"
  | (long) shown where "offset \<le> line_count d" "read_page d offset limit budget = LongLine shown" "length shown \<le> room_of budget"
      "room_of budget < length (file_lines d ! (offset - 1))"
  | (lines) l where "offset \<le> line_count d" "read_page d offset limit budget = Lines (line_range d (offset - 1) l) l (line_count d)"
      "l \<le> line_count d" "length (line_range d (offset - 1) l) \<le> room_of budget" "offset - 1 \<le> l"
      "1 \<le> limit \<Longrightarrow> length (file_lines d ! (offset - 1)) \<le> room_of budget \<Longrightarrow> offset \<le> l"
proof -
  obtain k where k: "offset = Suc k" using assms by (cases offset) auto
  consider "line_count d = 0" | "line_count d < offset" "line_count d \<noteq> 0" | "offset \<le> line_count d" "line_count d \<noteq> 0" by linarith
  then show thesis
  proof cases
    case 3
    have line: "length (file_lines d ! k) = line_start d (Suc k) - line_start d k"
      using 3 k by (simp add: line_start_take take_Suc_conv_app_nth length_file_lines del: line_start.simps)
    have "k \<le> line_count d" using 3 k by simp
    have "line_start d k - line_start d k \<le> room_of budget" by simp
    from page_loop_spec [OF le_refl \<open>k \<le> line_count d\<close> this, of limit] show ?thesis
    proof (elim disjE exE conjE)
      fix l assume "page_loop d (Suc k) limit (line_count d) (room_of budget) (line_start d k) (line_start d k) k
        = Lines (line_range d k l) l (line_count d)"
        "k \<le> l" "l \<le> line_count d" "line_start d l - line_start d k \<le> room_of budget"
        "k < line_count d \<longrightarrow> k - k < limit \<longrightarrow> line_start d (Suc k) - line_start d k \<le> room_of budget \<longrightarrow> k < l"
      then show ?thesis using 3 k line by (intro lines [of l]) (auto simp: read_page_def Let_def length_line_range)
    next
      let ?shown = "Cut (take (min (line_start d (Suc k)) (line_start d k + room_of budget + 4) - line_start d k) (drop (line_start d k) d)) (int (room_of budget))"
      assume "room_of budget < line_start d (Suc k) - line_start d k"
        "page_loop d (Suc k) limit (line_count d) (room_of budget) (line_start d k) (line_start d k) k = LongLine ?shown"
      then show ?thesis using 3 k line Cut_length [of _ "int (room_of budget)"]
        by (intro long [of ?shown]) (auto simp: read_page_def Let_def simp del: line_start.simps)
    qed
  qed (use empty past in \<open>auto simp: read_page_def\<close>)
qed

lemma line_start_after: "0 < n \<Longrightarrow> n < line_count d \<Longrightarrow> d ! (line_start d n - 1) = nl"
proof -
  assume n: "0 < n" "n < line_count d"
  then obtain m where m: "n = Suc m" by (cases n) auto
  have end': "line_start d n = lineEnd d (line_start d m)" "line_start d n < length d"
    using line_start_inside [OF n(2)] by (simp_all add: m)
  show ?thesis
  proof (cases rule: lineEnd_cases [of "line_start d m" d])
    case (line l r)
    have "drop (line_start d m) d ! length l = nl" by (simp add: line(1))
    then show ?thesis using line(3) end'(1) line_start_le [of d m] by simp
  qed (use end' in simp)
qed

lemma line_range_last: "k < l \<Longrightarrow> l < line_count d \<Longrightarrow> line_range d k l \<noteq> [] \<and> last (line_range d k l) = nl"
proof -
  assume l: "k < l" "l < line_count d"
  then have s: "line_start d k < line_start d l" "line_start d l < length d"
    using line_start_strict [of k l d] line_start_inside [of l d] by simp_all
  then have len: "length (line_range d k l) = line_start d l - line_start d k" using length_line_range l by simp
  then have "line_range d k l \<noteq> []" using s by auto
  moreover have "line_range d k l ! (line_start d l - line_start d k - 1) = d ! (line_start d l - 1)"
    using s by (simp add: line_range_def)
  ultimately show ?thesis using line_start_after [of l d] l len by (simp add: last_conv_nth)
qed

text \<open>
  A caller that has nothing but the texts: it looks at the last line of each page and, when that line is a note about the
  lines shown, asks again at the decimal number the note ends with.
\<close>

definition last_line :: "string \<Rightarrow> string" where
  "last_line t = rev (takeWhile (\<lambda>c. c \<noteq> nl) (rev t))"

definition note_offset :: "string \<Rightarrow> nat" where
  "note_offset l = foldl (\<lambda>a c. 10 * a + (byte c - 48)) 0 (rev (takeWhile (\<lambda>c. ascii_digit (byte c)) (tl (rev l))))"

definition reads_on :: "string \<Rightarrow> bool" where
  "reads_on t \<longleftrightarrow> strings_HasPrefix (last_line t) ''[read_file: lines ''"

partial_function (option) read_on :: "string \<Rightarrow> nat \<Rightarrow> nat \<Rightarrow> nat \<Rightarrow> string option" where
  "read_on d limit budget offset =
     (let t = readLines d offset limit budget in
      if reads_on t
      then Option.bind (read_on d limit budget (note_offset (last_line t)))
             (\<lambda>rest. Some (take (length t - length (last_line t)) t @ rest))
      else Some t)"

lemma last_line_append: "b \<noteq> [] \<Longrightarrow> last b = nl \<Longrightarrow> last_line (b @ t) = last_line t"
  by (cases b rule: rev_cases) (simp_all add: last_line_def takeWhile_tail)

lemma last_line_self: "nl \<notin> set t \<Longrightarrow> last_line t = t"
proof -
  assume "nl \<notin> set t"
  then have "takeWhile (\<lambda>c. c \<noteq> nl) (rev t) = rev t" by (subst takeWhile_eq_all_conv) auto
  then show ?thesis by (simp only: last_line_def rev_rev_ident)
qed

lemma Itoa_no_nl: "nl \<notin> set (strconv_Itoa n)"
  using Itoa_digits [of n] by (auto simp: list_all_iff ascii_digit_def)

definition page_note :: "nat \<Rightarrow> nat \<Rightarrow> nat \<Rightarrow> string" where
  "page_note offset l lines = ''[read_file: lines '' @ strconv_Itoa offset @ ''-'' @ strconv_Itoa l @ '' of '' @ strconv_Itoa lines
     @ '' shown. Continue with offset '' @ strconv_Itoa (l + 1) @ '']''"

lemma page_note_line: "nl \<notin> set (page_note offset l lines)" "strings_HasPrefix (page_note offset l lines) ''[read_file: lines ''"
  by (simp_all add: page_note_def Itoa_no_nl HasPrefix_iff)

lemma page_note_offset: "note_offset (page_note offset l lines) = l + 1"
proof -
  have "takeWhile (\<lambda>c. ascii_digit (byte c)) (rev (strconv_Itoa (l + 1)) @ CHR 32 # r) = rev (strconv_Itoa (l + 1))" for r
    using Itoa_digits [of "l + 1"] by (subst takeWhile_append2) (auto simp: list_all_iff ascii_digit_def)
  then show ?thesis using Itoa_value [of "l + 1"] by (simp add: note_offset_def page_note_def)
qed

lemma page_with_note:
  assumes "read_page d offset limit budget = Lines (line_range d (offset - 1) l) l (line_count d)" "1 \<le> offset" "offset \<le> l" "l < line_count d"
  shows "readLines d offset limit budget = line_range d (offset - 1) l @ page_note offset l (line_count d)"
    and "last_line (readLines d offset limit budget) = page_note offset l (line_count d)"
proof -
  have ends: "line_range d (offset - 1) l \<noteq> []" "last (line_range d (offset - 1) l) = nl"
    using line_range_last [of "offset - 1" l d] assms by auto
  then have "strings_HasSuffix (line_range d (offset - 1) l) [nl]"
    by (metis HasSuffix_iff append_butlast_last_id suffixI)
  then show eq: "readLines d offset limit budget = line_range d (offset - 1) l @ page_note offset l (line_count d)"
    using assms by (simp add: readLines_def page_note_def)
  show "last_line (readLines d offset limit budget) = page_note offset l (line_count d)"
    unfolding eq using ends page_note_line(1) by (simp add: last_line_append last_line_self)
qed

lemma last_line_range: "k < line_count d \<Longrightarrow> last_line (line_range d k (line_count d)) = last_line d"
proof (cases "k = 0")
  case False
  assume "k < line_count d"
  then show ?thesis
    using False line_range_last [of 0 k d] line_range_append [of 0 k "line_count d" d] line_range_all [of d]
    by (metis last_line_append less_imp_le neq0_conv zero_le)
qed (simp add: line_range_all)

lemma read_on_suffix:
  assumes "1 \<le> offset" "offset \<le> line_count d" "1 \<le> limit" "list_all (\<lambda>l. length l \<le> room_of budget) (file_lines d)" "\<not> reads_on d"
  shows "read_on d limit budget offset = Some (line_range d (offset - 1) (line_count d))"
  using assms(1,2)
proof (induction "line_count d - offset" arbitrary: offset rule: less_induct)
  case less
  have short: "length (file_lines d ! (offset - 1)) \<le> room_of budget"
    using less.prems assms(4) by (simp add: list_all_iff length_file_lines)
  from less.prems(1) show ?case
  proof (cases rule: read_page_cases [where d = d and limit = limit and budget = budget])
    case (lines l)
    then have l: "offset \<le> l" using short assms(3) by blast
    show ?thesis
    proof (cases "l < line_count d")
      case True
      note page = page_with_note [OF lines(2) less.prems(1) l True]
      have "read_on d limit budget (l + 1) = Some (line_range d l (line_count d))"
        using less.hyps [of "l + 1"] True l by simp
      then have "read_on d limit budget offset = Some (line_range d (offset - 1) l @ line_range d l (line_count d))"
        using page page_note_offset [of offset l] page_note_line(2)
        by (subst read_on.simps) (simp add: Let_def reads_on_def)
      then show ?thesis using l True by (simp add: line_range_append)
    next
      case False
      then have "readLines d offset limit budget = line_range d (offset - 1) (line_count d)"
        using lines by (simp add: readLines_def)
      moreover from this have "\<not> reads_on (readLines d offset limit budget)"
        using last_line_range [of "offset - 1" d] less.prems assms(5) by (simp add: reads_on_def)
      ultimately show ?thesis by (subst read_on.simps) (simp add: Let_def)
    qed
  qed (use less.prems short in auto)
qed

section \<open>Sizes\<close>

lemma Itoa_length: "n < 10 ^ Suc k \<Longrightarrow> length (strconv_Itoa n) \<le> Suc k"
proof (induction k arbitrary: n)
  case (Suc k)
  have "n div 10 < 10 ^ Suc k" using Suc.prems by (simp add: less_mult_imp_div_less)
  from Suc.IH [OF this] show ?case by (subst strconv_Itoa.simps) auto
qed (subst strconv_Itoa.simps, simp)

lemma line_count_le: "line_count d \<le> length d"
proof -
  have "sum_list (map (\<lambda>_. 1) (file_lines d)) \<le> sum_list (map length (file_lines d))"
    by (rule sum_list_mono) (use file_lines_nonempty in \<open>auto simp: Suc_le_eq\<close>)
  then show ?thesis
    using concat_file_lines [of d] length_concat [of "file_lines d"] by (simp add: length_file_lines sum_list_triv)
qed

lemma page_fits:
  assumes "1 \<le> offset" "offset < 2 ^ 63" "length d \<le> 16777216" "512 \<le> budget" "budget \<le> maxWorkbenchResult"
  shows "length (readLines d offset limit budget) \<le> budget"
proof -
  have room: "room_of budget = budget - 256" using assms(4) by (auto simp: room_of_def)
  have small: "length (strconv_Itoa n) \<le> 8" if "n \<le> 16777217" for n
    using Itoa_length [of n 7] that by simp
  have big: "length (strconv_Itoa offset) \<le> 20" using Itoa_length [of offset 19] assms(2) by simp
  have lc: "line_count d \<le> 16777216" using line_count_le [of d] assms(3) by linarith
  from assms(1) show ?thesis
  proof (cases rule: read_page_cases [where d = d and limit = limit and budget = budget])
    case empty
    then show ?thesis using assms(4) by (simp add: readLines_def)
  next
    case past
    then show ?thesis using assms(4) big small [of "line_count d"] lc by (simp add: readLines_def)
  next
    case (long shown)
    have "length shown \<le> 16777217" using long(3) assms(5) room by simp
    then show ?thesis
      using long assms(4) lc small [of offset] small [of "length shown"] small [of "offset + 1"] room by (simp add: readLines_def)
  next
    case (lines l)
    then show ?thesis
      using assms(4) lc small [of offset] small [of l] small [of "line_count d"] small [of "l + 1"] room
      by (auto simp: readLines_def)
  qed
qed

lemma hex_digits_length [simp]: "length (hex_digits k v) = k"
  by (induction k arbitrary: v) auto

lemma rune_bytes:
  "(r, bs) \<in> set (go_runes s) \<Longrightarrow>
     bs \<noteq> [] \<and> (0x80 \<le> r \<longrightarrow> r = 0xFFFD \<and> length bs = 1 \<or> 2 \<le> length bs) \<and> (0x10000 \<le> r \<longrightarrow> 3 \<le> length bs)"
proof (induction s rule: go_runes.induct)
  case (2 a s)
  let ?n = "rune_size (a # s)"
  show ?case
  proof (cases "?n = 0")
    case False
    have le: "?n \<le> length (a # s)" by (rule rune_size_le)
    consider (rest) "(r, bs) \<in> set (go_runes (drop ?n (a # s)))" | (here) "r = rune_value ?n (a # s)" "bs = take ?n (a # s)"
      using 2(3) False by (auto simp: Let_def)
    then show ?thesis
    proof cases
      case rest
      then show ?thesis using 2(2) [OF refl False] by blast
    next
      case here
      have one: "?n = 1 \<Longrightarrow> byte a < 0x80" by (auto simp: rune_size.simps split: if_splits list.splits)
      have "byte a - 192 < 64" "byte (s ! 0) - 128 < 128"
        using nat_of_char_less_256 [of a] nat_of_char_less_256 [of "s ! 0"] by linarith+
      then have "?n = 2 \<Longrightarrow> r < 0x10000" by (simp add: here(1) rune_value_def)
      then show ?thesis using le here one False by (cases "?n = 1"; cases "?n = 2") (auto simp: rune_value_def)
    qed
  qed (use 2 in \<open>auto simp: Let_def\<close>)
qed simp

lemma quote_rune_length: "(r, bs) \<in> set (go_runes s) \<Longrightarrow> length (quote_rune printable (r, bs)) \<le> 4 * length bs"
  using rune_bytes [of r bs s] by (cases bs) (auto simp: quote_rune_def)

lemma Quote_length: "length (strconv_Quote printable s) \<le> 4 * length s + 2"
proof -
  have "sum_list (map (\<lambda>x. length (quote_rune printable x)) (go_runes s)) \<le> sum_list (map (\<lambda>x. 4 * length (snd x)) (go_runes s))"
    by (rule sum_list_mono) (use quote_rune_length in fastforce)
  moreover have "sum_list (map (\<lambda>x. length (snd x)) (go_runes s)) = length s"
    using arg_cong [OF go_runes_concat [of s], of length] by (simp add: length_concat comp_def)
  then have "sum_list (map (\<lambda>x. 4 * length (snd x)) (go_runes s)) = 4 * length s"
    by (simp add: sum_list_const_mult)
  ultimately show ?thesis by (simp add: strconv_Quote_def length_concat comp_def)
qed

lemma code_text_length: "length (code_text c) \<le> 22"
  by (cases c) auto

lemma error_fits: "length tool \<le> 64 \<Longrightarrow> length (wr_Content (workbenchError printable tool code rel)) \<le> 1200"
proof -
  assume "length tool \<le> 64"
  moreover have "length (Cut rel maxQuotedPath) \<le> 256" using Cut_length [of rel maxQuotedPath] by simp
  ultimately show ?thesis
    using Quote_length [of printable "Cut rel maxQuotedPath"] code_text_length [of code]
    by (simp add: workbenchError_def Let_def)
qed

section \<open>Occurrences\<close>

lemma Count_Nil [simp]: "strings_Count [] sub = 0"
  by (subst strings_Count.simps) simp

lemma Count_hit: "sub \<noteq> [] \<Longrightarrow> strings_Count (sub @ s) sub = Suc (strings_Count s sub)"
  by (subst strings_Count.simps) (simp add: HasPrefix_iff)

lemma Count_miss: "\<not> prefix sub (c # s) \<Longrightarrow> strings_Count (c # s) sub = strings_Count s sub"
  by (cases "sub = []"; subst strings_Count.simps) (auto simp: HasPrefix_iff)

text \<open>A text read from its first occurrence of \<open>sub\<close>.\<close>

lemma occurrence_induct [consumes 1, case_names none hit miss]:
  assumes "sub \<noteq> []" "P []" "\<And>s. P s \<Longrightarrow> P (sub @ s)" "\<And>c s. \<not> prefix sub (c # s) \<Longrightarrow> P s \<Longrightarrow> P (c # s)"
  shows "P s"
proof (induction s rule: length_induct)
  case (1 s)
  show ?case
  proof (cases s)
    case (Cons c cs)
    show ?thesis
    proof (cases "prefix sub s")
      case True
      then obtain t where "s = sub @ t" by (auto simp: prefix_def)
      with 1 assms(1,3) show ?thesis by auto
    next
      case False
      with 1 Cons assms(4) show ?thesis by auto
    qed
  qed (use assms(2) in simp)
qed

lemma Count_0_iff:
  assumes "sub \<noteq> []"
  shows "strings_Count s sub = 0 \<longleftrightarrow> \<not> sublist sub s"
  using assms
proof (induction s rule: occurrence_induct)
  case (miss c s)
  then show ?case by (auto simp: Count_miss sublist_Cons_right)
qed (auto simp: Count_hit assms)

lemma ReplaceAll_length:
  assumes "old \<noteq> []"
  shows "length (strings_ReplaceAll s old new) + strings_Count s old * length old = length s + strings_Count s old * length new"
  using assms
  by (induction s rule: occurrence_induct) (auto simp: assms Count_hit Count_miss ReplaceAll_hit ReplaceAll_miss)

lemma Count_length:
  assumes "old \<noteq> []"
  shows "strings_Count s old * length old \<le> length s"
  using assms by (induction s rule: occurrence_induct) (auto simp: assms Count_hit Count_miss)

lemma ReplaceAll_none:
  assumes "old \<noteq> []"
  shows "strings_Count s old = 0 \<Longrightarrow> strings_ReplaceAll s old new = s"
  using assms by (induction s rule: occurrence_induct) (auto simp: assms Count_hit Count_miss ReplaceAll_miss)

lemma Replace1_unique:
  assumes "old \<noteq> []"
  shows "strings_Count s old = 1 \<Longrightarrow> strings_Replace1 s old new = strings_ReplaceAll s old new"
  using assms
proof (induction s rule: occurrence_induct)
  case (hit s)
  have "strings_Index (old @ s) old = Some 0" using assms by (cases old) (auto simp: HasPrefix_iff)
  with hit show ?case by (simp add: assms strings_Replace1_def ReplaceAll_hit Count_hit ReplaceAll_none)
next
  case (miss c s)
  then show ?case
    by (auto simp: assms strings_Replace1_def ReplaceAll_miss Count_miss HasPrefix_iff split: option.splits)
qed simp_all

lemma Count_twice:
  assumes "old \<noteq> []"
  shows "2 \<le> strings_Count s old \<longleftrightarrow> (\<exists>a b c. s = a @ old @ b @ old @ c)"
  using assms
proof (induction s rule: occurrence_induct)
  case (hit s)
  have "sublist old s \<longleftrightarrow> (\<exists>a b c. old @ s = a @ old @ b @ old @ c)"
  proof
    assume "sublist old s"
    then obtain b c where "s = b @ old @ c" by (auto simp: sublist_def)
    then have "old @ s = [] @ old @ b @ old @ c" by simp
    then show "\<exists>a b c. old @ s = a @ old @ b @ old @ c" by blast
  next
    assume "\<exists>a b c. old @ s = a @ old @ b @ old @ c"
    then obtain a b c where s: "old @ s = a @ old @ b @ old @ c" by blast
    have "s = drop (length old) (old @ s)" by simp
    also have "\<dots> = (drop (length old) (a @ old) @ b) @ old @ c" by (simp add: s)
    finally show "sublist old s" unfolding sublist_def by blast
  qed
  then show ?case using Count_0_iff [OF assms, of s] by (auto simp: Count_hit assms)
next
  case (miss c s)
  have "(\<exists>a b d. c # s = a @ old @ b @ old @ d) \<longleftrightarrow> (\<exists>a b d. s = a @ old @ b @ old @ d)"
  proof
    assume "\<exists>a b d. c # s = a @ old @ b @ old @ d"
    then obtain a b d where s: "c # s = a @ old @ b @ old @ d" by blast
    with miss(1) obtain e where "a = c # e" by (cases a) (auto simp: prefix_def)
    with s show "\<exists>a b d. s = a @ old @ b @ old @ d" by auto
  qed (metis append_Cons)
  then show ?case using miss by (simp add: Count_miss)
qed (simp add: assms)

lemma first_occurrence:
  assumes "old \<noteq> []"
  shows "strings_Count s old = 1 \<Longrightarrow> \<exists>a b. s = a @ old @ b \<and> strings_ReplaceAll s old new = a @ new @ b
     \<and> (\<forall>a' b'. s = a' @ old @ b' \<longrightarrow> length a \<le> length a')"
  using assms
proof (induction s rule: occurrence_induct)
  case (hit s)
  then show ?case
    by (intro exI [of _ "[]"] exI [of _ s]) (simp add: assms Count_hit ReplaceAll_hit ReplaceAll_none)
next
  case (miss c s)
  then obtain a b where ab: "s = a @ old @ b" "strings_ReplaceAll s old new = a @ new @ b"
    "\<forall>a' b'. s = a' @ old @ b' \<longrightarrow> length a \<le> length a'" by (auto simp: Count_miss)
  have "length (c # a) \<le> length a'" if "c # s = a' @ old @ b'" for a' b'
    using that miss(1) ab(3) by (cases a') (auto simp: prefix_def)
  then show ?case using ab miss(1) assms by (intro exI [of _ "c # a"] exI [of _ b]) (auto simp: ReplaceAll_miss)
qed simp_all

lemma apart_or_close:
  assumes "s = a @ old @ b" "s = a' @ old @ b'" "\<nexists>a b c. s = a @ old @ b @ old @ c"
  shows "length a' < length a + length old"
proof (rule ccontr)
  assume "\<not> length a' < length a + length old"
  then have "take (length a + length old) a' = a @ old"
    using assms(1,2) by (metis append_assoc append_eq_append_conv_if append_eq_conv_conj length_append not_less)
  then have "s = a @ old @ drop (length a + length old) a' @ old @ b'"
    using assms(2) by (metis append_assoc append_take_drop_id)
  with assms(3) show False by blast
qed

lemma edit_length_exact:
  assumes "old \<noteq> []" "length content \<le> 16777216" "length new \<le> 16777216"
  shows "unat (of_nat (length content) - of_nat (strings_Count content old) * of_nat (length old)
      + of_nat (strings_Count content old) * of_nat (length new) :: 64 word) = length (strings_ReplaceAll content old new)"
proof -
  let ?k = "strings_Count content old"
  have k: "?k * length old \<le> length content" by (rule Count_length [OF assms(1)])
  moreover have "?k * 1 \<le> ?k * length old" using assms(1) by (intro mult_le_mono2) (simp add: Suc_le_eq)
  ultimately have "?k \<le> 16777216" using assms(2) by linarith
  then have "?k * length new \<le> 16777216 * 16777216" using assms(3) by (intro mult_le_mono)
  with k assms(2) have small: "length content - ?k * length old + ?k * length new < 2 ^ 64" by simp
  have "(of_nat (length content) - of_nat ?k * of_nat (length old) + of_nat ?k * of_nat (length new) :: 64 word)
      = of_nat (length content - ?k * length old + ?k * length new)"
    using k by (simp add: of_nat_diff)
  with small have "unat (of_nat (length content) - of_nat ?k * of_nat (length old) + of_nat ?k * of_nat (length new) :: 64 word)
      = length content - ?k * length old + ?k * length new"
    by (simp only: unat_of_nat take_bit_nat_eq_self_iff word_size len_bit0 len_num1) (simp add: take_bit_nat_eq_self)
  then show ?thesis using ReplaceAll_length [OF assms(1), of content new] k by simp
qed

section \<open>Properties\<close>

text \<open>C19.
  Reading a file page by page, each time from the number that ends the note of the last page's text, gives back exactly the
  file, whatever the limit of lines, as long as no single line is longer than a page (the rest of a longer one is never
  shown) and the file does not itself end in a line that reads like such a note; and every page of any file of at most
  16 MiB, notes included, fits the budget of a result.
\<close>

theorem read_pages_roundtrip:
  assumes "length d \<le> 16777216" "512 \<le> budget" "budget \<le> 65536" "1 \<le> limit"
  shows "(d \<noteq> [] \<and> list_all (\<lambda>l. length l \<le> budget - 256) (file_lines d)
          \<and> \<not> strings_HasPrefix (last_line d) ''[read_file: lines '' \<longrightarrow> read_on d limit budget 1 = Some d)
    \<and> (\<forall>offset. 1 \<le> offset \<and> offset < 2 ^ 63 \<longrightarrow> length (readLines d offset limit budget) \<le> budget)"
proof -
  have room: "room_of budget = budget - 256" using assms(2) by (auto simp: room_of_def)
  have "read_on d limit budget 1 = Some d"
    if "d \<noteq> []" "list_all (\<lambda>l. length l \<le> budget - 256) (file_lines d)" "\<not> strings_HasPrefix (last_line d) ''[read_file: lines ''"
  proof -
    have "1 \<le> line_count d" using that(1) line_start_end [of d] by (cases "line_count d") auto
    then show ?thesis
      using read_on_suffix [of 1 d limit budget] that(2,3) assms(4) room by (simp add: line_range_all reads_on_def)
  qed
  then show ?thesis using page_fits [OF _ _ assms(1,2,3)] by blast
qed

theorem read_pages_roundtrip_witness:
  "read_on [CHR ''a'', nl, CHR ''b'', CHR ''c''] 1 512 1 = Some [CHR ''a'', nl, CHR ''b'', CHR ''c'']
   \<and> length (readLines [CHR ''a'', nl, CHR ''b'', CHR ''c''] 1 1 512) \<le> 512"
proof -
  have "file_lines [CHR ''a'', nl, CHR ''b'', CHR ''c''] = [[CHR ''a'', nl], ''bc'']"
    by (simp add: file_lines.simps lineEnd_def)
  moreover have "\<not> strings_HasPrefix (last_line [CHR ''a'', nl, CHR ''b'', CHR ''c'']) ''[read_file: lines ''"
    by (simp add: last_line_def strings_HasPrefix_def)
  ultimately show ?thesis using read_pages_roundtrip [of "[CHR ''a'', nl, CHR ''b'', CHR ''c'']" 512 1] by simp
qed



end
