(* ===== verification/Workspace.thy ===== *)
theory Workspace
  imports Ws_Text
begin

text \<open>
  How the file tools of a workspace reach a file (package sandbox: workspace.go, walk.go and workspace_read.go, with \<open>Check\<close> and
  \<open>ReadAtMost\<close> of internal/wsfile).

  The file system belongs to everybody: between two system calls anything may have happened to it. A \<open>world\<close> says what it
  is like at each moment, which calls fail, and when the caller's context has ended; every call takes one moment. A
  directory or file handle is the identity of what was opened, which is what \<open>os.SameFile\<close> compares.
\<close>

section \<open>The file system\<close>

type_synonym inode = nat

datatype kind = Regular | Directory | Symlink | NamedPipe | OtherKind

datatype sys_error = ErrNotExist | ErrEscapes | ErrNotRegular | ErrOther

text \<open>
  \<open>fs_follow\<close> is where opening a symbolic link through a directory handle leads, by the rules of \<open>os.Root\<close>;
  \<open>fs_same\<close> whether a node is on the workspace's mount, as \<open>MountID\<close> and \<open>sameMount\<close> find; \<open>fs_disk\<close> whether a Windows
  handle is a disk file; \<open>fs_real\<close> the name Windows gives an opened file; \<open>fs_names\<close> what reading a directory gives, in its order.
\<close>

record fsys =
  fs_entry :: "inode \<Rightarrow> string \<Rightarrow> inode option"
  fs_follow :: "inode \<Rightarrow> string \<Rightarrow> sys_error + inode"
  fs_kind :: "inode \<Rightarrow> kind"
  fs_links :: "inode \<Rightarrow> nat"
  fs_same :: "inode \<Rightarrow> bool"
  fs_disk :: "inode \<Rightarrow> bool"
  fs_real :: "inode \<Rightarrow> string"
  fs_link :: "inode \<Rightarrow> string"
  fs_data :: "inode \<Rightarrow> string"
  fs_perm :: "inode \<Rightarrow> nat"
  fs_names :: "inode \<Rightarrow> string list"

text \<open>
  \<open>w_late\<close> says whether a call that fails has taken effect all the same, \<open>w_short\<close> how much of a failing write was written,
  \<open>w_new\<close> the identity of what a call creates, \<open>w_rand\<close> what the random source gives, in hexadecimal.
\<close>

record world =
  w_fs :: "nat \<Rightarrow> fsys"
  w_fault :: "nat \<Rightarrow> sys_error option"
  w_ended :: "nat \<Rightarrow> bool"
  w_late :: "nat \<Rightarrow> bool"
  w_short :: "nat \<Rightarrow> nat"
  w_new :: "nat \<Rightarrow> inode"
  w_rand :: "nat \<Rightarrow> string"

text \<open>The changes a tool makes, each to the node or the directory entry it names.\<close>

datatype effect = MkDir inode string inode | Create inode string inode | Append inode string | SyncFile inode
  | Chmod inode nat | Rename inode string string | Remove inode string | SyncDir inode

record file_info =
  fi_id :: inode
  fi_kind :: kind
  fi_links :: nat
  fi_size :: nat
  fi_perm :: nat

text \<open>
  The tools' own state: the moment, the open handles beyond the root, the next address of a \<open>dirNode\<close>, and the changes made
  so far with their moments, the last one first.
\<close>

record ws_state =
  st_clock :: nat
  st_handles :: int
  st_fresh :: nat
  st_log :: "(nat \<times> effect) list"

record ws_config =
  cf_goos :: string
  cf_printable :: "nat \<Rightarrow> bool"
  cf_root :: inode
  cf_budget :: nat
  cf_id :: string
  cf_mode :: nat

definition syscall :: "world \<Rightarrow> (fsys \<Rightarrow> sys_error + 'a) \<Rightarrow> ws_state \<Rightarrow> (sys_error + 'a) \<times> ws_state" where
  "syscall w f st =
     (case w_fault w (st_clock st) of Some e \<Rightarrow> Inl e | None \<Rightarrow> f (w_fs w (st_clock st)), st\<lparr>st_clock := Suc (st_clock st)\<rparr>)"

text \<open>\<open>ctx.Err() != nil\<close>, and \<open>checkpoint\<close>, which is no more than that outside tests.\<close>

definition checkpoint :: "world \<Rightarrow> ws_state \<Rightarrow> bool \<times> ws_state" where
  "checkpoint w st = (w_ended w (st_clock st), st\<lparr>st_clock := Suc (st_clock st)\<rparr>)"

definition hold :: "ws_state \<Rightarrow> ws_state" where
  "hold st = st\<lparr>st_handles := st_handles st + 1\<rparr>"

definition release_handle :: "ws_state \<Rightarrow> ws_state" where
  "release_handle st = st\<lparr>st_handles := st_handles st - 1\<rparr>"

definition info_of :: "fsys \<Rightarrow> inode \<Rightarrow> file_info" where
  "info_of fs i = \<lparr>fi_id = i, fi_kind = fs_kind fs i, fi_links = fs_links fs i, fi_size = length (fs_data fs i), fi_perm = fs_perm fs i\<rparr>"

definition lstat :: "world \<Rightarrow> inode \<Rightarrow> string \<Rightarrow> ws_state \<Rightarrow> (sys_error + file_info) \<times> ws_state" where
  "lstat w d name = syscall w (\<lambda>fs. case fs_entry fs d name of None \<Rightarrow> Inl ErrNotExist | Some i \<Rightarrow> Inr (info_of fs i))"

definition fstat :: "world \<Rightarrow> inode \<Rightarrow> ws_state \<Rightarrow> (sys_error + file_info) \<times> ws_state" where
  "fstat w i = syscall w (\<lambda>fs. Inr (info_of fs i))"

definition open_name :: "world \<Rightarrow> inode \<Rightarrow> string \<Rightarrow> ws_state \<Rightarrow> (sys_error + inode) \<times> ws_state" where
  "open_name w d name = syscall w (\<lambda>fs. case fs_entry fs d name of None \<Rightarrow> Inl ErrNotExist
     | Some i \<Rightarrow> if fs_kind fs i = Symlink then fs_follow fs d name else Inr i)"

definition open_root :: "world \<Rightarrow> inode \<Rightarrow> string \<Rightarrow> ws_state \<Rightarrow> (sys_error + inode) \<times> ws_state" where
  "open_root w d name = syscall w (\<lambda>fs. case fs_entry fs d name of None \<Rightarrow> Inl ErrNotExist
     | Some i \<Rightarrow> if fs_kind fs i = Symlink then fs_follow fs d name
                 else if fs_kind fs i = Directory then Inr i else Inl ErrNotRegular)"

text \<open>Opening \<open>.\<close> in a directory handle.\<close>

definition open_self :: "world \<Rightarrow> inode \<Rightarrow> ws_state \<Rightarrow> (sys_error + inode) \<times> ws_state" where
  "open_self w d = syscall w (\<lambda>fs. Inr d)"

definition readlink :: "world \<Rightarrow> inode \<Rightarrow> string \<Rightarrow> ws_state \<Rightarrow> (sys_error + string) \<times> ws_state" where
  "readlink w d name = syscall w (\<lambda>fs. case fs_entry fs d name of None \<Rightarrow> Inl ErrNotExist
     | Some i \<Rightarrow> if fs_kind fs i = Symlink then Inr (fs_link fs i) else Inl ErrOther)"

definition realName :: "world \<Rightarrow> inode \<Rightarrow> ws_state \<Rightarrow> (sys_error + string) \<times> ws_state" where
  "realName w i = syscall w (\<lambda>fs. Inr (fs_real fs i))"

section \<open>Package wsfile\<close>

record handle_facts =
  hf_Regular :: bool
  hf_Directory :: bool
  hf_SameMount :: bool
  hf_Links :: nat

definition LinkCount :: "string \<Rightarrow> file_info \<Rightarrow> nat" where
  "LinkCount goos i = (if goos = ''linux'' \<or> goos = ''darwin'' then fi_links i else 0)"

definition wsfile_Check :: "ws_config \<Rightarrow> world \<Rightarrow> inode \<Rightarrow> ws_state \<Rightarrow> (sys_error + handle_facts) \<times> ws_state" where
  "wsfile_Check cf w f st =
     (case fstat w f st of
        (Inl e, st) \<Rightarrow> (Inl e, st)
      | (Inr info, st) \<Rightarrow>
         (case syscall w (\<lambda>fs. Inr (fs_links fs f, cf_goos cf \<noteq> ''windows'' \<or> fs_disk fs f)) st of
            (Inl e, st) \<Rightarrow> (Inl e, st)
          | (Inr (links, disk), st) \<Rightarrow>
             if \<not> disk then (Inr \<lparr>hf_Regular = False, hf_Directory = False, hf_SameMount = False, hf_Links = 0\<rparr>, st)
             else (case syscall w (\<lambda>fs. Inr (fs_same fs f)) st of
                     (Inl e, st) \<Rightarrow> (Inl e, st)
                   | (Inr same, st) \<Rightarrow>
                      (Inr \<lparr>hf_Regular = (fi_kind info = Regular), hf_Directory = (fi_kind info = Directory),
                         hf_SameMount = same, hf_Links = links\<rparr>, st))))"

text \<open>
  \<open>ReadAtMost\<close> with the tools' checkpoint as its step: \<open>None\<close> in place of an error is the checkpoint's.
\<close>

definition chunk_size :: "nat \<Rightarrow> string \<Rightarrow> nat" where
  "chunk_size limit buf = min 65536 (limit + 1 - length buf)"

function read_chunks :: "world \<Rightarrow> inode \<Rightarrow> nat \<Rightarrow> string \<Rightarrow> ws_state \<Rightarrow> (sys_error option + string \<times> bool) \<times> ws_state" where
  "read_chunks w f limit buf st =
     (case checkpoint w st of (ended, st) \<Rightarrow>
        if ended then (Inl None, st)
        else let n = chunk_size limit buf in
          (case syscall w (\<lambda>fs. Inr (take n (drop (length buf) (fs_data fs f)))) st of
             (Inl e, st) \<Rightarrow> (Inl (Some e), st)
           | (Inr got, st) \<Rightarrow>
              if length (buf @ got) > limit then (Inr (buf @ got, True), st)
              else if length got < n then (Inr (buf @ got, False), st)
              else read_chunks w f limit (buf @ got) st))"
  by pat_completeness auto
termination
  by (relation "measure (\<lambda>(w, f, limit, buf, st). Suc limit - length buf)") (auto simp: chunk_size_def)

definition ReadAtMost :: "world \<Rightarrow> inode \<Rightarrow> nat \<Rightarrow> ws_state \<Rightarrow> (sys_error option + string \<times> bool) \<times> ws_state" where
  "ReadAtMost w f limit st = read_chunks w f limit [] st"

section \<open>The walk\<close>

datatype walk_error = Hidden | OtherMount | LinkedFile | NotRegularFile | Changed | Sys sys_error

record walk_policy =
  wp_hides :: "string \<Rightarrow> bool"
  wp_git :: bool

definition listPolicy :: walk_policy where
  "listPolicy = \<lparr>wp_hides = hiddenName, wp_git = True\<rparr>"

definition readPolicy :: walk_policy where
  "readPolicy = \<lparr>wp_hides = Reserved, wp_git = False\<rparr>"

text \<open>A \<open>dirNode\<close> with the address that pointer comparison sees.\<close>

datatype dir_node =
  DirNode (dn_addr: nat) (dn_name: string) (dn_info: file_info) (dn_parent: "dir_node option") (dn_rel: string)

definition node_child :: "dir_node \<Rightarrow> string \<Rightarrow> file_info \<Rightarrow> ws_state \<Rightarrow> dir_node \<times> ws_state" where
  "node_child n name info st =
     (DirNode (st_fresh st) name info (Some n) (path_Join [dn_rel n, name]), st\<lparr>st_fresh := Suc (st_fresh st)\<rparr>)"

definition rootNode :: "ws_config \<Rightarrow> world \<Rightarrow> ws_state \<Rightarrow> (sys_error + dir_node) \<times> ws_state" where
  "rootNode cf w st =
     (case fstat w (cf_root cf) st of
        (Inl e, st) \<Rightarrow> (Inl e, st)
      | (Inr info, st) \<Rightarrow> (Inr (DirNode (st_fresh st) [] info None []), st\<lparr>st_fresh := Suc (st_fresh st)\<rparr>))"

fun node_chain :: "dir_node \<Rightarrow> dir_node list" where
  "node_chain (DirNode a n i None r) = [DirNode a n i None r]"
| "node_chain (DirNode a n i (Some p) r) = node_chain p @ [DirNode a n i (Some p) r]"

text \<open>\<open>cu_created\<close> names a handle by its place among the cursor's roots.\<close>

record cursor =
  cu_policy :: walk_policy
  cu_nodes :: "dir_node list"
  cu_roots :: "inode list"
  cu_created :: "(nat \<times> inode) list"

definition newCursor :: "ws_config \<Rightarrow> dir_node \<Rightarrow> walk_policy \<Rightarrow> cursor" where
  "newCursor cf root policy = \<lparr>cu_policy = policy, cu_nodes = [root], cu_roots = [cf_root cf], cu_created = []\<rparr>"

definition aliasedNames :: "ws_config \<Rightarrow> bool" where
  "aliasedNames cf \<longleftrightarrow> cf_goos cf = ''windows''"

text \<open>\<open>hiddenByRealName\<close>: an error, or whether the policy hides the directory's own name.\<close>

definition hiddenByRealName :: "world \<Rightarrow> walk_policy \<Rightarrow> inode \<Rightarrow> ws_state \<Rightarrow> (sys_error + bool) \<times> ws_state" where
  "hiddenByRealName w pol r st =
     (case open_self w r st of
        (Inl e, st) \<Rightarrow> (Inl e, st)
      | (Inr f, st) \<Rightarrow>
         (case realName w f st of
            (Inl e, st) \<Rightarrow> (Inl e, st)
          | (Inr name, st) \<Rightarrow> (Inr (wp_hides pol name), st)))"

text \<open>\<open>enter\<close> after the directory was opened: what it opened is checked, and kept or released.\<close>

definition check_entered :: "ws_config \<Rightarrow> world \<Rightarrow> walk_policy \<Rightarrow> dir_node \<Rightarrow> inode \<Rightarrow> ws_state \<Rightarrow> (walk_error + inode) \<times> ws_state" where
  "check_entered cf w pol n r st =
     (case open_self w r st of
        (Inl e, st) \<Rightarrow> (Inl (Sys e), release_handle st)
      | (Inr f, st) \<Rightarrow>
         (case wsfile_Check cf w f st of
            (Inl e, st) \<Rightarrow> (Inl (Sys e), release_handle st)
          | (Inr facts, st) \<Rightarrow>
             if \<not> hf_Directory facts then (Inl Changed, release_handle st)
             else if \<not> hf_SameMount facts then (Inl OtherMount, release_handle st)
             else (case fstat w r st of
                     (Inl e, st) \<Rightarrow> (Inl Changed, release_handle st)
                   | (Inr opened, st) \<Rightarrow>
                      if fi_id opened \<noteq> fi_id (dn_info n) then (Inl Changed, release_handle st)
                      else if aliasedNames cf then
                        (case hiddenByRealName w pol r st of
                           (Inl e, st) \<Rightarrow> (Inl (Sys e), release_handle st)
                         | (Inr hidden, st) \<Rightarrow> if hidden then (Inl Hidden, release_handle st) else (Inr r, st))
                      else (Inr r, st))))"

text \<open>\<open>parent.Lstat(".git")\<close> is the directory itself.\<close>

definition git_alias :: "world \<Rightarrow> walk_policy \<Rightarrow> inode \<Rightarrow> file_info \<Rightarrow> ws_state \<Rightarrow> bool \<times> ws_state" where
  "git_alias w pol parent info st =
     (if wp_git pol then
        (case lstat w parent ''.git'' st of
           (Inl e, st) \<Rightarrow> (False, st)
         | (Inr git, st) \<Rightarrow> (fi_id git = fi_id info, st))
      else (False, st))"

definition enter :: "ws_config \<Rightarrow> world \<Rightarrow> walk_policy \<Rightarrow> inode \<Rightarrow> dir_node \<Rightarrow> ws_state \<Rightarrow> (walk_error + inode) \<times> ws_state" where
  "enter cf w pol parent n st =
     (if wp_hides pol (dn_name n) then (Inl Hidden, st)
      else case lstat w parent (dn_name n) st of
        (Inl e, st) \<Rightarrow> (Inl (Sys e), st)
      | (Inr info, st) \<Rightarrow>
         if fi_kind info \<noteq> Directory \<or> fi_id info \<noteq> fi_id (dn_info n) then (Inl Changed, st)
         else (case git_alias w pol parent info st of (alias, st) \<Rightarrow>
           if alias then (Inl Hidden, st)
           else (case open_root w parent (dn_name n) st of
                   (Inl e, st) \<Rightarrow> (Inl (Sys e), st)
                 | (Inr r, st) \<Rightarrow> check_entered cf w pol n r (hold st))))"

definition truncate_cursor :: "nat \<Rightarrow> cursor \<Rightarrow> ws_state \<Rightarrow> cursor \<times> ws_state" where
  "truncate_cursor n c st =
     (c\<lparr>cu_nodes := take n (cu_nodes c), cu_roots := take n (cu_roots c)\<rparr>,
      st\<lparr>st_handles := st_handles st - int (length (cu_roots c) - n)\<rparr>)"

definition cursor_close :: "cursor \<Rightarrow> ws_state \<Rightarrow> ws_state" where
  "cursor_close c st = snd (truncate_cursor 1 c st)"

fun enter_all :: "ws_config \<Rightarrow> world \<Rightarrow> dir_node list \<Rightarrow> cursor \<Rightarrow> ws_state \<Rightarrow> (walk_error + inode) \<times> cursor \<times> ws_state" where
  "enter_all cf w [] c st = (Inr (last (cu_roots c)), c, st)"
| "enter_all cf w (m # ms) c st =
     (case enter cf w (cu_policy c) (last (cu_roots c)) m st of
        (Inl e, st) \<Rightarrow> (Inl e, c, st)
      | (Inr r, st) \<Rightarrow> enter_all cf w ms (c\<lparr>cu_nodes := cu_nodes c @ [m], cu_roots := cu_roots c @ [r]\<rparr>) st)"

text \<open>How many directories two paths share, by pointer.\<close>

fun shared :: "dir_node list \<Rightarrow> dir_node list \<Rightarrow> nat" where
  "shared (a # as) (b # bs) = (if dn_addr a = dn_addr b then Suc (shared as bs) else 0)"
| "shared _ _ = 0"

definition cursor_to :: "ws_config \<Rightarrow> world \<Rightarrow> dir_node \<Rightarrow> cursor \<Rightarrow> ws_state \<Rightarrow> (walk_error + inode) \<times> cursor \<times> ws_state" where
  "cursor_to cf w n c st =
     (let chain = node_chain n in
      if dn_addr (hd chain) \<noteq> dn_addr (hd (cu_nodes c)) then (Inl Changed, c, st)
      else let keep = Suc (shared (tl chain) (tl (cu_nodes c))) in
        (case truncate_cursor keep c st of (c, st) \<Rightarrow> enter_all cf w (drop keep chain) c st))"

section \<open>Opening a file\<close>

fun rootFailure :: "walk_error \<Rightarrow> ws_code" where
  "rootFailure Hidden = FileReserved"
| "rootFailure OtherMount = FileOtherMount"
| "rootFailure LinkedFile = FileLinked"
| "rootFailure NotRegularFile = FileNotRegular"
| "rootFailure (Sys ErrNotRegular) = FileNotRegular"
| "rootFailure (Sys ErrNotExist) = FileNotFound"
| "rootFailure (Sys ErrEscapes) = FileOutside"
| "rootFailure (Sys ErrOther) = FileUnreadable"
| "rootFailure Changed = FileUnreadable"

text \<open>\<open>openIn\<close>; a name of \<open>None\<close> is the directory itself, \<open>.\<close>\<close>

definition openIn :: "ws_config \<Rightarrow> world \<Rightarrow> inode \<Rightarrow> string option \<Rightarrow> ws_state \<Rightarrow> (walk_error + inode) \<times> ws_state" where
  "openIn cf w dir name st =
     (case (case name of Some n \<Rightarrow> open_name w dir n st | None \<Rightarrow> open_self w dir st) of
        (Inl e, st) \<Rightarrow> (Inl (Sys e), st)
      | (Inr f, st) \<Rightarrow>
         (case wsfile_Check cf w f st of
            (Inl e, st) \<Rightarrow> (Inl (Sys e), st)
          | (Inr facts, st) \<Rightarrow>
             if \<not> hf_Regular facts \<and> \<not> hf_Directory facts then (Inl NotRegularFile, st)
             else if hf_Regular facts \<and> hf_Links facts \<noteq> 1 then (Inl LinkedFile, st)
             else if \<not> hf_SameMount facts then (Inl OtherMount, st)
             else (Inr f, hold st)))"

definition real_name_ok :: "ws_config \<Rightarrow> world \<Rightarrow> walk_policy \<Rightarrow> inode \<Rightarrow> ws_state \<Rightarrow> (ws_code + inode) \<times> ws_state" where
  "real_name_ok cf w pol f st =
     (if aliasedNames cf then
        (case realName w f st of
           (Inl e, st) \<Rightarrow> (Inl FileUnreadable, release_handle st)
         | (Inr name, st) \<Rightarrow> if wp_hides pol name then (Inl FileReserved, release_handle st) else (Inr f, st))
      else (Inr f, st))"

text \<open>The last component of \<open>openRegular\<close>: \<open>info\<close> is what Lstat saw of it.\<close>

definition open_last :: "ws_config \<Rightarrow> world \<Rightarrow> walk_policy \<Rightarrow> inode \<Rightarrow> string \<Rightarrow> file_info \<Rightarrow> ws_state \<Rightarrow> (ws_code + inode) \<times> ws_state" where
  "open_last cf w pol dir part info st =
     (if LinkCount (cf_goos cf) info > 1 then (Inl FileLinked, st)
      else case openIn cf w dir (Some part) st of
        (Inl e, st) \<Rightarrow> (Inl (rootFailure e), st)
      | (Inr f, st) \<Rightarrow>
         (case fstat w f st of
            (Inl e, st) \<Rightarrow> (Inl FileUnreadable, release_handle st)
          | (Inr opened, st) \<Rightarrow>
             if fi_kind opened \<noteq> Regular \<or> fi_id opened \<noteq> fi_id info then (Inl FileUnreadable, release_handle st)
             else (case lstat w dir part st of
                     (Inl e, st) \<Rightarrow> (Inl FileLinked, release_handle st)
                   | (Inr again, st) \<Rightarrow>
                      if fi_id again \<noteq> fi_id info \<or> LinkCount (cf_goos cf) again > 1 then (Inl FileLinked, release_handle st)
                      else real_name_ok cf w pol f st)))"

abbreviation maxLinkHops :: nat where "maxLinkHops \<equiv> 40"

text \<open>What the walk does at one component: it ends, or goes on with the components left from a directory.\<close>

datatype walk_next = Stop "ws_code + inode" | Go "string list" dir_node nat

definition follow_link :: "ws_config \<Rightarrow> world \<Rightarrow> dir_node \<Rightarrow> inode \<Rightarrow> string \<Rightarrow> string list \<Rightarrow> dir_node \<Rightarrow> nat \<Rightarrow> walk_policy \<Rightarrow> ws_state
    \<Rightarrow> walk_next \<times> ws_state" where
  "follow_link cf w start dir part rest node hops pol st =
     (if wp_git pol then (Stop (Inl FileIsSymlink), st)
      else if Suc hops > maxLinkHops then (Stop (Inl FileUnreadable), st)
      else case readlink w dir part st of
        (Inl e, st) \<Rightarrow> (Stop (Inl FileUnreadable), st)
      | (Inr target, st) \<Rightarrow>
         (case linkTarget (cf_goos cf) (dn_rel node) target rest of
            Inl code \<Rightarrow> (Stop (Inl code), st)
          | Inr nxt \<Rightarrow>
             if nxt = ''.'' then (Stop (Inl FileNotRegular), st)
             else (Go (strings_Split nxt slash) start (Suc hops), st)))"

definition walk_part :: "ws_config \<Rightarrow> world \<Rightarrow> dir_node \<Rightarrow> inode \<Rightarrow> string \<Rightarrow> string list \<Rightarrow> dir_node \<Rightarrow> nat \<Rightarrow> walk_policy \<Rightarrow> ws_state
    \<Rightarrow> walk_next \<times> ws_state" where
  "walk_part cf w start dir part rest node hops pol st =
     (case lstat w dir part st of
        (Inl e, st) \<Rightarrow> (Stop (Inl (rootFailure (Sys e))), st)
      | (Inr info, st) \<Rightarrow>
         if fi_kind info = Symlink then follow_link cf w start dir part rest node hops pol st
         else if rest \<noteq> [] then
           (if fi_kind info = Directory then (case node_child node part info st of (child, st) \<Rightarrow> (Go rest child hops, st))
            else (Stop (Inl FileNotFound), st))
         else if fi_kind info \<noteq> Regular then (Stop (Inl FileNotRegular), st)
         else (case open_last cf w pol dir part info st of (r, st) \<Rightarrow> (Stop r, st)))"

lemma walk_part_Go:
  "walk_part cf w start dir part rest node hops pol st = (Go parts' node' hops', st') \<Longrightarrow>
     (hops' = hops \<and> parts' = rest) \<or> (hops' = Suc hops \<and> Suc hops \<le> maxLinkHops)"
  by (auto simp: walk_part_def follow_link_def node_child_def split: prod.splits sum.splits if_splits)

function open_walk :: "ws_config \<Rightarrow> world \<Rightarrow> dir_node \<Rightarrow> string list \<Rightarrow> dir_node \<Rightarrow> nat \<Rightarrow> cursor \<Rightarrow> ws_state
    \<Rightarrow> (ws_code + inode) \<times> cursor \<times> ws_state" where
  "open_walk cf w start [] node hops c st = (Inl FileNotFound, c, st)"
| "open_walk cf w start (part # rest) node hops c st =
     (if Reserved part then (Inl FileReserved, c, st)
      else case cursor_to cf w node c st of
        (Inl e, c, st) \<Rightarrow> (Inl (rootFailure e), c, st)
      | (Inr dir, c, st) \<Rightarrow>
         (case walk_part cf w start dir part rest node hops (cu_policy c) st of
            (Stop r, st) \<Rightarrow> (r, c, st)
          | (Go parts' node' hops', st) \<Rightarrow> open_walk cf w start parts' node' hops' c st))"
  by pat_completeness auto
termination
  by (relation "measures [\<lambda>(cf, w, start, parts, node, hops, c, st). Suc maxLinkHops - hops, \<lambda>(cf, w, start, parts, node, hops, c, st). length parts]")
    (auto dest!: walk_part_Go [OF sym])

definition openRegular :: "ws_config \<Rightarrow> world \<Rightarrow> cursor \<Rightarrow> dir_node \<Rightarrow> string \<Rightarrow> ws_state \<Rightarrow> (ws_code + inode) \<times> cursor \<times> ws_state" where
  "openRegular cf w c start clean st = open_walk cf w start (strings_Split clean slash) start 0 c st"

section \<open>read\_file\<close>

text \<open>What a tool returns: a result, a result with an error, or only the context's error.\<close>

datatype tool_answer = Answer ws_result | Refused ws_result | Unknown ws_result | Interrupted

definition ToolAvailability :: "string \<Rightarrow> string \<Rightarrow> string" where
  "ToolAvailability goos name =
     (if (goos = ''linux'' \<or> goos = ''darwin'') \<and> name \<in> {''read_file'', ''search_files'', ''edit_file''}
      then ''workbench file tools are off until their workspace check is verified'' else [])"

definition contentRefusal :: "ws_config \<Rightarrow> string \<Rightarrow> tool_answer" where
  "contentRefusal cf tool = Refused (workbenchError (cf_printable cf) tool NotOffered [])"

abbreviation maxReadLines :: int where "maxReadLines \<equiv> 2000"
abbreviation maxReadFileBytes :: nat where "maxReadFileBytes \<equiv> 16777216"

text \<open>The decoded arguments; \<open>None\<close> for arguments that do not decode.\<close>

record read_args =
  ra_Path :: string
  ra_Offset :: "int option"
  ra_Limit :: "int option"

definition read_error :: "ws_config \<Rightarrow> ws_code \<Rightarrow> string \<Rightarrow> tool_answer" where
  "read_error cf code rel = Answer (workbenchError (cf_printable cf) ''read_file'' code rel)"

text \<open>\<open>readFile\<close> from the opened file on; \<open>f\<close> is released at the end.\<close>

definition read_opened :: "ws_config \<Rightarrow> world \<Rightarrow> string \<Rightarrow> nat \<Rightarrow> nat \<Rightarrow> inode \<Rightarrow> ws_state \<Rightarrow> tool_answer \<times> ws_state" where
  "read_opened cf w clean offset limit f st =
     (case fstat w f st of
        (Inl e, st) \<Rightarrow> (read_error cf FileUnreadable clean, st)
      | (Inr opened, st) \<Rightarrow>
         if fi_size opened > maxReadFileBytes then (read_error cf FileTooLarge clean, st)
         else (case ReadAtMost w f maxReadFileBytes st of (r, st) \<Rightarrow>
           (case checkpoint w st of (ended, st) \<Rightarrow>
              if ended then (Interrupted, st)
              else (case r of
                      Inl e \<Rightarrow> (read_error cf FileUnreadable clean, st)
                    | Inr (d, tooLarge) \<Rightarrow>
                       if tooLarge then (read_error cf FileTooLarge clean, st)
                       else if \<not> wsfile_Text d then (read_error cf FileNotText clean, st)
                       else (Answer \<lparr>wr_Content = readLines d offset limit (cf_budget cf), wr_IsError = False\<rparr>, st)))))"

definition read_clean :: "ws_config \<Rightarrow> world \<Rightarrow> string \<Rightarrow> nat \<Rightarrow> nat \<Rightarrow> ws_state \<Rightarrow> tool_answer \<times> ws_state" where
  "read_clean cf w clean offset limit st =
     (case checkpoint w st of (ended, st) \<Rightarrow>
        if ended then (Interrupted, st)
        else (case rootNode cf w st of
                (Inl e, st) \<Rightarrow> (read_error cf FileUnreadable clean, st)
              | (Inr root, st) \<Rightarrow>
                 (case openRegular cf w (newCursor cf root readPolicy) root clean st of
                    (Inl code, c, st) \<Rightarrow> (read_error cf code clean, cursor_close c st)
                  | (Inr f, c, st) \<Rightarrow>
                     (case read_opened cf w clean offset limit f st of (r, st) \<Rightarrow>
                        (r, cursor_close c (release_handle st))))))"

definition readFile :: "ws_config \<Rightarrow> world \<Rightarrow> read_args option \<Rightarrow> ws_state \<Rightarrow> tool_answer \<times> ws_state" where
  "readFile cf w args st =
     (if ToolAvailability (cf_goos cf) ''read_file'' \<noteq> [] then (contentRefusal cf ''read_file'', st)
      else case args of
        None \<Rightarrow> (read_error cf ArgumentsInvalid [], st)
      | Some a \<Rightarrow>
         (let offset = (case ra_Offset a of None \<Rightarrow> 1 | Some n \<Rightarrow> n);
              limit = (case ra_Limit a of None \<Rightarrow> maxReadLines | Some n \<Rightarrow> min n maxReadLines)
          in if offset < 1 \<or> limit < 1 then (read_error cf ArgumentsInvalid [], st)
             else (case resolveName (cf_goos cf) (ra_Path a) False of
                     Inl code \<Rightarrow> (read_error cf code (ra_Path a), st)
                   | Inr clean \<Rightarrow> read_clean cf w clean (nat offset) (nat limit) st)))"

section \<open>Reachable directories\<close>

text \<open>
  A directory the walk may use, by the names that led to it: each was, at some moment, a directory entry of the one
  before, not hidden, and itself opened as a directory of the workspace's mount.
\<close>

inductive reached :: "world \<Rightarrow> (string \<Rightarrow> bool) \<Rightarrow> inode \<Rightarrow> string list \<Rightarrow> inode \<Rightarrow> bool"
  for w :: world and hides :: "string \<Rightarrow> bool" and root :: inode where
  at_root: "reached w hides root [] root"
| below: "reached w hides root names d \<Longrightarrow> \<not> hides name \<Longrightarrow> fs_entry (w_fs w t) d name = Some i
    \<Longrightarrow> fs_kind (w_fs w t) i = Directory \<Longrightarrow> fs_kind (w_fs w u) i = Directory \<Longrightarrow> fs_same (w_fs w v) i
    \<Longrightarrow> reached w hides root (names @ [name]) i"

text \<open>Every handle of a cursor is such a directory; the first one is the root.\<close>

definition cursor_ok :: "ws_config \<Rightarrow> world \<Rightarrow> cursor \<Rightarrow> bool" where
  "cursor_ok cf w c \<longleftrightarrow> length (cu_nodes c) = length (cu_roots c) \<and> cu_roots c \<noteq> []
     \<and> (\<forall>r \<in> set (cu_roots c). \<exists>names. reached w (wp_hides (cu_policy c)) (cf_root cf) names r)"

lemma syscall_Inr: "syscall w f st = (Inr x, st') \<Longrightarrow> f (w_fs w (st_clock st)) = Inr x"
  by (auto simp: syscall_def split: option.splits)

lemma syscall_state [simp]:
  "syscall w f st = (r, st') \<Longrightarrow> st_handles st' = st_handles st \<and> st_fresh st' = st_fresh st \<and> st_log st' = st_log st \<and> st_clock st \<le> st_clock st' \<and> st_clock st < st_clock st'"
  by (auto simp: syscall_def)

lemma lstat_Inr: "lstat w d name st = (Inr info, st') \<Longrightarrow>
   fs_entry (w_fs w (st_clock st)) d name = Some (fi_id info) \<and> fi_kind info = fs_kind (w_fs w (st_clock st)) (fi_id info)
   \<and> fi_links info = fs_links (w_fs w (st_clock st)) (fi_id info)"
  by (auto simp: lstat_def info_of_def dest!: syscall_Inr split: option.splits)

lemma fstat_Inr: "fstat w i st = (Inr info, st') \<Longrightarrow> info = info_of (w_fs w (st_clock st)) i"
  by (auto simp: fstat_def dest!: syscall_Inr)

lemma Check_Inr:
  assumes "wsfile_Check cf w f st = (Inr facts, st')"
  shows "hf_Directory facts \<Longrightarrow> \<exists>t. fs_kind (w_fs w t) f = Directory"
    "hf_Regular facts \<Longrightarrow> \<exists>t. fs_kind (w_fs w t) f = Regular"
    "hf_SameMount facts \<Longrightarrow> \<exists>t. fs_same (w_fs w t) f"
    "hf_Regular facts \<Longrightarrow> \<exists>t. fs_links (w_fs w t) f = hf_Links facts"
  using assms
  by (auto simp: wsfile_Check_def info_of_def dest!: fstat_Inr syscall_Inr split: prod.splits sum.splits if_splits)

lemma fstat_state: "fstat w i st = (r, st') \<Longrightarrow> st_handles st' = st_handles st \<and> st_fresh st' = st_fresh st \<and> st_log st' = st_log st \<and> st_clock st \<le> st_clock st'"
  and lstat_state: "lstat w d name st = (r', st') \<Longrightarrow> st_handles st' = st_handles st \<and> st_fresh st' = st_fresh st \<and> st_log st' = st_log st \<and> st_clock st \<le> st_clock st'"
  and open_name_state: "open_name w d name st = (r'', st') \<Longrightarrow> st_handles st' = st_handles st \<and> st_fresh st' = st_fresh st \<and> st_log st' = st_log st \<and> st_clock st \<le> st_clock st'"
  and open_root_state: "open_root w d name st = (r'', st') \<Longrightarrow> st_handles st' = st_handles st \<and> st_fresh st' = st_fresh st \<and> st_log st' = st_log st \<and> st_clock st \<le> st_clock st'"
  and open_self_state: "open_self w d st = (r'', st') \<Longrightarrow> st_handles st' = st_handles st \<and> st_fresh st' = st_fresh st \<and> st_log st' = st_log st \<and> st_clock st \<le> st_clock st'"
  and readlink_state: "readlink w d name st = (s, st') \<Longrightarrow> st_handles st' = st_handles st \<and> st_fresh st' = st_fresh st \<and> st_log st' = st_log st \<and> st_clock st \<le> st_clock st'"
  and realName_state: "realName w i st = (s, st') \<Longrightarrow> st_handles st' = st_handles st \<and> st_fresh st' = st_fresh st \<and> st_log st' = st_log st \<and> st_clock st \<le> st_clock st'"
  and checkpoint_state: "checkpoint w st = (b, st') \<Longrightarrow> st_handles st' = st_handles st \<and> st_fresh st' = st_fresh st \<and> st_log st' = st_log st \<and> st_clock st \<le> st_clock st'"
  by (auto simp: fstat_def lstat_def open_name_def open_root_def open_self_def readlink_def realName_def checkpoint_def syscall_def)

lemma Check_state: "wsfile_Check cf w f st = (r, st') \<Longrightarrow> st_handles st' = st_handles st \<and> st_fresh st' = st_fresh st \<and> st_log st' = st_log st \<and> st_clock st \<le> st_clock st'"
  by (auto simp: wsfile_Check_def dest!: fstat_state syscall_state split: prod.splits sum.splits if_splits)

lemma real_name_state: "hiddenByRealName w pol r st = (x, st') \<Longrightarrow> st_handles st' = st_handles st \<and> st_fresh st' = st_fresh st \<and> st_log st' = st_log st \<and> st_clock st \<le> st_clock st'"
  by (auto simp: hiddenByRealName_def dest!: open_self_state realName_state split: prod.splits sum.splits)

lemma git_alias_state: "git_alias w pol p info st = (x, st') \<Longrightarrow> st_handles st' = st_handles st \<and> st_fresh st' = st_fresh st \<and> st_log st' = st_log st \<and> st_clock st \<le> st_clock st'"
  by (auto simp: git_alias_def dest!: lstat_state split: prod.splits sum.splits if_splits)

lemmas call_states = fstat_state lstat_state open_name_state open_root_state open_self_state readlink_state
  realName_state checkpoint_state Check_state real_name_state git_alias_state syscall_state

section \<open>The walk stays inside\<close>

lemma open_self_Inr: "open_self w d st = (Inr f, st') \<Longrightarrow> f = d"
  by (auto simp: open_self_def dest!: syscall_Inr)

lemma check_entered_sound:
  assumes "check_entered cf w pol n r st = (x, st')"
  shows "st_fresh st' = st_fresh st \<and> st_log st' = st_log st \<and> st_clock st \<le> st_clock st' \<and> st_handles st' = st_handles st - (case x of Inl _ \<Rightarrow> 1 | Inr _ \<Rightarrow> 0)"
    "x = Inr d \<Longrightarrow> d = r \<and> r = fi_id (dn_info n) \<and> (\<exists>t. fs_kind (w_fs w t) r = Directory) \<and> (\<exists>t. fs_same (w_fs w t) r)"
proof -
  show "st_fresh st' = st_fresh st \<and> st_log st' = st_log st \<and> st_clock st \<le> st_clock st' \<and> st_handles st' = st_handles st - (case x of Inl _ \<Rightarrow> 1 | Inr _ \<Rightarrow> 0)"
    using assms
    by (auto simp: check_entered_def release_handle_def dest!: call_states split: prod.splits sum.splits if_splits)
  assume "x = Inr d"
  with assms show "d = r \<and> r = fi_id (dn_info n) \<and> (\<exists>t. fs_kind (w_fs w t) r = Directory) \<and> (\<exists>t. fs_same (w_fs w t) r)"
    by (auto simp: check_entered_def info_of_def dest!: open_self_Inr fstat_Inr dest: Check_Inr
        split: prod.splits sum.splits if_splits)
qed

lemma enter_sound:
  assumes "enter cf w pol parent n st = (x, st')"
  shows "st_fresh st' = st_fresh st \<and> st_log st' = st_log st \<and> st_clock st \<le> st_clock st' \<and> st_handles st' = st_handles st + (case x of Inl _ \<Rightarrow> 0 | Inr _ \<Rightarrow> 1)"
    "x = Inr d \<Longrightarrow> reached w (wp_hides pol) root names parent \<Longrightarrow> reached w (wp_hides pol) root (names @ [dn_name n]) d"
proof -
  show "st_fresh st' = st_fresh st \<and> st_log st' = st_log st \<and> st_clock st \<le> st_clock st' \<and> st_handles st' = st_handles st + (case x of Inl _ \<Rightarrow> 0 | Inr _ \<Rightarrow> 1)"
    using assms
    by (auto simp: enter_def hold_def dest!: call_states check_entered_sound(1) split: prod.splits sum.splits if_splits)
  assume "x = Inr d" and parent: "reached w (wp_hides pol) root names parent"
  with assms obtain info st1 st2 r st3 where *: "\<not> wp_hides pol (dn_name n)" "lstat w parent (dn_name n) st = (Inr info, st1)"
    "fi_kind info = Directory" "fi_id info = fi_id (dn_info n)" "check_entered cf w pol n r (hold st3) = (Inr d, st')"
    by (auto simp: enter_def split: prod.splits sum.splits if_splits)
  have "reached w (wp_hides pol) root (names @ [dn_name n]) (fi_id info)"
    using lstat_Inr [OF *(2)] *(3) check_entered_sound(2) [OF *(5) refl] *(4)
    by (elim conjE exE) (rule below [OF parent *(1)], auto)
  then show "reached w (wp_hides pol) root (names @ [dn_name n]) d"
    using check_entered_sound(2) [OF *(5) refl] *(4) by simp
qed

lemma enter_all_sound:
  assumes "enter_all cf w ms c st = (x, c', st')" "cursor_ok cf w c"
  shows "cursor_ok cf w c' \<and> cu_policy c' = cu_policy c \<and> hd (cu_nodes c') = hd (cu_nodes c) \<and> cu_created c' = cu_created c
    \<and> st_handles st' - int (length (cu_roots c')) = st_handles st - int (length (cu_roots c)) \<and> st_fresh st' = st_fresh st \<and> st_log st' = st_log st \<and> st_clock st \<le> st_clock st'
    \<and> (\<forall>d. x = Inr d \<longrightarrow> d = last (cu_roots c'))"
  using assms
proof (induction cf w ms c st rule: enter_all.induct)
  case (2 cf w m ms c st)
  obtain y st1 where e: "enter cf w (cu_policy c) (last (cu_roots c)) m st = (y, st1)" by (cases "enter cf w (cu_policy c) (last (cu_roots c)) m st")
  note es = enter_sound(1) [OF e]
  show ?case
  proof (cases y)
    case (Inl err)
    with 2 e es show ?thesis by auto
  next
    case (Inr r)
    let ?c = "c\<lparr>cu_nodes := cu_nodes c @ [m], cu_roots := cu_roots c @ [r]\<rparr>"
    from 2(3) have "\<exists>names. reached w (wp_hides (cu_policy c)) (cf_root cf) names (last (cu_roots c))"
      by (auto simp: cursor_ok_def)
    then have "\<exists>names. reached w (wp_hides (cu_policy c)) (cf_root cf) names r"
      using enter_sound(2) [OF e Inr] by blast
    with 2(3) have ok: "cursor_ok cf w ?c" by (auto simp: cursor_ok_def)
    have hd: "hd (cu_nodes ?c) = hd (cu_nodes c)" using 2(3) by (auto simp: cursor_ok_def hd_append)
    have "enter_all cf w ms ?c st1 = (x, c', st')" using 2(2) e Inr by simp
    with 2(1) [OF e [symmetric] Inr _ ok] hd es Inr show ?thesis by auto
  qed
qed (auto simp: cursor_ok_def)

lemma shared_le: "shared as bs \<le> length bs"
  by (induction as bs rule: shared.induct) auto

lemma cursor_to_sound:
  assumes "cursor_to cf w n c st = (x, c', st')" "cursor_ok cf w c"
  shows "cursor_ok cf w c' \<and> cu_policy c' = cu_policy c \<and> hd (cu_nodes c') = hd (cu_nodes c) \<and> cu_created c' = cu_created c
    \<and> st_handles st' - int (length (cu_roots c')) = st_handles st - int (length (cu_roots c)) \<and> st_fresh st' = st_fresh st \<and> st_log st' = st_log st \<and> st_clock st \<le> st_clock st'
    \<and> (\<forall>d. x = Inr d \<longrightarrow> (\<exists>names. reached w (wp_hides (cu_policy c)) (cf_root cf) names d))"
proof (cases "dn_addr (hd (node_chain n)) \<noteq> dn_addr (hd (cu_nodes c))")
  case False
  let ?k = "Suc (shared (tl (node_chain n)) (tl (cu_nodes c)))"
  let ?c = "c\<lparr>cu_nodes := take ?k (cu_nodes c), cu_roots := take ?k (cu_roots c)\<rparr>"
  let ?st = "st\<lparr>st_handles := st_handles st - int (length (cu_roots c) - ?k)\<rparr>"
  from assms(2) have len: "length (cu_nodes c) = length (cu_roots c)" "cu_roots c \<noteq> []" by (auto simp: cursor_ok_def)
  then have "?k \<le> length (cu_roots c)"
    using shared_le [of "tl (node_chain n)" "tl (cu_nodes c)"] by (cases "cu_nodes c") auto
  moreover have ok: "cursor_ok cf w ?c" using assms(2) by (auto simp: cursor_ok_def dest: in_set_takeD)
  moreover have "hd (cu_nodes ?c) = hd (cu_nodes c)" using len by (cases "cu_nodes c") auto
  moreover have all: "enter_all cf w (drop ?k (node_chain n)) ?c ?st = (x, c', st')"
    using assms(1) False by (simp add: cursor_to_def Let_def truncate_cursor_def)
  ultimately show ?thesis
    using enter_all_sound [OF all ok] by (auto simp: cursor_ok_def min_def of_nat_diff)
qed (use assms in \<open>auto simp: cursor_to_def\<close>)

section \<open>What is opened\<close>

text \<open>What an identity is does not change while it is held.\<close>

definition kinds_stable :: "world \<Rightarrow> bool" where
  "kinds_stable w \<longleftrightarrow> (\<forall>t u i. fs_kind (w_fs w t) i = fs_kind (w_fs w u) i)"

text \<open>A file a tool may use: regular, with one link and on the workspace's mount when it was looked at through its handle.\<close>

definition admitted :: "ws_config \<Rightarrow> world \<Rightarrow> walk_policy \<Rightarrow> inode \<Rightarrow> bool" where
  "admitted cf w pol f \<longleftrightarrow> (\<exists>t. fs_kind (w_fs w t) f = Regular) \<and> (\<exists>t. fs_links (w_fs w t) f = 1) \<and> (\<exists>t. fs_same (w_fs w t) f)
     \<and> (aliasedNames cf \<longrightarrow> (\<exists>t. \<not> wp_hides pol (fs_real (w_fs w t) f)))"

lemma openIn_sound:
  assumes "openIn cf w dir name st = (x, st')"
  shows "st_fresh st' = st_fresh st \<and> st_log st' = st_log st \<and> st_clock st \<le> st_clock st' \<and> st_handles st' = st_handles st + (case x of Inl _ \<Rightarrow> 0 | Inr _ \<Rightarrow> 1)"
    "x = Inr f \<Longrightarrow> (\<exists>t. fs_same (w_fs w t) f) \<and> ((\<exists>t. fs_kind (w_fs w t) f = Directory) \<or> (\<exists>t. fs_links (w_fs w t) f = 1))"
proof -
  obtain o1 st1 where o: "(case name of Some n \<Rightarrow> open_name w dir n st | None \<Rightarrow> open_self w dir st) = (o1, st1)" by fastforce
  then have st1: "st_handles st1 = st_handles st" "st_fresh st1 = st_fresh st" "st_log st1 = st_log st" "st_clock st \<le> st_clock st1"
    by (auto dest: open_name_state open_self_state split: option.splits)
  show "st_fresh st' = st_fresh st \<and> st_log st' = st_log st \<and> st_clock st \<le> st_clock st' \<and> st_handles st' = st_handles st + (case x of Inl _ \<Rightarrow> 0 | Inr _ \<Rightarrow> 1)"
    using assms st1 by (auto simp: openIn_def o hold_def dest!: Check_state split: prod.splits sum.splits if_splits)
  assume "x = Inr f"
  with assms show "(\<exists>t. fs_same (w_fs w t) f) \<and> ((\<exists>t. fs_kind (w_fs w t) f = Directory) \<or> (\<exists>t. fs_links (w_fs w t) f = 1))"
    by (auto simp: openIn_def o dest: Check_Inr split: prod.splits sum.splits if_splits)
qed

lemma real_name_ok_sound:
  assumes "real_name_ok cf w pol f st = (x, st')"
  shows "st_fresh st' = st_fresh st \<and> st_log st' = st_log st \<and> st_clock st \<le> st_clock st' \<and> st_handles st' = st_handles st - (case x of Inl _ \<Rightarrow> 1 | Inr _ \<Rightarrow> 0)"
    "x = Inr g \<Longrightarrow> g = f \<and> (aliasedNames cf \<longrightarrow> (\<exists>t. \<not> wp_hides pol (fs_real (w_fs w t) f)))"
proof -
  show "st_fresh st' = st_fresh st \<and> st_log st' = st_log st \<and> st_clock st \<le> st_clock st' \<and> st_handles st' = st_handles st - (case x of Inl _ \<Rightarrow> 1 | Inr _ \<Rightarrow> 0)"
    using assms by (auto simp: real_name_ok_def release_handle_def dest!: realName_state split: prod.splits sum.splits if_splits)
  assume "x = Inr g"
  with assms show "g = f \<and> (aliasedNames cf \<longrightarrow> (\<exists>t. \<not> wp_hides pol (fs_real (w_fs w t) f)))"
    by (auto simp: real_name_ok_def realName_def dest!: syscall_Inr split: prod.splits sum.splits if_splits)
qed

lemma open_last_sound:
  assumes "open_last cf w pol dir part info st = (x, st')"
  shows "st_fresh st' = st_fresh st \<and> st_log st' = st_log st \<and> st_clock st \<le> st_clock st' \<and> st_handles st' = st_handles st + (case x of Inl _ \<Rightarrow> 0 | Inr _ \<Rightarrow> 1)"
    "x = Inr f \<Longrightarrow> kinds_stable w \<Longrightarrow> f = fi_id info \<and> admitted cf w pol f"
proof -
  show "st_fresh st' = st_fresh st \<and> st_log st' = st_log st \<and> st_clock st \<le> st_clock st' \<and> st_handles st' = st_handles st + (case x of Inl _ \<Rightarrow> 0 | Inr _ \<Rightarrow> 1)"
    using assms
    by (auto simp: open_last_def release_handle_def dest!: openIn_sound(1) fstat_state lstat_state real_name_ok_sound(1)
        split: prod.splits sum.splits if_splits)
  assume "x = Inr f" and stable: "kinds_stable w"
  with assms obtain g st1 opened st2 st3 where *: "openIn cf w dir (Some part) st = (Inr g, st1)"
    "fstat w g st1 = (Inr opened, st2)" "fi_kind opened = Regular" "fi_id opened = fi_id info"
    "real_name_ok cf w pol g st3 = (Inr f, st')"
    by (auto simp: open_last_def split: prod.splits sum.splits if_splits)
  have reg: "fs_kind (w_fs w (st_clock st1)) g = Regular" "g = fi_id info"
    using fstat_Inr [OF *(2)] *(3,4) by (auto simp: info_of_def)
  moreover have "\<exists>t. fs_links (w_fs w t) g = 1"
  proof (rule ccontr)
    assume "\<not> ?thesis"
    then obtain t where "fs_kind (w_fs w t) g = Directory" using openIn_sound(2) [OF *(1) refl] by blast
    moreover have "fs_kind (w_fs w t) g = fs_kind (w_fs w (st_clock st1)) g" using stable by (simp only: kinds_stable_def)
    ultimately show False using reg(1) by simp
  qed
  ultimately show "f = fi_id info \<and> admitted cf w pol f"
    using openIn_sound(2) [OF *(1) refl] real_name_ok_sound(2) [OF *(5) refl] unfolding admitted_def by blast
qed

text \<open>A file found in a directory the walk reached, under a name that is not reserved.\<close>

definition opened_inside :: "ws_config \<Rightarrow> world \<Rightarrow> walk_policy \<Rightarrow> inode \<Rightarrow> bool" where
  "opened_inside cf w pol f \<longleftrightarrow> admitted cf w pol f
     \<and> (\<exists>names d part t. reached w (wp_hides pol) (cf_root cf) names d \<and> \<not> Reserved part
          \<and> fs_entry (w_fs w t) d part = Some f \<and> fs_kind (w_fs w t) f = Regular)"

lemma walk_part_sound:
  assumes "walk_part cf w start dir part rest node hops pol st = (x, st')" "\<not> Reserved part" "kinds_stable w"
    "reached w (wp_hides pol) (cf_root cf) names dir"
  shows "st_handles st' = st_handles st + (case x of Stop (Inr _) \<Rightarrow> 1 | _ \<Rightarrow> 0) \<and> st_log st' = st_log st
    \<and> (\<forall>f. x = Stop (Inr f) \<longrightarrow> opened_inside cf w pol f)"
proof -
  obtain z st2 where ls: "lstat w dir part st = (z, st2)" by fastforce
  note lss = lstat_state [OF ls]
  show ?thesis
  proof (cases z)
    case (Inl e)
    with assms(1) ls lss show ?thesis by (auto simp: walk_part_def)
  next
    case (Inr info)
    show ?thesis
    proof (cases "fi_kind info = Regular \<and> rest = []")
      case True
      obtain r st3 where ol: "open_last cf w pol dir part info st2 = (r, st3)" by fastforce
      with assms(1) ls Inr True have x: "x = Stop r" "st' = st3" by (auto simp: walk_part_def)
      note sound = open_last_sound [OF ol]
      have "opened_inside cf w pol f" if "r = Inr f" for f
        using sound(2) [OF that assms(3)] lstat_Inr [OF ls [unfolded Inr]] True assms(2,4)
        unfolding opened_inside_def by auto metis
      with sound(1) x lss show ?thesis by (auto split: sum.splits)
    next
      case False
      with assms(1) ls lss Inr show ?thesis
        by (auto simp: walk_part_def follow_link_def node_child_def dest!: readlink_state split: prod.splits sum.splits if_splits)
    qed
  qed
qed

lemma open_walk_sound:
  assumes "open_walk cf w start parts node hops c st = (x, c', st')" "cursor_ok cf w c" "kinds_stable w"
  shows "cursor_ok cf w c' \<and> cu_policy c' = cu_policy c
    \<and> st_handles st' - int (length (cu_roots c')) = st_handles st - int (length (cu_roots c)) + (case x of Inl _ \<Rightarrow> 0 | Inr _ \<Rightarrow> 1)
    \<and> st_log st' = st_log st \<and> (\<forall>f. x = Inr f \<longrightarrow> opened_inside cf w (cu_policy c) f)"
  using assms
proof (induction cf w start parts node hops c st arbitrary: x c' st' rule: open_walk.induct)
  case (2 cf w start part rest node hops c st)
  note prems = "2.prems"
  obtain y c1 st1 where to: "cursor_to cf w node c st = (y, c1, st1)" by (cases "cursor_to cf w node c st") auto
  note tos = cursor_to_sound [OF to prems(2)]
  show ?case
  proof (cases "Reserved part \<or> (\<exists>e. y = Inl e)")
    case True
    with prems to tos show ?thesis by (auto split: if_splits)
  next
    case False
    then obtain dir where y: "y = Inr dir" and nr: "\<not> Reserved part" by (cases y) auto
    then obtain names where dir: "reached w (wp_hides (cu_policy c1)) (cf_root cf) names dir" using tos by auto
    obtain z st2 where wp: "walk_part cf w start dir part rest node hops (cu_policy c1) st1 = (z, st2)" by fastforce
    note wps = walk_part_sound [OF wp nr prems(3) dir]
    show ?thesis
    proof (cases z)
      case (Stop r)
      with prems(1) to y nr wp have "x = r" "c' = c1" "st' = st2" by auto
      with wps tos Stop show ?thesis by (auto split: sum.splits)
    next
      case (Go parts' node' hops')
      with prems(1) to y nr wp have "open_walk cf w start parts' node' hops' c1 st2 = (x, c', st')" by auto
      with 2(1) [OF nr to [symmetric] y refl wp [symmetric] Go this] tos wps Go prems(3) show ?thesis by auto
    qed
  qed
qed auto

lemma newCursor_ok: "cursor_ok cf w (newCursor cf root pol)"
  by (auto simp: cursor_ok_def newCursor_def intro: at_root)

lemma cursor_close_handles: "cursor_ok cf w c \<Longrightarrow> st_handles (cursor_close c st) = st_handles st - (int (length (cu_roots c)) - 1)"
  by (cases "cu_roots c") (auto simp: cursor_close_def truncate_cursor_def cursor_ok_def)

lemma read_chunks_state: "read_chunks w f limit buf st = (r, st') \<Longrightarrow> st_handles st' = st_handles st \<and> st_log st' = st_log st"
proof (induction w f limit buf st arbitrary: r st' rule: read_chunks.induct)
  case (1 w f limit buf st)
  obtain ended st1 where cp: "checkpoint w st = (ended, st1)" by fastforce
  let ?n = "chunk_size limit buf"
  obtain x st2 where sc: "syscall w (\<lambda>fs. Inr (take ?n (drop (length buf) (fs_data fs f)))) st1 = (x, st2)" by fastforce
  have states: "st_handles st1 = st_handles st" "st_handles st2 = st_handles st" "st_log st1 = st_log st" "st_log st2 = st_log st"
    using checkpoint_state [OF cp] syscall_state [OF sc] by simp_all
  show ?case
  proof (cases "ended \<or> (\<exists>e. x = Inl e) \<or> (\<exists>g. x = Inr g \<and> (length (buf @ g) > limit \<or> length g < ?n))")
    case True
    with 1(2) states show ?thesis
      by (subst (asm) read_chunks.simps) (auto simp: cp sc Let_def simp del: length_append split: if_splits)
  next
    case False
    then obtain g where x: "x = Inr g" "\<not> ended" "\<not> length (buf @ g) > limit" "\<not> length g < ?n" by (cases x) auto
    with 1(2) have "read_chunks w f limit (buf @ g) st2 = (r, st')"
      by (subst (asm) read_chunks.simps) (simp only: cp sc Let_def prod.case sum.case if_False simp_thms)
    with "1.IH" [OF cp [symmetric] x(2) refl sc [symmetric] x(1,3,4)] states show ?thesis by simp
  qed
qed

declare read_chunks.simps [simp del]

lemma read_opened_state: "read_opened cf w clean offset limit f st = (r, st') \<Longrightarrow> st_handles st' = st_handles st"
  by (auto simp: read_opened_def ReadAtMost_def dest!: fstat_state checkpoint_state read_chunks_state
      split: prod.splits sum.splits if_splits)

lemma rootNode_state: "rootNode cf w st = (r, st') \<Longrightarrow> st_handles st' = st_handles st"
  by (auto simp: rootNode_def dest!: fstat_state split: prod.splits sum.splits)

lemma openRegular_sound:
  assumes "openRegular cf w (newCursor cf root pol) root clean st = (x, c', st')" "kinds_stable w"
  shows "st_handles (cursor_close c' st') = st_handles st + (case x of Inl _ \<Rightarrow> 0 | Inr _ \<Rightarrow> 1)"
    "x = Inr f \<Longrightarrow> opened_inside cf w pol f"
  using open_walk_sound [OF assms(1) [unfolded openRegular_def] newCursor_ok assms(2)] cursor_close_handles [of cf w c' st']
  by (auto simp: newCursor_def)

section \<open>What is read\<close>

text \<open>Every byte was, at its place, a byte of the file at some moment.\<close>

definition bytes_of :: "world \<Rightarrow> inode \<Rightarrow> string \<Rightarrow> bool" where
  "bytes_of w f d \<longleftrightarrow> (\<forall>p < length d. \<exists>t. p < length (fs_data (w_fs w t) f) \<and> d ! p = fs_data (w_fs w t) f ! p)"

lemma bytes_of_append:
  assumes "bytes_of w f buf" "g = take n (drop (length buf) (fs_data (w_fs w t) f))"
  shows "bytes_of w f (buf @ g)"
  unfolding bytes_of_def
proof (intro allI impI)
  fix p assume p: "p < length (buf @ g)"
  show "\<exists>t. p < length (fs_data (w_fs w t) f) \<and> (buf @ g) ! p = fs_data (w_fs w t) f ! p"
  proof (cases "p < length buf")
    case True
    with assms(1) show ?thesis by (auto simp: bytes_of_def nth_append)
  next
    case False
    with p assms(2) show ?thesis by (intro exI [of _ t]) (auto simp: nth_append)
  qed
qed

lemma read_chunks_bytes:
  "read_chunks w f limit buf st = (Inr (d, big), st') \<Longrightarrow> bytes_of w f buf \<Longrightarrow> bytes_of w f d \<and> (\<not> big \<longrightarrow> length d \<le> limit)"
proof (induction w f limit buf st arbitrary: d st' rule: read_chunks.induct)
  case (1 w f limit buf st)
  obtain ended st1 where cp: "checkpoint w st = (ended, st1)" by fastforce
  let ?n = "chunk_size limit buf"
  obtain x st2 where sc: "syscall w (\<lambda>fs. Inr (take ?n (drop (length buf) (fs_data fs f)))) st1 = (x, st2)" by fastforce
  from 1(2) obtain g where g: "\<not> ended" "x = Inr g"
    by (subst (asm) read_chunks.simps) (auto simp: cp sc Let_def split: sum.splits if_splits)
  have bytes: "bytes_of w f (buf @ g)"
    using 1(3) syscall_Inr [OF sc [unfolded g]] by (auto intro: bytes_of_append)
  show ?case
  proof (cases "length (buf @ g) > limit \<or> length g < ?n")
    case True
    with 1(2) g bytes show ?thesis
      by (subst (asm) read_chunks.simps) (auto simp: cp sc Let_def simp del: length_append split: if_splits)
  next
    case False
    with 1(2) g have "read_chunks w f limit (buf @ g) st2 = (Inr (d, big), st')"
      by (subst (asm) read_chunks.simps) (simp only: cp sc Let_def prod.case sum.case if_False simp_thms de_Morgan_disj)
    with "1.IH" [OF cp [symmetric] g(1) refl sc [symmetric] g(2)] False bytes show ?thesis by blast
  qed
qed

lemma read_opened_answer:
  assumes "read_opened cf w clean offset limit f st = (Answer r, st')" "\<not> wr_IsError r"
  shows "\<exists>d. bytes_of w f d \<and> wsfile_Text d \<and> length d \<le> maxReadFileBytes \<and> wr_Content r = readLines d offset limit (cf_budget cf)"
proof -
  have "bytes_of w f []" by (simp add: bytes_of_def)
  from read_chunks_bytes [OF _ this] assms show ?thesis
    by (auto simp: read_opened_def read_error_def workbenchError_def Let_def ReadAtMost_def split: prod.splits sum.splits if_splits) metis+
qed

lemma read_clean_sound:
  assumes "read_clean cf w clean offset limit st = (a, st')" "kinds_stable w"
  shows "st_handles st' = st_handles st"
    "a = Answer r \<Longrightarrow> \<not> wr_IsError r \<Longrightarrow> \<exists>f d. opened_inside cf w readPolicy f \<and> bytes_of w f d \<and> wsfile_Text d
       \<and> length d \<le> maxReadFileBytes \<and> wr_Content r = readLines d offset limit (cf_budget cf)"
proof -
  obtain ended st1 where cp: "checkpoint w st = (ended, st1)" by fastforce
  obtain rn st2 where rn: "rootNode cf w st1 = (rn, st2)" by fastforce
  have h: "st_handles st1 = st_handles st" "st_handles st2 = st_handles st"
    using checkpoint_state [OF cp] rootNode_state [OF rn] by simp_all
  have both: "st_handles st' = st_handles st \<and> (a = Answer r \<longrightarrow> \<not> wr_IsError r \<longrightarrow> (\<exists>f d. opened_inside cf w readPolicy f \<and> bytes_of w f d \<and> wsfile_Text d
       \<and> length d \<le> maxReadFileBytes \<and> wr_Content r = readLines d offset limit (cf_budget cf)))"
  proof (cases "ended \<or> (\<exists>e. rn = Inl e)")
    case True
    with assms(1) h show ?thesis by (auto simp: read_clean_def cp rn read_error_def workbenchError_def Let_def split: if_splits)
  next
    case False
    then obtain root where root: "\<not> ended" "rn = Inr root" by (cases rn) auto
    obtain o1 c st3 where op: "openRegular cf w (newCursor cf root readPolicy) root clean st2 = (o1, c, st3)"
      by (cases "openRegular cf w (newCursor cf root readPolicy) root clean st2") auto
    note ops = openRegular_sound [OF op assms(2)]
    show ?thesis
    proof (cases o1)
      case (Inl code)
      with assms(1) root ops(1) h op show ?thesis by (auto simp: read_clean_def cp rn read_error_def workbenchError_def Let_def)
    next
      case (Inr f)
      obtain r' st4 where ro: "read_opened cf w clean offset limit f st3 = (r', st4)" by fastforce
      with assms(1) root op Inr have a: "a = r'" "st' = cursor_close c (release_handle st4)"
        by (auto simp: read_clean_def cp rn)
      have "st_handles st' = st_handles (cursor_close c st3) - 1"
        using read_opened_state [OF ro] a(2) by (simp add: cursor_close_def truncate_cursor_def release_handle_def)
      with ops(1) Inr h a(1) ro read_opened_answer [of cf w clean offset limit f st3 r st4] ops(2) [OF Inr]
      show ?thesis by auto
    qed
  qed
  then show "st_handles st' = st_handles st" by blast
  show "a = Answer r \<Longrightarrow> \<not> wr_IsError r \<Longrightarrow> \<exists>f d. opened_inside cf w readPolicy f \<and> bytes_of w f d \<and> wsfile_Text d
       \<and> length d \<le> maxReadFileBytes \<and> wr_Content r = readLines d offset limit (cf_budget cf)"
    using both by blast
qed

lemma readFile_handles: "readFile cf w args st = (a, st') \<Longrightarrow> kinds_stable w \<Longrightarrow> st_handles st' = st_handles st"
  by (auto simp: readFile_def Let_def dest!: read_clean_sound(1) split: option.splits sum.splits if_splits)

section \<open>A file system nobody changes\<close>

definition quiet :: "fsys \<Rightarrow> world" where
  "quiet fs = \<lparr>w_fs = (\<lambda>_. fs), w_fault = (\<lambda>_. None), w_ended = (\<lambda>_. False), w_late = (\<lambda>_. False),
     w_short = (\<lambda>_. 0), w_new = (\<lambda>t. t + 1000), w_rand = (\<lambda>_. ''00'')\<rparr>"

lemma syscall_quiet [simp]: "syscall (quiet fs) f st = (f fs, st\<lparr>st_clock := Suc (st_clock st)\<rparr>)"
  by (simp add: syscall_def quiet_def)

lemma checkpoint_quiet [simp]: "checkpoint (quiet fs) st = (False, st\<lparr>st_clock := Suc (st_clock st)\<rparr>)"
  by (simp add: checkpoint_def quiet_def)

text \<open>A node the policy and the platform have nothing against.\<close>

definition node_ok :: "ws_config \<Rightarrow> fsys \<Rightarrow> walk_policy \<Rightarrow> inode \<Rightarrow> bool" where
  "node_ok cf fs pol i \<longleftrightarrow> fs_same fs i \<and> (aliasedNames cf \<longrightarrow> fs_disk fs i \<and> \<not> wp_hides pol (fs_real fs i))"

text \<open>The file a path of names leads to through directories only.\<close>

fun plain_path :: "ws_config \<Rightarrow> fsys \<Rightarrow> walk_policy \<Rightarrow> inode \<Rightarrow> string list \<Rightarrow> inode \<Rightarrow> bool" where
  "plain_path cf fs pol d [] f = False"
| "plain_path cf fs pol d (name # rest) f \<longleftrightarrow> \<not> Reserved name \<and>
     (case fs_entry fs d name of None \<Rightarrow> False
      | Some i \<Rightarrow> if rest = [] then i = f \<and> fs_kind fs f = Regular \<and> fs_links fs f = 1 \<and> node_ok cf fs pol f
                  else \<not> wp_hides pol name \<and> fs_kind fs i = Directory \<and> node_ok cf fs pol i \<and> plain_path cf fs pol i rest f)"

lemma enter_quiet:
  assumes "fs_entry fs parent (dn_name n) = Some i" "fs_kind fs i = Directory" "\<not> wp_hides pol (dn_name n)" "\<not> wp_git pol"
    "node_ok cf fs pol i" "fi_id (dn_info n) = i"
  shows "fst (enter cf (quiet fs) pol parent n st) = Inr i"
  using assms
  by (auto simp: enter_def lstat_def git_alias_def open_root_def check_entered_def open_self_def wsfile_Check_def fstat_def
      info_of_def node_ok_def aliasedNames_def hiddenByRealName_def realName_def)

lemma shared_same: "shared (as @ bs) as = length as"
  by (induction as) auto

text \<open>Moving the cursor one directory down, or leaving it where it is.\<close>

lemma cursor_down:
  assumes "node_chain n = cu_nodes c @ ms" "cu_nodes c \<noteq> []" "length (cu_nodes c) = length (cu_roots c)"
  shows "cursor_to cf w n c st = enter_all cf w ms c st"
proof -
  obtain a as where c: "cu_nodes c = a # as" using assms(2) by (cases "cu_nodes c") auto
  have "Suc (shared (tl (node_chain n)) (tl (cu_nodes c))) = length (cu_nodes c)"
    using assms(1) shared_same [of as ms] by (simp add: c)
  moreover have "length (cu_roots c) = Suc (length as)" using assms(3) c by simp
  moreover have same: "c\<lparr>cu_nodes := a # as\<rparr> = c" using c by (cases c) simp
  ultimately show ?thesis
    using assms(1) by (simp add: cursor_to_def truncate_cursor_def Let_def c same)
qed

text \<open>The walk stands at directory \<open>d\<close>: the cursor holds it, or will after entering one more node.\<close>

definition stands_at :: "ws_config \<Rightarrow> fsys \<Rightarrow> cursor \<Rightarrow> dir_node \<Rightarrow> inode \<Rightarrow> bool" where
  "stands_at cf fs c n d \<longleftrightarrow> cu_nodes c \<noteq> [] \<and> length (cu_nodes c) = length (cu_roots c) \<and> \<not> wp_git (cu_policy c) \<and>
     (node_chain n = cu_nodes c \<and> last (cu_roots c) = d
      \<or> node_chain n = cu_nodes c @ [n] \<and> fs_entry fs (last (cu_roots c)) (dn_name n) = Some d \<and> fs_kind fs d = Directory
        \<and> \<not> wp_hides (cu_policy c) (dn_name n) \<and> node_ok cf fs (cu_policy c) d \<and> fi_id (dn_info n) = d)"

lemma stands_at_to:
  assumes "stands_at cf fs c n d"
  obtains c' st' where "cursor_to cf (quiet fs) n c st = (Inr d, c', st')" "node_chain n = cu_nodes c'" "last (cu_roots c') = d"
    "cu_nodes c' \<noteq> []" "length (cu_nodes c') = length (cu_roots c')" "cu_policy c' = cu_policy c"
proof -
  from assms have c: "cu_nodes c \<noteq> []" "length (cu_nodes c) = length (cu_roots c)" "\<not> wp_git (cu_policy c)" by (auto simp: stands_at_def)
  from assms consider (here) "node_chain n = cu_nodes c" "last (cu_roots c) = d"
    | (next') "node_chain n = cu_nodes c @ [n]" "fs_entry fs (last (cu_roots c)) (dn_name n) = Some d" "fs_kind fs d = Directory"
        "\<not> wp_hides (cu_policy c) (dn_name n)" "node_ok cf fs (cu_policy c) d" "fi_id (dn_info n) = d"
    by (auto simp: stands_at_def)
  then show thesis
  proof cases
    case here
    then show ?thesis using cursor_down [of n c "[]" cf "quiet fs" st] c by (intro that [of c st]) auto
  next
    case next'
    obtain st' where "enter cf (quiet fs) (cu_policy c) (last (cu_roots c)) n st = (Inr d, st')"
      using enter_quiet [OF next'(2,3,4) c(3) next'(5,6), of st] by (metis prod.collapse)
    then show ?thesis
      using cursor_down [OF next'(1) c(1,2), of cf "quiet fs" st] c next'
      by (intro that [of "c\<lparr>cu_nodes := cu_nodes c @ [n], cu_roots := cu_roots c @ [d]\<rparr>" st']) auto
  qed
qed

lemma walk_quiet:
  assumes "stands_at cf fs c node d" "plain_path cf fs (cu_policy c) d parts f"
  shows "\<exists>c' st'. open_walk cf (quiet fs) start parts node hops c st = (Inr f, c', st')"
  using assms
proof (induction parts arbitrary: c node d st)
  case (Cons part rest)
  from Cons.prems(1) obtain c1 st1 where to: "cursor_to cf (quiet fs) node c st = (Inr d, c1, st1)" "node_chain node = cu_nodes c1"
    "last (cu_roots c1) = d" "cu_nodes c1 \<noteq> []" "length (cu_nodes c1) = length (cu_roots c1)" "cu_policy c1 = cu_policy c"
    by (rule stands_at_to [where st = st]) auto
  from Cons.prems(2) obtain i where i: "\<not> Reserved part" "fs_entry fs d part = Some i" by (auto split: option.splits)
  show ?case
  proof (cases "rest = []")
    case True
    with Cons.prems(2) i have f: "i = f" "fs_kind fs f = Regular" "fs_links fs f = 1" "node_ok cf fs (cu_policy c) f" by auto
    have "fst (open_last cf (quiet fs) (cu_policy c1) d part (info_of fs f) st) = Inr f" for st
      using f i(2) to(6)
      by (auto simp: open_last_def openIn_def open_name_def wsfile_Check_def fstat_def lstat_def info_of_def LinkCount_def node_ok_def
          aliasedNames_def real_name_ok_def realName_def)
    then obtain st2 where "open_last cf (quiet fs) (cu_policy c1) d part (info_of fs f) (st1\<lparr>st_clock := Suc (st_clock st1)\<rparr>) = (Inr f, st2)"
      by (metis prod.collapse)
    with i f to True show ?thesis by (auto simp: walk_part_def lstat_def info_of_def)
  next
    case False
    with Cons.prems(2) i have d: "fs_kind fs i = Directory" "\<not> wp_hides (cu_policy c) part" "node_ok cf fs (cu_policy c) i"
      "plain_path cf fs (cu_policy c1) i rest f" using to(6) by auto
    define child where "child = DirNode (st_fresh st1) part (info_of fs i) (Some node) (path_Join [dn_rel node, part])"
    have "stands_at cf fs c1 child i"
      using to d i(2) Cons.prems(1) by (auto simp: stands_at_def child_def info_of_def)
    from Cons.IH [OF this d(4)] obtain c' st' where
      "open_walk cf (quiet fs) start rest child hops c1 (st1\<lparr>st_clock := Suc (st_clock st1), st_fresh := Suc (st_fresh st1)\<rparr>) = (Inr f, c', st')"
      by blast
    with i d(1) to(1) False show ?thesis
      by (auto simp: walk_part_def lstat_def node_child_def child_def info_of_def)
  qed
qed simp

lemma read_chunks_quiet:
  assumes "buf = take (length buf) (fs_data fs f)" "length (fs_data fs f) \<le> limit"
  shows "fst (read_chunks (quiet fs) f limit buf st) = Inr (fs_data fs f, False)"
  using assms
proof (induction "Suc limit - length buf" arbitrary: buf st rule: less_induct)
  case less
  let ?d = "fs_data fs f" and ?n = "chunk_size limit buf"
  let ?g = "take ?n (drop (length buf) ?d)"
  have len: "length buf \<le> length ?d" using less.prems(1) by (metis length_take min.cobounded1)
  have app: "buf @ ?g = take (length buf + ?n) ?d" using less.prems(1) by (metis take_add)
  have n: "0 < ?n" "length buf + ?n \<le> limit + 1" using len less.prems(2) by (auto simp: chunk_size_def)
  have le: "length (buf @ ?g) \<le> limit" unfolding app using less.prems(2) by simp
  show ?case
  proof (cases "length ?g < ?n")
    case True
    then have "length ?d \<le> length buf + ?n" by simp
    with app have "buf @ ?g = ?d" by simp
    with True le show ?thesis by (subst read_chunks.simps) (simp del: length_take length_drop length_append add: Let_def)
  next
    case False
    let ?st = "st\<lparr>st_clock := Suc (Suc (st_clock st))\<rparr>"
    have "length (buf @ ?g) = length buf + ?n" using False by simp
    then have "fst (read_chunks (quiet fs) f limit (buf @ ?g) ?st) = Inr (?d, False)"
      using app n len less.prems(2) by (intro less.hyps) (auto simp: le_imp_diff_is_add)
    moreover have "read_chunks (quiet fs) f limit buf st = read_chunks (quiet fs) f limit (buf @ ?g) ?st"
      using False le by (subst read_chunks.simps) (simp del: length_take length_drop length_append add: Let_def)
    ultimately show ?thesis by simp
  qed
qed

lemma read_opened_quiet:
  assumes "length (fs_data fs f) \<le> maxReadFileBytes" "wsfile_Text (fs_data fs f)"
  shows "fst (read_opened cf (quiet fs) clean offset limit f st)
    = Answer \<lparr>wr_Content = readLines (fs_data fs f) offset limit (cf_budget cf), wr_IsError = False\<rparr>"
proof -
  have "fst (read_chunks (quiet fs) f maxReadFileBytes [] st) = Inr (fs_data fs f, False)" for st
    using read_chunks_quiet [of "[]"] assms(1) by simp
  then have s: "read_chunks (quiet fs) f maxReadFileBytes [] st
      = (Inr (fs_data fs f, False), snd (read_chunks (quiet fs) f maxReadFileBytes [] st))" for st
    by (simp add: prod_eq_iff)
  show ?thesis using assms by (simp add: read_opened_def fstat_def info_of_def ReadAtMost_def) (subst s, simp)
qed

lemma openRegular_quiet:
  assumes "plain_path cf fs pol (cf_root cf) (strings_Split clean slash) f" "\<not> wp_git pol" "dn_parent root = None"
  obtains c' st' where "openRegular cf (quiet fs) (newCursor cf root pol) root clean st = (Inr f, c', st')"
proof -
  have "stands_at cf fs (newCursor cf root pol) root (cf_root cf)"
    using assms(2,3) by (cases root) (auto simp: stands_at_def newCursor_def)
  from walk_quiet [OF this] assms(1) that show thesis by (force simp: openRegular_def newCursor_def)
qed

lemma read_clean_quiet:
  assumes "plain_path cf fs readPolicy (cf_root cf) (strings_Split clean slash) f"
    "length (fs_data fs f) \<le> maxReadFileBytes" "wsfile_Text (fs_data fs f)"
  shows "fst (read_clean cf (quiet fs) clean offset limit st)
    = Answer \<lparr>wr_Content = readLines (fs_data fs f) offset limit (cf_budget cf), wr_IsError = False\<rparr>"
proof -
  let ?st = "st\<lparr>st_clock := Suc (st_clock st)\<rparr>"
  obtain root st1 where rn: "rootNode cf (quiet fs) ?st = (Inr root, st1)" "dn_parent root = None"
    by (auto simp: rootNode_def fstat_def)
  obtain c st2 where "openRegular cf (quiet fs) (newCursor cf root readPolicy) root clean st1 = (Inr f, c, st2)"
    using openRegular_quiet [OF assms(1) _ rn(2), of st1] by (auto simp: readPolicy_def)
  then show ?thesis
    using read_opened_quiet [OF assms(2,3), of cf clean offset limit st2]
    by (auto simp: read_clean_def rn split: prod.splits)
qed

text \<open>A workspace with one directory and one file in it.\<close>

definition example_fs :: fsys where
  "example_fs = \<lparr>fs_entry = (\<lambda>d n. if d = 0 \<and> n = ''a'' then Some 1 else if d = 1 \<and> n = ''f'' then Some 2 else None),
     fs_follow = (\<lambda>d n. Inl ErrNotExist), fs_kind = (\<lambda>i. if i = 2 then Regular else Directory), fs_links = (\<lambda>i. 1),
     fs_same = (\<lambda>i. True), fs_disk = (\<lambda>i. True), fs_real = (\<lambda>i. ''x''), fs_link = (\<lambda>i. []),
     fs_data = (\<lambda>i. if i = 2 then ''hello'' else []), fs_perm = (\<lambda>i. 384),
     fs_names = (\<lambda>i. if i = 0 then [''a''] else if i = 1 then [''f''] else [])\<rparr>"

definition example_config :: ws_config where
  "example_config = \<lparr>cf_goos = ''windows'', cf_printable = (\<lambda>r. True), cf_root = 0, cf_budget = 4096, cf_id = ''0'', cf_mode = 384\<rparr>"

definition example_state :: ws_state where
  "example_state = \<lparr>st_clock = 0, st_handles = 0, st_fresh = 0, st_log = []\<rparr>"

definition example_args :: read_args where
  "example_args = \<lparr>ra_Path = ''./a//f'', ra_Offset = Some 1, ra_Limit = Some 10\<rparr>"

lemma example_path: "plain_path example_config example_fs readPolicy 0 [''a'', ''f''] 2"
  by code_simp

lemma example_resolve: "resolveName ''windows'' ''./a//f'' False = Inr ''a/f''"
  by code_simp

lemma example_split: "strings_Split ''a/f'' slash = [''a'', ''f'']"
  by code_simp

lemma example_text: "wsfile_Text ''hello''" "readLines ''hello'' 1 10 4096 = ''hello''"
proof -
  have "list_all (\<lambda>c. byte c < 0x80) ''hello''" by code_simp
  from utf8_valid_ascii [OF this] show "wsfile_Text ''hello''" by (simp only: wsfile_Text_def) simp
  show "readLines ''hello'' 1 10 4096 = ''hello''"
    by (simp add: readLines_def read_page_def line_count_def room_of_def page_loop.simps lineEnd_def)
qed

lemmas example_simps = example_fs_def example_config_def

lemma example_run:
  "fst (readFile example_config (quiet example_fs) (Some example_args) example_state) = Answer \<lparr>wr_Content = ''hello'', wr_IsError = False\<rparr>"
  using read_clean_quiet [of example_config example_fs "''a/f''" 2 1 10 example_state] example_path example_resolve example_split example_text
  by (simp add: readFile_def example_args_def ToolAvailability_def example_simps)

lemma kinds_stable_quiet: "kinds_stable (quiet fs)"
  by (simp add: kinds_stable_def quiet_def)

section \<open>Properties\<close>

text \<open>C15.
  Whatever others do to the file system between any two system calls, read_file shows only text read byte for byte from a
  file that was, while held open, a regular file with one link on the workspace's mount, found as an entry with a name
  that is not reserved in a directory reached from the root through directories that were each entered from the one before
  and are on that mount; a name Windows gives the file is not reserved either. It shows nothing at all on Linux and macOS,
  and holds no handle afterwards, however it ends.
\<close>

theorem read_file_confined:
  assumes "readFile cf w args st = (a, st')" "kinds_stable w"
  shows "st_handles st' = st_handles st \<and>
    (\<forall>r. a = Answer r \<and> \<not> wr_IsError r \<longrightarrow> cf_goos cf \<noteq> ''linux'' \<and> cf_goos cf \<noteq> ''darwin''
       \<and> (\<exists>f d offset limit. opened_inside cf w readPolicy f \<and> bytes_of w f d \<and> wsfile_Text d
            \<and> length d \<le> 16777216 \<and> wr_Content r = readLines d offset limit (cf_budget cf)))"
proof (intro conjI allI impI)
  show "st_handles st' = st_handles st" using readFile_handles assms by blast
next
  fix r assume r: "a = Answer r \<and> \<not> wr_IsError r"
  have err: "\<not> (read_error cf code rel = Answer r \<and> \<not> wr_IsError r)" for code rel
    by (auto simp: read_error_def workbenchError_def Let_def)
  from r assms(1) show "cf_goos cf \<noteq> ''linux''" "cf_goos cf \<noteq> ''darwin''"
    by (auto simp: readFile_def ToolAvailability_def contentRefusal_def split: if_splits)
  from assms(1) r obtain clean offset limit where "read_clean cf w clean offset limit st = (a, st')"
    using err by (auto simp: readFile_def contentRefusal_def Let_def split: option.splits sum.splits if_splits)
  from read_clean_sound(2) [OF this assms(2)] r
  show "\<exists>f d offset limit. opened_inside cf w readPolicy f \<and> bytes_of w f d \<and> wsfile_Text d
            \<and> length d \<le> 16777216 \<and> wr_Content r = readLines d offset limit (cf_budget cf)" by blast
qed

theorem read_file_confined_witness:
  "st_handles (snd (readFile example_config (quiet example_fs) (Some example_args) example_state)) = 0
   \<and> (\<exists>f d. opened_inside example_config (quiet example_fs) readPolicy f \<and> bytes_of (quiet example_fs) f d)"
proof -
  show ?thesis
    using read_file_confined [OF prod.collapse [symmetric] kinds_stable_quiet, of example_config example_fs "Some example_args" example_state] example_run
    by (auto simp: example_state_def)
qed

text \<open>C18.
  While nobody changes the file system, read_file shows exactly the requested page of the file its path names, for every
  path that leads through directories to a regular text file of at most 16 MiB with one link.
\<close>

theorem read_file_exact:
  assumes "ToolAvailability (cf_goos cf) ''read_file'' = []" "resolveName (cf_goos cf) p False = Inr clean"
    "plain_path cf fs readPolicy (cf_root cf) (strings_Split clean slash) f"
    "length (fs_data fs f) \<le> 16777216" "wsfile_Text (fs_data fs f)" "1 \<le> offset" "1 \<le> limit" "limit \<le> 2000"
  shows "fst (readFile cf (quiet fs) (Some \<lparr>ra_Path = p, ra_Offset = Some offset, ra_Limit = Some limit\<rparr>) st)
    = Answer \<lparr>wr_Content = readLines (fs_data fs f) (nat offset) (nat limit) (cf_budget cf), wr_IsError = False\<rparr>"
  using assms read_clean_quiet [OF assms(3-5), of "nat offset" "nat limit" st]
  by (simp add: readFile_def Let_def)

theorem read_file_exact_witness:
  "fst (readFile example_config (quiet example_fs) (Some example_args) example_state)
     = Answer \<lparr>wr_Content = ''hello'', wr_IsError = False\<rparr>"
  using read_file_exact [of example_config "''./a//f''" "''a/f''" example_fs 2 1 10 example_state]
    example_path example_resolve example_split example_text
  by (simp add: ToolAvailability_def example_args_def example_simps)

end
