(* ===== verification/Ws_Write.thy ===== *)
theory Ws_Write
  imports Workspace
begin

text \<open>
  The writing tools of a workspace (sandbox/write.go): \<open>writeParent\<close>, \<open>writeFile\<close> and \<open>replaceFile\<close>, which puts a complete,
  synced temporary file in place by one rename. A change is recorded with the moment it was made; a call that reports a
  failure may have made it all the same. Every file a handle is held on is counted, from the call that opens it to the one
  that closes it, deferred or not. The faults a test injects are not part of the model.
\<close>

section \<open>System calls that change something\<close>

definition mutate :: "world \<Rightarrow> (fsys \<Rightarrow> sys_error option) \<Rightarrow> effect \<Rightarrow> ws_state \<Rightarrow> (sys_error + unit) \<times> ws_state" where
  "mutate w guard e st =
     (let t = st_clock st; st1 = st\<lparr>st_clock := Suc t\<rparr>; changed = st1\<lparr>st_log := (t, e) # st_log st\<rparr> in
      case guard (w_fs w t) of
        Some err \<Rightarrow> (Inl err, st1)
      | None \<Rightarrow> (case w_fault w t of
          Some err \<Rightarrow> (Inl err, if w_late w t then changed else st1)
        | None \<Rightarrow> (Inr (), changed)))"

definition no_guard :: "fsys \<Rightarrow> sys_error option" where
  "no_guard fs = None"

definition mkdir :: "world \<Rightarrow> inode \<Rightarrow> string \<Rightarrow> ws_state \<Rightarrow> (sys_error + unit) \<times> ws_state" where
  "mkdir w d name st = mutate w (\<lambda>fs. if fs_entry fs d name = None then None else Some ErrOther)
     (MkDir d name (w_new w (st_clock st))) st"

text \<open>\<open>O_CREATE|O_EXCL\<close>: the identity of the new file, on which a handle is held.\<close>

definition create_file :: "world \<Rightarrow> inode \<Rightarrow> string \<Rightarrow> ws_state \<Rightarrow> (sys_error + inode) \<times> ws_state" where
  "create_file w d name st =
     (let i = w_new w (st_clock st) in
      case mutate w (\<lambda>fs. if fs_entry fs d name = None then None else Some ErrOther) (Create d name i) st of
        (Inl e, st) \<Rightarrow> (Inl e, st)
      | (Inr u, st) \<Rightarrow> (Inr i, hold st))"

text \<open>\<open>WriteString\<close>: a write that fails has written some beginning of the text.\<close>

definition write_string :: "world \<Rightarrow> inode \<Rightarrow> string \<Rightarrow> ws_state \<Rightarrow> (sys_error + unit) \<times> ws_state" where
  "write_string w i s st =
     (let t = st_clock st; done' = (case w_fault w t of Some e \<Rightarrow> take (w_short w t) s | None \<Rightarrow> s)
      in (case w_fault w t of Some e \<Rightarrow> Inl e | None \<Rightarrow> Inr (), st\<lparr>st_clock := Suc t, st_log := (t, Append i done') # st_log st\<rparr>))"

definition rename :: "world \<Rightarrow> inode \<Rightarrow> string \<Rightarrow> string \<Rightarrow> ws_state \<Rightarrow> (sys_error + unit) \<times> ws_state" where
  "rename w d old new st = mutate w
     (\<lambda>fs. case fs_entry fs d old of None \<Rightarrow> Some ErrNotExist
        | Some _ \<Rightarrow> (case fs_entry fs d new of Some i \<Rightarrow> if fs_kind fs i = Directory then Some ErrOther else None | None \<Rightarrow> None))
     (Rename d old new) st"

definition remove_name :: "world \<Rightarrow> inode \<Rightarrow> string \<Rightarrow> ws_state \<Rightarrow> ws_state" where
  "remove_name w d name st = snd (mutate w (\<lambda>fs. if fs_entry fs d name = None then Some ErrNotExist else None) (Remove d name) st)"

text \<open>Closing a file can report an error; the handle is gone all the same, so that closing it again does nothing.\<close>

definition close_file :: "world \<Rightarrow> ws_state \<Rightarrow> (sys_error + unit) \<times> ws_state" where
  "close_file w st = (case syscall w (\<lambda>fs. Inr ()) st of (r, st) \<Rightarrow> (r, release_handle st))"

section \<open>Replacing a file\<close>

definition write_error :: "ws_config \<Rightarrow> string \<Rightarrow> ws_code \<Rightarrow> string \<Rightarrow> tool_answer" where
  "write_error cf tool code rel =
     (let r = workbenchError (cf_printable cf) tool code rel in if code = WriteUnknown then Unknown r else Answer r)"

definition workbenchFileMode :: "ws_config \<Rightarrow> nat \<Rightarrow> nat" where
  "workbenchFileMode cf mode = (if cf_goos cf = ''windows'' then 384 else mode mod 512)"

definition temp_name :: "ws_config \<Rightarrow> string \<Rightarrow> string" where
  "temp_name cf random = ''.harness-workbench-'' @ filter (\<lambda>c. c \<noteq> CHR ''-'') (cf_id cf) @ ''-'' @ random @ ''.tmp''"

text \<open>The temporary file from its creation to its close: what is written, synced and set before its identity is taken.\<close>

definition finish_temp :: "ws_config \<Rightarrow> world \<Rightarrow> nat \<Rightarrow> inode \<Rightarrow> ws_state \<Rightarrow> bool \<times> ws_state" where
  "finish_temp cf w mode i st =
     (case mutate w no_guard (Chmod i (workbenchFileMode cf mode)) st of
        (Inl e, st) \<Rightarrow> (False, st)
      | (Inr u, st) \<Rightarrow>
         (case checkpoint w st of (ended, st) \<Rightarrow>
            if ended then (False, st)
            else (case fstat w i st of (Inl e, st) \<Rightarrow> (False, st) | (Inr identity, st) \<Rightarrow> (True, st))))"

definition write_temp :: "ws_config \<Rightarrow> world \<Rightarrow> string \<Rightarrow> nat \<Rightarrow> inode \<Rightarrow> ws_state \<Rightarrow> bool \<times> ws_state" where
  "write_temp cf w content mode i st =
     (case write_string w i content st of
        (Inl e, st) \<Rightarrow> (False, st)
      | (Inr u, st) \<Rightarrow>
         (case mutate w no_guard (SyncFile i) st of
            (Inl e, st) \<Rightarrow> (False, st)
          | (Inr u, st) \<Rightarrow>
             (case checkpoint w st of (ended, st) \<Rightarrow> if ended then (False, st) else finish_temp cf w mode i st)))"

text \<open>After a failure the deferred call closes the file, otherwise it is closed before the rename.\<close>

definition fill_temp :: "ws_config \<Rightarrow> world \<Rightarrow> string \<Rightarrow> nat \<Rightarrow> inode \<Rightarrow> ws_state \<Rightarrow> bool \<times> ws_state" where
  "fill_temp cf w content mode i st =
     (case write_temp cf w content mode i st of
        (False, st) \<Rightarrow> (False, release_handle st)
      | (True, st) \<Rightarrow> (case close_file w st of (Inl e, st) \<Rightarrow> (False, st) | (Inr u, st) \<Rightarrow> (True, st)))"

datatype commit = Committed | NotCommitted | Unsure

text \<open>The rename, and what is concluded when it reports a failure.\<close>

definition commit_temp :: "world \<Rightarrow> inode \<Rightarrow> string \<Rightarrow> string \<Rightarrow> inode \<Rightarrow> ws_state \<Rightarrow> commit \<times> ws_state" where
  "commit_temp w dir tmp name identity st =
     (case rename w dir tmp name st of
        (Inr u, st) \<Rightarrow> (Committed, st)
      | (Inl e, st) \<Rightarrow>
         (case lstat w dir name st of (r1, st) \<Rightarrow>
            if (case r1 of Inr final \<Rightarrow> fi_id final = identity | Inl e \<Rightarrow> False) then (Committed, st)
            else (case lstat w dir tmp st of (r2, st) \<Rightarrow>
              if (case r2 of Inr remaining \<Rightarrow> fi_id remaining = identity | Inl e \<Rightarrow> False) then (NotCommitted, st)
              else (Unsure, st))))"

text \<open>
  Directory handles, by their place in the cursor: opened once each, then the new directories' modes, then synced and
  closed one by one. What is still open at the end, after a failure, is closed by the deferred call.
\<close>

fun open_dirs :: "world \<Rightarrow> (nat \<times> inode) list \<Rightarrow> (nat \<times> inode) list \<Rightarrow> ws_state \<Rightarrow> (bool \<times> (nat \<times> inode) list) \<times> ws_state" where
  "open_dirs w opened [] st = ((True, opened), st)"
| "open_dirs w opened (r # rs) st =
     (if r \<in> set opened then open_dirs w opened rs st
      else case open_self w (snd r) st of
        (Inl e, st) \<Rightarrow> ((False, opened), st)
      | (Inr f, st) \<Rightarrow> open_dirs w (opened @ [r]) rs (hold st))"

fun chmod_dirs :: "world \<Rightarrow> nat \<Rightarrow> (nat \<times> inode) list \<Rightarrow> ws_state \<Rightarrow> bool \<times> ws_state" where
  "chmod_dirs w mode [] st = (True, st)"
| "chmod_dirs w mode (r # rs) st =
     (case mutate w no_guard (Chmod (snd r) mode) st of (Inl e, st) \<Rightarrow> (False, st) | (Inr u, st) \<Rightarrow> chmod_dirs w mode rs st)"

fun sync_dirs :: "ws_config \<Rightarrow> world \<Rightarrow> (nat \<times> inode) list \<Rightarrow> ws_state \<Rightarrow> (bool \<times> (nat \<times> inode) list) \<times> ws_state" where
  "sync_dirs cf w [] st = ((True, []), st)"
| "sync_dirs cf w (r # rs) st =
     (if cf_goos cf = ''windows'' then sync_dirs cf w rs (release_handle st)
      else case mutate w no_guard (SyncDir (snd r)) st of
        (Inl e, st) \<Rightarrow> ((False, r # rs), st)
      | (Inr u, st) \<Rightarrow> sync_dirs cf w rs (release_handle st))"

fun close_dirs :: "(nat \<times> inode) list \<Rightarrow> ws_state \<Rightarrow> ws_state" where
  "close_dirs [] st = st"
| "close_dirs (r # rs) st = close_dirs rs (release_handle st)"

text \<open>A mode with the search bits of the classes that may read: \<open>mode | (mode & 0444) >> 2\<close>.\<close>

definition search_bits :: "nat \<Rightarrow> nat" where
  "search_bits mode = or mode (drop_bit 2 (and mode 292))"

definition file_mode :: "ws_config \<Rightarrow> nat" where
  "file_mode cf = (if cf_mode cf = 0 then 384 else cf_mode cf)"

definition settle_dirs :: "ws_config \<Rightarrow> world \<Rightarrow> nat \<times> inode \<Rightarrow> (nat \<times> inode) list \<Rightarrow> (nat \<times> inode) list \<Rightarrow> ws_state \<Rightarrow> bool \<times> ws_state" where
  "settle_dirs cf w dir parents created st =
     (case open_dirs w [] (dir # rev created @ rev parents) st of
        ((False, handles), st) \<Rightarrow> (False, close_dirs handles st)
      | ((True, handles), st) \<Rightarrow>
         (case chmod_dirs w (workbenchFileMode cf (search_bits (file_mode cf))) (rev created) st of
            (False, st) \<Rightarrow> (False, close_dirs handles st)
          | (True, st) \<Rightarrow> (case sync_dirs cf w handles st of ((ok, rest), st) \<Rightarrow> (ok, close_dirs rest st))))"

definition replaceFile :: "ws_config \<Rightarrow> world \<Rightarrow> string \<Rightarrow> string \<Rightarrow> nat \<times> inode \<Rightarrow> string \<Rightarrow> string \<Rightarrow> nat
    \<Rightarrow> (nat \<times> inode) list \<Rightarrow> (nat \<times> inode) list \<Rightarrow> ws_state \<Rightarrow> tool_answer \<times> ws_state" where
  "replaceFile cf w tool rel dir name content mode parents created st =
     (case checkpoint w st of (ended, st) \<Rightarrow>
        if ended then (write_error cf tool WriteFailed rel, st)
        else (case syscall w (\<lambda>fs. Inr (w_rand w (st_clock st))) st of
                (Inl e, st) \<Rightarrow> (write_error cf tool WriteFailed rel, st)
              | (Inr random, st) \<Rightarrow>
                 (let tmp = temp_name cf random in
                  case create_file w (snd dir) tmp st of
                    (Inl e, st) \<Rightarrow> (write_error cf tool WriteFailed rel, st)
                  | (Inr i, st) \<Rightarrow>
                     (case fill_temp cf w content mode i st of
                        (False, st) \<Rightarrow> (write_error cf tool WriteFailed rel, remove_name w (snd dir) tmp st)
                      | (True, st) \<Rightarrow>
                         (case commit_temp w (snd dir) tmp name i st of
                            (NotCommitted, st) \<Rightarrow> (write_error cf tool WriteFailed rel, remove_name w (snd dir) tmp st)
                          | (Unsure, st) \<Rightarrow> (write_error cf tool WriteUnknown rel, st)
                          | (Committed, st) \<Rightarrow>
                             (case settle_dirs cf w dir parents created st of
                                (False, st) \<Rightarrow> (write_error cf tool WriteUnknown rel, st)
                              | (True, st) \<Rightarrow> (Answer \<lparr>wr_Content = tool @ '': wrote '' @ rel, wr_IsError = False\<rparr>, st)))))))"

section \<open>The directory written to\<close>

text \<open>Looking a component up, and making it where that is allowed: whether it was made, and what it is.\<close>

definition find_or_make :: "world \<Rightarrow> inode \<Rightarrow> string \<Rightarrow> bool \<Rightarrow> ws_state \<Rightarrow> (sys_error + bool \<times> file_info) \<times> ws_state" where
  "find_or_make w dir name create st =
     (case lstat w dir name st of
        (Inr info, st) \<Rightarrow> (Inr (False, info), st)
      | (Inl e, st) \<Rightarrow>
         if e = ErrNotExist \<and> create then
           (case mkdir w dir name st of
              (Inl e, st) \<Rightarrow> (Inl e, st)
            | (Inr u, st) \<Rightarrow> (case lstat w dir name st of (Inl e, st) \<Rightarrow> (Inl e, st) | (Inr info, st) \<Rightarrow> (Inr (True, info), st)))
         else (Inl e, st))"

text \<open>
  \<open>writeParent\<close> below the root: the cursor with every ancestor, and the directories in which one was made. After a
  refusal the cursor is closed.
\<close>

fun parent_walk :: "ws_config \<Rightarrow> world \<Rightarrow> bool \<Rightarrow> string list \<Rightarrow> dir_node \<Rightarrow> cursor \<Rightarrow> (nat \<times> inode) list \<Rightarrow> ws_state
    \<Rightarrow> (ws_code + cursor \<times> (nat \<times> inode) list) \<times> ws_state" where
  "parent_walk cf w create [] n c parents st = (Inr (c, parents), st)"
| "parent_walk cf w create (name # names) n c parents st =
     (if name = ''.'' then parent_walk cf w create names n c parents st
      else case checkpoint w st of (ended, st) \<Rightarrow>
        if ended then (Inl WriteFailed, cursor_close c st)
        else if hiddenName name then (Inl FileReserved, cursor_close c st)
        else (let dir = last (cu_roots c); here = (length (cu_roots c) - 1, dir) in
          case find_or_make w dir name create st of
            (Inl e, st) \<Rightarrow> (Inl (rootFailure (Sys e)), cursor_close c st)
          | (Inr (made, info), st) \<Rightarrow>
             if fi_kind info = Symlink then (Inl PathThroughSymlink, cursor_close c st)
             else (case node_child n name info st of (child, st) \<Rightarrow>
               (case enter cf w (cu_policy c) dir child st of
                  (Inl e, st) \<Rightarrow> (Inl (rootFailure e), cursor_close c st)
                | (Inr r, st) \<Rightarrow>
                   parent_walk cf w create names child
                     (c\<lparr>cu_nodes := cu_nodes c @ [child], cu_roots := cu_roots c @ [r],
                        cu_created := (if made then cu_created c @ [(length (cu_roots c), r)] else cu_created c)\<rparr>)
                     (if made then parents @ [here] else parents) st))))"

definition writeParent :: "ws_config \<Rightarrow> world \<Rightarrow> string \<Rightarrow> bool \<Rightarrow> ws_state \<Rightarrow> (ws_code + cursor \<times> (nat \<times> inode) list) \<times> ws_state" where
  "writeParent cf w rel create st =
     (case rootNode cf w st of
        (Inl e, st) \<Rightarrow> (Inl WriteFailed, st)
      | (Inr n, st) \<Rightarrow> parent_walk cf w create (strings_Split (path_Dir rel) slash) n (newCursor cf n listPolicy) [] st)"

definition CheckDir :: "ws_config \<Rightarrow> world \<Rightarrow> string \<Rightarrow> ws_state \<Rightarrow> ws_code option \<times> ws_state" where
  "CheckDir cf w rel st =
     (case writeParent cf w (rel @ ''/placeholder'') False st of
        (Inl code, st) \<Rightarrow> (Some code, st)
      | (Inr (c, parents), st) \<Rightarrow> (None, cursor_close c st))"

section \<open>write\_file and edit\_file\<close>

text \<open>The decoded arguments; what was decoded of the path is there even when the rest was not.\<close>

record write_args =
  wa_Decoded :: bool
  wa_Path :: string
  wa_Content :: "string option"
  wa_Old :: "string option"
  wa_New :: "string option"
  wa_All :: bool

datatype write_tool = WriteTool | EditTool

fun tool_name :: "write_tool \<Rightarrow> string" where
  "tool_name WriteTool = ''write_file''"
| "tool_name EditTool = ''edit_file''"

abbreviation maxWriteBytes :: nat where "maxWriteBytes \<equiv> 1048576"

text \<open>The arguments of the tool, or the code refusing them: a whole content, or an edit of what is there.\<close>

datatype change = Whole string | Edit string string bool

definition write_change :: "write_tool \<Rightarrow> write_args \<Rightarrow> ws_code + change" where
  "write_change tool a =
     (if \<not> wa_Decoded a then Inl ArgumentsInvalid
      else case tool of
        WriteTool \<Rightarrow>
          (case wa_Content a of
             None \<Rightarrow> Inl ArgumentsInvalid
           | Some content \<Rightarrow> if length content > maxWriteBytes then Inl FileTooLarge
               else if \<not> wsfile_Text content then Inl FileNotText else Inr (Whole content))
      | EditTool \<Rightarrow>
          (case (wa_Old a, wa_New a) of
             (Some old, Some new) \<Rightarrow> if old = [] then Inl ArgumentsInvalid else Inr (Edit old new (wa_All a))
           | _ \<Rightarrow> Inl ArgumentsInvalid))"

text \<open>What is at the target: the mode to keep and, for an edit, its content.\<close>

definition edit_content :: "ws_config \<Rightarrow> world \<Rightarrow> inode \<Rightarrow> handle_facts \<Rightarrow> ws_state \<Rightarrow> (ws_code + string) \<times> ws_state" where
  "edit_content cf w f facts st =
     (if hf_Links facts \<noteq> 1 then (Inl FileLinked, st)
      else case syscall w (\<lambda>fs. Inr (take (maxReadFileBytes + 1) (fs_data fs f))) st of
        (Inl e, st) \<Rightarrow> (Inl FileUnreadable, st)
      | (Inr d, st) \<Rightarrow>
         if length d > maxReadFileBytes then (Inl FileTooLarge, st)
         else if \<not> wsfile_Text d then (Inl FileNotText, st)
         else (Inr d, st))"

definition check_opened :: "ws_config \<Rightarrow> world \<Rightarrow> write_tool \<Rightarrow> inode \<Rightarrow> file_info \<Rightarrow> ws_state \<Rightarrow> (ws_code + nat \<times> string) \<times> ws_state" where
  "check_opened cf w tool f info st =
     (case wsfile_Check cf w f st of (facts, st) \<Rightarrow>
        (case fstat w f st of (opened, st) \<Rightarrow>
           (case (facts, opened) of
              (Inr facts, Inr opened) \<Rightarrow>
                if fi_id info \<noteq> fi_id opened then (Inl WriteFailed, st)
                else if \<not> hf_Regular facts then (Inl FileNotRegular, st)
                else if \<not> hf_SameMount facts then (Inl FileOtherMount, st)
                else if and (fi_perm opened) 128 = 0 then (Inl FileReadOnly, st)
                else (case (if tool = EditTool then edit_content cf w f facts st else (Inr [], st)) of
                        (Inl code, st) \<Rightarrow> (Inl code, st)
                      | (Inr d, st) \<Rightarrow> (Inr (fi_perm opened mod 512, d), st))
            | _ \<Rightarrow> (Inl WriteFailed, st))))"

text \<open>The target is closed by the deferred call after a refusal, otherwise before it is replaced.\<close>

definition check_target :: "ws_config \<Rightarrow> world \<Rightarrow> write_tool \<Rightarrow> inode \<Rightarrow> file_info \<Rightarrow> ws_state \<Rightarrow> (ws_code + nat \<times> string) \<times> ws_state" where
  "check_target cf w tool f info st =
     (case check_opened cf w tool f info st of
        (Inl code, st) \<Rightarrow> (Inl code, release_handle st)
      | (Inr r, st) \<Rightarrow> (case close_file w st of (Inl e, st) \<Rightarrow> (Inl WriteFailed, st) | (Inr u, st) \<Rightarrow> (Inr r, st)))"

text \<open>\<open>None\<close> for a target that does not exist.\<close>

definition read_target :: "ws_config \<Rightarrow> world \<Rightarrow> write_tool \<Rightarrow> inode \<Rightarrow> string \<Rightarrow> ws_state \<Rightarrow> (ws_code + (nat \<times> string) option) \<times> ws_state" where
  "read_target cf w tool dir name st =
     (case lstat w dir name st of
        (Inl e, st) \<Rightarrow>
          (if e \<noteq> ErrNotExist then (Inl (rootFailure (Sys e)), st)
           else if tool = EditTool then (Inl FileNotFound, st) else (Inr None, st))
      | (Inr info, st) \<Rightarrow>
         if fi_kind info = Symlink then (Inl FileIsSymlink, st)
         else if fi_kind info \<noteq> Regular then (Inl FileNotRegular, st)
         else (case lstat w dir ''.git'' st of (git, st) \<Rightarrow>
           if (case git of Inr g \<Rightarrow> fi_id g = fi_id info | Inl e \<Rightarrow> False) then (Inl FileReserved, st)
           else (case open_name w dir name st of
                   (Inl e, st) \<Rightarrow> (Inl (rootFailure (Sys e)), st)
                 | (Inr f, st) \<Rightarrow>
                    (case check_target cf w tool f info (hold st) of
                       (Inl code, st) \<Rightarrow> (Inl code, st)
                     | (Inr r, st) \<Rightarrow> (Inr (Some r), st)))))"

fun new_content :: "change \<Rightarrow> string \<Rightarrow> ws_code + string" where
  "new_content (Whole content) old = Inr content"
| "new_content (Edit old new all) content = applyEdit content old new all"

definition checked_content :: "change \<Rightarrow> string \<Rightarrow> ws_code + string" where
  "checked_content ch old =
     (case new_content ch old of
        Inl code \<Rightarrow> Inl code
      | Inr content \<Rightarrow> if length content > maxWriteBytes then Inl FileTooLarge
          else if \<not> wsfile_Text content then Inl FileNotText else Inr content)"

definition write_in :: "ws_config \<Rightarrow> world \<Rightarrow> write_tool \<Rightarrow> string \<Rightarrow> string \<Rightarrow> change \<Rightarrow> cursor \<Rightarrow> (nat \<times> inode) list \<Rightarrow> ws_state
    \<Rightarrow> tool_answer \<times> ws_state" where
  "write_in cf w tool given rel ch c parents st =
     (let dir = (length (cu_roots c) - 1, last (cu_roots c)); name = path_Base rel in
      case read_target cf w tool (snd dir) name st of
        (Inl code, st) \<Rightarrow> (write_error cf (tool_name tool) code given, st)
      | (Inr existing, st) \<Rightarrow>
         (case checked_content ch (case existing of None \<Rightarrow> [] | Some (mode, d) \<Rightarrow> d) of
            Inl code \<Rightarrow> (write_error cf (tool_name tool) code given, st)
          | Inr content \<Rightarrow>
             replaceFile cf w (tool_name tool) rel dir name content
               (case existing of None \<Rightarrow> file_mode cf | Some (mode, d) \<Rightarrow> mode) parents (cu_created c) st))"

definition writeFile :: "ws_config \<Rightarrow> world \<Rightarrow> write_tool \<Rightarrow> write_args \<Rightarrow> ws_state \<Rightarrow> tool_answer \<times> ws_state" where
  "writeFile cf w tool a st =
     (if ToolAvailability (cf_goos cf) (tool_name tool) \<noteq> [] then (contentRefusal cf (tool_name tool), st)
      else case checkpoint w st of (ended, st) \<Rightarrow>
        if ended then (write_error cf (tool_name tool) WriteFailed [], st)
        else (case write_change tool a of
                Inl code \<Rightarrow> (write_error cf (tool_name tool) code (wa_Path a), st)
              | Inr ch \<Rightarrow>
                 (case resolveName (cf_goos cf) (wa_Path a) False of
                    Inl code \<Rightarrow> (write_error cf (tool_name tool) code (wa_Path a), st)
                  | Inr rel \<Rightarrow>
                     if list_ex hiddenName (strings_Split rel slash)
                     then (write_error cf (tool_name tool) FileReserved (wa_Path a), st)
                     else (case writeParent cf w rel (tool = WriteTool) st of
                             (Inl code, st) \<Rightarrow> (write_error cf (tool_name tool) code (wa_Path a), st)
                           | (Inr (c, parents), st) \<Rightarrow>
                              (case write_in cf w tool (wa_Path a) rel ch c parents st of
                                 (r, st) \<Rightarrow> (r, cursor_close c st))))))"

section \<open>The record of changes\<close>

text \<open>From \<open>st\<close> to \<open>st'\<close> only changes that satisfy \<open>P\<close> were made, at moments between the two.\<close>

definition grows :: "(effect \<Rightarrow> bool) \<Rightarrow> ws_state \<Rightarrow> ws_state \<Rightarrow> bool" where
  "grows P st st' \<longleftrightarrow> st_clock st \<le> st_clock st' \<and>
     (\<exists>new. st_log st' = new @ st_log st \<and> (\<forall>(t, e) \<in> set new. P e \<and> st_clock st \<le> t \<and> t < st_clock st'))"

lemma grows_refl: "st_log st' = st_log st \<Longrightarrow> st_clock st \<le> st_clock st' \<Longrightarrow> grows P st st'"
  by (auto simp: grows_def)

lemma grows_trans [trans]: "grows P a b \<Longrightarrow> grows P b c \<Longrightarrow> grows P a c"
  by (fastforce simp: grows_def)

lemma grows_after: "grows P a b \<Longrightarrow> st_log c = st_log b \<Longrightarrow> st_clock b \<le> st_clock c \<Longrightarrow> grows P a c"
  by (fastforce simp: grows_def)

lemma grows_before: "st_log b = st_log a \<Longrightarrow> st_clock a \<le> st_clock b \<Longrightarrow> grows P b c \<Longrightarrow> grows P a c"
  by (fastforce simp: grows_def)

lemma grows_mono: "grows P a b \<Longrightarrow> (\<And>e. P e \<Longrightarrow> Q e) \<Longrightarrow> grows Q a b"
  by (fastforce simp: grows_def)

lemma mutate_grows: "mutate w g e st = (r, st') \<Longrightarrow> P e \<Longrightarrow> grows P st st' \<and> st_handles st' = st_handles st"
  by (auto simp: mutate_def Let_def grows_def split: option.splits if_splits)

lemma write_string_grows: "write_string w i s st = (r, st') \<Longrightarrow> (\<And>u. P (Append i u)) \<Longrightarrow> grows P st st' \<and> st_handles st' = st_handles st"
  by (auto simp: write_string_def Let_def grows_def split: option.splits)

lemma remove_name_grows: "P (Remove d name) \<Longrightarrow> grows P st (remove_name w d name st) \<and> st_handles (remove_name w d name st) = st_handles st"
  by (cases "mutate w (\<lambda>fs. if fs_entry fs d name = None then Some ErrNotExist else None) (Remove d name) st")
    (auto simp: remove_name_def dest: mutate_grows)

lemma hold_simps [simp]:
  "st_handles (hold st) = st_handles st + 1" "st_log (hold st) = st_log st" "st_clock (hold st) = st_clock st" "st_fresh (hold st) = st_fresh st"
  "st_handles (release_handle st) = st_handles st - 1" "st_log (release_handle st) = st_log st" "st_clock (release_handle st) = st_clock st"
  "st_fresh (release_handle st) = st_fresh st"
  by (simp_all add: hold_def release_handle_def)

lemma close_dirs_simps [simp]:
  "st_handles (close_dirs rs st) = st_handles st - int (length rs)" "st_log (close_dirs rs st) = st_log st" "st_clock (close_dirs rs st) = st_clock st"
  by (induction rs arbitrary: st) auto

lemma grows_held [simp]:
  "grows P (hold a) b = grows P a b" "grows P (release_handle a) b = grows P a b" "grows P a (hold b) = grows P a b"
  "grows P a (release_handle b) = grows P a b" "grows P a (close_dirs rs b) = grows P a b"
  by (simp_all add: grows_def)

lemma close_file_state:
  "close_file w st = (r, st') \<Longrightarrow> st_handles st' = st_handles st - 1 \<and> st_fresh st' = st_fresh st \<and> st_log st' = st_log st \<and> st_clock st \<le> st_clock st'"
  by (auto simp: close_file_def dest: syscall_state split: prod.splits)

text \<open>The changes \<open>replaceFile\<close> makes: to the temporary file \<open>i\<close>, to its name and the target's in one directory, and to the directories given.\<close>

fun replacing :: "inode \<Rightarrow> string \<Rightarrow> string \<Rightarrow> inode set \<Rightarrow> inode set \<Rightarrow> effect \<Rightarrow> bool" where
  "replacing d tmp name files dirs (MkDir d' n i) = False"
| "replacing d tmp name files dirs (Create d' n i) \<longleftrightarrow> d' = d \<and> n = tmp \<and> i \<in> files"
| "replacing d tmp name files dirs (Append i s) \<longleftrightarrow> i \<in> files"
| "replacing d tmp name files dirs (SyncFile i) \<longleftrightarrow> i \<in> files"
| "replacing d tmp name files dirs (Chmod i m) \<longleftrightarrow> i \<in> files \<or> i \<in> dirs"
| "replacing d tmp name files dirs (Rename d' a b) \<longleftrightarrow> d' = d \<and> a = tmp \<and> b = name"
| "replacing d tmp name files dirs (Remove d' n) \<longleftrightarrow> d' = d \<and> n = tmp"
| "replacing d tmp name files dirs (SyncDir i) \<longleftrightarrow> i \<in> dirs"

lemma finish_temp_grows:
  assumes "finish_temp cf w mode i st = (r, st')" "\<And>m. P (Chmod i m)"
  shows "grows P st st' \<and> st_handles st' = st_handles st"
proof -
  obtain x st1 where m: "mutate w no_guard (Chmod i (workbenchFileMode cf mode)) st = (x, st1)" by fastforce
  have g: "grows P st st1 \<and> st_handles st1 = st_handles st"
    by (rule mutate_grows [OF m]) (rule assms(2))
  show ?thesis
    using assms(1) g
    by (auto simp: finish_temp_def m dest!: checkpoint_state fstat_state elim: grows_after
        split: prod.splits sum.splits if_splits)
qed

lemma write_temp_grows:
  assumes "write_temp cf w content mode i st = (r, st')" "\<And>u. P (Append i u)" "P (SyncFile i)" "\<And>m. P (Chmod i m)"
  shows "grows P st st' \<and> st_handles st' = st_handles st"
proof -
  obtain x st1 where ws: "write_string w i content st = (x, st1)" by fastforce
  obtain y st2 where sy: "mutate w no_guard (SyncFile i) st1 = (y, st2)" by fastforce
  obtain ended st3 where cp: "checkpoint w st2 = (ended, st3)" by fastforce
  have g1: "grows P st st1 \<and> st_handles st1 = st_handles st" by (rule write_string_grows [OF ws]) (rule assms(2))
  have g2: "grows P st1 st2 \<and> st_handles st2 = st_handles st1" by (rule mutate_grows [OF sy]) (rule assms(3))
  have g12: "grows P st st2" using g1 g2 grows_trans by blast
  then have g3: "grows P st st3" "st_handles st3 = st_handles st" using checkpoint_state [OF cp] g1 g2 by (auto elim: grows_after)
  show ?thesis
    using assms(1) g1 g2 g12 g3 finish_temp_grows [of cf w mode i st3 _ _ P] assms(4)
    by (auto simp: write_temp_def ws sy cp intro: grows_trans split: sum.splits if_splits)
qed

lemma fill_temp_grows:
  assumes "fill_temp cf w content mode i st = (r, st')" "\<And>u. P (Append i u)" "P (SyncFile i)" "\<And>m. P (Chmod i m)"
  shows "grows P st st' \<and> st_handles st' = st_handles st - 1"
proof -
  obtain ok st1 where wt: "write_temp cf w content mode i st = (ok, st1)" by fastforce
  have "grows P st st1 \<and> st_handles st1 = st_handles st"
    by (rule write_temp_grows [OF wt]) (rule assms)+
  then show ?thesis
    using assms(1) by (auto simp: fill_temp_def wt dest!: close_file_state elim: grows_after split: prod.splits sum.splits bool.splits)
qed

lemma commit_temp_grows:
  assumes "commit_temp w d tmp name i st = (r, st')" "P (Rename d tmp name)"
  shows "grows P st st' \<and> st_handles st' = st_handles st"
proof -
  obtain x st1 where rn: "rename w d tmp name st = (x, st1)" by fastforce
  have "grows P st st1 \<and> st_handles st1 = st_handles st"
    by (rule mutate_grows [OF rn [unfolded rename_def]]) (rule assms(2))
  then show ?thesis
    using assms(1) by (auto simp: commit_temp_def rn dest!: lstat_state elim: grows_after split: prod.splits sum.splits if_splits)
qed

lemma open_dirs_state:
  "open_dirs w opened rs st = ((ok, hs), st') \<Longrightarrow> st_log st' = st_log st \<and> st_clock st \<le> st_clock st'
     \<and> st_handles st' - int (length hs) = st_handles st - int (length opened) \<and> (ok \<longrightarrow> set hs = set opened \<union> set rs)"
proof (induction w opened rs st rule: open_dirs.induct)
  case (2 w opened r rs st)
  obtain x st1 where o: "open_self w (snd r) st = (x, st1)" by fastforce
  note os = open_self_state [OF o]
  show ?case
  proof (cases "r \<in> set opened")
    case True
    with 2(1) 2(3) show ?thesis by auto
  next
    case False
    with 2(2) [OF False o [symmetric]] 2(3) os o show ?thesis by (cases x) auto
  qed
qed auto

lemma chmod_dirs_grows:
  "chmod_dirs w mode rs st = (r, st') \<Longrightarrow> (\<And>x m. x \<in> set rs \<Longrightarrow> P (Chmod (snd x) m)) \<Longrightarrow> grows P st st' \<and> st_handles st' = st_handles st"
proof (induction rs arbitrary: st)
  case (Cons a rs)
  obtain x st1 where m: "mutate w no_guard (Chmod (snd a) mode) st = (x, st1)" by fastforce
  have "grows P st st1 \<and> st_handles st1 = st_handles st"
    by (rule mutate_grows [OF m]) (use Cons.prems(2) in auto)
  with Cons m show ?case by (auto intro: grows_trans split: sum.splits)
qed (auto intro: grows_refl)

lemma sync_dirs_grows:
  "sync_dirs cf w rs st = ((r, left), st') \<Longrightarrow> (\<And>x. x \<in> set rs \<Longrightarrow> P (SyncDir (snd x)))
     \<Longrightarrow> grows P st st' \<and> st_handles st' - int (length left) = st_handles st - int (length rs)"
proof (induction rs arbitrary: st)
  case (Cons a rs)
  obtain x st1 where m: "mutate w no_guard (SyncDir (snd a)) st = (x, st1)" by fastforce
  have "grows P st st1 \<and> st_handles st1 = st_handles st"
    by (rule mutate_grows [OF m]) (use Cons.prems(2) in auto)
  with Cons.prems m Cons.IH [of "release_handle st"] Cons.IH [of "release_handle st1"] show ?case
    by (auto intro: grows_trans split: sum.splits if_splits)
qed (auto intro: grows_refl)

lemma settle_dirs_grows:
  assumes "settle_dirs cf w dir parents created st = (r, st')"
    "\<And>x m. x \<in> set created \<Longrightarrow> P (Chmod (snd x) m)" "\<And>x. x \<in> set (dir # created @ parents) \<Longrightarrow> P (SyncDir (snd x))"
  shows "grows P st st' \<and> st_handles st' = st_handles st"
proof -
  obtain opened hs st1 where od: "open_dirs w [] (dir # rev created @ rev parents) st = ((opened, hs), st1)" by (metis surj_pair)
  note ods = open_dirs_state [OF od]
  obtain ok st2 where ch: "chmod_dirs w (workbenchFileMode cf (search_bits (file_mode cf))) (rev created) st1 = (ok, st2)" by fastforce
  obtain ok3 left st3 where sy: "sync_dirs cf w hs st2 = ((ok3, left), st3)" by (metis surj_pair)
  have g1: "grows P st st1" "st_handles st1 - int (length hs) = st_handles st" using ods by (auto intro: grows_refl)
  have g2: "grows P st1 st2 \<and> st_handles st2 = st_handles st1"
    by (rule chmod_dirs_grows [OF ch]) (use assms(2) in auto)
  have g3: "grows P st2 st3 \<and> st_handles st3 - int (length left) = st_handles st2 - int (length hs)" if opened
    by (rule sync_dirs_grows [OF sy]) (use assms(3) ods that in auto)
  show ?thesis
    using assms(1) g1 g2 g3 od ch sy by (cases opened; cases ok) (auto simp: settle_dirs_def intro: grows_trans)
qed

section \<open>Where changes are made\<close>

abbreviation reachable_dir :: "ws_config \<Rightarrow> world \<Rightarrow> inode \<Rightarrow> bool" where
  "reachable_dir cf w d \<equiv> \<exists>names. reached w hiddenName (cf_root cf) names d"

text \<open>A change inside the workspace: to entries of directories reached from the root, and to nodes the tool made itself.\<close>

fun change_inside :: "ws_config \<Rightarrow> world \<Rightarrow> effect \<Rightarrow> bool" where
  "change_inside cf w (MkDir d n i) \<longleftrightarrow> reachable_dir cf w d \<and> \<not> hiddenName n"
| "change_inside cf w (Create d n i) \<longleftrightarrow> reachable_dir cf w d \<and> Reserved n"
| "change_inside cf w (Append i s) \<longleftrightarrow> (\<exists>t. i = w_new w t)"
| "change_inside cf w (SyncFile i) \<longleftrightarrow> (\<exists>t. i = w_new w t)"
| "change_inside cf w (Chmod i m) \<longleftrightarrow> (\<exists>t. i = w_new w t) \<or> reachable_dir cf w i"
| "change_inside cf w (Rename d a b) \<longleftrightarrow> reachable_dir cf w d \<and> Reserved a \<and> \<not> hiddenName b"
| "change_inside cf w (Remove d n) \<longleftrightarrow> reachable_dir cf w d \<and> Reserved n"
| "change_inside cf w (SyncDir d) \<longleftrightarrow> reachable_dir cf w d"

lemma temp_reserved: "Reserved (temp_name cf random)"
proof -
  let ?n = "temp_name cf random"
  let ?m = "filter (\<lambda>c. c \<noteq> CHR ''-'') (cf_id cf) @ ''-'' @ random"
  have n: "?n = reservedPrefix @ ?m @ reservedSuffix" by (simp add: temp_name_def reservedPrefix_def reservedSuffix_def)
  have "rev ?n = CHR ''p'' # rev (reservedPrefix @ ?m @ ''.tm'')" by (simp add: n reservedSuffix_def)
  then have trim: "strings_TrimRight ?n '' .'' = ?n" unfolding strings_TrimRight_def by (simp only: dropWhile.simps) (simp add: rev_swap)
  have "take (length reservedPrefix) ?n = reservedPrefix" "drop (length ?n - length reservedSuffix) ?n = reservedSuffix"
    by (simp_all add: n)
  then show ?thesis by (simp add: Reserved_def trim Let_def strings_EqualFold_def) (simp add: n)
qed

lemma replacing_inside:
  assumes "replacing d (temp_name cf random) name {w_new w t} dirs e" "reachable_dir cf w d" "\<not> hiddenName name" "\<forall>x \<in> dirs. reachable_dir cf w x"
  shows "change_inside cf w e"
  using assms by (cases e) (auto simp: temp_reserved)

text \<open>
  What \<open>replaceFile\<close> does before and after its rename, all on one temporary name and file.
\<close>

lemma replaceFile_grows:
  assumes "replaceFile cf w tool rel dir name content mode parents created st = (a, st')" "snd ` set (dir # created @ parents) \<subseteq> dirs"
  shows "st_handles st' = st_handles st \<and> (\<exists>random t. grows (replacing (snd dir) (temp_name cf random) name {w_new w t} dirs) st st')"
proof -
  obtain ended st1 where cp: "checkpoint w st = (ended, st1)" by fastforce
  obtain rd st2 where rd: "syscall w (\<lambda>fs. Inr (w_rand w (st_clock st1))) st1 = (rd, st2)" by fastforce
  have s12: "st_log st2 = st_log st" "st_clock st \<le> st_clock st2" "st_handles st2 = st_handles st"
    "st_log st1 = st_log st" "st_clock st \<le> st_clock st1" "st_handles st1 = st_handles st"
    using checkpoint_state [OF cp] syscall_state [OF rd] by auto
  show ?thesis
  proof (cases "ended \<or> (\<exists>e. rd = Inl e)")
    case True
    with assms(1) have "st' = st1 \<or> st' = st2" by (auto simp: replaceFile_def cp rd split: if_splits)
    then have "grows P st st' \<and> st_handles st' = st_handles st" for P using s12 by (auto intro: grows_refl)
    then show ?thesis by blast
  next
    case False
    then obtain random where random: "\<not> ended" "rd = Inr random" by (cases rd) auto
    let ?tmp = "temp_name cf random" and ?i = "w_new w (st_clock st2)"
    let ?G = "grows (replacing (snd dir) ?tmp name {?i} dirs)"
    obtain x st3 where cr: "mutate w (\<lambda>fs. if fs_entry fs (snd dir) ?tmp = None then None else Some ErrOther) (Create (snd dir) ?tmp ?i) st2 = (x, st3)" by fastforce
    have g3: "?G st2 st3 \<and> st_handles st3 = st_handles st2" by (rule mutate_grows [OF cr]) simp
    obtain ok st4 where fi: "fill_temp cf w content mode ?i (hold st3) = (ok, st4)" by fastforce
    have g4: "?G st3 st4 \<and> st_handles st4 = st_handles st3" using fill_temp_grows [OF fi, of "replacing (snd dir) ?tmp name {?i} dirs"] by simp
    obtain cm st5 where co: "commit_temp w (snd dir) ?tmp name ?i st4 = (cm, st5)" by fastforce
    have g5: "?G st4 st5 \<and> st_handles st5 = st_handles st4" by (rule commit_temp_grows [OF co]) simp
    obtain ok6 st6 where se: "settle_dirs cf w dir parents created st5 = (ok6, st6)" by fastforce
    have g6: "?G st5 st6 \<and> st_handles st6 = st_handles st5" by (rule settle_dirs_grows [OF se]) (use assms(2) in auto)
    have rm: "?G s (remove_name w (snd dir) ?tmp s) \<and> st_handles (remove_name w (snd dir) ?tmp s) = st_handles s" for s
      by (rule remove_name_grows) simp
    have "st' \<in> {st3, remove_name w (snd dir) ?tmp st4, remove_name w (snd dir) ?tmp st5, st5, st6}"
      using assms(1) random by (auto simp: replaceFile_def cp rd create_file_def Let_def cr fi co se split: sum.splits if_splits bool.splits commit.splits)
    moreover have "?G st st3" "?G st st4" "?G st st5" "?G st st6"
      using g3 g4 g5 g6 grows_before [OF s12(1,2)] grows_trans by blast+
    ultimately have "?G st st' \<and> st_handles st' = st_handles st"
      using rm [of st4] rm [of st5] g3 g4 g5 g6 s12(3) by (auto intro: grows_trans)
    then show ?thesis by blast
  qed
qed

lemma find_or_make_grows:
  assumes "find_or_make w d name create st = (r, st')" "\<And>i. P (MkDir d name i)"
  shows "grows P st st' \<and> st_handles st' = st_handles st \<and> st_fresh st' = st_fresh st"
proof -
  obtain x st1 where l1: "lstat w d name st = (x, st1)" by fastforce
  note s1 = lstat_state [OF l1]
  obtain y st2 where m: "mkdir w d name st1 = (y, st2)" by fastforce
  have g2: "grows P st1 st2 \<and> st_handles st2 = st_handles st1" by (rule mutate_grows [OF m [unfolded mkdir_def]]) (rule assms(2))
  have f2: "st_fresh st2 = st_fresh st1" using m by (auto simp: mkdir_def mutate_def Let_def split: option.splits if_splits)
  obtain z st3 where l3: "lstat w d name st2 = (z, st3)" by fastforce
  note s3 = lstat_state [OF l3]
  have "st' \<in> {st1, st2, st3}"
    using assms(1) by (auto simp: find_or_make_def l1 m l3 split: sum.splits if_splits)
  moreover have "grows P st st1" "grows P st st2" using s1 g2 by (auto intro: grows_refl grows_before)
  moreover have "grows P st st3" using \<open>grows P st st2\<close> s3 by (auto elim: grows_after)
  ultimately show ?thesis using s1 g2 s3 f2 by auto
qed

definition handles_ok :: "ws_config \<Rightarrow> world \<Rightarrow> (nat \<times> inode) list \<Rightarrow> bool" where
  "handles_ok cf w hs \<longleftrightarrow> (\<forall>h \<in> set hs. reachable_dir cf w (snd h))"

lemma cursor_close_log [simp]: "st_log (cursor_close c st) = st_log st" "st_clock (cursor_close c st) = st_clock st"
  by (simp_all add: cursor_close_def truncate_cursor_def)

lemma cursor_ok_last: "cursor_ok cf w c \<Longrightarrow> cu_policy c = listPolicy \<Longrightarrow> reachable_dir cf w (last (cu_roots c))"
  by (auto simp: cursor_ok_def listPolicy_def)

lemma parent_walk_grows:
  assumes "parent_walk cf w create names n c parents st = (x, st')" "cursor_ok cf w c" "cu_policy c = listPolicy"
    "handles_ok cf w (cu_created c)" "handles_ok cf w parents"
  shows "grows (change_inside cf w) st st' \<and>
    (case x of
       Inl code \<Rightarrow> st_handles st' = st_handles st - (int (length (cu_roots c)) - 1)
     | Inr (c', parents') \<Rightarrow> cursor_ok cf w c' \<and> cu_policy c' = listPolicy \<and> handles_ok cf w (cu_created c') \<and> handles_ok cf w parents'
         \<and> st_handles st' - int (length (cu_roots c')) = st_handles st - int (length (cu_roots c)))"
  using assms
proof (induction names arbitrary: n c parents st)
  case (Cons name names)
  let ?Q = "\<lambda>st st' x. (case x of
       Inl code \<Rightarrow> st_handles st' = st_handles st - (int (length (cu_roots c)) - 1)
     | Inr (c', parents') \<Rightarrow> cursor_ok cf w c' \<and> cu_policy c' = listPolicy \<and> handles_ok cf w (cu_created c') \<and> handles_ok cf w parents'
         \<and> st_handles st' - int (length (cu_roots c')) = st_handles st - int (length (cu_roots c)))"
  let ?dir = "last (cu_roots c)"
  have dir: "reachable_dir cf w ?dir" by (rule cursor_ok_last [OF Cons.prems(2,3)])
  show ?case
  proof (cases "name = ''.''")
    case True
    with Cons show ?thesis by simp
  next
    case name: False
    obtain ended st1 where cp: "checkpoint w st = (ended, st1)" by fastforce
    note s1 = checkpoint_state [OF cp]
    have close: "grows (change_inside cf w) st (cursor_close c s) \<and> ?Q st (cursor_close c s) (Inl code)"
      if "grows (change_inside cf w) st s" "st_handles s = st_handles st" for s code
      using that cursor_close_handles [OF Cons.prems(2), of s] by (auto elim: grows_after)
    show ?thesis
    proof (cases "ended \<or> hiddenName name")
      case True
      then have "st' = cursor_close c st1 \<and> (\<exists>code. x = Inl code)"
        using Cons.prems(1) name cp by (auto split: if_splits)
      moreover have "grows (change_inside cf w) st st1" using s1 by (auto intro: grows_refl)
      ultimately show ?thesis using close s1 by auto
    next
      case False
      obtain y st2 where fm: "find_or_make w ?dir name create st1 = (y, st2)" by fastforce
      have g2: "grows (change_inside cf w) st1 st2 \<and> st_handles st2 = st_handles st1 \<and> st_fresh st2 = st_fresh st1"
        by (rule find_or_make_grows [OF fm]) (use dir False in auto)
      have g: "grows (change_inside cf w) st st2" "st_handles st2 = st_handles st" using g2 s1 by (auto intro: grows_before)
      show ?thesis
      proof (cases "(\<exists>e. y = Inl e) \<or> (\<exists>made info. y = Inr (made, info) \<and> fi_kind info = Symlink)")
        case True
        then have "st' = cursor_close c st2 \<and> (\<exists>code. x = Inl code)"
          using Cons.prems(1) name cp fm False by (auto simp: Let_def split: if_splits)
        then show ?thesis using close g by auto
      next
        case noerr: False
        then obtain made info where y: "y = Inr (made, info)" "fi_kind info \<noteq> Symlink" by (cases y) auto
        obtain child st3 where ch: "node_child n name info st2 = (child, st3)" by fastforce
        then have s3: "st_log st3 = st_log st2" "st_clock st3 = st_clock st2" "st_handles st3 = st_handles st2" by (auto simp: node_child_def)
        obtain z st4 where en: "enter cf w (cu_policy c) ?dir child st3 = (z, st4)" by fastforce
        note s4 = enter_sound(1) [OF en]
        have g4: "grows (change_inside cf w) st st4" using g(1) s3 s4 by (auto elim: grows_after)
        show ?thesis
        proof (cases z)
          case (Inl e)
          with Cons.prems(1) name cp fm False y ch en have "st' = cursor_close c st4 \<and> (\<exists>code. x = Inl code)"
            by (auto simp: Let_def)
          then show ?thesis using close g4 s4 s3 g(2) Inl by auto
        next
          case (Inr r)
          let ?c = "c\<lparr>cu_nodes := cu_nodes c @ [child], cu_roots := cu_roots c @ [r],
                        cu_created := (if made then cu_created c @ [(length (cu_roots c), r)] else cu_created c)\<rparr>"
          let ?p = "if made then parents @ [(length (cu_roots c) - 1, ?dir)] else parents"
          have r: "reachable_dir cf w r"
            using enter_sound(2) [OF en Inr] dir Cons.prems(3) by (auto simp: listPolicy_def)
          have inv: "cursor_ok cf w ?c" "cu_policy ?c = listPolicy" "handles_ok cf w (cu_created ?c)" "handles_ok cf w ?p"
            using Cons.prems(2-5) r dir by (auto simp: cursor_ok_def handles_ok_def listPolicy_def)
          have run: "parent_walk cf w create names child ?c ?p st4 = (x, st')"
            using Cons.prems(1) name cp fm False y ch en Inr by (cases made) (simp_all add: Let_def)
          have IH: "grows (change_inside cf w) st4 st' \<and>
            (case x of
               Inl code \<Rightarrow> st_handles st' = st_handles st4 - (int (length (cu_roots ?c)) - 1)
             | Inr (c', parents') \<Rightarrow> cursor_ok cf w c' \<and> cu_policy c' = listPolicy \<and> handles_ok cf w (cu_created c') \<and> handles_ok cf w parents'
                 \<and> st_handles st' - int (length (cu_roots c')) = st_handles st4 - int (length (cu_roots ?c)))"
            by (rule Cons.IH [OF run inv])
          have "st_handles st4 = st_handles st + 1" using s4 s3 g(2) Inr by simp
          with IH show ?thesis using grows_trans [OF g4] by (auto split: sum.splits)
        qed
      qed
    qed
  qed
qed (auto intro: grows_refl)

lemma writeParent_grows:
  assumes "writeParent cf w rel create st = (x, st')"
  shows "grows (change_inside cf w) st st' \<and>
    (case x of
       Inl code \<Rightarrow> st_handles st' = st_handles st
     | Inr (c, parents) \<Rightarrow> cursor_ok cf w c \<and> cu_policy c = listPolicy \<and> handles_ok cf w (cu_created c) \<and> handles_ok cf w parents
         \<and> st_handles st' = st_handles st + (int (length (cu_roots c)) - 1))"
proof -
  obtain rn st1 where rn: "rootNode cf w st = (rn, st1)" by fastforce
  have s1: "st_handles st1 = st_handles st" "st_log st1 = st_log st" "st_clock st \<le> st_clock st1"
    using rn by (auto simp: rootNode_def dest!: fstat_state split: prod.splits sum.splits)
  show ?thesis
  proof (cases rn)
    case (Inl e)
    with assms rn s1 show ?thesis by (auto simp: writeParent_def intro: grows_refl)
  next
    case (Inr n)
    let ?c = "newCursor cf n listPolicy"
    have c: "cu_policy ?c = listPolicy" "handles_ok cf w (cu_created ?c)" "handles_ok cf w []" "length (cu_roots ?c) = 1"
      by (auto simp: newCursor_def handles_ok_def)
    have run: "parent_walk cf w create (strings_Split (path_Dir rel) slash) n ?c [] st1 = (x, st')"
      using assms rn Inr by (simp add: writeParent_def)
    from parent_walk_grows [OF run newCursor_ok c(1-3)] c(4) s1 show ?thesis
      by (auto intro: grows_before split: sum.splits)
  qed
qed

lemma edit_content_state:
  "edit_content cf w f facts st = (r, st') \<Longrightarrow> st_handles st' = st_handles st \<and> st_fresh st' = st_fresh st \<and> st_log st' = st_log st \<and> st_clock st \<le> st_clock st'"
  by (auto simp: edit_content_def dest!: syscall_state split: prod.splits sum.splits if_splits)

lemma check_opened_state:
  assumes "check_opened cf w tool f info st = (r, st')"
  shows "st_handles st' = st_handles st \<and> st_fresh st' = st_fresh st \<and> st_log st' = st_log st \<and> st_clock st \<le> st_clock st'"
proof -
  obtain x st1 where c1: "wsfile_Check cf w f st = (x, st1)" by fastforce
  obtain y st2 where c2: "fstat w f st1 = (y, st2)" by fastforce
  have s2: "st_handles st2 = st_handles st \<and> st_fresh st2 = st_fresh st \<and> st_log st2 = st_log st \<and> st_clock st \<le> st_clock st2"
    using Check_state [OF c1] fstat_state [OF c2] by auto
  show ?thesis
    using assms s2
    by (auto simp: check_opened_def c1 c2 dest!: edit_content_state split: prod.splits sum.splits if_splits)
qed

lemma check_target_state:
  "check_target cf w tool f info st = (r, st') \<Longrightarrow> st_handles st' = st_handles st - 1 \<and> st_fresh st' = st_fresh st \<and> st_log st' = st_log st \<and> st_clock st \<le> st_clock st'"
  by (auto simp: check_target_def dest!: check_opened_state close_file_state split: prod.splits sum.splits)

lemma read_target_state:
  "read_target cf w tool d name st = (r, st') \<Longrightarrow> st_handles st' = st_handles st \<and> st_fresh st' = st_fresh st \<and> st_log st' = st_log st \<and> st_clock st \<le> st_clock st'"
  by (auto simp: read_target_def dest!: lstat_state open_name_state check_target_state split: prod.splits sum.splits if_splits)

lemma write_in_grows:
  assumes "write_in cf w tool given rel ch c parents st = (a, st')" "cursor_ok cf w c" "cu_policy c = listPolicy"
    "handles_ok cf w (cu_created c)" "handles_ok cf w parents" "\<not> hiddenName (path_Base rel)"
  shows "grows (change_inside cf w) st st' \<and> st_handles st' = st_handles st"
proof -
  let ?dir = "(length (cu_roots c) - 1, last (cu_roots c))" and ?name = "path_Base rel"
  obtain x st1 where rt: "read_target cf w tool (snd ?dir) ?name st = (x, st1)" by fastforce
  note s1 = read_target_state [OF rt]
  have dir: "reachable_dir cf w (snd ?dir)" using cursor_ok_last [OF assms(2,3)] by simp
  consider "st' = st1" | tool' content mode where "replaceFile cf w tool' rel ?dir ?name content mode parents (cu_created c) st1 = (a, st')"
    using assms(1) rt by (auto simp: write_in_def Let_def split: sum.splits)
  then show ?thesis
  proof cases
    case 1
    with s1 show ?thesis by (auto intro: grows_refl)
  next
    case 2
    let ?dirs = "snd ` set (?dir # cu_created c @ parents)"
    from replaceFile_grows [OF 2 subset_refl] obtain random t where
      g: "grows (replacing (snd ?dir) (temp_name cf random) ?name {w_new w t} ?dirs) st1 st'" "st_handles st' = st_handles st1" by blast
    have "\<forall>d \<in> ?dirs. reachable_dir cf w d" using dir assms(4,5) by (auto simp: handles_ok_def)
    then have "grows (change_inside cf w) st1 st'"
      by (intro grows_mono [OF g(1)]) (rule replacing_inside [OF _ dir assms(6)])
    with g(2) s1 show ?thesis by (auto intro: grows_before)
  qed
qed

section \<open>Properties\<close>

lemma write_inside:
  assumes "writeFile cf w tool a st = (r, st')"
  shows "st_handles st' = st_handles st \<and> (\<exists>new. st_log st' = new @ st_log st \<and> list_all (\<lambda>(t, e). change_inside cf w e) new)"
proof -
  obtain ended st1 where cp: "checkpoint w st = (ended, st1)" by fastforce
  note s1 = checkpoint_state [OF cp]
  consider (early) "st' = st \<or> st' = st1"
    | (walk) create rel where "resolveName (cf_goos cf) (wa_Path a) False = Inr rel" "\<not> list_ex hiddenName (strings_Split rel slash)"
        "(case writeParent cf w rel create st1 of
            (Inl code, s) \<Rightarrow> st' = s
          | (Inr (c, parents), s) \<Rightarrow> \<exists>ch r s'. write_in cf w tool (wa_Path a) rel ch c parents s = (r, s') \<and> st' = cursor_close c s')"
  proof (cases "ToolAvailability (cf_goos cf) (tool_name tool) \<noteq> [] \<or> ended")
    case True
    with assms early show thesis by (auto simp: writeFile_def cp split: if_splits)
  next
    case go: False
    show thesis
    proof (cases "write_change tool a")
      case (Inl code)
      with assms go early show thesis by (auto simp: writeFile_def cp)
    next
      case ch: (Inr ch)
      show thesis
      proof (cases "resolveName (cf_goos cf) (wa_Path a) False")
        case (Inl code)
        with assms go ch early show thesis by (auto simp: writeFile_def cp)
      next
        case rel: (Inr rel)
        show thesis
        proof (cases "list_ex hiddenName (strings_Split rel slash)")
          case True
          with assms go ch rel early show thesis by (auto simp: writeFile_def cp)
        next
          case False
          obtain x s where wp: "writeParent cf w rel (tool = WriteTool) st1 = (x, s)" by fastforce
          show thesis
          proof (rule walk [OF rel False, where create = "tool = WriteTool"])
            show "case writeParent cf w rel (tool = WriteTool) st1 of
                (Inl code, s) \<Rightarrow> st' = s
              | (Inr (c, parents), s) \<Rightarrow> \<exists>ch r s'. write_in cf w tool (wa_Path a) rel ch c parents s = (r, s') \<and> st' = cursor_close c s'"
              using assms go ch rel False wp by (auto simp: writeFile_def cp split: sum.splits prod.splits)
          qed
        qed
      qed
    qed
  qed
  then have "grows (change_inside cf w) st st' \<and> st_handles st' = st_handles st"
  proof cases
    case early
    with s1 show ?thesis by (auto intro: grows_refl)
  next
    case walk
    have "rel \<noteq> ''.''" by (rule resolveName_names [OF walk(1)])
    then have base: "\<not> hiddenName (path_Base rel)"
      using base_of_descending(2) [OF resolveName_descends(1) [OF walk(1)]] walk(2) by (auto simp: list_ex_iff)
    obtain x s where wp: "writeParent cf w rel create st1 = (x, s)" by fastforce
    note wps = writeParent_grows [OF wp]
    have g1: "grows (change_inside cf w) st s" using wps s1 by (auto intro: grows_before)
    show ?thesis
    proof (cases x)
      case (Inl code)
      with walk(3) wp wps s1 g1 show ?thesis by auto
    next
      case (Inr y)
      obtain c parents where y: "y = (c, parents)" by (cases y)
      from wps Inr y have c: "cursor_ok cf w c" "cu_policy c = listPolicy" "handles_ok cf w (cu_created c)" "handles_ok cf w parents"
        "st_handles s = st_handles st1 + (int (length (cu_roots c)) - 1)" by auto
      from walk(3) wp Inr y obtain ch r s' where wi: "write_in cf w tool (wa_Path a) rel ch c parents s = (r, s')" "st' = cursor_close c s'" by auto
      from write_in_grows [OF wi(1) c(1-4) base] have "grows (change_inside cf w) s s'" "st_handles s' = st_handles s" by auto
      then show ?thesis
        using g1 wi(2) c(5) s1 cursor_close_handles [OF c(1), of s'] by (auto intro: grows_after grows_trans)
    qed
  qed
  then show ?thesis by (fastforce simp: grows_def list_all_iff)
qed

text \<open>C16.
  Whatever others do to the file system between any two system calls, every change write_file and edit_file make is
  inside the workspace: directories are made, and temporary files created, renamed and removed, only in directories reached
  from the root through directories that are not hidden, that were each entered from the one before and are on the
  workspace's mount; the only name renamed to is one that is not hidden; and only nodes the tool made or such directories
  are written, given a mode or synced. Every handle it opened, on directories, the target and the temporary file, is closed
  again, however it ends.
\<close>

theorem write_confined:
  "st_handles (snd (writeFile cf w tool a st)) = st_handles st
   \<and> (\<exists>new. st_log (snd (writeFile cf w tool a st)) = new @ st_log st \<and> list_all (\<lambda>(t, e). change_inside cf w e) new)"
  by (rule write_inside [OF prod.collapse [symmetric]])

end
