(* ===== verification/Ws_Atomic.thy ===== *)
theory Ws_Atomic
  imports Ws_Write
begin

text \<open>
  What \<open>replaceFile\<close> does to the file it replaces, in a file system only it changes: whatever call fails, and however a call
  that fails may have taken effect, the file is at every moment the old one or the complete new one, and the answer
  says which where it claims to know.
\<close>

section \<open>The effect of a change\<close>

fun apply_effect :: "effect \<Rightarrow> fsys \<Rightarrow> fsys" where
  "apply_effect (MkDir d n i) fs = fs\<lparr>fs_entry := (fs_entry fs)(d := (fs_entry fs d)(n \<mapsto> i)), fs_kind := (fs_kind fs)(i := Directory)\<rparr>"
| "apply_effect (Create d n i) fs = fs\<lparr>fs_entry := (fs_entry fs)(d := (fs_entry fs d)(n \<mapsto> i)), fs_kind := (fs_kind fs)(i := Regular),
     fs_data := (fs_data fs)(i := []), fs_links := (fs_links fs)(i := 1), fs_perm := (fs_perm fs)(i := 384)\<rparr>"
| "apply_effect (Append i s) fs = fs\<lparr>fs_data := (fs_data fs)(i := fs_data fs i @ s)\<rparr>"
| "apply_effect (SyncFile i) fs = fs"
| "apply_effect (Chmod i m) fs = fs\<lparr>fs_perm := (fs_perm fs)(i := m)\<rparr>"
| "apply_effect (Rename d a b) fs = fs\<lparr>fs_entry := (fs_entry fs)(d := ((fs_entry fs d)(b := fs_entry fs d a))(a := None))\<rparr>"
| "apply_effect (Remove d n) fs = fs\<lparr>fs_entry := (fs_entry fs)(d := (fs_entry fs d)(n := None))\<rparr>"
| "apply_effect (SyncDir d) fs = fs"

text \<open>From moment \<open>t0\<close> on the file system changes exactly by what is on record.\<close>

definition tracks :: "world \<Rightarrow> nat \<Rightarrow> ws_state \<Rightarrow> bool" where
  "tracks w t0 st \<longleftrightarrow> (\<forall>t. t0 \<le> t \<and> t < st_clock st \<longrightarrow>
     w_fs w (Suc t) = (case map_of (st_log st) t of None \<Rightarrow> w_fs w t | Some e \<Rightarrow> apply_effect e (w_fs w t)))"

definition recorded :: "ws_state \<Rightarrow> bool" where
  "recorded st \<longleftrightarrow> (\<forall>(t, e) \<in> set (st_log st). t < st_clock st)"

lemma tracks_held [simp]:
  "tracks w t0 (hold st) = tracks w t0 st" "tracks w t0 (release_handle st) = tracks w t0 st"
  "recorded (hold st) = recorded st" "recorded (release_handle st) = recorded st"
  by (simp_all add: tracks_def recorded_def)

lemma recorded_grows: "grows P st st' \<Longrightarrow> recorded st \<Longrightarrow> recorded st'"
  by (fastforce simp: grows_def recorded_def)

lemma recorded_none: "recorded st \<Longrightarrow> st_clock st \<le> t \<Longrightarrow> map_of (st_log st) t = None"
  by (fastforce simp: recorded_def map_of_eq_None_iff)

lemma grows_map_of:
  "grows P st st' \<Longrightarrow> t < st_clock st \<Longrightarrow> map_of (st_log st') t = map_of (st_log st) t"
  by (fastforce simp: grows_def map_add_def map_of_eq_None_iff split: option.splits dest!: map_of_SomeD)

lemma tracks_back: "tracks w t0 st' \<Longrightarrow> grows P st st' \<Longrightarrow> tracks w t0 st"
  unfolding tracks_def using grows_map_of by (metis grows_def order_less_le_trans)

lemma tracks_at:
  assumes "tracks w t0 st'" "t0 \<le> t" "t < st_clock st'"
  shows "w_fs w (Suc t) = (case map_of (st_log st') t of None \<Rightarrow> w_fs w t | Some e \<Rightarrow> apply_effect e (w_fs w t))"
  using assms by (simp add: tracks_def)

text \<open>An invariant of the file system that every recorded change keeps holds at every moment.\<close>

lemma tracked_invariant:
  assumes "grows P st st'" "tracks w t0 st'" "t0 \<le> st_clock st" "recorded st" "I (w_fs w (st_clock st))"
    "\<And>e fs. P e \<Longrightarrow> I fs \<Longrightarrow> I (apply_effect e fs)"
  shows "st_clock st \<le> t \<Longrightarrow> t \<le> st_clock st' \<Longrightarrow> I (w_fs w t)"
proof (induction t rule: dec_induct)
  case (step t)
  then have IH: "I (w_fs w t)" by simp
  have "w_fs w (Suc t) = (case map_of (st_log st') t of None \<Rightarrow> w_fs w t | Some e \<Rightarrow> apply_effect e (w_fs w t))"
    by (rule tracks_at [OF assms(2)]) (use assms(3) step in auto)
  moreover have "P e" if e: "map_of (st_log st') t = Some e" for e
  proof -
    from assms(1) obtain new where new: "st_log st' = new @ st_log st" "\<forall>(t, e) \<in> set new. P e" by (auto simp: grows_def)
    have "map_of (st_log st) t = None" using recorded_none [OF assms(4)] step(1) by simp
    with e new(1) have "map_of new t = Some e" by (simp add: map_add_Some_iff)
    with new(2) show ?thesis by (auto dest: map_of_SomeD)
  qed
  ultimately show ?case using IH assms(6) by (auto split: option.splits)
qed (rule assms(5))

lemma tracked_same:
  assumes "st_log st' = st_log st" "st_clock st \<le> st_clock st'" "tracks w t0 st'" "t0 \<le> st_clock st" "recorded st"
  shows "w_fs w (st_clock st') = w_fs w (st_clock st)"
  using tracked_invariant [where P = "\<lambda>_. False" and I = "\<lambda>fs. fs = w_fs w (st_clock st)", OF _ assms(3,4,5)] assms(1,2)
  by (auto intro: grows_refl)

lemma mutate_fs:
  assumes "mutate w g e st = (r, st')" "tracks w t0 st'" "t0 \<le> st_clock st" "recorded st"
  shows "w_fs w (st_clock st') = apply_effect e (w_fs w (st_clock st)) \<and> (st_clock st, e) \<in> set (st_log st') \<and> g (w_fs w (st_clock st)) = None
     \<or> w_fs w (st_clock st') = w_fs w (st_clock st) \<and> r \<noteq> Inr ()"
    "st_clock st' = Suc (st_clock st)"
  using assms tracks_at [OF assms(2,3)] recorded_none [OF assms(4)]
  by (auto simp: mutate_def Let_def split: option.splits if_splits)

section \<open>The temporary file\<close>

lemma write_string_fs:
  assumes "write_string w i s st = (Inr u, st')" "tracks w t0 st'" "t0 \<le> st_clock st"
  shows "w_fs w (st_clock st') = apply_effect (Append i s) (w_fs w (st_clock st))" "st_clock st' = Suc (st_clock st)"
  using assms tracks_at [OF assms(2,3)] by (auto simp: write_string_def Let_def split: option.splits)

text \<open>A temporary file that was filled holds the content, has its mode and was synced before.\<close>

lemma fill_temp_fs:
  assumes "fill_temp cf w content mode i st = (True, st')" "tracks w t0 st'" "t0 \<le> st_clock st" "recorded st"
    "fs_data (w_fs w (st_clock st)) i = []"
  shows "fs_data (w_fs w (st_clock st')) i = content \<and> fs_entry (w_fs w (st_clock st')) = fs_entry (w_fs w (st_clock st))
    \<and> fs_perm (w_fs w (st_clock st')) i = workbenchFileMode cf mode \<and> (\<exists>t. t < st_clock st' \<and> (t, SyncFile i) \<in> set (st_log st'))"
proof -
  let ?T = "\<lambda>e. True"
  obtain st1 st2 st3 st4 st5 st6 ended e2 u1 u2 u3 u4 info where steps:
    "write_string w i content st = (Inr u1, st1)" "mutate w no_guard (SyncFile i) st1 = (Inr u2, st2)"
    "checkpoint w st2 = (ended, st3)" "mutate w no_guard (Chmod i (workbenchFileMode cf mode)) st3 = (Inr u3, st4)"
    "checkpoint w st4 = (e2, st5)" "fstat w i st5 = (Inr info, st6)" "close_file w st6 = (Inr u4, st')"
    using assms(1) by (auto simp: fill_temp_def write_temp_def finish_temp_def split: prod.splits sum.splits if_splits bool.splits)
  have g: "grows ?T st st1" "grows ?T st1 st2" "grows ?T st2 st3" "grows ?T st3 st4" "grows ?T st4 st'"
    using write_string_grows [OF steps(1), of ?T] mutate_grows [OF steps(2), of ?T] checkpoint_state [OF steps(3)]
      mutate_grows [OF steps(4), of ?T] checkpoint_state [OF steps(5)] fstat_state [OF steps(6)] close_file_state [OF steps(7)]
    by (auto intro: grows_refl)
  note tr4 = tracks_back [OF assms(2) g(5)]
  note tr3 = tracks_back [OF tr4 g(4)]
  note tr2 = tracks_back [OF tr3 g(3)]
  note tr1 = tracks_back [OF tr2 g(2)]
  have rec: "recorded st1" "recorded st2" "recorded st3" "recorded st4" using assms(4) g recorded_grows by blast+
  have clk: "t0 \<le> st_clock st1" "t0 \<le> st_clock st2" "t0 \<le> st_clock st3" "t0 \<le> st_clock st4"
    using assms(3) g by (auto simp: grows_def)
  have f1: "w_fs w (st_clock st1) = apply_effect (Append i content) (w_fs w (st_clock st))"
    by (rule write_string_fs(1) [OF steps(1) tr1 assms(3)])
  have f2: "w_fs w (st_clock st2) = w_fs w (st_clock st1)" "(st_clock st1, SyncFile i) \<in> set (st_log st2)" "st_clock st2 = Suc (st_clock st1)"
    using mutate_fs [OF steps(2) tr2 clk(1) rec(1)] by auto
  have f3: "w_fs w (st_clock st3) = w_fs w (st_clock st2)"
    by (rule tracked_same [OF _ _ tr3 clk(2) rec(2)]) (use checkpoint_state [OF steps(3)] in auto)
  have f4: "w_fs w (st_clock st4) = apply_effect (Chmod i (workbenchFileMode cf mode)) (w_fs w (st_clock st3))"
    using mutate_fs(1) [OF steps(4) tr4 clk(3) rec(3)] by auto
  have f5: "w_fs w (st_clock st') = w_fs w (st_clock st4)"
    by (rule tracked_same [OF _ _ assms(2) clk(4) rec(4)])
      (use checkpoint_state [OF steps(5)] fstat_state [OF steps(6)] close_file_state [OF steps(7)] in auto)
  have "st_clock st1 < st_clock st'" "set (st_log st2) \<subseteq> set (st_log st')"
    using f2(3) g(3-5) by (auto simp: grows_def)
  then show ?thesis using f1 f2 f3 f4 f5 assms(5) by auto
qed

lemma lstat_tracked:
  assumes "lstat w d n st = (r, st')" "tracks w t0 st'" "t0 \<le> st_clock st" "recorded st"
  shows "w_fs w (st_clock st') = w_fs w (st_clock st)" "recorded st'" "st_log st' = st_log st" "t0 \<le> st_clock st'"
    "r = Inr info \<Longrightarrow> fs_entry (w_fs w (st_clock st)) d n = Some (fi_id info)"
proof -
  note s = lstat_state [OF assms(1)]
  then show "st_log st' = st_log st" "t0 \<le> st_clock st'" using assms(3) by auto
  show "w_fs w (st_clock st') = w_fs w (st_clock st)" by (rule tracked_same [OF _ _ assms(2-4)]) (use s in auto)
  show "recorded st'" using assms(4) s by (fastforce simp: recorded_def)
  show "r = Inr info \<Longrightarrow> fs_entry (w_fs w (st_clock st)) d n = Some (fi_id info)" using lstat_Inr assms(1) by blast
qed

text \<open>What is concluded about the rename is true.\<close>

lemma commit_temp_fs:
  assumes "commit_temp w d tmp name i st = (r, st')" "tracks w t0 st'" "t0 \<le> st_clock st" "recorded st" "tmp \<noteq> name"
    "fs_entry (w_fs w (st_clock st)) d tmp = Some i" "fs_entry (w_fs w (st_clock st)) d name \<noteq> Some i"
  shows "w_fs w (st_clock st') = apply_effect (Rename d tmp name) (w_fs w (st_clock st)) \<and> r \<noteq> NotCommitted
        \<and> (st_clock st, Rename d tmp name) \<in> set (st_log st') \<and> st_clock st < st_clock st'
      \<or> w_fs w (st_clock st') = w_fs w (st_clock st) \<and> r \<noteq> Committed"
    "st_clock st \<le> t \<Longrightarrow> t \<le> st_clock st' \<Longrightarrow> w_fs w t = w_fs w (st_clock st) \<or> w_fs w t = w_fs w (st_clock st')"
proof -
  obtain x st1 where rn: "rename w d tmp name st = (x, st1)" by fastforce
  obtain y st2 where l1: "lstat w d name st1 = (y, st2)" by fastforce
  obtain z st3 where l2: "lstat w d tmp st2 = (z, st3)" by fastforce
  let ?fs = "w_fs w (st_clock st)"
  let ?fs' = "apply_effect (Rename d tmp name) ?fs"
  have g1: "grows (\<lambda>_. True) st st1" using mutate_grows [OF rn [unfolded rename_def], of "\<lambda>_. True"] by simp
  have log: "st_log st2 = st_log st1" "st_clock st1 \<le> st_clock st2" "st_log st3 = st_log st2" "st_clock st2 \<le> st_clock st3"
    using lstat_state [OF l1] lstat_state [OF l2] by auto
  then have g: "grows (\<lambda>_. True) st1 st2" "grows (\<lambda>_. True) st2 st3" by (auto intro: grows_refl)
  have st': "st' = st1 \<or> st' = st2 \<or> st' = st3"
    using assms(1) by (auto simp: commit_temp_def rn l1 l2 split: sum.splits if_splits)
  have "grows (\<lambda>_. True) st1 st'" using st' g grows_trans by (auto intro: grows_refl)
  note tr1 = tracks_back [OF assms(2) this]
  have rec1: "recorded st1" using recorded_grows [OF g1 assms(4)] .
  have clk1: "t0 \<le> st_clock st1" using assms(3) g1 by (auto simp: grows_def)
  note m = mutate_fs [OF rn [unfolded rename_def] tr1 assms(3,4)]
  have same: "w_fs w (st_clock st') = w_fs w (st_clock st1)"
    by (rule tracked_same [OF _ _ assms(2) clk1 rec1]) (use st' log in auto)
  have logs: "st_log st' = st_log st1" "st_clock st < st_clock st'" using st' log m(2) by auto
  have "grows (\<lambda>_. False) st1 st'" by (rule grows_refl) (use st' log in auto)
  note later = tracked_invariant [where I = "\<lambda>fs. fs = w_fs w (st_clock st1)", OF this assms(2) clk1 rec1 refl]
  show "w_fs w t = w_fs w (st_clock st) \<or> w_fs w t = w_fs w (st_clock st')" if "st_clock st \<le> t" "t \<le> st_clock st'"
  proof (cases "t = st_clock st")
    case False
    then have after: "st_clock st1 \<le> t" using m(2) that by simp
    show ?thesis using later [OF _ after that(2)] same by auto
  qed simp
  let ?thesis' = "w_fs w (st_clock st') = ?fs' \<and> r \<noteq> NotCommitted
        \<and> (st_clock st, Rename d tmp name) \<in> set (st_log st') \<and> st_clock st < st_clock st'
      \<or> w_fs w (st_clock st') = ?fs \<and> r \<noteq> Committed"
  consider (fine) "x = Inr ()" | (failed) e where "x = Inl e" by (cases x) auto
  then show ?thesis'
  proof cases
    case fine
    then have "r = Committed" using assms(1) by (auto simp: commit_temp_def rn)
    then show ?thesis' using m(1) fine same logs by auto
  next
    case failed
    show ?thesis'
    proof (cases "\<exists>info. y = Inr info \<and> fi_id info = i")
      case True
      then have r: "r = Committed" "st' = st2" using assms(1) failed by (auto simp: commit_temp_def rn l1)
      then have "tracks w t0 st2" using assms(2) by simp
      from lstat_tracked(5) [OF l1 this clk1 rec1] True have "fs_entry (w_fs w (st_clock st1)) d name = Some i" by auto
      then have "w_fs w (st_clock st1) \<noteq> ?fs" using assms(7) by auto
      then show ?thesis' using m(1) r same logs by auto
    next
      case no: False
      then have run: "st' = st3" "r = (if \<exists>info. z = Inr info \<and> fi_id info = i then NotCommitted else Unsure)"
        using assms(1) failed by (auto simp: commit_temp_def rn l1 l2 split: sum.splits if_splits)
      then have tr3: "tracks w t0 st3" using assms(2) by simp
      note tr2 = tracks_back [OF tr3 g(2)]
      note t2 = lstat_tracked [OF l1 tr2 clk1 rec1]
      show ?thesis'
      proof (cases "\<exists>info. z = Inr info \<and> fi_id info = i")
        case True
        then have "fs_entry (w_fs w (st_clock st2)) d tmp = Some i" using lstat_tracked(5) [OF l2 tr3 t2(4,2)] by auto
        then have "w_fs w (st_clock st1) \<noteq> ?fs'" using t2(1) by auto
        then show ?thesis' using m(1) run(2) True same by auto
      next
        case False
        then show ?thesis' using m(1) run(2) same logs by auto
      qed
    qed
  qed
qed

section \<open>The file that is replaced\<close>

text \<open>Changes before the rename, and after it.\<close>

fun preparing :: "inode \<Rightarrow> string \<Rightarrow> inode \<Rightarrow> effect \<Rightarrow> bool" where
  "preparing d tmp i (Create d' n j) \<longleftrightarrow> d' = d \<and> n = tmp \<and> j = i"
| "preparing d tmp i (Append j s) \<longleftrightarrow> j = i"
| "preparing d tmp i (SyncFile j) \<longleftrightarrow> True"
| "preparing d tmp i (Chmod j m) \<longleftrightarrow> True"
| "preparing d tmp i (Remove d' n) \<longleftrightarrow> d' = d \<and> n = tmp"
| "preparing d tmp i _ \<longleftrightarrow> False"

fun settling :: "effect \<Rightarrow> bool" where
  "settling (Chmod j m) = True"
| "settling (SyncDir d) = True"
| "settling _ = False"

definition old_file :: "fsys \<Rightarrow> inode \<Rightarrow> string \<Rightarrow> fsys \<Rightarrow> bool" where
  "old_file fs0 d name fs \<longleftrightarrow> fs_entry fs d name = fs_entry fs0 d name
     \<and> (case fs_entry fs0 d name of None \<Rightarrow> True | Some j \<Rightarrow> fs_data fs j = fs_data fs0 j)"

definition new_file :: "inode \<Rightarrow> string \<Rightarrow> string \<Rightarrow> fsys \<Rightarrow> bool" where
  "new_file d name content fs \<longleftrightarrow> (\<exists>i. fs_entry fs d name = Some i \<and> fs_data fs i = content)"

lemma preparing_keeps:
  "preparing d tmp i e \<Longrightarrow> tmp \<noteq> name \<Longrightarrow> fs_entry fs0 d name \<noteq> Some i \<Longrightarrow> old_file fs0 d name fs \<Longrightarrow> old_file fs0 d name (apply_effect e fs)"
  by (cases e) (auto simp: old_file_def split: option.splits)

lemma settling_keeps:
  "settling e \<Longrightarrow> fs_entry fs d name = Some i \<and> fs_data fs i = content
     \<Longrightarrow> fs_entry (apply_effect e fs) d name = Some i \<and> fs_data (apply_effect e fs) i = content"
  by (cases e) auto

lemma sync_dirs_log:
  "sync_dirs cf w rs st = ((True, left), st') \<Longrightarrow> cf_goos cf \<noteq> ''windows'' \<Longrightarrow> x \<in> set rs
     \<Longrightarrow> \<exists>t. st_clock st \<le> t \<and> (t, SyncDir (snd x)) \<in> set (st_log st')"
proof (induction rs arbitrary: st)
  case (Cons a rs)
  obtain y st1 where m: "mutate w no_guard (SyncDir (snd a)) st = (y, st1)" by fastforce
  with Cons.prems(1,2) have y: "y = Inr ()" "sync_dirs cf w rs (release_handle st1) = ((True, left), st')" by (auto split: sum.splits)
  have "(st_clock st, SyncDir (snd a)) \<in> set (st_log st1)" "st_clock st \<le> st_clock st1"
    using m y(1) by (auto simp: mutate_def Let_def no_guard_def split: option.splits)
  moreover have "set (st_log st1) \<subseteq> set (st_log st')"
    using sync_dirs_grows [OF y(2), of "\<lambda>_. True"] by (auto simp: grows_def)
  moreover have "\<exists>t. st_clock st1 \<le> t \<and> (t, SyncDir (snd x)) \<in> set (st_log st')" if "x \<in> set rs"
    using Cons.IH [OF y(2) Cons.prems(2) that] by simp
  ultimately show ?case using Cons.prems(3) by (metis order_trans set_ConsD subsetD order_refl)
qed simp

lemma settle_dirs_log:
  assumes "settle_dirs cf w dir parents created st = (True, st')" "cf_goos cf \<noteq> ''windows''"
  shows "\<exists>t. st_clock st \<le> t \<and> (t, SyncDir (snd dir)) \<in> set (st_log st')"
proof -
  obtain opened hs st1 where od: "open_dirs w [] (dir # rev created @ rev parents) st = ((opened, hs), st1)" by (metis surj_pair)
  obtain ok st2 where ch: "chmod_dirs w (workbenchFileMode cf (search_bits (file_mode cf))) (rev created) st1 = (ok, st2)" by fastforce
  obtain ok3 left st3 where sy: "sync_dirs cf w hs st2 = ((ok3, left), st3)" by (metis surj_pair)
  from assms(1) od ch sy have h: "opened" "ok3" "st_log st' = st_log st3"
    by (auto simp: settle_dirs_def split: bool.splits)
  have "dir \<in> set hs" using open_dirs_state [OF od] h(1) by auto
  moreover have "st_clock st \<le> st_clock st2"
    using open_dirs_state [OF od] chmod_dirs_grows [OF ch, of "\<lambda>_. True"] by (auto simp: grows_def)
  ultimately show ?thesis using sync_dirs_log [OF sy [unfolded eqTrueI [OF h(2)]] assms(2), of dir] h(3) by (metis order_trans)
qed

lemma write_error_cases [simp]:
  "write_error cf tool WriteFailed rel = Answer r \<longleftrightarrow> r = workbenchError (cf_printable cf) tool WriteFailed rel"
  "write_error cf tool WriteUnknown rel \<noteq> Answer r"
  "wr_IsError (workbenchError p tool code rel)"
  by (auto simp: write_error_def workbenchError_def Let_def)

text \<open>The part of \<open>replaceFile\<close> from the creation of the temporary file.\<close>

definition replace_from :: "ws_config \<Rightarrow> world \<Rightarrow> string \<Rightarrow> string \<Rightarrow> nat \<times> inode \<Rightarrow> string \<Rightarrow> string \<Rightarrow> nat
    \<Rightarrow> (nat \<times> inode) list \<Rightarrow> (nat \<times> inode) list \<Rightarrow> string \<Rightarrow> ws_state \<Rightarrow> tool_answer \<times> ws_state" where
  "replace_from cf w tool rel dir name content mode parents created tmp st =
     (case create_file w (snd dir) tmp st of
        (Inl e, st) \<Rightarrow> (write_error cf tool WriteFailed rel, st)
      | (Inr i, st) \<Rightarrow>
         (case fill_temp cf w content mode i st of
            (False, st) \<Rightarrow> (write_error cf tool WriteFailed rel, remove_name w (snd dir) tmp st)
          | (True, st) \<Rightarrow>
             (case commit_temp w (snd dir) tmp name i st of
                (NotCommitted, st) \<Rightarrow> (write_error cf tool WriteFailed rel, remove_name w (snd dir) tmp st)
              | (Unsure, st) \<Rightarrow> (write_error cf tool WriteUnknown rel, st)
              | (Committed, st) \<Rightarrow>
                 (case settle_dirs cf w dir parents created st of
                    (False, st) \<Rightarrow> (write_error cf tool WriteUnknown rel, st)
                  | (True, st) \<Rightarrow> (Answer \<lparr>wr_Content = tool @ '': wrote '' @ rel, wr_IsError = False\<rparr>, st)))))"

definition replaced_well :: "ws_config \<Rightarrow> world \<Rightarrow> inode \<Rightarrow> string \<Rightarrow> string \<Rightarrow> ws_state \<Rightarrow> tool_answer \<Rightarrow> ws_state \<Rightarrow> bool" where
  "replaced_well cf w d name content st a st' \<longleftrightarrow>
     (\<forall>t. st_clock st \<le> t \<and> t \<le> st_clock st' \<longrightarrow> old_file (w_fs w (st_clock st)) d name (w_fs w t) \<or> new_file d name content (w_fs w t))
     \<and> (\<forall>r. a = Answer r \<and> wr_IsError r \<longrightarrow> old_file (w_fs w (st_clock st)) d name (w_fs w (st_clock st')))
     \<and> (\<forall>r. a = Answer r \<and> \<not> wr_IsError r \<longrightarrow>
          (\<exists>i tmp ts tr. fs_entry (w_fs w (st_clock st')) d name = Some i \<and> fs_data (w_fs w (st_clock st')) i = content \<and> ts < tr \<and> (ts, SyncFile i) \<in> set (st_log st') \<and> (tr, Rename d tmp name) \<in> set (st_log st')
               \<and> (cf_goos cf \<noteq> ''windows'' \<longrightarrow> (\<exists>td > tr. (td, SyncDir d) \<in> set (st_log st')))))"

lemma replace_from_grows:
  assumes "replace_from cf w tool rel dir name content mode parents created tmp st = (a, st')"
  shows "grows (\<lambda>_. True) st st'"
proof -
  let ?T = "\<lambda>_. True" and ?i = "w_new w (st_clock st)"
  obtain x st1 where cr: "create_file w (snd dir) tmp st = (x, st1)" by fastforce
  have g1: "grows ?T st st1"
    using cr by (auto simp: create_file_def Let_def split: prod.splits sum.splits dest!: mutate_grows [where P = ?T])
  obtain ok st2 where fi: "fill_temp cf w content mode ?i st1 = (ok, st2)" by fastforce
  obtain cm st3 where co: "commit_temp w (snd dir) tmp name ?i st2 = (cm, st3)" by fastforce
  obtain ok4 st4 where se: "settle_dirs cf w dir parents created st3 = (ok4, st4)" by fastforce
  have g: "grows ?T st1 st2" "grows ?T st2 st3" "grows ?T st3 st4"
    using fill_temp_grows [OF fi, of ?T] commit_temp_grows [OF co, of ?T] settle_dirs_grows [OF se, of ?T] by auto
  have rm: "grows ?T s (remove_name w (snd dir) tmp s)" for s using remove_name_grows [of ?T "snd dir" tmp s w] by simp
  have x: "x = Inr i \<Longrightarrow> i = ?i" for i using cr by (auto simp: create_file_def Let_def split: prod.splits sum.splits)
  have "st' \<in> {st1, remove_name w (snd dir) tmp st2, remove_name w (snd dir) tmp st3, st3, st4}"
    using assms cr fi co se x
    by (auto simp: replace_from_def split: sum.splits bool.splits commit.splits)
  moreover have "grows ?T st st2" "grows ?T st st3" "grows ?T st st4" using g1 g grows_trans by blast+
  moreover from this have "grows ?T st (remove_name w (snd dir) tmp st2)" "grows ?T st (remove_name w (snd dir) tmp st3)"
    using rm [of st2] rm [of st3] grows_trans by blast+
  ultimately show ?thesis using g1 by blast
qed

lemma replace_from_well:
  assumes run: "replace_from cf w tool rel dir name content mode parents created tmp st = (a, st')"
    and tr: "tracks w t0 st'" and t0: "t0 \<le> st_clock st" and rec: "recorded st" and tmp: "tmp \<noteq> name"
    and fresh: "\<And>t. fs_entry (w_fs w (st_clock st)) (snd dir) name \<noteq> Some (w_new w t)"
  shows "replaced_well cf w (snd dir) name content st a st'"
proof -
  let ?d = "snd dir" and ?fs0 = "w_fs w (st_clock st)"
  let ?i = "w_new w (st_clock st)"
  let ?old = "old_file ?fs0 ?d name" and ?new = "new_file ?d name content"
  let ?put = "\<lambda>fs. fs_entry fs ?d name = Some ?i \<and> fs_data fs ?i = content"
  let ?A = "preparing ?d tmp ?i"
  let ?g = "\<lambda>fs. if fs_entry fs ?d tmp = None then None else Some ErrOther"
  obtain x st1 where cr: "mutate w ?g (Create ?d tmp ?i) st = (x, st1)" by fastforce
  obtain ok st2 where fi: "fill_temp cf w content mode ?i (hold st1) = (ok, st2)" by fastforce
  obtain cm st3 where co: "commit_temp w ?d tmp name ?i st2 = (cm, st3)" by fastforce
  obtain ok4 st4 where se: "settle_dirs cf w dir parents created st3 = (ok4, st4)" by fastforce
  let ?rm = "remove_name w ?d tmp"
  have g1: "grows ?A st st1" using mutate_grows [OF cr, of ?A] by simp
  have g2: "grows ?A st1 st2" using fill_temp_grows [OF fi, of ?A] by simp
  have g3: "grows (\<lambda>_. True) st2 st3" using commit_temp_grows [OF co, of "\<lambda>_. True"] by simp
  have g4: "grows settling st3 st4" using settle_dirs_grows [OF se, of settling] by simp
  have grm: "grows ?A s (?rm s)" for s using remove_name_grows [of ?A ?d tmp s w] by simp
  have old0: "?old ?fs0" by (auto simp: old_file_def split: option.splits)
  have keep: "?old (w_fs w t)" if "grows ?A s s'" "tracks w t0 s'" "t0 \<le> st_clock s" "recorded s" "?old (w_fs w (st_clock s))"
    "st_clock s \<le> t" "t \<le> st_clock s'" for s s' t
    by (rule tracked_invariant [where I = ?old, OF that(1-5) _ that(6,7)]) (rule preparing_keeps [OF _ tmp fresh])
  have true: "grows P s s' \<Longrightarrow> grows (\<lambda>_. True) s s'" for P s s' by (erule grows_mono) simp
  have err: "replaced_well cf w ?d name content st (write_error cf tool WriteFailed rel) st'" if "grows ?A st st'"
    using keep [OF that tr t0 rec old0] that by (auto simp: replaced_well_def grows_def)
  show ?thesis
  proof (cases "(\<exists>e. x = Inl e) \<or> \<not> ok")
    case True
    with run cr fi have "a = write_error cf tool WriteFailed rel" "st' = st1 \<or> st' = ?rm st2"
      by (auto simp: replace_from_def create_file_def Let_def split: sum.splits bool.splits)
    with err g1 g2 grm [of st2] grows_trans show ?thesis by blast
  next
    case False
    then have x: "x = Inr ()" and ok: "ok" by (cases x; auto)+
    have rest: "(a, st') = (case (cm, st3) of
                (NotCommitted, st) \<Rightarrow> (write_error cf tool WriteFailed rel, ?rm st)
              | (Unsure, st) \<Rightarrow> (write_error cf tool WriteUnknown rel, st)
              | (Committed, st) \<Rightarrow>
                 (case (ok4, st4) of
                    (False, st) \<Rightarrow> (write_error cf tool WriteUnknown rel, st)
                  | (True, st) \<Rightarrow> (Answer \<lparr>wr_Content = tool @ '': wrote '' @ rel, wr_IsError = False\<rparr>, st)))"
      using run cr fi co se x ok by (cases cm) (auto simp: replace_from_def create_file_def Let_def)
    then have g3': "grows (\<lambda>_. True) st3 st'"
      using true [OF grm [of st3]] true [OF g4] by (cases cm; cases ok4) (auto intro: grows_refl)
    note tr3 = tracks_back [OF tr g3'] note tr2 = tracks_back [OF tr3 g3] note tr1 = tracks_back [OF tr2 g2]
    have rec1: "recorded st1" and rec2: "recorded st2" and rec3: "recorded st3"
      using recorded_grows [OF g1 rec] recorded_grows [OF g2] recorded_grows [OF g3] by auto
    have c: "t0 \<le> st_clock st1" "t0 \<le> st_clock st2" "t0 \<le> st_clock st3" "st_clock st \<le> st_clock st2" "st_clock st2 \<le> st_clock st3"
      using t0 g1 g2 g3 by (auto simp: grows_def)
    have made: "w_fs w (st_clock st1) = apply_effect (Create ?d tmp ?i) ?fs0"
      using mutate_fs(1) [OF cr tr1 t0 rec] x by auto
    have fill: "fs_data (w_fs w (st_clock st2)) ?i = content" "fs_entry (w_fs w (st_clock st2)) = fs_entry (w_fs w (st_clock st1))"
      "\<exists>t. t < st_clock st2 \<and> (t, SyncFile ?i) \<in> set (st_log st2)"
      using fill_temp_fs [OF fi [unfolded eqTrueI [OF ok]] tr2] c(1) rec1 made by auto
    have tmp_i: "fs_entry (w_fs w (st_clock st2)) ?d tmp = Some ?i" using fill(2) made by simp
    have upto2: "?old (w_fs w t)" if "st_clock st \<le> t" "t \<le> st_clock st2" for t
      by (rule keep [OF grows_trans [OF g1 g2] tr2 t0 rec old0 that])
    then have old2: "?old (w_fs w (st_clock st2))" using c(4) by simp
    then have ne: "fs_entry (w_fs w (st_clock st2)) ?d name \<noteq> Some ?i" using fresh by (auto simp: old_file_def)
    note commit = commit_temp_fs [OF co tr3 c(2) rec2 tmp tmp_i ne]
    have put: "?put (apply_effect (Rename ?d tmp name) (w_fs w (st_clock st2)))" using tmp_i fill(1) tmp by auto
    have new: "?put fs \<Longrightarrow> ?new fs" for fs by (auto simp: new_file_def)
    have upto3: "?old (w_fs w t) \<or> ?new (w_fs w t)" if "st_clock st \<le> t" "t \<le> st_clock st3" for t
    proof (cases "t \<le> st_clock st2")
      case False
      then show ?thesis using commit(1) commit(2) [of t] old2 new [OF put] that by auto
    qed (use upto2 that in blast)
    show ?thesis
    proof (cases cm)
      case NotCommitted
      then have old3: "?old (w_fs w (st_clock st3))" using commit(1) old2 by auto
      from NotCommitted rest have a: "a = write_error cf tool WriteFailed rel" "st' = ?rm st3" by auto
      have after: "?old (w_fs w t)" if "st_clock st3 \<le> t" "t \<le> st_clock st'" for t
        using keep [OF grm [of st3] _ c(3) rec3 old3] tr a(2) that by simp
      have "st_clock st3 \<le> st_clock st'" using g3' by (simp add: grows_def)
      then show ?thesis using a(1) upto3 after by (auto simp: replaced_well_def) (meson nle_le)
    next
      case Unsure
      with rest have "a = write_error cf tool WriteUnknown rel" "st' = st3" by auto
      then show ?thesis using upto3 by (auto simp: replaced_well_def)
    next
      case Committed
      then have new3: "?put (w_fs w (st_clock st3))" and ren: "(st_clock st2, Rename ?d tmp name) \<in> set (st_log st3)" "st_clock st2 < st_clock st3"
        using commit(1) put by auto
      from Committed rest have a: "st' = st4" "a = (if ok4 then Answer \<lparr>wr_Content = tool @ '': wrote '' @ rel, wr_IsError = False\<rparr>
          else write_error cf tool WriteUnknown rel)" by (cases ok4; simp)+
      note tr4 = tr [unfolded a(1)]
      have after: "?put (w_fs w t)" if "st_clock st3 \<le> t" "t \<le> st_clock st'" for t
        by (rule tracked_invariant [where I = ?put, OF g4 tr4 c(3) rec3 new3 settling_keeps that [unfolded a(1)]])
      have le: "st_clock st3 \<le> st_clock st'" using g3' by (simp add: grows_def)
      have logs: "set (st_log st2) \<subseteq> set (st_log st')" "set (st_log st3) \<subseteq> set (st_log st')"
        using g3 g3' by (auto simp: grows_def)
      have dur: "\<exists>tmp ts tr. ts < tr \<and> (ts, SyncFile ?i) \<in> set (st_log st') \<and> (tr, Rename ?d tmp name) \<in> set (st_log st')
               \<and> (cf_goos cf \<noteq> ''windows'' \<longrightarrow> (\<exists>td > tr. (td, SyncDir ?d) \<in> set (st_log st')))" if ok4
      proof -
        obtain ts where ts: "ts < st_clock st2" "(ts, SyncFile ?i) \<in> set (st_log st2)" using fill(3) by blast
        have "\<exists>td > st_clock st2. (td, SyncDir ?d) \<in> set (st_log st')" if "cf_goos cf \<noteq> ''windows''"
          using settle_dirs_log [OF se [unfolded eqTrueI [OF \<open>ok4\<close>]] that] a(1) ren(2) by (meson order_less_le_trans)
        with ts ren(1) logs show ?thesis by (meson subsetD)
      qed
      have "?old (w_fs w t) \<or> ?new (w_fs w t)" if "st_clock st \<le> t" "t \<le> st_clock st'" for t
        using upto3 [of t] new [OF after [of t]] that by (cases "t \<le> st_clock st3") auto
      moreover have "?put (w_fs w (st_clock st'))" using after le by simp
      ultimately show ?thesis using a(2) dur by (cases ok4) (auto simp: replaced_well_def)
    qed
  qed
qed

text \<open>The two calls before the temporary file is created change nothing.\<close>

lemma replaced_well_before:
  assumes "replaced_well cf w d name content st1 a st'" "st_log st1 = st_log st" "st_clock st \<le> st_clock st1"
    "grows P st1 st'" "tracks w t0 st'" "t0 \<le> st_clock st" "recorded st"
  shows "replaced_well cf w d name content st a st'"
proof -
  have g: "grows (\<lambda>_. False) st st1" using assms(2,3) by (rule grows_refl)
  note tr1 = tracks_back [OF assms(5,4)]
  have same: "w_fs w t = w_fs w (st_clock st)" if "st_clock st \<le> t" "t \<le> st_clock st1" for t
    by (rule tracked_invariant [where I = "\<lambda>fs. fs = w_fs w (st_clock st)", OF g tr1 assms(6,7) refl _ that]) simp
  have "old_file (w_fs w (st_clock st)) d name (w_fs w (st_clock st))" by (auto simp: old_file_def split: option.splits)
  then have "old_file (w_fs w (st_clock st)) d name (w_fs w t)" if "st_clock st \<le> t" "t \<le> st_clock st1" for t
    using same [OF that] by simp
  moreover have "w_fs w (st_clock st1) = w_fs w (st_clock st)" using same [OF assms(3) order_refl] .
  ultimately show ?thesis using assms(1) unfolding replaced_well_def by (metis nle_le)
qed

text \<open>
  C17. Replacing a file is atomic and its answer is true: at every moment the target is the file it was or a file with
  the complete new content, whatever call fails and whether or not a call that reports a failure took effect. An error
  answer means that the target is the old file; success means that it is the new one, that its content was synced
  before the rename and, except on Windows, the directory after it. Only the third outcome, an unknown one, leaves open which.
\<close>

theorem replace_atomic:
  assumes "replaceFile cf w tool rel dir name content mode parents created st = (a, st')"
    and "tracks w (st_clock st) st'" and "recorded st" and "\<not> Reserved name"
    and "\<forall>t. fs_entry (w_fs w (st_clock st)) (snd dir) name \<noteq> Some (w_new w t)"
  shows "(\<forall>t. st_clock st \<le> t \<and> t \<le> st_clock st' \<longrightarrow>
        old_file (w_fs w (st_clock st)) (snd dir) name (w_fs w t) \<or> new_file (snd dir) name content (w_fs w t))
    \<and> (\<forall>r. a = Answer r \<and> wr_IsError r \<longrightarrow> old_file (w_fs w (st_clock st)) (snd dir) name (w_fs w (st_clock st')))
    \<and> (\<forall>r. a = Answer r \<and> \<not> wr_IsError r \<longrightarrow>
        (\<exists>i tmp ts tr. fs_entry (w_fs w (st_clock st')) (snd dir) name = Some i \<and> fs_data (w_fs w (st_clock st')) i = content
           \<and> ts < tr \<and> (ts, SyncFile i) \<in> set (st_log st') \<and> (tr, Rename (snd dir) tmp name) \<in> set (st_log st')
           \<and> (cf_goos cf \<noteq> ''windows'' \<longrightarrow> (\<exists>td > tr. (td, SyncDir (snd dir)) \<in> set (st_log st')))))"
proof -
  obtain ended st1 where cp: "checkpoint w st = (ended, st1)" by fastforce
  obtain rd st2 where rd: "syscall w (\<lambda>fs. Inr (w_rand w (st_clock st1))) st1 = (rd, st2)" by fastforce
  have s: "st_log st1 = st_log st" "st_clock st \<le> st_clock st1" "st_log st2 = st_log st" "st_clock st \<le> st_clock st2"
    using checkpoint_state [OF cp] syscall_state [OF rd] by auto
  have "replaced_well cf w (snd dir) name content st a st'"
  proof (cases "ended \<or> (\<exists>e. rd = Inl e)")
    case True
    with assms(1) have a: "a = write_error cf tool WriteFailed rel" and st': "st' = st1 \<or> st' = st2"
      by (auto simp: replaceFile_def cp rd split: if_splits)
    have "replaced_well cf w (snd dir) name content st' a st'"
      using a by (auto simp: replaced_well_def old_file_def split: option.splits)
    then show ?thesis
      by (rule replaced_well_before [OF _ _ _ grows_refl assms(2) order_refl assms(3)]) (use st' s in auto)
  next
    case False
    then obtain random where random: "\<not> ended" "rd = Inr random" by (cases rd) auto
    have run: "replace_from cf w tool rel dir name content mode parents created (temp_name cf random) st2 = (a, st')"
      using assms(1) random by (simp add: replaceFile_def replace_from_def cp rd Let_def)
    have g: "grows (\<lambda>_. True) st2 st'" by (rule replace_from_grows [OF run])
    have tr2: "tracks w (st_clock st) st2" using tracks_back [OF assms(2) g] .
    have fs2: "w_fs w (st_clock st2) = w_fs w (st_clock st)"
      by (rule tracked_same [OF s(3,4) tr2 order_refl assms(3)])
    have rec2: "recorded st2" using recorded_grows [OF grows_refl [OF s(3,4)] assms(3)] .
    have tmp: "temp_name cf random \<noteq> name" using temp_reserved assms(4) by metis
    have "replaced_well cf w (snd dir) name content st2 a st'"
      by (rule replace_from_well [OF run assms(2) s(4) rec2 tmp]) (use assms(5) fs2 in auto)
    then show ?thesis by (rule replaced_well_before [OF _ s(3,4) g assms(2) order_refl assms(3)])
  qed
  then show ?thesis unfolding replaced_well_def .
qed

text \<open>A run: the file \<open>a/f\<close> of the example is replaced; its rename takes effect and reports a failure all the same.\<close>

definition replace_config :: ws_config where
  "replace_config = example_config\<lparr>cf_goos := ''linux''\<rparr>"

definition replace_effects :: "effect option list" where
  "replace_effects = (let tmp = temp_name replace_config ''00'' in
     [None, None, Some (Create 1 tmp 1002), Some (Append 1002 ''new''), Some (SyncFile 1002), None, Some (Chmod 1002 420),
      None, None, None, Some (Rename 1 tmp ''f''), None, None, Some (SyncDir 1)])"

definition replace_world :: world where
  "replace_world = (quiet example_fs)\<lparr>
     w_fs := \<lambda>t. foldl (\<lambda>fs e. case e of None \<Rightarrow> fs | Some e \<Rightarrow> apply_effect e fs) example_fs (take t replace_effects),
     w_fault := \<lambda>t. if t = 10 then Some ErrOther else None, w_late := \<lambda>t. t = 10\<rparr>"

definition replace_log :: "(nat \<times> effect) list" where
  "replace_log = (let tmp = temp_name replace_config ''00'' in
     [(13, SyncDir 1), (10, Rename 1 tmp ''f''), (6, Chmod 1002 420), (4, SyncFile 1002), (3, Append 1002 ''new''), (2, Create 1 tmp 1002)])"

lemma replace_run:
  "replaceFile replace_config replace_world ''write_file'' ''a/f'' (0, 1) ''f'' ''new'' 420 [] [] example_state
     = (Answer \<lparr>wr_Content = ''write_file: wrote a/f'', wr_IsError = False\<rparr>, \<lparr>st_clock = 14, st_handles = 0, st_fresh = 0, st_log = replace_log\<rparr>)"
  by code_simp

lemma replace_tracks: "tracks replace_world (st_clock example_state) \<lparr>st_clock = 14, st_handles = 0, st_fresh = 0, st_log = replace_log\<rparr>"
proof -
  have "w_fs replace_world (Suc t) = (case map_of replace_log t of None \<Rightarrow> w_fs replace_world t | Some e \<Rightarrow> apply_effect e (w_fs replace_world t))"
    if "t < 14" for t
  proof -
    have t: "take (Suc t) replace_effects = take t replace_effects @ [replace_effects ! t]"
      using that by (intro take_Suc_conv_app_nth) (simp add: replace_effects_def Let_def)
    have "list_all (\<lambda>t. map_of replace_log t = replace_effects ! t) [0..<14]" by code_simp
    then have "map_of replace_log t = replace_effects ! t" using that by (simp add: list_all_iff)
    then show ?thesis by (simp add: replace_world_def t split: option.splits)
  qed
  then show ?thesis by (simp add: tracks_def)
qed

theorem replace_atomic_witness:
  "new_file 1 ''f'' ''new'' (w_fs replace_world 14) \<and> (\<exists>ts tr. (ts, SyncFile 1002) \<in> set replace_log \<and> ts < tr \<and> (tr, Rename 1 (temp_name replace_config ''00'') ''f'') \<in> set replace_log)"
proof -
  have plain: "\<not> Reserved ''f''" by code_simp
  have h: "recorded example_state" "\<forall>t. fs_entry (w_fs replace_world (st_clock example_state)) (snd (0::nat, 1::nat)) ''f'' \<noteq> Some (w_new replace_world t)"
    by (auto simp: recorded_def example_state_def replace_world_def example_fs_def quiet_def)
  show ?thesis using replace_atomic [OF replace_run replace_tracks h(1) plain h(2)]
    by (auto simp: new_file_def replace_log_def Let_def)
qed

end
