(* ===== verification/Ws_Named.thy ===== *)
theory Ws_Named
  imports Ws_Write
begin

text \<open>
  Where a walk of a workspace is, by name. A cursor (sandbox/workspace.go) goes from one directory to another by comparing
  pointers, so that the path shown for a directory is the path that was walked to it only because every \<open>dirNode\<close> has an
  address of its own: an invariant of the cursor and of the nodes still to be visited, kept by every operation of a walk.
\<close>

section \<open>Names of a node\<close>

definition node_names :: "dir_node \<Rightarrow> string list" where
  "node_names n = map dn_name (tl (node_chain n))"

text \<open>The path a walk shows for the names it went through.\<close>

definition rel_of :: "string list \<Rightarrow> string" where
  "rel_of names = foldl (\<lambda>p n. path_Join [p, n]) [] names"

fun rel_ok :: "dir_node \<Rightarrow> bool" where
  "rel_ok (DirNode a n i None r) \<longleftrightarrow> r = []"
| "rel_ok (DirNode a n i (Some p) r) \<longleftrightarrow> rel_ok p \<and> r = path_Join [dn_rel p, n]"

lemma node_chain_nonempty [simp]: "node_chain n \<noteq> []"
  by (cases n rule: node_chain.cases) auto

lemma node_names_simps [simp]:
  "node_names (DirNode a n i None r) = []" "node_names (DirNode a n i (Some p) r) = node_names p @ [n]"
  by (simp_all add: node_names_def)

lemma rel_of_simps [simp]: "rel_of [] = []" "rel_of (names @ [name]) = path_Join [rel_of names, name]"
  by (simp_all add: rel_of_def)

lemma rel_ok_eq: "rel_ok n \<Longrightarrow> dn_rel n = rel_of (node_names n)"
  by (induction n rule: rel_ok.induct) auto

section \<open>Cursors\<close>

definition cursor_named :: "ws_config \<Rightarrow> world \<Rightarrow> cursor \<Rightarrow> bool" where
  "cursor_named cf w c \<longleftrightarrow> length (cu_nodes c) = length (cu_roots c) \<and> cu_roots c \<noteq> []
     \<and> (\<forall>i < length (cu_roots c). reached w (wp_hides (cu_policy c)) (cf_root cf) (map dn_name (tl (take (Suc i) (cu_nodes c)))) (cu_roots c ! i))"

lemma cursor_named_ok: "cursor_named cf w c \<Longrightarrow> cursor_ok cf w c"
  unfolding cursor_named_def cursor_ok_def by (metis in_set_conv_nth)

lemma newCursor_named: "cursor_named cf w (newCursor cf root pol)"
  by (auto simp: cursor_named_def newCursor_def intro: at_root)

lemma cursor_named_last:
  assumes "cursor_named cf w c"
  shows "reached w (wp_hides (cu_policy c)) (cf_root cf) (map dn_name (tl (cu_nodes c))) (last (cu_roots c))"
proof -
  have "length (cu_roots c) - 1 < length (cu_roots c)" "Suc (length (cu_roots c) - 1) = length (cu_nodes c)"
    using assms by (auto simp: cursor_named_def)
  then show ?thesis using assms unfolding cursor_named_def by (metis last_conv_nth order_refl take_all)
qed

lemma cursor_named_take:
  "cursor_named cf w c \<Longrightarrow> 0 < k \<Longrightarrow> cursor_named cf w (c\<lparr>cu_nodes := take k (cu_nodes c), cu_roots := take k (cu_roots c)\<rparr>)"
  by (auto simp: cursor_named_def min_def)

lemma cursor_named_push:
  assumes "cursor_named cf w c" "reached w (wp_hides (cu_policy c)) (cf_root cf) (map dn_name (tl (cu_nodes c)) @ [dn_name m]) r"
  shows "cursor_named cf w (c\<lparr>cu_nodes := cu_nodes c @ [m], cu_roots := cu_roots c @ [r]\<rparr>)"
  using assms by (auto simp: cursor_named_def nth_append less_Suc_eq tl_append split: list.splits)

lemma enter_all_named:
  assumes "enter_all cf w ms c st = (x, c', st')" "cursor_named cf w c"
  shows "cursor_named cf w c' \<and> set (cu_nodes c') \<subseteq> set (cu_nodes c) \<union> set ms \<and> (\<forall>d. x = Inr d \<longrightarrow> cu_nodes c' = cu_nodes c @ ms)"
  using assms
proof (induction cf w ms c st rule: enter_all.induct)
  case (2 cf w m ms c st)
  obtain y st1 where e: "enter cf w (cu_policy c) (last (cu_roots c)) m st = (y, st1)" by fastforce
  show ?case
  proof (cases y)
    case (Inr r)
    let ?c = "c\<lparr>cu_nodes := cu_nodes c @ [m], cu_roots := cu_roots c @ [r]\<rparr>"
    have "cursor_named cf w ?c"
      by (rule cursor_named_push [OF 2(3) enter_sound(2) [OF e Inr cursor_named_last [OF 2(3)]]])
    moreover have "enter_all cf w ms ?c st1 = (x, c', st')" using 2(2) e Inr by simp
    ultimately show ?thesis using 2(1) [OF e [symmetric] Inr] by auto
  qed (use 2 e in auto)
qed auto

lemma shared_take: "inj_on dn_addr (set as \<union> set bs) \<Longrightarrow> take (shared as bs) as = take (shared as bs) bs"
proof (induction as bs rule: shared.induct)
  case (1 a as b bs)
  then have "inj_on dn_addr (set as \<union> set bs)" by (auto intro: inj_on_subset)
  moreover have "dn_addr a = dn_addr b \<Longrightarrow> a = b" using "1.prems" by (rule inj_onD) auto
  ultimately show ?case using "1.IH" by auto
qed auto

text \<open>Going to a node: the cursor ends where the names of the node lead.\<close>

lemma cursor_to_named:
  assumes "cursor_to cf w n c st = (x, c', st')" "cursor_named cf w c" "inj_on dn_addr (set (cu_nodes c) \<union> set (node_chain n))"
  shows "cursor_named cf w c' \<and> set (cu_nodes c') \<subseteq> set (cu_nodes c) \<union> set (node_chain n)
    \<and> (\<forall>d. x = Inr d \<longrightarrow> reached w (wp_hides (cu_policy c)) (cf_root cf) (node_names n) d)"
proof (cases "dn_addr (hd (node_chain n)) \<noteq> dn_addr (hd (cu_nodes c))")
  case False
  let ?ch = "node_chain n"
  let ?k = "Suc (shared (tl ?ch) (tl (cu_nodes c)))"
  let ?c = "c\<lparr>cu_nodes := take ?k (cu_nodes c), cu_roots := take ?k (cu_roots c)\<rparr>"
  let ?st = "st\<lparr>st_handles := st_handles st - int (length (cu_roots c) - ?k)\<rparr>"
  have ne: "cu_nodes c \<noteq> []" using assms(2) by (auto simp: cursor_named_def)
  then have "hd ?ch = hd (cu_nodes c)" using assms(3) False by (auto dest: inj_onD)
  moreover have "inj_on dn_addr (set (tl ?ch) \<union> set (tl (cu_nodes c)))"
    using assms(3) by (rule inj_on_subset) (metis Un_mono list.set_sel(2) ne node_chain_nonempty subsetI sup.commute)
  ultimately have same: "take ?k (cu_nodes c) = take ?k ?ch"
    using shared_take [of "tl ?ch" "tl (cu_nodes c)"] ne by (cases "cu_nodes c"; cases ?ch) auto
  have all: "enter_all cf w (drop ?k ?ch) ?c ?st = (x, c', st')"
    using assms(1) False by (simp add: cursor_to_def Let_def truncate_cursor_def)
  have named: "cursor_named cf w ?c" by (rule cursor_named_take [OF assms(2)]) simp
  note en = enter_all_named [OF all named] and es = enter_all_sound [OF all cursor_named_ok [OF named]]
  have "set (cu_nodes c') \<subseteq> set (cu_nodes c) \<union> set ?ch"
    using en by (auto dest: in_set_takeD in_set_dropD)
  moreover have "reached w (wp_hides (cu_policy c)) (cf_root cf) (node_names n) d" if "x = Inr d" for d
  proof -
    have "cu_nodes c' = take ?k ?ch @ drop ?k ?ch" using en that same by simp
    then have "cu_nodes c' = ?ch" by simp
    then show ?thesis using cursor_named_last [of cf w c'] en es that by (simp add: node_names_def)
  qed
  ultimately show ?thesis using en by blast
qed (use assms in \<open>auto simp: cursor_to_def\<close>)

section \<open>Nodes in use\<close>

definition nodes_of :: "cursor \<Rightarrow> dir_node set \<Rightarrow> dir_node set" where
  "nodes_of c Q = set (cu_nodes c) \<union> (\<Union>n \<in> Q. set (node_chain n))"

text \<open>The nodes of the cursor and of what is to be visited: each with an address of its own, given out before.\<close>

definition nodes_ok :: "ws_config \<Rightarrow> world \<Rightarrow> ws_state \<Rightarrow> cursor \<Rightarrow> dir_node set \<Rightarrow> bool" where
  "nodes_ok cf w st c Q \<longleftrightarrow> cursor_named cf w c \<and> inj_on dn_addr (nodes_of c Q) \<and> (\<forall>m \<in> nodes_of c Q. dn_addr m < st_fresh st)
     \<and> (\<forall>n \<in> Q. rel_ok n)"

lemma nodes_ok_cursor: "nodes_ok cf w st c Q \<Longrightarrow> cursor_named cf w c \<and> cursor_ok cf w c"
  by (simp add: nodes_ok_def cursor_named_ok)

lemma nodes_ok_mono: "nodes_ok cf w st c Q \<Longrightarrow> Q' \<subseteq> Q \<Longrightarrow> st_fresh st \<le> st_fresh st' \<Longrightarrow> nodes_ok cf w st' c Q'"
  unfolding nodes_ok_def nodes_of_def by (auto intro: inj_on_subset dest: less_le_trans)

lemma nodes_ok_child:
  assumes "nodes_ok cf w st c Q" "node \<in> Q" "node_child node name info st = (child, st')"
  shows "nodes_ok cf w st' c (insert child Q)"
proof -
  have child: "dn_addr child = st_fresh st" "st_fresh st' = Suc (st_fresh st)" "node_chain child = node_chain node @ [child]" "rel_ok child \<longleftrightarrow> rel_ok node"
    using assms(3) by (auto simp: node_child_def)
  have eq: "nodes_of c (insert child Q) = insert child (nodes_of c Q)" using assms(2) child(3) by (auto simp: nodes_of_def)
  have "\<forall>m \<in> nodes_of c Q. dn_addr m < st_fresh st" "inj_on dn_addr (nodes_of c Q)" using assms(1) by (auto simp: nodes_ok_def)
  then have "inj_on dn_addr (insert child (nodes_of c Q))" using child(1) by (subst inj_on_insert) force
  then show ?thesis using assms(1,2) child unfolding nodes_ok_def eq by auto
qed

lemma nodes_ok_root:
  assumes "rootNode cf w st = (Inr root, st')"
  shows "nodes_ok cf w st' (newCursor cf root pol) {root}" "dn_parent root = None"
proof -
  obtain i where "root = DirNode (st_fresh st) [] i None []" "st_fresh st' = Suc (st_fresh st)"
    using assms by (auto simp: rootNode_def split: prod.splits sum.splits dest: fstat_state)
  then show "nodes_ok cf w st' (newCursor cf root pol) {root}" "dn_parent root = None"
    using newCursor_named by (auto simp: nodes_ok_def nodes_of_def newCursor_def)
qed

lemma cursor_to_nodes:
  assumes "cursor_to cf w n c st = (x, c', st')" "nodes_ok cf w st c Q" "n \<in> Q"
  shows "nodes_ok cf w st' c' Q \<and> (\<forall>d. x = Inr d \<longrightarrow> reached w (wp_hides (cu_policy c)) (cf_root cf) (node_names n) d)"
proof -
  have sub: "set (cu_nodes c) \<union> set (node_chain n) \<subseteq> nodes_of c Q" using assms(3) by (auto simp: nodes_of_def)
  have "inj_on dn_addr (set (cu_nodes c) \<union> set (node_chain n))" by (rule inj_on_subset [OF _ sub]) (use assms(2) in \<open>simp add: nodes_ok_def\<close>)
  note to = cursor_to_named [OF assms(1) conjunct1 [OF nodes_ok_cursor [OF assms(2)]] this]
  then have "nodes_of c' Q \<subseteq> nodes_of c Q" using sub by (auto simp: nodes_of_def)
  moreover have "st_fresh st' = st_fresh st" using cursor_to_sound [OF assms(1)] nodes_ok_cursor [OF assms(2)] by blast
  ultimately show ?thesis using assms(2) to by (auto simp: nodes_ok_def intro: inj_on_subset)
qed

section \<open>A file by its path\<close>

text \<open>
  A file opened at a path: each directory of it was reached from the root by the path's names, none of them hidden, and the
  file was an entry under the last of them, looked at through its handle before it was used.
\<close>

definition opened_at :: "ws_config \<Rightarrow> world \<Rightarrow> walk_policy \<Rightarrow> string list \<Rightarrow> inode \<Rightarrow> bool" where
  "opened_at cf w pol parts f \<longleftrightarrow> admitted cf w pol f
     \<and> (\<exists>names part d t. parts = names @ [part] \<and> reached w (wp_hides pol) (cf_root cf) names d \<and> \<not> Reserved part
          \<and> fs_entry (w_fs w t) d part = Some f \<and> fs_kind (w_fs w t) f = Regular)"

lemma walk_part_named:
  assumes "walk_part cf w start dir part rest node hops pol st = (x, st')" "\<not> Reserved part" "kinds_stable w" "wp_git pol"
    "reached w (wp_hides pol) (cf_root cf) names dir"
  shows "st_fresh st \<le> st_fresh st' \<and> (\<forall>f. x = Stop (Inr f) \<longrightarrow> rest = [] \<and> opened_at cf w pol (names @ [part]) f)
    \<and> (\<forall>parts' node' hops'. x = Go parts' node' hops' \<longrightarrow> parts' = rest
         \<and> (\<exists>info st1. node_child node part info st1 = (node', st') \<and> st_fresh st1 = st_fresh st))"
proof -
  obtain z st2 where ls: "lstat w dir part st = (z, st2)" by fastforce
  note lss = lstat_state [OF ls]
  show ?thesis
  proof (cases z)
    case (Inl e)
    with assms(1) ls lss show ?thesis by (auto simp: walk_part_def)
  next
    case (Inr info)
    show ?thesis
    proof (cases "fi_kind info = Regular \<and> rest = []")
      case True
      obtain r st3 where ol: "open_last cf w pol dir part info st2 = (r, st3)" by fastforce
      with assms(1) ls Inr True have x: "x = Stop r" "st' = st3" by (auto simp: walk_part_def)
      note sound = open_last_sound [OF ol]
      have "opened_at cf w pol (names @ [part]) f" if "r = Inr f" for f
        using sound(2) [OF that assms(3)] lstat_Inr [OF ls [unfolded Inr]] True assms(2,5)
        unfolding opened_at_def by auto metis
      with sound(1) x lss True show ?thesis by auto
    next
      case False
      then have "(\<exists>code. x = Stop (Inl code)) \<and> st' = st2 \<or> (\<exists>node'. x = Go rest node' hops \<and> node_child node part info st2 = (node', st'))"
        using assms(1,4) ls Inr by (auto simp: walk_part_def follow_link_def split: if_splits prod.splits)
      moreover have "st_fresh st2 = st_fresh st" using lss by simp
      moreover have "st_fresh st2 \<le> st_fresh st'" if "node_child node part info st2 = (node', st')" for node'
        using that by (auto simp: node_child_def)
      ultimately show ?thesis by fastforce
    qed
  qed
qed

lemma open_walk_named:
  assumes "open_walk cf w start parts node hops c st = (x, c', st')" "nodes_ok cf w st c Q" "node \<in> Q" "kinds_stable w" "wp_git (cu_policy c)"
  shows "nodes_ok cf w st' c' Q \<and> st_fresh st \<le> st_fresh st' \<and> (\<forall>f. x = Inr f \<longrightarrow> opened_at cf w (cu_policy c) (node_names node @ parts) f)"
  using assms
proof (induction cf w start parts node hops c st arbitrary: x c' st' Q rule: open_walk.induct)
  case (2 cf w start part rest node hops c st)
  note prems = "2.prems"
  obtain y c1 st1 where to: "cursor_to cf w node c st = (y, c1, st1)" by (cases "cursor_to cf w node c st") auto
  note ton = cursor_to_nodes [OF to prems(2,3)]
  have tos: "cu_policy c1 = cu_policy c" "st_fresh st1 = st_fresh st" using cursor_to_sound [OF to] nodes_ok_cursor [OF prems(2)] by auto
  show ?case
  proof (cases "Reserved part \<or> (\<exists>e. y = Inl e)")
    case True
    with prems to ton tos show ?thesis by (auto split: if_splits)
  next
    case False
    then obtain dir where y: "y = Inr dir" and nr: "\<not> Reserved part" by (cases y) auto
    then have dir: "reached w (wp_hides (cu_policy c1)) (cf_root cf) (node_names node) dir" using ton tos by auto
    obtain z st2 where wp: "walk_part cf w start dir part rest node hops (cu_policy c1) st1 = (z, st2)" by fastforce
    note wpn = walk_part_named [OF wp nr prems(4) prems(5) [folded tos(1)] dir]
    have n2: "nodes_ok cf w st2 c1 Q" using nodes_ok_mono [OF conjunct1 [OF ton] subset_refl] wpn by blast
    show ?thesis
    proof (cases z)
      case (Stop r)
      with prems(1) to y nr wp have "x = r" "c' = c1" "st' = st2" by auto
      with wpn n2 tos Stop show ?thesis by auto
    next
      case (Go parts' node' hops')
      then obtain info st0 where ch: "parts' = rest" "node_child node part info st0 = (node', st2)" "st_fresh st0 = st_fresh st1" using wpn by blast
      have n0: "nodes_ok cf w st0 c1 Q" using nodes_ok_mono [OF conjunct1 [OF ton] subset_refl] ch(3) by simp
      have n3: "nodes_ok cf w st2 c1 (insert node' Q)" by (rule nodes_ok_child [OF n0 prems(3) ch(2)])
      have names: "node_names node' = node_names node @ [part]" using ch(2) by (auto simp: node_child_def)
      from Go prems(1) to y nr wp have run: "open_walk cf w start parts' node' hops' c1 st2 = (x, c', st')" by auto
      from 2(1) [OF nr to [symmetric] y refl wp [symmetric] Go run n3 insertI1 prems(4)] tos prems(5)
      have ih: "nodes_ok cf w st' c' (insert node' Q)" "st_fresh st2 \<le> st_fresh st'"
        "\<forall>f. x = Inr f \<longrightarrow> opened_at cf w (cu_policy c) (node_names node' @ parts') f" by auto
      then show ?thesis using nodes_ok_mono [OF ih(1) subset_insertI order_refl] wpn tos names ch(1) by auto
    qed
  qed
qed auto

end
