(* ===== verification/Ws_List.thy ===== *)
theory Ws_List
  imports Ws_Named "HOL-Library.List_Lexorder" "HOL-Library.Char_ord" "HOL-Library.Multiset"
begin

text \<open>
  Listing a workspace (sandbox/workspace_list.go, with \<open>listTarget\<close> and \<open>eachName\<close> of workspace.go): a breadth-first walk of the
  directories below one, which shows at most what fits in a result and visits at most a fixed number of names.
\<close>

section \<open>The directory asked for\<close>

definition list_failure :: "walk_error \<Rightarrow> ws_code" where
  "list_failure e = (if e = Hidden then PathNotListed else rootFailure e)"

fun target_walk :: "ws_config \<Rightarrow> world \<Rightarrow> string list \<Rightarrow> dir_node \<Rightarrow> cursor \<Rightarrow> ws_state \<Rightarrow> (ws_code + dir_node) \<times> cursor \<times> ws_state" where
  "target_walk cf w [] node c st =
     (case cursor_to cf w node c st of
        (Inl e, c, st) \<Rightarrow> (Inl (list_failure e), c, st)
      | (Inr d, c, st) \<Rightarrow> (Inr node, c, st))"
| "target_walk cf w (part # rest) node c st =
     (if hiddenName part then (Inl PathNotListed, c, st)
      else case cursor_to cf w node c st of
        (Inl e, c, st) \<Rightarrow> (Inl (list_failure e), c, st)
      | (Inr dir, c, st) \<Rightarrow>
         (case lstat w dir part st of
            (Inl e, st) \<Rightarrow> (Inl (rootFailure (Sys e)), c, st)
          | (Inr info, st) \<Rightarrow>
             if fi_kind info = Symlink then (Inl (if rest = [] then FileIsSymlink else PathThroughSymlink), c, st)
             else if fi_kind info \<noteq> Directory then (Inl FileNotDirectory, c, st)
             else (case node_child node part info st of (child, st) \<Rightarrow> target_walk cf w rest child c st)))"

definition listTarget :: "ws_config \<Rightarrow> world \<Rightarrow> cursor \<Rightarrow> dir_node \<Rightarrow> string \<Rightarrow> ws_state \<Rightarrow> (ws_code + dir_node) \<times> cursor \<times> ws_state" where
  "listTarget cf w c root clean st =
     (if clean = ''.'' then (Inr root, c, st) else target_walk cf w (strings_Split clean slash) root c st)"

section \<open>The names of a directory\<close>

text \<open>
  \<open>Readdirnames\<close>: the next batch of at most \<open>workbenchDirBatch\<close> names, and an error that can come with some of them. No name
  and no error is the end.
\<close>

abbreviation workbenchDirBatch :: nat where "workbenchDirBatch \<equiv> 256"

definition read_names :: "world \<Rightarrow> inode \<Rightarrow> nat \<Rightarrow> ws_state \<Rightarrow> string list \<times> sys_error option \<times> ws_state" where
  "read_names w f pos st =
     (let t = st_clock st; batch = take workbenchDirBatch (drop pos (fs_names (w_fs w t) f)) in
      (case w_fault w t of Some e \<Rightarrow> take (w_short w t) batch | None \<Rightarrow> batch, w_fault w t, st\<lparr>st_clock := Suc t\<rparr>))"

datatype visit_error = Cancelled | Failed walk_error

datatype visit_end = More | Stopped | Capped | Broke visit_error

text \<open>
  The names of a batch. Both callers of \<open>eachName\<close> begin their visit by counting the name and stop at the limit instead; that
  count is kept here.
\<close>

type_synonym 'a visit = "nat \<Rightarrow> string \<Rightarrow> 'a \<Rightarrow> ws_state \<Rightarrow> (visit_error + bool) \<times> 'a \<times> ws_state"

fun visit_names :: "nat \<Rightarrow> 'a visit \<Rightarrow> string list \<Rightarrow> nat \<Rightarrow> 'a \<Rightarrow> ws_state \<Rightarrow> visit_end \<times> nat \<times> 'a \<times> ws_state" where
  "visit_names limit visit [] visited a st = (More, visited, a, st)"
| "visit_names limit visit (name # names) visited a st =
     (if visited \<ge> limit then (Capped, visited, a, st)
      else case visit (Suc visited) name a st of
        (Inl e, a, st) \<Rightarrow> (Broke e, Suc visited, a, st)
      | (Inr on, a, st) \<Rightarrow> if on then visit_names limit visit names (Suc visited) a st else (Stopped, Suc visited, a, st))"

lemma visit_names_More:
  "visit_names limit visit names visited a st = (More, visited', a', st') \<Longrightarrow> visited' = visited + length names \<and> (names \<noteq> [] \<longrightarrow> visited' \<le> limit)"
proof (induction names arbitrary: visited a st)
  case (Cons name names)
  then show ?case by (cases "names = []") (force split: prod.splits sum.splits if_splits)+
qed simp

function each_batches :: "world \<Rightarrow> inode \<Rightarrow> nat \<Rightarrow> 'a visit \<Rightarrow> nat \<Rightarrow> nat \<Rightarrow> 'a \<Rightarrow> ws_state
    \<Rightarrow> visit_error option \<times> bool \<times> nat \<times> 'a \<times> ws_state" where
  "each_batches w f limit visit pos visited a st =
     (case read_names w f pos st of (names, err, st) \<Rightarrow>
        (case visit_names limit visit names visited a st of
           (Broke e, visited', a, st) \<Rightarrow> (Some e, False, visited', a, st)
         | (Stopped, visited', a, st) \<Rightarrow> (None, False, visited', a, st)
         | (Capped, visited', a, st) \<Rightarrow> (None, True, visited', a, st)
         | (More, visited', a, st) \<Rightarrow>
            (case err of
               Some e \<Rightarrow> (Some (Failed (Sys e)), False, visited', a, st)
             | None \<Rightarrow>
                if names = [] then (None, False, visited', a, st)
                else (case checkpoint w st of (ended, st) \<Rightarrow>
                  if ended then (Some Cancelled, False, visited', a, st)
                  else each_batches w f limit visit (pos + length names) visited' a st))))"
  by pat_completeness auto
termination
  by (relation "measure (\<lambda>(w, f, limit, visit, pos, visited, a, st). limit - visited)")
    (auto dest!: visit_names_More [OF sym] simp: neq_Nil_conv)

declare each_batches.simps [simp del]

definition eachName :: "ws_config \<Rightarrow> world \<Rightarrow> inode \<Rightarrow> nat \<Rightarrow> 'a visit \<Rightarrow> nat \<Rightarrow> 'a \<Rightarrow> ws_state
    \<Rightarrow> visit_error option \<times> bool \<times> nat \<times> 'a \<times> ws_state" where
  "eachName cf w dir limit visit visited a st =
     (case openIn cf w dir None st of
        (Inl e, st) \<Rightarrow> (Some (Failed e), False, visited, a, st)
      | (Inr f, st) \<Rightarrow>
         (case each_batches w f limit visit 0 visited a st of
            (err, capped, visited, a, st) \<Rightarrow> (err, capped, visited, a, release_handle st)))"

text \<open>The names a directory ever had.\<close>

definition names_of :: "world \<Rightarrow> inode \<Rightarrow> string set" where
  "names_of w f = (\<Union>t. set (fs_names (w_fs w t) f))"

lemma read_names_of: "read_names w f pos st = (names, err, st') \<Longrightarrow> set names \<subseteq> names_of w f"
  by (fastforce simp: read_names_def names_of_def Let_def split: option.splits dest: in_set_takeD in_set_dropD)

text \<open>
  What a visit owes the loop that calls it: an invariant of the names visited so far, of what was gathered and of the
  tools' state that every visit of a name of the directory keeps and the passing of time does not touch.
\<close>

locale visit_invariant =
  fixes w :: world and f :: inode and visit :: "'a visit" and I :: "nat \<Rightarrow> 'a \<Rightarrow> ws_state \<Rightarrow> bool"
  assumes step: "name \<in> names_of w f \<Longrightarrow> visit (Suc v) name a st = (r, a', st') \<Longrightarrow> I v a st \<Longrightarrow> I (Suc v) a' st'"
    and tick: "I v a st \<Longrightarrow> I v a (st\<lparr>st_clock := Suc (st_clock st)\<rparr>)"
begin

lemma names:
  "visit_names limit visit ns v a st = (e, v', a', st') \<Longrightarrow> I v a st \<Longrightarrow> set ns \<subseteq> names_of w f \<Longrightarrow>
     I v' a' st' \<and> v \<le> v' \<and> (v' \<le> limit \<or> v' = v)"
proof (induction ns arbitrary: v a st)
  case (Cons n ns)
  obtain r a1 st1 where vi: "visit (Suc v) n a st = (r, a1, st1)" by (metis prod_cases3)
  show ?case
  proof (cases "limit \<le> v \<or> r \<noteq> Inr True")
    case True
    with Cons.prems vi step [OF _ vi Cons.prems(2)] show ?thesis by (auto split: sum.splits if_splits)
  next
    case False
    with Cons.prems(1) vi have "visit_names limit visit ns (Suc v) a1 st1 = (e, v', a', st')" by simp
    from Cons.IH [OF this step [OF _ vi Cons.prems(2)]] Cons.prems(3) False show ?thesis by auto
  qed
qed simp

lemma batches:
  "each_batches w f limit visit pos v a st = (err, capped, v', a', st') \<Longrightarrow> I v a st \<Longrightarrow>
     I v' a' st' \<and> v \<le> v' \<and> (v' \<le> limit \<or> v' = v)"
proof (induction "limit - v" arbitrary: pos v a st rule: less_induct)
  case less
  obtain ns er st1 where rd: "read_names w f pos st = (ns, er, st1)" by (metis prod_cases3)
  have I1: "I v a st1" using rd tick [OF less.prems(2)] by (auto simp: read_names_def Let_def)
  obtain en v1 a1 st2 where vn: "visit_names limit visit ns v a st1 = (en, v1, a1, st2)" by (metis prod_cases4)
  note n = names [OF vn I1 read_names_of [OF rd]]
  obtain ended st3 where cp: "checkpoint w st2 = (ended, st3)" by fastforce
  have I3: "I v1 a1 st3" using cp n tick by (auto simp: checkpoint_def)
  show ?case
  proof (cases "en = More \<and> er = None \<and> ns \<noteq> [] \<and> \<not> ended")
    case True
    with less.prems(1) rd vn cp have again: "each_batches w f limit visit (pos + length ns) v1 a1 st3 = (err, capped, v', a', st')"
      by (simp add: each_batches.simps [of w f limit visit pos])
    have "limit - v1 < limit - v" using visit_names_More [of limit visit ns v a st1 v1 a1 st2] vn True by (auto simp: neq_Nil_conv)
    from less.hyps [OF this again I3] n show ?thesis by auto
  next
    case False
    with less.prems(1) rd vn cp have "v' = v1 \<and> a' = a1 \<and> (st' = st2 \<or> st' = st3)"
      by (auto simp: each_batches.simps [of w f limit visit pos] split: visit_end.splits option.splits if_splits)
    with n I3 show ?thesis by auto
  qed
qed

end

section \<open>One entry\<close>

definition describe :: "ws_config \<Rightarrow> world \<Rightarrow> inode \<Rightarrow> string \<Rightarrow> string \<Rightarrow> ws_state \<Rightarrow> (string \<times> file_info option \<times> bool) \<times> ws_state" where
  "describe cf w dir name rel st =
     (case lstat w dir name st of
        (Inl e, st) \<Rightarrow> (if e = ErrNotExist then ([], None, False) else (rel @ '' [unreadable]'', None, True), st)
      | (Inr info, st) \<Rightarrow>
         ((case fi_kind info of
             Symlink \<Rightarrow> rel @ '' [link]''
           | Directory \<Rightarrow> rel @ ''/''
           | NamedPipe \<Rightarrow> rel @ '' [fifo]''
           | OtherKind \<Rightarrow> rel @ '' [other]''
           | Regular \<Rightarrow> if LinkCount (cf_goos cf) info > 1 then rel @ '' [linked]'' else rel, Some info, True), st))"

definition fileOtherMount :: "ws_config \<Rightarrow> world \<Rightarrow> inode \<Rightarrow> string \<Rightarrow> file_info \<Rightarrow> ws_state \<Rightarrow> bool \<times> ws_state" where
  "fileOtherMount cf w dir name info st =
     (case open_name w dir name st of
        (Inl e, st) \<Rightarrow> (False, st)
      | (Inr f, st) \<Rightarrow>
         (case fstat w f (hold st) of
            (Inl e, st) \<Rightarrow> (False, release_handle st)
          | (Inr opened, st) \<Rightarrow>
             if fi_id opened \<noteq> fi_id info then (False, release_handle st)
             else (case wsfile_Check cf w f st of
                     (Inl e, st) \<Rightarrow> (False, release_handle st)
                   | (Inr facts, st) \<Rightarrow> (hf_Regular facts \<and> \<not> hf_SameMount facts, release_handle st))))"

text \<open>Whether an entry is another mount, and the line and information it then has.\<close>

definition check_mount :: "ws_config \<Rightarrow> world \<Rightarrow> walk_policy \<Rightarrow> inode \<Rightarrow> dir_node \<Rightarrow> string \<Rightarrow> string \<Rightarrow> string \<Rightarrow> file_info option \<Rightarrow> ws_state
    \<Rightarrow> (string \<times> file_info option) \<times> ws_state" where
  "check_mount cf w pol dir node name rel line info st =
     (case info of
        None \<Rightarrow> ((line, None), st)
      | Some i \<Rightarrow>
         if fi_kind i = Regular then
           (case fileOtherMount cf w dir name i st of (other, st) \<Rightarrow> (if other then (rel @ '' [mount]'', None) else (line, info), st))
         else if fi_kind i = Directory then
           (case node_child node name i st of (probe, st) \<Rightarrow>
             (case enter cf w pol dir probe st of
                (Inr r, st) \<Rightarrow> ((line, info), release_handle st)
              | (Inl e, st) \<Rightarrow> (if e = OtherMount then (rel @ ''/ [mount]'', None) else (line, info), st)))
         else ((line, info), st))"

record list_run =
  lr_entries :: "string list"
  lr_used :: nat
  lr_omitted :: nat
  lr_visited :: nat
  lr_capped :: bool
  lr_incomplete :: nat
  lr_queue :: "(dir_node \<times> nat) list"

abbreviation maxListEntries :: nat where "maxListEntries \<equiv> 2000"
abbreviation maxListVisited :: nat where "maxListVisited \<equiv> 20000"
abbreviation listCheckEvery :: nat where "listCheckEvery \<equiv> 64"

definition list_line :: "nat \<Rightarrow> string \<Rightarrow> list_run \<Rightarrow> list_run" where
  "list_line room line r =
     (if length (lr_entries r) < maxListEntries \<and> lr_used r + length line + 1 \<le> room
      then r\<lparr>lr_entries := lr_entries r @ [line], lr_used := lr_used r + length line + 1\<rparr>
      else r\<lparr>lr_omitted := lr_omitted r + 1\<rparr>)"

definition list_entry :: "ws_config \<Rightarrow> world \<Rightarrow> walk_policy \<Rightarrow> nat \<Rightarrow> nat \<Rightarrow> inode \<Rightarrow> dir_node \<Rightarrow> nat \<Rightarrow> string \<Rightarrow> list_run \<Rightarrow> ws_state
    \<Rightarrow> list_run \<times> ws_state" where
  "list_entry cf w pol room depth dir node level name r st =
     (if hiddenName name then (r, st)
      else let rel = path_Join [dn_rel node, name] in
        (case describe cf w dir name rel st of ((line, info, exists), st) \<Rightarrow>
          (case check_mount cf w pol dir node name rel line info st of ((line, info), st) \<Rightarrow>
             if \<not> exists then (r, st)
             else (case info of
                     Some i \<Rightarrow>
                       if fi_kind i = Directory \<and> level < depth
                       then (case node_child node name i st of (child, st) \<Rightarrow>
                              (list_line room line (r\<lparr>lr_queue := lr_queue r @ [(child, level + 1)]\<rparr>), st))
                       else (list_line room line r, st)
                   | None \<Rightarrow> (list_line room line r, st)))))"

text \<open>The sorted names of a directory, from the \<open>i\<close>-th on; \<open>None\<close> when the call was cancelled.\<close>

fun list_entries :: "ws_config \<Rightarrow> world \<Rightarrow> walk_policy \<Rightarrow> nat \<Rightarrow> nat \<Rightarrow> inode \<Rightarrow> dir_node \<Rightarrow> nat \<Rightarrow> nat \<Rightarrow> string list \<Rightarrow> list_run \<Rightarrow> ws_state
    \<Rightarrow> list_run option \<times> ws_state" where
  "list_entries cf w pol room depth dir node level i [] r st = (Some r, st)"
| "list_entries cf w pol room depth dir node level i (name # names) r st =
     (case (if (i + 1) mod listCheckEvery = 0 then checkpoint w st else (False, st)) of (ended, st) \<Rightarrow>
        if ended then (None, st)
        else (case list_entry cf w pol room depth dir node level name r st of (r, st) \<Rightarrow>
          list_entries cf w pol room depth dir node level (i + 1) names r st))"

section \<open>The walk\<close>

text \<open>A visited name: outside tests the two checks of cancellation are the same.\<close>

definition list_visit :: "world \<Rightarrow> string list visit" where
  "list_visit w visited name names st =
     (case checkpoint w st of (ended, st) \<Rightarrow> if ended then (Inl Cancelled, names, st) else (Inr True, names @ [name], st))"

datatype list_next = ListStop tool_answer | ListGo list_run

definition list_error :: "ws_config \<Rightarrow> ws_code \<Rightarrow> string \<Rightarrow> tool_answer" where
  "list_error cf code rel = Answer (workbenchError (cf_printable cf) ''list_files'' code rel)"

text \<open>What becomes of a directory whose names could not all be read.\<close>

definition list_settle :: "ws_config \<Rightarrow> string \<Rightarrow> nat \<Rightarrow> bool \<Rightarrow> visit_error option \<Rightarrow> list_run \<Rightarrow> list_next" where
  "list_settle cf shown level unseen err r =
     (case err of
        None \<Rightarrow> ListGo r
      | Some e \<Rightarrow>
         if e = Failed Hidden then (if level = 1 then ListStop (list_error cf PathNotListed shown) else ListGo r)
         else if level = 1 \<and> unseen
         then ListStop (list_error cf (case e of Failed e \<Rightarrow> rootFailure e | Cancelled \<Rightarrow> FileUnreadable) shown)
         else ListGo (r\<lparr>lr_incomplete := lr_incomplete r + 1\<rparr>))"

definition list_dir :: "ws_config \<Rightarrow> world \<Rightarrow> nat \<Rightarrow> nat \<Rightarrow> nat \<Rightarrow> string \<Rightarrow> dir_node \<Rightarrow> nat \<Rightarrow> list_run \<Rightarrow> cursor \<Rightarrow> ws_state
    \<Rightarrow> list_next \<times> cursor \<times> ws_state" where
  "list_dir cf w limit room depth shown node level r c st =
     (case checkpoint w st of (ended, st) \<Rightarrow>
        if ended then (ListStop Interrupted, c, st)
        else (case cursor_to cf w node c st of
                (Inl e, c, st) \<Rightarrow>
                  (case checkpoint w st of (ended, st) \<Rightarrow>
                     if ended then (ListStop Interrupted, c, st)
                     else (list_settle cf shown level True (Some (Failed e)) r, c, st))
              | (Inr dir, c, st) \<Rightarrow>
                  (case eachName cf w dir limit (list_visit w) (lr_visited r) [] st of (err, capped, visited, names, st) \<Rightarrow>
                    (case list_entries cf w (cu_policy c) room depth dir node level 0 (sort names)
                         (r\<lparr>lr_visited := visited, lr_capped := capped\<rparr>) st of
                       (None, st) \<Rightarrow> (ListStop Interrupted, c, st)
                     | (Some r', st) \<Rightarrow>
                        (case checkpoint w st of (ended, st) \<Rightarrow>
                           if ended then (ListStop Interrupted, c, st)
                           else (list_settle cf shown level (visited = lr_visited r) err r', c, st))))))"

section \<open>What a walk keeps\<close>

text \<open>No change, the same handles as before, and addresses given out stay given out.\<close>

definition keeps :: "ws_state \<Rightarrow> ws_state \<Rightarrow> bool" where
  "keeps st st' \<longleftrightarrow> st_handles st' = st_handles st \<and> st_log st' = st_log st \<and> st_fresh st \<le> st_fresh st'"

lemma keeps_refl [simp]: "keeps st st"
  by (simp add: keeps_def)

lemma keeps_trans: "keeps st1 st2 \<Longrightarrow> keeps st2 st3 \<Longrightarrow> keeps st1 st3"
  by (simp add: keeps_def)

lemma call_keeps:
  "checkpoint w st = (b, st') \<Longrightarrow> keeps st st'"
  "lstat w d n st = (x, st') \<Longrightarrow> keeps st st'"
  "fstat w i st = (x, st') \<Longrightarrow> keeps st st'"
  "open_name w d n st = (y, st') \<Longrightarrow> keeps st st'"
  "wsfile_Check cf w i st = (z, st') \<Longrightarrow> keeps st st'"
  "node_child nd n fi st = (c, st') \<Longrightarrow> keeps st st'"
  using checkpoint_state lstat_state fstat_state open_name_state Check_state by (fastforce simp: keeps_def node_child_def)+

lemma describe_keeps: "describe cf w dir name rel st = (x, st') \<Longrightarrow> keeps st st'"
  by (auto simp: describe_def split: prod.splits sum.splits dest: call_keeps(2))

lemma fileOtherMount_keeps: "fileOtherMount cf w dir name info st = (x, st') \<Longrightarrow> keeps st st'"
  by (auto simp: fileOtherMount_def keeps_def hold_def release_handle_def split: prod.splits sum.splits if_splits
      dest!: open_name_state fstat_state Check_state)

lemma check_mount_keeps: "check_mount cf w pol dir node name rel line info st = (x, st') \<Longrightarrow> keeps st st'"
  by (auto simp: check_mount_def keeps_def node_child_def release_handle_def split: prod.splits sum.splits if_splits option.splits
      dest!: fileOtherMount_keeps enter_sound(1))

text \<open>The lines an entry can have.\<close>

definition entry_lines :: "string \<Rightarrow> string set" where
  "entry_lines rel = {rel, rel @ ''/'', rel @ '' [link]'', rel @ '' [fifo]'', rel @ '' [other]'', rel @ '' [linked]'',
     rel @ '' [unreadable]'', rel @ '' [mount]'', rel @ ''/ [mount]''}"

lemma describe_line: "describe cf w dir name rel st = ((line, info, True), st') \<Longrightarrow> line \<in> entry_lines rel"
  by (auto simp: describe_def entry_lines_def split: prod.splits sum.splits if_splits kind.splits)

lemma check_mount_line:
  "check_mount cf w pol dir node name rel line info st = ((line', info'), st') \<Longrightarrow> line' \<in> {line, rel @ '' [mount]'', rel @ ''/ [mount]''}"
  by (auto simp: check_mount_def split: prod.splits sum.splits if_splits option.splits)

text \<open>What a step adds to a listing: at most one directory to visit and one line.\<close>

definition list_adds :: "string set \<Rightarrow> nat \<Rightarrow> nat \<Rightarrow> list_run \<Rightarrow> list_run \<Rightarrow> bool" where
  "list_adds lines room n r r' \<longleftrightarrow> lr_visited r' = lr_visited r \<and> lr_capped r' = lr_capped r \<and> lr_incomplete r' = lr_incomplete r
     \<and> length (lr_queue r') \<le> length (lr_queue r) + n \<and> lr_omitted r' \<le> lr_omitted r + n
     \<and> (\<exists>new. lr_entries r' = lr_entries r @ new \<and> set new \<subseteq> lines \<and> (length (lr_entries r) \<le> maxListEntries \<longrightarrow> length (lr_entries r') \<le> maxListEntries)
          \<and> lr_used r' = lr_used r + sum_list (map (\<lambda>l. length l + 1) new) \<and> (lr_used r \<le> room \<longrightarrow> lr_used r' \<le> room))"

lemma list_adds_refl [simp]: "list_adds lines room n r r"
  by (simp add: list_adds_def)

lemma list_adds_trans: "list_adds lines room m r1 r2 \<Longrightarrow> list_adds lines room n r2 r3 \<Longrightarrow> list_adds lines room (m + n) r1 r3"
  by (fastforce simp: list_adds_def)

lemma list_line_adds: "line \<in> lines \<Longrightarrow> list_adds lines room 1 r (list_line room line r)"
  by (auto simp: list_adds_def list_line_def)

lemma list_entry_adds:
  assumes "list_entry cf w pol room depth dir node level name r st = (r', st')"
  shows "keeps st st' \<and> list_adds {l. \<not> hiddenName name \<and> l \<in> entry_lines (path_Join [dn_rel node, name])} room 1 r r'"
proof (cases "hiddenName name")
  case False
  let ?rel = "path_Join [dn_rel node, name]"
  let ?L = "{l. \<not> hiddenName name \<and> l \<in> entry_lines ?rel}"
  obtain line info exists st1 where d: "describe cf w dir name ?rel st = ((line, info, exists), st1)" by (metis prod_cases3 surj_pair)
  obtain line' info' st2 where m: "check_mount cf w pol dir node name ?rel line info st1 = ((line', info'), st2)" by (metis surj_pair)
  have k: "keeps st st2" using describe_keeps [OF d] check_mount_keeps [OF m] keeps_trans by blast
  show ?thesis
  proof (cases exists)
    case True
    have "line' \<in> ?L" using describe_line d check_mount_line [OF m] False True by (fastforce simp: entry_lines_def)
    note line = list_line_adds [OF this, of room]
    have q: "list_adds ?L room 1 r (list_line room line' (r\<lparr>lr_queue := lr_queue r @ [x]\<rparr>))" for x
      using line [of "r\<lparr>lr_queue := lr_queue r @ [x]\<rparr>"] by (auto simp: list_adds_def list_line_def)
    show ?thesis
      using assms False d m True k q line [of r]
      by (auto simp: list_entry_def Let_def node_child_def keeps_def split: option.splits if_splits)
  qed (use assms False d m k in \<open>auto simp: list_entry_def\<close>)
qed (use assms in \<open>auto simp: list_entry_def\<close>)

definition listed_lines :: "string \<Rightarrow> string set \<Rightarrow> string set" where
  "listed_lines rel names = (\<Union>name \<in> {n \<in> names. \<not> hiddenName n}. entry_lines (path_Join [rel, name]))"

lemma list_adds_mono: "list_adds lines room n r r' \<Longrightarrow> lines \<subseteq> lines' \<Longrightarrow> list_adds lines' room n r r'"
  unfolding list_adds_def by blast

lemma list_entries_adds:
  "list_entries cf w pol room depth dir node level i names r st = (x, st') \<Longrightarrow> set names \<subseteq> all \<Longrightarrow>
     keeps st st' \<and> (\<forall>r'. x = Some r' \<longrightarrow> list_adds (listed_lines (dn_rel node) all) room (length names) r r')"
proof (induction names arbitrary: i r st)
  case (Cons name names)
  obtain ended st1 where cp: "(if (i + 1) mod listCheckEvery = 0 then checkpoint w st else (False, st)) = (ended, st1)" by fastforce
  have k1: "keeps st st1" using cp call_keeps(1) by (auto split: if_splits)
  show ?case
  proof (cases ended)
    case False
    obtain r1 st2 where e: "list_entry cf w pol room depth dir node level name r st1 = (r1, st2)" by fastforce
    from Cons.prems(1) cp e False have "list_entries cf w pol room depth dir node level (i + 1) names r1 st2 = (x, st')" by simp
    note rest = Cons.IH [OF this] note one = list_entry_adds [OF e]
    have "list_adds (listed_lines (dn_rel node) all) room 1 r r1"
      by (rule list_adds_mono [OF conjunct2 [OF one]]) (use Cons.prems(2) in \<open>auto simp: listed_lines_def\<close>)
    then show ?thesis using rest one k1 keeps_trans Cons.prems(2) list_adds_trans [of _ room 1 r r1 "length names"] by force
  qed (use Cons.prems(1) cp k1 in auto)
qed auto

text \<open>The nodes on the queue.\<close>

definition queued :: "list_run \<Rightarrow> dir_node set" where
  "queued r = fst ` set (lr_queue r)"

lemma list_line_queue [simp]: "lr_queue (list_line room line r) = lr_queue r"
  by (simp add: list_line_def)

lemma list_entry_nodes:
  assumes "list_entry cf w pol room depth dir node level name r st = (r', st')" "nodes_ok cf w st c (insert node (queued r))"
  shows "nodes_ok cf w st' c (insert node (queued r'))"
proof -
  let ?rel = "path_Join [dn_rel node, name]"
  obtain line info exists st1 where d: "describe cf w dir name ?rel st = ((line, info, exists), st1)" by (metis prod_cases3 surj_pair)
  obtain line' info' st2 where m: "check_mount cf w pol dir node name ?rel line info st1 = ((line', info'), st2)" by (metis surj_pair)
  have "st_fresh st \<le> st_fresh st2"
    using describe_keeps [OF d] check_mount_keeps [OF m] by (auto simp: keeps_def)
  note n2 = nodes_ok_mono [OF assms(2) subset_refl this]
  consider "queued r' = queued r" "st' = st \<or> st' = st2" | i child where "node_child node name i st2 = (child, st')" "queued r' = insert child (queued r)"
    using assms(1) d m
    by (auto simp: list_entry_def Let_def queued_def split: if_splits option.splits prod.splits)
  then show ?thesis
  proof cases
    case 2
    then show ?thesis using nodes_ok_child [OF n2 insertI1 2(1)] by (simp add: insert_commute)
  qed (use assms(2) n2 in auto)
qed

lemma list_entries_nodes:
  "list_entries cf w pol room depth dir node level i names r st = (Some r', st') \<Longrightarrow> nodes_ok cf w st c (insert node (queued r))
     \<Longrightarrow> nodes_ok cf w st' c (insert node (queued r'))"
proof (induction names arbitrary: i r st)
  case (Cons name names)
  obtain ended st1 where cp: "(if (i + 1) mod listCheckEvery = 0 then checkpoint w st else (False, st)) = (ended, st1)" by fastforce
  have "st_fresh st \<le> st_fresh st1" using cp by (auto simp: checkpoint_def split: if_splits)
  note n1 = nodes_ok_mono [OF Cons.prems(2) subset_refl this]
  obtain r1 st2 where e: "list_entry cf w pol room depth dir node level name r st1 = (r1, st2)" by fastforce
  have "list_entries cf w pol room depth dir node level (i + 1) names r1 st2 = (Some r', st')"
    using Cons.prems(1) cp e by (auto split: if_splits)
  from Cons.IH [OF this list_entry_nodes [OF e n1]] show ?case .
qed simp

text \<open>The names of a directory: each was in it, and each was counted.\<close>

interpretation list_names: visit_invariant w f "list_visit w" "\<lambda>v a st. length a + v0 \<le> v \<and> set a \<subseteq> names_of w f \<and> keeps st0 st"
  for w f v0 st0
  by unfold_locales (auto simp: list_visit_def keeps_def split: prod.splits if_splits dest!: checkpoint_state)

lemma eachName_list:
  assumes "eachName cf w dir limit (list_visit w) v [] st = (err, capped, v', names, st')"
  shows "keeps st st' \<and> set names \<subseteq> names_of w dir \<and> length names \<le> v' - v \<and> v \<le> v' \<and> (v' \<le> limit \<or> v' = v)"
proof -
  obtain x st1 where o: "openIn cf w dir None st = (x, st1)" by fastforce
  show ?thesis
  proof (cases x)
    case (Inl e)
    with assms o openIn_sound(1) [OF o] show ?thesis by (auto simp: eachName_def keeps_def)
  next
    case (Inr f)
    have f: "f = dir" using o Inr by (auto simp: openIn_def split: prod.splits sum.splits if_splits dest: open_self_Inr)
    obtain er cp v1 a1 st2 where b: "each_batches w f limit (list_visit w) 0 v [] st1 = (er, cp, v1, a1, st2)" by (metis prod_cases5)
    from list_names.batches [OF b, of v st1] have "length a1 + v \<le> v1" "set a1 \<subseteq> names_of w f" "keeps st1 st2" "v \<le> v1" "v1 \<le> limit \<or> v1 = v" by auto
    with assms o Inr b f openIn_sound(1) [OF o] show ?thesis by (auto simp: eachName_def keeps_def release_handle_def)
  qed
qed

text \<open>
  A line that may be shown: of a name that is not hidden, read in a directory that was reached from the root through
  names that are not hidden, under the path those names make.
\<close>

definition listed :: "ws_config \<Rightarrow> world \<Rightarrow> string set" where
  "listed cf w = {l. \<exists>names d. reached w hiddenName (cf_root cf) names d \<and> l \<in> listed_lines (rel_of names) (names_of w d)}"

definition list_grows :: "ws_config \<Rightarrow> world \<Rightarrow> nat \<Rightarrow> nat \<Rightarrow> list_run \<Rightarrow> list_run \<Rightarrow> bool" where
  "list_grows cf w limit room r r' \<longleftrightarrow> lr_visited r \<le> lr_visited r' \<and> (lr_visited r' \<le> limit \<or> lr_visited r' = lr_visited r)
     \<and> list_adds (listed cf w) room (lr_visited r' - lr_visited r) (r\<lparr>lr_visited := lr_visited r', lr_capped := lr_capped r', lr_incomplete := lr_incomplete r'\<rparr>) r'"

lemma listPolicy_hides [simp]: "wp_hides listPolicy = hiddenName"
  by (simp add: listPolicy_def)

text \<open>What reading a directory keeps of the cursor.\<close>

definition walk_keeps :: "ws_config \<Rightarrow> world \<Rightarrow> cursor \<times> ws_state \<Rightarrow> cursor \<times> ws_state \<Rightarrow> bool" where
  "walk_keeps cf w x y \<longleftrightarrow> cursor_ok cf w (fst y) \<and> cu_policy (fst y) = cu_policy (fst x) \<and> st_log (snd y) = st_log (snd x)
     \<and> st_fresh (snd x) \<le> st_fresh (snd y) \<and> st_handles (snd y) - int (length (cu_roots (fst y))) = st_handles (snd x) - int (length (cu_roots (fst x)))"

lemma walk_keeps_trans: "walk_keeps cf w x y \<Longrightarrow> walk_keeps cf w y z \<Longrightarrow> walk_keeps cf w x z"
  by (simp add: walk_keeps_def)

lemma walk_keeps_after: "walk_keeps cf w x (c, st) \<Longrightarrow> keeps st st' \<Longrightarrow> walk_keeps cf w x (c, st')"
  by (simp add: walk_keeps_def keeps_def)

lemma walk_keeps_before: "walk_keeps cf w (c, st') x \<Longrightarrow> keeps st st' \<Longrightarrow> walk_keeps cf w (c, st) x"
  by (simp add: walk_keeps_def keeps_def)

lemma walk_keeps_refl: "cursor_ok cf w c \<Longrightarrow> walk_keeps cf w (c, st) (c, st)"
  by (simp add: walk_keeps_def)

lemma cursor_to_keeps: "cursor_to cf w n c st = (x, c', st') \<Longrightarrow> cursor_ok cf w c \<Longrightarrow> walk_keeps cf w (c, st) (c', st')"
  using cursor_to_sound [of cf w n c st x c' st'] by (simp add: walk_keeps_def)

lemma list_settle_cases:
  assumes "list_settle cf shown level unseen err r = x"
  shows "(\<exists>code. x = ListStop (list_error cf code shown)) \<or> x = ListGo r \<or> x = ListGo (r\<lparr>lr_incomplete := lr_incomplete r + 1\<rparr>)"
  using assms by (auto simp: list_settle_def split: option.splits if_splits visit_error.splits)

lemma list_dir_sound:
  assumes "list_dir cf w limit room depth shown node level r c st = (x, c', st')" "nodes_ok cf w st c (insert node (queued r))" "cu_policy c = listPolicy"
  shows "walk_keeps cf w (c, st) (c', st')
    \<and> (\<forall>a. x = ListStop a \<longrightarrow> a = Interrupted \<or> (\<exists>code. a = list_error cf code shown))
    \<and> (\<forall>r'. x = ListGo r' \<longrightarrow> list_grows cf w limit room r r' \<and> lr_incomplete r' \<le> lr_incomplete r + 1 \<and> nodes_ok cf w st' c' (queued r'))"
proof -
  have ok: "cursor_ok cf w c" using nodes_ok_cursor [OF assms(2)] by simp
  obtain ended st1 where cp: "checkpoint w st = (ended, st1)" by fastforce
  note k1 = call_keeps(1) [OF cp]
  obtain d c1 st2 where to: "cursor_to cf w node c st1 = (d, c1, st2)" by (metis prod_cases3)
  have w2: "walk_keeps cf w (c, st) (c1, st2)" by (rule walk_keeps_before [OF cursor_to_keeps [OF to ok] k1])
  have n1: "nodes_ok cf w st1 c (insert node (queued r))" by (rule nodes_ok_mono [OF assms(2)]) (use k1 in \<open>auto simp: keeps_def\<close>)
  note n2 = cursor_to_nodes [OF to n1 insertI1]
  have q: "queued (s\<lparr>lr_incomplete := n\<rparr>) = queued s" "queued (s\<lparr>lr_visited := v, lr_capped := b\<rparr>) = queued s" for s n v b by (simp_all add: queued_def)
  consider (ended) ended | (lost) e where "\<not> ended" "d = Inl e" | (read) dir where "\<not> ended" "d = Inr dir" by (cases d) auto
  then show ?thesis
  proof cases
    case ended
    with assms(1) cp have "x = ListStop Interrupted" "c' = c" "st' = st1" by (auto simp: list_dir_def)
    then show ?thesis using walk_keeps_after [OF walk_keeps_refl [OF ok] k1] by simp
  next
    case lost
    obtain en st3 where cp2: "checkpoint w st2 = (en, st3)" by fastforce
    from assms(1) cp lost to cp2 have x: "x = (if en then ListStop Interrupted else list_settle cf shown level True (Some (Failed e)) r)" "c' = c1" "st' = st3"
      by (auto simp: list_dir_def split: if_splits)
    have "walk_keeps cf w (c, st) (c', st')" using walk_keeps_after [OF w2 call_keeps(1) [OF cp2]] x by simp
    moreover have "list_grows cf w limit room r (r\<lparr>lr_incomplete := n\<rparr>)" "list_grows cf w limit room r r" for n by (simp_all add: list_grows_def)
    moreover have "nodes_ok cf w st' c' (queued r)"
      by (rule nodes_ok_mono [OF conjunct1 [OF n2, folded x(2)]]) (use x(3) call_keeps(1) [OF cp2] in \<open>auto simp: keeps_def\<close>)
    ultimately show ?thesis using x q list_settle_cases [of cf shown level True "Some (Failed e)" r] by (auto split: if_splits)
  next
    case read
    obtain err capped v names st3 where en: "eachName cf w dir limit (list_visit w) (lr_visited r) [] st2 = (err, capped, v, names, st3)" by (metis prod_cases5)
    note n = eachName_list [OF en]
    let ?r = "r\<lparr>lr_visited := v, lr_capped := capped\<rparr>"
    obtain y st4 where le: "list_entries cf w (cu_policy c1) room depth dir node level 0 (sort names) ?r st3 = (y, st4)" by fastforce
    obtain e5 st5 where cp5: "checkpoint w st4 = (e5, st5)" by fastforce
    have pol: "cu_policy c1 = listPolicy" using w2 assms(3) by (simp add: walk_keeps_def)
    have "reached w hiddenName (cf_root cf) (node_names node) dir" using n2 read(2) assms(3) by auto
    moreover have "dn_rel node = rel_of (node_names node)" using assms(2) rel_ok_eq by (auto simp: nodes_ok_def)
    ultimately have sub: "listed_lines (dn_rel node) (names_of w dir) \<subseteq> listed cf w" by (auto simp: listed_def)
    have n3: "nodes_ok cf w st3 c1 (insert node (queued ?r))"
      by (rule nodes_ok_mono [OF conjunct1 [OF n2]]) (use n q in \<open>auto simp: keeps_def\<close>)
    from list_entries_adds [OF le, of "names_of w dir"] n have k4: "keeps st3 st4"
      and adds: "y = Some r' \<Longrightarrow> list_adds (listed_lines (dn_rel node) (names_of w dir)) room (length names) ?r r'" for r' by auto
    have w4: "walk_keeps cf w (c, st) (c1, st4)" using walk_keeps_after [OF walk_keeps_after [OF w2]] n k4 by blast
    have w5: "walk_keeps cf w (c, st) (c1, st5)" using walk_keeps_after [OF w4 call_keeps(1) [OF cp5]] .
    show ?thesis
    proof (cases "y = None \<or> e5")
      case True
      with assms(1) cp read to en le cp5 have "x = ListStop Interrupted" "c' = c1" "st' = st4 \<or> st' = st5"
        by (auto simp: list_dir_def split: option.splits)
      then show ?thesis using w4 w5 by auto
    next
      case False
      then obtain r1 where y: "y = Some r1" "\<not> e5" by auto
      with assms(1) cp read to en le cp5 have x: "x = list_settle cf shown level (v = lr_visited r) err r1" "c' = c1" "st' = st5"
        by (auto simp: list_dir_def)
      have a1: "list_adds (listed cf w) room (length names) ?r r1" by (rule list_adds_mono [OF adds [OF y(1)] sub])
      have "list_grows cf w limit room r r1" "list_grows cf w limit room r (r1\<lparr>lr_incomplete := lr_incomplete r1 + 1\<rparr>)" "lr_incomplete r1 = lr_incomplete r"
        using a1 n by (auto simp: list_grows_def list_adds_def)
      moreover have "nodes_ok cf w st' c' (queued r1)"
        by (rule nodes_ok_mono [OF list_entries_nodes [OF le [unfolded y(1)] n3, folded x(2)]]) (use x(3) call_keeps(1) [OF cp5] in \<open>auto simp: keeps_def\<close>)
      ultimately show ?thesis using x w5 q list_settle_cases [OF x(1) [symmetric]] by auto
    qed
  qed
qed

lemma list_dir_counts:
  assumes "list_dir cf w limit room depth shown node level r c st = (ListGo r', c', st')"
  shows "(limit - lr_visited r') + length (lr_queue r') \<le> (limit - lr_visited r) + length (lr_queue r)"
proof -
  obtain ended st1 where cp: "checkpoint w st = (ended, st1)" by fastforce
  obtain d c1 st2 where to: "cursor_to cf w node c st1 = (d, c1, st2)" by (metis prod_cases3)
  have go: "\<not> ended" using assms cp by (auto simp: list_dir_def)
  show ?thesis
  proof (cases d)
    case (Inl e)
    with assms cp to go have "list_settle cf shown level True (Some (Failed e)) r = ListGo r'"
      by (auto simp: list_dir_def split: prod.splits if_splits)
    from list_settle_cases [OF this] show ?thesis by auto
  next
    case (Inr dir)
    obtain err capped v names st3 where en: "eachName cf w dir limit (list_visit w) (lr_visited r) [] st2 = (err, capped, v, names, st3)" by (metis prod_cases5)
    let ?r = "r\<lparr>lr_visited := v, lr_capped := capped\<rparr>"
    obtain y st4 where le: "list_entries cf w (cu_policy c1) room depth dir node level 0 (sort names) ?r st3 = (y, st4)" by fastforce
    from assms cp to go Inr en le obtain r1 where y: "y = Some r1" "list_settle cf shown level (v = lr_visited r) err r1 = ListGo r'"
      by (auto simp: list_dir_def split: prod.splits option.splits if_splits)
    from list_entries_adds [OF le, of UNIV] y(1) have "list_adds (listed_lines (dn_rel node) UNIV) room (length names) ?r r1" by simp
    with eachName_list [OF en] list_settle_cases [OF y(2)] show ?thesis by (auto simp: list_adds_def)
  qed
qed

text \<open>The walk. It ends: a directory is taken from the queue for every one that was put there by a name visited before.\<close>

function list_loop :: "ws_config \<Rightarrow> world \<Rightarrow> nat \<Rightarrow> nat \<Rightarrow> nat \<Rightarrow> string \<Rightarrow> list_run \<Rightarrow> cursor \<Rightarrow> ws_state \<Rightarrow> list_next \<times> cursor \<times> ws_state" where
  "list_loop cf w limit room depth shown r c st =
     (case lr_queue r of
        [] \<Rightarrow> (ListGo r, c, st)
      | (node, level) # queue \<Rightarrow>
         if lr_capped r then (ListGo r, c, st)
         else (case list_dir cf w limit room depth shown node level (r\<lparr>lr_queue := queue\<rparr>) c st of
                 (ListStop a, c, st) \<Rightarrow> (ListStop a, c, st)
               | (ListGo r, c, st) \<Rightarrow> list_loop cf w limit room depth shown r c st))"
  by pat_completeness auto
termination
proof (relation "measure (\<lambda>(cf, w, limit, room, depth, shown, r, c, st). (limit - lr_visited r) + length (lr_queue r))", goal_cases)
  case (2 cf w limit room depth shown r c st nl queue node level x y r' c' st')
  then have "list_dir cf w limit room depth shown node level (r\<lparr>lr_queue := queue\<rparr>) c st = (ListGo r', c', st')" by simp
  from list_dir_counts [OF this] 2(1) show ?case by simp
qed simp

declare list_loop.simps [simp del]

section \<open>list\_files\<close>

record list_args =
  la_Path :: string
  la_Depth :: "int option"

definition list_notes :: "list_run \<Rightarrow> string list" where
  "list_notes r =
     (if lr_capped r then [''[list_files: '' @ strconv_Itoa (length (lr_entries r)) @ '' entries shown; the listing stopped after ''
          @ strconv_Itoa (lr_visited r) @ '' names, so more were left out. Narrow it with path or depth]'']
      else if lr_omitted r > 0 then [''[list_files: '' @ strconv_Itoa (length (lr_entries r)) @ '' entries shown; ''
          @ strconv_Itoa (lr_omitted r) @ '' omitted. Narrow it with path or depth]'']
      else [])
     @ (if lr_incomplete r > 0 then [''[list_files: '' @ strconv_Itoa (lr_incomplete r)
          @ '' directories could not be read in full, so this listing is incomplete]''] else [])"

definition list_text :: "list_run \<Rightarrow> string" where
  "list_text r =
     (if lr_entries r = [] \<and> list_notes r = [] then ''[list_files: the directory is empty]''
      else strings_Join (sort (lr_entries r) @ list_notes r) [CHR 0x0A])"

definition list_depth :: "int option \<Rightarrow> nat" where
  "list_depth d = (case d of None \<Rightarrow> 2 | Some n \<Rightarrow> nat (min (max n 1) 8))"

definition list_start :: "dir_node \<Rightarrow> list_run" where
  "list_start node = \<lparr>lr_entries = [], lr_used = 0, lr_omitted = 0, lr_visited = 0, lr_capped = False, lr_incomplete = 0, lr_queue = [(node, 1)]\<rparr>"

definition list_clean :: "ws_config \<Rightarrow> world \<Rightarrow> string \<Rightarrow> nat \<Rightarrow> ws_state \<Rightarrow> tool_answer \<times> ws_state" where
  "list_clean cf w clean depth st =
     (let shown = (if clean = ''.'' then [] else clean) in
      case rootNode cf w st of
        (Inl e, st) \<Rightarrow> (list_error cf FileUnreadable shown, st)
      | (Inr root, st) \<Rightarrow>
         (case listTarget cf w (newCursor cf root listPolicy) root clean st of
            (Inl code, c, st) \<Rightarrow> (list_error cf code shown, cursor_close c st)
          | (Inr node, c, st) \<Rightarrow>
             (case list_loop cf w maxListVisited (room_of (cf_budget cf)) depth shown (list_start node) c st of
                (ListStop a, c, st) \<Rightarrow> (a, cursor_close c st)
              | (ListGo r, c, st) \<Rightarrow> (Answer \<lparr>wr_Content = list_text r, wr_IsError = False\<rparr>, cursor_close c st))))"

definition listFiles :: "ws_config \<Rightarrow> world \<Rightarrow> list_args option \<Rightarrow> ws_state \<Rightarrow> tool_answer \<times> ws_state" where
  "listFiles cf w args st =
     (case args of
        None \<Rightarrow> (list_error cf ArgumentsInvalid [], st)
      | Some a \<Rightarrow>
         (case resolveName (cf_goos cf) (la_Path a) True of
            Inl code \<Rightarrow> (list_error cf code (la_Path a), st)
          | Inr clean \<Rightarrow> list_clean cf w clean (list_depth (la_Depth a)) st))"

section \<open>What a listing shows\<close>

lemma list_grows_trans:
  assumes "list_grows cf w limit room r1 r2" "list_grows cf w limit room r2 r3"
  shows "list_grows cf w limit room r1 r3"
proof -
  let ?r = "\<lambda>r. r\<lparr>lr_visited := lr_visited r3, lr_capped := lr_capped r3, lr_incomplete := lr_incomplete r3\<rparr>"
  have "list_adds (listed cf w) room (lr_visited r2 - lr_visited r1) (?r r1) (?r r2)"
    using assms by (auto simp: list_grows_def list_adds_def)
  from list_adds_trans [OF this, of "lr_visited r3 - lr_visited r2" r3] assms show ?thesis
    by (auto simp: list_grows_def)
qed

lemma list_grows_queue: "list_grows cf w limit room (r\<lparr>lr_queue := q\<rparr>) r' \<Longrightarrow> length q \<le> length (lr_queue r) \<Longrightarrow> list_grows cf w limit room r r'"
  by (auto simp: list_grows_def list_adds_def)

lemma list_loop_sound:
  "list_loop cf w limit room depth shown r c st = (x, c', st') \<Longrightarrow> nodes_ok cf w st c (queued r) \<Longrightarrow> cu_policy c = listPolicy \<Longrightarrow>
     walk_keeps cf w (c, st) (c', st')
    \<and> (\<forall>a. x = ListStop a \<longrightarrow> a = Interrupted \<or> (\<exists>code. a = list_error cf code shown))
    \<and> (\<forall>r'. x = ListGo r' \<longrightarrow> list_grows cf w limit room r r'
         \<and> lr_incomplete r' + length (lr_queue r') \<le> lr_incomplete r + length (lr_queue r) + (lr_visited r' - lr_visited r))"
proof (induction "(limit - lr_visited r) + length (lr_queue r)" arbitrary: r c st rule: less_induct)
  case less
  show ?case
  proof (cases "lr_queue r = [] \<or> lr_capped r")
    case True
    with less.prems(1) have "x = ListGo r" "c' = c" "st' = st" by (auto simp: list_loop.simps [of _ _ _ _ _ _ r] split: list.splits)
    then show ?thesis using walk_keeps_refl nodes_ok_cursor [OF less.prems(2)] by (simp add: list_grows_def)
  next
    case False
    then obtain node level queue where q: "lr_queue r = (node, level) # queue" by (metis neq_Nil_conv surj_pair)
    obtain y c1 st1 where d: "list_dir cf w limit room depth shown node level (r\<lparr>lr_queue := queue\<rparr>) c st = (y, c1, st1)" by (metis prod_cases3)
    have n: "nodes_ok cf w st c (insert node (queued (r\<lparr>lr_queue := queue\<rparr>)))" using less.prems(2) q by (simp add: queued_def)
    note s = list_dir_sound [OF d n less.prems(3)]
    have run: "(x, c', st') = (case y of ListStop a \<Rightarrow> (ListStop a, c1, st1) | ListGo r \<Rightarrow> list_loop cf w limit room depth shown r c1 st1)"
      using less.prems(1) [symmetric] False q d by (cases y) (auto simp: list_loop.simps [of _ _ _ _ _ _ r])
    show ?thesis
    proof (cases y)
      case (ListGo r1)
      with run have again: "list_loop cf w limit room depth shown r1 c1 st1 = (x, c', st')" by simp
      have "(limit - lr_visited r1) + length (lr_queue r1) < (limit - lr_visited r) + length (lr_queue r)"
        using list_dir_counts [of cf w limit room depth shown node level "r\<lparr>lr_queue := queue\<rparr>" c st r1 c1 st1] d ListGo q by simp
      from less.hyps [OF this again] s less.prems(3) ListGo have ih: "walk_keeps cf w (c1, st1) (c', st')"
        "\<forall>a. x = ListStop a \<longrightarrow> a = Interrupted \<or> (\<exists>code. a = list_error cf code shown)"
        "\<And>r'. x = ListGo r' \<Longrightarrow> list_grows cf w limit room r1 r'
         \<and> lr_incomplete r' + length (lr_queue r') \<le> lr_incomplete r1 + length (lr_queue r1) + (lr_visited r' - lr_visited r1)"
        by (auto simp: walk_keeps_def)
      have g1: "list_grows cf w limit room (r\<lparr>lr_queue := queue\<rparr>) r1" "lr_incomplete r1 \<le> lr_incomplete r + 1" using s ListGo by auto
      have "list_grows cf w limit room r r' \<and> lr_incomplete r' + length (lr_queue r') \<le> lr_incomplete r + length (lr_queue r) + (lr_visited r' - lr_visited r)"
        if "x = ListGo r'" for r'
      proof
        show "list_grows cf w limit room r r'" using list_grows_trans [OF list_grows_queue [OF g1(1)]] ih(3) [OF that] q by simp
        show "lr_incomplete r' + length (lr_queue r') \<le> lr_incomplete r + length (lr_queue r) + (lr_visited r' - lr_visited r)"
          using ih(3) [OF that] g1 q by (auto simp: list_grows_def list_adds_def)
      qed
      then show ?thesis using ih(1,2) s walk_keeps_trans by blast
    qed (use run s in auto)
  qed
qed

lemma target_walk_keeps:
  "target_walk cf w parts node c st = (x, c', st') \<Longrightarrow> cursor_ok cf w c \<Longrightarrow> walk_keeps cf w (c, st) (c', st')"
proof (induction parts arbitrary: node c st)
  case Nil
  then show ?case by (auto split: prod.splits sum.splits dest: cursor_to_keeps)
next
  case (Cons part rest)
  obtain d c1 st1 where to: "cursor_to cf w node c st = (d, c1, st1)" by (metis prod_cases3)
  note w1 = cursor_to_keeps [OF to Cons.prems(2)]
  show ?case
  proof (cases "\<exists>dir info st2. d = Inr dir \<and> lstat w dir part st1 = (Inr info, st2) \<and> \<not> hiddenName part \<and> fi_kind info = Directory")
    case True
    then obtain dir info st2 where t: "d = Inr dir" "lstat w dir part st1 = (Inr info, st2)" "\<not> hiddenName part" "fi_kind info = Directory" by blast
    obtain child st3 where ch: "node_child node part info st2 = (child, st3)" by fastforce
    have w3: "walk_keeps cf w (c, st) (c1, st3)" using w1 call_keeps(2) [OF t(2)] call_keeps(6) [OF ch] walk_keeps_after by blast
    from Cons.prems(1) to t ch have "target_walk cf w rest child c1 st3 = (x, c', st')" by simp
    from Cons.IH [OF this] w3 show ?thesis using walk_keeps_trans by (auto simp: walk_keeps_def)
  next
    case False
    with Cons.prems to w1 show ?thesis
      by (auto split: prod.splits sum.splits if_splits dest: call_keeps(2) intro: walk_keeps_after walk_keeps_refl)
  qed
qed

lemma target_walk_nodes:
  "target_walk cf w parts node c st = (Inr node', c', st') \<Longrightarrow> nodes_ok cf w st c (insert node Q) \<Longrightarrow> nodes_ok cf w st' c' (insert node' Q)"
proof (induction parts arbitrary: node c st)
  case Nil
  then show ?case using cursor_to_nodes [OF _ Nil.prems(2) insertI1] by (auto split: prod.splits sum.splits)
next
  case (Cons part rest)
  obtain d c1 st1 where to: "cursor_to cf w node c st = (d, c1, st1)" by (metis prod_cases3)
  from Cons.prems(1) to obtain dir info st2 where t: "d = Inr dir" "lstat w dir part st1 = (Inr info, st2)" "\<not> hiddenName part" "fi_kind info = Directory"
    by (auto split: if_splits sum.splits prod.splits)
  obtain child st3 where ch: "node_child node part info st2 = (child, st3)" by fastforce
  have "nodes_ok cf w st2 c1 (insert node Q)"
    by (rule nodes_ok_mono [OF conjunct1 [OF cursor_to_nodes [OF to Cons.prems(2) insertI1]]]) (use lstat_state [OF t(2)] in auto)
  from nodes_ok_child [OF this insertI1 ch] have "nodes_ok cf w st3 c1 (insert child (insert node Q))" .
  then have "nodes_ok cf w st3 c1 (insert child Q)" by (rule nodes_ok_mono) auto
  moreover from Cons.prems(1) to t ch have "target_walk cf w rest child c1 st3 = (Inr node', c', st')" by simp
  ultimately show ?case using Cons.IH by blast
qed

lemma Join_length: "length (strings_Join xs [c]) \<le> sum_list (map (\<lambda>l. length l + 1) xs)"
  by (induction xs "[c]" rule: strings_Join.induct) auto

lemma Itoa_small: "n \<le> 99999 \<Longrightarrow> length (strconv_Itoa n) \<le> 5"
proof -
  have "length (strconv_Itoa 99999) = 5"
    by (simp add: strconv_Itoa.simps [of 99999] strconv_Itoa.simps [of 9999] strconv_Itoa.simps [of 999] strconv_Itoa.simps [of 99]
        strconv_Itoa.simps [of 9])
  then show "n \<le> 99999 \<Longrightarrow> length (strconv_Itoa n) \<le> 5" using Itoa_mono [of n 99999] by simp
qed

lemma list_notes_length:
  assumes "length (lr_entries r) \<le> 2000" "lr_visited r \<le> 20000" "lr_omitted r \<le> 20000" "lr_incomplete r \<le> 20001"
  shows "sum_list (map (\<lambda>l. length l + 1) (list_notes r)) \<le> noteRoom"
  using Itoa_small [of "length (lr_entries r)"] Itoa_small [of "lr_visited r"] Itoa_small [of "lr_omitted r"] Itoa_small [of "lr_incomplete r"] assms
  by (auto simp: list_notes_def)

lemma sum_sort: "sum_list (map f (sort xs)) = (sum_list (map f xs) :: nat)"
  by (metis mset_map mset_sort sum_mset_sum_list)

lemma list_text_fits:
  assumes "list_grows cf w maxListVisited room (list_start node) r" "lr_incomplete r \<le> 1 + lr_visited r" "room + noteRoom \<le> budget"
  shows "length (list_text r) \<le> budget"
proof -
  from assms(1) have r: "lr_visited r \<le> 20000" "lr_omitted r \<le> lr_visited r" "length (lr_entries r) \<le> 2000"
    "sum_list (map (\<lambda>l. length l + 1) (lr_entries r)) \<le> room"
    by (auto simp: list_grows_def list_adds_def list_start_def)
  from assms(2) r have "sum_list (map (\<lambda>l. length l + 1) (list_notes r)) \<le> noteRoom" by (intro list_notes_length) auto
  then show ?thesis
    using Join_length [of "sort (lr_entries r) @ list_notes r" "CHR 0x0A"] r(4) assms(3)
    by (auto simp: list_text_def sum_sort)
qed

lemma cursor_close_fresh [simp]: "st_fresh (cursor_close c st) = st_fresh st"
  by (simp add: cursor_close_def truncate_cursor_def)

lemma list_clean_sound:
  assumes "list_clean cf w clean depth st = (a, st')"
  shows "keeps st st' \<and> (a = Interrupted \<or> (\<exists>code rel. a = list_error cf code rel)
    \<or> (\<exists>node r. a = Answer \<lparr>wr_Content = list_text r, wr_IsError = False\<rparr>
         \<and> list_grows cf w maxListVisited (room_of (cf_budget cf)) (list_start node) r \<and> lr_incomplete r \<le> 1 + lr_visited r))"
proof -
  obtain x st1 where rn: "rootNode cf w st = (x, st1)" by fastforce
  have k1: "keeps st st1" using rn by (auto simp: rootNode_def keeps_def split: prod.splits sum.splits dest: fstat_state)
  show ?thesis
  proof (cases x)
    case (Inl e)
    with assms rn k1 show ?thesis by (auto simp: list_clean_def Let_def)
  next
    case (Inr root)
    let ?c = "newCursor cf root listPolicy"
    obtain y c2 st2 where lt: "listTarget cf w ?c root clean st1 = (y, c2, st2)" by (metis prod_cases3)
    have c: "cursor_ok cf w ?c" "cu_policy ?c = listPolicy" "length (cu_roots ?c) = 1" by (simp_all add: newCursor_ok) (simp_all add: newCursor_def)
    have w2: "walk_keeps cf w (?c, st1) (c2, st2)"
      using lt c walk_keeps_refl target_walk_keeps by (auto simp: listTarget_def split: if_splits)
    have close: "keeps st (cursor_close c' s)" if "walk_keeps cf w (?c, st1) (c', s)" for c' s
      using that k1 c(3) cursor_close_handles [of cf w c' s] by (auto simp: walk_keeps_def keeps_def)
    show ?thesis
    proof (cases y)
      case (Inl code)
      with assms rn Inr lt close [OF w2] show ?thesis by (auto simp: list_clean_def Let_def)
    next
      case node: (Inr node)
      let ?sh = "if clean = ''.'' then [] else clean"
      obtain z c3 st3 where lo: "list_loop cf w maxListVisited (room_of (cf_budget cf)) depth ?sh (list_start node) c2 st2 = (z, c3, st3)" by (metis prod_cases3)
      have c2: "cu_policy c2 = listPolicy" using w2 c(2) by (auto simp: walk_keeps_def)
      have n1: "nodes_ok cf w st1 ?c (insert root {})" using nodes_ok_root(1) [OF rn [unfolded Inr]] by simp
      have n2: "nodes_ok cf w st2 c2 (queued (list_start node))"
        using lt node n1 target_walk_nodes [OF _ n1] by (auto simp: listTarget_def queued_def list_start_def split: if_splits)
      note s = list_loop_sound [OF lo n2 c2]
      have "keeps st (cursor_close c3 st3)" using close walk_keeps_trans [OF w2] s by blast
      moreover have "a = (case z of ListStop b \<Rightarrow> b | ListGo r \<Rightarrow> Answer \<lparr>wr_Content = list_text r, wr_IsError = False\<rparr>)" "st' = cursor_close c3 st3"
        using assms rn Inr lt node lo by (cases z; simp add: list_clean_def Let_def)+
      moreover have "lr_incomplete r \<le> 1 + lr_visited r" if "z = ListGo r" for r using s that by (auto simp: list_start_def)
      ultimately show ?thesis using s by (cases z) auto
    qed
  qed
qed

text \<open>C26.
  A listing fits the budget of a result with everything it has to say, for every budget a workspace accepts, and so does
  every refusal: the room kept for the notes is enough for both of them and for the counts they state.
\<close>

theorem list_files_bounded:
  assumes "fst (listFiles cf w args st) = Answer r" "4096 \<le> cf_budget cf"
  shows "length (wr_Content r) \<le> cf_budget cf"
proof -
  obtain a st' where run: "listFiles cf w args st = (a, st')" by fastforce
  have err: "length (wr_Content (workbenchError p ''list_files'' code rel)) \<le> cf_budget cf" for p code rel
    using error_fits [of "''list_files''" p code rel] assms(2) by simp
  show ?thesis
  proof (cases "\<exists>clean depth. list_clean cf w clean depth st = (a, st')")
    case True
    have "room_of (cf_budget cf) + noteRoom \<le> cf_budget cf" using assms(2) by (simp add: room_of_def)
    note fits = list_text_fits [OF _ _ this]
    from True list_clean_sound consider (error) code rel where "a = list_error cf code rel" | (lost) "a = Interrupted"
      | (shown) node s where "a = Answer \<lparr>wr_Content = list_text s, wr_IsError = False\<rparr>"
        "list_grows cf w maxListVisited (room_of (cf_budget cf)) (list_start node) s" "lr_incomplete s \<le> 1 + lr_visited s" by blast
    then show ?thesis
    proof cases
      case shown
      with assms(1) run fits [OF shown(2,3)] show ?thesis by auto
    qed (use assms(1) run err in \<open>auto simp: list_error_def\<close>)
  next
    case False
    with run assms(1) err show ?thesis by (auto simp: listFiles_def list_error_def split: option.splits sum.splits)
  qed
qed

text \<open>C22.
  Whatever others do to the file system meanwhile, list_files changes nothing, holds no handle afterwards, and shows only
  entries of directories that it reached from the root through names that are not hidden, each directory checked when it
  was entered, and of those only names that are not hidden, each under the path made of exactly those names; the rest of
  a listing is its notes.
\<close>

theorem list_files_confined:
  "st_handles (snd (listFiles cf w args st)) = st_handles st \<and> st_log (snd (listFiles cf w args st)) = st_log st
   \<and> (case fst (listFiles cf w args st) of
        Answer a \<Rightarrow> wr_IsError a \<or> (\<exists>r. wr_Content a = list_text r \<and> set (lr_entries r) \<subseteq> listed cf w
          \<and> length (lr_entries r) \<le> 2000 \<and> lr_visited r \<le> 20000)
      | b \<Rightarrow> b = Interrupted)"
proof -
  obtain a st' where run: "listFiles cf w args st = (a, st')" by fastforce
  have err: "wr_IsError (workbenchError p t code rel)" for p t code rel by (simp add: workbenchError_def Let_def)
  show ?thesis
  proof (cases "\<exists>clean depth. list_clean cf w clean depth st = (a, st')")
    case True
    then have k: "keeps st st'" using list_clean_sound by blast
    from True list_clean_sound consider (error) code rel where "a = list_error cf code rel" | (lost) "a = Interrupted"
      | (shown) node s where "a = Answer \<lparr>wr_Content = list_text s, wr_IsError = False\<rparr>"
        "list_grows cf w maxListVisited (room_of (cf_budget cf)) (list_start node) s" by blast
    then show ?thesis
    proof cases
      case shown
      then have "set (lr_entries s) \<subseteq> listed cf w" "length (lr_entries s) \<le> 2000" "lr_visited s \<le> 20000"
        by (auto simp: list_grows_def list_adds_def list_start_def)
      with shown(1) run k show ?thesis by (auto simp: keeps_def)
    qed (use run err k in \<open>auto simp: list_error_def keeps_def\<close>)
  next
    case False
    with run err show ?thesis by (auto simp: listFiles_def list_error_def split: option.splits sum.splits)
  qed
qed

text \<open>A directory with a file, a link and a hidden name.\<close>

definition list_fs :: fsys where
  "list_fs = example_fs\<lparr>fs_entry := \<lambda>d n. if d = 0 \<and> n = ''b'' then Some 2 else if d = 0 \<and> n = ''a'' then Some 3 else None,
     fs_kind := \<lambda>i. if i = 0 then Directory else if i = 3 then Symlink else Regular, fs_names := \<lambda>d. [''b'', ''.git'', ''a'']\<rparr>"

lemma list_hidden: "hiddenName ''.git''" "\<not> hiddenName ''a''" "\<not> hiddenName ''b''" "path_Join [[], ''a''] = ''a''" "path_Join [[], ''b''] = ''b''"
  "sort [''b'', ''.git'', ''a''] = [''.git'', ''a'', ''b'']" "resolveName ''windows'' [] True = Inr ''.''"
  by code_simp+

lemma read_names_quiet [simp]: "read_names (quiet fs) f pos st = (take workbenchDirBatch (drop pos (fs_names fs f)), None, st\<lparr>st_clock := Suc (st_clock st)\<rparr>)"
  by (simp add: read_names_def quiet_def Let_def)

lemmas list_run_simps = listTarget_def Let_def rootNode_def fstat_def list_depth_def list_start_def list_loop.simps list_dir_def
  cursor_to_def example_state_def list_hidden example_config_def newCursor_def eachName_def openIn_def open_self_def wsfile_Check_def info_of_def
  list_fs_def example_fs_def truncate_cursor_def each_batches.simps list_visit_def hold_def list_entry_def describe_def lstat_def LinkCount_def
  check_mount_def fileOtherMount_def open_name_def release_handle_def list_line_def room_of_def list_settle_def list_text_def list_notes_def

lemma list_run:
  "fst (listFiles example_config (quiet list_fs) (Some \<lparr>la_Path = [], la_Depth = None\<rparr>) example_state)
     = Answer \<lparr>wr_Content = ''a [link]'' @ CHR 0x0A # ''b'', wr_IsError = False\<rparr>"
  by (simp add: listFiles_def list_clean_def list_run_simps)

theorem list_files_bounded_witness:
  "fst (listFiles example_config (quiet list_fs) (Some \<lparr>la_Path = [], la_Depth = None\<rparr>) example_state)
     = Answer \<lparr>wr_Content = ''a [link]'' @ CHR 0x0A # ''b'', wr_IsError = False\<rparr>
   \<and> length (''a [link]'' @ CHR 0x0A # ''b'') \<le> cf_budget example_config"
  using list_files_bounded [OF list_run] list_run by (simp add: example_config_def)

text \<open>
  A listing that stops at the limit of names keeps the names the file system happened to give first: the same two names
  in another order give another listing.
\<close>

lemma capped_listing_order:
  "fst (list_loop example_config (quiet (list_fs\<lparr>fs_names := \<lambda>d. [''a'', ''b'']\<rparr>)) 1 1000 1 [] (list_start (DirNode 0 [] (info_of list_fs 0) None []))
      (newCursor example_config (DirNode 0 [] (info_of list_fs 0) None []) listPolicy) example_state)
   = ListGo \<lparr>lr_entries = [''a [link]''], lr_used = 9, lr_omitted = 0, lr_visited = 1, lr_capped = True, lr_incomplete = 0, lr_queue = []\<rparr>"
  "fst (list_loop example_config (quiet (list_fs\<lparr>fs_names := \<lambda>d. [''b'', ''a'']\<rparr>)) 1 1000 1 [] (list_start (DirNode 0 [] (info_of list_fs 0) None []))
      (newCursor example_config (DirNode 0 [] (info_of list_fs 0) None []) listPolicy) example_state)
   = ListGo \<lparr>lr_entries = [''b''], lr_used = 2, lr_omitted = 0, lr_visited = 1, lr_capped = True, lr_incomplete = 0, lr_queue = []\<rparr>"
  by (simp_all add: list_run_simps)

end
