(* ===== verification/Ws_Search.thy ===== *)
theory Ws_Search
  imports Ws_List "HOL-Library.Product_Lexorder"
begin

text \<open>
  Searching a workspace (sandbox/search.go): every regular file below a directory that the pattern's glob admits is opened
  as \<open>read_file\<close> opens it, without following links, and its matching lines are shown. Package regexp's compiled pattern and
  \<open>path.Match\<close> are arguments: a pattern compiles to what it matches or not at all, and a glob can be malformed.
\<close>

section \<open>The search so far\<close>

record search_match =
  sm_rel :: string
  sm_line :: nat
  sm_text :: string

record search_run =
  sr_found :: "search_match list"
  sr_used :: nat
  sr_truncated :: bool
  sr_cuts :: nat
  sr_skipped :: "(string \<times> nat) list"
  sr_queue :: "dir_node list"

text \<open>What a search looks for: the compiled pattern, and the glob with what it matches.\<close>

record search_query =
  sq_matches :: "string \<Rightarrow> bool"
  sq_glob :: string
  sq_globs :: "string \<Rightarrow> bool"

abbreviation maxSearchFileBytes :: nat where "maxSearchFileBytes \<equiv> 1048576"
abbreviation maxSearchPatternBytes :: nat where "maxSearchPatternBytes \<equiv> 4096"
abbreviation maxSearchMatches :: nat where "maxSearchMatches \<equiv> 200"
abbreviation maxSearchLine :: int where "maxSearchLine \<equiv> 400"

fun bump :: "string \<Rightarrow> (string \<times> nat) list \<Rightarrow> (string \<times> nat) list" where
  "bump key [] = [(key, 1)]"
| "bump key ((k, n) # kns) = (if k = key then (k, n + 1) # kns else (k, n) # bump key kns)"

definition skip_key :: "string \<Rightarrow> search_run \<Rightarrow> search_run" where
  "skip_key key r = r\<lparr>sr_skipped := bump key (sr_skipped r)\<rparr>"

definition skip :: "ws_code \<Rightarrow> search_run \<Rightarrow> search_run" where
  "skip code r = skip_key (code_text code) r"

fun noteDirSkip :: "visit_error \<Rightarrow> search_run \<Rightarrow> search_run" where
  "noteDirSkip (Failed OtherMount) r = skip FileOtherMount r"
| "noteDirSkip (Failed Hidden) r = r"
| "noteDirSkip e r = skip_key ''directories_incomplete'' r"

section \<open>One file\<close>

definition match_text :: "string \<Rightarrow> nat \<Rightarrow> string \<Rightarrow> string" where
  "match_text rel n line = rel @ '':'' @ strconv_Itoa (n + 1) @ '': '' @ line"

text \<open>The lines of a file from the \<open>n\<close>-th on. What follows the last newline is a line only when it is not empty.\<close>

fun search_lines :: "world \<Rightarrow> search_query \<Rightarrow> nat \<Rightarrow> string \<Rightarrow> nat \<Rightarrow> string list \<Rightarrow> search_run \<Rightarrow> ws_state
    \<Rightarrow> visit_error option \<times> search_run \<times> ws_state" where
  "search_lines w q room rel n [] r st = (None, r, st)"
| "search_lines w q room rel n (line # lines) r st =
     (case checkpoint w st of (ended, st) \<Rightarrow>
        if ended then (Some Cancelled, r, st)
        else if \<not> sq_matches q line \<or> line = [] \<and> lines = [] then search_lines w q room rel (n + 1) lines r st
        else let shown = Cut (match_text rel n line) maxSearchLine;
                 r = (if length shown < length (match_text rel n line) then r\<lparr>sr_cuts := sr_cuts r + 1\<rparr> else r)
             in if length (sr_found r) \<ge> maxSearchMatches \<or> sr_used r + length shown + 1 > room
                then (None, r\<lparr>sr_truncated := True\<rparr>, st)
                else search_lines w q room rel (n + 1) lines
                       (r\<lparr>sr_found := sr_found r @ [\<lparr>sm_rel = rel, sm_line = n + 1, sm_text = shown\<rparr>], sr_used := sr_used r + length shown + 1\<rparr>) st)"

definition search_text_ok :: "string \<Rightarrow> bool" where
  "search_text_ok d \<longleftrightarrow> CHR 0x00 \<notin> set (take 8192 d) \<and> utf8_valid d"

definition inspect_opened :: "world \<Rightarrow> search_query \<Rightarrow> nat \<Rightarrow> string \<Rightarrow> inode \<Rightarrow> search_run \<Rightarrow> ws_state
    \<Rightarrow> visit_error option \<times> search_run \<times> ws_state" where
  "inspect_opened w q room rel f r st =
     (case fstat w f st of
        (Inl e, st) \<Rightarrow> (None, skip FileUnreadable r, st)
      | (Inr opened, st) \<Rightarrow>
         if fi_size opened > maxSearchFileBytes then (None, skip FileTooLarge r, st)
         else (case ReadAtMost w f maxSearchFileBytes st of (x, st) \<Rightarrow>
           (case checkpoint w st of (ended, st) \<Rightarrow>
              if ended then (Some Cancelled, r, st)
              else (case x of
                      Inl e \<Rightarrow> (None, skip FileUnreadable r, st)
                    | Inr (d, large) \<Rightarrow>
                       if large then (None, skip FileTooLarge r, st)
                       else if \<not> search_text_ok d then (None, skip FileNotText r, st)
                       else search_lines w q room rel 0 (strings_Split d (CHR 0x0A)) r st))))"

definition inspect :: "ws_config \<Rightarrow> world \<Rightarrow> search_query \<Rightarrow> nat \<Rightarrow> dir_node \<Rightarrow> dir_node \<Rightarrow> string \<Rightarrow> file_info \<Rightarrow> search_run \<Rightarrow> cursor \<Rightarrow> ws_state
    \<Rightarrow> visit_error option \<times> search_run \<times> cursor \<times> ws_state" where
  "inspect cf w q room root node name info r c st =
     (case checkpoint w st of (ended, st) \<Rightarrow>
        if ended then (Some Cancelled, r, c, st)
        else let rel = path_Join [dn_rel node, name] in
          if fi_kind info = Symlink then (None, skip FileIsSymlink r, c, st)
          else if fi_kind info \<noteq> Regular then (None, skip FileNotRegular r, c, st)
          else if sq_glob q \<noteq> [] \<and> \<not> sq_globs q (if slash \<in> set (sq_glob q) then rel else path_Base rel) then (None, r, c, st)
          else (case openRegular cf w c root rel st of
                  (Inl code, c, st) \<Rightarrow> (None, skip code r, c, st)
                | (Inr f, c, st) \<Rightarrow>
                   (case inspect_opened w q room rel f r st of (e, r, st) \<Rightarrow> (e, r, c, release_handle st))))"

section \<open>The walk\<close>

text \<open>What is gathered while the names of a directory are visited: the search, the cursor, and the directory's handle.\<close>

type_synonym search_walk = "search_run \<times> cursor \<times> inode"

definition visit_on :: "world \<Rightarrow> search_walk \<Rightarrow> ws_state \<Rightarrow> (visit_error + bool) \<times> search_walk \<times> ws_state" where
  "visit_on w a st = (case checkpoint w st of (ended, st) \<Rightarrow> (if ended then Inl Cancelled else Inr True, a, st))"

definition search_visit :: "ws_config \<Rightarrow> world \<Rightarrow> search_query \<Rightarrow> nat \<Rightarrow> dir_node \<Rightarrow> dir_node \<Rightarrow> search_walk visit" where
  "search_visit cf w q room root node visited name a st =
     (case a of (r, c, dir) \<Rightarrow>
        if hiddenName name then visit_on w a st
        else (case lstat w dir name st of
                (Inl e, st) \<Rightarrow> visit_on w (skip FileUnreadable r, c, dir) st
              | (Inr info, st) \<Rightarrow>
                 if fi_kind info = Directory then
                   (case node_child node name info st of (child, st) \<Rightarrow> visit_on w (r\<lparr>sr_queue := sr_queue r @ [child]\<rparr>, c, dir) st)
                 else (case inspect cf w q room root node name info r c st of
                         (Some e, r, c, st) \<Rightarrow> (Inl e, (r, c, dir), st)
                       | (None, r, c, st) \<Rightarrow>
                          (case cursor_to cf w node c st of
                             (Inl e, c, st) \<Rightarrow> (Inl (Failed e), (r, c, dir), st)
                           | (Inr dir, c, st) \<Rightarrow> (Inr (\<not> sr_truncated r), (r, c, dir), st)))))"

datatype search_next = SearchStop tool_answer | SearchGo search_run

definition search_error :: "ws_config \<Rightarrow> ws_code \<Rightarrow> string \<Rightarrow> tool_answer" where
  "search_error cf code rel = Answer (workbenchError (cf_printable cf) ''search_files'' code rel)"

definition search_failure :: "visit_error \<Rightarrow> ws_code" where
  "search_failure e = (case e of Failed e \<Rightarrow> rootFailure e | Cancelled \<Rightarrow> FileUnreadable)"

definition target_rel :: "string \<Rightarrow> string" where
  "target_rel clean = (if clean = ''.'' then [] else clean)"

definition search_dir :: "ws_config \<Rightarrow> world \<Rightarrow> search_query \<Rightarrow> nat \<Rightarrow> nat \<Rightarrow> string \<Rightarrow> dir_node \<Rightarrow> dir_node \<Rightarrow> nat \<Rightarrow> search_run \<Rightarrow> cursor \<Rightarrow> ws_state
    \<Rightarrow> search_next \<times> nat \<times> cursor \<times> ws_state" where
  "search_dir cf w q limit room clean root node visited r c st =
     (case checkpoint w st of (ended, st) \<Rightarrow>
        if ended then (SearchStop Interrupted, visited, c, st)
        else (case cursor_to cf w node c st of
                (Inl e, c, st) \<Rightarrow>
                  if sr_found r = [] \<and> dn_rel node = target_rel clean then (SearchStop (search_error cf (rootFailure e) clean), visited, c, st)
                  else (SearchGo (noteDirSkip (Failed e) r), visited, c, st)
              | (Inr dir, c, st) \<Rightarrow>
                  (case eachName cf w dir limit (search_visit cf w q room root node) visited (r, c, dir) st of
                     (err, capped, visited', (r, c, dir), st) \<Rightarrow>
                       (case checkpoint w st of (ended, st) \<Rightarrow>
                          if ended then (SearchStop Interrupted, visited', c, st)
                          else let r = r\<lparr>sr_truncated := sr_truncated r \<or> capped\<rparr> in
                            (case err of
                               None \<Rightarrow> (SearchGo r, visited', c, st)
                             | Some e \<Rightarrow>
                                if dn_rel node = target_rel clean \<and> visited' = visited
                                then (SearchStop (search_error cf (search_failure e) clean), visited', c, st)
                                else (SearchGo (noteDirSkip e r), visited', c, st))))))"

section \<open>What a search adds\<close>

definition skip_keys :: "string set" where
  "skip_keys = insert ''directories_incomplete'' (range code_text)"

definition keys_ok :: "(string \<times> nat) list \<Rightarrow> bool" where
  "keys_ok kns \<longleftrightarrow> distinct (map fst kns) \<and> set (map fst kns) \<subseteq> skip_keys"

definition skips :: "search_run \<Rightarrow> nat" where
  "skips r = sum_list (map snd (sr_skipped r))"

lemma bump_keys: "set (map fst (bump key kns)) = insert key (set (map fst kns))"
  by (induction key kns rule: bump.induct) auto

lemma bump_sum [simp]: "sum_list (map snd (bump key kns)) = Suc (sum_list (map snd kns))"
  by (induction key kns rule: bump.induct) auto

lemma bump_distinct: "distinct (map fst kns) \<Longrightarrow> distinct (map fst (bump key kns))"
proof (induction kns)
  case (Cons kn kns)
  then show ?case using bump_keys [of key kns] by (cases kn) auto
qed simp

lemma bump_ok: "keys_ok kns \<Longrightarrow> key \<in> skip_keys \<Longrightarrow> keys_ok (bump key kns)"
  using bump_keys [of key kns] bump_distinct by (auto simp: keys_ok_def)

text \<open>Matches from \<open>ms\<close>, and at most \<open>k\<close> more skipped entries and directories to visit, all within the bounds of a result.\<close>

definition search_adds :: "search_match set \<Rightarrow> nat \<Rightarrow> nat \<Rightarrow> search_run \<Rightarrow> search_run \<Rightarrow> bool" where
  "search_adds ms room k r r' \<longleftrightarrow>
     (\<exists>new. sr_found r' = sr_found r @ new \<and> set new \<subseteq> ms \<and> sr_used r' = sr_used r + sum_list (map (\<lambda>m. length (sm_text m) + 1) new)
        \<and> (length (sr_found r) \<le> maxSearchMatches \<longrightarrow> length (sr_found r') \<le> maxSearchMatches) \<and> (sr_used r \<le> room \<longrightarrow> sr_used r' \<le> room)
        \<and> sr_cuts r' \<le> sr_cuts r + length new + k)
     \<and> skips r' + length (sr_queue r') \<le> skips r + length (sr_queue r) + k \<and> length (sr_queue r') \<le> length (sr_queue r) + k
     \<and> (keys_ok (sr_skipped r) \<longrightarrow> keys_ok (sr_skipped r'))"

lemma search_adds_refl [simp]: "search_adds ms room k r r"
  by (simp add: search_adds_def)

lemma search_adds_trans:
  assumes "search_adds ms room k r1 r2" "search_adds ms room l r2 r3" shows "search_adds ms room (k + l) r1 r3"
proof -
  obtain new1 new2 where "sr_found r2 = sr_found r1 @ new1" "set new1 \<subseteq> ms" "sr_used r2 = sr_used r1 + sum_list (map (\<lambda>m. length (sm_text m) + 1) new1)"
    "sr_cuts r2 \<le> sr_cuts r1 + length new1 + k"
    "sr_found r3 = sr_found r2 @ new2" "set new2 \<subseteq> ms" "sr_used r3 = sr_used r2 + sum_list (map (\<lambda>m. length (sm_text m) + 1) new2)"
    "sr_cuts r3 \<le> sr_cuts r2 + length new2 + l"
    using assms unfolding search_adds_def by blast
  then show ?thesis using assms unfolding search_adds_def by (intro conjI exI [of _ "new1 @ new2"]) auto
qed

lemma search_adds_mono: "search_adds ms room k r r' \<Longrightarrow> ms \<subseteq> ms' \<Longrightarrow> search_adds ms' room k r r'"
  unfolding search_adds_def by blast

lemma skip_adds: "key \<in> skip_keys \<Longrightarrow> search_adds ms room 1 r (skip_key key r)"
  by (auto simp: search_adds_def skip_key_def skips_def bump_ok)

lemma skip_keys_code [simp]: "code_text code \<in> skip_keys" "''directories_incomplete'' \<in> skip_keys"
  by (auto simp: skip_keys_def)

lemma skip_code_adds: "search_adds ms room 1 r (skip code r)"
  unfolding skip_def by (rule skip_adds) simp

lemma search_lines_adds:
  "search_lines w q room rel n lines r st = (e, r', st') \<Longrightarrow>
   (\<And>i. i < length lines \<Longrightarrow> sq_matches q (lines ! i) \<Longrightarrow> lines ! i \<noteq> [] \<or> Suc i < length lines \<Longrightarrow>
      \<lparr>sm_rel = rel, sm_line = n + i + 1, sm_text = Cut (match_text rel (n + i) (lines ! i)) maxSearchLine\<rparr> \<in> ms) \<Longrightarrow>
   keeps st st' \<and> search_adds ms room 1 r r'"
proof (induction lines arbitrary: n r st)
  case (Cons line lines)
  obtain ended st1 where cp: "checkpoint w st = (ended, st1)" by fastforce
  note k = call_keeps(1) [OF cp]
  let ?s = "Cut (match_text rel n line) maxSearchLine"
  define r1 where "r1 = (if length ?s < length (match_text rel n line) then r\<lparr>sr_cuts := sr_cuts r + 1\<rparr> else r)"
  have ms: "\<lparr>sm_rel = rel, sm_line = Suc n + i + 1, sm_text = Cut (match_text rel (Suc n + i) (lines ! i)) maxSearchLine\<rparr> \<in> ms"
    if "i < length lines" "sq_matches q (lines ! i)" "lines ! i \<noteq> [] \<or> Suc i < length lines" for i using Cons.prems(2) [of "Suc i"] that by simp
  show ?case
  proof (cases "ended \<or> \<not> sq_matches q line \<or> line = [] \<and> lines = []")
    case True
    show ?thesis
    proof (cases ended)
      case False
      with True Cons.prems(1) cp have "search_lines w q room rel (Suc n) lines r st1 = (e, r', st')" by auto
      from Cons.IH [OF this ms] k keeps_trans show ?thesis by blast
    qed (use Cons.prems(1) cp k in auto)
  next
    case go: False
    show ?thesis
    proof (cases "length (sr_found r1) \<ge> maxSearchMatches \<or> sr_used r1 + length ?s + 1 > room")
      case True
      with go Cons.prems(1) cp have "r' = r1\<lparr>sr_truncated := True\<rparr>" "st' = st1" by (auto simp: Let_def r1_def split: if_splits)
      then show ?thesis using k by (auto simp: search_adds_def r1_def skips_def)
    next
      case False
      let ?m = "\<lparr>sm_rel = rel, sm_line = n + 1, sm_text = ?s\<rparr>"
      let ?r2 = "r1\<lparr>sr_found := sr_found r1 @ [?m], sr_used := sr_used r1 + length ?s + 1\<rparr>"
      have "search_lines w q room rel (Suc n) lines ?r2 st1 = (e, r', st')"
        using go False Cons.prems(1) cp by (auto simp: Let_def r1_def split: if_splits)
      note ih = Cons.IH [OF this ms]
      have "?m \<in> ms" using Cons.prems(2) [of 0] go by simp
      then have "search_adds ms room 0 r ?r2" using False by (auto simp: search_adds_def r1_def skips_def)
      from search_adds_trans [OF this] ih k keeps_trans show ?thesis by fastforce
    qed
  qed
qed simp

text \<open>The matches there can be in a file opened as \<open>rel\<close>: lines the pattern matches, what follows the last newline only when it is not empty.\<close>

definition file_matches :: "world \<Rightarrow> (string \<Rightarrow> bool) \<Rightarrow> string \<Rightarrow> inode \<Rightarrow> search_match set" where
  "file_matches w matches rel f = {m. \<exists>d n. bytes_of w f d \<and> length d \<le> maxSearchFileBytes \<and> search_text_ok d
     \<and> n < length (strings_Split d (CHR 0x0A)) \<and> matches (strings_Split d (CHR 0x0A) ! n)
     \<and> (strings_Split d (CHR 0x0A) ! n \<noteq> [] \<or> Suc n < length (strings_Split d (CHR 0x0A)))
     \<and> m = \<lparr>sm_rel = rel, sm_line = n + 1, sm_text = Cut (match_text rel n (strings_Split d (CHR 0x0A) ! n)) maxSearchLine\<rparr>}"

lemma read_chunks_fresh: "read_chunks w f limit buf st = (x, st') \<Longrightarrow> st_fresh st' = st_fresh st"
proof (induction w f limit buf st rule: read_chunks.induct)
  case (1 w f limit buf st)
  obtain ended st1 where cp: "checkpoint w st = (ended, st1)" by fastforce
  obtain y st2 where rd: "syscall w (\<lambda>fs. Inr (take (chunk_size limit buf) (drop (length buf) (fs_data fs f)))) st1 = (y, st2)" by fastforce
  have "st_fresh st2 = st_fresh st" "st_fresh st1 = st_fresh st" using checkpoint_state [OF cp] syscall_state [OF rd] by auto
  then show ?case
    using 1(1) [OF cp [symmetric] _ refl rd [symmetric]] 1(2)
    by (subst (asm) read_chunks.simps) (auto simp: cp rd Let_def split: if_splits sum.splits)
qed

lemma inspect_opened_adds:
  assumes "inspect_opened w q room rel f r st = (e, r', st')"
  shows "keeps st st' \<and> search_adds (file_matches w (sq_matches q) rel f) room 1 r r'"
proof -
  obtain y st1 where fs: "fstat w f st = (y, st1)" by fastforce
  obtain x st2 where rd: "ReadAtMost w f maxSearchFileBytes st1 = (x, st2)" by fastforce
  obtain ended st3 where cp: "checkpoint w st2 = (ended, st3)" by fastforce
  have k1: "keeps st st1" by (rule call_keeps(3) [OF fs])
  have k2: "keeps st1 st2" using read_chunks_state [OF rd [unfolded ReadAtMost_def]] read_chunks_fresh [OF rd [unfolded ReadAtMost_def]] by (simp add: keeps_def)
  have k3: "keeps st st3" using k1 k2 call_keeps(1) [OF cp] keeps_trans by blast
  have sk: "search_adds ms room 1 r (skip code r)" for ms code by (rule skip_code_adds)
  show ?thesis
  proof (cases "\<exists>opened d. y = Inr opened \<and> fi_size opened \<le> maxSearchFileBytes \<and> \<not> ended \<and> x = Inr (d, False) \<and> search_text_ok d")
    case True
    then obtain opened d where t: "y = Inr opened" "fi_size opened \<le> maxSearchFileBytes" "\<not> ended" "x = Inr (d, False)" "search_text_ok d" by blast
    with assms fs rd cp have sl: "search_lines w q room rel 0 (strings_Split d (CHR 0x0A)) r st3 = (e, r', st')" by (simp add: inspect_opened_def)
    have d: "bytes_of w f d" "length d \<le> maxSearchFileBytes"
      using read_chunks_bytes [OF rd [unfolded ReadAtMost_def t(4)]] by (auto simp: bytes_of_def)
    have "keeps st3 st' \<and> search_adds (file_matches w (sq_matches q) rel f) room 1 r r'"
      by (rule search_lines_adds [OF sl]) (use d t(5) in \<open>auto simp: file_matches_def\<close>)
    then show ?thesis using k3 keeps_trans by blast
  next
    case False
    have "st' = st1 \<or> st' = st3" "r' = r \<or> (\<exists>code. r' = skip code r)"
      using False assms fs rd cp by (auto simp: inspect_opened_def split: sum.splits prod.splits if_splits)
    then show ?thesis using k1 k3 sk by auto
  qed
qed

text \<open>The glob: on the path when it has a slash, otherwise on the last name.\<close>

definition glob_admits :: "search_query \<Rightarrow> string \<Rightarrow> bool" where
  "glob_admits q rel \<longleftrightarrow> sq_glob q = [] \<or> sq_globs q (if slash \<in> set (sq_glob q) then rel else path_Base rel)"

lemma inspect_adds:
  assumes "inspect cf w q room root node name info r c st = (e, r', c', st')"
    and "\<And>rel st1 c' st' f. openRegular cf w c root rel st1 = (Inr f, c', st') \<Longrightarrow> st_fresh st \<le> st_fresh st1 \<Longrightarrow> glob_admits q rel
      \<Longrightarrow> file_matches w (sq_matches q) rel f \<subseteq> ms"
  shows "search_adds ms room 1 r r'"
proof -
  obtain ended st1 where cp: "checkpoint w st = (ended, st1)" by fastforce
  let ?rel = "path_Join [dn_rel node, name]"
  obtain x c1 st2 where o: "openRegular cf w c root ?rel st1 = (x, c1, st2)" by (metis prod_cases3)
  have sk: "search_adds ms room 1 r (skip code r)" for code by (rule skip_code_adds)
  show ?thesis
  proof (cases x)
    case (Inl code)
    then have "r' = r \<or> (\<exists>code. r' = skip code r)" using assms(1) cp o by (auto simp: inspect_def Let_def split: if_splits)
    then show ?thesis using sk by auto
  next
    case (Inr f)
    obtain e1 r1 st3 where i: "inspect_opened w q room ?rel f r st2 = (e1, r1, st3)" by (metis prod_cases3)
    have "r' = r \<or> (r' = r1 \<and> glob_admits q ?rel) \<or> (\<exists>code. r' = skip code r)"
      using assms(1) cp o Inr i by (auto simp: inspect_def glob_admits_def Let_def split: if_splits)
    moreover have "search_adds ms room 1 r r1" if "glob_admits q ?rel"
      by (rule search_adds_mono [OF conjunct2 [OF inspect_opened_adds [OF i]]], rule assms(2) [OF o [unfolded Inr] _ that])
        (use call_keeps(1) [OF cp] in \<open>auto simp: keeps_def\<close>)
    ultimately show ?thesis using sk by auto
  qed
qed

lemma visit_on_run: "visit_on w a st = (x, a', st') \<Longrightarrow> a' = a \<and> keeps st st'"
  by (auto simp: visit_on_def split: prod.splits dest: call_keeps(1))

lemma search_visit_adds:
  assumes "search_visit cf w q room root node v name (r, c, dir) st = (x, (r', c', dir'), st')"
    and "\<And>rel st1 c' st' f. openRegular cf w c root rel st1 = (Inr f, c', st') \<Longrightarrow> st_fresh st \<le> st_fresh st1 \<Longrightarrow> glob_admits q rel
      \<Longrightarrow> file_matches w (sq_matches q) rel f \<subseteq> ms"
  shows "search_adds ms room 1 r r'"
proof (cases "hiddenName name")
  case False
  obtain y st1 where ls: "lstat w dir name st = (y, st1)" by fastforce
  show ?thesis
  proof (cases "\<exists>info. y = Inr info \<and> fi_kind info \<noteq> Directory")
    case True
    then obtain info where y: "y = Inr info" "fi_kind info \<noteq> Directory" by blast
    obtain e r1 c1 st2 where i: "inspect cf w q room root node name info r c st1 = (e, r1, c1, st2)" by (metis prod_cases4)
    have "r' = r1" using assms(1) False ls y i by (auto simp: search_visit_def split: option.splits prod.splits sum.splits)
    moreover have "search_adds ms room 1 r r1"
      by (rule inspect_adds [OF i assms(2)]) (use call_keeps(2) [OF ls] in \<open>auto simp: keeps_def\<close>)
    ultimately show ?thesis by simp
  next
    case no: False
    have "r' = skip FileUnreadable r \<or> (\<exists>child. r' = r\<lparr>sr_queue := sr_queue r @ [child]\<rparr>)"
      using assms(1) False ls no by (auto simp: search_visit_def split: sum.splits prod.splits dest!: visit_on_run)
    then show ?thesis using skip_code_adds by (auto simp: search_adds_def skips_def)
  qed
qed (use assms in \<open>auto simp: search_visit_def dest!: visit_on_run\<close>)

text \<open>Nodes stay in use as they are visited and put on the queue, by a search that starts at the root.\<close>

definition search_ok :: "ws_config \<Rightarrow> world \<Rightarrow> dir_node \<Rightarrow> dir_node set \<Rightarrow> cursor \<Rightarrow> ws_state \<Rightarrow> bool" where
  "search_ok cf w root Q c st \<longleftrightarrow> nodes_ok cf w st c (insert root Q) \<and> dn_parent root = None \<and> cu_policy c = listPolicy"

text \<open>Every directory put on the queue was a name visited, whatever the cursor does.\<close>

interpretation search_counts: visit_invariant w f "search_visit cf w q room root node" "\<lambda>v (r, c, dir) st. length (sr_queue r) + v0 \<le> q0 + v"
  for w f cf q room root node v0 q0
proof (unfold_locales, goal_cases)
  case (1 name v a st x a' st')
  obtain r c dir r' c' dir' where a: "a = (r, c, dir)" "a' = (r', c', dir')" by (metis prod_cases3)
  from search_visit_adds [OF 1(2) [unfolded a], of UNIV] have "length (sr_queue r') \<le> length (sr_queue r) + 1" by (simp add: search_adds_def)
  with 1(3) a show ?case by auto
qed auto

lemma eachName_cases:
  assumes "eachName cf w dir limit visit v a st = (err, capped, v', a', st')"
  obtains (lost) e where "openIn cf w dir None st = (Inl e, st')" "v' = v" "a' = a"
  | (read) st1 st2 where "openIn cf w dir None st = (Inr dir, st1)" "each_batches w dir limit visit 0 v a st1 = (err, capped, v', a', st2)" "st' = release_handle st2"
proof (cases "openIn cf w dir None st")
  case (Pair x st1)
  show thesis
  proof (cases x)
    case (Inl e)
    with assms Pair lost show thesis by (auto simp: eachName_def)
  next
    case (Inr f)
    have "f = dir" using Pair Inr by (auto simp: openIn_def split: prod.splits sum.splits if_splits dest: open_self_Inr)
    with assms Pair Inr read show thesis by (auto simp: eachName_def split: prod.splits)
  qed
qed

lemma noteDirSkip_adds: "search_adds ms room 1 r (noteDirSkip e r)"
  using skip_code_adds skip_adds [of "''directories_incomplete''"] by (cases "(e, r)" rule: noteDirSkip.cases) auto

lemma search_dir_counts:
  assumes "search_dir cf w q limit room clean root node v r c st = (SearchGo r', v', c', st')"
  shows "(limit - v') + length (sr_queue r') \<le> (limit - v) + length (sr_queue r)"
proof -
  have same: "sr_queue (noteDirSkip e s) = sr_queue s" for e s
    by (cases "(e, s)" rule: noteDirSkip.cases) (auto simp: skip_def skip_key_def)
  obtain ended st1 where cp: "checkpoint w st = (ended, st1)" by fastforce
  obtain d c1 st2 where to: "cursor_to cf w node c st1 = (d, c1, st2)" by (metis prod_cases3)
  have go: "\<not> ended" using assms cp by (auto simp: search_dir_def)
  show ?thesis
  proof (cases d)
    case (Inl e)
    with assms cp to go same show ?thesis by (auto simp: search_dir_def split: if_splits)
  next
    case (Inr dir)
    obtain err capped v1 r1 c2 dir2 st3 where en: "eachName cf w dir limit (search_visit cf w q room root node) v (r, c1, dir) st2 = (err, capped, v1, (r1, c2, dir2), st3)"
      by (metis prod_cases5 prod_cases3)
    have "v' = v1" "sr_queue r' = sr_queue r1"
      using assms cp to go Inr en same by (auto simp: search_dir_def Let_def split: prod.splits option.splits if_splits)
    moreover from en have "length (sr_queue r1) + v \<le> length (sr_queue r) + v1 \<and> v \<le> v1 \<and> (v1 \<le> limit \<or> v1 = v)"
    proof (cases rule: eachName_cases)
      case (read s1 s2)
      from search_counts.batches [OF read(2), of v "length (sr_queue r)"] show ?thesis by auto
    qed auto
    ultimately show ?thesis by auto
  qed
qed

function search_loop :: "ws_config \<Rightarrow> world \<Rightarrow> search_query \<Rightarrow> nat \<Rightarrow> nat \<Rightarrow> string \<Rightarrow> dir_node \<Rightarrow> nat \<Rightarrow> search_run \<Rightarrow> cursor \<Rightarrow> ws_state
    \<Rightarrow> search_next \<times> nat \<times> cursor \<times> ws_state" where
  "search_loop cf w q limit room clean root visited r c st =
     (if sr_queue r = [] \<or> sr_truncated r then (SearchGo r, visited, c, st)
      else case search_dir cf w q limit room clean root (last (sr_queue r)) visited (r\<lparr>sr_queue := butlast (sr_queue r)\<rparr>) c st of
        (SearchStop a, visited, c, st) \<Rightarrow> (SearchStop a, visited, c, st)
      | (SearchGo r, visited, c, st) \<Rightarrow> search_loop cf w q limit room clean root visited r c st)"
  by pat_completeness auto
termination
proof (relation "measure (\<lambda>(cf, w, q, limit, room, clean, root, visited, r, c, st). (limit - visited) + length (sr_queue r))", goal_cases)
  case (2 cf w q limit room clean root v r c st x y r' v' y' c' st')
  then have "search_dir cf w q limit room clean root (last (sr_queue r)) v (r\<lparr>sr_queue := butlast (sr_queue r)\<rparr>) c st = (SearchGo r', v', c', st')" by simp
  from search_dir_counts [OF this] 2(1) show ?case by (cases "sr_queue r" rule: rev_cases) auto
qed simp

declare search_loop.simps [simp del]

section \<open>search\_files\<close>

record search_args =
  sa_Pattern :: "string option"
  sa_Literal :: bool
  sa_Path :: string
  sa_Glob :: string

definition regexp_QuoteMeta :: "string \<Rightarrow> string" where
  "regexp_QuoteMeta s = concat (map (\<lambda>c. if c \<in> set ''.+*?()|[]{}^$'' \<or> c = backslash then [backslash, c] else [c]) s)"

definition search_notes :: "search_run \<Rightarrow> string list" where
  "search_notes r =
     map (\<lambda>(key, n). key @ ''='' @ strconv_Itoa n) (sort_key fst (sr_skipped r))
     @ (if sr_cuts r > 0 then [''lines_cut='' @ strconv_Itoa (sr_cuts r)] else [])
     @ (if sr_truncated r then [''truncated; narrow path or glob''] else [])"

definition search_text :: "search_run \<Rightarrow> string" where
  "search_text r =
     (let matches = map sm_text (sort_key (\<lambda>m. (sm_rel m, sm_line m)) (sr_found r))
          @ (if search_notes r = [] then [] else [''[search_files: '' @ strings_Join (search_notes r) '', '' @ '']''])
      in if matches = [] then ''[search_files: no matches]'' else strings_Join matches [CHR 0x0A])"

definition search_start :: search_run where
  "search_start = \<lparr>sr_found = [], sr_used = 0, sr_truncated = False, sr_cuts = 0, sr_skipped = [], sr_queue = []\<rparr>"

text \<open>
  What is searched first: the directory asked for, or the one file. \<open>Inl\<close> is the answer of a search that ends here.
\<close>

definition search_begin :: "ws_config \<Rightarrow> world \<Rightarrow> search_query \<Rightarrow> nat \<Rightarrow> string \<Rightarrow> dir_node \<Rightarrow> dir_node \<Rightarrow> cursor \<Rightarrow> ws_state
    \<Rightarrow> search_next \<times> cursor \<times> ws_state" where
  "search_begin cf w q room clean root parent c st =
     (if clean = ''.'' then (SearchGo (search_start\<lparr>sr_queue := [root]\<rparr>), c, st)
      else let name = path_Base clean in
        if hiddenName name then (SearchStop (search_error cf PathNotListed clean), c, st)
        else (case cursor_to cf w parent c st of
                (Inl e, c, st) \<Rightarrow> (SearchStop (search_error cf (rootFailure e) clean), c, st)
              | (Inr dir, c, st) \<Rightarrow>
                 (case lstat w dir name st of
                    (Inl e, st) \<Rightarrow> (SearchStop (search_error cf (rootFailure (Sys e)) clean), c, st)
                  | (Inr info, st) \<Rightarrow>
                     if fi_kind info = Directory then
                       (case node_child parent name info st of (child, st) \<Rightarrow> (SearchGo (search_start\<lparr>sr_queue := [child]\<rparr>), c, st))
                     else (case inspect cf w q room root parent name info search_start c st of
                             (Some e, r, c, st) \<Rightarrow> (SearchStop Interrupted, c, st)
                           | (None, r, c, st) \<Rightarrow> (SearchGo r, c, st)))))"

definition search_run_from :: "ws_config \<Rightarrow> world \<Rightarrow> search_query \<Rightarrow> string \<Rightarrow> dir_node \<Rightarrow> dir_node \<Rightarrow> cursor \<Rightarrow> ws_state \<Rightarrow> tool_answer \<times> ws_state" where
  "search_run_from cf w q clean root parent c st =
     (let room = cf_budget cf - 1024 in
      case search_begin cf w q room clean root parent c st of
        (SearchStop a, c, st) \<Rightarrow> (a, cursor_close c st)
      | (SearchGo r, c, st) \<Rightarrow>
         (case search_loop cf w q maxListVisited room clean root 0 r c st of
            (SearchStop a, visited, c, st) \<Rightarrow> (a, cursor_close c st)
          | (SearchGo r, visited, c, st) \<Rightarrow> (Answer \<lparr>wr_Content = search_text r, wr_IsError = False\<rparr>, cursor_close c st)))"

definition search_clean :: "ws_config \<Rightarrow> world \<Rightarrow> search_query \<Rightarrow> string \<Rightarrow> ws_state \<Rightarrow> tool_answer \<times> ws_state" where
  "search_clean cf w q clean st =
     (case checkpoint w st of (ended, st) \<Rightarrow>
        if ended then (Interrupted, st)
        else (case rootNode cf w st of
                (Inl e, st) \<Rightarrow> (search_error cf FileUnreadable clean, st)
              | (Inr root, st) \<Rightarrow>
                 (case (if clean = ''.'' then (Inr root, newCursor cf root listPolicy, st)
                        else listTarget cf w (newCursor cf root listPolicy) root (path_Dir clean) st) of
                    (Inl code, c, st) \<Rightarrow> (search_error cf code clean, cursor_close c st)
                  | (Inr parent, c, st) \<Rightarrow> search_run_from cf w q clean root parent c st)))"

definition searchFiles :: "ws_config \<Rightarrow> world \<Rightarrow> (string \<Rightarrow> (string \<Rightarrow> bool) option) \<Rightarrow> (string \<Rightarrow> string \<Rightarrow> bool option) \<Rightarrow> search_args option \<Rightarrow> ws_state
    \<Rightarrow> tool_answer \<times> ws_state" where
  "searchFiles cf w compile path_match args st =
     (if ToolAvailability (cf_goos cf) ''search_files'' \<noteq> [] then (contentRefusal cf ''search_files'', st)
      else case args of
        None \<Rightarrow> (search_error cf ArgumentsInvalid [], st)
      | Some a \<Rightarrow>
         (case sa_Pattern a of
            None \<Rightarrow> (search_error cf ArgumentsInvalid [], st)
          | Some pattern \<Rightarrow>
             if length pattern > maxSearchPatternBytes \<or> length (sa_Glob a) > 1024 then (search_error cf ArgumentsInvalid [], st)
             else (case (compile (if sa_Literal a then regexp_QuoteMeta pattern else pattern), path_match (sa_Glob a) []) of
                     (Some matches, Some b) \<Rightarrow>
                       (case resolveName (cf_goos cf) (sa_Path a) True of
                          Inl code \<Rightarrow> (search_error cf code (sa_Path a), st)
                        | Inr clean \<Rightarrow>
                           search_clean cf w \<lparr>sq_matches = matches, sq_glob = sa_Glob a, sq_globs = (\<lambda>s. path_match (sa_Glob a) s = Some True)\<rparr> clean st)
                   | _ \<Rightarrow> (search_error cf ArgumentsInvalid [], st))))"

section \<open>What a search shows\<close>

text \<open>Every match there can be: a line of a file opened at the path that is shown for it, with a path the glob admits.\<close>

definition search_total :: "ws_config \<Rightarrow> world \<Rightarrow> search_query \<Rightarrow> search_match set" where
  "search_total cf w q = {m. \<exists>rel f. opened_at cf w listPolicy (strings_Split rel slash) f \<and> glob_admits q rel
     \<and> m \<in> file_matches w (sq_matches q) rel f}"

lemma search_ok_cursor: "search_ok cf w root Q c st \<Longrightarrow> cursor_ok cf w c \<and> cu_policy c = listPolicy"
  using nodes_ok_cursor by (auto simp: search_ok_def)

lemma search_ok_mono: "search_ok cf w root Q c st \<Longrightarrow> Q' \<subseteq> Q \<Longrightarrow> st_fresh st \<le> st_fresh st' \<Longrightarrow> search_ok cf w root Q' c st'"
  using nodes_ok_mono [of cf w st c "insert root Q" "insert root Q'"] by (auto simp: search_ok_def)

lemma search_ok_to:
  assumes "cursor_to cf w n c st = (x, c', st')" "search_ok cf w root Q c st" "n \<in> Q"
  shows "search_ok cf w root Q c' st'"
proof -
  have "nodes_ok cf w st c (insert root Q)" using assms(2) by (simp add: search_ok_def)
  from cursor_to_nodes [OF assms(1) this insertI2 [OF assms(3)]] cursor_to_sound [OF assms(1)] assms(2) search_ok_cursor [OF assms(2)]
  show ?thesis by (auto simp: search_ok_def)
qed

lemma search_ok_child:
  assumes "node_child node name info st = (child, st')" "search_ok cf w root Q c st" "node \<in> Q"
  shows "search_ok cf w root (insert child Q) c st'"
proof -
  have "nodes_ok cf w st' c (insert child (insert root Q))"
    by (rule nodes_ok_child [OF _ insertI2 [OF assms(3)] assms(1)]) (use assms(2) in \<open>simp add: search_ok_def\<close>)
  then show ?thesis using assms(2) by (simp add: search_ok_def insert_commute [of root])
qed

lemma search_ok_open:
  assumes "openRegular cf w c root rel st = (x, c', st')" "search_ok cf w root Q c st" "kinds_stable w"
  shows "search_ok cf w root Q c' st' \<and> st_fresh st \<le> st_fresh st' \<and> (\<forall>f. x = Inr f \<longrightarrow> opened_at cf w listPolicy (strings_Split rel slash) f)"
proof -
  have ok: "nodes_ok cf w st c (insert root Q)" "cu_policy c = listPolicy" "dn_parent root = None" using assms(2) by (auto simp: search_ok_def)
  have git: "wp_git (cu_policy c)" by (simp add: ok(2) listPolicy_def)
  have "node_names root = []" using ok(3) by (cases root rule: node_chain.cases) auto
  with open_walk_named [OF assms(1) [unfolded openRegular_def] ok(1) insertI1 assms(3) git]
    open_walk_sound [OF assms(1) [unfolded openRegular_def] conjunct1 [OF search_ok_cursor [OF assms(2)]] assms(3)] ok(2,3)
  show ?thesis by (auto simp: search_ok_def)
qed

lemma openRegular_total:
  assumes "openRegular cf w c root rel st1 = (Inr f, c', st')" "search_ok cf w root Q c st" "st_fresh st \<le> st_fresh st1" "kinds_stable w" "glob_admits q rel"
  shows "file_matches w (sq_matches q) rel f \<subseteq> search_total cf w q"
  using search_ok_open [OF assms(1) search_ok_mono [OF assms(2) subset_refl assms(3)] assms(4)] assms(5) by (auto simp: search_total_def)

lemma inspect_ok:
  assumes "inspect cf w q room root node name info r c st = (e, r', c', st')" "search_ok cf w root Q c st" "kinds_stable w"
  shows "search_ok cf w root Q c' st' \<and> st_fresh st \<le> st_fresh st'"
proof -
  obtain ended st1 where cp: "checkpoint w st = (ended, st1)" by fastforce
  have f1: "st_fresh st \<le> st_fresh st1" using call_keeps(1) [OF cp] by (simp add: keeps_def)
  note ok1 = search_ok_mono [OF assms(2) subset_refl f1]
  let ?rel = "path_Join [dn_rel node, name]"
  obtain x c1 st2 where o: "openRegular cf w c root ?rel st1 = (x, c1, st2)" by (metis prod_cases3)
  note os = search_ok_open [OF o ok1 assms(3)]
  have ok3: "search_ok cf w root Q c1 (release_handle st3) \<and> st_fresh st2 \<le> st_fresh st3" if "inspect_opened w q room ?rel f r st2 = (e1, r1, st3)" for f e1 r1 st3
    using search_ok_mono [OF conjunct1 [OF os] subset_refl, of "release_handle st3"] inspect_opened_adds [OF that] by (simp add: keeps_def)
  show ?thesis
  proof (cases x)
    case (Inl code)
    then have "(c', st') = (c, st1) \<or> (c', st') = (c1, st2)" using assms(1) cp o by (auto simp: inspect_def Let_def split: if_splits)
    then show ?thesis using ok1 os f1 by auto
  next
    case (Inr f)
    obtain e1 r1 st3 where i: "inspect_opened w q room ?rel f r st2 = (e1, r1, st3)" by (metis prod_cases3)
    have "(c', st') = (c, st1) \<or> (c', st') = (c1, release_handle st3)"
      using assms(1) cp o Inr i by (auto simp: inspect_def Let_def split: if_splits)
    then show ?thesis using ok1 os f1 ok3 [OF i] by auto
  qed
qed

lemma inspect_queue: "inspect cf w q room root node name info r c st = (e, r', c', st') \<Longrightarrow> sr_queue r' = sr_queue r"
proof -
  have lines: "search_lines w q room rel n ls r st = (e, r', st') \<Longrightarrow> sr_queue r' = sr_queue r" for rel n ls r st e r' st'
    by (induction ls arbitrary: n r st) (auto simp: Let_def split: prod.splits if_splits)
  show "inspect cf w q room root node name info r c st = (e, r', c', st') \<Longrightarrow> sr_queue r' = sr_queue r"
    by (auto simp: inspect_def inspect_opened_def skip_def skip_key_def Let_def dest!: lines split: prod.splits sum.splits if_splits)
qed

lemma inspect_keeps:
  assumes "inspect cf w q room root node name info r c st = (e, r', c', st')" "search_ok cf w root Q c st" "kinds_stable w"
  shows "walk_keeps cf w (c, st) (c', st')"
proof -
  have ok: "cursor_ok cf w c" using search_ok_cursor [OF assms(2)] by simp
  obtain ended st1 where cp: "checkpoint w st = (ended, st1)" by fastforce
  have w1: "walk_keeps cf w (c, st) (c, st1)" by (rule walk_keeps_after [OF walk_keeps_refl [OF ok] call_keeps(1) [OF cp]])
  let ?rel = "path_Join [dn_rel node, name]"
  obtain x c1 st2 where o: "openRegular cf w c root ?rel st1 = (x, c1, st2)" by (metis prod_cases3)
  note os = open_walk_sound [OF o [unfolded openRegular_def] ok assms(3)]
  have "st_fresh st \<le> st_fresh st1" using call_keeps(1) [OF cp] by (simp add: keeps_def)
  then have fo: "st_fresh st1 \<le> st_fresh st2" using search_ok_open [OF o search_ok_mono [OF assms(2) subset_refl] assms(3)] by simp
  show ?thesis
  proof (cases x)
    case (Inl code)
    then have "walk_keeps cf w (c, st1) (c1, st2)" using os fo by (simp add: walk_keeps_def)
    then have w2: "walk_keeps cf w (c, st) (c1, st2)" by (rule walk_keeps_before [OF _ call_keeps(1) [OF cp]])
    have "(c', st') = (c, st1) \<or> (c', st') = (c1, st2)" using assms(1) cp o Inl by (auto simp: inspect_def Let_def split: if_splits)
    then show ?thesis using w1 w2 by auto
  next
    case (Inr f)
    obtain e1 r1 st3 where i: "inspect_opened w q room ?rel f r st2 = (e1, r1, st3)" by (metis prod_cases3)
    have "walk_keeps cf w (c, st1) (c1, release_handle st3)"
      using os fo Inr inspect_opened_adds [OF i] by (simp add: walk_keeps_def keeps_def release_handle_def)
    then have w2: "walk_keeps cf w (c, st) (c1, release_handle st3)" by (rule walk_keeps_before [OF _ call_keeps(1) [OF cp]])
    have "(c', st') = (c, st1) \<or> (c', st') = (c1, release_handle st3)"
      using assms(1) cp o Inr i by (auto simp: inspect_def Let_def split: if_splits)
    then show ?thesis using w1 w2 by auto
  qed
qed

lemma search_visit_keeps:
  assumes "search_visit cf w q room root node v name (r, c, dir) st = (x, (r', c', dir'), st')" "search_ok cf w root (insert node (set (sr_queue r))) c st" "kinds_stable w"
  shows "walk_keeps cf w (c, st) (c', st') \<and> search_ok cf w root (insert node (set (sr_queue r'))) c' st'"
proof -
  have ok: "cursor_ok cf w c" using search_ok_cursor [OF assms(2)] by simp
  have stay: "walk_keeps cf w (c, st) (c, s) \<and> search_ok cf w root (insert node (set (sr_queue r))) c s" if "keeps st s" for s
    using walk_keeps_after [OF walk_keeps_refl [OF ok] that] search_ok_mono [OF assms(2) subset_refl] that by (simp add: keeps_def)
  show ?thesis
  proof (cases "hiddenName name")
    case False
    obtain y st1 where ls: "lstat w dir name st = (y, st1)" by fastforce
    note k1 = call_keeps(2) [OF ls] note s1 = stay [OF k1]
    consider (plain) info where "y = Inr info" "fi_kind info \<noteq> Directory" | (sub) info where "y = Inr info" "fi_kind info = Directory" | (lost) e where "y = Inl e"
      by (cases y) auto
    then show ?thesis
    proof cases
      case plain
      obtain e r1 c1 st2 where i: "inspect cf w q room root node name info r c st1 = (e, r1, c1, st2)" by (metis prod_cases4)
      have q1: "sr_queue r1 = sr_queue r" by (rule inspect_queue [OF i])
      have w2: "walk_keeps cf w (c, st) (c1, st2)" using walk_keeps_trans [OF conjunct1 [OF s1] inspect_keeps [OF i conjunct2 [OF s1] assms(3)]] .
      have ok2: "search_ok cf w root (insert node (set (sr_queue r1))) c1 st2" using inspect_ok [OF i conjunct2 [OF s1] assms(3)] q1 by simp
      obtain d c2 st3 where to: "cursor_to cf w node c1 st2 = (d, c2, st3)" by (metis prod_cases3)
      have w3: "walk_keeps cf w (c, st) (c2, st3)"
        by (rule walk_keeps_trans [OF w2 cursor_to_keeps [OF to]]) (use search_ok_cursor [OF ok2] in simp)
      have ok3: "search_ok cf w root (insert node (set (sr_queue r1))) c2 st3" by (rule search_ok_to [OF to ok2 insertI1])
      have "r' = r1" "(c', st') = (c1, st2) \<or> (c', st') = (c2, st3)"
        using assms(1) False ls plain i to by (auto simp: search_visit_def split: option.splits sum.splits)
      then show ?thesis using w2 w3 ok2 ok3 by auto
    next
      case sub
      obtain child st2 where ch: "node_child node name info st1 = (child, st2)" by fastforce
      have k2: "keeps st st2" using k1 call_keeps(6) [OF ch] keeps_trans by blast
      have ok2: "search_ok cf w root (insert node (set (sr_queue r @ [child]))) c st2"
        using search_ok_child [OF ch conjunct2 [OF s1] insertI1] by (simp add: insert_commute)
      have "c' = c" "sr_queue r' = sr_queue r @ [child]" "keeps st2 st'"
        using assms(1) False ls sub ch by (auto simp: search_visit_def dest!: visit_on_run)
      then show ?thesis using stay [OF keeps_trans [OF k2]] search_ok_mono [OF ok2 subset_refl, of st'] by (auto simp: keeps_def)
    next
      case lost
      then have "c' = c" "sr_queue r' = sr_queue r" "keeps st1 st'"
        using assms(1) False ls by (auto simp: search_visit_def skip_def skip_key_def dest!: visit_on_run)
      then show ?thesis using stay [OF keeps_trans [OF k1]] by auto
    qed
  next
    case True
    with assms(1) have "c' = c \<and> r' = r \<and> keeps st st'" by (auto simp: search_visit_def dest!: visit_on_run)
    then show ?thesis using stay by blast
  qed
qed

interpretation search_keeps: visit_invariant w f "search_visit cf w q room root node"
  "\<lambda>v (r, c, dir) st. kinds_stable w \<longrightarrow> search_ok cf w root (insert node (set (sr_queue r))) c st
     \<and> walk_keeps cf w x0 (c, st) \<and> v0 \<le> v \<and> search_adds (search_total cf w q) room (v - v0) r0 r"
  for w f cf q room root node v0 r0 x0
proof (unfold_locales, goal_cases)
  case (1 name v a st x a' st')
  obtain r c dir r' c' dir' where a: "a = (r, c, dir)" "a' = (r', c', dir')" by (metis prod_cases3)
  show ?case
    unfolding a prod.case
  proof (intro impI)
    assume h: "kinds_stable w"
    then have i: "search_ok cf w root (insert node (set (sr_queue r))) c st" "walk_keeps cf w x0 (c, st)" "v0 \<le> v"
      "search_adds (search_total cf w q) room (v - v0) r0 r" using 1(3) a by auto
    note run = 1(2) [unfolded a]
    have "search_adds (search_total cf w q) room 1 r r'"
      by (rule search_visit_adds [OF run openRegular_total [OF _ i(1) _ h]])
    from search_adds_trans [OF i(4) this] i(3) have "search_adds (search_total cf w q) room (Suc v - v0) r0 r'" by (simp add: Suc_diff_le)
    moreover note keep = search_visit_keeps [OF run i(1) h]
    moreover have "walk_keeps cf w x0 (c', st')" using walk_keeps_trans [OF i(2)] keep by blast
    ultimately show "search_ok cf w root (insert node (set (sr_queue r'))) c' st' \<and> walk_keeps cf w x0 (c', st') \<and> v0 \<le> Suc v
        \<and> search_adds (search_total cf w q) room (Suc v - v0) r0 r'" using i(3) by simp
  qed
next
  case (2 v a st)
  obtain r c dir where a: "a = (r, c, dir)" by (metis prod_cases3)
  have "search_ok cf w root Q c st \<Longrightarrow> search_ok cf w root Q c (st\<lparr>st_clock := Suc (st_clock st)\<rparr>)" for Q by (erule search_ok_mono) auto
  with 2 show ?case by (auto simp: a walk_keeps_def)
qed

lemma eachName_search:
  assumes "eachName cf w dir limit (search_visit cf w q room root node) v (r, c, dir) st = (err, capped, v', (r', c', dir'), st')"
    "search_ok cf w root (insert node (set (sr_queue r))) c st" "kinds_stable w"
  shows "walk_keeps cf w (c, st) (c', st') \<and> search_adds (search_total cf w q) room (v' - v) r r' \<and> v \<le> v' \<and> (v' \<le> limit \<or> v' = v)
    \<and> search_ok cf w root (insert node (set (sr_queue r'))) c' st'"
  using assms(1)
proof (cases rule: eachName_cases)
  case (lost e)
  then show ?thesis
    using openIn_sound(1) [OF lost(1)] search_ok_cursor [OF assms(2)] search_ok_mono [OF assms(2) subset_refl, of st'] by (auto simp: walk_keeps_def)
next
  case (read st1 st2)
  have o: "st_fresh st1 = st_fresh st" "st_log st1 = st_log st" "st_handles st1 = st_handles st + 1" using openIn_sound(1) [OF read(1)] by auto
  then have "search_ok cf w root (insert node (set (sr_queue r))) c st1" using search_ok_mono [OF assms(2) subset_refl] by simp
  with search_keeps.batches [OF read(2), where ?x0.0 = "(c, st1)" and ?v0.0 = v and ?r0.0 = r] assms(3) walk_keeps_refl search_ok_cursor [OF assms(2)]
  have "walk_keeps cf w (c, st1) (c', st2)" "search_adds (search_total cf w q) room (v' - v) r r'" "v \<le> v'" "v' \<le> limit \<or> v' = v"
    "search_ok cf w root (insert node (set (sr_queue r'))) c' st2" by auto
  then show ?thesis using o read(3) search_ok_mono [of cf w root _ c' st2 _ "release_handle st2"] by (auto simp: walk_keeps_def)
qed

text \<open>What a step of the walk adds: the directory it takes from the queue pays for the one entry it may skip.\<close>

definition search_grows :: "search_match set \<Rightarrow> nat \<Rightarrow> nat \<Rightarrow> search_run \<Rightarrow> search_run \<Rightarrow> bool" where
  "search_grows ms room k r r' \<longleftrightarrow>
     (\<exists>new. sr_found r' = sr_found r @ new \<and> set new \<subseteq> ms \<and> sr_used r' = sr_used r + sum_list (map (\<lambda>m. length (sm_text m) + 1) new)
        \<and> (length (sr_found r) \<le> maxSearchMatches \<longrightarrow> length (sr_found r') \<le> maxSearchMatches) \<and> (sr_used r \<le> room \<longrightarrow> sr_used r' \<le> room)
        \<and> sr_cuts r' \<le> sr_cuts r + length new + k)
     \<and> skips r' + length (sr_queue r') \<le> skips r + length (sr_queue r) + k \<and> (keys_ok (sr_skipped r) \<longrightarrow> keys_ok (sr_skipped r'))"

lemma search_grows_refl [simp]: "search_grows ms room k r r"
  by (simp add: search_grows_def)

lemma search_grows_trans:
  assumes "search_grows ms room k r1 r2" "search_grows ms room l r2 r3" shows "search_grows ms room (k + l) r1 r3"
proof -
  obtain new1 new2 where "sr_found r2 = sr_found r1 @ new1" "set new1 \<subseteq> ms" "sr_used r2 = sr_used r1 + sum_list (map (\<lambda>m. length (sm_text m) + 1) new1)"
    "sr_cuts r2 \<le> sr_cuts r1 + length new1 + k"
    "sr_found r3 = sr_found r2 @ new2" "set new2 \<subseteq> ms" "sr_used r3 = sr_used r2 + sum_list (map (\<lambda>m. length (sm_text m) + 1) new2)"
    "sr_cuts r3 \<le> sr_cuts r2 + length new2 + l"
    using assms unfolding search_grows_def by blast
  then show ?thesis using assms unfolding search_grows_def by (intro conjI exI [of _ "new1 @ new2"]) auto
qed

lemma search_adds_grows: "search_adds ms room k r r' \<Longrightarrow> search_grows ms room k r r'"
  by (auto simp: search_adds_def search_grows_def)

lemma note_cases: "noteDirSkip e r = r \<or> (\<exists>key \<in> skip_keys. noteDirSkip e r = skip_key key r)"
  by (cases "(e, r)" rule: noteDirSkip.cases) (auto simp del: code_text.simps simp: skip_def intro: skip_keys_code)

lemma note_fields: "sr_found (noteDirSkip e r) = sr_found r" "sr_used (noteDirSkip e r) = sr_used r" "sr_cuts (noteDirSkip e r) = sr_cuts r"
  "sr_queue (noteDirSkip e r) = sr_queue r" "skips (noteDirSkip e r) \<le> Suc (skips r)" "keys_ok (sr_skipped r) \<Longrightarrow> keys_ok (sr_skipped (noteDirSkip e r))"
  using note_cases [of e r] by (auto simp: skip_key_def skips_def bump_ok)

lemma popped_grows:
  assumes "search_adds ms room k (r\<lparr>sr_queue := butlast (sr_queue r)\<rparr>) r1" "sr_queue r \<noteq> []"
    "r' = r1\<lparr>sr_truncated := b\<rparr> \<or> r' = noteDirSkip e (r1\<lparr>sr_truncated := b\<rparr>) \<or> r' = noteDirSkip e r1"
  shows "search_grows ms room k r r'"
proof -
  have "skips r1 + length (sr_queue r1) + 1 \<le> skips r + length (sr_queue r) + k"
    using assms(1,2) by (cases "sr_queue r" rule: rev_cases) (auto simp: search_adds_def skips_def)
  moreover have "sr_found r' = sr_found r1" "sr_used r' = sr_used r1" "sr_cuts r' = sr_cuts r1" "sr_queue r' = sr_queue r1" "skips r' \<le> Suc (skips r1)"
    "keys_ok (sr_skipped r1) \<longrightarrow> keys_ok (sr_skipped r')"
    using assms(3) note_fields [where e = e and r = r1] note_fields [where e = e and r = "r1\<lparr>sr_truncated := b\<rparr>"] by (auto simp: skips_def)
  ultimately show ?thesis using assms(1) by (auto simp: search_adds_def search_grows_def)
qed

lemma search_dir_sound:
  assumes "search_dir cf w q limit room clean root (last (sr_queue r)) v (r\<lparr>sr_queue := butlast (sr_queue r)\<rparr>) c st = (x, v', c', st')"
    "search_ok cf w root (set (sr_queue r)) c st" "kinds_stable w" "sr_queue r \<noteq> []"
  shows "walk_keeps cf w (c, st) (c', st') \<and> v \<le> v' \<and> (v' \<le> limit \<or> v' = v)
    \<and> (\<forall>a. x = SearchStop a \<longrightarrow> a = Interrupted \<or> (\<exists>code. a = search_error cf code clean))
    \<and> (\<forall>r'. x = SearchGo r' \<longrightarrow> search_grows (search_total cf w q) room (v' - v) r r' \<and> search_ok cf w root (set (sr_queue r')) c' st')"
proof -
  let ?n = "last (sr_queue r)" and ?r = "r\<lparr>sr_queue := butlast (sr_queue r)\<rparr>"
  obtain ended st1 where cp: "checkpoint w st = (ended, st1)" by fastforce
  have w1: "walk_keeps cf w (c, st) (c, st1)" by (rule walk_keeps_after [OF walk_keeps_refl call_keeps(1) [OF cp]]) (use search_ok_cursor [OF assms(2)] in simp)
  obtain d c1 st2 where to: "cursor_to cf w ?n c st1 = (d, c1, st2)" by (metis prod_cases3)
  have w2: "walk_keeps cf w (c, st) (c1, st2)" by (rule walk_keeps_trans [OF w1 cursor_to_keeps [OF to]]) (use search_ok_cursor [OF assms(2)] in simp)
  have Q: "set (sr_queue r) = insert ?n (set (sr_queue ?r))" using assms(4) by (cases "sr_queue r" rule: rev_cases) auto
  have "search_ok cf w root (insert ?n (set (sr_queue ?r))) c st1"
    using search_ok_mono [OF assms(2) subset_refl] call_keeps(1) [OF cp] Q by (simp add: keeps_def)
  note ok2 = search_ok_to [OF to this insertI1]
  consider (ended) ended | (lost) e where "\<not> ended" "d = Inl e" | (read) dir where "\<not> ended" "d = Inr dir" by (cases d) auto
  then show ?thesis
  proof cases
    case ended
    with assms(1) cp w1 show ?thesis by (auto simp: search_dir_def)
  next
    case lost
    with assms(1) cp to have run: "c' = c1" "st' = st2" "v' = v" "(\<exists>code. x = SearchStop (search_error cf code clean)) \<or> x = SearchGo (noteDirSkip (Failed e) ?r)"
      by (auto simp: search_dir_def split: if_splits)
    have "search_grows (search_total cf w q) room 0 r (noteDirSkip (Failed e) ?r)"
      by (rule popped_grows [OF search_adds_refl assms(4), where e = "Failed e"]) simp
    moreover have "search_ok cf w root (set (sr_queue (noteDirSkip (Failed e) ?r))) c1 st2"
      using search_ok_mono [OF ok2 subset_insertI order_refl] by (simp add: note_fields)
    ultimately show ?thesis using run w2 by auto
  next
    case read
    obtain err capped v1 r1 c2 dir2 st3 where en: "eachName cf w dir limit (search_visit cf w q room root ?n) v (?r, c1, dir) st2 = (err, capped, v1, (r1, c2, dir2), st3)"
      by (metis prod_cases5 prod_cases3)
    note s = eachName_search [OF en ok2 assms(3)]
    obtain e4 st4 where cp4: "checkpoint w st3 = (e4, st4)" by fastforce
    have w4: "walk_keeps cf w (c, st) (c2, st4)" using walk_keeps_after [OF walk_keeps_trans [OF w2 conjunct1 [OF s]] call_keeps(1) [OF cp4]] .
    let ?r1 = "r1\<lparr>sr_truncated := sr_truncated r1 \<or> capped\<rparr>"
    have run: "v' = v1" "c' = c2" "st' = st4" "x = SearchStop Interrupted \<or> (\<exists>code. x = SearchStop (search_error cf code clean))
        \<or> x = SearchGo ?r1 \<or> (\<exists>e. x = SearchGo (noteDirSkip e ?r1))"
      using assms(1) cp read to en cp4 by (auto simp: search_dir_def Let_def split: option.splits if_splits)
    have "search_grows (search_total cf w q) room (v1 - v) r r'" if "x = SearchGo r'" for r'
    proof -
      from run(4) that obtain e where "r' = ?r1 \<or> r' = noteDirSkip e ?r1" by auto
      then show ?thesis by (intro popped_grows [OF conjunct1 [OF conjunct2 [OF s]] assms(4)]) auto
    qed
    moreover have "search_ok cf w root (set (sr_queue r')) c2 st4" if "x = SearchGo r'" for r'
    proof -
      have "sr_queue r' = sr_queue r1" using run(4) that by (auto simp: note_fields)
      moreover have "search_ok cf w root (set (sr_queue r1)) c2 st4"
        by (rule search_ok_mono [OF conjunct2 [OF conjunct2 [OF conjunct2 [OF conjunct2 [OF s]]]]]) (use call_keeps(1) [OF cp4] in \<open>auto simp: keeps_def\<close>)
      ultimately show ?thesis by simp
    qed
    ultimately show ?thesis using run s w4 by auto
  qed
qed

lemma search_loop_sound:
  "search_loop cf w q limit room clean root v r c st = (x, v', c', st') \<Longrightarrow> search_ok cf w root (set (sr_queue r)) c st \<Longrightarrow> kinds_stable w \<Longrightarrow>
     walk_keeps cf w (c, st) (c', st') \<and> v \<le> v' \<and> (v' \<le> limit \<or> v' = v)
    \<and> (\<forall>a. x = SearchStop a \<longrightarrow> a = Interrupted \<or> (\<exists>code. a = search_error cf code clean))
    \<and> (\<forall>r'. x = SearchGo r' \<longrightarrow> search_grows (search_total cf w q) room (v' - v) r r')"
proof (induction "(limit - v) + length (sr_queue r)" arbitrary: v r c st rule: less_induct)
  case less
  show ?case
  proof (cases "sr_queue r = [] \<or> sr_truncated r")
    case True
    with less.prems(1) have "x = SearchGo r" "v' = v" "c' = c" "st' = st" by (auto simp: search_loop.simps [of _ _ _ _ _ _ _ v r])
    then show ?thesis using walk_keeps_refl search_ok_cursor [OF less.prems(2)] by simp
  next
    case False
    then have q: "sr_queue r \<noteq> []" by blast
    let ?r = "r\<lparr>sr_queue := butlast (sr_queue r)\<rparr>"
    obtain y v1 c1 st1 where d: "search_dir cf w q limit room clean root (last (sr_queue r)) v ?r c st = (y, v1, c1, st1)" by (metis prod_cases4)
    note s = search_dir_sound [OF d less.prems(2,3) q]
    have run: "(x, v', c', st') = (case y of SearchStop a \<Rightarrow> (SearchStop a, v1, c1, st1) | SearchGo r \<Rightarrow> search_loop cf w q limit room clean root v1 r c1 st1)"
      using less.prems(1) [symmetric] False d by (cases y) (auto simp: search_loop.simps [of _ _ _ _ _ _ _ v r])
    show ?thesis
    proof (cases y)
      case (SearchGo r1)
      with run have again: "search_loop cf w q limit room clean root v1 r1 c1 st1 = (x, v', c', st')" by simp
      have dec: "(limit - v1) + length (sr_queue r1) < (limit - v) + length (sr_queue r)"
        using search_dir_counts [OF d [unfolded SearchGo]] q by (cases "sr_queue r" rule: rev_cases) auto
      have c1: "search_ok cf w root (set (sr_queue r1)) c1 st1" using s SearchGo by auto
      note ih = less.hyps [OF dec again c1 less.prems(3)]
      have "search_grows (search_total cf w q) room (v' - v) r r'" if "x = SearchGo r'" for r'
        using search_grows_trans [of "search_total cf w q" room "v1 - v" r r1 "v' - v1" r'] s ih that SearchGo by auto
      then show ?thesis using ih s walk_keeps_trans by (auto 0 3)
    qed (use run s in auto)
  qed
qed

definition skip_list :: "string list" where
  "skip_list = ''directories_incomplete'' # map code_text [ArgumentsInvalid, FilePathInvalid, FileOutside, FileNotFound, FileNotRegular, FileNotDirectory,
     FileTooLarge, FileNotText, FileReserved, FileUnreadable, FileLinked, FileOtherMount, FileIsSymlink, PathThroughSymlink, PathNotListed,
     WriteFailed, WriteUnknown, FileReadOnly, MatchNotFound, MatchNotUnique, NotOffered]"

lemma skip_keys_list: "skip_keys \<subseteq> set skip_list"
proof -
  have "code_text c \<in> set skip_list" for c by (cases c) (auto simp: skip_list_def simp del: code_text.simps)
  then show ?thesis by (auto simp: skip_keys_def) (simp add: skip_list_def)
qed

lemma skip_key_length: "key \<in> skip_keys \<Longrightarrow> length key \<le> 22"
  using code_text_length by (auto simp: skip_keys_def simp del: code_text.simps)

lemma keys_count: "keys_ok kns \<Longrightarrow> length kns \<le> 22"
proof -
  assume k: "keys_ok kns"
  then have "length kns = card (set (map fst kns))" by (metis distinct_card keys_ok_def length_map)
  also have "\<dots> \<le> card (set skip_list)" using k skip_keys_list by (intro card_mono) (auto simp: keys_ok_def)
  also have "\<dots> \<le> length skip_list" by (rule card_length)
  finally show "length kns \<le> 22" by (simp add: skip_list_def)
qed

lemma Join_length2: "length (strings_Join xs [c, d]) \<le> sum_list (map (\<lambda>l. length l + 2) xs)"
  by (induction xs "[c, d]" rule: strings_Join.induct) auto

lemma sum_sort_key: "sum_list (map f (sort_key k xs)) = (sum_list (map f xs) :: nat)"
  by (metis mset_map mset_sort sum_mset_sum_list)

lemma search_notes_length:
  assumes "keys_ok (sr_skipped r)" "skips r \<le> 99999" "sr_cuts r \<le> 99999"
  shows "length (strings_Join (search_notes r) '', '') \<le> 720"
proof -
  let ?note = "\<lambda>(key, n). key @ ''='' @ strconv_Itoa n"
  have "length (?note kn) + 2 \<le> 30" if "kn \<in> set (sr_skipped r)" for kn
  proof -
    obtain key n where kn: "kn = (key, n)" by fastforce
    have "n \<le> skips r" using that kn member_le_sum_list [of n "map snd (sr_skipped r)"] by (force simp: skips_def)
    then have "length (strconv_Itoa n) \<le> 5" using Itoa_small [of n] assms(2) by simp
    moreover have "length key \<le> 22" using assms(1) that kn skip_key_length [of key] by (force simp: keys_ok_def)
    ultimately show ?thesis by (simp add: kn)
  qed
  then have "sum_list (map (\<lambda>kn. length (?note kn) + 2) (sr_skipped r)) \<le> sum_list (map (\<lambda>_. 30) (sr_skipped r))" by (intro sum_list_mono) blast
  also have "\<dots> \<le> 660" using keys_count [OF assms(1)] by (simp add: sum_list_triv)
  finally have keys: "sum_list (map (\<lambda>l. length l + 2) (map ?note (sort_key fst (sr_skipped r)))) \<le> 660"
    by (simp only: map_map comp_def sum_sort_key)
  have "sum_list (map (\<lambda>l. length l + 2) (search_notes r)) \<le> 720"
    unfolding search_notes_def map_append sum_list_append using keys Itoa_small [OF assms(3)] by (simp split: if_split)
  then show ?thesis using Join_length2 [of "search_notes r" "CHR '',''" "CHR '' ''"] by simp
qed

lemma search_text_fits:
  assumes "sr_used r = sum_list (map (\<lambda>m. length (sm_text m) + 1) (sr_found r))" "sr_used r \<le> room" "room + 1024 \<le> budget"
    "keys_ok (sr_skipped r)" "skips r \<le> 99999" "sr_cuts r \<le> 99999"
  shows "length (search_text r) \<le> budget"
proof -
  let ?ms = "map sm_text (sort_key (\<lambda>m. (sm_rel m, sm_line m)) (sr_found r))"
  have "sum_list (map (\<lambda>l. length l + 1) ?ms) = sr_used r" by (simp add: assms(1) comp_def sum_sort_key)
  moreover note search_notes_length [OF assms(4-6)]
  moreover note Join_length [of "?ms @ (if search_notes r = [] then [] else [''[search_files: '' @ strings_Join (search_notes r) '', '' @ '']''])" "CHR 0x0A"]
  ultimately show ?thesis using assms(2,3) by (auto simp: search_text_def Let_def split: if_splits)
qed

lemma search_begin_sound:
  assumes "search_begin cf w q room clean root parent c st = (x, c', st')" "search_ok cf w root {parent} c st" "kinds_stable w"
  shows "walk_keeps cf w (c, st) (c', st') \<and> (\<forall>a. x = SearchStop a \<longrightarrow> a = Interrupted \<or> (\<exists>code. a = search_error cf code clean))
    \<and> (\<forall>r. x = SearchGo r \<longrightarrow> search_grows (search_total cf w q) room 1 search_start r
       \<and> search_ok cf w root (set (sr_queue r)) c' st')"
proof (cases "clean = ''.'' \<or> hiddenName (path_Base clean)")
  case True
  with assms(1) have "c' = c \<and> st' = st \<and> ((\<exists>code. x = SearchStop (search_error cf code clean)) \<or> x = SearchGo (search_start\<lparr>sr_queue := [root]\<rparr>))"
    by (auto simp: search_begin_def Let_def split: if_splits)
  moreover have "search_ok cf w root {root} c st" using nodes_ok_mono [of cf w st c "{root, parent}" "{root}" st] assms(2) by (simp add: search_ok_def)
  ultimately show ?thesis using walk_keeps_refl search_ok_cursor [OF assms(2)] by (auto simp: search_grows_def search_start_def skips_def)
next
  case False
  obtain d c1 st1 where to: "cursor_to cf w parent c st = (d, c1, st1)" by (metis prod_cases3)
  have w1: "walk_keeps cf w (c, st) (c1, st1)" by (rule cursor_to_keeps [OF to]) (use search_ok_cursor [OF assms(2)] in simp)
  have ok1: "search_ok cf w root {parent} c1 st1" by (rule search_ok_to [OF to assms(2)]) simp
  show ?thesis
  proof (cases "\<exists>dir info s. d = Inr dir \<and> lstat w dir (path_Base clean) st1 = (Inr info, s)")
    case True
    then obtain dir info st2 where t: "d = Inr dir" "lstat w dir (path_Base clean) st1 = (Inr info, st2)" by blast
    have w2: "walk_keeps cf w (c, st) (c1, st2)" by (rule walk_keeps_after [OF w1 call_keeps(2) [OF t(2)]])
    have ok2: "search_ok cf w root {parent} c1 st2" by (rule search_ok_mono [OF ok1 subset_refl]) (use lstat_state [OF t(2)] in simp)
    obtain child st3 where ch: "node_child parent (path_Base clean) info st2 = (child, st3)" by fastforce
    obtain e r1 c4 st4 where i: "inspect cf w q room root parent (path_Base clean) info search_start c1 st2 = (e, r1, c4, st4)" by (metis prod_cases4)
    have "search_adds (search_total cf w q) room 1 search_start r1"
      by (rule inspect_adds [OF i openRegular_total [OF _ ok2 _ assms(3)]])
    then have g: "search_grows (search_total cf w q) room 1 search_start r1" by (rule search_adds_grows)
    have w3: "walk_keeps cf w (c, st) (c1, st3)" by (rule walk_keeps_after [OF w2 call_keeps(6) [OF ch]])
    have w4: "walk_keeps cf w (c, st) (c4, st4)" by (rule walk_keeps_trans [OF w2 inspect_keeps [OF i ok2 assms(3)]])
    have ok3: "search_ok cf w root {child} c1 st3" by (rule search_ok_mono [OF search_ok_child [OF ch ok2]]) auto
    have ok4: "search_ok cf w root (set (sr_queue r1)) c4 st4"
      by (rule search_ok_mono [OF conjunct1 [OF inspect_ok [OF i ok2 assms(3)]]]) (use inspect_queue [OF i] in \<open>auto simp: search_start_def\<close>)
    have "(x = SearchGo (search_start\<lparr>sr_queue := [child]\<rparr>) \<and> c' = c1 \<and> st' = st3) \<or> ((x = SearchStop Interrupted \<or> x = SearchGo r1) \<and> c' = c4 \<and> st' = st4)"
      using assms(1) False to t ch i by (auto simp: search_begin_def Let_def split: if_splits option.splits)
    then show ?thesis using w3 w4 g ok3 ok4 by (auto simp: search_grows_def search_start_def skips_def)
  next
    case no: False
    have "c' = c1 \<and> keeps st1 st' \<and> (\<exists>code. x = SearchStop (search_error cf code clean))"
      using assms(1) False to no by (auto simp: search_begin_def Let_def split: sum.splits prod.splits if_splits dest: call_keeps(2))
    then show ?thesis using walk_keeps_after [OF w1] by auto
  qed
qed

text \<open>What an answer of a search is: no answer, a refusal, or a text made of matches there were.\<close>

definition search_answer :: "ws_config \<Rightarrow> world \<Rightarrow> search_query \<Rightarrow> tool_answer \<Rightarrow> bool" where
  "search_answer cf w q a \<longleftrightarrow> a = Interrupted \<or> (\<exists>code rel. a = search_error cf code rel)
     \<or> (\<exists>r k. a = Answer \<lparr>wr_Content = search_text r, wr_IsError = False\<rparr> \<and> k \<le> 20001
          \<and> search_grows (search_total cf w q) (cf_budget cf - 1024) k search_start r)"

lemma search_run_sound:
  assumes "search_run_from cf w q clean root parent c st = (a, st')" "search_ok cf w root {parent} c st" "kinds_stable w"
  shows "st_log st' = st_log st \<and> st_handles st' = st_handles st - (int (length (cu_roots c)) - 1) \<and> search_answer cf w q a"
proof -
  let ?room = "cf_budget cf - 1024"
  have close: "st_log (cursor_close c' s) = st_log st \<and> st_handles (cursor_close c' s) = st_handles st - (int (length (cu_roots c)) - 1)"
    if "walk_keeps cf w (c, st) (c', s)" for c' s
    using that cursor_close_handles [of cf w c' s] by (auto simp: walk_keeps_def)
  obtain x c1 st1 where b: "search_begin cf w q ?room clean root parent c st = (x, c1, st1)" by (metis prod_cases3)
  note s = search_begin_sound [OF b assms(2,3)]
  show ?thesis
  proof (cases x)
    case (SearchStop a1)
    with assms(1) b have "a = a1" "st' = cursor_close c1 st1" by (auto simp: search_run_from_def Let_def)
    with close [OF conjunct1 [OF s]] s SearchStop show ?thesis by (auto simp: search_answer_def)
  next
    case (SearchGo r)
    have c1: "search_ok cf w root (set (sr_queue r)) c1 st1" using s SearchGo by auto
    obtain y v c2 st2 where l: "search_loop cf w q maxListVisited ?room clean root 0 r c1 st1 = (y, v, c2, st2)" by (metis prod_cases4)
    note sl = search_loop_sound [OF l c1 assms(3)]
    have w2: "walk_keeps cf w (c, st) (c2, st2)" using walk_keeps_trans s sl by blast
    have run: "st' = cursor_close c2 st2" "a = (case y of SearchStop a \<Rightarrow> a | SearchGo r \<Rightarrow> Answer \<lparr>wr_Content = search_text r, wr_IsError = False\<rparr>)"
      using assms(1) b SearchGo l by (cases y; simp add: search_run_from_def Let_def)+
    have "search_answer cf w q a"
    proof (cases y)
      case stop: (SearchStop a1)
      then show ?thesis using run sl by (auto simp: search_answer_def)
    next
      case go: (SearchGo r2)
      have "search_grows (search_total cf w q) ?room (1 + v) search_start r2"
        using search_grows_trans [of "search_total cf w q" ?room 1 search_start r v r2] s sl SearchGo go by auto
      moreover have "1 + v \<le> 20001" using sl by auto
      ultimately show ?thesis using run go unfolding search_answer_def by (metis search_next.simps(6))
    qed
    then show ?thesis using close [OF w2] run by simp
  qed
qed

lemma search_clean_sound:
  assumes "search_clean cf w q clean st = (a, st')" "kinds_stable w"
  shows "st_handles st' = st_handles st \<and> st_log st' = st_log st \<and> search_answer cf w q a"
proof -
  obtain ended st1 where cp: "checkpoint w st = (ended, st1)" by fastforce
  obtain x st2 where rn: "rootNode cf w st1 = (x, st2)" by fastforce
  have k2: "keeps st st2" "keeps st st1"
    using call_keeps(1) [OF cp] rn by (auto simp: rootNode_def keeps_def split: prod.splits sum.splits dest: fstat_state)
  show ?thesis
  proof (cases "ended \<or> (\<exists>e. x = Inl e)")
    case True
    with assms(1) cp rn have "a = Interrupted \<or> a = search_error cf FileUnreadable clean" "st' = st1 \<or> st' = st2"
      by (auto simp: search_clean_def split: if_splits)
    with k2 show ?thesis unfolding search_answer_def keeps_def by auto
  next
    case False
    then obtain root where root: "\<not> ended" "x = Inr root" by (cases x) auto
    let ?c = "newCursor cf root listPolicy"
    obtain y c3 st3 where t: "(if clean = ''.'' then (Inr root, ?c, st2) else listTarget cf w ?c root (path_Dir clean) st2) = (y, c3, st3)" by (metis prod_cases3)
    have w3: "walk_keeps cf w (?c, st2) (c3, st3)"
      using t newCursor_ok [of cf w root listPolicy] walk_keeps_refl target_walk_keeps by (auto simp: listTarget_def split: if_splits)
    have c3: "cursor_ok cf w c3" "cu_policy c3 = listPolicy" "st_log st3 = st_log st" "st_handles st3 = st_handles st + (int (length (cu_roots c3)) - 1)"
      using w3 k2 by (auto simp: walk_keeps_def keeps_def newCursor_def)
    have n2: "nodes_ok cf w st2 ?c (insert root {root})" "dn_parent root = None" using nodes_ok_root [OF rn [unfolded root(2)]] by simp_all
    have ok3: "search_ok cf w root {parent} c3 st3" if "y = Inr parent" for parent
    proof (cases "parent = root \<and> c3 = ?c \<and> st3 = st2")
      case True
      then show ?thesis using n2 c3(2) by (simp add: search_ok_def)
    next
      case False
      then have "target_walk cf w (strings_Split (path_Dir clean) slash) root ?c st2 = (Inr parent, c3, st3)"
        using t that by (auto simp: listTarget_def split: if_splits)
      from target_walk_nodes [OF this n2(1)] c3(2) n2(2) show ?thesis by (simp add: search_ok_def insert_commute)
    qed
    show ?thesis
    proof (cases y)
      case (Inl code)
      with assms(1) cp rn root t have "a = search_error cf code clean" "st' = cursor_close c3 st3" by (auto simp: search_clean_def)
      then show ?thesis using c3 cursor_close_handles [OF c3(1), of st3] by (auto simp: keeps_def search_answer_def)
    next
      case (Inr parent)
      with assms(1) cp rn root t have "search_run_from cf w q clean root parent c3 st3 = (a, st')" by (auto simp: search_clean_def)
      from search_run_sound [OF this ok3 [OF Inr] assms(2)] c3 show ?thesis by (auto simp: keeps_def)
    qed
  qed
qed

lemma search_total_match:
  assumes "m \<in> search_total cf w q" "sq_glob q = glob" "sq_globs q = globs"
  shows "\<exists>rel f d n. opened_at cf w listPolicy (strings_Split rel slash) f
     \<and> (glob = [] \<or> globs (if slash \<in> set glob then rel else path_Base rel))
     \<and> bytes_of w f d \<and> length d \<le> 1048576 \<and> n < length (strings_Split d (CHR 0x0A)) \<and> sq_matches q (strings_Split d (CHR 0x0A) ! n)
     \<and> m = \<lparr>sm_rel = rel, sm_line = n + 1, sm_text = Cut (rel @ '':'' @ strconv_Itoa (n + 1) @ '': '' @ strings_Split d (CHR 0x0A) ! n) 400\<rparr>"
proof -
  from assms(1) obtain rel f where rf: "opened_at cf w listPolicy (strings_Split rel slash) f" "glob_admits q rel" "m \<in> file_matches w (sq_matches q) rel f"
    unfolding search_total_def by blast
  from rf(3) obtain d n where "bytes_of w f d" "length d \<le> 1048576" "n < length (strings_Split d (CHR 0x0A))" "sq_matches q (strings_Split d (CHR 0x0A) ! n)"
    "m = \<lparr>sm_rel = rel, sm_line = n + 1, sm_text = Cut (match_text rel n (strings_Split d (CHR 0x0A) ! n)) 400\<rparr>"
    unfolding file_matches_def by blast
  then show ?thesis using rf(1,2) assms(2,3) unfolding glob_admits_def match_text_def by blast
qed

text \<open>What a request leads to: it is refused on this platform, it is malformed, or it is searched for with its own pattern and glob.\<close>

lemma searchFiles_cases:
  assumes run: "searchFiles cf w compile path_match args st = (a, st')"
  obtains (off) b where "ToolAvailability (cf_goos cf) ''search_files'' \<noteq> []" "a = Refused b" "st' = st"
    | (bad) code rel where "a = search_error cf code rel" "st' = st"
    | (go) q clean arg pattern where "search_clean cf w q clean st = (a, st')" "args = Some arg" "sa_Pattern arg = Some pattern"
        "compile (if sa_Literal arg then regexp_QuoteMeta pattern else pattern) = Some (sq_matches q)"
        "sq_glob q = sa_Glob arg" "sq_globs q = (\<lambda>s. path_match (sa_Glob arg) s = Some True)"
proof (cases "ToolAvailability (cf_goos cf) ''search_files'' \<noteq> []")
  case True
  with run off show thesis by (auto simp: searchFiles_def contentRefusal_def)
next
  case on: False
  show thesis
  proof (cases "\<exists>arg pattern m b clean. args = Some arg \<and> sa_Pattern arg = Some pattern \<and> length pattern \<le> maxSearchPatternBytes \<and> length (sa_Glob arg) \<le> 1024
      \<and> compile (if sa_Literal arg then regexp_QuoteMeta pattern else pattern) = Some m \<and> path_match (sa_Glob arg) [] = Some b
      \<and> resolveName (cf_goos cf) (sa_Path arg) True = Inr clean")
    case True
    then obtain arg pattern m b clean where t: "args = Some arg" "sa_Pattern arg = Some pattern" "length pattern \<le> maxSearchPatternBytes" "length (sa_Glob arg) \<le> 1024"
      "compile (if sa_Literal arg then regexp_QuoteMeta pattern else pattern) = Some m" "path_match (sa_Glob arg) [] = Some b"
      "resolveName (cf_goos cf) (sa_Path arg) True = Inr clean" by blast
    let ?q = "\<lparr>sq_matches = m, sq_glob = sa_Glob arg, sq_globs = (\<lambda>s. path_match (sa_Glob arg) s = Some True)\<rparr>"
    have "search_clean cf w ?q clean st = (a, st')" using run on t by (simp add: searchFiles_def)
    then show thesis using that(3) [of ?q clean arg pattern] t by simp
  next
    case False
    with run on have "\<exists>code rel. a = search_error cf code rel \<and> st' = st"
      by (simp add: searchFiles_def split: option.splits if_splits sum.splits) (auto split: option.splits sum.splits)
    then show thesis using bad by blast
  qed
qed

lemma search_grown:
  assumes "search_grows (search_total cf w q) (cf_budget cf - 1024) k search_start r" "k \<le> 20001" "4096 \<le> cf_budget cf"
  shows "set (sr_found r) \<subseteq> search_total cf w q" "length (sr_found r) \<le> 200" "length (search_text r) \<le> cf_budget cf"
proof -
  have f: "set (sr_found r) \<subseteq> search_total cf w q" "length (sr_found r) \<le> 200" "sr_used r \<le> cf_budget cf - 1024"
    "sr_used r = sum_list (map (\<lambda>m. length (sm_text m) + 1) (sr_found r))" "sr_cuts r \<le> 99999" "skips r \<le> 99999" "keys_ok (sr_skipped r)"
    using assms(1,2) by (auto simp: search_grows_def search_start_def skips_def keys_ok_def)
  show "length (search_text r) \<le> cf_budget cf" by (rule search_text_fits [OF f(4,3) _ f(7,6,5)]) (use assms(3) in simp)
qed (use assms(1) in \<open>auto simp: search_grows_def search_start_def\<close>)

text \<open>C23.
  Whatever others do to the file system meanwhile, search_files changes nothing and holds no handle afterwards, and its
  answer fits the budget of a result. Every match it shows is a line, with its path and number cut to 400 bytes, that the
  pattern asked for matches, of a text of at most 1 MiB read from a regular file with one link that was opened at exactly the
  path shown, through directories that are not hidden, and whose path or last name the glob admits; nothing else of a file
  is shown.
\<close>

theorem search_files_sound:
  assumes "kinds_stable w" "4096 \<le> cf_budget cf"
  shows "st_handles (snd (searchFiles cf w compile path_match args st)) = st_handles st
    \<and> st_log (snd (searchFiles cf w compile path_match args st)) = st_log st
    \<and> (case fst (searchFiles cf w compile path_match args st) of
         Answer a \<Rightarrow> length (wr_Content a) \<le> cf_budget cf
           \<and> (wr_IsError a \<or> (\<exists>r arg pattern matches. args = Some arg \<and> sa_Pattern arg = Some pattern
                \<and> compile (if sa_Literal arg then regexp_QuoteMeta pattern else pattern) = Some matches
                \<and> wr_Content a = search_text r \<and> length (sr_found r) \<le> 200
                \<and> (\<forall>m \<in> set (sr_found r). \<exists>rel f d n. opened_at cf w listPolicy (strings_Split rel slash) f
                     \<and> (sa_Glob arg = [] \<or> path_match (sa_Glob arg) (if slash \<in> set (sa_Glob arg) then rel else path_Base rel) = Some True)
                     \<and> bytes_of w f d \<and> length d \<le> 1048576 \<and> n < length (strings_Split d (CHR 0x0A)) \<and> matches (strings_Split d (CHR 0x0A) ! n)
                     \<and> m = \<lparr>sm_rel = rel, sm_line = n + 1,
                            sm_text = Cut (rel @ '':'' @ strconv_Itoa (n + 1) @ '': '' @ strings_Split d (CHR 0x0A) ! n) 400\<rparr>)))
       | Refused a \<Rightarrow> ToolAvailability (cf_goos cf) ''search_files'' \<noteq> []
       | b \<Rightarrow> b = Interrupted)"
proof -
  obtain a st' where run: "searchFiles cf w compile path_match args st = (a, st')" by fastforce
  have err: "length (wr_Content (workbenchError p ''search_files'' code rel)) \<le> cf_budget cf" "wr_IsError (workbenchError p t code rel)" for p t code rel
    using error_fits [of "''search_files''" p code rel] assms(2) by (auto simp: workbenchError_def Let_def)
  from run show ?thesis
  proof (cases rule: searchFiles_cases)
    case (go q clean arg pattern)
    note sound = search_clean_sound [OF go(1) assms(1)]
    show ?thesis
    proof (cases "\<exists>r k. a = Answer \<lparr>wr_Content = search_text r, wr_IsError = False\<rparr> \<and> k \<le> 20001
          \<and> search_grows (search_total cf w q) (cf_budget cf - 1024) k search_start r")
      case True
      then obtain r k where r: "a = Answer \<lparr>wr_Content = search_text r, wr_IsError = False\<rparr>" "k \<le> 20001"
        "search_grows (search_total cf w q) (cf_budget cf - 1024) k search_start r" by blast
      note f = search_grown [OF r(3,2) assms(2)]
      have len: "length (wr_Content \<lparr>wr_Content = search_text r, wr_IsError = False\<rparr>) \<le> cf_budget cf" using f(3) by simp
      have "\<exists>r' arg pattern matches. args = Some arg \<and> sa_Pattern arg = Some pattern
          \<and> compile (if sa_Literal arg then regexp_QuoteMeta pattern else pattern) = Some matches
          \<and> search_text r = search_text r' \<and> length (sr_found r') \<le> 200
          \<and> (\<forall>m \<in> set (sr_found r'). \<exists>rel f d n. opened_at cf w listPolicy (strings_Split rel slash) f
               \<and> (sa_Glob arg = [] \<or> path_match (sa_Glob arg) (if slash \<in> set (sa_Glob arg) then rel else path_Base rel) = Some True)
               \<and> bytes_of w f d \<and> length d \<le> 1048576 \<and> n < length (strings_Split d (CHR 0x0A)) \<and> matches (strings_Split d (CHR 0x0A) ! n)
               \<and> m = \<lparr>sm_rel = rel, sm_line = n + 1,
                      sm_text = Cut (rel @ '':'' @ strconv_Itoa (n + 1) @ '': '' @ strings_Split d (CHR 0x0A) ! n) 400\<rparr>)"
        by (rule exI [of _ r], rule exI [of _ arg], rule exI [of _ pattern], rule exI [of _ "sq_matches q"])
          (intro conjI go(2-4) refl f(2) ballI search_total_match [OF subsetD [OF f(1)] go(5,6)])
      then show ?thesis using run r(1) sound len by simp
    next
      case False
      then have "a = Interrupted \<or> (\<exists>code rel. a = search_error cf code rel)" using sound by (auto simp: search_answer_def)
      then show ?thesis using run sound err by (auto simp: keeps_def search_error_def)
    qed
  qed (use run err in \<open>auto simp: search_error_def\<close>)
qed

text \<open>A search of the example.\<close>

definition search_example :: "tool_answer \<times> ws_state" where
  "search_example = searchFiles example_config (quiet example_fs) (\<lambda>p. Some (\<lambda>line. line = p)) (\<lambda>glob s. Some True)
     (Some \<lparr>sa_Pattern = Some ''hello'', sa_Literal = False, sa_Path = [], sa_Glob = []\<rparr>) example_state"

theorem search_files_sound_witness:
  "st_handles (snd search_example) = 0 \<and> st_log (snd search_example) = []
   \<and> (case fst search_example of Answer a \<Rightarrow> length (wr_Content a) \<le> 4096 | b \<Rightarrow> b = Interrupted)"
  using search_files_sound [OF kinds_stable_quiet, of example_config example_fs "\<lambda>p. Some (\<lambda>line. line = p)" "\<lambda>glob s. Some True"
      "Some \<lparr>sa_Pattern = Some ''hello'', sa_Literal = False, sa_Path = [], sa_Glob = []\<rparr>" example_state]
  by (simp add: search_example_def example_config_def example_state_def ToolAvailability_def split: tool_answer.splits)

end
