(* ===== verification/Ws_Worker.thy ===== *)
theory Ws_Worker
  imports Ws_Write
begin

text \<open>
  The worker of a workspace (sandbox/worker.go) and the entry points that go through it (api.go). One goroutine runs the file
  operations one at a time; a caller waits for its answer, but not longer than the grace after its context ends. Every
  choice of a \<open>select\<close>, the passing of the grace and the end of a context are steps of their own, so that every
  interleaving of callers, worker and \<open>close\<close> is a sequence of steps.
\<close>

section \<open>State\<close>

datatype dispatch_result = Settled tool_answer | ContextError | ErrClosed | IOStuck

datatype call_phase = Offering | Awaiting | Lapsed | Returned dispatch_result

text \<open>
  A call of \<open>dispatchResult\<close>: \<open>wc_answer\<close> is its buffered channel, \<open>wc_runs\<close> how often its job was started and \<open>wc_ran\<close> what it
  came to.
\<close>

record ws_call =
  wc_keep :: bool
  wc_ended :: bool
  wc_phase :: call_phase
  wc_answer :: "tool_answer option"
  wc_runs :: nat
  wc_ran :: "tool_answer option"

datatype worker_at = AtTop | AtSelect | Running nat | Gone

record ws_worker =
  wk_at :: worker_at
  wk_stop :: bool
  wk_stuck :: bool
  wk_calls :: "ws_call list"

definition set_call :: "ws_worker \<Rightarrow> nat \<Rightarrow> (ws_call \<Rightarrow> ws_call) \<Rightarrow> ws_worker" where
  "set_call s i f = s\<lparr>wk_calls := (wk_calls s)[i := f (wk_calls s ! i)]\<rparr>"

definition new_call :: "bool \<Rightarrow> ws_call" where
  "new_call keep = \<lparr>wc_keep = keep, wc_ended = False, wc_phase = Offering, wc_answer = None, wc_runs = 0, wc_ran = None\<rparr>"

definition close_workspace :: "ws_worker \<Rightarrow> ws_worker" where
  "close_workspace s = s\<lparr>wk_stop := True\<rparr>"

text \<open>The first \<open>select\<close> of the worker's loop: it does not wait.\<close>

definition worker_top :: "ws_worker \<Rightarrow> ws_worker" where
  "worker_top s = s\<lparr>wk_at := (if wk_stop s then Gone else AtSelect)\<rparr>"

definition worker_accept :: "ws_worker \<Rightarrow> nat \<Rightarrow> ws_worker" where
  "worker_accept s i = (set_call s i (\<lambda>c. c\<lparr>wc_phase := Awaiting, wc_runs := wc_runs c + 1\<rparr>))\<lparr>wk_at := Running i\<rparr>"

definition worker_answer :: "ws_worker \<Rightarrow> nat \<Rightarrow> tool_answer \<Rightarrow> ws_worker" where
  "worker_answer s i a = (set_call s i (\<lambda>c. c\<lparr>wc_answer := Some a, wc_ran := Some a\<rparr>))\<lparr>wk_at := AtTop\<rparr>"

definition call_return :: "ws_worker \<Rightarrow> nat \<Rightarrow> dispatch_result \<Rightarrow> ws_worker" where
  "call_return s i r = set_call s i (\<lambda>c. c\<lparr>wc_phase := Returned r\<rparr>)"

text \<open>A call whose grace has passed without an answer: the workspace is failed and closed.\<close>

definition call_stuck :: "ws_worker \<Rightarrow> nat \<Rightarrow> ws_worker" where
  "call_stuck s i = close_workspace ((call_return s i IOStuck)\<lparr>wk_stuck := True\<rparr>)"

definition call_at :: "ws_worker \<Rightarrow> nat \<Rightarrow> call_phase \<Rightarrow> bool" where
  "call_at s i p \<longleftrightarrow> i < length (wk_calls s) \<and> wc_phase (wk_calls s ! i) = p"

section \<open>Steps\<close>

inductive worker_step :: "ws_worker \<Rightarrow> ws_worker \<Rightarrow> bool" where
  dispatch: "worker_step s (s\<lparr>wk_calls := wk_calls s @ [new_call keep]\<rparr>)"
| context_ends: "i < length (wk_calls s) \<Longrightarrow> worker_step s (set_call s i (\<lambda>c. c\<lparr>wc_ended := True\<rparr>))"
| closing: "worker_step s (close_workspace s)"
| loop: "wk_at s = AtTop \<Longrightarrow> worker_step s (worker_top s)"
| stops: "wk_at s = AtSelect \<Longrightarrow> wk_stop s \<Longrightarrow> worker_step s (s\<lparr>wk_at := Gone\<rparr>)"
| accept: "wk_at s = AtSelect \<Longrightarrow> call_at s i Offering \<Longrightarrow> worker_step s (worker_accept s i)"
| answers: "wk_at s = Running i \<Longrightarrow> worker_step s (worker_answer s i a)"
| closed: "call_at s i Offering \<Longrightarrow> wk_stop s \<Longrightarrow> worker_step s (call_return s i ErrClosed)"
| cancelled: "call_at s i Offering \<Longrightarrow> wc_ended (wk_calls s ! i) \<Longrightarrow> worker_step s (call_return s i ContextError)"
| settled: "call_at s i Awaiting \<Longrightarrow> wc_answer (wk_calls s ! i) = Some a \<Longrightarrow> worker_step s (call_return s i (Settled a))"
| lapses: "call_at s i Awaiting \<Longrightarrow> wc_ended (wk_calls s ! i) \<Longrightarrow> worker_step s (set_call s i (\<lambda>c. c\<lparr>wc_phase := Lapsed\<rparr>))"
| settled_late: "call_at s i Lapsed \<Longrightarrow> wc_answer (wk_calls s ! i) = Some a
    \<Longrightarrow> worker_step s (call_return s i (if wc_keep (wk_calls s ! i) then Settled a else ContextError))"
| grace_over: "call_at s i Lapsed \<Longrightarrow> worker_step s (call_stuck s i)"

inductive_cases worker_stepE: "worker_step s s'"

definition open_worker :: "ws_worker \<Rightarrow> bool" where
  "open_worker s \<longleftrightarrow> s = \<lparr>wk_at = AtTop, wk_stop = False, wk_stuck = False, wk_calls = []\<rparr>"

text \<open>What \<open>write\<close> makes of the result of its dispatch: a call that was cancelled before it started is a definite failure.\<close>

definition ws_write :: "(nat \<Rightarrow> bool) \<Rightarrow> string \<Rightarrow> dispatch_result \<Rightarrow> tool_answer option" where
  "ws_write printable tool r =
     (case r of ContextError \<Rightarrow> Some (Answer (workbenchError printable tool WriteFailed [])) | Settled a \<Rightarrow> Some a | _ \<Rightarrow> None)"

section \<open>The invariant\<close>

text \<open>What each call's channel, phase and history say of each other; \<open>busy\<close> is whether the worker runs its job.\<close>

definition call_ok :: "bool \<Rightarrow> bool \<Rightarrow> ws_call \<Rightarrow> bool" where
  "call_ok stopped busy c \<longleftrightarrow>
     wc_runs c \<le> 1 \<and> wc_answer c = wc_ran c \<and> (busy \<longleftrightarrow> wc_runs c = 1 \<and> wc_ran c = None) \<and> (wc_runs c = 0 \<longrightarrow> wc_ran c = None)
     \<and> (case wc_phase c of
          Offering \<Rightarrow> wc_runs c = 0
        | Awaiting \<Rightarrow> wc_runs c = 1
        | Lapsed \<Rightarrow> wc_runs c = 1 \<and> wc_ended c
        | Returned (Settled a) \<Rightarrow> wc_ran c = Some a
        | Returned ContextError \<Rightarrow> wc_ended c \<and> (wc_runs c = 0 \<or> \<not> wc_keep c \<and> wc_ran c \<noteq> None)
        | Returned ErrClosed \<Rightarrow> wc_runs c = 0 \<and> stopped
        | Returned IOStuck \<Rightarrow> wc_runs c = 1 \<and> stopped)"

definition worker_inv :: "ws_worker \<Rightarrow> bool" where
  "worker_inv s \<longleftrightarrow> (\<forall>i < length (wk_calls s). call_ok (wk_stop s) (wk_at s = Running i) (wk_calls s ! i))
     \<and> (\<forall>i. wk_at s = Running i \<longrightarrow> i < length (wk_calls s)) \<and> (wk_stuck s \<longrightarrow> wk_stop s) \<and> (wk_at s = Gone \<longrightarrow> wk_stop s)"

lemma call_ok_stop: "call_ok stopped busy c \<Longrightarrow> call_ok True busy c"
  by (auto simp: call_ok_def split: call_phase.splits dispatch_result.splits)

text \<open>A change of one call keeps the invariant when it keeps that call's part of it.\<close>

lemma inv_set_call:
  assumes "worker_inv s" "i < length (wk_calls s)" "call_ok (wk_stop s) (at = Running i) (f (wk_calls s ! i))"
    "\<And>j. j \<noteq> i \<Longrightarrow> (at = Running j) = (wk_at s = Running j)" "\<And>j. at = Running j \<Longrightarrow> j < length (wk_calls s)" "at \<noteq> Gone \<or> wk_at s = Gone"
  shows "worker_inv ((set_call s i f)\<lparr>wk_at := at\<rparr>)"
  unfolding worker_inv_def
proof (intro conjI allI impI)
  fix j assume "j < length (wk_calls ((set_call s i f)\<lparr>wk_at := at\<rparr>))"
  then show "call_ok (wk_stop ((set_call s i f)\<lparr>wk_at := at\<rparr>)) (wk_at ((set_call s i f)\<lparr>wk_at := at\<rparr>) = Running j) (wk_calls ((set_call s i f)\<lparr>wk_at := at\<rparr>) ! j)"
    using assms(1-3) assms(4) [of j] by (cases "j = i") (auto simp: worker_inv_def set_call_def)
qed (use assms in \<open>auto simp: worker_inv_def set_call_def\<close>)

lemma inv_call:
  assumes "worker_inv s" "i < length (wk_calls s)"
    "call_ok (wk_stop s) (wk_at s = Running i) (wk_calls s ! i) \<Longrightarrow> call_ok (wk_stop s) (wk_at s = Running i) (f (wk_calls s ! i))"
  shows "worker_inv (set_call s i f)"
proof -
  have "worker_inv ((set_call s i f)\<lparr>wk_at := wk_at s\<rparr>)"
    by (rule inv_set_call [OF assms(1,2)]) (use assms in \<open>auto simp: worker_inv_def\<close>)
  then show ?thesis by (simp add: set_call_def)
qed

lemma inv_of: "worker_inv s \<Longrightarrow> i < length (wk_calls s) \<Longrightarrow> call_ok (wk_stop s) (wk_at s = Running i) (wk_calls s ! i)"
  by (simp add: worker_inv_def)

lemma inv_closed: "worker_inv s \<Longrightarrow> worker_inv (s\<lparr>wk_stop := True, wk_stuck := b\<rparr>)"
  using call_ok_stop by (auto simp: worker_inv_def)

lemma worker_inv_step: "worker_inv s \<Longrightarrow> worker_step s s' \<Longrightarrow> worker_inv s'"
proof (erule worker_stepE, goal_cases)
  case (1 keep)
  then show ?case by (auto simp: worker_inv_def nth_append call_ok_def new_call_def)
next
  case (2 i)
  then show ?case
    by (simp only:) (rule inv_call, auto simp: call_ok_def split: call_phase.splits dispatch_result.splits)
next
  case 3
  then show ?case using inv_closed [of s "wk_stuck s"] by (simp add: close_workspace_def)
next
  case 4
  then show ?case by (auto simp: worker_inv_def worker_top_def)
next
  case 5
  then show ?case by (auto simp: worker_inv_def)
next
  case (6 i)
  then have i: "i < length (wk_calls s)" "wc_phase (wk_calls s ! i) = Offering" by (auto simp: call_at_def)
  with 6 show ?case unfolding worker_accept_def
    by (simp only:) (rule inv_set_call, use inv_of [of s i] in \<open>auto simp: call_ok_def\<close>)
next
  case (7 i a)
  then have i: "i < length (wk_calls s)" by (auto simp: worker_inv_def)
  with 7 show ?case unfolding worker_answer_def
    by (simp only:) (rule inv_set_call, use inv_of [of s i] in \<open>auto simp: call_ok_def split: call_phase.splits dispatch_result.splits\<close>)
next
  case (8 i)
  then show ?case unfolding call_return_def by (simp only:) (rule inv_call, auto simp: call_ok_def call_at_def)
next
  case (9 i)
  then show ?case unfolding call_return_def by (simp only:) (rule inv_call, auto simp: call_ok_def call_at_def)
next
  case (10 i a)
  then show ?case unfolding call_return_def by (simp only:) (rule inv_call, auto simp: call_ok_def call_at_def)
next
  case (11 i)
  then show ?case by (simp only:) (rule inv_call, auto simp: call_ok_def call_at_def)
next
  case (12 i a)
  then show ?case unfolding call_return_def by (simp only:) (rule inv_call, auto simp: call_ok_def call_at_def)
next
  case (13 i)
  let ?s = "s\<lparr>wk_stop := True, wk_stuck := True\<rparr>"
  from 13 have "worker_inv (set_call ?s i (\<lambda>c. c\<lparr>wc_phase := Returned IOStuck\<rparr>))"
    by (intro inv_call inv_closed) (auto simp: call_ok_def call_at_def)
  moreover have "set_call ?s i (\<lambda>c. c\<lparr>wc_phase := Returned IOStuck\<rparr>) = call_stuck s i"
    by (cases s) (simp add: call_stuck_def call_return_def close_workspace_def set_call_def)
  ultimately show ?case using 13 by simp
qed

interpretation worker: invariant_system open_worker worker_step worker_inv
proof
  show "open_worker s \<Longrightarrow> worker_inv s" for s by (auto simp: open_worker_def worker_inv_def)
qed (rule worker_inv_step)

text \<open>What a step can do to a call: the part of its history that is over does not change.\<close>

lemma nth_update: "xs[j := x] ! i = (if i = j \<and> j < length xs then x else xs ! i)"
  by (auto simp: nth_list_update not_less list_update_beyond)

lemma step_keeps_call:
  assumes "worker_step s s'" "i < length (wk_calls s)"
  shows "i < length (wk_calls s') \<and> wc_keep (wk_calls s' ! i) = wc_keep (wk_calls s ! i) \<and> wc_runs (wk_calls s ! i) \<le> wc_runs (wk_calls s' ! i)
    \<and> (\<forall>r. wc_phase (wk_calls s ! i) = Returned r \<longrightarrow> wc_phase (wk_calls s' ! i) = Returned r \<and> wc_runs (wk_calls s' ! i) = wc_runs (wk_calls s ! i))"
  using assms
  by (cases rule: worker_step.cases)
    (auto simp: set_call_def close_workspace_def worker_top_def worker_accept_def worker_answer_def call_return_def call_stuck_def call_at_def nth_append nth_update)

lemma steps_keep_call:
  assumes "worker_step\<^sup>*\<^sup>* s s'" "i < length (wk_calls s)"
  shows "i < length (wk_calls s') \<and> wc_keep (wk_calls s' ! i) = wc_keep (wk_calls s ! i)
    \<and> (\<forall>r. wc_phase (wk_calls s ! i) = Returned r \<longrightarrow> wc_phase (wk_calls s' ! i) = Returned r \<and> wc_runs (wk_calls s' ! i) = wc_runs (wk_calls s ! i))"
  using assms
proof (induction rule: rtranclp_induct)
  case (step t u)
  then show ?case using step_keeps_call [OF step(2), of i] by auto
qed simp

text \<open>C24.
  The worker runs one operation at a time, each at most once, and its callers are told the truth about it: a result is the
  result of the one run of the call's own operation; a write that was cancelled, and any call refused because the workspace is
  closed, has not been started and never will be; and a call abandoned as stuck was started, and leaves the workspace closed.
  A cancelled write may therefore be reported as a definite failure.
\<close>

theorem worker_tells_outcomes:
  assumes "reachable_from open_worker worker_step s" "i < length (wk_calls s)" "wc_phase (wk_calls s ! i) = Returned r" "worker_step\<^sup>*\<^sup>* s s'"
  shows "{j. j < length (wk_calls s) \<and> wc_runs (wk_calls s ! j) > 0 \<and> wc_ran (wk_calls s ! j) = None} = (case wk_at s of Running j \<Rightarrow> {j} | _ \<Rightarrow> {})
    \<and> wc_runs (wk_calls s' ! i) = wc_runs (wk_calls s ! i)
    \<and> (case r of
         Settled a \<Rightarrow> wc_runs (wk_calls s ! i) = 1 \<and> wc_ran (wk_calls s ! i) = Some a
       | ContextError \<Rightarrow> wc_ended (wk_calls s ! i) \<and> (if wc_keep (wk_calls s ! i) then wc_runs (wk_calls s ! i) = 0 else wc_runs (wk_calls s ! i) \<le> 1)
       | ErrClosed \<Rightarrow> wc_runs (wk_calls s ! i) = 0 \<and> wk_stop s
       | IOStuck \<Rightarrow> wc_runs (wk_calls s ! i) = 1 \<and> wk_stop s)"
proof (intro conjI)
  have inv: "worker_inv s" by (rule worker.inv_reachable [OF assms(1)])
  show "{j. j < length (wk_calls s) \<and> wc_runs (wk_calls s ! j) > 0 \<and> wc_ran (wk_calls s ! j) = None} = (case wk_at s of Running j \<Rightarrow> {j} | _ \<Rightarrow> {})"
    using inv by (fastforce simp: worker_inv_def call_ok_def le_Suc_eq split: worker_at.splits)
  show "wc_runs (wk_calls s' ! i) = wc_runs (wk_calls s ! i)" using steps_keep_call [OF assms(4,2)] assms(3) by simp
  show "case r of
         Settled a \<Rightarrow> wc_runs (wk_calls s ! i) = 1 \<and> wc_ran (wk_calls s ! i) = Some a
       | ContextError \<Rightarrow> wc_ended (wk_calls s ! i) \<and> (if wc_keep (wk_calls s ! i) then wc_runs (wk_calls s ! i) = 0 else wc_runs (wk_calls s ! i) \<le> 1)
       | ErrClosed \<Rightarrow> wc_runs (wk_calls s ! i) = 0 \<and> wk_stop s
       | IOStuck \<Rightarrow> wc_runs (wk_calls s ! i) = 1 \<and> wk_stop s"
    using inv_of [OF inv assms(2)] assms(3) by (auto simp: call_ok_def le_Suc_eq split: dispatch_result.splits)
qed

text \<open>A write whose context ends before the worker takes it.\<close>

definition cancelled_worker :: ws_worker where
  "cancelled_worker = \<lparr>wk_at = AtTop, wk_stop = False, wk_stuck = False,
     wk_calls = [(new_call True)\<lparr>wc_ended := True, wc_phase := Returned ContextError\<rparr>]\<rparr>"

lemma cancelled_reachable: "reachable_from open_worker worker_step cancelled_worker"
proof -
  let ?s0 = "\<lparr>wk_at = AtTop, wk_stop = False, wk_stuck = False, wk_calls = []\<rparr>"
  let ?s1 = "?s0\<lparr>wk_calls := wk_calls ?s0 @ [new_call True]\<rparr>"
  let ?s2 = "set_call ?s1 0 (\<lambda>c. c\<lparr>wc_ended := True\<rparr>)"
  have "reachable_from open_worker worker_step ?s0" by (rule reachable_from.intros) (simp add: open_worker_def)
  then have "reachable_from open_worker worker_step ?s1" by (rule reachable_from.intros) (rule dispatch)
  then have "reachable_from open_worker worker_step ?s2" by (rule reachable_from.intros) (rule context_ends, simp)
  then have "reachable_from open_worker worker_step (call_return ?s2 0 ContextError)"
    by (rule reachable_from.intros) (rule cancelled, simp_all add: call_at_def set_call_def new_call_def)
  then show ?thesis by (simp add: cancelled_worker_def call_return_def set_call_def)
qed

theorem worker_tells_outcomes_witness: "wc_runs (wk_calls (close_workspace cancelled_worker) ! 0) = 0"
proof -
  have "worker_step\<^sup>*\<^sup>* cancelled_worker (close_workspace cancelled_worker)" by (intro r_into_rtranclp closing)
  from worker_tells_outcomes [OF cancelled_reachable, of 0 ContextError, OF _ _ this] show ?thesis
    by (simp add: cancelled_worker_def new_call_def)
qed

end
