(* ===== verification/Codex_Events.thy ===== *)
theory Codex_Events
  imports Stream_Events
begin

text \<open>
  The app-server dialect of Codex (session/events_codex.go, and \<open>compactTurnStarted\<close> of compact.go). \<open>encoding/json\<close> has decoded a
  notification's parameters; what the code decodes again on the way is a field that is \<open>None\<close> where that fails, and a string that
  is missing or is not one is empty, as \<open>str\<close> reads it.
\<close>

section \<open>Notifications\<close>

text \<open>
  \<open>item\<close> as a map of raw messages: the bytes under a key and what \<open>str\<close> reads there, with the fields that the code decodes further.
\<close>

record codex_item =
  ci_raw :: "string \<Rightarrow> string"
  ci_str :: "string \<Rightarrow> string"
  ci_exitCode :: "int option"
  ci_error :: "string option"
  ci_content :: tool_content
  ci_contentItems :: "(string \<times> string) list"

datatype codex_error_info = InfoName string | InfoVariant "(string \<times> int option) list" | InfoOther

record codex_turn =
  ct_ID :: string
  ct_Status :: string
  ct_Error :: "codex_error_info option"

text \<open>A usage report: its figures and which of its fields are stated.\<close>

record codex_report =
  xr_usage :: codex_usage
  xr_stated :: "string \<Rightarrow> bool"

record codex_params =
  cp_threadId :: string
  cp_turnId :: string
  cp_itemId :: string
  cp_delta :: string
  cp_item :: "codex_item option"
  cp_context :: "(int64 option option \<times> int64 option) option"
  cp_usage :: "(codex_report option \<times> codex_report option) option"
  cp_turn :: "codex_turn option"
  cp_startedID :: "string option"

section \<open>Tools\<close>

definition codexToolImages :: "string \<Rightarrow> codex_item \<Rightarrow> tool_images" where
  "codexToolImages typ item =
     (if typ = ''imageGeneration'' then
        (if ci_str item ''status'' = ''completed'' \<and> ci_str item ''result'' \<noteq> [] then addGenerated no_images (ci_str item ''result'') else no_images)
      else if typ \<noteq> ''mcpToolCall'' then no_images
      else snd (toolResult (ci_content item)))"

definition codexToolActivity :: "string \<Rightarrow> codex_item \<Rightarrow> string \<times> string \<times> int option" where
  "codexToolActivity typ item =
     (if typ = ''commandExecution'' then (pickFields (ci_raw item) [''command'', ''cwd''], ci_str item ''aggregatedOutput'', ci_exitCode item)
      else if typ = ''fileChange'' then (pickFields (ci_raw item) [''changes''], [], None)
      else if typ = ''mcpToolCall'' then
        (case ci_error item of
           Some message \<Rightarrow> if message \<noteq> [] then (ci_raw item ''arguments'', message, None)
                           else (ci_raw item ''arguments'', toolResultText (ci_content item), None)
         | None \<Rightarrow> (ci_raw item ''arguments'', toolResultText (ci_content item), None))
      else if typ = ''dynamicToolCall'' then
        (ci_raw item ''arguments'', strings_Join (map snd (filter (\<lambda>c. fst c = ''inputText'') (ci_contentItems item))) [CHR 0x0A], None)
      else if typ = ''webSearch'' then
        (pickFields (ci_raw item) [''query'', ''action''], if \<not> Absent (ci_raw item ''results'') then ci_raw item ''results'' else [], None)
      else if typ = ''imageGeneration'' then ([], ci_str item ''savedPath'', None)
      else if typ = ''imageView'' then (pickFields (ci_raw item) [''path''], [], None)
      else if typ = ''collabAgentToolCall'' then (pickFields (ci_raw item) [''prompt'', ''model'', ''receiverThreadIds''], [], None)
      else ([], [], None))"

definition codex_tools :: "string list" where
  "codex_tools = [''commandExecution'', ''fileChange'', ''mcpToolCall'', ''dynamicToolCall'', ''collabAgentToolCall'', ''subAgentActivity'', ''sleep'',
     ''imageGeneration'', ''webSearch'', ''imageView'']"

definition codex_tool_event :: "session \<Rightarrow> bool \<Rightarrow> codex_item \<Rightarrow> event" where
  "codex_tool_event s completed item =
     (let typ = ci_str item ''type'';
          tool = (if ci_str item ''tool'' \<noteq> [] then ci_str item ''tool'' else typ);
          (raw, result, exit) = codexToolActivity typ item;
          e = (event_of (if completed then ''tool_completed'' else ''tool_started''))
                \<lparr>ev_ItemID := ci_str item ''id'', ev_Tool := tool, ev_Status := ci_str item ''status'',
                 ev_ExitCode := (if completed then exit else None)\<rparr>
      in withImages (withToolPayload s e raw (if completed then result else [])) (if completed then codexToolImages typ item else no_images))"

definition codexItem :: "session \<Rightarrow> nat \<Rightarrow> bool \<Rightarrow> codex_item option \<Rightarrow> session" where
  "codexItem s i completed decoded =
     (case decoded of
        None \<Rightarrow> s
      | Some item \<Rightarrow>
         (let typ = ci_str item ''type'' in
          if typ = ''contextCompaction'' then
            (let s1 = invalidateContext s (Some i) ''context compacting; awaiting a fresh observation'';
                 s2 = (if completed then markContext s1 ''compacted'' else s1)
             in session_emit s2 i ((event_of (if completed then ''compaction_completed'' else ''compaction_started''))\<lparr>ev_ItemID := ci_str item ''id''\<rparr>))
          else if typ = ''agentMessage'' then (if completed then session_text s i (ci_str item ''id'') (ci_str item ''text'') True else s)
          else if typ \<in> set codex_tools then session_emit s i (codex_tool_event s completed item)
          else s))"

section \<open>Usage\<close>

definition parseCodexUsage :: "codex_report option \<Rightarrow> codex_usage option" where
  "parseCodexUsage rep =
     (case rep of
        None \<Rightarrow> None
      | Some r \<Rightarrow>
         (let u = xr_usage r in
          if \<not> list_all (xr_stated r) [''inputTokens'', ''outputTokens'', ''cachedInputTokens'', ''reasoningOutputTokens''] then None
          else if sint (xu_Input u) \<ge> 0 \<and> sint (xu_Output u) \<ge> 0 \<and> sint (xu_CacheRead u) \<ge> 0 \<and> sint (xu_CacheRead u) \<le> sint (xu_Input u)
             \<and> sint (xu_CacheWrite u) \<ge> 0 \<and> sint (xu_CacheWrite u) \<le> sint (xu_Input u - xu_CacheRead u)
             \<and> sint (xu_Reasoning u) \<ge> 0 \<and> sint (xu_Reasoning u) \<le> sint (xu_Output u)
          then Some u else None))"

definition normalized :: "codex_usage \<Rightarrow> session_usage" where
  "normalized u = \<lparr>s_Usage = \<lparr>Known = True, Input = xu_Input u, Output = xu_Output u, CacheRead = xu_CacheRead u, CacheWrite = xu_CacheWrite u,
     Reasoning = xu_Reasoning u, CacheKnown = True, ReasoningKnown = True\<rparr>, s_Final = False\<rparr>"

definition count_response :: "codex_usage \<Rightarrow> codex_usage \<Rightarrow> turn \<Rightarrow> turn \<times> bool" where
  "count_response response whole t =
     (let fresh = (tu_lastCodexTotal t \<noteq> whole \<or> \<not> Known (s_Usage (tu_Usage t)))
      in (if fresh then t\<lparr>tu_Usage := Usage_add (tu_Usage t) (normalized response), tu_lastCodexTotal := whole\<rparr> else t, fresh))"

definition codexTokenUsage :: "int \<Rightarrow> session \<Rightarrow> nat \<Rightarrow> codex_params \<Rightarrow> session" where
  "codexTokenUsage now s i p =
     (if cp_turnId p = [] then s
      else let s1 = (case parseCodexContext now (cp_context p) of Some c \<Rightarrow> observeContext s (Some i) c | None \<Rightarrow> s)
        in case cp_usage p of
          None \<Rightarrow> s1
        | Some (last_report, total_report) \<Rightarrow>
           (case (parseCodexUsage last_report, parseCodexUsage total_report) of
              (Some response, Some whole) \<Rightarrow>
                (case count_response response whole (turn_of s1 i) of
                   (t, fresh) \<Rightarrow> if fresh then observeRequestUsage (set_turn i t s1) i (normalized response) else s1)
            | _ \<Rightarrow> s1))"

section \<open>How a turn ends\<close>

definition codexErrors :: "(string \<times> string \<times> cause \<times> bool) list" where
  "codexErrors = [
     (''contextWindowExceeded'', ''context_window_exceeded'', CauseContextLimit, False),
     (''sessionBudgetExceeded'', ''session_budget_exceeded'', CauseUnknown, False),
     (''usageLimitExceeded'', ''usage_limit_exceeded'', CauseQuotaExhausted, False),
     (''rateLimitExceeded'', ''rate_limit_exceeded'', CauseRateLimited, False),
     (''flexUnavailable'', ''flex_unavailable'', CauseUnavailable, False),
     (''serverOverloaded'', ''server_overloaded'', CauseOverloaded, False),
     (''cyberPolicy'', ''cyber_policy'', CauseContentFiltered, False),
     (''misalignmentPolicyViolation'', ''misalignment_policy_violation'', CauseContentFiltered, False),
     (''tooManyDenials'', ''too_many_denials'', CauseUnknown, False),
     (''internalServerError'', ''internal_server_error'', CauseUnknown, False),
     (''unauthorized'', ''unauthorized'', CauseAuthentication, False),
     (''badRequest'', ''bad_request'', CauseUnknown, False),
     (''threadRollbackFailed'', ''thread_rollback_failed'', CauseUnknown, False),
     (''sandboxError'', ''sandbox_error'', CauseUnknown, False),
     (''other'', ''other'', CauseUnknown, False),
     (''httpConnectionFailed'', ''http_connection_failed'', CauseUnknown, True),
     (''responseStreamConnectionFailed'', ''response_stream_connection_failed'', CauseUnknown, True),
     (''responseStreamDisconnected'', ''response_stream_disconnected'', CauseUnknown, True),
     (''responseTooManyFailedAttempts'', ''response_too_many_failed_attempts'', CauseUnknown, True)]"

definition codex_failure :: "string \<Rightarrow> cause \<Rightarrow> turn_error" where
  "codex_failure code cause = \<lparr>te_Engine = Codex, te_Code = code, te_Cause = cause, te_Phase = [], te_RetryAfter = 0, te_ResetsAt = None\<rparr>"

definition codexTurnFailure :: "codex_error_info \<Rightarrow> turn_error option" where
  "codexTurnFailure info =
     (case info of
        InfoName name \<Rightarrow>
          (case map_of codexErrors name of Some (code, cause, False) \<Rightarrow> Some (codex_failure code cause) | _ \<Rightarrow> None)
      | InfoVariant [(name, status)] \<Rightarrow>
          (case map_of codexErrors name of
             Some (code, cause, True) \<Rightarrow> Some (codex_failure code (case status of Some n \<Rightarrow> StatusCause (nat n) | None \<Rightarrow> cause))
           | _ \<Rightarrow> None)
      | _ \<Rightarrow> None)"

text \<open>The copy of a refreshed login made before the turn ends is a file's, and changes nothing of the session.\<close>

definition codexTurnCompleted :: "session \<Rightarrow> nat \<Rightarrow> codex_turn option \<Rightarrow> session" where
  "codexTurnCompleted s i decoded =
     (case decoded of
        None \<Rightarrow> s
      | Some turn \<Rightarrow>
          if ct_ID turn \<noteq> tu_id (turn_of s i) then s
          else let failed = (ct_Status turn = ''failed'');
                   s1 = (if failed then set_turn i (turn_of s i\<lparr>tu_NativeError := True\<rparr>) s else s);
                   err = (if failed then Some (case Option.bind (ct_Error turn) codexTurnFailure of Some f \<Rightarrow> TurnFailure f | None \<Rightarrow> ErrTurnFailed) else None)
               in if ct_Status turn \<notin> {''completed'', ''interrupted'', ''failed''} then failTurn s1 None ErrProtocol
                  else publish_terminal s1 i (ct_Status turn) err)"

definition compactTurnStarted :: "session \<Rightarrow> nat \<Rightarrow> string option \<Rightarrow> session" where
  "compactTurnStarted s i started =
     (if \<not> tu_compacting (turn_of s i) \<or> \<not> tu_awaitingCompactID (turn_of s i) then s
      else if started = None \<or> started = Some [] then failTurn s None ErrProtocol
      else session_emit (set_turn i (compact_started (the started) (turn_of s i)) s) i ((event_of ''status'')\<lparr>ev_Status := ''compacting''\<rparr>))"

section \<open>The dialect\<close>

definition codexEvent :: "int \<Rightarrow> session \<Rightarrow> nat \<Rightarrow> string \<Rightarrow> string \<Rightarrow> codex_params option \<Rightarrow> session" where
  "codexEvent now s i ref_id method params =
     (case params of
        None \<Rightarrow> s
      | Some p \<Rightarrow>
          if cp_threadId p \<noteq> [] \<and> ref_id \<noteq> [] \<and> cp_threadId p \<noteq> ref_id then s
          else if method = ''turn/started'' then compactTurnStarted s i (cp_startedID p)
          else if tu_awaitingCompactID (turn_of s i) then s
          else if cp_turnId p \<noteq> [] \<and> cp_turnId p \<noteq> tu_id (turn_of s i) then s
          else if method = ''item/agentMessage/delta'' then session_text s i (cp_itemId p) (cp_delta p) False
          else if method = ''item/started'' \<or> method = ''item/completed'' then codexItem s i (method = ''item/completed'') (cp_item p)
          else if method = ''thread/tokenUsage/updated'' then codexTokenUsage now s i p
          else if method = ''thread/compacted'' then
            markContext (invalidateContext s (Some i) ''context compacted; awaiting a fresh observation'') ''compacted''
          else if method = ''turn/completed'' then codexTurnCompleted s i (cp_turn p)
          else s)"

section \<open>Every notification is a sequence of steps\<close>

lemma moves_mark_from: "moves cfg s t \<Longrightarrow> moves cfg s (markContext t reason)"
  by (rule moves_trans [OF _ moves_mark])

lemma moves_emit_from: "moves cfg s t \<Longrightarrow> i < length (se_turns s) \<Longrightarrow> moves cfg s (session_emit t i e)"
  by (rule moves_trans [OF _ moves_emit]) (simp_all add: moves_length)

lemma moves_item: "i < length (se_turns s) \<Longrightarrow> moves cfg s (codexItem s i completed item)"
proof (cases item)
  case (Some it)
  assume i: "i < length (se_turns s)"
  have inv: "moves cfg s (invalidateContext s (Some i) r)" for r using i by (intro moves_observe) simp
  then show ?thesis using Some i moves_mark_from [OF inv] moves_emit_from [of cfg s _ i]
    by (auto simp: codexItem_def Let_def intro: moves_text moves_emit)
qed (simp add: codexItem_def)

lemma moves_count:
  assumes "i < length (se_turns s)"
  shows "moves cfg s (set_turn i (fst (count_response response whole (turn_of s i))) s)"
proof -
  let ?t = "turn_of s i" and ?u = "Usage_add (tu_Usage (turn_of s i)) (normalized response)"
  let ?s1 = "set_turn i (?t\<lparr>tu_Usage := ?u\<rparr>) s"
  have "moves cfg s ?s1" using moves_set(6) [OF assms, where w = ?u and n = "tu_NativeError ?t"] by simp
  moreover have "moves cfg ?s1 (set_turn i (turn_of ?s1 i\<lparr>tu_lastCodexTotal := whole\<rparr>) ?s1)"
    by (rule moves_note) (use assms in simp)
  moreover have "set_turn i (turn_of ?s1 i\<lparr>tu_lastCodexTotal := whole\<rparr>) ?s1 = set_turn i (?t\<lparr>tu_Usage := ?u, tu_lastCodexTotal := whole\<rparr>) s"
    using assms by (simp add: set_turn_def turn_of_def)
  moreover have "set_turn i ?t s = s" by (simp add: set_turn_def turn_of_def)
  ultimately show ?thesis by (auto simp: count_response_def Let_def intro: moves_trans)
qed

lemma moves_token_usage: "i < length (se_turns s) \<Longrightarrow> moves cfg s (codexTokenUsage now s i p)"
proof -
  assume i: "i < length (se_turns s)"
  define s1 where "s1 = (case parseCodexContext now (cp_context p) of Some c \<Rightarrow> observeContext s (Some i) c | None \<Rightarrow> s)"
  have m1: "moves cfg s s1" using i by (auto simp: s1_def intro!: moves_observe split: option.split)
  have i1: "i < length (se_turns s1)" using moves_length [OF m1 i] .
  have "moves cfg s (observeRequestUsage (set_turn i (fst (count_response response whole (turn_of s1 i))) s1) i u)" for response whole u
    using moves_trans [OF moves_trans [OF m1 moves_count [OF i1]] moves_usage] i1 by simp
  then show ?thesis using m1
    by (auto simp: codexTokenUsage_def s1_def [symmetric] case_prod_beta split: option.splits)
qed

lemma completed_cases:
  "codexTurnCompleted s i turn = s \<or> (\<exists>s1. (s1 = s \<or> s1 = set_turn i (turn_of s i\<lparr>tu_NativeError := True\<rparr>) s)
     \<and> (codexTurnCompleted s i turn = failTurn s1 None ErrProtocol \<or> (\<exists>status err. codexTurnCompleted s i turn = publish_terminal s1 i status err)))"
  unfolding codexTurnCompleted_def Let_def by (cases turn) (simp, simp only: option.case split: if_split, blast)

lemma moves_completed:
  assumes i: "i < length (se_turns s)"
  shows "moves cfg s (codexTurnCompleted s i turn)"
proof -
  have m: "moves cfg s s1" if "s1 = s \<or> s1 = set_turn i (turn_of s i\<lparr>tu_NativeError := True\<rparr>) s" for s1
    using that moves_set(6) [OF i, where w = "tu_Usage (turn_of s i)" and n = True] by auto
  show ?thesis using completed_cases [of s i turn] m moves_trans [OF m moves_failTurn] moves_trans [OF m moves_terminal [OF moves_length [OF m i]]]
    by fastforce
qed

lemma moves_compact_started: "i < length (se_turns s) \<Longrightarrow> moves cfg s (compactTurnStarted s i started)"
  using moves_emit_from [OF moves_set(3)] moves_failTurn by (auto simp: compactTurnStarted_def)

lemma moves_if: "moves cfg s a \<Longrightarrow> moves cfg s b \<Longrightarrow> moves cfg s (if c then a else b)"
  by simp

lemma moves_codex:
  assumes "i < length (se_turns s)"
  shows "moves cfg s (codexEvent now s i ref_id method params)"
proof (cases params)
  case (Some p)
  have "moves cfg s (markContext (invalidateContext s (Some i) r) m)" for r m
    using assms by (intro moves_mark_from moves_observe) simp
  then show ?thesis unfolding codexEvent_def Some option.case
    by (intro moves_if moves_refl moves_compact_started moves_text moves_item moves_token_usage moves_completed assms)
qed (simp add: codexEvent_def)

section \<open>Usage is counted once\<close>

text \<open>What the accounting of a turn rests on; the events that report it do not touch it.\<close>

definition books :: "turn \<Rightarrow> session_usage \<times> codex_usage" where
  "books t = (tu_Usage t, tu_lastCodexTotal t)"

lemma books_fields [simp]:
  "books (t\<lparr>tu_Context := c\<rparr>) = books t" "books (fst (emit_turn e t)) = books t" "books (finish_turn status err t) = books t"
  "books (observe_usage u t) = books t"
  by (simp_all add: books_def emit_turn_def finish_turn_def observe_usage_def)

lemma books_finish [simp]: "books (turn_of (turn_finish s i status err) j) = books (turn_of s j)"
  by (auto simp: turn_finish_alt)

lemma books_ending [simp]: "books (turn_of (run_ending e s) j) = books (turn_of s j)"
  by (cases "(e, s)" rule: run_ending.cases) simp_all

lemma books_failTurn [simp]: "books (turn_of (failTurn s expected err) j) = books (turn_of s j)"
proof -
  have "turn_of (failTurn_mark s expected err) j = turn_of s j" by simp
  then have "books (turn_of ((failTurn_mark s expected err)\<lparr>se_endings := es\<rparr>) j) = books (turn_of s j)" for es by (simp add: turn_of_def)
  then show ?thesis by (simp add: failTurn_def Let_def del: run_ending.simps)
qed

lemma books_emit [simp]: "books (turn_of (session_emit s i e) j) = books (turn_of s j)"
proof -
  obtain t err where t: "emit_turn e (turn_of s i) = (t, err)" by fastforce
  then have "books t = books (turn_of s i)" using books_fields(2) [of e "turn_of s i"] by simp
  then show ?thesis using t by (cases err) (auto simp: session_emit_def)
qed

lemma books_observe [simp]: "books (turn_of (observeContext s turn c) j) = books (turn_of s j)"
proof -
  have "books (turn_of (publish_context s turn c) j) = books (turn_of s j)" for s
    by (cases turn) (auto simp: publish_context_def)
  then show ?thesis by (simp add: observeContext_def turn_of_def)
qed

lemma books_usage [simp]: "books (turn_of (observeRequestUsage s i u) j) = books (turn_of s j)"
  by (auto simp: observeRequestUsage_def Let_def)

definition count_books :: "codex_usage \<times> codex_usage \<Rightarrow> session_usage \<times> codex_usage \<Rightarrow> session_usage \<times> codex_usage" where
  "count_books r b = (if snd b \<noteq> snd r \<or> \<not> Known (s_Usage (fst b)) then (Usage_add (fst b) (normalized (fst r)), snd r) else b)"

definition reported :: "codex_params \<Rightarrow> codex_usage \<times> codex_usage \<Rightarrow> bool" where
  "reported p r \<longleftrightarrow> cp_turnId p \<noteq> [] \<and> (\<exists>a b. cp_usage p = Some (a, b) \<and> parseCodexUsage a = Some (fst r) \<and> parseCodexUsage b = Some (snd r))"

lemma token_usage_books:
  assumes "reported p r" "i < length (se_turns s)"
  shows "books (turn_of (codexTokenUsage now s i p) i) = count_books r (books (turn_of s i))"
proof -
  obtain a b where p: "cp_turnId p \<noteq> []" "cp_usage p = Some (a, b)" "parseCodexUsage a = Some (fst r)" "parseCodexUsage b = Some (snd r)"
    using assms(1) by (auto simp: reported_def)
  define s1 where "s1 = (case parseCodexContext now (cp_context p) of Some c \<Rightarrow> observeContext s (Some i) c | None \<Rightarrow> s)"
  have b1: "books (turn_of s1 i) = books (turn_of s i)" by (simp add: s1_def split: option.split)
  have "i < length (se_turns s1)"
    using assms(2) moves_length [OF moves_observe(1) [of "Some i" s]] by (auto simp: s1_def split: option.split)
  moreover have "codexTokenUsage now s i p =
      (case count_response (fst r) (snd r) (turn_of s1 i) of (t, fresh) \<Rightarrow> if fresh then observeRequestUsage (set_turn i t s1) i (normalized (fst r)) else s1)"
    unfolding codexTokenUsage_def s1_def [symmetric] Let_def using p by simp
  moreover have "books (fst (count_response (fst r) (snd r) (turn_of s1 i))) = count_books r (books (turn_of s1 i))"
      "\<not> snd (count_response (fst r) (snd r) (turn_of s1 i)) \<Longrightarrow> count_books r (books (turn_of s1 i)) = books (turn_of s1 i)"
    by (auto simp: count_response_def count_books_def books_def Let_def)
  ultimately show ?thesis using b1 by (simp add: case_prod_beta)
qed

text \<open>
  The notifications of a turn. \<open>repeated\<close> is what an engine sends for a sequence of responses, each told of \<open>n + 1\<close> times in a row;
  \<open>responses\<close> are the responses the comparison with the last total tells apart.
\<close>

definition token_usages :: "int \<Rightarrow> session \<Rightarrow> nat \<Rightarrow> codex_params list \<Rightarrow> session" where
  "token_usages now s i ps = foldl (\<lambda>s p. codexTokenUsage now s i p) s ps"

fun responses :: "codex_usage option \<Rightarrow> (codex_usage \<times> codex_usage) list \<Rightarrow> codex_usage list" where
  "responses prev [] = []"
| "responses prev ((response, whole) # rs) = (if prev = Some whole then responses prev rs else response # responses (Some whole) rs)"

definition repeated :: "(codex_usage \<times> codex_usage \<times> nat) list \<Rightarrow> (codex_usage \<times> codex_usage) list" where
  "repeated told = concat (map (\<lambda>(response, whole, n). replicate (Suc n) (response, whole)) told)"

lemma responses_run: "responses (Some whole) (replicate n (response, whole) @ rs) = responses (Some whole) rs"
  by (induction n) simp_all

lemma responses_repeated:
  "successively (\<noteq>) (map (\<lambda>x. fst (snd x)) told) \<Longrightarrow> (told \<noteq> [] \<Longrightarrow> p \<noteq> Some (fst (snd (hd told)))) \<Longrightarrow> responses p (repeated told) = map fst told"
proof (induction told arbitrary: p)
  case (Cons x told)
  obtain response whole n where x: "x = (response, whole, n)" by (cases x)
  have "successively (\<noteq>) (map (\<lambda>x. fst (snd x)) told)" "told \<noteq> [] \<Longrightarrow> Some whole \<noteq> Some (fst (snd (hd told)))"
    using Cons.prems(1) x by (auto simp: successively_Cons hd_map)
  from Cons.IH [OF this] show ?case using Cons.prems(2) x by (simp add: repeated_def responses_run)
qed (simp add: repeated_def)

lemma usages_books:
  "list_all2 reported ps rs \<Longrightarrow> i < length (se_turns s) \<Longrightarrow>
     books (turn_of (token_usages now s i ps) i) = foldl (\<lambda>b r. count_books r b) (books (turn_of s i)) rs"
proof (induction ps rs arbitrary: s rule: list_all2_induct)
  case (Cons p ps r rs)
  have "i < length (se_turns (codexTokenUsage now s i p))" using Cons(4) moves_length [OF moves_token_usage] by blast
  then show ?case using Cons.IH [of "codexTokenUsage now s i p"] token_usage_books [OF Cons(1,4), of now] by (simp add: token_usages_def)
qed (simp add: token_usages_def)

lemma parsed_wf: "parseCodexUsage rep = Some u \<Longrightarrow> wf_usage (s_Usage (normalized u)) \<and> Known (s_Usage (normalized u))"
proof -
  assume "parseCodexUsage rep = Some u"
  then have u: "0 \<le> sint (xu_CacheRead u)" "sint (xu_CacheRead u) \<le> sint (xu_Input u)" "0 \<le> sint (xu_CacheWrite u)"
      "sint (xu_CacheWrite u) \<le> sint (xu_Input u - xu_CacheRead u)" "0 \<le> sint (xu_Reasoning u)" "sint (xu_Reasoning u) \<le> sint (xu_Output u)"
    by (auto simp: parseCodexUsage_def Let_def split: option.splits if_splits)
  have "sint (xu_Input u - xu_CacheRead u) = sint (xu_Input u) - sint (xu_CacheRead u)"
    using u(1,2) sint64_bounds [of "xu_Input u"] by (intro sint64_diff) auto
  then show ?thesis using u by (simp add: wf_usage_def normalized_def)
qed

lemma responses_nonneg:
  "list_all (\<lambda>r. wf_usage (s_Usage (normalized (fst r)))) rs \<Longrightarrow>
     0 \<le> (\<Sum>x\<leftarrow>responses p rs. sint (xu_Input x)) \<and> 0 \<le> (\<Sum>x\<leftarrow>responses p rs. sint (xu_Output x))"
proof (induction p rs rule: responses.induct)
  case (2 prev response whole rs)
  then have "0 \<le> sint (xu_Input response)" "0 \<le> sint (xu_Output response)"
    using wf_usage_nonneg [of "s_Usage (normalized response)"] by (auto simp: normalized_def)
  then show ?case using 2 by auto
qed simp

text \<open>\<open>figures u v xs\<close>: \<open>v\<close> is \<open>u\<close> with every figure of the responses \<open>xs\<close> added, each to its own.\<close>

definition figures :: "usage \<Rightarrow> usage \<Rightarrow> codex_usage list \<Rightarrow> bool" where
  "figures u v xs \<longleftrightarrow> Known v \<and> CacheKnown v = CacheKnown u \<and> ReasoningKnown v = ReasoningKnown u
     \<and> sint (Input v) = sint (Input u) + (\<Sum>x\<leftarrow>xs. sint (xu_Input x))
     \<and> sint (Output v) = sint (Output u) + (\<Sum>x\<leftarrow>xs. sint (xu_Output x))
     \<and> sint (CacheRead v) = sint (CacheRead u) + (\<Sum>x\<leftarrow>xs. sint (xu_CacheRead x))
     \<and> sint (CacheWrite v) = sint (CacheWrite u) + (\<Sum>x\<leftarrow>xs. sint (xu_CacheWrite x))
     \<and> sint (Reasoning v) = sint (Reasoning u) + (\<Sum>x\<leftarrow>xs. sint (xu_Reasoning x))"

lemma figures_add:
  assumes "wf_usage u" "Known u" "wf_usage (s_Usage (normalized x))"
    "sint (Input u) + sint (xu_Input x) \<le> 9223372036854775807" "sint (Output u) + sint (xu_Output x) \<le> 9223372036854775807"
  shows "figures u (Add u (s_Usage (normalized x))) [x]"
proof -
  let ?n = "s_Usage (normalized x)"
  have n: "Known ?n" "Input ?n = xu_Input x" "Output ?n = xu_Output x" "CacheRead ?n = xu_CacheRead x" "CacheWrite ?n = xu_CacheWrite x"
      "Reasoning ?n = xu_Reasoning x" "CacheKnown ?n" "ReasoningKnown ?n"
    by (simp_all add: normalized_def)
  have k: "Known (Add u ?n)" using Add_known_iff [OF assms(1,3,2) n(1)] assms(4,5) n by simp
  then have "CacheKnown (Add u ?n) = CacheKnown u" "ReasoningKnown (Add u ?n) = ReasoningKnown u"
    using assms(2) n by (auto simp: Add_def no_usage_def split: prod.splits if_splits)
  then show ?thesis using k Add_figures [OF assms(1,3,2) n(1) k] n by (simp add: figures_def)
qed

lemma known_fold:
  assumes "wf_usage (s_Usage u)" "Known (s_Usage u)"
    "list_all (\<lambda>r. wf_usage (s_Usage (normalized (fst r)))) rs"
    "sint (Input (s_Usage u)) + (\<Sum>x\<leftarrow>responses (Some w) rs. sint (xu_Input x)) \<le> 9223372036854775807"
    "sint (Output (s_Usage u)) + (\<Sum>x\<leftarrow>responses (Some w) rs. sint (xu_Output x)) \<le> 9223372036854775807"
  shows "figures (s_Usage u) (s_Usage (fst (foldl (\<lambda>b r. count_books r b) (u, w) rs))) (responses (Some w) rs)"
  using assms
proof (induction rs arbitrary: u w)
  case (Cons r rs)
  obtain response whole where r: "r = (response, whole)" by (cases r)
  have nn: "0 \<le> (\<Sum>x\<leftarrow>responses p rs. sint (xu_Input x))" "0 \<le> (\<Sum>x\<leftarrow>responses p rs. sint (xu_Output x))" for p
    using Cons.prems(3) responses_nonneg by auto
  show ?case
  proof (cases "w = whole")
    case True
    then have "count_books r (u, w) = (u, w)" using Cons.prems(2) r by (simp add: count_books_def)
    then show ?thesis using Cons True r by simp
  next
    case False
    let ?n = "s_Usage (normalized response)" and ?u = "Usage_add u (normalized response)"
    have n: "wf_usage ?n" using Cons.prems(3) r by simp
    have a: "s_Usage ?u = Add (s_Usage u) ?n" by (simp add: Usage_add_def normalized_def)
    have k: "figures (s_Usage u) (s_Usage ?u) [response]"
      unfolding a using Cons.prems False r nn [of "Some whole"] by (intro figures_add n) simp_all
    have w: "wf_usage (s_Usage ?u)" using a Add_wf Cons.prems(1) n by simp
    have "count_books r (u, w) = (?u, whole)" using False r by (simp add: count_books_def)
    then show ?thesis using Cons.IH [OF w, of whole] k Cons.prems(3-5) False r by (simp add: figures_def algebra_simps)
  qed
qed (simp add: figures_def)

text \<open>C34.
  A turn's usage is the sum of its model responses, in every figure. Codex repeats its notifications; each carries the response's
  figures and the thread's running total, and a resumed thread's total covers earlier turns as well. For responses of which each
  moved the total, however many times in a row each of them is told, and whatever else the notifications do to the session, the
  usage counted for the turn is known, cache and reasoning splits included, and input, output, cache reads, cache writes and
  reasoning are each exactly the sum over the responses, as long as the input and output sums can be represented. A total
  that comes back after another one, rather than repeated at once, is a response of its own here as in the code.
\<close>

theorem codex_usage_exact:
  assumes "list_all2 reported ps (repeated told)" "told \<noteq> []" "successively (\<noteq>) (map (\<lambda>x. fst (snd x)) told)"
    "i < length (se_turns s)" "tu_Usage (turn_of s i) = no_session_usage"
    "(\<Sum>x\<leftarrow>map fst told. sint (xu_Input x)) \<le> 9223372036854775807" "(\<Sum>x\<leftarrow>map fst told. sint (xu_Output x)) \<le> 9223372036854775807"
    "v = s_Usage (tu_Usage (turn_of (token_usages now s i ps) i))"
  shows "Known v \<and> CacheKnown v \<and> ReasoningKnown v
    \<and> sint (Input v) = (\<Sum>x\<leftarrow>map fst told. sint (xu_Input x))
    \<and> sint (Output v) = (\<Sum>x\<leftarrow>map fst told. sint (xu_Output x))
    \<and> sint (CacheRead v) = (\<Sum>x\<leftarrow>map fst told. sint (xu_CacheRead x))
    \<and> sint (CacheWrite v) = (\<Sum>x\<leftarrow>map fst told. sint (xu_CacheWrite x))
    \<and> sint (Reasoning v) = (\<Sum>x\<leftarrow>map fst told. sint (xu_Reasoning x))"
proof -
  have told: "responses None (repeated told) = map fst told" using responses_repeated [OF assms(3)] by simp
  obtain response whole n later where "told = (response, whole, n) # later" using assms(2) by (metis neq_Nil_conv prod_cases3)
  then obtain rest where rs: "repeated told = (response, whole) # rest" by (simp add: repeated_def)
  have wf: "list_all (\<lambda>r. wf_usage (s_Usage (normalized (fst r)))) (repeated told)"
    using assms(1) parsed_wf by (fastforce simp: list_all_iff list_all2_conv_all_nth reported_def in_set_conv_nth)
  let ?u = "normalized response"
  have u: "Usage_add no_session_usage ?u = ?u" by (simp add: Usage_add_def no_session_usage_def Add_def no_usage_def normalized_def)
  have "fst (books (turn_of (token_usages now s i ps) i)) = fst (foldl (\<lambda>b r. count_books r b) (?u, whole) rest)"
    using usages_books [OF assms(1,4), of now] assms(5) rs u by (simp add: count_books_def books_def no_session_usage_def no_usage_def)
  then have "v = s_Usage (fst (foldl (\<lambda>b r. count_books r b) (?u, whole) rest))" by (simp add: books_def assms(8))
  moreover have r: "map fst told = response # responses (Some whole) rest" using told rs by simp
  moreover have "figures (s_Usage ?u) (s_Usage (fst (foldl (\<lambda>b r. count_books r b) (?u, whole) rest))) (responses (Some whole) rest)"
    using wf assms(6,7) rs unfolding r by (intro known_fold) (simp_all add: normalized_def)
  ultimately show ?thesis by (simp add: figures_def normalized_def)
qed

section \<open>A completed turn\<close>

definition codex_outcome :: "codex_turn \<Rightarrow> string \<times> session_error option" where
  "codex_outcome turn =
     (if ct_Status turn \<notin> {''completed'', ''interrupted'', ''failed''} then (''failed'', Some ErrProtocol)
      else (ct_Status turn, if ct_Status turn = ''failed''
        then Some (case Option.bind (ct_Error turn) codexTurnFailure of Some f \<Rightarrow> TurnFailure f | None \<Rightarrow> ErrTurnFailed) else None))"

lemma completed_known:
  assumes "ct_ID turn = tu_id (turn_of s i)" "ct_Status turn \<in> {''completed'', ''interrupted'', ''failed''}"
  shows "codexTurnCompleted s i (Some turn) = publish_terminal
    (set_turn i (turn_of s i\<lparr>tu_NativeError := tu_NativeError (turn_of s i) \<or> ct_Status turn = ''failed''\<rparr>) s) i (ct_Status turn) (snd (codex_outcome turn))"
proof -
  have "set_turn i (turn_of s i\<lparr>tu_NativeError := tu_NativeError (turn_of s i)\<rparr>) s = s" by (simp add: set_turn_def turn_of_def)
  then show ?thesis using assms by (cases "ct_Status turn = ''failed''") (simp_all add: codexTurnCompleted_def codex_outcome_def Let_def)
qed

lemma completed_unknown:
  assumes "ct_ID turn = tu_id (turn_of s i)" "ct_Status turn \<notin> {''completed'', ''interrupted'', ''failed''}"
  shows "codexTurnCompleted s i (Some turn) = failTurn s None ErrProtocol" "codex_outcome turn = (''failed'', Some ErrProtocol)"
proof -
  have "ct_Status turn \<noteq> ''failed''" using assms(2) by auto
  then show "codexTurnCompleted s i (Some turn) = failTurn s None ErrProtocol"
    unfolding codexTurnCompleted_def option.case Let_def using assms by (simp only: if_True if_False simp_thms)
  show "codex_outcome turn = (''failed'', Some ErrProtocol)" using assms(2) by (simp only: codex_outcome_def if_True simp_thms)
qed

lemma failure_code: "codexTurnFailure info = Some f \<Longrightarrow> te_Code f \<in> set (map (\<lambda>(n, code, c, st). code) codexErrors) \<and> te_Engine f = Codex"
proof -
  assume f: "codexTurnFailure info = Some f"
  obtain name code cause st c where "map_of codexErrors name = Some (code, cause, st)" "f = codex_failure code c"
    using f by (auto simp: codexTurnFailure_def split: codex_error_info.splits list.splits prod.splits option.splits bool.splits)
  then have "(name, code, cause, st) \<in> set codexErrors" "f = codex_failure code c" by (auto dest: map_of_SomeD)
  then show ?thesis by (auto simp: codex_failure_def image_iff intro!: bexI [of _ "(name, code, cause, st)"])
qed

text \<open>C35.
  The engine's word that a turn is over ends it, and only that turn. A completed, interrupted or failed turn ends with that status, its
  accounting and its status as its last events, and an error that is one of the library's fixed codes or says only that the turn failed, never
  the provider's text; any other status ends the turn and the session as a protocol error.
\<close>

theorem codex_turn_ends:
  assumes "i < length (se_turns s)" "se_active s = Some i" "\<not> se_closed s" "\<not> tu_finished (turn_of s i)"
    "length (tu_events (turn_of s i)) + 2 \<le> tu_buffer (turn_of s i)"
  shows "(if ct_ID turn \<noteq> tu_id (turn_of s i) then codexTurnCompleted s i (Some turn) = s
     else tu_finished (turn_of (codexTurnCompleted s i (Some turn)) i)
       \<and> turn_Wait (codexTurnCompleted s i (Some turn)) i = codex_outcome turn
       \<and> (if ct_Status turn \<in> {''completed'', ''interrupted'', ''failed''}
          then tu_events (turn_of (codexTurnCompleted s i (Some turn)) i) = tu_events (turn_of s i) @ terminal_events (turn_of s i) (ct_Status turn)
            \<and> tu_Text (turn_of (codexTurnCompleted s i (Some turn)) i) = tu_Text (turn_of s i)
          else se_closed (codexTurnCompleted s i (Some turn))))
    \<and> (case snd (codex_outcome turn) of Some (TurnFailure f) \<Rightarrow> te_Code f \<in> set (map (\<lambda>(n, code, c, st). code) codexErrors)
       | Some err \<Rightarrow> err \<in> {ErrTurnFailed, ErrProtocol} | None \<Rightarrow> True)"
proof
  show "if ct_ID turn \<noteq> tu_id (turn_of s i) then codexTurnCompleted s i (Some turn) = s
     else tu_finished (turn_of (codexTurnCompleted s i (Some turn)) i)
       \<and> turn_Wait (codexTurnCompleted s i (Some turn)) i = codex_outcome turn
       \<and> (if ct_Status turn \<in> {''completed'', ''interrupted'', ''failed''}
          then tu_events (turn_of (codexTurnCompleted s i (Some turn)) i) = tu_events (turn_of s i) @ terminal_events (turn_of s i) (ct_Status turn)
            \<and> tu_Text (turn_of (codexTurnCompleted s i (Some turn)) i) = tu_Text (turn_of s i)
          else se_closed (codexTurnCompleted s i (Some turn)))"
  proof (cases "ct_ID turn = tu_id (turn_of s i)")
    case same: True
    show ?thesis
    proof (cases "ct_Status turn \<in> {''completed'', ''interrupted'', ''failed''}")
      case True
      let ?s = "set_turn i (turn_of s i\<lparr>tu_NativeError := tu_NativeError (turn_of s i) \<or> ct_Status turn = ''failed''\<rparr>) s"
      have o: "fst (codex_outcome turn) = ct_Status turn" using True by (simp only: codex_outcome_def simp_thms if_False fst_conv)
      have "turn_of (codexTurnCompleted s i (Some turn)) i = finish_turn (ct_Status turn) (snd (codex_outcome turn))
          (turn_of ?s i\<lparr>tu_events := tu_events (turn_of ?s i) @ terminal_events (turn_of ?s i) (ct_Status turn)\<rparr>)"
        unfolding completed_known [OF same True] using assms by (intro terminal_exact) simp_all
      then show ?thesis using same True assms(1,4) o
        by (simp only: simp_thms if_True if_False) (simp add: finish_turn_def turn_Wait_def terminal_events_def stamped_def prod_eq_iff)
    next
      case False
      then show ?thesis using same completed_unknown [OF same False] fail_active [OF assms(1-4), of ErrProtocol] by (simp only: simp_thms if_False)
    qed
  next
    case False
    then show ?thesis by (simp add: codexTurnCompleted_def)
  qed
  show "case snd (codex_outcome turn) of Some (TurnFailure f) \<Rightarrow> te_Code f \<in> set (map (\<lambda>(n, code, c, st). code) codexErrors)
       | Some err \<Rightarrow> err \<in> {ErrTurnFailed, ErrProtocol} | None \<Rightarrow> True"
    using failure_code by (cases "Option.bind (ct_Error turn) codexTurnFailure") (auto simp: codex_outcome_def bind_eq_Some_conv)
qed

section \<open>A turn at work\<close>

definition demo_report :: "int64 \<Rightarrow> codex_report" where
  "demo_report n = \<lparr>xr_usage = \<lparr>xu_Input = n, xu_Output = 3, xu_CacheRead = 2, xu_CacheWrite = 1, xu_Reasoning = 1\<rparr>, xr_stated = (\<lambda>k. True)\<rparr>"

definition demo_params :: "int64 \<Rightarrow> int64 \<Rightarrow> codex_params" where
  "demo_params response whole = \<lparr>cp_threadId = [], cp_turnId = ''t1'', cp_itemId = [], cp_delta = [], cp_item = None, cp_context = None,
     cp_usage = Some (Some (demo_report response), Some (demo_report whole)), cp_turn = None, cp_startedID = None\<rparr>"

theorem codex_usage_exact_witness:
  "sint (Input (s_Usage (tu_Usage (turn_of (token_usages 0 demo_started 0 [demo_params 5 105, demo_params 5 105, demo_params 7 112]) 0)))) = 12
   \<and> sint (CacheRead (s_Usage (tu_Usage (turn_of (token_usages 0 demo_started 0 [demo_params 5 105, demo_params 5 105, demo_params 7 112]) 0)))) = 4
   \<and> sint (Reasoning (s_Usage (tu_Usage (turn_of (token_usages 0 demo_started 0 [demo_params 5 105, demo_params 5 105, demo_params 7 112]) 0)))) = 2"
proof -
  let ?told = "[(xr_usage (demo_report 5), xr_usage (demo_report 105), 1), (xr_usage (demo_report 7), xr_usage (demo_report 112), 0)]"
  have r: "list_all2 reported [demo_params 5 105, demo_params 5 105, demo_params 7 112] (repeated ?told)"
    by (simp add: repeated_def reported_def demo_params_def parseCodexUsage_def demo_report_def)
  have c: "successively (\<noteq>) (map (\<lambda>x. fst (snd x)) ?told)" by (simp add: demo_report_def)
  have s: "0 < length (se_turns demo_started)" "tu_Usage (turn_of demo_started 0) = no_session_usage"
    by (simp_all add: demo_session_defs turn_of_def)
  show ?thesis using codex_usage_exact [OF r _ c s _ _ refl, of 0] by (simp add: demo_report_def)
qed

theorem codex_turn_ends_witness:
  "turn_Wait (codexTurnCompleted demo_started 0 (Some \<lparr>ct_ID = ''t1'', ct_Status = ''failed'',
      ct_Error = Some (InfoVariant [(''httpConnectionFailed'', Some 429)])\<rparr>)) 0
   = (''failed'', Some (TurnFailure (codex_failure ''http_connection_failed'' CauseRateLimited)))"
proof -
  have "0 < length (se_turns demo_started)" "se_active demo_started = Some 0" "\<not> se_closed demo_started" "\<not> tu_finished (turn_of demo_started 0)"
      "length (tu_events (turn_of demo_started 0)) + 2 \<le> tu_buffer (turn_of demo_started 0)" "tu_id (turn_of demo_started 0) = ''t1''"
    by (simp_all add: demo_session_defs turn_of_def)
  then show ?thesis
    using codex_turn_ends [of 0 demo_started "\<lparr>ct_ID = ''t1'', ct_Status = ''failed'', ct_Error = Some (InfoVariant [(''httpConnectionFailed'', Some 429)])\<rparr>"]
    by (simp add: codex_outcome_def codexTurnFailure_def codexErrors_def StatusCause_def)
qed

end
