(* ===== verification/Claude_Events.thy ===== *)
theory Claude_Events
  imports Codex_Events
begin

text \<open>
  The stream-json dialect of Claude (session/events_claude.go). A frame is what \<open>encoding/json\<close> decoded of it; where the code decodes a
  part again, that part is \<open>None\<close> when decoding fails, and a string that is missing or is not one is empty.
\<close>

section \<open>Frames\<close>

datatype claude_figure = FigureMissing | FigureNull | FigureBad | Figure int64

text \<open>A usage report. \<open>cu_details\<close> is \<open>None\<close> where the report's details have another shape than the code's struct.\<close>

record claude_report =
  cu_input :: claude_figure
  cu_output :: claude_figure
  cu_cacheRead :: claude_figure
  cu_cacheWrite :: claude_figure
  cu_details :: "int64 option option option"

type_synonym message_figures = "(string \<times> (int64 option \<times> int64 option \<times> int64 option) option) option"

record assistant_block =
  ab_Type :: string
  ab_ID :: string
  ab_Name :: string
  ab_Text :: string
  ab_Input :: string

record user_block =
  ub_Type :: string
  ub_ToolUseID :: string
  ub_IsError :: bool
  ub_Content :: tool_content

record stream_part =
  sp_type :: string
  sp_figures :: message_figures
  sp_message :: "string option"
  sp_delta :: "(string \<times> string) option"

record result_part =
  rp_Result :: string
  rp_Subtype :: string
  rp_IsError :: bool
  rp_HasUsage :: bool

text \<open>What a result says of its failure; decoding it can fail and still have filled some of it.\<close>

record terminal_part =
  tp_decoded :: bool
  tp_Reason :: string
  tp_Stop :: string
  tp_Error :: string

record claude_frame =
  cf_session_id :: string
  cf_parent :: string
  cf_type :: string
  cf_subtype :: string
  cf_uuid :: string
  cf_metadata :: "string option"
  cf_metadata_trigger :: string
  cf_trigger :: string
  cf_event :: "stream_part option"
  cf_error :: string
  cf_is_api_error :: bool
  cf_figures :: message_figures
  cf_message_usage :: "claude_report option"
  cf_assistant :: "(string \<times> assistant_block list) option"
  cf_user :: "user_block list option"
  cf_result :: "result_part option"
  cf_usage :: "claude_report option"
  cf_modelUsage :: "(string \<times> int64 option) list option"
  cf_terminal :: terminal_part

section \<open>Usage\<close>

definition figure_ok :: "claude_figure \<Rightarrow> bool" where
  "figure_ok f = (case f of FigureBad \<Rightarrow> False | Figure n \<Rightarrow> sint n \<ge> 0 | _ \<Rightarrow> True)"

definition figure_stated :: "claude_figure \<Rightarrow> bool" where
  "figure_stated f \<longleftrightarrow> f \<noteq> FigureMissing \<and> f \<noteq> FigureNull"

definition figure_value :: "claude_figure \<Rightarrow> int64 option" where
  "figure_value f = (case f of Figure n \<Rightarrow> Some n | _ \<Rightarrow> None)"

definition validClaudeUsage :: "claude_report \<Rightarrow> bool" where
  "validClaudeUsage r \<longleftrightarrow> figure_stated (cu_input r) \<and> figure_stated (cu_output r)
     \<and> list_all figure_ok [cu_input r, cu_output r, cu_cacheRead r, cu_cacheWrite r]"

definition parseClaudeUsage :: "claude_report option \<Rightarrow> session_usage" where
  "parseClaudeUsage rep =
     (case rep of
        None \<Rightarrow> no_session_usage
      | Some r \<Rightarrow>
          if \<not> validClaudeUsage r then no_session_usage
          else case cu_details r of
            None \<Rightarrow> no_session_usage
          | Some details \<Rightarrow>
             (let input = (case figure_value (cu_input r) of Some n \<Rightarrow> n | None \<Rightarrow> 0);
                  output_tokens = (case figure_value (cu_output r) of Some n \<Rightarrow> n | None \<Rightarrow> 0);
                  (reasoning, ok) = OutputDetails_Reasoning details output_tokens
              in \<lparr>s_Usage = CacheExclusive \<lparr>r_Input = Some input, r_Output = Some output_tokens, r_CacheRead = figure_value (cu_cacheRead r),
                     r_CacheWrite = figure_value (cu_cacheWrite r), r_Reasoning = (if ok then Some reasoning else None)\<rparr>, s_Final = False\<rparr>))"

text \<open>\<open>claudeResponseUsage\<close>: \<open>rep\<close> is the report inside the message, where the message decodes and has one.\<close>

definition claudeResponseUsage :: "claude_report option \<Rightarrow> session_usage" where
  "claudeResponseUsage rep = parseClaudeUsage rep"

section \<open>The handlers\<close>

definition known_trigger :: "string \<Rightarrow> bool" where
  "known_trigger trigger \<longleftrightarrow> trigger = ''auto'' \<or> trigger = ''manual''"

definition claudeCompactionTrigger :: "claude_frame \<Rightarrow> string" where
  "claudeCompactionTrigger f =
     (case cf_metadata f of
        Some trigger \<Rightarrow>
          if known_trigger trigger then trigger
          else if known_trigger (cf_metadata_trigger f) then cf_metadata_trigger f
          else if known_trigger (cf_trigger f) then cf_trigger f else ''unknown''
      | None \<Rightarrow>
          if known_trigger (cf_metadata_trigger f) then cf_metadata_trigger f
          else if known_trigger (cf_trigger f) then cf_trigger f else ''unknown'')"

definition claudeStreamEvent :: "int \<Rightarrow> session \<Rightarrow> nat \<Rightarrow> stream_part option \<Rightarrow> session" where
  "claudeStreamEvent now s i decoded =
     (case decoded of
        None \<Rightarrow> s
      | Some e \<Rightarrow>
          if sp_type e = ''message_start'' then
            (let s1 = claudeMessageContext now s i (sp_figures e)
             in case sp_message e of None \<Rightarrow> s1 | Some message \<Rightarrow> set_turn i (message_start message (turn_of s1 i)) s1)
          else if sp_type e = ''content_block_delta'' then
            (case sp_delta e of
               Some (kind, new) \<Rightarrow> if kind = ''text_delta'' then session_text s i (tu_textItem (turn_of s i)) new False else s
             | None \<Rightarrow> s)
          else s)"

fun started_tools :: "nat \<Rightarrow> assistant_block list \<Rightarrow> session \<Rightarrow> session" where
  "started_tools i [] s = s"
| "started_tools i (b # bs) s =
     started_tools i bs
       (if ab_Type b = ''tool_use''
        then session_emit s i (withToolPayload s ((event_of ''tool_started'')\<lparr>ev_ItemID := ab_ID b, ev_Tool := ab_Name b, ev_Status := ''running''\<rparr>) (ab_Input b) [])
        else s)"

definition claudeAssistant :: "int \<Rightarrow> session \<Rightarrow> nat \<Rightarrow> claude_frame \<Rightarrow> session" where
  "claudeAssistant now s i f =
     (let s1 = set_turn i (turn_of s i\<lparr>tu_claudeRefusal := Assistant (tu_claudeRefusal (turn_of s i)) (cf_error f)\<rparr>) s
      in if ErrorCode (cf_error f) \<noteq> [] \<or> cf_is_api_error f then s1
         else let s2 = claudeMessageContext now s1 i (cf_figures f);
                  s3 = observeRequestUsage s2 i (claudeResponseUsage (cf_message_usage f))
              in case cf_assistant f of
                   None \<Rightarrow> s3
                 | Some (message, blocks) \<Rightarrow>
                    (let s4 = started_tools i blocks s3;
                         texts = map ab_Text (filter (\<lambda>b. ab_Type b = ''text'') blocks)
                     in if texts \<noteq> [] then session_text s4 i message (strings_Join texts [CHR 0x0A]) True else s4))"

fun completed_tools :: "nat \<Rightarrow> user_block list \<Rightarrow> session \<Rightarrow> session" where
  "completed_tools i [] s = s"
| "completed_tools i (b # bs) s =
     completed_tools i bs
       (if ub_Type b = ''tool_result''
        then (case toolResult (ub_Content b) of (result, images) \<Rightarrow>
               session_emit s i (withImages (withToolPayload s ((event_of ''tool_completed'')
                 \<lparr>ev_ItemID := ub_ToolUseID b, ev_Status := (if ub_IsError b then ''failed'' else ''completed'')\<rparr>) [] result) images))
        else s)"

definition claudeUser :: "session \<Rightarrow> nat \<Rightarrow> user_block list option \<Rightarrow> session" where
  "claudeUser s i decoded = (case decoded of None \<Rightarrow> s | Some blocks \<Rightarrow> completed_tools i blocks s)"

definition claude_failure :: "string \<Rightarrow> cause \<Rightarrow> int option \<Rightarrow> turn_error" where
  "claude_failure code cause resets =
     \<lparr>te_Engine = Claude, te_Code = code, te_Cause = cause, te_Phase = [], te_RetryAfter = 0, te_ResetsAt = resets\<rparr>"

text \<open>\<open>claudeTerminalFailure\<close>: the error, and what the diagnostic hook is given with it.\<close>

definition claudeTerminalFailure :: "refusal \<Rightarrow> terminal_part \<Rightarrow> string \<Rightarrow> turn_error" where
  "claudeTerminalFailure recorded terminal subtype =
     (let r = (if tp_decoded terminal \<and> ErrorCode (tp_Error terminal) \<noteq> [] then Assistant recorded (tp_Error terminal) else recorded);
          f1 = (if ref_code r \<noteq> [] then (case Refusal_Cause r of (cause, resets, transient) \<Rightarrow> claude_failure (ref_code r) cause resets)
                else claude_failure (ResultSubtype subtype) NoCause None);
          f2 = (if tp_Reason terminal = ''prompt_too_long'' \<or> tp_Stop terminal = ''model_context_window_exceeded''
                then f1\<lparr>te_Code := ''model_context_window_exceeded'', te_Cause := CauseContextLimit, te_ResetsAt := None\<rparr> else f1)
      in if te_Code f2 = [] then f2\<lparr>te_Code := ''turn_failed''\<rparr> else f2)"

record diagnostic =
  dg_Engine :: engine
  dg_Stage :: string
  dg_Code :: string
  dg_Detail :: string
  dg_At :: int

definition terminal_diagnostic :: "unicode_tables \<Rightarrow> int \<Rightarrow> turn_error \<Rightarrow> string \<Rightarrow> diagnostic" where
  "terminal_diagnostic U now failure errors =
     \<lparr>dg_Engine = Claude, dg_Stage = ''turn_result'', dg_Code = te_Code failure,
      dg_Detail = sanitize U (if errors = [] then ''null'' else json_compact errors) 1024, dg_At = now\<rparr>"

text \<open>How a result frame says the turn ended.\<close>

definition result_outcome :: "turn \<Rightarrow> result_part \<Rightarrow> terminal_part \<Rightarrow> string \<times> session_error option" where
  "result_outcome t r terminal =
     (if \<not> rp_IsError r then (''completed'', None)
      else if tu_interruptRequested t \<and> rp_Subtype r = ''error_during_execution'' then (''interrupted'', None)
      else (''failed'', Some (TurnFailure (claudeTerminalFailure (tu_claudeRefusal t) terminal (rp_Subtype r)))))"

definition result_usage :: "result_part \<Rightarrow> claude_report option \<Rightarrow> session_usage \<Rightarrow> session_usage" where
  "result_usage r rep before =
     (if rp_HasUsage r \<and> \<not> rp_IsError r then (parseClaudeUsage rep)\<lparr>s_Final := Known (s_Usage (parseClaudeUsage rep))\<rparr> else before)"

definition malformed_result :: "result_part \<Rightarrow> bool" where
  "malformed_result r \<longleftrightarrow> rp_Subtype r = [] \<or> (\<not> rp_IsError r \<and> rp_Subtype r \<noteq> ''success'')"

definition claudeResult :: "session \<Rightarrow> nat \<Rightarrow> claude_frame \<Rightarrow> session" where
  "claudeResult s i f =
     (case cf_result f of
        None \<Rightarrow> failTurn s None ErrProtocol
      | Some r \<Rightarrow>
          if malformed_result r then failTurn s None ErrProtocol
          else let s1 = (if \<not> rp_IsError r \<and> rp_Result r \<noteq> [] then session_text s i ''result'' (rp_Result r) True else s);
                   t = turn_of s1 i;
                   s2 = set_turn i (t\<lparr>tu_Usage := result_usage r (cf_usage f) (tu_Usage t), tu_NativeError := rp_IsError r\<rparr>) s1;
                   (status, err) = result_outcome t r (cf_terminal f);
                   s3 = claudeModelCapacity s2 i (cf_modelUsage f)
               in publish_terminal s3 i status err)"

definition claudeEvent :: "int \<Rightarrow> session \<Rightarrow> nat \<Rightarrow> string \<Rightarrow> claude_frame \<Rightarrow> session" where
  "claudeEvent now s i ref_id f =
     (if cf_session_id f \<noteq> [] \<and> cf_session_id f \<noteq> ref_id then failTurn s None ErrProtocol
      else if cf_parent f \<noteq> [] then s
      else if cf_type f = ''system'' then
        (if cf_subtype f = ''compact_boundary'' then
           session_emit (markContext (invalidateContext s (Some i) ''context compacted; awaiting a fresh observation'') ''compacted'') i
             ((event_of ''compaction_completed'')\<lparr>ev_ItemID := cf_uuid f, ev_Status := claudeCompactionTrigger f\<rparr>)
         else s)
      else if cf_type f = ''stream_event'' then claudeStreamEvent now s i (cf_event f)
      else if cf_type f = ''assistant'' then claudeAssistant now s i f
      else if cf_type f = ''user'' then claudeUser s i (cf_user f)
      else if cf_type f = ''result'' then claudeResult s i f
      else s)"

section \<open>Every frame is a sequence of steps\<close>

lemma moves_started_tools: "i < length (se_turns s) \<Longrightarrow> moves cfg s (started_tools i bs s)"
proof (induction bs arbitrary: s)
  case (Cons b bs)
  show ?case
  proof (cases "ab_Type b = ''tool_use''")
    case True
    then show ?thesis using moves_trans [OF moves_emit [OF Cons.prems] Cons.IH [OF moves_length [OF moves_emit [OF Cons.prems] Cons.prems]]] by simp
  qed (use Cons in simp)
qed simp

lemma moves_completed_tools: "i < length (se_turns s) \<Longrightarrow> moves cfg s (completed_tools i bs s)"
proof (induction bs arbitrary: s)
  case (Cons b bs)
  show ?case
  proof (cases "ub_Type b = ''tool_result''")
    case True
    then show ?thesis using moves_trans [OF moves_emit [OF Cons.prems] Cons.IH [OF moves_length [OF moves_emit [OF Cons.prems] Cons.prems]]]
      by (simp add: case_prod_beta)
  qed (use Cons in simp)
qed simp

lemma moves_stream:
  assumes "i < length (se_turns s)"
  shows "moves cfg s (claudeStreamEvent now s i e)"
proof (cases e)
  case (Some e')
  let ?s1 = "claudeMessageContext now s i (sp_figures e')"
  have m: "moves cfg s ?s1" by (rule moves_claude_context [OF assms])
  then have "moves cfg s (set_turn i (message_start item (turn_of ?s1 i)) ?s1)" for item
    by (rule moves_trans [OF _ moves_set(5)]) (rule moves_length [OF m assms])
  then show ?thesis unfolding claudeStreamEvent_def Some option.case Let_def
    by (intro moves_if) (auto split: option.split intro: m moves_text [OF assms])
qed (simp add: claudeStreamEvent_def)

lemma moves_assistant:
  assumes i: "i < length (se_turns s)"
  shows "moves cfg s (claudeAssistant now s i f)"
proof -
  define s1 where "s1 = set_turn i (turn_of s i\<lparr>tu_claudeRefusal := Assistant (tu_claudeRefusal (turn_of s i)) (cf_error f)\<rparr>) s"
  define s2 where "s2 = claudeMessageContext now s1 i (cf_figures f)"
  define s3 where "s3 = observeRequestUsage s2 i (claudeResponseUsage (cf_message_usage f))"
  have m1: "moves cfg s s1" unfolding s1_def by (rule moves_note [OF i])
  have m2: "moves cfg s s2" unfolding s2_def by (rule moves_trans [OF m1 moves_claude_context(1) [OF moves_length [OF m1 i]]])
  have m3: "moves cfg s s3" unfolding s3_def by (rule moves_trans [OF m2 moves_usage [OF moves_length [OF m2 i]]])
  have m4: "moves cfg s (started_tools i bs s3)" for bs by (rule moves_trans [OF m3 moves_started_tools [OF moves_length [OF m3 i]]])
  have m5: "moves cfg s (session_text (started_tools i bs s3) i item new r)" for bs item new r
    by (rule moves_trans [OF m4 moves_text [OF moves_length [OF m4 i]]])
  show ?thesis unfolding claudeAssistant_def Let_def s1_def [symmetric] s2_def [symmetric] s3_def [symmetric]
    by (intro moves_if m1) (auto split: option.split intro: m3 m4 m5)
qed

lemma moves_result:
  assumes i: "i < length (se_turns s)"
  shows "moves cfg s (claudeResult s i f)"
proof (cases "cf_result f")
  case (Some r)
  define s1 where "s1 = (if \<not> rp_IsError r \<and> rp_Result r \<noteq> [] then session_text s i ''result'' (rp_Result r) True else s)"
  have m1: "moves cfg s s1" using moves_text [OF i] by (simp add: s1_def)
  have i1: "i < length (se_turns s1)" by (rule moves_length [OF m1 i])
  define s2 where "s2 = set_turn i (turn_of s1 i\<lparr>tu_Usage := result_usage r (cf_usage f) (tu_Usage (turn_of s1 i)), tu_NativeError := rp_IsError r\<rparr>) s1"
  have m2: "moves cfg s s2" unfolding s2_def
    using moves_trans [OF m1 moves_set(6) [OF i1, where w = "result_usage r (cf_usage f) (tu_Usage (turn_of s1 i))" and n = "rp_IsError r"]] by simp
  have m3: "moves cfg s (claudeModelCapacity s2 i ms)" for ms
    by (rule moves_trans [OF m2 moves_claude_context(2) [OF moves_length [OF m2 i]]])
  have "moves cfg s (publish_terminal (claudeModelCapacity s2 i ms) i status err)" for ms status err
    by (rule moves_trans [OF m3 moves_terminal [OF moves_length [OF m3 i]]])
  then show ?thesis unfolding claudeResult_def Some option.case Let_def s1_def [symmetric] s2_def [symmetric]
    by (intro moves_if moves_failTurn) (simp split: prod.split)
qed (simp add: claudeResult_def moves_failTurn)

lemma moves_claude:
  assumes i: "i < length (se_turns s)"
  shows "moves cfg s (claudeEvent now s i ref_id f)"
proof -
  have "moves cfg s (session_emit (markContext (invalidateContext s (Some i) r) m) i e)" for r m e
    using i by (intro moves_emit_from moves_mark_from moves_observe) auto
  moreover have "moves cfg s (claudeUser s i d)" for d by (cases d) (simp_all add: claudeUser_def moves_completed_tools i)
  ultimately show ?thesis unfolding claudeEvent_def
    by (intro moves_if moves_refl moves_failTurn moves_stream moves_assistant moves_result i)
qed

section \<open>A result ends the turn\<close>

lemma set_twice: "set_turn i t (set_turn i u s) = set_turn i t s"
  by (simp add: set_turn_def)

lemma text_room:
  assumes "\<not> tu_finished (turn_of s i)" "length (tu_events (turn_of s i)) < tu_buffer (turn_of s i)" "int (length new) \<le> se_MaxTextBytes s"
    "i < length (se_turns s)"
  shows "\<exists>e. session_text s i item new True =
    set_turn i (turn_of s i\<lparr>tu_Text := new, tu_textItem := item, tu_events := tu_events (turn_of s i) @ [e]\<rparr>) s"
proof -
  let ?t = "turn_of s i\<lparr>tu_Text := new, tu_textItem := item\<rparr>"
  have t: "text_turn (se_MaxTextBytes s) item new True (turn_of s i) = (?t, None)" using assms(1,3) by (simp add: text_turn_def)
  have "session_emit (set_turn i ?t s) i e = set_turn i (?t\<lparr>tu_events := tu_events (turn_of s i) @ [stamped ?t e]\<rparr>) s" for e
    using assms emit_room [of "set_turn i ?t s" i e] by (simp add: set_twice)
  then show ?thesis using t assms(1) by (auto simp: session_text_def)
qed

lemma capacity_room:
  assumes "\<not> tu_finished (turn_of s i)" "length (tu_events (turn_of s i)) < tu_buffer (turn_of s i)" "i < length (se_turns s)"
  shows "\<exists>es c. length es \<le> 1 \<and> turn_of (claudeModelCapacity s i ms) i = turn_of s i\<lparr>tu_Context := c, tu_events := tu_events (turn_of s i) @ es\<rparr>
    \<and> i < length (se_turns (claudeModelCapacity s i ms))"
proof (cases "model_capacity (se_Context s) ms")
  case None
  then show ?thesis using assms(3)
    by (intro exI [of _ "[]"] exI [of _ "tu_Context (turn_of s i)"]) (simp add: claudeModelCapacity_def)
next
  case (Some c)
  let ?s = "s\<lparr>se_Context := c, se_capContext := recordCapability (se_capContext s) None\<rparr>"
  let ?u = "set_turn i (turn_of ?s i\<lparr>tu_Context := c\<rparr>) ?s"
  have t: "turn_of ?s i = turn_of s i" by (simp add: turn_of_def)
  have "turn_of (session_emit ?u i e) i = turn_of s i\<lparr>tu_Context := c, tu_events := tu_events (turn_of s i) @ [stamped (turn_of ?u i) e]\<rparr>
      \<and> i < length (se_turns (session_emit ?u i e))" for e
    using assms emit_room [of ?u i e] t by (simp add: set_twice)
  then show ?thesis using Some
    by (intro exI [of _ "[stamped (turn_of ?u i) (context_event c)]"] exI [of _ c])
      (simp add: claudeModelCapacity_def observeContext_def publish_context_def)
qed

lemma failure_named:
  assumes "e = claudeTerminalFailure recorded terminal subtype"
  shows "te_Code e \<noteq> [] \<and> te_Engine e = Claude
    \<and> (tp_Reason terminal = ''prompt_too_long'' \<or> tp_Stop terminal = ''model_context_window_exceeded''
         \<longrightarrow> te_Code e = ''model_context_window_exceeded'' \<and> te_Cause e = CauseContextLimit \<and> te_ResetsAt e = None)
    \<and> (tp_Reason terminal \<noteq> ''prompt_too_long'' \<and> tp_Stop terminal \<noteq> ''model_context_window_exceeded'' \<and> ErrorCode (tp_Error terminal) = [] \<and> ref_code recorded \<noteq> []
         \<longrightarrow> te_Code e = ref_code recorded \<and> te_Cause e = fst (Refusal_Cause recorded) \<and> te_ResetsAt e = fst (snd (Refusal_Cause recorded)))"
  unfolding assms claudeTerminalFailure_def Let_def by (simp add: claude_failure_def split: prod.split)

lemma claude_result_exact:
  assumes "i < length (se_turns s)" "se_active s = Some i" "\<not> se_closed s" "\<not> tu_finished (turn_of s i)"
    "length (tu_events (turn_of s i)) + 4 \<le> tu_buffer (turn_of s i)" "cf_result f = Some r" "int (length (rp_Result r)) \<le> se_MaxTextBytes s"
  shows "if malformed_result r then turn_Wait (claudeResult s i f) i = (''failed'', Some ErrProtocol) \<and> se_closed (claudeResult s i f)
    else tu_finished (turn_of (claudeResult s i f) i)
      \<and> turn_Wait (claudeResult s i f) i = result_outcome (turn_of s i) r (cf_terminal f)
      \<and> tu_Usage (turn_of (claudeResult s i f) i) = result_usage r (cf_usage f) (tu_Usage (turn_of s i))
      \<and> tu_Text (turn_of (claudeResult s i f) i) = (if \<not> rp_IsError r \<and> rp_Result r \<noteq> [] then rp_Result r else tu_Text (turn_of s i))
      \<and> tu_NativeError (turn_of (claudeResult s i f) i) = rp_IsError r
      \<and> (\<exists>es. tu_events (turn_of (claudeResult s i f) i) =
           tu_events (turn_of s i) @ es @ [stamped (turn_of s i) ((event_of ''status'')\<lparr>ev_Status := fst (result_outcome (turn_of s i) r (cf_terminal f))\<rparr>)])"
proof (cases "malformed_result r")
  case True
  then show ?thesis using fail_active [OF assms(1-4), of ErrProtocol] assms(6) by (simp add: claudeResult_def)
next
  case False
  let ?t = "turn_of s i"
  define s1 where "s1 = (if \<not> rp_IsError r \<and> rp_Result r \<noteq> [] then session_text s i ''result'' (rp_Result r) True else s)"
  define said where "said = (if \<not> rp_IsError r \<and> rp_Result r \<noteq> [] then rp_Result r else tu_Text ?t)"
  obtain item es1 where s1: "s1 = set_turn i (?t\<lparr>tu_Text := said, tu_textItem := item, tu_events := tu_events ?t @ es1\<rparr>) s" "length es1 \<le> 1"
  proof (cases "\<not> rp_IsError r \<and> rp_Result r \<noteq> []")
    case True
    then obtain e where "s1 = set_turn i (?t\<lparr>tu_Text := rp_Result r, tu_textItem := ''result'', tu_events := tu_events ?t @ [e]\<rparr>) s"
      using text_room [of s i "rp_Result r" "''result''"] assms by (auto simp: s1_def)
    then show ?thesis using that [of "[e]" "''result''"] True by (simp add: said_def)
  next
    case no: False
    have "s = set_turn i (?t\<lparr>tu_Text := tu_Text ?t, tu_textItem := tu_textItem ?t, tu_events := tu_events ?t @ []\<rparr>) s"
      by (simp add: set_turn_def turn_of_def)
    moreover have "s1 = s" "said = tu_Text ?t" using no unfolding s1_def said_def by (simp_all only: if_False)
    ultimately show ?thesis using that [of "[]" "tu_textItem ?t"] by simp
  qed
  have t1: "turn_of s1 i = ?t\<lparr>tu_Text := said, tu_textItem := item, tu_events := tu_events ?t @ es1\<rparr>" "i < length (se_turns s1)"
    using s1(1) assms(1) by simp_all
  define s2 where "s2 = set_turn i (turn_of s1 i\<lparr>tu_Usage := result_usage r (cf_usage f) (tu_Usage (turn_of s1 i)), tu_NativeError := rp_IsError r\<rparr>) s1"
  have t2: "turn_of s2 i = ?t\<lparr>tu_Text := said, tu_textItem := item, tu_events := tu_events ?t @ es1,
      tu_Usage := result_usage r (cf_usage f) (tu_Usage ?t), tu_NativeError := rp_IsError r\<rparr>" "i < length (se_turns s2)"
    using t1 by (simp_all add: s2_def)
  obtain es2 c where t3: "length es2 \<le> 1"
      "turn_of (claudeModelCapacity s2 i (cf_modelUsage f)) i = turn_of s2 i\<lparr>tu_Context := c, tu_events := tu_events (turn_of s2 i) @ es2\<rparr>"
      "i < length (se_turns (claudeModelCapacity s2 i (cf_modelUsage f)))"
    using capacity_room [of s2 i "cf_modelUsage f"] t2 assms(4,5) s1(2) by auto
  let ?s3 = "claudeModelCapacity s2 i (cf_modelUsage f)"
  obtain status err where o: "result_outcome ?t r (cf_terminal f) = (status, err)" by fastforce
  have "result_outcome (turn_of s1 i) r (cf_terminal f) = result_outcome ?t r (cf_terminal f)" by (simp add: result_outcome_def t1(1))
  then have "result_outcome (turn_of s1 i) r (cf_terminal f) = (status, err)" using o by simp
  then have "claudeResult s i f = publish_terminal ?s3 i status err"
    unfolding claudeResult_def assms(6) option.case Let_def s1_def [symmetric] s2_def [symmetric] using False by simp
  moreover have "turn_of (publish_terminal ?s3 i status err) i =
      finish_turn status err (turn_of ?s3 i\<lparr>tu_events := tu_events (turn_of ?s3 i) @ terminal_events (turn_of ?s3 i) status\<rparr>)"
    using t2 t3 s1(2) assms(4,5) by (intro terminal_exact) simp_all
  ultimately show ?thesis using False t2 t3(2) assms(4) o
    by (simp add: finish_turn_def turn_Wait_def terminal_events_def stamped_def said_def)
qed

text \<open>C36.
  Claude's result ends the turn, and says how. A result that reports no error completes the turn with its text and its accounting; an error
  after a requested interruption, of the kind an interruption causes, is an interruption; every other error is a failure with a
  named code: the context limit where the frame says so, and otherwise the refusal recorded during the turn where there was one. The figures
  and the text of an errored result are never taken: usage and text stay what they were. A result without a subtype, or one that reports
  neither success nor an error, ends the turn and the session as a protocol error.
\<close>

theorem claude_result_ends:
  assumes "i < length (se_turns s)" "se_active s = Some i" "\<not> se_closed s" "\<not> tu_finished (turn_of s i)"
    "length (tu_events (turn_of s i)) + 4 \<le> tu_buffer (turn_of s i)" "cf_result f = Some r" "int (length (rp_Result r)) \<le> se_MaxTextBytes s"
    "s' = claudeResult s i f" "t = turn_of s i" "t' = turn_of s' i"
  shows "tu_finished t'
    \<and> (rp_Subtype r = [] \<or> \<not> rp_IsError r \<and> rp_Subtype r \<noteq> ''success'' \<longrightarrow> turn_Wait s' i = (''failed'', Some ErrProtocol) \<and> se_closed s')
    \<and> (\<not> rp_IsError r \<and> rp_Subtype r = ''success'' \<longrightarrow> turn_Wait s' i = (''completed'', None) \<and> \<not> tu_NativeError t'
         \<and> tu_Text t' = (if rp_Result r \<noteq> [] then rp_Result r else tu_Text t)
         \<and> (if rp_HasUsage r then s_Usage (tu_Usage t') = s_Usage (parseClaudeUsage (cf_usage f)) \<and> s_Final (tu_Usage t') = Known (s_Usage (tu_Usage t'))
            else tu_Usage t' = tu_Usage t))
    \<and> (rp_IsError r \<and> rp_Subtype r \<noteq> [] \<longrightarrow> tu_NativeError t' \<and> tu_Text t' = tu_Text t \<and> tu_Usage t' = tu_Usage t
         \<and> (if tu_interruptRequested t \<and> rp_Subtype r = ''error_during_execution'' then turn_Wait s' i = (''interrupted'', None)
            else \<exists>e. turn_Wait s' i = (''failed'', Some (TurnFailure e)) \<and> te_Engine e = Claude \<and> te_Code e \<noteq> []
              \<and> (if tp_Reason (cf_terminal f) = ''prompt_too_long'' \<or> tp_Stop (cf_terminal f) = ''model_context_window_exceeded''
                 then te_Code e = ''model_context_window_exceeded'' \<and> te_Cause e = CauseContextLimit
                 else ErrorCode (tp_Error (cf_terminal f)) = [] \<and> ref_code (tu_claudeRefusal t) \<noteq> []
                   \<longrightarrow> te_Code e = ref_code (tu_claudeRefusal t) \<and> te_Cause e = fst (Refusal_Cause (tu_claudeRefusal t)))))"
proof -
  note exact = claude_result_exact [OF assms(1-7), folded assms(8), folded assms(9,10)]
  show ?thesis
  proof (cases "malformed_result r")
    case True
    then have "s' = failTurn s None ErrProtocol" using assms(6,8) by (simp add: claudeResult_def)
    then have f: "turn_Wait s' i = (''failed'', Some ErrProtocol)" "tu_finished t'" "se_closed s'"
      using fail_active [OF assms(1-4), of ErrProtocol] assms(10) by simp_all
    show ?thesis using True f by (auto simp: malformed_result_def)
  next
    case False
    note e = exact [unfolded if_not_P [OF False]]
    show ?thesis
    proof (cases "rp_IsError r")
      case True
      then have "tu_Usage t' = tu_Usage t" "tu_Text t' = tu_Text t" "tu_NativeError t'" "tu_finished t'" using e by (simp_all add: result_usage_def)
      moreover have "turn_Wait s' i = (if tu_interruptRequested t \<and> rp_Subtype r = ''error_during_execution'' then (''interrupted'', None)
          else (''failed'', Some (TurnFailure (claudeTerminalFailure (tu_claudeRefusal t) (cf_terminal f) (rp_Subtype r)))))"
        using e True by (simp add: result_outcome_def)
      ultimately show ?thesis using True False failure_named [OF refl, of "tu_claudeRefusal t" "cf_terminal f" "rp_Subtype r"]
        by (simp add: malformed_result_def)
    next
      case no: False
      then have "turn_Wait s' i = (''completed'', None)" using e by (simp add: result_outcome_def)
      then show ?thesis using no False e by (simp add: result_usage_def malformed_result_def)
    qed
  qed
qed

lemma codex_elsewhere:
  "cp_threadId p \<noteq> [] \<Longrightarrow> ref_id \<noteq> [] \<Longrightarrow> cp_threadId p \<noteq> ref_id \<Longrightarrow> codexEvent now s i ref_id method (Some p) = s"
  "method \<noteq> ''turn/started'' \<Longrightarrow> cp_turnId p \<noteq> [] \<Longrightarrow> cp_turnId p \<noteq> tu_id (turn_of s i) \<Longrightarrow> codexEvent now s i ref_id method (Some p) = s"
  by (simp_all add: codexEvent_def)

section \<open>A frame at work\<close>

definition demo_frame :: claude_frame where
  "demo_frame = \<lparr>cf_session_id = [], cf_parent = [], cf_type = ''result'', cf_subtype = [], cf_uuid = [], cf_metadata = None, cf_metadata_trigger = [],
     cf_trigger = [], cf_event = None, cf_error = [], cf_is_api_error = False, cf_figures = None, cf_message_usage = None, cf_assistant = None,
     cf_user = None, cf_result = Some \<lparr>rp_Result = ''done'', rp_Subtype = ''success'', rp_IsError = False, rp_HasUsage = False\<rparr>, cf_usage = None,
     cf_modelUsage = None, cf_terminal = \<lparr>tp_decoded = True, tp_Reason = [], tp_Stop = [], tp_Error = []\<rparr>\<rparr>"

lemma demo_started_fields:
  "0 < length (se_turns demo_started)" "se_active demo_started = Some 0" "\<not> se_closed demo_started" "\<not> tu_finished (turn_of demo_started 0)"
  "length (tu_events (turn_of demo_started 0)) + 4 \<le> tu_buffer (turn_of demo_started 0)" "se_MaxTextBytes demo_started = 100"
  by (simp_all add: demo_session_defs turn_of_def)

theorem claude_result_ends_witness:
  "turn_Wait (claudeResult demo_started 0 demo_frame) 0 = (''completed'', None) \<and> tu_Text (turn_of (claudeResult demo_started 0 demo_frame) 0) = ''done''"
  using claude_result_ends [OF demo_started_fields(1-5) _ _ refl refl refl, of demo_frame "the (cf_result demo_frame)"]
  by (simp add: demo_started_fields(6) demo_frame_def malformed_result_def result_outcome_def)

end
