(* ===== verification/Acp_Events.thy ===== *)
theory Acp_Events
  imports Claude_Events
begin

text \<open>
  The Agent Client Protocol as Grok, Command Code and fx speak it (session/acp_events.go, acp_turn.go, events_grok.go,
  events_commandcode.go, events_fx.go), and the stream of Antigravity (events_antigravity.go). Updates and responses are what
  \<open>encoding/json\<close> decoded, as in Codex_Events; a usage report is the figures of its struct, \<open>None\<close> where it is missing or malformed.
\<close>

section \<open>Updates\<close>

record acp_update =
  up_str :: "string \<Rightarrow> string"
  up_raw :: "string \<Rightarrow> string"
  up_metaTool :: string
  up_message :: "(string \<times> string) option"
  up_rawOutputText :: "string option"
  up_content :: tool_content
  up_blocks :: "(string \<times> string \<times> string) list option"
  up_imageBlocks :: "(string \<times> tool_content_block) list option"
  up_occupancy :: "(int64 option \<times> int64 option) option"
  up_usage :: "report option"

text \<open>One engine's reading of an update. Its \<open>context\<close> is the quality and the reason \<open>acpContext\<close> is called with, where it is.\<close>

record acp_updates =
  au_messageItem :: "turn \<Rightarrow> acp_update \<Rightarrow> string"
  au_newMessageAfterTool :: bool
  au_toolName :: "acp_update \<Rightarrow> string"
  au_context :: "(measurement \<times> string) option"

text \<open>\<open>acpSessionUpdate\<close>: \<open>params\<close> is the session and the update it names.\<close>

definition acpSessionUpdate :: "(string \<times> acp_update option) option \<Rightarrow> string \<Rightarrow> acp_update option" where
  "acpSessionUpdate params ref_id =
     (case params of
        Some (session_id, Some update) \<Rightarrow> if ref_id = [] \<or> session_id \<noteq> ref_id then None else Some update
      | _ \<Rightarrow> None)"

definition identifier_char :: "char \<Rightarrow> bool" where
  "identifier_char c \<longleftrightarrow> ascii_upper (byte c) \<or> ascii_lower (byte c) \<or> ascii_digit (byte c) \<or> c \<in> set ''_.:-''"

definition acpToolIdentifier :: "string \<Rightarrow> bool" where
  "acpToolIdentifier name \<longleftrightarrow> 1 \<le> length name \<and> length name \<le> 128 \<and> list_all identifier_char name"

definition acpCountedItem :: "string \<Rightarrow> turn \<Rightarrow> string" where
  "acpCountedItem item t = item @ strconv_Itoa (tu_acpMessage t)"

definition grokToolName :: "acp_update \<Rightarrow> string" where
  "grokToolName u =
     (if acpToolIdentifier (up_metaTool u) then up_metaTool u
      else if acpToolIdentifier (up_str u ''title'') then up_str u ''title'' else ''tool'')"

definition commandCodeToolKinds :: "string list" where
  "commandCodeToolKinds = [''read'', ''edit'', ''delete'', ''move'', ''search'', ''execute'', ''think'', ''fetch'', ''switch_mode'', ''other'']"

definition commandCodeToolName :: "acp_update \<Rightarrow> string" where
  "commandCodeToolName u =
     (if acpToolIdentifier (up_str u ''title'') then up_str u ''title''
      else if up_str u ''kind'' \<in> set commandCodeToolKinds then up_str u ''kind'' else ''tool'')"

definition fxToolName :: "acp_update \<Rightarrow> string" where
  "fxToolName u = (if acpToolIdentifier (up_str u ''name'') then up_str u ''name'' else [])"

definition grokUpdates :: acp_updates where
  "grokUpdates = \<lparr>au_messageItem = (\<lambda>t u. acpCountedItem ''response-'' t), au_newMessageAfterTool = False, au_toolName = grokToolName, au_context = None\<rparr>"

definition commandCodeUpdates :: acp_updates where
  "commandCodeUpdates = \<lparr>au_messageItem = (\<lambda>t u. acpCountedItem ''message-'' t), au_newMessageAfterTool = True, au_toolName = commandCodeToolName,
     au_context = Some (Estimated, ''Command Code'' @ [CHR 0x27] @ ''s own count of the conversation'' @ [CHR 0x27] @ ''s context'')\<rparr>"

definition fxUpdates :: acp_updates where
  "fxUpdates = \<lparr>au_messageItem = (\<lambda>t u. if up_str u ''messageId'' \<noteq> [] then up_str u ''messageId'' else acpCountedItem ''response-'' t),
     au_newMessageAfterTool = True, au_toolName = fxToolName,
     au_context = Some (Measured, ''fx'' @ [CHR 0x27] @ ''s own count of the conversation'' @ [CHR 0x27] @ ''s context'')\<rparr>"

definition occupancy :: "int \<Rightarrow> session \<Rightarrow> string \<Rightarrow> measurement \<Rightarrow> string \<Rightarrow> int64 \<Rightarrow> int64 option \<Rightarrow> context_snapshot" where
  "occupancy now s source quality reason used capacity =
     (let window = (case capacity of Some n \<Rightarrow> if sint n > 0 then Some n else None | None \<Rightarrow> None)
      in setContextPercent (no_context\<lparr>cx_Observation := (observation_now now source quality)\<lparr>ob_Reason := reason\<rparr>, cx_Model := se_acpModel s,
           cx_UsedTokens := Some used, cx_CapacityTokens := window, cx_ModelCapacityTokens := window\<rparr>))"

definition acpContext :: "int \<Rightarrow> session \<Rightarrow> nat \<Rightarrow> acp_update \<Rightarrow> measurement \<Rightarrow> string \<Rightarrow> session" where
  "acpContext now s i u quality reason =
     (case up_occupancy u of
        Some (Some used, window) \<Rightarrow>
          if sint used < 0 then s else observeContext s (Some i) (occupancy now s ''usage_update'' quality reason used window)
      | _ \<Rightarrow> s)"

definition acpToolImages :: "acp_update \<Rightarrow> tool_images" where
  "acpToolImages u =
     (case up_imageBlocks u of
        None \<Rightarrow> no_images
      | Some blocks \<Rightarrow> foldl add_image no_images (map snd (filter (\<lambda>b. fst b = ''content'' \<and> cb_Type (snd b) = ''image'') blocks)))"

text \<open>The loop of \<open>acpToolOutput\<close> over its blocks: a block's type, and its content's type and text.\<close>

fun block_texts :: "(string \<times> string \<times> string) list \<Rightarrow> string list option" where
  "block_texts [] = Some []"
| "block_texts ((outer, typ, new) # bs) =
     (if outer = ''content'' \<and> typ = ''image'' then block_texts bs
      else if outer = ''content'' \<and> typ = ''text'' then map_option ((#) new) (block_texts bs)
      else None)"

definition acpToolOutput :: "acp_update \<Rightarrow> string" where
  "acpToolOutput u =
     (if \<not> Absent (up_raw u ''rawOutput'') then (case up_rawOutputText u of Some s \<Rightarrow> s | None \<Rightarrow> up_raw u ''rawOutput'')
      else if Absent (co_raw (up_content u)) then toolResultText (up_content u)
      else case up_blocks u of
        None \<Rightarrow> toolResultText (up_content u)
      | Some blocks \<Rightarrow> (case block_texts blocks of Some parts \<Rightarrow> strings_Join parts [CHR 0x0A] | None \<Rightarrow> co_raw (up_content u)))"

definition acp_tool_call :: "session \<Rightarrow> nat \<Rightarrow> acp_updates \<Rightarrow> acp_update \<Rightarrow> session" where
  "acp_tool_call s i au u =
     (if up_str u ''toolCallId'' = [] then s
      else let s1 = (if au_newMessageAfterTool au then set_turn i (turn_of s i\<lparr>tu_acpMessage := tu_acpMessage (turn_of s i) + 1\<rparr>) s else s);
               status = (if up_str u ''status'' = [] then ''pending'' else up_str u ''status'');
               name = (if au_toolName au u = [] then ''tool'' else au_toolName au u)
           in session_emit s1 i (withToolPayload s1 ((event_of ''tool_started'')\<lparr>ev_ItemID := up_str u ''toolCallId'', ev_Tool := name, ev_Status := status\<rparr>)
                (up_raw u ''rawInput'') []))"

definition acpUpdate :: "int \<Rightarrow> session \<Rightarrow> nat \<Rightarrow> string \<Rightarrow> (string \<times> acp_update option) option \<Rightarrow> acp_updates \<Rightarrow> session" where
  "acpUpdate now s i ref_id params au =
     (case acpSessionUpdate params ref_id of
        None \<Rightarrow> s
      | Some u \<Rightarrow>
         (let kind = up_str u ''sessionUpdate'' in
          if kind = ''agent_message_chunk'' then
            (case up_message u of
               Some (typ, new) \<Rightarrow> if typ = ''text'' \<and> new \<noteq> [] then session_text s i (au_messageItem au (turn_of s i) u) new False else s
             | None \<Rightarrow> s)
          else if kind = ''tool_call'' then acp_tool_call s i au u
          else if kind = ''tool_call_update'' then
            (if up_str u ''toolCallId'' \<noteq> [] \<and> (up_str u ''status'' = ''completed'' \<or> up_str u ''status'' = ''failed'')
             then session_emit s i (withImages (withToolPayload s ((event_of ''tool_completed'')\<lparr>ev_ItemID := up_str u ''toolCallId'',
                    ev_Status := up_str u ''status''\<rparr>) (up_raw u ''rawInput'') (acpToolOutput u)) (acpToolImages u))
             else s)
          else if kind = ''usage_update'' then (case au_context au of Some (quality, reason) \<Rightarrow> acpContext now s i u quality reason | None \<Rightarrow> s)
          else s))"

section \<open>Engines\<close>

definition session_usage_of :: "usage \<Rightarrow> session_usage" where
  "session_usage_of u = \<lparr>s_Usage = u, s_Final = False\<rparr>"

definition parseGrokTurnUsage :: "report option \<Rightarrow> session_usage" where
  "parseGrokTurnUsage rep = session_usage_of (case rep of None \<Rightarrow> no_usage | Some r \<Rightarrow> CacheInclusive r)"

definition parseGrokResponseUsage :: "report option \<Rightarrow> session_usage" where
  "parseGrokResponseUsage rep = session_usage_of (case rep of None \<Rightarrow> no_usage | Some r \<Rightarrow> CacheExclusive r)"

definition parseFxTurnUsage :: "report option \<Rightarrow> session_usage" where
  "parseFxTurnUsage rep = session_usage_of (case rep of None \<Rightarrow> no_usage | Some r \<Rightarrow> CacheInclusive r)"

definition parseCommandCodeTurnUsage :: "report option \<Rightarrow> session_usage" where
  "parseCommandCodeTurnUsage rep = session_usage_of (case rep of None \<Rightarrow> no_usage | Some r \<Rightarrow> CacheInclusive (r\<lparr>r_Reasoning := None\<rparr>))"

definition grokContext :: "int \<Rightarrow> session \<Rightarrow> nat \<Rightarrow> session_usage \<Rightarrow> session" where
  "grokContext now s i u =
     (if \<not> Known (s_Usage u) then s
      else observeContext s (Some i) (occupancy now s ''response_completed.usage'' Estimated
        ''latest model input; pending output and tool results are not counted'' (Input (s_Usage u)) (Some (se_grokCapacity s))))"

definition grokResponseCompleted :: "int \<Rightarrow> session \<Rightarrow> nat \<Rightarrow> acp_update \<Rightarrow> session" where
  "grokResponseCompleted now s i u =
     (let usage = parseGrokResponseUsage (up_usage u);
          s1 = grokContext now (observeRequestUsage s i usage) i usage
      in set_turn i (turn_of s1 i\<lparr>tu_acpMessage := tu_acpMessage (turn_of s1 i) + 1\<rparr>) s1)"

definition grokEvent :: "int \<Rightarrow> session \<Rightarrow> nat \<Rightarrow> string \<Rightarrow> string \<Rightarrow> (string \<times> acp_update option) option \<Rightarrow> session" where
  "grokEvent now s i ref_id method params =
     (if method = ''session/update'' then acpUpdate now s i ref_id params grokUpdates
      else if method = ''_x.ai/session_notification'' then
        (case acpSessionUpdate params ref_id of
           Some u \<Rightarrow> if up_str u ''sessionUpdate'' = ''response_completed'' then grokResponseCompleted now s i u else s
         | None \<Rightarrow> s)
      else s)"

definition commandCodeEvent :: "int \<Rightarrow> session \<Rightarrow> nat \<Rightarrow> string \<Rightarrow> string \<Rightarrow> (string \<times> acp_update option) option \<Rightarrow> session" where
  "commandCodeEvent now s i ref_id method params =
     (if method = ''session/update'' then acpUpdate now s i ref_id params commandCodeUpdates else s)"

definition fxEvent :: "int \<Rightarrow> session \<Rightarrow> nat \<Rightarrow> string \<Rightarrow> string \<Rightarrow> (string \<times> acp_update option) option \<Rightarrow> session" where
  "fxEvent now s i ref_id method params =
     (if method = ''session/update'' then acpUpdate now s i ref_id params fxUpdates else s)"

section \<open>How a prompt ends\<close>

record acp_turn_end =
  ae_status :: string
  ae_code :: string
  ae_usage :: session_usage

text \<open>A prompt's response: its stop reason, the turn's usage and, of Grok, why it was cancelled.\<close>

record prompt_body =
  pb_StopReason :: string
  pb_usage :: "report option"
  pb_Category :: string

definition acpOutcome :: "string \<Rightarrow> bool \<Rightarrow> string \<times> string" where
  "acpOutcome stop interruptRequested =
     (if stop = ''end_turn'' then (''completed'', [])
      else if stop = ''cancelled'' then (if interruptRequested then (''interrupted'', []) else (''failed'', ''cancelled''))
      else if stop = ''max_tokens'' \<or> stop = ''max_turn_requests'' \<or> stop = ''refusal'' then (''failed'', stop)
      else (''failed'', ''stop_reason_unrecognized''))"

definition grokOutcome :: "string \<Rightarrow> string \<Rightarrow> bool \<Rightarrow> string \<times> string" where
  "grokOutcome stop category interruptRequested =
     (if stop = ''cancelled'' \<and> \<not> interruptRequested \<and> category = ''PermissionRejected'' then (''failed'', ''permission_rejected'')
      else acpOutcome stop interruptRequested)"

definition prompt_end :: "string \<times> string \<Rightarrow> session_usage \<Rightarrow> acp_turn_end" where
  "prompt_end outcome usage = \<lparr>ae_status = fst outcome, ae_code = snd outcome, ae_usage = usage\<rparr>"

definition readGrokPromptEnd :: "prompt_body option \<Rightarrow> bool \<Rightarrow> acp_turn_end option" where
  "readGrokPromptEnd body interruptRequested =
     (case body of
        None \<Rightarrow> None
      | Some b \<Rightarrow> if pb_StopReason b = [] then None
                  else Some (prompt_end (grokOutcome (pb_StopReason b) (pb_Category b) interruptRequested) (parseGrokTurnUsage (pb_usage b))))"

definition readFxPromptEnd :: "prompt_body option \<Rightarrow> bool \<Rightarrow> acp_turn_end option" where
  "readFxPromptEnd body interruptRequested =
     (case body of
        None \<Rightarrow> None
      | Some b \<Rightarrow> if pb_StopReason b = [] then None
                  else Some (prompt_end (acpOutcome (pb_StopReason b) interruptRequested) (parseFxTurnUsage (pb_usage b))))"

definition readCommandCodePromptEnd :: "prompt_body option \<Rightarrow> bool \<Rightarrow> acp_turn_end option" where
  "readCommandCodePromptEnd body interruptRequested =
     (case body of
        None \<Rightarrow> None
      | Some b \<Rightarrow> if pb_StopReason b = [] then None
                  else Some (prompt_end (acpOutcome (pb_StopReason b) interruptRequested) (parseCommandCodeTurnUsage (pb_usage b))))"

text \<open>The cause an ACP agent's refusal is classified with, from its code; \<open>NoCause\<close> where the method is missing.\<close>

definition refusal_cause :: "string \<Rightarrow> cause" where
  "refusal_cause code =
     (if code = ''method_not_found'' then NoCause
      else if code = ''authentication_required'' \<or> code = ''authentication_failed'' then CauseAuthentication
      else if code = ''rate_limited'' then CauseRateLimited
      else if code = ''timeout'' then CauseTimeout
      else if code = ''provider_unavailable'' then CauseUnavailable
      else CauseUnknown)"

datatype prompt_error = PromptRefused string | PromptFailed session_error

text \<open>The end of a turn with the accounting its engine stated for it, shared with Antigravity.\<close>

definition settle_turn :: "session \<Rightarrow> nat \<Rightarrow> session_usage \<Rightarrow> string \<Rightarrow> turn_error option \<Rightarrow> session" where
  "settle_turn s i stated status err =
     (let usage = stated\<lparr>s_Final := True\<rparr>; t = turn_of s i;
          s1 = set_turn i (t\<lparr>tu_Usage := (if Known (s_Usage stated) then usage else tu_Usage t), tu_NativeError := (tu_NativeError t \<or> err \<noteq> None)\<rparr>) s;
          s2 = (if Known (s_Usage stated) then session_emit s1 i ((event_of ''usage'')\<lparr>ev_Usage := Some usage\<rparr>) else s1);
          s3 = session_emit s2 i ((event_of ''status'')\<lparr>ev_Status := status\<rparr>)
      in turn_finish s3 i status (map_option TurnFailure err))"

definition plain_failure :: "engine \<Rightarrow> string \<Rightarrow> cause \<Rightarrow> turn_error" where
  "plain_failure engine code cause = \<lparr>te_Engine = engine, te_Code = code, te_Cause = cause, te_Phase = [], te_RetryAfter = 0, te_ResetsAt = None\<rparr>"

definition acpTurnEnded :: "session \<Rightarrow> nat \<Rightarrow> engine \<Rightarrow> acp_turn_end \<Rightarrow> cause \<Rightarrow> session" where
  "acpTurnEnded s i engine e cause =
     settle_turn s i (ae_usage e) (ae_status e) (if ae_code e \<noteq> [] then Some (plain_failure engine (ae_code e) cause) else None)"

definition acpPromptEnded :: "session \<Rightarrow> nat \<Rightarrow> engine \<Rightarrow> (bool \<Rightarrow> acp_turn_end option) \<Rightarrow> prompt_error option \<Rightarrow> session" where
  "acpPromptEnded s i engine reader err =
     (if tu_finished (turn_of s i) then s
      else case err of
        Some (PromptFailed e) \<Rightarrow> failTurn s (Some i) e
      | Some (PromptRefused code) \<Rightarrow>
          acpTurnEnded s i engine \<lparr>ae_status = ''failed'', ae_code = code, ae_usage = no_session_usage\<rparr> (refusal_cause code)
      | None \<Rightarrow>
         (case reader (tu_interruptRequested (turn_of s i)) of
            None \<Rightarrow> failTurn s (Some i) ErrProtocol
          | Some e \<Rightarrow> acpTurnEnded s i engine e NoCause))"

section \<open>Antigravity\<close>

record antigravity_tool =
  at_Name :: string
  at_Parameters :: string
  at_Output :: string
  at_Error :: "string option"

record antigravity_step =
  as_StepIndex :: "int option"
  as_StepType :: string
  as_State :: string
  as_TextDelta :: string
  as_ToolName :: string
  as_Usage :: "(report \<times> bool) option"
  as_ToolInfo :: "antigravity_tool option"

definition antigravityToolIdentifier :: "string \<Rightarrow> bool" where
  "antigravityToolIdentifier name \<longleftrightarrow> 1 \<le> length name \<and> length name \<le> 128 \<and> list_all (\<lambda>c. identifier_char c \<or> c = CHR ''/'') name"

text \<open>
  A usage report with whether both required fields are stated. The figures keep the report's places: its \<open>thinking_tokens\<close> under
  \<open>r_Reasoning\<close>, its \<open>cache_read_tokens\<close> under \<open>r_CacheRead\<close>.
\<close>

definition parseAntigravityUsage :: "(report \<times> bool) option \<Rightarrow> session_usage" where
  "parseAntigravityUsage rep =
     (case rep of
        None \<Rightarrow> no_session_usage
      | Some (c, stated) \<Rightarrow>
          if \<not> stated \<or> r_Input c = None \<or> r_Output c = None then no_session_usage
          else let produced = (if r_Reasoning c \<noteq> None then Sum [r_Output c, r_Reasoning c] else r_Output c)
               in session_usage_of (CacheExclusive \<lparr>r_Input = r_Input c, r_Output = produced, r_CacheRead = r_CacheRead c,
                    r_CacheWrite = NoCacheWrite (r_CacheRead c), r_Reasoning = r_Reasoning c\<rparr>))"

text \<open>\<open>antigravityTools\<close> is a set of keys: the steps started, completed and counted.\<close>

definition mark_key :: "nat \<Rightarrow> string \<Rightarrow> session \<Rightarrow> session" where
  "mark_key i key s = set_turn i (turn_of s i\<lparr>tu_antigravityTools := List.insert key (tu_antigravityTools (turn_of s i))\<rparr>) s"

definition antigravityStepUsage :: "session \<Rightarrow> nat \<Rightarrow> string \<Rightarrow> (report \<times> bool) option \<Rightarrow> session" where
  "antigravityStepUsage s i item rep =
     (let usage = parseAntigravityUsage rep; t = turn_of s i; key = item @ '':usage'';
          counted = (key \<in> set (tu_antigravityTools t));
          s1 = set_turn i (t\<lparr>tu_antigravityTools := List.insert key (tu_antigravityTools t),
                 tu_antigravityUsageGap := (tu_antigravityUsageGap t \<or> (\<not> counted \<and> \<not> Known (s_Usage usage)))\<rparr>) s
      in if \<not> counted then observeRequestUsage s1 i usage else s1)"

definition antigravity_tool_step :: "session \<Rightarrow> nat \<Rightarrow> string \<Rightarrow> antigravity_step \<Rightarrow> session" where
  "antigravity_tool_step s i item u =
     (let stated = (if as_ToolName u = [] then (case as_ToolInfo u of Some info \<Rightarrow> at_Name info | None \<Rightarrow> []) else as_ToolName u);
          raw = (case as_ToolInfo u of Some info \<Rightarrow> if \<not> Absent (at_Parameters info) then at_Parameters info else [] | None \<Rightarrow> []);
          result = (case as_ToolInfo u of
              Some info \<Rightarrow> if at_Output info = [] then (case at_Error info of Some message \<Rightarrow> message | None \<Rightarrow> []) else at_Output info
            | None \<Rightarrow> []);
          name = (if antigravityToolIdentifier stated then stated else ''tool'');
          started = (item \<in> set (tu_antigravityTools (turn_of s i)));
          s1 = (if started then s
                else let s0 = mark_key i item s
                     in session_emit s0 i (withToolPayload s0 ((event_of ''tool_started'')\<lparr>ev_ItemID := item, ev_Tool := name, ev_Status := ''in_progress''\<rparr>) raw []))
      in if as_State u \<notin> {''DONE'', ''ERROR'', ''CANCELED'', ''INTERRUPTED''} then s1
         else if item @ '':done'' \<in> set (tu_antigravityTools (turn_of s1 i)) then s1
         else let s2 = mark_key i (item @ '':done'') s1
              in session_emit s2 i (withToolPayload s2 ((event_of ''tool_completed'')\<lparr>ev_ItemID := item, ev_Tool := name,
                   ev_Status := (if as_State u = ''DONE'' then ''completed'' else ''failed'')\<rparr>) raw result))"

definition step_item :: "int \<Rightarrow> string" where
  "step_item n = ''step-'' @ strconv_Itoa (nat n)"

definition antigravityStepUpdate :: "session \<Rightarrow> nat \<Rightarrow> antigravity_step option \<Rightarrow> session" where
  "antigravityStepUpdate s i decoded =
     (case decoded of
        None \<Rightarrow> s
      | Some u \<Rightarrow>
         (case as_StepIndex u of
            None \<Rightarrow> s
          | Some n \<Rightarrow>
              if n < 0 then s
              else if as_StepType u = ''agent_response'' then
                (let s1 = (if as_TextDelta u \<noteq> [] then session_text s i (step_item n) (as_TextDelta u) False else s)
                 in if as_State u = ''DONE'' then antigravityStepUsage s1 i (step_item n) (as_Usage u) else s1)
              else if as_StepType u = ''tool'' then antigravity_tool_step s i (step_item n) u
              else s))"

definition antigravityOutcome :: "string \<Rightarrow> bool \<Rightarrow> string \<times> string" where
  "antigravityOutcome status hasError =
     (if status = ''SUCCESS'' then (if hasError then (''failed'', ''turn_failed'') else (''completed'', []))
      else if status = ''CANCELED'' then (''failed'', ''canceled'')
      else if status = ''INTERRUPTED'' then (''failed'', ''interrupted'')
      else if status = ''ERROR'' then (''failed'', ''turn_failed'')
      else if status = ''INVALID'' then (''failed'', ''invalid'')
      else (''failed'', ''status_unrecognized''))"

text \<open>A result: its status, its response and the bytes of its error.\<close>

definition antigravityResult :: "session \<Rightarrow> nat \<Rightarrow> (string \<times> string \<times> string) option \<Rightarrow> session" where
  "antigravityResult s i decoded =
     (case decoded of
        None \<Rightarrow> failTurn s None ErrProtocol
      | Some (stated, response, error) \<Rightarrow>
          if stated = [] then failTurn s None ErrProtocol
          else let (status, code) = antigravityOutcome stated (\<not> Absent error);
                   s1 = (if status = ''completed'' \<and> response \<noteq> [] then session_text s i ''result'' response True else s);
                   t = turn_of s1 i;
                   usage = (if status = ''completed'' \<and> \<not> tu_antigravityUsageGap t then tu_Observed t else no_session_usage)
               in settle_turn s1 i usage status (if code \<noteq> [] then Some (plain_failure Antigravity code NoCause) else None))"

text \<open>
  A frame: the conversation it names at the top or inside its payload, its kind, and the payload. An \<open>error\<close> frame only reaches the
  diagnostic hook.
\<close>

record antigravity_frame =
  af_conversation :: string
  af_step_conversation :: "string option"
  af_result_conversation :: "string option"
  af_event :: string
  af_step :: "antigravity_step option"
  af_result :: "(string \<times> string \<times> string) option"

definition antigravityConversation :: "antigravity_frame \<Rightarrow> string" where
  "antigravityConversation f =
     (if af_conversation f \<noteq> [] then af_conversation f
      else case af_step_conversation f of
        Some (c # cs) \<Rightarrow> c # cs
      | _ \<Rightarrow> (case af_result_conversation f of Some c \<Rightarrow> c | None \<Rightarrow> []))"

definition antigravityEvent :: "session \<Rightarrow> nat \<Rightarrow> string \<Rightarrow> antigravity_frame \<Rightarrow> session" where
  "antigravityEvent s i ref_id f =
     (if antigravityConversation f \<noteq> [] \<and> ref_id \<noteq> [] \<and> antigravityConversation f \<noteq> ref_id then failTurn s None ErrProtocol
      else if af_event f = ''step_update'' then antigravityStepUpdate s i (af_step f)
      else if af_event f = ''result'' then antigravityResult s i (af_result f)
      else s)"

end
