(* ===== verification/Dialects.thy ===== *)
theory Dialects
  imports Acp_Events
begin

text \<open>
  What the stream dialects of all engines have in common: they are sequences of the session's own steps. Then what is particular to
  the Agent Client Protocol and to Antigravity: how their turns end, and that a step is reported and counted once.
\<close>

section \<open>Every notification is a sequence of steps\<close>

lemma moves_acp_context: "i < length (se_turns s) \<Longrightarrow> moves cfg s (acpContext now s i u quality reason)"
  by (auto simp: acpContext_def intro!: moves_observe split: option.split)

lemma moves_tool_call:
  assumes "i < length (se_turns s)"
  shows "moves cfg s (acp_tool_call s i au u)"
proof -
  let ?s1 = "if au_newMessageAfterTool au then set_turn i (turn_of s i\<lparr>tu_acpMessage := tu_acpMessage (turn_of s i) + 1\<rparr>) s else s"
  have "moves cfg s ?s1" by (intro moves_if moves_note moves_refl assms)
  from moves_emit_from [OF this assms] show ?thesis unfolding acp_tool_call_def Let_def by (intro moves_if moves_refl)
qed

lemma moves_acp_update:
  assumes "i < length (se_turns s)"
  shows "moves cfg s (acpUpdate now s i ref_id params au)"
proof (cases "acpSessionUpdate params ref_id")
  case (Some u)
  have "moves cfg s (case up_message u of Some (typ, new) \<Rightarrow> if typ = ''text'' \<and> new \<noteq> [] then session_text s i (au_messageItem au (turn_of s i) u) new False else s | None \<Rightarrow> s)"
    using moves_text [OF assms] by (simp split: option.split)
  moreover have "moves cfg s (case au_context au of Some (quality, reason) \<Rightarrow> acpContext now s i u quality reason | None \<Rightarrow> s)"
    using moves_acp_context [OF assms] by (simp split: option.split)
  ultimately show ?thesis unfolding acpUpdate_def Some option.case Let_def
    by (intro moves_if moves_refl moves_tool_call moves_emit assms)
qed (simp add: acpUpdate_def)

lemma moves_grok:
  assumes i: "i < length (se_turns s)"
  shows "moves cfg s (grokEvent now s i ref_id meth params)"
proof -
  have "moves cfg s (grokResponseCompleted now s i u)" for u
  proof -
    let ?usage = "parseGrokResponseUsage (up_usage u)"
    have m1: "moves cfg s (observeRequestUsage s i ?usage)" by (rule moves_usage [OF i])
    have "moves cfg (observeRequestUsage s i ?usage) (grokContext now (observeRequestUsage s i ?usage) i ?usage)"
      using moves_length [OF m1 i] by (auto simp: grokContext_def intro!: moves_observe)
    then have m2: "moves cfg s (grokContext now (observeRequestUsage s i ?usage) i ?usage)" using m1 moves_trans by blast
    show ?thesis unfolding grokResponseCompleted_def Let_def by (rule moves_trans [OF m2 moves_note(4) [OF moves_length [OF m2 i]]])
  qed
  then show ?thesis unfolding grokEvent_def
    by (intro moves_if moves_refl moves_acp_update i) (simp split: option.split)
qed

lemma moves_settle:
  assumes i: "i < length (se_turns s)"
  shows "moves cfg s (settle_turn s i stated status err)"
proof -
  let ?t = "turn_of s i"
  define s1 where "s1 = set_turn i (?t\<lparr>tu_Usage := (if Known (s_Usage stated) then stated\<lparr>s_Final := True\<rparr> else tu_Usage ?t), tu_NativeError := (tu_NativeError ?t \<or> err \<noteq> None)\<rparr>) s"
  have m1: "moves cfg s s1" unfolding s1_def by (rule moves_set(6) [OF i])
  define s2 where "s2 = (if Known (s_Usage stated) then session_emit s1 i ((event_of ''usage'')\<lparr>ev_Usage := Some (stated\<lparr>s_Final := True\<rparr>)\<rparr>) else s1)"
  have m2: "moves cfg s s2" unfolding s2_def by (intro moves_if moves_emit_from m1 i)
  have m3: "moves cfg s (session_emit s2 i ((event_of ''status'')\<lparr>ev_Status := status\<rparr>))" by (intro moves_emit_from m2 i)
  show ?thesis unfolding settle_turn_def Let_def s1_def [symmetric] s2_def [symmetric]
    by (rule moves_trans [OF m3 moves_finish [OF moves_length [OF m3 i]]])
qed

lemma moves_prompt_ended:
  assumes "i < length (se_turns s)"
  shows "moves cfg s (acpPromptEnded s i engine reader err)"
  unfolding acpPromptEnded_def acpTurnEnded_def
  by (auto intro: moves_settle [OF assms] moves_failTurn split: option.split prompt_error.split)

lemma moves_mark_key: "i < length (se_turns s) \<Longrightarrow> moves cfg s (mark_key i key s)"
  unfolding mark_key_def by (rule moves_note)

lemma moves_step_usage:
  assumes i: "i < length (se_turns s)"
  shows "moves cfg s (antigravityStepUsage s i item rep)"
proof -
  have m: "moves cfg s (set_turn i (turn_of s i\<lparr>tu_antigravityTools := ks, tu_antigravityUsageGap := gap\<rparr>) s)" for ks gap by (rule moves_note [OF i])
  show ?thesis unfolding antigravityStepUsage_def Let_def
    by (intro moves_if m moves_trans [OF m moves_usage [OF moves_length [OF m i]]])
qed

lemma moves_tool_step:
  assumes i: "i < length (se_turns s)"
  shows "moves cfg s (antigravity_tool_step s i item u)"
proof -
  have started: "moves cfg s (session_emit (mark_key i item s) i e)" for e by (intro moves_emit_from moves_mark_key i)
  have once: "moves cfg s (session_emit (mark_key i k s1) i e)" if "moves cfg s s1" for s1 k e
    using that moves_trans [OF that moves_mark_key [OF moves_length [OF that i]]] by (intro moves_emit_from i)
  show ?thesis unfolding antigravity_tool_step_def Let_def
    by (intro moves_if once started moves_refl)
qed

lemma moves_step_update:
  assumes i: "i < length (se_turns s)"
  shows "moves cfg s (antigravityStepUpdate s i decoded)"
proof (cases decoded)
  case (Some u)
  have m: "moves cfg s (if c then session_text s i item new False else s)" for c item new by (intro moves_if moves_text moves_refl i)
  have "moves cfg s (antigravityStepUsage (if c then session_text s i item new False else s) i k rep)" for c item new k rep
    by (rule moves_trans [OF m moves_step_usage [OF moves_length [OF m i]]])
  note parts = moves_if m this moves_tool_step [OF i] moves_refl
  show ?thesis unfolding antigravityStepUpdate_def Some Let_def by (cases "as_StepIndex u"; simp only: option.case) (intro parts)+
qed (simp add: antigravityStepUpdate_def)

lemma moves_antigravity_result:
  assumes i: "i < length (se_turns s)"
  shows "moves cfg s (antigravityResult s i decoded)"
proof (cases decoded)
  case (Some r)
  have m: "moves cfg s (if c then session_text s i item new True else s)" for c item new by (intro moves_if moves_text moves_refl i)
  have "moves cfg s (settle_turn (if c then session_text s i item new True else s) i usage status err)" for c item new usage status err
    by (rule moves_trans [OF m moves_settle [OF moves_length [OF m i]]])
  note parts = moves_if this moves_failTurn
  show ?thesis unfolding antigravityResult_def Some option.case Let_def case_prod_beta by (intro parts)
qed (simp add: antigravityResult_def moves_failTurn)

lemma moves_antigravity: "i < length (se_turns s) \<Longrightarrow> moves cfg s (antigravityEvent s i ref_id f)"
  unfolding antigravityEvent_def by (intro moves_if moves_refl moves_failTurn moves_step_update moves_antigravity_result)

section \<open>All engines\<close>

text \<open>A notification for the active turn, as each engine's entry of the engine table reads it.\<close>

datatype engine_frame =
    CodexFrame string "codex_params option"
  | ClaudeFrame claude_frame
  | GrokFrame string "(string \<times> acp_update option) option"
  | CommandCodeFrame string "(string \<times> acp_update option) option"
  | FxFrame string "(string \<times> acp_update option) option"
  | AntigravityFrame antigravity_frame
  | PromptEnded engine "bool \<Rightarrow> acp_turn_end option" "prompt_error option"

fun dialect_event :: "int \<Rightarrow> nat \<Rightarrow> string \<Rightarrow> engine_frame \<Rightarrow> session \<Rightarrow> session" where
  "dialect_event now i ref_id (CodexFrame meth params) s = codexEvent now s i ref_id meth params"
| "dialect_event now i ref_id (ClaudeFrame f) s = claudeEvent now s i ref_id f"
| "dialect_event now i ref_id (GrokFrame meth params) s = grokEvent now s i ref_id meth params"
| "dialect_event now i ref_id (CommandCodeFrame meth params) s = commandCodeEvent now s i ref_id meth params"
| "dialect_event now i ref_id (FxFrame meth params) s = fxEvent now s i ref_id meth params"
| "dialect_event now i ref_id (AntigravityFrame f) s = antigravityEvent s i ref_id f"
| "dialect_event now i ref_id (PromptEnded engine reader err) s = acpPromptEnded s i engine reader err"

lemma moves_dialect: "i < length (se_turns s) \<Longrightarrow> moves cfg s (dialect_event now i ref_id frame s)"
proof (cases frame)
  case (CommandCodeFrame meth params)
  assume "i < length (se_turns s)"
  then show ?thesis using CommandCodeFrame moves_acp_update by (simp add: commandCodeEvent_def)
next
  case (FxFrame meth params)
  assume "i < length (se_turns s)"
  then show ?thesis using FxFrame moves_acp_update by (simp add: fxEvent_def)
qed (simp_all add: moves_codex moves_claude moves_grok moves_antigravity moves_prompt_ended)

definition dialect_events :: "nat \<Rightarrow> string \<Rightarrow> (int \<times> engine_frame) list \<Rightarrow> session \<Rightarrow> session" where
  "dialect_events i ref_id frames s = fold (\<lambda>(now, frame). dialect_event now i ref_id frame) frames s"

lemma moves_dialects: "i < length (se_turns s) \<Longrightarrow> moves cfg s (dialect_events i ref_id frames s)"
proof (induction frames arbitrary: s)
  case (Cons p frames)
  obtain now frame where p: "p = (now, frame)" by (cases p)
  have m: "moves cfg s (dialect_event now i ref_id frame s)" by (rule moves_dialect [OF Cons.prems])
  then show ?case using moves_trans [OF m Cons.IH [OF moves_length [OF m Cons.prems]]] p by (simp add: dialect_events_def)
qed (simp add: dialect_events_def)

text \<open>A frame that is about another thread, another turn or a subagent, or of another session of the Agent Client Protocol.\<close>

fun elsewhere :: "session \<Rightarrow> nat \<Rightarrow> string \<Rightarrow> engine_frame \<Rightarrow> bool" where
  "elsewhere s i ref_id (CodexFrame meth params) =
     (case params of None \<Rightarrow> True
      | Some p \<Rightarrow> (ref_id \<noteq> [] \<and> cp_threadId p \<noteq> [] \<and> cp_threadId p \<noteq> ref_id)
          \<or> (meth \<noteq> ''turn/started'' \<and> cp_turnId p \<noteq> [] \<and> cp_turnId p \<noteq> tu_id (turn_of s i)))"
| "elsewhere s i ref_id (ClaudeFrame f) = (cf_parent f \<noteq> [] \<and> (cf_session_id f = [] \<or> cf_session_id f = ref_id))"
| "elsewhere s i ref_id (GrokFrame meth params) = (acpSessionUpdate params ref_id = None)"
| "elsewhere s i ref_id (CommandCodeFrame meth params) = (acpSessionUpdate params ref_id = None)"
| "elsewhere s i ref_id (FxFrame meth params) = (acpSessionUpdate params ref_id = None)"
| "elsewhere s i ref_id (AntigravityFrame f) = False"
| "elsewhere s i ref_id (PromptEnded engine reader err) = tu_finished (turn_of s i)"

lemma elsewhere_ignored: "elsewhere s i ref_id frame \<Longrightarrow> dialect_event now i ref_id frame s = s"
proof (cases frame)
  case (CodexFrame meth params)
  assume "elsewhere s i ref_id frame"
  then show ?thesis using CodexFrame codex_elsewhere by (cases params) (auto simp: codexEvent_def [of _ _ _ _ _ None])
next
  case (ClaudeFrame f)
  assume "elsewhere s i ref_id frame"
  then show ?thesis using ClaudeFrame by (auto simp: claudeEvent_def)
qed (simp_all add: grokEvent_def commandCodeEvent_def fxEvent_def acpUpdate_def acpPromptEnded_def)

text \<open>A frame that names another session where the engine serves one only: Claude's session, Antigravity's conversation.\<close>

fun foreign :: "string \<Rightarrow> engine_frame \<Rightarrow> bool" where
  "foreign ref_id (ClaudeFrame f) = (cf_session_id f \<noteq> [] \<and> cf_session_id f \<noteq> ref_id)"
| "foreign ref_id (AntigravityFrame f) = (antigravityConversation f \<noteq> [] \<and> ref_id \<noteq> [] \<and> antigravityConversation f \<noteq> ref_id)"
| "foreign ref_id frame = False"

lemma foreign_fails: "foreign ref_id frame \<Longrightarrow> dialect_event now i ref_id frame s = failTurn s None ErrProtocol"
  by (cases frame) (simp_all add: claudeEvent_def antigravityEvent_def)

text \<open>C33.
  The dialects move a session only by its steps. Whatever frames the command lines send about a turn, in any order and however
  malformed, the session stays reachable, so that everything shown of reachable sessions holds of it; a turn that is over keeps its ending
  and gets no event from a late frame; a frame about another Codex thread or turn, another session of the Agent Client Protocol, or of a
  Claude subagent changes nothing; and a frame of another Claude session or Antigravity conversation, which no process should send, fails
  the turn and closes the session as a breach of protocol.
\<close>

theorem dialects_sound:
  assumes "reachable_from fresh_session (session_step cfg) s" "i < length (se_turns s)"
  shows "reachable_from fresh_session (session_step cfg) (dialect_events i ref_id frames s)
    \<and> length (se_turns (dialect_events i ref_id frames s)) = length (se_turns s)
    \<and> (tu_finished (turn_of s i) \<longrightarrow> turn_Wait (dialect_events i ref_id frames s) i = turn_Wait s i
        \<and> suffix (tu_events (turn_of (dialect_events i ref_id frames s) i)) (tu_events (turn_of s i)))
    \<and> (elsewhere s i ref_id frame \<longrightarrow> dialect_event now i ref_id frame s = s)
    \<and> (foreign ref_id frame \<and> se_active s = Some i \<and> \<not> se_closed s \<and> \<not> tu_finished (turn_of s i) \<longrightarrow>
        turn_Wait (dialect_event now i ref_id frame s) i = (''failed'', Some ErrProtocol)
        \<and> tu_finished (turn_of (dialect_event now i ref_id frame s) i) \<and> se_closed (dialect_event now i ref_id frame s))"
proof -
  have m: "moves cfg s (dialect_events i ref_id frames s)" by (rule moves_dialects [OF assms(2)])
  then have len: "length (se_turns (dialect_events i ref_id frames s)) = length (se_turns s)" by (simp add: moves_def)
  have "turn_Wait (dialect_event now i ref_id frame s) i = (''failed'', Some ErrProtocol)
      \<and> tu_finished (turn_of (dialect_event now i ref_id frame s) i) \<and> se_closed (dialect_event now i ref_id frame s)"
    if "foreign ref_id frame" "se_active s = Some i" "\<not> se_closed s" "\<not> tu_finished (turn_of s i)"
    unfolding foreign_fails [OF that(1)] by (rule fail_active [OF assms(2) that(2-4)])
  with len show ?thesis using moves_reachable [OF m assms(1)] moves_ended [OF m assms(2)] elsewhere_ignored by blast
qed

theorem dialects_sound_witness:
  "reachable_from fresh_session (session_step demo_config) (dialect_events 0 ''s1'' [(0, ClaudeFrame demo_frame), (1, ClaudeFrame demo_frame)] demo_started)
   \<and> turn_Wait (dialect_event 0 0 ''s1'' (ClaudeFrame (demo_frame\<lparr>cf_session_id := ''s2''\<rparr>)) demo_started) 0 = (''failed'', Some ErrProtocol)"
  using dialects_sound [OF demo_session_reachable(2) demo_started_fields(1), where ref_id = "''s1''" and now = 0
      and frames = "[(0, ClaudeFrame demo_frame), (1, ClaudeFrame demo_frame)]" and frame = "ClaudeFrame (demo_frame\<lparr>cf_session_id := ''s2''\<rparr>)"]
    demo_started_fields by (simp del: dialect_event.simps)

section \<open>The end of a prompt\<close>

lemma settle_exact:
  assumes "i < length (se_turns s)" "\<not> tu_finished (turn_of s i)" "length (tu_events (turn_of s i)) + 2 \<le> tu_buffer (turn_of s i)"
  shows "turn_Wait (settle_turn s i stated status err) i = (status, map_option TurnFailure err)
    \<and> tu_finished (turn_of (settle_turn s i stated status err) i)
    \<and> tu_Text (turn_of (settle_turn s i stated status err) i) = tu_Text (turn_of s i)
    \<and> tu_Usage (turn_of (settle_turn s i stated status err) i) = (if Known (s_Usage stated) then stated\<lparr>s_Final := True\<rparr> else tu_Usage (turn_of s i))
    \<and> se_closed (settle_turn s i stated status err) = se_closed s"
  using assms by (auto simp: settle_turn_def Let_def emit_room turn_finish_alt finish_turn_def turn_Wait_def)

lemma fail_expected:
  assumes "i < length (se_turns s)" "se_active s = Some i" "\<not> se_closed s" "\<not> tu_finished (turn_of s i)"
  shows "failTurn s (Some i) err = failTurn s None err"
  using assms by (simp add: failTurn_def failTurn_mark_def)

abbreviation failure_codes :: "string set" where
  "failure_codes \<equiv> {''cancelled'', ''permission_rejected'', ''max_tokens'', ''max_turn_requests'', ''refusal'', ''stop_reason_unrecognized''}"

lemma outcome_cases:
  assumes "outcome = acpOutcome stop req \<or> outcome = grokOutcome stop category req"
  shows "outcome = (''completed'', []) \<and> stop = ''end_turn''
    \<or> outcome = (''interrupted'', []) \<and> stop = ''cancelled'' \<and> req
    \<or> (\<exists>code. outcome = (''failed'', code) \<and> code \<noteq> [] \<and> code \<in> failure_codes \<and> stop \<noteq> ''end_turn'' \<and> \<not> (stop = ''cancelled'' \<and> req))"
proof -
  have acp: "outcome = acpOutcome stop req \<Longrightarrow> ?thesis"
  proof -
    assume e: "outcome = acpOutcome stop req"
    consider "stop = ''end_turn''" | "stop = ''cancelled''" | "stop = ''max_tokens''" | "stop = ''max_turn_requests''" | "stop = ''refusal''"
      | "stop \<noteq> ''end_turn''" "stop \<noteq> ''cancelled''" "stop \<noteq> ''max_tokens''" "stop \<noteq> ''max_turn_requests''" "stop \<noteq> ''refusal''"
      by blast
    then show ?thesis using e by cases (simp_all add: acpOutcome_def)
  qed
  show ?thesis
  proof (cases "outcome = acpOutcome stop req")
    case True
    then show ?thesis by (rule acp)
  next
    case False
    then have g: "outcome = grokOutcome stop category req" using assms by simp
    then have c: "stop = ''cancelled'' \<and> \<not> req \<and> category = ''PermissionRejected''"
      using False unfolding grokOutcome_def by (metis (full_types))
    then show ?thesis using g by (simp add: grokOutcome_def)
  qed
qed

text \<open>C37.
  A prompt's response ends its turn. Only an end of turn completes it, and a cancellation is an interruption exactly when one was asked
  for; everything else is a failure with one of a few fixed codes. The usage of the turn is what the response states, where that is
  consistent. A refusal is about this turn and leaves the session open; a response that cannot be read, or none, ends the session too.
\<close>

theorem acp_prompt_ends:
  assumes "i < length (se_turns s)" "se_active s = Some i" "\<not> se_closed s" "\<not> tu_finished (turn_of s i)"
    "length (tu_events (turn_of s i)) + 2 \<le> tu_buffer (turn_of s i)"
    "reader \<in> {readGrokPromptEnd body, readFxPromptEnd body, readCommandCodePromptEnd body}" "s' = acpPromptEnded s i engine reader err"
  shows "tu_finished (turn_of s' i) \<and> tu_Text (turn_of s' i) = tu_Text (turn_of s i)
    \<and> (case err of
         Some (PromptFailed e) \<Rightarrow> turn_Wait s' i = (''failed'', Some e) \<and> se_closed s'
       | Some (PromptRefused code) \<Rightarrow> \<not> se_closed s' \<and> fst (turn_Wait s' i) = ''failed''
           \<and> (code \<noteq> [] \<longrightarrow> snd (turn_Wait s' i) = Some (TurnFailure (plain_failure engine code (refusal_cause code))))
       | None \<Rightarrow>
          (case body of
             None \<Rightarrow> turn_Wait s' i = (''failed'', Some ErrProtocol) \<and> se_closed s'
           | Some b \<Rightarrow>
               if pb_StopReason b = [] then turn_Wait s' i = (''failed'', Some ErrProtocol) \<and> se_closed s'
               else \<not> se_closed s' \<and> tu_Usage (turn_of s' i) = (case reader (tu_interruptRequested (turn_of s i)) of
                     Some e \<Rightarrow> if Known (s_Usage (ae_usage e)) then (ae_usage e)\<lparr>s_Final := True\<rparr> else tu_Usage (turn_of s i)
                   | None \<Rightarrow> tu_Usage (turn_of s i))
                 \<and> (fst (turn_Wait s' i) = ''completed'' \<longleftrightarrow> pb_StopReason b = ''end_turn'')
                 \<and> (fst (turn_Wait s' i) = ''interrupted'' \<longleftrightarrow> pb_StopReason b = ''cancelled'' \<and> tu_interruptRequested (turn_of s i))
                 \<and> (case snd (turn_Wait s' i) of
                      None \<Rightarrow> fst (turn_Wait s' i) \<in> {''completed'', ''interrupted''}
                    | Some e \<Rightarrow> fst (turn_Wait s' i) = ''failed'' \<and> (\<exists>code. e = TurnFailure (plain_failure engine code NoCause)
                        \<and> code \<in> {''cancelled'', ''permission_rejected'', ''max_tokens'', ''max_turn_requests'', ''refusal'', ''stop_reason_unrecognized''}))))"
proof -
  note settled = settle_exact [OF assms(1,4,5)]
  note failed = fail_active [OF assms(1-4)]
  note expected = fail_expected [OF assms(1-4)]
  have kept: "tu_Text (turn_of (failTurn s None e) i) = tu_Text (turn_of s i)" for e
    using assms(1-4) by (simp add: failTurn_def failTurn_mark_def Let_def turn_finish_alt finish_turn_def turn_of_def)
  show ?thesis
  proof (cases err)
    case (Some e)
    then show ?thesis using assms(3,4,7) settled failed expected kept
      by (cases e) (simp_all add: acpPromptEnded_def acpTurnEnded_def)
  next
    case None
    show ?thesis
    proof (cases "reader (tu_interruptRequested (turn_of s i))")
      case unread: None
      then have "body = None \<or> (\<exists>b. body = Some b \<and> pb_StopReason b = [])" using assms(6)
        by (auto simp: readGrokPromptEnd_def readFxPromptEnd_def readCommandCodePromptEnd_def split: option.splits if_splits)
      moreover have "s' = failTurn s None ErrProtocol" using None unread assms(4,7) expected by (simp add: acpPromptEnded_def)
      ultimately show ?thesis using None failed kept by auto
    next
      case (Some e)
      then obtain b outcome where b: "body = Some b" "pb_StopReason b \<noteq> []" "ae_status e = fst outcome" "ae_code e = snd outcome"
          "outcome = acpOutcome (pb_StopReason b) (tu_interruptRequested (turn_of s i))
           \<or> outcome = grokOutcome (pb_StopReason b) (pb_Category b) (tu_interruptRequested (turn_of s i))"
        using assms(6) by (auto simp: readGrokPromptEnd_def readFxPromptEnd_def readCommandCodePromptEnd_def prompt_end_def split: option.splits if_splits)
      have s': "s' = settle_turn s i (ae_usage e) (fst outcome) (if snd outcome \<noteq> [] then Some (plain_failure engine (snd outcome) NoCause) else None)"
        using None Some assms(4,7) b(3,4) by (simp add: acpPromptEnded_def acpTurnEnded_def)
      from outcome_cases [OF b(5)] show ?thesis
      proof (elim disjE exE conjE)
        assume o: "outcome = (''completed'', [])" "pb_StopReason b = ''end_turn''"
        show ?thesis using None Some b(1) o settled [of "ae_usage e" "''completed''" None] assms(3) unfolding s' by simp
      next
        assume o: "outcome = (''interrupted'', [])" "pb_StopReason b = ''cancelled''" "tu_interruptRequested (turn_of s i)"
        show ?thesis using None Some b(1) o settled [of "ae_usage e" "''interrupted''" None] assms(3) unfolding s' by simp
      next
        fix code
        assume o: "outcome = (''failed'', code)" "code \<noteq> []" "code \<in> failure_codes"
          "pb_StopReason b \<noteq> ''end_turn''" "\<not> (pb_StopReason b = ''cancelled'' \<and> tu_interruptRequested (turn_of s i))"
        then have s'': "s' = settle_turn s i (ae_usage e) ''failed'' (Some (plain_failure engine code NoCause))" unfolding s' by simp
        have w: "turn_Wait s' i = (''failed'', Some (TurnFailure (plain_failure engine code NoCause)))"
          "tu_finished (turn_of s' i)" "tu_Text (turn_of s' i) = tu_Text (turn_of s i)" "\<not> se_closed s'"
          "tu_Usage (turn_of s' i) = (if Known (s_Usage (ae_usage e)) then (ae_usage e)\<lparr>s_Final := True\<rparr> else tu_Usage (turn_of s i))"
          unfolding s'' using settled [of "ae_usage e" "''failed''" "Some (plain_failure engine code NoCause)"] assms(3) by simp_all
        have d: "''failed'' \<noteq> ''completed''" "''failed'' \<noteq> ''interrupted''" by simp_all
        show ?thesis unfolding None b(1) Some option.case if_not_P [OF b(2)] w(1) fst_conv snd_conv
          by (intro conjI exI [of _ code] refl o(3) w(2-5)) (simp_all only: d o(4,5) simp_thms)
      qed
    qed
  qed
qed

theorem acp_prompt_ends_witness:
  "turn_Wait (acpPromptEnded demo_started 0 Fx (readFxPromptEnd (Some \<lparr>pb_StopReason = ''end_turn'', pb_usage = None, pb_Category = []\<rparr>)) None) 0
     = (''completed'', None)"
proof -
  let ?b = "Some \<lparr>pb_StopReason = ''end_turn'', pb_usage = None, pb_Category = []\<rparr>"
  let ?s = "acpPromptEnded demo_started 0 Fx (readFxPromptEnd ?b) None"
  have r: "readFxPromptEnd ?b \<in> {readGrokPromptEnd ?b, readFxPromptEnd ?b, readCommandCodePromptEnd ?b}" by simp
  have room: "length (tu_events (turn_of demo_started 0)) + 2 \<le> tu_buffer (turn_of demo_started 0)" using demo_started_fields(5) by linarith
  note over = acp_prompt_ends [OF demo_started_fields(1-4) room r refl, of Fx None]
  have c: "fst (turn_Wait ?s 0) = ''completed''" using over by simp
  show ?thesis
  proof (cases "snd (turn_Wait ?s 0)")
    case None
    then show ?thesis using c by (simp add: prod_eq_iff)
  next
    case (Some e)
    then have False using over by auto
    then show ?thesis ..
  qed
qed

section \<open>A step is reported once\<close>

text \<open>What Antigravity's reports rest on: the keys of a turn and its events.\<close>

definition told :: "turn \<Rightarrow> string list \<times> event list" where
  "told t = (tu_antigravityTools t, tu_events t)"

lemma told_finish [simp]: "told (finish_turn status err t) = told t"
  by (simp add: told_def finish_turn_def)

lemma told_text: "told (fst (text_turn m item new r t)) = told t"
  by (simp add: told_def text_turn_def Let_def)

lemma told_fields [simp]:
  "told (t\<lparr>tu_Usage := u, tu_NativeError := n\<rparr>) = told t" "told (observe_usage u t) = told t"
  by (simp_all add: told_def observe_usage_def)

lemma told_turn_finish [simp]: "told (turn_of (turn_finish s i status err) j) = told (turn_of s j)"
  by (auto simp: turn_finish_alt)

lemma told_ending [simp]: "told (turn_of (run_ending e s) j) = told (turn_of s j)"
  by (cases "(e, s)" rule: run_ending.cases) simp_all

lemma told_failTurn [simp]: "told (turn_of (failTurn s expected err) j) = told (turn_of s j)"
proof -
  have "turn_of (failTurn_mark s expected err) j = turn_of s j" by simp
  then have "told (turn_of ((failTurn_mark s expected err)\<lparr>se_endings := es\<rparr>) j) = told (turn_of s j)" for es by (simp add: turn_of_def)
  then show ?thesis by (simp add: failTurn_def Let_def del: run_ending.simps)
qed

lemma told_emit:
  "told (turn_of (session_emit s i e) i) = told (turn_of s i)
   \<or> told (turn_of (session_emit s i e) i) = (tu_antigravityTools (turn_of s i), tu_events (turn_of s i) @ [stamped (turn_of s i) e])"
proof -
  have "told (t\<lparr>tu_events := es\<rparr>) = (tu_antigravityTools t, es)" for t es by (simp add: told_def)
  then show ?thesis by (auto simp: session_emit_def emit_turn_def stamped_def)
qed

definition reports :: "string \<Rightarrow> string \<Rightarrow> event list \<Rightarrow> nat" where
  "reports kind item es = length (filter (\<lambda>e. ev_Kind e = kind \<and> ev_ItemID e = item) es)"

definition told_once :: "string list \<times> event list \<Rightarrow> bool" where
  "told_once p \<longleftrightarrow> (\<forall>item. reports ''tool_started'' item (snd p) \<le> of_bool (item \<in> set (fst p))
     \<and> reports ''tool_completed'' item (snd p) \<le> of_bool (item @ '':done'' \<in> set (fst p)))"

lemma reports_stamped: "reports kind item (es @ [stamped t e]) = reports kind item es + of_bool (ev_Kind e = kind \<and> ev_ItemID e = item)"
  by (simp add: reports_def stamped_def)


lemma once_quiet:
  assumes "told_once (told (turn_of s i))" "ev_Kind e \<notin> {''tool_started'', ''tool_completed''}"
  shows "told_once (told (turn_of (session_emit s i e) i))"
proof -
  have quiet: "reports ''tool_started'' item (es @ [stamped t e]) = reports ''tool_started'' item es"
    "reports ''tool_completed'' item (es @ [stamped t e]) = reports ''tool_completed'' item es" for item es t
    using assms(2) by (auto simp: reports_stamped)
  show ?thesis using told_emit [of s i e]
  proof
    assume e: "told (turn_of (session_emit s i e) i) = (tu_antigravityTools (turn_of s i), tu_events (turn_of s i) @ [stamped (turn_of s i) e])"
    show ?thesis using assms(1) unfolding e unfolding told_once_def told_def fst_conv snd_conv quiet .
  qed (simp add: assms(1))
qed

lemma once_text:
  assumes "told_once (told (turn_of s i))" "i < length (se_turns s)"
  shows "told_once (told (turn_of (session_text s i item new r) i))"
proof -
  obtain t err where t: "text_turn (se_MaxTextBytes s) item new r (turn_of s i) = (t, err)" by fastforce
  then have "told t = told (turn_of s i)" using told_text [of "se_MaxTextBytes s" item new r "turn_of s i"] by simp
  then show ?thesis using t assms by (cases err) (auto simp: session_text_def event_of_def intro!: once_quiet)
qed

lemma once_usage:
  assumes "told_once (told (turn_of s i))" "i < length (se_turns s)"
  shows "told_once (told (turn_of (observeRequestUsage s i u) i))"
  using assms by (auto simp: observeRequestUsage_def Let_def event_of_def intro!: once_quiet)

lemma once_more:
  assumes "told_once p" "set (fst p) \<subseteq> set ks" "snd p = es"
  shows "told_once (ks, es)"
  using assms by (fastforce simp: told_once_def of_bool_def split: if_splits)

lemma payload_identity [simp]:
  "ev_Kind (withToolPayload s e raw result) = ev_Kind e" "ev_ItemID (withToolPayload s e raw result) = ev_ItemID e"
  by (auto simp: withToolPayload_def payload_input_def payload_output_def split: prod.splits)

lemma once_marked:
  assumes "told_once (told (turn_of s i))" "i < length (se_turns s)" "key \<notin> set (tu_antigravityTools (turn_of s i))"
    "ev_Kind e = ''tool_started'' \<and> ev_ItemID e = key \<or> ev_Kind e = ''tool_completed'' \<and> ev_ItemID e @ '':done'' = key"
  shows "told_once (told (turn_of (session_emit (mark_key i key s) i e) i))"
proof -
  let ?t = "turn_of (mark_key i key s) i"
  have t: "set (tu_antigravityTools ?t) = insert key (set (tu_antigravityTools (turn_of s i)))" "tu_events ?t = tu_events (turn_of s i)"
    using assms(2) by (simp_all add: mark_key_def)
  have m: "told_once (told ?t)" unfolding told_def by (rule once_more [OF assms(1)]) (auto simp: told_def t)
  have k: "reports ''tool_started'' item (tu_events (turn_of s i)) \<le> of_bool (item \<in> set (tu_antigravityTools (turn_of s i)))"
      "reports ''tool_completed'' item (tu_events (turn_of s i)) \<le> of_bool (item @ '':done'' \<in> set (tu_antigravityTools (turn_of s i)))" for item
    using assms(1) by (auto simp: told_once_def told_def)
  have "told_once (tu_antigravityTools ?t, tu_events ?t @ [stamped ?t e])"
    unfolding told_once_def fst_conv snd_conv reports_stamped t
  proof (intro allI conjI)
    fix item
    show "reports ''tool_started'' item (tu_events (turn_of s i)) + of_bool (ev_Kind e = ''tool_started'' \<and> ev_ItemID e = item)
        \<le> of_bool (item \<in> insert key (set (tu_antigravityTools (turn_of s i))))"
      using k(1) [of item] assms(3,4) by (cases "item = key") auto
    show "reports ''tool_completed'' item (tu_events (turn_of s i)) + of_bool (ev_Kind e = ''tool_completed'' \<and> ev_ItemID e = item)
        \<le> of_bool (item @ '':done'' \<in> insert key (set (tu_antigravityTools (turn_of s i))))"
      using k(2) [of item] assms(3,4) by (cases "item @ '':done'' = key") auto
  qed
  then show ?thesis using told_emit [of "mark_key i key s" i e] m by auto
qed


lemma once_tool_step:
  assumes "told_once (told (turn_of s i))" "i < length (se_turns s)"
  shows "told_once (told (turn_of (antigravity_tool_step s i item u) i))"
proof -
  define t where "t s1 name raw status result = session_emit (mark_key i (item @ '':done'') s1) i
      (withToolPayload (mark_key i (item @ '':done'') s1) ((event_of ''tool_completed'')\<lparr>ev_ItemID := item, ev_Tool := name, ev_Status := status\<rparr>) raw result)"
    for s1 name raw status result
  have first: "told_once (told (turn_of (if item \<in> set (tu_antigravityTools (turn_of s i)) then s
      else session_emit (mark_key i item s) i (withToolPayload (mark_key i item s)
        ((event_of ''tool_started'')\<lparr>ev_ItemID := item, ev_Tool := name, ev_Status := ''in_progress''\<rparr>) raw [])) i))" for name raw
    using assms by (simp add: once_marked event_of_def)
  have len: "i < length (se_turns (if c then s else session_emit (mark_key i item s) i e))" for c e
    using moves_length [OF moves_emit_from [OF moves_mark_key [OF assms(2)] assms(2)] assms(2)] assms(2) by simp
  have second: "told_once (told (turn_of (if c then s1 else if item @ '':done'' \<in> set (tu_antigravityTools (turn_of s1 i)) then s1 else t s1 name raw status result) i))"
    if "told_once (told (turn_of s1 i))" "i < length (se_turns s1)" for c s1 name raw status result
    unfolding t_def using that by (simp add: once_marked event_of_def)
  show ?thesis unfolding antigravity_tool_step_def Let_def t_def [symmetric] by (rule second [OF first len])
qed

lemma once_step:
  assumes "told_once (told (turn_of s i))" "i < length (se_turns s)"
  shows "told_once (told (turn_of (antigravityStepUpdate s i decoded) i))"
proof (cases decoded)
  case (Some u)
  have a: "told_once (told (turn_of (if c then session_text s i item new False else s) i))" for c item new
    using assms once_text by simp
  have l: "i < length (se_turns (if c then session_text s i item new False else s))" for c item new
    using assms(2) moves_length [OF moves_text] by simp
  have b: "told_once (told (turn_of (antigravityStepUsage s1 i k rep) i))"
    if "told_once (told (turn_of s1 i))" "i < length (se_turns s1)" for s1 k rep
  proof -
    let ?t = "\<lambda>gap. turn_of s1 i\<lparr>tu_antigravityTools := List.insert (k @ '':usage'') (tu_antigravityTools (turn_of s1 i)), tu_antigravityUsageGap := gap\<rparr>"
    have "told_once (told (?t gap))" for gap
      unfolding told_def by (rule once_more [OF that(1)]) (auto simp: told_def)
    then show ?thesis unfolding antigravityStepUsage_def Let_def using that by (auto intro!: once_usage)
  qed
  show ?thesis
  proof (cases "as_StepIndex u")
    case None
    then show ?thesis using Some assms(1) by (simp add: antigravityStepUpdate_def)
  next
    case n: (Some n)
    show ?thesis unfolding antigravityStepUpdate_def Some n option.case Let_def
      using assms(1) a b [OF a l] once_tool_step [OF assms] by (simp only: split: if_split) blast
  qed
qed (simp add: antigravityStepUpdate_def assms(1))


lemma once_settle:
  assumes "told_once (told (turn_of s i))" "i < length (se_turns s)"
  shows "told_once (told (turn_of (settle_turn s i stated status err) i))"
proof -
  have set: "told_once (told (turn_of (set_turn i (turn_of s i\<lparr>tu_Usage := w, tu_NativeError := n\<rparr>) s) i))" for w n using assms by simp
  have "told_once (told (turn_of (if c then session_emit s1 i ((event_of ''usage'')\<lparr>ev_Usage := w\<rparr>) else s1) i))"
    if "told_once (told (turn_of s1 i))" for c s1 w using that by (simp add: once_quiet event_of_def)
  then have "told_once (told (turn_of (session_emit (if c then session_emit s1 i ((event_of ''usage'')\<lparr>ev_Usage := w\<rparr>) else s1) i
      ((event_of ''status'')\<lparr>ev_Status := status\<rparr>)) i))" if "told_once (told (turn_of s1 i))" for c s1 w
    using that by (intro once_quiet) (simp_all add: event_of_def)
  then show ?thesis unfolding settle_turn_def Let_def told_turn_finish using set by blast
qed

lemma once_frame:
  assumes "told_once (told (turn_of s i))" "i < length (se_turns s)"
  shows "told_once (told (turn_of (antigravityEvent s i ref_id f) i))"
proof -
  have "told_once (told (turn_of (antigravityResult s i decoded) i))" for decoded
  proof (cases decoded)
    case (Some r)
    have a: "told_once (told (turn_of (if c then session_text s i item new True else s) i))" for c item new
      using assms once_text by simp
    have l: "i < length (se_turns (if c then session_text s i item new True else s))" for c item new
      using assms(2) moves_length [OF moves_text] by simp
    show ?thesis unfolding antigravityResult_def Some option.case Let_def case_prod_beta
      using once_settle [OF a l] assms(1) told_failTurn [of s None ErrProtocol i] by (simp only: split: if_split) blast
  qed (simp add: antigravityResult_def assms(1))
  then show ?thesis unfolding antigravityEvent_def
    using once_step [OF assms] assms(1) told_failTurn [of s None ErrProtocol i] by (simp only: split: if_split) blast
qed

lemma once_frames:
  "told_once (told (turn_of s i)) \<Longrightarrow> i < length (se_turns s) \<Longrightarrow> told_once (told (turn_of (fold (\<lambda>f s. antigravityEvent s i ref_id f) fs s) i))"
proof (induction fs arbitrary: s)
  case (Cons f fs)
  show ?case using Cons.IH [OF once_frame [OF Cons.prems] moves_length [OF moves_antigravity [OF Cons.prems(2)] Cons.prems(2)]] by simp
qed simp

lemma payload_status [simp]: "ev_Status (withToolPayload s e raw result) = ev_Status e"
  by (auto simp: withToolPayload_def payload_input_def payload_output_def split: prod.splits)

lemma mark_key_turn:
  assumes "i < length (se_turns s)"
  shows "turn_of (mark_key i k s) i = turn_of s i\<lparr>tu_antigravityTools := List.insert k (tu_antigravityTools (turn_of s i))\<rparr>"
    "length (se_turns (mark_key i k s)) = length (se_turns s)"
  using assms by (simp_all add: mark_key_def)

lemma told_fresh:
  assumes "i < length (se_turns s)" "item \<notin> set (tu_antigravityTools (turn_of s i))" "item @ '':done'' \<notin> set (tu_antigravityTools (turn_of s i))"
    "\<not> tu_finished (turn_of s i)" "length (tu_events (turn_of s i)) + 2 \<le> tu_buffer (turn_of s i)"
    "as_State u \<in> {''DONE'', ''ERROR'', ''CANCELED'', ''INTERRUPTED''}"
  shows "\<exists>e e'. tu_events (turn_of (antigravity_tool_step s i item u) i) = tu_events (turn_of s i) @ [e, e']
    \<and> (ev_Kind e, ev_ItemID e, ev_Status e) = (''tool_started'', item, ''in_progress'')
    \<and> (ev_Kind e', ev_ItemID e', ev_Status e') = (''tool_completed'', item, if as_State u = ''DONE'' then ''completed'' else ''failed'')"
proof -
  define s0 where "s0 = mark_key i item s"
  have s0: "turn_of s0 i = turn_of s i\<lparr>tu_antigravityTools := item # tu_antigravityTools (turn_of s i)\<rparr>" "i < length (se_turns s0)"
    using assms(1,2) by (simp_all add: s0_def mark_key_turn List.insert_def)
  define s1 where "s1 e = session_emit s0 i e" for e
  have s1: "turn_of (s1 e) i = turn_of s i\<lparr>tu_antigravityTools := item # tu_antigravityTools (turn_of s i), tu_events := tu_events (turn_of s i) @ [stamped (turn_of s i) e]\<rparr>"
    "i < length (se_turns (s1 e))" for e
    unfolding s1_def using s0 assms(4,5) by (simp_all add: emit_room stamped_def)
  define s2 where "s2 e = mark_key i (item @ '':done'') (s1 e)" for e
  have s2: "tu_events (turn_of (s2 e) i) = tu_events (turn_of s i) @ [stamped (turn_of s i) e]" "\<not> tu_finished (turn_of (s2 e) i)"
      "length (tu_events (turn_of s i)) + 2 \<le> tu_buffer (turn_of (s2 e) i)" "i < length (se_turns (s2 e))" for e
    unfolding s2_def using s1 assms(4,5) by (simp_all add: mark_key_turn)
  have last_event: "tu_events (turn_of (session_emit (s2 e) i e') i) = tu_events (turn_of s i) @ [stamped (turn_of s i) e, stamped (turn_of (s2 e) i) e']" for e e'
    using s2 [of e] by (simp add: emit_room)
  have new: "(item \<in> set (tu_antigravityTools (turn_of s i))) = False" "(as_State u \<notin> {''DONE'', ''ERROR'', ''CANCELED'', ''INTERRUPTED''}) = False"
    "(item @ '':done'' \<in> set (tu_antigravityTools (turn_of (s1 e) i))) = False" for e
    using assms(2,3,6) s1(1) by simp_all
  show ?thesis unfolding antigravity_tool_step_def Let_def s0_def [symmetric] new(1,2) if_False s1_def [symmetric] new(3) s2_def [symmetric] last_event
    by (simp add: stamped_def event_of_def)
qed

section \<open>Steps not heard of yet\<close>

lemma keys_emit [simp]: "tu_antigravityTools (turn_of (session_emit s i e) i) = tu_antigravityTools (turn_of s i)"
  using told_emit [of s i e] by (auto simp: told_def)

lemma keys_text: "i < length (se_turns s) \<Longrightarrow> tu_antigravityTools (turn_of (session_text s i item new r) i) = tu_antigravityTools (turn_of s i)"
proof -
  assume i: "i < length (se_turns s)"
  obtain t err where t: "text_turn (se_MaxTextBytes s) item new r (turn_of s i) = (t, err)" by fastforce
  have "tu_antigravityTools t = tu_antigravityTools (turn_of s i)" using told_text [of "se_MaxTextBytes s" item new r "turn_of s i"] t by (simp add: told_def)
  moreover have "tu_antigravityTools (turn_of (failTurn s' x e) i) = tu_antigravityTools (turn_of s' i)" for s' x e
    using told_failTurn [of s' x e i] by (simp add: told_def)
  ultimately show ?thesis using t i by (cases err) (auto simp: session_text_def)
qed

lemma keys_fail: "tu_antigravityTools (turn_of (failTurn s x e) i) = tu_antigravityTools (turn_of s i)"
  using told_failTurn [of s x e i] by (simp add: told_def)

lemma keys_settle: "i < length (se_turns s) \<Longrightarrow> tu_antigravityTools (turn_of (settle_turn s i stated status err) i) = tu_antigravityTools (turn_of s i)"
proof -
  assume i: "i < length (se_turns s)"
  have fin: "tu_antigravityTools (turn_of (turn_finish s' i st e) i) = tu_antigravityTools (turn_of s' i)" for s' st e
    using told_turn_finish [of s' i st e i] by (simp add: told_def)
  show ?thesis using i by (simp add: settle_turn_def Let_def fin)
qed

text \<open>A frame about a tool step of the turn.\<close>

definition tells :: "nat \<Rightarrow> antigravity_frame \<Rightarrow> bool" where
  "tells n f \<longleftrightarrow> af_event f = ''step_update'' \<and> (\<exists>u. af_step f = Some u \<and> as_StepIndex u = Some (int n) \<and> as_StepType u = ''tool'')"

definition unheard :: "nat \<Rightarrow> turn \<Rightarrow> bool" where
  "unheard n t \<longleftrightarrow> ''step-'' @ strconv_Itoa n \<notin> set (tu_antigravityTools t) \<and> ''step-'' @ strconv_Itoa n @ '':done'' \<notin> set (tu_antigravityTools t)"

lemma digits_apart:
  assumes "strconv_Itoa m @ a = strconv_Itoa n @ b" "a = [] \<or> hd a = CHR '':''" "b = [] \<or> hd b = CHR '':''"
  shows "m = n \<and> a = b"
proof -
  have d: "takeWhile (\<lambda>c. ascii_digit (byte c)) (strconv_Itoa k @ x) = strconv_Itoa k" if "x = [] \<or> hd x = CHR '':''" for k x
  proof -
    have "takeWhile (\<lambda>c. ascii_digit (byte c)) x = []" using that by (cases x) (auto simp: ascii_digit_def)
    then show ?thesis using Itoa_digits [of k] by (simp add: list_all_iff)
  qed
  from d [OF assms(2), of m] d [OF assms(3), of n] assms(1) have "strconv_Itoa m = strconv_Itoa n" by simp
  then show ?thesis using assms(1) by (simp add: Itoa_inj)
qed

lemma unheard_marks:
  assumes "unheard n t" "set (tu_antigravityTools t') \<subseteq> insert (''step-'' @ strconv_Itoa m @ '':usage'') (set (tu_antigravityTools t))
    \<or> m \<noteq> n \<and> set (tu_antigravityTools t') \<subseteq> {''step-'' @ strconv_Itoa m, ''step-'' @ strconv_Itoa m @ '':done''} \<union> set (tu_antigravityTools t)"
  shows "unheard n t'"
  using assms digits_apart [of m "'':usage''" n "[]"] digits_apart [of m "'':usage''" n "'':done''"] digits_apart [of m "[]" n "[]"]
    digits_apart [of m "[]" n "'':done''"] digits_apart [of m "'':done''" n "[]"] digits_apart [of m "'':done''" n "'':done''"]
  by (auto simp: unheard_def)

lemma keys_tool_step:
  assumes i: "i < length (se_turns s)"
  shows "set (tu_antigravityTools (turn_of (antigravity_tool_step s i item u) i)) \<subseteq> {item, item @ '':done''} \<union> set (tu_antigravityTools (turn_of s i))"
proof -
  have m: "set (tu_antigravityTools (turn_of (session_emit (mark_key i k s') i e) i)) = insert k (set (tu_antigravityTools (turn_of s' i)))"
    "i < length (se_turns (session_emit (mark_key i k s') i e))" if "i < length (se_turns s')" for k s' e
  proof -
    show "set (tu_antigravityTools (turn_of (session_emit (mark_key i k s') i e) i)) = insert k (set (tu_antigravityTools (turn_of s' i)))"
      using that by (simp add: mark_key_turn)
    show "i < length (se_turns (session_emit (mark_key i k s') i e))"
      using moves_length [OF moves_emit_from [OF moves_mark_key [OF that] that] that] .
  qed
  have first: "set (tu_antigravityTools (turn_of (if c then s else session_emit (mark_key i item s) i e) i)) \<subseteq> insert item (set (tu_antigravityTools (turn_of s i)))"
    "i < length (se_turns (if c then s else session_emit (mark_key i item s) i e))" for c e
    using m [OF i] i by auto
  have second: "set (tu_antigravityTools (turn_of (if c then s1 else if d then s1 else session_emit (mark_key i (item @ '':done'') s1) i e) i))
      \<subseteq> {item, item @ '':done''} \<union> set (tu_antigravityTools (turn_of s i))"
    if "set (tu_antigravityTools (turn_of s1 i)) \<subseteq> insert item (set (tu_antigravityTools (turn_of s i)))" "i < length (se_turns s1)" for c d s1 e
    using that m [OF that(2)] by auto
  show ?thesis unfolding antigravity_tool_step_def Let_def by (rule second [OF first])
qed

lemma unheard_step:
  assumes i: "i < length (se_turns s)" and "unheard n (turn_of s i)"
    "\<And>u. decoded = Some u \<Longrightarrow> as_StepIndex u = Some (int n) \<Longrightarrow> as_StepType u \<noteq> ''tool''"
  shows "unheard n (turn_of (antigravityStepUpdate s i decoded) i)"
proof (cases "\<exists>u k. decoded = Some u \<and> as_StepIndex u = Some (int k)")
  case True
  then obtain u k where u: "decoded = Some u" "as_StepIndex u = Some (int k)" by blast
  have item: "step_item (int k) = ''step-'' @ strconv_Itoa k" by (simp add: step_item_def)
  have same: "unheard n t \<Longrightarrow> tu_antigravityTools t' = tu_antigravityTools t \<Longrightarrow> unheard n t'" for t t' by (simp add: unheard_def)
  define s1 where "s1 = (if as_TextDelta u \<noteq> [] then session_text s i (step_item (int k)) (as_TextDelta u) False else s)"
  have s1: "tu_antigravityTools (turn_of s1 i) = tu_antigravityTools (turn_of s i)" "i < length (se_turns s1)"
    using keys_text [OF i] i moves_length [OF moves_text [OF i] i] by (auto simp: s1_def)
  have use': "tu_antigravityTools (turn_of (observeRequestUsage s' i x) i) = tu_antigravityTools (turn_of s' i)" if "i < length (se_turns s')" for s' x
    using that by (auto simp: observeRequestUsage_def Let_def observe_usage_def)
  have usage: "set (tu_antigravityTools (turn_of (antigravityStepUsage s1 i (step_item (int k)) rep) i))
      \<subseteq> insert (''step-'' @ strconv_Itoa k @ '':usage'') (set (tu_antigravityTools (turn_of s i)))" for rep
    using s1 by (auto simp: antigravityStepUsage_def Let_def use' item)
  have tool: "k \<noteq> n \<Longrightarrow> unheard n (turn_of (antigravity_tool_step s i (step_item (int k)) u) i)"
    using unheard_marks [OF assms(2)] keys_tool_step [OF i, of "step_item (int k)" u] unfolding item by auto
  have "unheard n (turn_of s1 i)" by (rule same [OF assms(2) s1(1)])
  moreover have "unheard n (turn_of (antigravityStepUsage s1 i (step_item (int k)) rep) i)" for rep
    using unheard_marks [OF assms(2)] usage by blast
  ultimately show ?thesis using u assms(2) assms(3) [OF u(1)] tool
    by (auto simp: antigravityStepUpdate_def s1_def [symmetric] Let_def)
next
  case False
  have "antigravityStepUpdate s i decoded = s"
  proof (cases decoded)
    case (Some u)
    with False have "k < 0" if "as_StepIndex u = Some k" for k using that nonneg_int_cases [of k] by (metis not_le)
    then show ?thesis using Some by (auto simp: antigravityStepUpdate_def split: option.splits)
  qed (simp add: antigravityStepUpdate_def)
  then show ?thesis using assms(2) by simp
qed

lemma unheard_frame:
  assumes i: "i < length (se_turns s)" and u: "unheard n (turn_of s i)" and "\<not> tells n f"
  shows "unheard n (turn_of (antigravityEvent s i ref_id f) i)"
proof -
  have same: "tu_antigravityTools t' = tu_antigravityTools (turn_of s i) \<Longrightarrow> unheard n t'" for t' using u by (simp add: unheard_def)
  have "unheard n (turn_of (antigravityResult s i decoded) i)" for decoded
  proof -
    have t: "i < length (se_turns (if c then session_text s i item new True else s))"
      "tu_antigravityTools (turn_of (if c then session_text s i item new True else s) i) = tu_antigravityTools (turn_of s i)" for c item new
      using i moves_length [OF moves_text [OF i] i] keys_text [OF i] by simp_all
    have "tu_antigravityTools (turn_of (antigravityResult s i decoded) i) = tu_antigravityTools (turn_of s i)"
      unfolding antigravityResult_def Let_def case_prod_beta
      using keys_settle [OF t(1)] t(2) by (simp only: keys_fail split: option.split if_split) (auto simp: keys_fail)
    then show ?thesis by (rule same)
  qed
  moreover have "unheard n (turn_of (antigravityStepUpdate s i (af_step f)) i)" if "af_event f = ''step_update''"
    by (rule unheard_step [OF i u]) (use assms(3) that in \<open>auto simp: tells_def\<close>)
  ultimately show ?thesis using u same [OF keys_fail] by (simp add: antigravityEvent_def)
qed

lemma unheard_frames:
  "i < length (se_turns s) \<Longrightarrow> unheard n (turn_of s i) \<Longrightarrow> list_all (\<lambda>f. \<not> tells n f) fs
     \<Longrightarrow> unheard n (turn_of (fold (\<lambda>f s. antigravityEvent s i ref_id f) fs s) i) \<and> i < length (se_turns (fold (\<lambda>f s. antigravityEvent s i ref_id f) fs s))"
proof (induction fs arbitrary: s)
  case (Cons f fs)
  then show ?case
    using Cons.IH [OF moves_length [OF moves_antigravity [OF Cons.prems(1)] Cons.prems(1)] unheard_frame [OF Cons.prems(1,2)]] by simp
qed simp

text \<open>C38.
  Antigravity repeats a step as it progresses, and each is told once: whatever frames it sends of a turn, in whatever order, a tool step is
  reported as started at most once and as completed at most once. A tool step that is first heard of when it is over, after whatever
  frames about anything else, is told as both, in that order and as completed only when it is done, as long as the turn is open and the
  consumer's buffer has room for two events.
\<close>

theorem antigravity_once:
  assumes "i < length (se_turns s)" "tu_events (turn_of s i) = []" "tu_antigravityTools (turn_of s i) = []"
    and "s' = fold (\<lambda>f s. antigravityEvent s i ref_id f) fs s"
  shows "length (filter (\<lambda>e. ev_Kind e = ''tool_started'' \<and> ev_ItemID e = item) (tu_events (turn_of s' i))) \<le> 1
    \<and> length (filter (\<lambda>e. ev_Kind e = ''tool_completed'' \<and> ev_ItemID e = item) (tu_events (turn_of s' i))) \<le> 1
    \<and> (list_all (\<lambda>f. \<not> tells n f) fs \<and> \<not> tu_finished (turn_of s' i) \<and> length (tu_events (turn_of s' i)) + 2 \<le> tu_buffer (turn_of s' i)
       \<and> antigravityConversation f \<in> {[], ref_id} \<and> af_event f = ''step_update'' \<and> af_step f = Some u
       \<and> as_StepIndex u = Some (int n) \<and> as_StepType u = ''tool'' \<and> as_State u \<in> {''DONE'', ''ERROR'', ''CANCELED'', ''INTERRUPTED''} \<longrightarrow>
       (\<exists>e e'. tu_events (turn_of (antigravityEvent s' i ref_id f) i) = tu_events (turn_of s' i) @ [e, e']
          \<and> (ev_Kind e, ev_ItemID e, ev_Status e) = (''tool_started'', ''step-'' @ strconv_Itoa n, ''in_progress'')
          \<and> (ev_Kind e', ev_ItemID e', ev_Status e')
            = (''tool_completed'', ''step-'' @ strconv_Itoa n, if as_State u = ''DONE'' then ''completed'' else ''failed'')))"
proof -
  have once: "told_once (told (turn_of s' i))"
    unfolding assms(4) by (rule once_frames [OF _ assms(1)]) (use assms(2) in \<open>simp add: told_once_def told_def reports_def\<close>)
  have o: "reports ''tool_started'' item (tu_events (turn_of s' i)) \<le> of_bool (item \<in> set (tu_antigravityTools (turn_of s' i)))"
    "reports ''tool_completed'' item (tu_events (turn_of s' i)) \<le> of_bool (item @ '':done'' \<in> set (tu_antigravityTools (turn_of s' i)))"
    using once by (auto simp: told_once_def told_def)
  have one: "of_bool b \<le> (1 :: nat)" for b by simp
  have both: "\<exists>e e'. tu_events (turn_of (antigravityEvent s' i ref_id f) i) = tu_events (turn_of s' i) @ [e, e']
      \<and> (ev_Kind e, ev_ItemID e, ev_Status e) = (''tool_started'', ''step-'' @ strconv_Itoa n, ''in_progress'')
      \<and> (ev_Kind e', ev_ItemID e', ev_Status e')
        = (''tool_completed'', ''step-'' @ strconv_Itoa n, if as_State u = ''DONE'' then ''completed'' else ''failed'')"
    if h: "list_all (\<lambda>f. \<not> tells n f) fs" "\<not> tu_finished (turn_of s' i)" "length (tu_events (turn_of s' i)) + 2 \<le> tu_buffer (turn_of s' i)"
      "antigravityConversation f \<in> {[], ref_id}" "af_event f = ''step_update''" "af_step f = Some u"
      "as_StepIndex u = Some (int n)" "as_StepType u = ''tool''" "as_State u \<in> {''DONE'', ''ERROR'', ''CANCELED'', ''INTERRUPTED''}"
  proof -
    have "unheard n (turn_of s i)" using assms(3) by (simp add: unheard_def)
    from unheard_frames [OF assms(1) this h(1)] have un: "unheard n (turn_of s' i)" "i < length (se_turns s')" unfolding assms(4) by auto
    have t: "antigravityEvent s' i ref_id f = antigravity_tool_step s' i (''step-'' @ strconv_Itoa n) u"
      using h(4-8) by (auto simp: antigravityEvent_def antigravityStepUpdate_def step_item_def)
    show ?thesis unfolding t by (rule told_fresh [OF un(2) _ _ h(2,3,9)]) (use un(1) in \<open>simp_all add: unheard_def\<close>)
  qed
  show ?thesis using o one both unfolding reports_def by (meson le_trans)
qed

definition demo_step :: "int \<Rightarrow> string \<Rightarrow> antigravity_frame" where
  "demo_step k state = \<lparr>af_conversation = [], af_step_conversation = None, af_result_conversation = None, af_event = ''step_update'',
     af_step = Some \<lparr>as_StepIndex = Some k, as_StepType = ''tool'', as_State = state, as_TextDelta = [], as_ToolName = ''shell'', as_Usage = None, as_ToolInfo = None\<rparr>,
     af_result = None\<rparr>"

theorem antigravity_once_witness:
  "\<exists>e e'. tu_events (turn_of (antigravityEvent demo_started 0 ''c'' (demo_step (int 3) ''ERROR'')) 0) = [e, e']
     \<and> ev_Kind e = ''tool_started'' \<and> ev_Kind e' = ''tool_completed'' \<and> ev_Status e' = ''failed''"
proof -
  have k: "tu_events (turn_of demo_started 0) = []" "tu_antigravityTools (turn_of demo_started 0) = []" "2 \<le> tu_buffer (turn_of demo_started 0)"
    by (simp_all add: demo_session_defs turn_of_def)
  have f: "antigravityConversation (demo_step (int 3) ''ERROR'') \<in> {[], ''c''}" "af_event (demo_step (int 3) ''ERROR'') = ''step_update''"
    by (simp_all add: demo_step_def antigravityConversation_def)
  have run: "demo_started = fold (\<lambda>f s. antigravityEvent s 0 ''c'' f) [] demo_started" by simp
  show ?thesis using antigravity_once [OF demo_started_fields(1) k(1,2) run, of "[]" 3 "demo_step (int 3) ''ERROR''" "the (af_step (demo_step (int 3) ''ERROR''))"]
    demo_started_fields(4) k f by (auto simp: demo_step_def)
qed

end
