(* ===== verification/Spec2Isabelle.thy ===== *)
theory Spec2Isabelle
  imports Tokens Redact Tool_Mcp Capability Failures Edge_Proxy Provider Transcript Session_Turns Api_Loop Chat Ws_Atomic Ws_Search Ws_Worker Dialects
begin

text \<open>
  Verification of lib-agent-harness, a Go library that gives an application one interface to several coding agents
  (the Codex, Claude, Grok, Command Code, Antigravity and fx command lines) and to OpenAI-compatible endpoints.

  \<^bold>\<open>The program.\<close> Package \<open>harness\<close> holds the vocabulary: engines, what each of them offers, providers, token usage and the
  facts of a failure. Package \<open>completion\<close> asks for a single response. Package \<open>session\<close> holds a conversation open: a
  \<open>Session\<close> runs one \<open>Turn\<close> at a time, either by translating the stream of a command line it started or, for an
  API endpoint, by running the loop of model responses and tool calls itself and recording every step in a transcript. A
  session may host the caller's tools on a local channel. Package \<open>internal/edgeproxy\<close> is the only way out of a
  confined session; package \<open>sandbox\<close> starts confined commands and serves the file tools of a workspace.

  \<^bold>\<open>Layout.\<close> One theory models one part, in the order in which the parts build on each other.

  \<^item> Go_Base and Go_Strings are the prelude: 64-bit integers as words read in two's complement, the functions of
    packages strings, strconv and utf8 that the code calls, generic lemmas, and the locale \<open>invariant_system\<close>, the
    principle that a relation preserving a predicate preserves it along every run. Go_Strings's collections
    \<open>go_string\<close> and \<open>go_int64\<close> carry the later proofs.
  \<^item> Tokens: usage.go, internal/tokens, completion/usage.go and the accumulation of session/turn.go, at 64-bit width. Sums
    are exact when they are given, the readers yield consistent reports, and two limits of the accumulation are
    stated.
  \<^item> Text_Bound and Redact: internal/textbound and session/redact.go. Cutting never exceeds its limit nor splits a
    character; the loop of \<open>bound\<close> is a partial function that is proved to return; scrubbing leaves no secret and
    sanitized text has no credential-like field. The Unicode tables above ASCII are an argument.
  \<^item> Json_Schema: JSON values, internal/rawjson and the preparation of tool schemas in internal/jsonschema.
  \<^item> Tool_Host and Tool_Mcp: session/tools.go, toolhost.go, toolhost_admission.go and toolhost_mcp.go. Each section the code
    runs under \<open>h.mu\<close> is one operation on the record \<open>host\<close>; calls, connections and the owner of the session interleave as
    a step relation, and its invariant gives serialization, the second barrier before a handler, the closing latch,
    settlement, the truth of outcomes and that pending calls drain. On top of it a channel has its connections: they are
    numbered, greeted with the comparison of what they present with the host's credential, and served line by line, interleaved with each other and
    with every step of the host. Only connections that presented the credential get anything done, and each only
    reaches its own calls.
  \<^item> Vocabulary, Capability_Text and Capability: harness.go, capability*.go and describe.go, with the support table entry by entry
    and the platform rules.
  \<^item> Net_Addr, Edge_Proxy and Provider: internal/edgeproxy/proxy.go (host names, destinations, the policy and the decision about one
    request) and the provider checks of harness.go. Resolution, dialling, base64, URL and IP parsing are arguments.
  \<^item> Failures: facts.go, internal/apihttp/apihttp.go, completion/errors.go, internal/claudeproto and the typed errors
    of session. Which failures are retryable, the limits of \<open>retryAfter\<close> at its width, and what a stream of Claude frames
    says about a refused request.
  \<^item> Transcript: session/api_transcript.go. The file is a list of bytes that can be cut at any point by a crash; reopening
    gives the records that were complete, recovery settles the calls that were under way, and the conversation sent to
    the model is well formed. The JSON of a record is a codec given as an argument, with named laws.
  \<^item> Session_Turns: session/turn.go, control.go, context.go, compact.go, the dispatch of events.go and \<open>failTurn\<close> of session.go. A
    step relation of every section the session runs under its lock; one turn at a time, a turn ends once, closing ends
    everything.
  \<^item> Api_Loop: session/api_session.go and api_loop.go. The environment (disk, endpoint, tool outcomes, interruption) is an argument
    asked at numbered moments, and what the rest of the session does meanwhile is any sequence of steps of Session_Turns. A request or a call
    that never returns and is never stopped is outside the model. A turn ends within its step limit, a call is durable before it is handed
    over, and a turn whose writes succeed leaves nothing to recover.
  \<^item> Json_Text and Tool_Payload: what the library relies on of encoding/json where bytes matter (the scanner behind \<open>json.Valid\<close>, the
    encoding of a string, compaction) and session/events_tools.go on top of it: tool arguments, results and images as events carry
    them, bounded, always valid JSON, without the credential of the channel.
  \<^item> Telemetry and Stream_Events: context occupancy (telemetry.go, telemetry_events.go and the context readers of telemetry_codex.go and
    telemetry_claude.go), the usage of a response, and that each of these operations is a sequence of the session's steps.
  \<^item> Codex_Events and Claude_Events: the stream dialects of the two command lines (events_codex.go, events_claude.go), every handler from
    decoded frames. Codex's notifications, repeated in a row, are counted once, in every figure; the frames that end a turn end it with the status, the
    accounting and the error the rules say.
  \<^item> Acp_Events and Dialects: the Agent Client Protocol as Grok, Command Code and fx speak it (acp_events.go, acp_turn.go,
    events_grok.go, events_commandcode.go, events_fx.go) and the stream of Antigravity (events_antigravity.go). All six dialects
    move the session only by its steps and leave a finished turn as it ended; the response to a prompt ends its turn by exact
    rules; a repeated step of Antigravity is told once.
  \<^item> Event_Stream and Chat: internal/apihttp/stream.go, completion/openai_chat.go, openai_stream.go and replay.go. Framing and its
    inverse, the assembly of a streamed response, the one judgement of a response, the provider state sent back with a
    message, and that accepted responses always form a history that can be sent again. Of the codec of that state only what package json
    promises of the envelopes \<open>captureReplay\<close> builds is assumed: they come back with their raw values compacted.
  \<^item> Ws_Path, Ws_Text, Workspace, Ws_Write, Ws_Atomic, Ws_Named, Ws_List, Ws_Search and Ws_Worker: the file tools of a workspace (internal/wsfile
    and workspace.go, walk.go, workspace_read.go, workspace_list.go, search.go, write.go and worker.go of package sandbox). Names and their
    spelling come first, with package path; then texts (errors, pages of a file, edits). The file system is a history: what it is
    like at each moment, which calls fail, which of those take effect all the same, and when the caller's context ends are
    given by a record \<open>world\<close>, and every system call takes one moment. Whatever such a history says, tools read, list and
    search only below directories they entered and checked, write only there, hold no handle afterwards (those on directories, targets,
    temporary files and directories to sync are all counted) and stay within the budget of a result; the path a listing or a
    match shows is the one it was reached by (Ws_Named); the pages of a file, read by following the notes in their text, give the file; a file that is replaced is at every moment the old one or the complete new one. One worker runs
    these operations, and what it tells their callers, cancelled and stuck ones included, is true.

  \<^bold>\<open>Interfaces.\<close> \<open>invariant_system\<close> (Go_Base) is interpreted for the tool host, for its channel of connections, for the session and for the worker of a workspace; \<open>loop_invariant\<close> and
  \<open>loop_kept\<close> (Api_Loop) carry a property of one round of the turn loop to the whole turn and are interpreted for the
  request count, the liveness of the turn and the journal of writes; \<open>visit_invariant\<close> (Ws_List) carries a property of one visited name
  to the reading of a directory and is interpreted for listing and, twice, for searching. The API loop runs on the operations of Transcript and
  Session_Turns and on the outcomes of Tool_Host, as the code does.

  \<^bold>\<open>Bounds and fuel.\<close> No definition uses fuel. The loops of \<open>bound\<close> and of \<open>boundToolInput\<close> are partial functions in the option monad with proofs that they
  return; the loops of the turn and of the event reader are total functions, by the step limit and by the length of the
  body; the walks of a workspace are total functions by the limit of names they visit and the limit of links they follow. Following
  the notes of read_file is a partial function too, and is shown to return. Where a value computed from figures can overflow it is a word, and where the code compares lengths
  it is a natural number. Counters that only count up by one (the generation and the connections of a tool host, 64-bit in the code, and
  the generation of the caller's context) are natural numbers: they would wrap only after as many operations as their width can count.

  \<^bold>\<open>Not modelled.\<close> Starting, watching and sweeping processes (process, session/launch.go, transport.go), the platform probes of the
  sandbox and its profiles, account and quota reports, the catalogue and account queries, shared
  logins, skills, the decoders of one-shot native runs, cassettes and test support: these are either operating-system effects or readers
  of vendor answers the modelled core is independent of. What the modelled code takes from them is an argument of its definitions.
\<close>

end
